(* ===== verification/Hz10_Prelude.thy ===== *)
theory Hz10_Prelude
  imports Main "HOL-Library.Word" "HOL-Library.Monad_Syntax"
begin

unbundle bit_operations_syntax

text \<open>
  What every component of the HZ10 and HZ12 models shares: the widths of the C integers, the reading of a
  pointer as a 64-bit word (0 is NULL), arithmetic of 64 KiB quanta and of slot addresses, and
  the relational abstraction of an intrusive singly linked list. The collections \<open>hz10_simps\<close>
  (facts that unfold small operations) and \<open>hz10_frame\<close> (what an operation leaves alone) are
  filled by the component theories.
\<close>

named_theorems hz10_simps \<open>unfolding rules of small operations\<close>
named_theorems hz10_frame \<open>fields and memory an operation does not change\<close>

type_synonym u32 = "32 word"
type_synonym u64 = "64 word"
type_synonym addr = "64 word"
type_synonym memory = "addr \<Rightarrow> u64"

section \<open>Words\<close>

lemma unat_u32_lt [simp]: "unat (x :: u32) < 4294967296"
  by (rule less_le_trans [OF unsigned_less]) simp

lemma unat_u64_lt [simp]: "unat (x :: u64) < 18446744073709551616"
  by (rule less_le_trans [OF unsigned_less]) simp

lemma unat_ucast_u32_u64 [simp]: "unat (ucast (x :: u32) :: u64) = unat x"
  by (simp add: unsigned_ucast_eq take_bit_nat_eq_self_iff less_trans [OF unat_u32_lt])

lemma unat_mult_u32: "unat (ucast (a :: u32) * ucast (b :: u32) :: u64) = unat a * unat b"
proof -
  have "unat a * unat b \<le> 4294967295 * 4294967295"
    by (rule mult_le_mono) (use unat_u32_lt [of a] unat_u32_lt [of b] in linarith)+
  then have "unat a * unat b < 2 ^ 64" by simp
  then show ?thesis by (simp add: unat_word_ariths)
qed

lemma unat_add_no_wrap:
  "unat (a :: 'w::len word) + unat b < 2 ^ LENGTH('w) \<Longrightarrow> unat (a + b) = unat a + unat b"
  by (simp add: unat_word_ariths)

lemma unat_suc_u32: "unat (a :: u32) < unat (b :: u32) \<Longrightarrow> unat (a + 1) = Suc (unat a)"
  using unat_u32_lt [of b] by (subst unat_add_no_wrap) (simp_all del: unat_u32_lt)

lemma unat_dec: "(a :: 'w::len word) \<noteq> 0 \<Longrightarrow> unat (a - 1) = unat a - 1"
  by (rule unat_minus_one)

lemma unat_dec_Suc: "unat (a :: 'w::len word) = Suc n \<Longrightarrow> unat (a - 1) = n"
  by (subst unat_dec) auto

lemma unat_AND_mask: "unat ((x :: 'w::len word) AND mask n) = unat x mod 2 ^ n"
  by (simp add: unsigned_take_bit_eq flip: take_bit_eq_mask take_bit_eq_mod)

lemma unat_and_15: "unat ((x :: u64) AND 15) = unat x mod 16"
  using unat_AND_mask [of x 4] by (simp add: mask_eq_exp_minus_1)

lemma and_15_eq_0: "(x :: u64) AND 15 = 0 \<longleftrightarrow> unat x mod 16 = 0"
  using unat_and_15 [of x] by (metis unat_0 unat_eq_zero)

lemma unat_and_quantum: "unat ((x :: u64) AND 65535) = unat x mod 65536"
  using unat_AND_mask [of x 16] by (simp add: mask_eq_exp_minus_1)

lemma and_quantum_eq_0: "(x :: u64) AND 65535 = 0 \<longleftrightarrow> unat x mod 65536 = 0"
  using unat_and_quantum [of x] by (metis unat_0 unat_eq_zero)

lemma unat_align_down: "unat ((x :: u64) AND NOT 65535) = unat x - unat x mod 65536"
proof -
  have eq: "x AND NOT 65535 = x - (x AND 65535)"
  proof -
    have "NOT x AND (x AND 65535) = 0"
      by (rule bit_word_eqI) (simp add: bit_and_iff bit_not_iff)
    then have "x - (x AND 65535) = x AND NOT (x AND 65535)" by (rule disjunctive_diff_eq_and_not)
    also have "\<dots> = x AND NOT 65535"
      by (rule bit_word_eqI) (auto simp only: bit_and_iff bit_not_iff)
    finally show ?thesis by (rule sym)
  qed
  have "x AND 65535 \<le> x" unfolding word_le_nat_alt unat_and_quantum by (rule mod_less_eq_dividend)
  then show ?thesis unfolding eq by (simp only: unat_sub unat_and_quantum)
qed

lemma unat_drop_bit_16: "unat (drop_bit 16 (x :: u64)) = unat x div 65536"
  using unat_drop_bit_eq [of 16 x] by (simp add: drop_bit_eq_div)

lemma quantum_aligned_bound:
  assumes "unat (b :: u64) mod 65536 = 0"
  shows "unat b + 65536 \<le> 18446744073709551616"
proof -
  have "unat b div 65536 < 281474976710656"
    using unat_u64_lt [of b] by (simp add: less_mult_imp_div_less)
  moreover have "unat b = unat b div 65536 * 65536" using assms by (simp add: mod_0_imp_dvd)
  ultimately show ?thesis by linarith
qed

lemma unat_pow2_u64: "e < 64 \<Longrightarrow> unat (2 ^ e :: u64) = 2 ^ e"
proof -
  assume "e < 64"
  then have "(2::nat) ^ e < 2 ^ 64" by (intro power_strict_increasing) auto
  moreover have "(2 ^ e :: u64) = of_nat (2 ^ e)" by simp
  ultimately show ?thesis by (simp only: unat_of_nat) simp
qed

lemma word_sub_add: "(a :: 'w::len word) - b + b = a" "b + (a - b) = a"
  by simp_all

lemma bit_pow2: "l < 64 \<Longrightarrow> bit (2 ^ k :: u64) l \<longleftrightarrow> l = k"
  by (auto simp: bit_exp_iff)

lemma div_mod_64_eq: "i div 64 = j div 64 \<and> i mod 64 = j mod 64 \<longleftrightarrow> i = (j :: nat)"
  by (metis div_mult_mod_eq)

lemma unat_u32_div_mod_64: "unat ((i :: u32) div 64) = unat i div 64" "unat ((i :: u32) mod 64) = unat i mod 64"
  by (simp_all add: unat_div unat_mod)

section \<open>Slot addresses\<close>

text \<open>\<open>(char*)base + (size_t)i * (size_t)slot_size\<close>.\<close>

definition slot_addr :: "addr \<Rightarrow> u32 \<Rightarrow> nat \<Rightarrow> addr" where
  "slot_addr b s i = b + of_nat i * ucast s"

lemma slot_addr_0 [simp]: "slot_addr b s 0 = b"
  by (simp add: slot_addr_def)

lemma slot_addr_diff: "i * unat s < 18446744073709551616 \<Longrightarrow> unat (slot_addr b s i - b) = i * unat s"
proof -
  assume lt: "i * unat s < 18446744073709551616"
  have "slot_addr b s i - b = of_nat (i * unat s)" by (simp add: slot_addr_def)
  with lt show ?thesis by (simp only: unat_of_nat) simp
qed

lemma unat_slot_addr_plus:
  assumes "unat b mod 65536 = 0" "i * unat s + k < 65536"
  shows "unat (slot_addr b s i + of_nat k) = unat b + i * unat s + k"
proof -
  have o: "slot_addr b s i + of_nat k = b + of_nat (i * unat s + k)" by (simp add: slot_addr_def)
  have k: "unat (of_nat (i * unat s + k) :: u64) = i * unat s + k"
    using assms(2) by (simp only: unat_of_nat) simp
  show ?thesis unfolding o
    by (subst unat_add_no_wrap) (use quantum_aligned_bound [OF assms(1)] assms(2) k in simp_all)
qed

lemma unat_slot_addr:
  "unat b mod 65536 = 0 \<Longrightarrow> i * unat s < 65536 \<Longrightarrow> unat (slot_addr b s i) = unat b + i * unat s"
  using unat_slot_addr_plus [of b i s 0] by simp

section \<open>Intrusive singly linked lists\<close>

text \<open>
  \<open>chain nx h xs\<close>: starting at \<open>h\<close> and following \<open>nx\<close>, the nodes are exactly \<open>xs\<close> and the
  list ends in NULL. The freelist and the remote stripes follow a word of the slot itself, the
  page lists, the page pool and the metadata list follow a field of the node.
\<close>

fun chain :: "(addr \<Rightarrow> addr) \<Rightarrow> addr \<Rightarrow> addr list \<Rightarrow> bool" where
  "chain nx h [] \<longleftrightarrow> h = 0"
| "chain nx h (x # xs) \<longleftrightarrow> h = x \<and> x \<noteq> 0 \<and> chain nx (nx x) xs"

lemma chain_null [simp]: "chain nx 0 xs \<longleftrightarrow> xs = []"
  by (cases xs) auto

lemma chain_nonnull: "h \<noteq> 0 \<Longrightarrow> chain nx h xs \<longleftrightarrow> (\<exists>ys. xs = h # ys \<and> chain nx (nx h) ys)"
  by (cases xs) auto

lemma chain_not_null: "chain nx h xs \<Longrightarrow> 0 \<notin> set xs"
  by (induction xs arbitrary: h) auto

lemma chain_Nil_iff: "chain nx h xs \<Longrightarrow> h = 0 \<longleftrightarrow> xs = []"
  by (cases xs) auto

lemma chain_unique: "chain nx h xs \<Longrightarrow> chain nx h ys \<Longrightarrow> xs = ys"
  by (induction xs arbitrary: h ys) (auto simp: chain_nonnull)

lemma chain_cong: "(\<And>x. x \<in> set xs \<Longrightarrow> nx x = nx' x) \<Longrightarrow> chain nx h xs \<longleftrightarrow> chain nx' h xs"
  by (induction xs arbitrary: h) auto

lemma chain_upd [simp]: "a \<notin> set xs \<Longrightarrow> chain (nx(a := v)) h xs \<longleftrightarrow> chain nx h xs"
  by (rule chain_cong) auto

lemma chain_app: "chain nx h (xs @ y # ys) \<Longrightarrow> chain nx y (y # ys)"
  by (induction xs arbitrary: h) auto

lemma chain_hd_notin_tl: "chain nx h (x # xs) \<Longrightarrow> x \<notin> set xs"
proof
  assume c: "chain nx h (x # xs)" and "x \<in> set xs"
  then obtain us vs where xs: "xs = us @ x # vs" by (meson split_list)
  have "chain nx x (x # vs)" by (rule chain_app [of nx h "x # us"]) (use c xs in simp)
  moreover have "chain nx x (x # xs)" using c by auto
  ultimately have "x # vs = x # xs" by (rule chain_unique)
  then show False using xs by simp
qed

lemma chain_distinct: "chain nx h xs \<Longrightarrow> distinct xs"
proof (induction xs arbitrary: h)
  case (Cons x xs)
  then show ?case using chain_hd_notin_tl [OF Cons.prems] by auto
qed simp

lemma chain_push_back:
  "chain nx h (zs @ [z]) \<Longrightarrow> y \<noteq> 0 \<Longrightarrow> (\<And>x. x \<in> set zs \<Longrightarrow> nx' x = nx x) \<Longrightarrow> nx' z = y \<Longrightarrow> nx' y = 0 \<Longrightarrow>
     chain nx' h (zs @ [z, y])"
  by (induction zs arbitrary: h) auto

lemma chain_remove:
  assumes "chain nx h (us @ x # vs)"
    and "\<And>y. y \<in> set vs \<Longrightarrow> nx' y = nx y" "\<And>y. y \<in> set (butlast us) \<Longrightarrow> nx' y = nx y"
    and "us \<noteq> [] \<Longrightarrow> nx' (last us) = nx x"
  shows "chain nx' (if us = [] then nx x else h) (us @ vs)"
  using assms
proof (induction us arbitrary: h)
  case Nil
  have "chain nx (nx x) vs" using Nil(1) by simp
  then have "chain nx' (nx x) vs" using Nil(2) chain_cong by metis
  then show ?case by simp
next
  case (Cons u us)
  have u: "h = u" "u \<noteq> 0" "chain nx (nx u) (us @ x # vs)" using Cons.prems(1) by auto
  have "chain nx' (if us = [] then nx x else nx u) (us @ vs)"
    by (rule Cons.IH [OF u(3)]) (use Cons.prems in \<open>auto split: if_splits\<close>)
  moreover have "nx' u = (if us = [] then nx x else nx u)"
    using Cons.prems(3,4) by auto
  ultimately show ?case using u by simp
qed

lemma chain_last_link: "chain nx h (us @ [x]) \<Longrightarrow> nx x = 0"
  by (induction us arbitrary: h) auto

lemma chain_app_link: "chain nx h (us @ x # vs) \<Longrightarrow> nx x = (case vs of [] \<Rightarrow> 0 | v # _ \<Rightarrow> v)"
  by (induction us arbitrary: h) (auto split: list.splits)

section \<open>Lists\<close>

lemma finite_sum_lengths: "length xs = card (set xs) \<longleftrightarrow> distinct xs"
  by (metis card_distinct distinct_card)

lemma distinct_bounded_length:
  "distinct (xs :: nat list) \<Longrightarrow> \<forall>i\<in>set xs. i < n \<Longrightarrow> length xs \<le> n"
proof -
  assume d: "distinct xs" and b: "\<forall>i\<in>set xs. i < n"
  have "card (set xs) \<le> card {..<n}" by (rule card_mono) (use b in auto)
  with d show ?thesis by (simp add: distinct_card)
qed

end
