(* ===== verification/Hz10_Config.thy ===== *)
theory Hz10_Config
  imports Hz10_Prelude
begin

text \<open>
  The compile-time switches of HZ10 (\<open>#if HZ10_ENABLE_...\<close>) that change what the code does,
  as a record the operations take as their first argument, and the constants of
  \<open>hz10_pagemap.h\<close>, \<open>hz10_freelist_page.h\<close> and \<open>hz10_class_pages.h\<close>. \<open>default_config\<close> is the
  build with no switch given on the command line. The switches that only compile counters in
  (\<open>..._STATS\<close>) are not modelled: the model is the build without them.
\<close>

record hz10_config =
  cfg_fine_size_classes :: bool
  cfg_bump_init :: bool
  cfg_stripe_spread :: bool
  cfg_active_mtf :: bool
  cfg_retired_local_idle :: bool
  cfg_orphan_active_adoption :: bool
  cfg_partial_orphan_adoption :: bool
  cfg_front_cache :: bool

definition default_config :: hz10_config where
  "default_config = \<lparr> cfg_fine_size_classes = False, cfg_bump_init = True,
     cfg_stripe_spread = True, cfg_active_mtf = False, cfg_retired_local_idle = False,
     cfg_orphan_active_adoption = False, cfg_partial_orphan_adoption = False,
     cfg_front_cache = False \<rparr>"

abbreviation (input) HZ10_PAGE_QUANTUM :: "'w::len word" where "HZ10_PAGE_QUANTUM \<equiv> 65536"
abbreviation (input) HZ10_MIN_ALIGN :: u64 where "HZ10_MIN_ALIGN \<equiv> 16"
abbreviation (input) HZ10_GENERATION_ANY :: u32 where "HZ10_GENERATION_ANY \<equiv> 0"
abbreviation (input) HZ10_REMOTE_STRIPE_COUNT :: nat where "HZ10_REMOTE_STRIPE_COUNT \<equiv> 4"
abbreviation (input) HZ10_STRIPE_SPREAD_MAX_SLOT_SIZE :: u32 where
  "HZ10_STRIPE_SPREAD_MAX_SLOT_SIZE \<equiv> 64"
abbreviation (input) HZ10_FREELIST_LOCAL_MARKER :: u64 where
  "HZ10_FREELIST_LOCAL_MARKER \<equiv> 0x4831304c46524545"
abbreviation (input) HZ10_CLASS_PAGES_SCAN_LIMIT :: u32 where "HZ10_CLASS_PAGES_SCAN_LIMIT \<equiv> 128"
abbreviation (input) HZ10_CLASS_PAGES_SWEEP_BUDGET :: u32 where "HZ10_CLASS_PAGES_SWEEP_BUDGET \<equiv> 4"

end
