(* ===== verification/Hz10_Intrusive.thy ===== *)
theory Hz10_Intrusive
  imports Hz10_Prelude
begin

text \<open>
  The one data structure HZ10 uses everywhere: a stack threaded through the nodes themselves. The
  page freelist, the remote stripes, the metadata node list, the page pool and the ready stack all
  push and pop this way; what differs is where a node keeps its link (a word of the slot, a field
  of the page). A locale states what an operation must do to the links and the top; the lemmas
  that follow are proved once and each component interprets the locale on its own operations.
\<close>

locale intrusive_push =
  fixes node :: "'s \<Rightarrow> addr \<Rightarrow> bool"
    and link :: "'s \<Rightarrow> addr \<Rightarrow> addr"
    and top :: "'s \<Rightarrow> addr"
    and push :: "addr \<Rightarrow> 's \<Rightarrow> 's"
  assumes push_top: "node s a \<Longrightarrow> top (push a s) = a"
    and push_link: "node s a \<Longrightarrow> node s b \<Longrightarrow>
      link (push a s) b = (if b = a then top s else link s b)"
    and push_node: "node s a \<Longrightarrow> node (push a s) b \<longleftrightarrow> node s b"
    and node_nonnull: "node s a \<Longrightarrow> a \<noteq> 0"
begin

lemma push_chain:
  assumes "chain (link s) (top s) xs" "\<And>x. x \<in> set xs \<Longrightarrow> node s x" "node s a" "a \<notin> set xs"
  shows "chain (link (push a s)) (top (push a s)) (a # xs)"
proof -
  have "chain (link (push a s)) (top s) xs \<longleftrightarrow> chain (link s) (top s) xs"
    by (rule chain_cong) (use assms push_link in auto)
  then show ?thesis
    using assms push_top push_link [of s a a] node_nonnull [of s a] by simp
qed

text \<open>A list elsewhere that shares no node with the pushed one is untouched.\<close>

lemma push_other_chain:
  assumes "chain (link s) h ys" "\<And>y. y \<in> set ys \<Longrightarrow> node s y" "node s a" "a \<notin> set ys"
  shows "chain (link (push a s)) h ys"
proof -
  have "chain (link (push a s)) h ys \<longleftrightarrow> chain (link s) h ys"
    by (rule chain_cong) (use assms push_link in auto)
  then show ?thesis using assms(1) by simp
qed

end

locale intrusive_stack = intrusive_push +
  fixes pop :: "'s \<Rightarrow> addr \<times> 's"
  assumes pop_result: "top s \<noteq> 0 \<Longrightarrow> fst (pop s) = top s"
    and pop_top: "top s \<noteq> 0 \<Longrightarrow> node s (top s) \<Longrightarrow> top (snd (pop s)) = link s (top s)"
    and pop_link: "top s \<noteq> 0 \<Longrightarrow> node s (top s) \<Longrightarrow> node s b \<Longrightarrow> b \<noteq> top s \<Longrightarrow>
      link (snd (pop s)) b = link s b"
    and pop_node: "top s \<noteq> 0 \<Longrightarrow> node s (top s) \<Longrightarrow> node (snd (pop s)) b \<longleftrightarrow> node s b"
begin

lemma pop_chain:
  assumes "chain (link s) (top s) (x # xs)" "\<And>y. y \<in> set (x # xs) \<Longrightarrow> node s y"
  shows "fst (pop s) = x" "chain (link (snd (pop s))) (top (snd (pop s))) xs"
proof -
  have x: "top s = x" "top s \<noteq> 0" and c: "chain (link s) (link s x) xs" using assms(1) by auto
  have "x \<notin> set xs" using chain_hd_notin_tl [OF assms(1)] .
  then have "chain (link (snd (pop s))) (link s x) xs \<longleftrightarrow> chain (link s) (link s x) xs"
    by (intro chain_cong) (use assms x pop_link in auto)
  then show "chain (link (snd (pop s))) (top (snd (pop s))) xs"
    using c x assms(2) by (simp add: pop_top)
  show "fst (pop s) = x" using x by (simp add: pop_result)
qed

text \<open>Last in, first out: a pop after a push gives the pushed node and the old list back.\<close>

lemma pop_push:
  assumes "chain (link s) (top s) xs" "\<And>x. x \<in> set xs \<Longrightarrow> node s x" "node s a" "a \<notin> set xs"
  shows "fst (pop (push a s)) = a" "chain (link (snd (pop (push a s)))) (top (snd (pop (push a s)))) xs"
proof -
  have c: "chain (link (push a s)) (top (push a s)) (a # xs)" by (rule push_chain [OF assms])
  have "\<And>y. y \<in> set (a # xs) \<Longrightarrow> node (push a s) y" using assms by (auto simp: push_node)
  then show "fst (pop (push a s)) = a"
    "chain (link (snd (pop (push a s)))) (top (snd (pop (push a s)))) xs"
    using pop_chain [OF c] by blast+
qed

end

end
