(* ===== verification/Hz10_Freelist_Page.thy ===== *)
theory Hz10_Freelist_Page
  imports Hz10_Config Hz10_Intrusive
begin

text \<open>
  \<open>hz10_freelist_page.h\<close>: the page header and the owner-thread fast path. A page is read together
  with payload memory (\<open>page_view\<close>), since the freelist is threaded through the first word of each
  free slot and the local-free marker sits in the second. \<open>page_rel\<close> says which abstract page
  (free slots in order, remote stripes, claimed slots, bump frontier) a view represents; \<open>alloc\<close>
  and \<open>free\<close> are shown to implement the abstract operations, whatever user data the handed-out
  slots hold.
\<close>

section \<open>The page\<close>

record Hz10FreelistPage =
  pg_base :: addr
  pg_local_free_head :: addr
  pg_slot_size :: u32
  pg_slot_count :: u32
  pg_free_count :: u32
  pg_bump_index :: u32
  pg_generation :: u32
  pg_class_id :: u32
  pg_owner_list_kind :: u32
  pg_adopted_count :: u32
  pg_orphaned_at_ns :: u64
  pg_owner_thread_token :: addr
  pg_next_in_owner_list :: addr
  pg_prev_in_owner_list :: addr
  pg_remote_free_head :: "nat \<Rightarrow> addr"
  pg_remote_free_spread :: "(nat \<Rightarrow> addr) option"
  pg_pending_bits :: "nat \<Rightarrow> u64"
  pg_pending_words :: u32
  pg_remote_duplicate_count :: u64
  pg_remote_invalid_count :: u64
  pg_drain_count :: u64
  pg_drain_slot_count :: u64
  pg_drain_invalid_count :: u64
  pg_retired_ready_flag :: u32
  pg_retired_ready_outstanding :: u32
  pg_retired_ready_next :: addr
  pg_retired_ready_stack :: addr
  pg_retired_ready_on_stack :: u32
  pg_retired_ready_generation :: u32

text \<open>A page after \<open>memset(node, 0, sizeof(*node))\<close>.\<close>

definition zero_page :: Hz10FreelistPage where
  "zero_page = \<lparr>pg_base = 0, pg_local_free_head = 0, pg_slot_size = 0, pg_slot_count = 0,
     pg_free_count = 0, pg_bump_index = 0, pg_generation = 0, pg_class_id = 0,
     pg_owner_list_kind = 0, pg_adopted_count = 0, pg_orphaned_at_ns = 0,
     pg_owner_thread_token = 0, pg_next_in_owner_list = 0, pg_prev_in_owner_list = 0,
     pg_remote_free_head = (\<lambda>_. 0), pg_remote_free_spread = None, pg_pending_bits = (\<lambda>_. 0),
     pg_pending_words = 0, pg_remote_duplicate_count = 0, pg_remote_invalid_count = 0,
     pg_drain_count = 0, pg_drain_slot_count = 0, pg_drain_invalid_count = 0,
     pg_retired_ready_flag = 0, pg_retired_ready_outstanding = 0, pg_retired_ready_next = 0,
     pg_retired_ready_stack = 0, pg_retired_ready_on_stack = 0, pg_retired_ready_generation = 0\<rparr>"

type_synonym page_view = "memory \<times> Hz10FreelistPage"

abbreviation (input) HZ10_FREELIST_PAGE_OWNER_LIST_NONE :: u32 where
  "HZ10_FREELIST_PAGE_OWNER_LIST_NONE \<equiv> 0"
abbreviation (input) HZ10_FREELIST_PAGE_OWNER_LIST_ACTIVE :: u32 where
  "HZ10_FREELIST_PAGE_OWNER_LIST_ACTIVE \<equiv> 1"
abbreviation (input) HZ10_FREELIST_PAGE_OWNER_LIST_RETIRED :: u32 where
  "HZ10_FREELIST_PAGE_OWNER_LIST_RETIRED \<equiv> 2"

section \<open>Operations\<close>

definition hz10_freelist_page_set_owner_thread :: "addr \<Rightarrow> Hz10FreelistPage \<Rightarrow> Hz10FreelistPage" where
  "hz10_freelist_page_set_owner_thread token p = p\<lparr>pg_owner_thread_token := token\<rparr>"

definition hz10_freelist_page_owner_thread :: "Hz10FreelistPage \<Rightarrow> addr" where
  "hz10_freelist_page_owner_thread p = pg_owner_thread_token p"

definition hz10_freelist_page_set_class_id :: "u32 \<Rightarrow> Hz10FreelistPage \<Rightarrow> Hz10FreelistPage" where
  "hz10_freelist_page_set_class_id class_id p = p\<lparr>pg_class_id := class_id\<rparr>"

definition hz10_freelist_page_note_adopted :: "Hz10FreelistPage \<Rightarrow> Hz10FreelistPage" where
  "hz10_freelist_page_note_adopted p = p\<lparr>pg_adopted_count := pg_adopted_count p + 1\<rparr>"

text \<open>The head cell of a stripe: in the spread array when the page has one.\<close>

definition hz10_freelist_page_remote_head :: "Hz10FreelistPage \<Rightarrow> nat \<Rightarrow> addr" where
  "hz10_freelist_page_remote_head p stripe =
     (case pg_remote_free_spread p of Some spread \<Rightarrow> spread stripe
      | None \<Rightarrow> pg_remote_free_head p stripe)"

definition set_remote_head :: "nat \<Rightarrow> addr \<Rightarrow> Hz10FreelistPage \<Rightarrow> Hz10FreelistPage" where
  "set_remote_head stripe v p =
     (case pg_remote_free_spread p of
        Some spread \<Rightarrow> p\<lparr>pg_remote_free_spread := Some (spread(stripe := v))\<rparr>
      | None \<Rightarrow> p\<lparr>pg_remote_free_head := (pg_remote_free_head p)(stripe := v)\<rparr>)"

definition hz10_freelist_page_slot_marker_ptr :: "Hz10FreelistPage \<Rightarrow> addr \<Rightarrow> addr option" where
  "hz10_freelist_page_slot_marker_ptr p ptr =
     (if pg_slot_size p < 16 then None else Some (ptr + 8))"

definition hz10_freelist_page_mark_local_free :: "Hz10FreelistPage \<Rightarrow> addr \<Rightarrow> memory \<Rightarrow> memory" where
  "hz10_freelist_page_mark_local_free p ptr m =
     (case hz10_freelist_page_slot_marker_ptr p ptr of
        Some marker \<Rightarrow> m(marker := HZ10_FREELIST_LOCAL_MARKER) | None \<Rightarrow> m)"

definition hz10_freelist_page_clear_local_free_marker ::
  "Hz10FreelistPage \<Rightarrow> addr \<Rightarrow> memory \<Rightarrow> memory" where
  "hz10_freelist_page_clear_local_free_marker p ptr m =
     (case hz10_freelist_page_slot_marker_ptr p ptr of Some marker \<Rightarrow> m(marker := 0) | None \<Rightarrow> m)"

definition hz10_freelist_page_is_marked_local_free :: "Hz10FreelistPage \<Rightarrow> addr \<Rightarrow> memory \<Rightarrow> bool" where
  "hz10_freelist_page_is_marked_local_free p ptr m =
     (case hz10_freelist_page_slot_marker_ptr p ptr of
        Some marker \<Rightarrow> m marker = HZ10_FREELIST_LOCAL_MARKER | None \<Rightarrow> False)"

definition hz10_freelist_page_alloc :: "hz10_config \<Rightarrow> page_view \<Rightarrow> addr \<times> page_view" where
  "hz10_freelist_page_alloc cfg v =
    (let (m, p) = v; slot = pg_local_free_head p in
     if slot \<noteq> 0 then
       (slot, hz10_freelist_page_clear_local_free_marker p slot m,
        p\<lparr>pg_local_free_head := m slot, pg_free_count := pg_free_count p - 1\<rparr>)
     else if cfg_bump_init cfg \<and> pg_bump_index p < pg_slot_count p then
       let fresh = pg_base p + ucast (pg_bump_index p) * ucast (pg_slot_size p) in
       (fresh, hz10_freelist_page_clear_local_free_marker p fresh m,
        p\<lparr>pg_bump_index := pg_bump_index p + 1, pg_free_count := pg_free_count p - 1\<rparr>)
     else (0, m, p))"

definition hz10_freelist_page_has_capacity :: "hz10_config \<Rightarrow> Hz10FreelistPage \<Rightarrow> bool" where
  "hz10_freelist_page_has_capacity cfg p =
     (if pg_local_free_head p \<noteq> 0 then True
      else cfg_bump_init cfg \<and> pg_bump_index p < pg_slot_count p)"

definition hz10_freelist_page_free :: "addr \<Rightarrow> page_view \<Rightarrow> page_view" where
  "hz10_freelist_page_free ptr v =
    (let (m, p) = v; m1 = hz10_freelist_page_mark_local_free p ptr m in
     (m1(ptr := pg_local_free_head p),
      p\<lparr>pg_local_free_head := ptr, pg_free_count := pg_free_count p + 1\<rparr>))"

text \<open>\<open>init_chain\<close> of \<open>hz10_freelist_page.c\<close>: with bump allocation nothing is linked; otherwise
  slots are linked from the last to the first, so slot 0 is on top.\<close>

fun init_chain_loop :: "nat \<Rightarrow> addr \<Rightarrow> page_view \<Rightarrow> addr \<times> memory" where
  "init_chain_loop 0 head v = (head, fst v)"
| "init_chain_loop (Suc i) head (m, p) =
    (let slot = pg_base p + of_nat i * ucast (pg_slot_size p);
         m1 = hz10_freelist_page_mark_local_free p slot m
     in init_chain_loop i slot (m1(slot := head), p))"

definition hz10_freelist_page_init_chain :: "hz10_config \<Rightarrow> page_view \<Rightarrow> page_view" where
  "hz10_freelist_page_init_chain cfg v =
    (let (m, p) = v in
     if cfg_bump_init cfg then
       (m, p\<lparr>pg_bump_index := 0, pg_free_count := pg_slot_count p, pg_local_free_head := 0\<rparr>)
     else
       let (head, m') = init_chain_loop (unat (pg_slot_count p)) 0 (m, p) in
       (m', p\<lparr>pg_local_free_head := head, pg_free_count := pg_slot_count p\<rparr>))"

section \<open>Slots of a page\<close>

abbreviation slot :: "Hz10FreelistPage \<Rightarrow> nat \<Rightarrow> addr" where
  "slot p i \<equiv> slot_addr (pg_base p) (pg_slot_size p) i"

text \<open>A page as the size-class table and the pagemap make it.\<close>

definition page_geom :: "Hz10FreelistPage \<Rightarrow> bool" where
  "page_geom p \<longleftrightarrow> pg_base p \<noteq> 0 \<and> unat (pg_base p) mod 65536 = 0 \<and>
     16 \<le> unat (pg_slot_size p) \<and> unat (pg_slot_size p) mod 16 = 0 \<and> pg_slot_count p \<noteq> 0 \<and>
     unat (pg_slot_size p) * unat (pg_slot_count p) \<le> 65536"

lemma page_geom_cong:
  "pg_base p' = pg_base p \<Longrightarrow> pg_slot_size p' = pg_slot_size p \<Longrightarrow> pg_slot_count p' = pg_slot_count p
     \<Longrightarrow> page_geom p' = page_geom p"
  by (simp add: page_geom_def)

lemma slot_end:
  assumes "page_geom p" "i < unat (pg_slot_count p)"
  shows "i * unat (pg_slot_size p) + unat (pg_slot_size p) \<le> 65536"
proof -
  have "Suc i * unat (pg_slot_size p) \<le> unat (pg_slot_count p) * unat (pg_slot_size p)"
    by (rule mult_le_mono1) (use assms in simp)
  then show ?thesis using assms(1) by (simp add: page_geom_def mult.commute)
qed

lemma unat_slot:
  assumes "page_geom p" "i < unat (pg_slot_count p)" "k < 16"
  shows "unat (slot p i + of_nat k) = unat (pg_base p) + i * unat (pg_slot_size p) + k"
  by (rule unat_slot_addr_plus)
     (use slot_end [OF assms(1,2)] assms in \<open>simp_all add: page_geom_def\<close>)

lemma unat_slot_0:
  assumes "page_geom p" "i < unat (pg_slot_count p)"
  shows "unat (slot p i) = unat (pg_base p) + i * unat (pg_slot_size p)"
  using unat_slot [OF assms, of 0] by simp

lemma unat_slot_8:
  assumes "page_geom p" "i < unat (pg_slot_count p)"
  shows "unat (slot p i + 8) = unat (pg_base p) + i * unat (pg_slot_size p) + 8"
  using unat_slot [OF assms, of 8] by simp

lemma slot_nonnull: "page_geom p \<Longrightarrow> i < unat (pg_slot_count p) \<Longrightarrow> slot p i \<noteq> 0"
  using unat_slot_0 [of p i] by (auto simp: page_geom_def unat_eq_zero)

lemma slot_mod_16: "page_geom p \<Longrightarrow> i < unat (pg_slot_count p) \<Longrightarrow> unat (slot p i) mod 16 = 0"
proof -
  assume g: "page_geom p" "i < unat (pg_slot_count p)"
  obtain k l where "unat (pg_base p) = 65536 * k" "unat (pg_slot_size p) = 16 * l"
    using g(1) by (auto simp: page_geom_def mod_0_imp_dvd elim!: dvdE)
  then show ?thesis by (simp add: unat_slot_0 [OF g])
qed

lemma slot_eq_iff:
  assumes "page_geom p" "i < unat (pg_slot_count p)" "j < unat (pg_slot_count p)"
  shows "slot p i = slot p j \<longleftrightarrow> i = j"
proof
  assume eq: "slot p i = slot p j"
  have "unat (pg_base p) + i * unat (pg_slot_size p) = unat (pg_base p) + j * unat (pg_slot_size p)"
    unfolding unat_slot_0 [OF assms(1,2), symmetric] unat_slot_0 [OF assms(1,3), symmetric]
    by (simp only: eq)
  then have "i * unat (pg_slot_size p) = j * unat (pg_slot_size p)" by (rule add_left_imp_eq)
  moreover have "unat (pg_slot_size p) \<noteq> 0" using assms(1) by (auto simp: page_geom_def)
  ultimately show "i = j" by (metis mult_right_cancel)
qed simp

lemma slot_neq_marker:
  assumes "page_geom p" "i < unat (pg_slot_count p)" "j < unat (pg_slot_count p)"
  shows "slot p i \<noteq> slot p j + 8" "slot p i + 8 \<noteq> slot p j"
proof -
  have "unat (slot p j + 8) mod 16 = 8" if "j < unat (pg_slot_count p)" for j
  proof -
    have "unat (slot p j + 8) = unat (slot p j) + 8"
      by (simp only: unat_slot_8 [OF assms(1) that] unat_slot_0 [OF assms(1) that])
    then show ?thesis
      using slot_mod_16 [OF assms(1) that] mod_add_left_eq [of "unat (slot p j)" 16 8] by simp
  qed
  then show "slot p i \<noteq> slot p j + 8" "slot p i + 8 \<noteq> slot p j"
    using slot_mod_16 [OF assms(1)] assms(2,3) by (metis zero_neq_numeral)+
qed

lemma slot_set_iff:
  "page_geom p \<Longrightarrow> i < unat (pg_slot_count p) \<Longrightarrow> \<forall>j\<in>A. j < unat (pg_slot_count p) \<Longrightarrow>
     slot p i \<in> slot p ` A \<longleftrightarrow> i \<in> A"
  by (auto simp: slot_eq_iff)

section \<open>The abstract page\<close>

text \<open>
  \<open>F\<close>: the free slots in freelist order. \<open>R s\<close>: the slots published on remote stripe \<open>s\<close>.
  \<open>C\<close>: slots a foreign thread has claimed and not yet published. Slots from the frontier on have
  never been handed out; a slot below it that is in none of the three is in the hands of the user.
\<close>

record abs_page =
  ap_free :: "nat list"
  ap_stripes :: "nat \<Rightarrow> nat list"
  ap_claimed :: "nat set"
  ap_frontier :: nat

definition remote_slots :: "abs_page \<Rightarrow> nat list" where
  "remote_slots A = ap_stripes A 0 @ ap_stripes A 1 @ ap_stripes A 2 @ ap_stripes A 3"

definition held_slots :: "abs_page \<Rightarrow> nat set" where
  "held_slots A = {..<ap_frontier A} - set (ap_free A) - set (remote_slots A) - ap_claimed A"

definition pending_bit :: "Hz10FreelistPage \<Rightarrow> nat \<Rightarrow> bool" where
  "pending_bit p i \<longleftrightarrow> bit (pg_pending_bits p (i div 64)) (i mod 64)"

definition frontier_of :: "hz10_config \<Rightarrow> Hz10FreelistPage \<Rightarrow> nat" where
  "frontier_of cfg p = (if cfg_bump_init cfg then unat (pg_bump_index p) else unat (pg_slot_count p))"

definition abs_page_ok :: "nat \<Rightarrow> abs_page \<Rightarrow> bool" where
  "abs_page_ok n A \<longleftrightarrow> ap_frontier A \<le> n \<and> distinct (ap_free A @ remote_slots A) \<and>
     set (ap_free A) \<union> set (remote_slots A) \<union> ap_claimed A \<subseteq> {..<ap_frontier A} \<and>
     ap_claimed A \<inter> (set (ap_free A) \<union> set (remote_slots A)) = {}"

definition page_rel :: "hz10_config \<Rightarrow> page_view \<Rightarrow> abs_page \<Rightarrow> bool" where
  "page_rel cfg v A \<longleftrightarrow> (case v of (m, p) \<Rightarrow>
     page_geom p \<and> abs_page_ok (unat (pg_slot_count p)) A \<and> ap_frontier A = frontier_of cfg p \<and>
     chain m (pg_local_free_head p) (map (slot p) (ap_free A)) \<and>
     (\<forall>s<4. chain m (hz10_freelist_page_remote_head p s) (map (slot p) (ap_stripes A s))) \<and>
     (\<forall>i\<in>set (ap_free A). m (slot p i + 8) = HZ10_FREELIST_LOCAL_MARKER) \<and>
     (\<forall>i<unat (pg_slot_count p). pending_bit p i \<longleftrightarrow> i \<in> set (remote_slots A) \<union> ap_claimed A) \<and>
     unat (pg_free_count p) + ap_frontier A = length (ap_free A) + unat (pg_slot_count p))"

text \<open>The abstract operations.\<close>

definition abs_alloc :: "nat \<Rightarrow> abs_page \<Rightarrow> nat option \<times> abs_page" where
  "abs_alloc n A = (case ap_free A of
     i # F \<Rightarrow> (Some i, A\<lparr>ap_free := F\<rparr>)
   | [] \<Rightarrow> if ap_frontier A < n then (Some (ap_frontier A), A\<lparr>ap_frontier := Suc (ap_frontier A)\<rparr>)
          else (None, A))"

definition abs_free :: "nat \<Rightarrow> abs_page \<Rightarrow> abs_page" where
  "abs_free i A = A\<lparr>ap_free := i # ap_free A\<rparr>"

lemma remote_slots_simps [simp]:
  "remote_slots (A\<lparr>ap_free := F\<rparr>) = remote_slots A"
  "remote_slots (A\<lparr>ap_frontier := f\<rparr>) = remote_slots A"
  "remote_slots (A\<lparr>ap_claimed := C\<rparr>) = remote_slots A"
  by (simp_all add: remote_slots_def)

lemma stripe_subset: "s < 4 \<Longrightarrow> set (ap_stripes A s) \<subseteq> set (remote_slots A)"
  by (auto simp: remote_slots_def numeral_eq_Suc less_Suc_eq)

lemma remote_slots_stripes: "set (remote_slots A) = (\<Union>s<4. set (ap_stripes A s))"
  by (auto simp: remote_slots_def numeral_eq_Suc less_Suc_eq)

lemma page_relD:
  assumes "page_rel cfg (m, p) A"
  shows "page_geom p" "ap_frontier A = frontier_of cfg p" "ap_frontier A \<le> unat (pg_slot_count p)"
    "chain m (pg_local_free_head p) (map (slot p) (ap_free A))"
    "s < 4 \<Longrightarrow> chain m (hz10_freelist_page_remote_head p s) (map (slot p) (ap_stripes A s))"
    "i \<in> set (ap_free A) \<Longrightarrow> m (slot p i + 8) = HZ10_FREELIST_LOCAL_MARKER"
    "i < unat (pg_slot_count p) \<Longrightarrow> pending_bit p i \<longleftrightarrow> i \<in> set (remote_slots A) \<union> ap_claimed A"
    "unat (pg_free_count p) + ap_frontier A = length (ap_free A) + unat (pg_slot_count p)"
    "distinct (ap_free A)" "distinct (remote_slots A)"
    "set (ap_free A) \<inter> set (remote_slots A) = {}"
    "i \<in> set (ap_free A) \<or> i \<in> set (remote_slots A) \<or> i \<in> ap_claimed A \<Longrightarrow> i < ap_frontier A"
    "ap_claimed A \<inter> (set (ap_free A) \<union> set (remote_slots A)) = {}"
  using assms by (auto simp: page_rel_def abs_page_ok_def)

lemma page_relI:
  assumes "page_geom p" "ap_frontier A = frontier_of cfg p" "ap_frontier A \<le> unat (pg_slot_count p)"
    and "chain m (pg_local_free_head p) (map (slot p) (ap_free A))"
    and "\<And>s. s < 4 \<Longrightarrow> chain m (hz10_freelist_page_remote_head p s) (map (slot p) (ap_stripes A s))"
    and "\<And>i. i \<in> set (ap_free A) \<Longrightarrow> m (slot p i + 8) = HZ10_FREELIST_LOCAL_MARKER"
    and "\<And>i. i < unat (pg_slot_count p) \<Longrightarrow>
      pending_bit p i \<longleftrightarrow> i \<in> set (remote_slots A) \<union> ap_claimed A"
    and "unat (pg_free_count p) + ap_frontier A = length (ap_free A) + unat (pg_slot_count p)"
    and "distinct (ap_free A)" "distinct (remote_slots A)"
    and "set (ap_free A) \<inter> set (remote_slots A) = {}"
    and "\<And>i. i \<in> set (ap_free A) \<or> i \<in> set (remote_slots A) \<or> i \<in> ap_claimed A \<Longrightarrow> i < ap_frontier A"
    and "ap_claimed A \<inter> (set (ap_free A) \<union> set (remote_slots A)) = {}"
  shows "page_rel cfg (m, p) A"
proof -
  have "set (ap_free A) \<union> set (remote_slots A) \<union> ap_claimed A \<subseteq> {..<ap_frontier A}"
    using assms(12) by blast
  then show ?thesis unfolding page_rel_def prod.case abs_page_ok_def
    using assms by (intro conjI allI ballI impI) simp_all
qed

text \<open>A page does not depend on the user data of the slots it has handed out, nor on any memory
  outside its slots: only the links of free and remote slots and the markers of free ones.\<close>

lemma page_rel_mem_cong:
  assumes "\<And>i. i \<in> set (ap_free A) \<union> set (remote_slots A) \<Longrightarrow> m' (slot p i) = m (slot p i)"
    and "\<And>i. i \<in> set (ap_free A) \<Longrightarrow> m' (slot p i + 8) = m (slot p i + 8)"
  shows "page_rel cfg (m', p) A \<longleftrightarrow> page_rel cfg (m, p) A"
proof -
  have c: "chain m' h (map (slot p) xs) = chain m h (map (slot p) xs)"
    if "set xs \<subseteq> set (ap_free A) \<union> set (remote_slots A)" for h xs
    by (rule chain_cong) (use assms(1) that in auto)
  have "s < 4 \<Longrightarrow> chain m' h (map (slot p) (ap_stripes A s)) = chain m h (map (slot p) (ap_stripes A s))"
    for s h by (rule c) (use stripe_subset [of s A] in auto)
  with c [of "ap_free A"] show ?thesis by (simp add: page_rel_def assms(2))
qed

section \<open>Refinement of \<open>alloc\<close> and \<open>free\<close>\<close>

lemma page_rel_lt_count:
  "page_rel cfg (m, p) A \<Longrightarrow>
     i \<in> set (ap_free A) \<or> i \<in> set (remote_slots A) \<or> i \<in> ap_claimed A \<or> i < ap_frontier A \<Longrightarrow>
     i < unat (pg_slot_count p)"
  using page_relD(3,12) [of cfg m p A] by (meson less_le_trans)

text \<open>Writing the link or the marker of a slot outside the lists leaves the lists alone.\<close>

lemma chain_mem_upd:
  assumes "page_geom p" "j < unat (pg_slot_count p)" "\<forall>i\<in>set xs. i < unat (pg_slot_count p)"
  shows "chain (m(slot p j + 8 := v)) h (map (slot p) xs) = chain m h (map (slot p) xs)"
    and "j \<notin> set xs \<Longrightarrow> chain (m(slot p j := v)) h (map (slot p) xs) = chain m h (map (slot p) xs)"
  by (rule chain_upd; use assms slot_neq_marker slot_eq_iff in fastforce)+

lemma alloc_head:
  "pg_local_free_head p \<noteq> 0 \<Longrightarrow> page_geom p \<Longrightarrow> hz10_freelist_page_alloc cfg (m, p) =
     (pg_local_free_head p, m(pg_local_free_head p + 8 := 0),
      p\<lparr>pg_local_free_head := m (pg_local_free_head p), pg_free_count := pg_free_count p - 1\<rparr>)"
  by (simp add: hz10_freelist_page_alloc_def hz10_freelist_page_clear_local_free_marker_def
      hz10_freelist_page_slot_marker_ptr_def page_geom_def word_less_nat_alt Let_def)

lemma alloc_bump:
  "pg_local_free_head p = 0 \<Longrightarrow> cfg_bump_init cfg \<Longrightarrow> pg_bump_index p < pg_slot_count p \<Longrightarrow>
   page_geom p \<Longrightarrow> hz10_freelist_page_alloc cfg (m, p) =
     (slot p (unat (pg_bump_index p)), m(slot p (unat (pg_bump_index p)) + 8 := 0),
      p\<lparr>pg_bump_index := pg_bump_index p + 1, pg_free_count := pg_free_count p - 1\<rparr>)"
  by (simp add: hz10_freelist_page_alloc_def hz10_freelist_page_clear_local_free_marker_def
      hz10_freelist_page_slot_marker_ptr_def page_geom_def word_less_nat_alt Let_def slot_addr_def)

lemma remote_head_frame [simp]:
  "hz10_freelist_page_remote_head (p\<lparr>pg_local_free_head := h\<rparr>) s = hz10_freelist_page_remote_head p s"
  "hz10_freelist_page_remote_head (p\<lparr>pg_free_count := c\<rparr>) s = hz10_freelist_page_remote_head p s"
  "hz10_freelist_page_remote_head (p\<lparr>pg_bump_index := b\<rparr>) s = hz10_freelist_page_remote_head p s"
  "hz10_freelist_page_remote_head (p\<lparr>pg_pending_bits := pb\<rparr>) s = hz10_freelist_page_remote_head p s"
  by (simp_all add: hz10_freelist_page_remote_head_def split: option.split)

lemma pending_bit_frame [simp]:
  "pending_bit (p\<lparr>pg_local_free_head := h\<rparr>) i = pending_bit p i"
  "pending_bit (p\<lparr>pg_free_count := c\<rparr>) i = pending_bit p i"
  "pending_bit (p\<lparr>pg_bump_index := b\<rparr>) i = pending_bit p i"
  by (simp_all add: pending_bit_def)

lemma alloc_refines:
  assumes rel: "page_rel cfg (m, p) A"
  shows "case abs_alloc (unat (pg_slot_count p)) A of
      (Some i, A') \<Rightarrow> \<exists>m' p'. hz10_freelist_page_alloc cfg (m, p) = (slot p i, m', p') \<and>
         m' = m(slot p i + 8 := 0) \<and> page_rel cfg (m', p') A' \<and> i < unat (pg_slot_count p)
    | (None, A') \<Rightarrow> hz10_freelist_page_alloc cfg (m, p) = (0, m, p)"
proof -
  note D = page_relD [OF rel]
  have lt: "\<forall>i\<in>set (ap_free A) \<union> set (remote_slots A). i < unat (pg_slot_count p)"
    using page_rel_lt_count [OF rel] by blast
  have st: "\<forall>i\<in>set (ap_stripes A s). i < unat (pg_slot_count p)" if "s < 4" for s
    using lt stripe_subset [OF that, of A] by blast
  show ?thesis
  proof (cases "ap_free A")
    case (Cons i F)
    then have head: "pg_local_free_head p = slot p i" and nn: "slot p i \<noteq> 0"
      and c: "chain m (m (slot p i)) (map (slot p) F)" using D(4) by auto
    have i: "i < unat (pg_slot_count p)" using lt Cons by auto
    have fc: "pg_free_count p \<noteq> 0" using D(8) D(3) Cons by auto
    have "page_rel cfg (m(slot p i + 8 := 0),
        p\<lparr>pg_local_free_head := m (slot p i), pg_free_count := pg_free_count p - 1\<rparr>)
      (A\<lparr>ap_free := F\<rparr>)"
      using rel Cons i c lt st fc slot_eq_iff [OF D(1) _ i]
      by (auto simp: page_rel_def abs_page_ok_def frontier_of_def chain_mem_upd(1) unat_dec
          page_geom_def cong: page_geom_cong)
    then show ?thesis
      using Cons i head nn by (simp add: abs_alloc_def alloc_head D(1))
  next
    case Nil
    then have head: "pg_local_free_head p = 0" using D(4) by simp
    show ?thesis
    proof (cases "ap_frontier A < unat (pg_slot_count p)")
      case False
      then have "hz10_freelist_page_alloc cfg (m, p) = (0, m, p)"
        using head D(2) by (auto simp: hz10_freelist_page_alloc_def frontier_of_def word_less_nat_alt)
      then show ?thesis using Nil False by (simp add: abs_alloc_def)
    next
      case True
      then have b: "cfg_bump_init cfg" "ap_frontier A = unat (pg_bump_index p)"
        using D(2) by (auto simp: frontier_of_def split: if_splits)
      then have bi: "pg_bump_index p < pg_slot_count p" "unat (pg_bump_index p) < unat (pg_slot_count p)"
        using True by (simp_all add: word_less_nat_alt)
      have fc: "pg_free_count p \<noteq> 0" using D(8) True Nil by auto
      have "page_rel cfg (m(slot p (unat (pg_bump_index p)) + 8 := 0),
          p\<lparr>pg_bump_index := pg_bump_index p + 1, pg_free_count := pg_free_count p - 1\<rparr>)
        (A\<lparr>ap_frontier := Suc (ap_frontier A)\<rparr>)"
        using rel Nil b bi lt st fc True
        by (auto simp: page_rel_def abs_page_ok_def frontier_of_def chain_mem_upd(1) unat_dec
            page_geom_def unat_suc_u32 less_Suc_eq cong: page_geom_cong)
      then show ?thesis
        using Nil True b bi head by (simp add: abs_alloc_def alloc_bump D(1))
    qed
  qed
qed

text \<open>The slot an allocation picks was in nobody's hands, and is in the caller's from then on.\<close>

lemma abs_alloc_exclusive:
  assumes rel: "page_rel cfg (m, p) A" and a: "abs_alloc n A = (Some i, A')"
  shows "i \<notin> held_slots A" "i \<notin> set (remote_slots A)" "i \<notin> ap_claimed A"
    "held_slots A' = insert i (held_slots A)" "ap_stripes A' = ap_stripes A" "ap_claimed A' = ap_claimed A"
proof -
  note D = page_relD [OF rel]
  have "i \<notin> held_slots A \<and> i \<notin> set (remote_slots A) \<and> i \<notin> ap_claimed A \<and>
      held_slots A' = insert i (held_slots A) \<and> ap_stripes A' = ap_stripes A \<and> ap_claimed A' = ap_claimed A"
  proof (cases "ap_free A")
    case Nil
    then have A': "A' = A\<lparr>ap_frontier := Suc (ap_frontier A)\<rparr>" "i = ap_frontier A"
      using a by (auto simp: abs_alloc_def split: if_splits)
    have "i \<notin> set (remote_slots A)" "i \<notin> ap_claimed A" using D(12) [of i] A'(2) by auto
    then show ?thesis using Nil A'(2) by (auto simp: A'(1) held_slots_def less_Suc_eq)
  next
    case (Cons j F)
    then have A': "A' = A\<lparr>ap_free := F\<rparr>" "j = i" using a by (simp_all add: abs_alloc_def)
    have "i < ap_frontier A" "i \<notin> set F" "i \<notin> set (remote_slots A)" "i \<notin> ap_claimed A"
      using D(9,11,12,13) Cons A'(2) by auto
    then show ?thesis using Cons unfolding A' by (auto simp: held_slots_def)
  qed
  then show "i \<notin> held_slots A" "i \<notin> set (remote_slots A)" "i \<notin> ap_claimed A"
    "held_slots A' = insert i (held_slots A)" "ap_stripes A' = ap_stripes A" "ap_claimed A' = ap_claimed A"
    by simp_all
qed

lemma free_eq:
  "page_geom p \<Longrightarrow> hz10_freelist_page_free a (m, p) =
     (m(a + 8 := HZ10_FREELIST_LOCAL_MARKER, a := pg_local_free_head p),
      p\<lparr>pg_local_free_head := a, pg_free_count := pg_free_count p + 1\<rparr>)"
  by (simp add: hz10_freelist_page_free_def hz10_freelist_page_mark_local_free_def
      hz10_freelist_page_slot_marker_ptr_def page_geom_def word_less_nat_alt Let_def)

lemma not_all_free_length:
  assumes "abs_page_ok n A" "i < ap_frontier A" "i \<notin> set (ap_free A)"
  shows "length (ap_free A) < ap_frontier A"
proof -
  have d: "distinct (ap_free A)" "set (ap_free A) \<subseteq> {..<ap_frontier A}"
    using assms(1) by (auto simp: abs_page_ok_def)
  have "card (set (ap_free A)) < card {..<ap_frontier A}"
    by (rule psubset_card_mono) (use d(2) assms(2,3) in auto)
  then show ?thesis using d(1) by (simp add: distinct_card)
qed

lemma free_refines:
  assumes rel: "page_rel cfg (m, p) A" and i: "i \<in> held_slots A"
  shows "page_rel cfg (hz10_freelist_page_free (slot p i) (m, p)) (abs_free i A)"
proof -
  note D = page_relD [OF rel]
  have lt: "\<forall>i\<in>set (ap_free A) \<union> set (remote_slots A). i < unat (pg_slot_count p)"
    using page_rel_lt_count [OF rel] by blast
  have st: "\<forall>i\<in>set (ap_stripes A s). i < unat (pg_slot_count p)"
    and si: "i \<notin> set (ap_stripes A s)" if "s < 4" for s
    using lt i stripe_subset [OF that, of A] by (auto simp: held_slots_def)
  have i': "i < ap_frontier A" "i < unat (pg_slot_count p)" "i \<notin> set (ap_free A)"
    "i \<notin> set (remote_slots A)" "i \<notin> ap_claimed A"
    using i D(3) by (auto simp: held_slots_def)
  have "length (ap_free A) < ap_frontier A"
    by (rule not_all_free_length [OF _ i'(1,3)]) (use rel in \<open>auto simp: page_rel_def\<close>)
  then have "unat (pg_free_count p) < unat (pg_slot_count p)" using D(8) by simp
  then have fc: "unat (pg_free_count p + 1) = Suc (unat (pg_free_count p))" by (rule unat_suc_u32)
  have nn: "slot p i \<noteq> 0" by (rule slot_nonnull [OF D(1) i'(2)])
  define m' where "m' = m(slot p i + 8 := HZ10_FREELIST_LOCAL_MARKER, slot p i := pg_local_free_head p)"
  have l: "m' (slot p j) = m (slot p j)" "m' (slot p j + 8) = m (slot p j + 8)"
    if "j < unat (pg_slot_count p)" "j \<noteq> i" for j
    unfolding m'_def using that slot_neq_marker [OF D(1) i'(2) that(1)]
      slot_neq_marker [OF D(1) that(1) i'(2)] slot_eq_iff [OF D(1) that(1) i'(2)] by auto
  have li: "m' (slot p i) = pg_local_free_head p" "m' (slot p i + 8) = HZ10_FREELIST_LOCAL_MARKER"
    unfolding m'_def using slot_neq_marker [OF D(1) i'(2) i'(2)] by auto
  have "page_rel cfg (m', p) A \<longleftrightarrow> page_rel cfg (m, p) A"
    by (rule page_rel_mem_cong) (use l lt i' in auto)
  with rel have "page_rel cfg (m', p) A" by simp
  then have "page_rel cfg (m', p\<lparr>pg_local_free_head := slot p i, pg_free_count := pg_free_count p + 1\<rparr>)
      (A\<lparr>ap_free := i # ap_free A\<rparr>)"
    using i' nn fc by (auto simp: page_rel_def abs_page_ok_def frontier_of_def li cong: page_geom_cong)
  then show ?thesis by (simp add: free_eq [OF D(1)] abs_free_def m'_def)
qed

lemma has_capacity_iff:
  "page_rel cfg (m, p) A \<Longrightarrow>
     hz10_freelist_page_has_capacity cfg p \<longleftrightarrow> ap_free A \<noteq> [] \<or> ap_frontier A < unat (pg_slot_count p)"
  using page_relD(2,4) [of cfg m p A] chain_Nil_iff [of m "pg_local_free_head p" "map (slot p) (ap_free A)"]
  by (auto simp: hz10_freelist_page_has_capacity_def frontier_of_def word_less_nat_alt)

text \<open>The idle test \<open>free_count == slot_count\<close> that guards every destruction of a page.\<close>

lemma idle_iff:
  assumes rel: "page_rel cfg (m, p) A"
  shows "pg_free_count p = pg_slot_count p \<longleftrightarrow>
     held_slots A = {} \<and> remote_slots A = [] \<and> ap_claimed A = {}"
proof -
  note D = page_relD [OF rel]
  have sub: "set (ap_free A) \<subseteq> {..<ap_frontier A}" using D(12) by auto
  have "pg_free_count p = pg_slot_count p \<longleftrightarrow> length (ap_free A) = ap_frontier A"
    using D(8) by (auto simp: word_unat_eq_iff)
  also have "\<dots> \<longleftrightarrow> set (ap_free A) = {..<ap_frontier A}"
  proof
    assume "length (ap_free A) = ap_frontier A"
    then have "card (set (ap_free A)) = card {..<ap_frontier A}" using D(9) by (simp add: distinct_card)
    then show "set (ap_free A) = {..<ap_frontier A}" by (intro card_subset_eq sub) simp_all
  next
    assume "set (ap_free A) = {..<ap_frontier A}"
    then show "length (ap_free A) = ap_frontier A" using distinct_card [OF D(9)] by simp
  qed
  also have "\<dots> \<longleftrightarrow> held_slots A = {} \<and> set (remote_slots A) = {} \<and> ap_claimed A = {}"
  proof
    assume all: "set (ap_free A) = {..<ap_frontier A}"
    have u: "set (remote_slots A) \<subseteq> set (ap_free A)" "ap_claimed A \<subseteq> set (ap_free A)"
      unfolding all by (auto intro: D(12))
    have "set (remote_slots A) = {} \<and> ap_claimed A = {}"
      using D(11,13) by (simp add: Int_absorb1 [OF u(1)] Int_absorb2 [OF u(2)] Int_Un_distrib)
    then show "held_slots A = {} \<and> set (remote_slots A) = {} \<and> ap_claimed A = {}"
      by (simp add: held_slots_def all)
  next
    assume "held_slots A = {} \<and> set (remote_slots A) = {} \<and> ap_claimed A = {}"
    then have "{..<ap_frontier A} - set (ap_free A) = {}"
      by (elim conjE) (simp only: held_slots_def Diff_empty)
    with sub show "set (ap_free A) = {..<ap_frontier A}" by (simp only: Diff_eq_empty_iff subset_antisym)
  qed
  finally show ?thesis by simp
qed

section \<open>The freelist as an intrusive stack\<close>

text \<open>The freelist of a page, seen by the owner alone: nodes are the page's slots, the link is the
  first word of a slot, push is \<open>hz10_freelist_page_free\<close> and pop is \<open>hz10_freelist_page_alloc\<close>.\<close>

interpretation freelist: intrusive_stack
  "\<lambda>v a. page_geom (snd v) \<and> (\<exists>i<unat (pg_slot_count (snd v)). a = slot (snd v) i)"
  fst "\<lambda>v. pg_local_free_head (snd v)" hz10_freelist_page_free "hz10_freelist_page_alloc cfg"
  for cfg
proof (unfold_locales, goal_cases)
  case (1 v a)
  then show ?case by (cases v) (simp add: free_eq)
next
  case (2 v a b)
  then show ?case using slot_neq_marker by (cases v) (fastforce simp: free_eq)
next
  case (3 v a b)
  then show ?case by (cases v) (simp add: free_eq cong: page_geom_cong)
next
  case (4 v a)
  then obtain i where "page_geom (snd v)" "i < unat (pg_slot_count (snd v))" "a = slot (snd v) i"
    by (elim conjE exE)
  then show ?case using slot_nonnull [of "snd v" i] by simp
next
  case (5 v)
  then show ?case by (cases v) (simp add: hz10_freelist_page_alloc_def Let_def)
next
  case (6 v)
  then show ?case by (cases v) (simp add: alloc_head)
next
  case (7 v b)
  then show ?case using slot_neq_marker by (cases v) (fastforce simp: alloc_head)
next
  case (8 v b)
  then show ?case by (cases v) (simp add: alloc_head cong: page_geom_cong)
qed

section \<open>A fresh page\<close>

text \<open>What \<open>create_common\<close> hands to \<open>init_chain\<close>: no pending bit, empty stripes.\<close>

definition fresh_header :: "Hz10FreelistPage \<Rightarrow> bool" where
  "fresh_header p \<longleftrightarrow> page_geom p \<and> (\<forall>s<4. hz10_freelist_page_remote_head p s = 0) \<and>
     (\<forall>i<unat (pg_slot_count p). \<not> pending_bit p i)"

definition fresh_abs :: "hz10_config \<Rightarrow> nat \<Rightarrow> abs_page" where
  "fresh_abs cfg n = \<lparr>ap_free = (if cfg_bump_init cfg then [] else [0..<n]), ap_stripes = (\<lambda>_. []),
     ap_claimed = {}, ap_frontier = (if cfg_bump_init cfg then 0 else n)\<rparr>"

text \<open>Loop invariant of \<open>init_chain\<close>: slots from \<open>i\<close> on are linked and marked.\<close>

lemma init_chain_loop_correct:
  assumes "page_geom p" "i \<le> unat (pg_slot_count p)"
    and "chain m head (map (slot p) [i..<unat (pg_slot_count p)])"
    and "\<forall>j\<in>{i..<unat (pg_slot_count p)}. m (slot p j + 8) = HZ10_FREELIST_LOCAL_MARKER"
  shows "case init_chain_loop i head (m, p) of (h, m') \<Rightarrow>
     chain m' h (map (slot p) [0..<unat (pg_slot_count p)]) \<and>
     (\<forall>j<unat (pg_slot_count p). m' (slot p j + 8) = HZ10_FREELIST_LOCAL_MARKER)"
  using assms(2-)
proof (induction i arbitrary: head m)
  case (Suc i)
  let ?n = "unat (pg_slot_count p)"
  let ?s = "slot p i"
  let ?m = "m(?s + 8 := HZ10_FREELIST_LOCAL_MARKER, ?s := head)"
  have i: "i < ?n" using Suc.prems(1) by simp
  note g = assms(1)
  have "chain (m(?s + 8 := HZ10_FREELIST_LOCAL_MARKER)) head (map (slot p) [Suc i..<?n])"
    using Suc.prems(2) by (subst chain_mem_upd(1) [OF g i]) auto
  then have "chain ?m head (map (slot p) [Suc i..<?n])"
    by (subst chain_mem_upd(2) [OF g i]) auto
  then have c: "chain ?m ?s (map (slot p) [i..<?n])"
    using i slot_nonnull [OF g i] by (simp add: upt_conv_Cons)
  have k: "?m (slot p j + 8) = HZ10_FREELIST_LOCAL_MARKER" if "j \<in> {i..<?n}" for j
    using that Suc.prems(3) slot_neq_marker [OF g i, of j] slot_eq_iff [OF g, of j i] i
    by (cases "j = i") auto
  have "case init_chain_loop i ?s (?m, p) of (h, m') \<Rightarrow>
     chain m' h (map (slot p) [0..<?n]) \<and>
     (\<forall>j<?n. m' (slot p j + 8) = HZ10_FREELIST_LOCAL_MARKER)"
    by (rule Suc.IH [OF _ c]) (use i k in auto)
  moreover have "init_chain_loop (Suc i) head (m, p) = init_chain_loop i ?s (?m, p)"
    using g by (simp add: Let_def hz10_freelist_page_mark_local_free_def slot_addr_def
        hz10_freelist_page_slot_marker_ptr_def page_geom_def word_less_nat_alt)
  ultimately show ?case by simp
qed simp

lemma init_chain_correct:
  assumes "fresh_header p"
  shows "page_rel cfg (hz10_freelist_page_init_chain cfg (m, p)) (fresh_abs cfg (unat (pg_slot_count p)))"
proof -
  have g: "page_geom p" using assms by (simp add: fresh_header_def)
  have ap: "ap_stripes (fresh_abs cfg n) s = []" "remote_slots (fresh_abs cfg n) = []"
    "ap_claimed (fresh_abs cfg n) = {}" for n s
    by (simp_all add: fresh_abs_def remote_slots_def)
  show ?thesis
  proof (cases "cfg_bump_init cfg")
    case True
    then show ?thesis using assms
      by (auto simp: hz10_freelist_page_init_chain_def page_rel_def abs_page_ok_def fresh_header_def
          frontier_of_def ap fresh_abs_def remote_slots_def cong: page_geom_cong)
  next
    case False
    obtain h m' where l: "init_chain_loop (unat (pg_slot_count p)) 0 (m, p) = (h, m')"
      by (cases "init_chain_loop (unat (pg_slot_count p)) 0 (m, p)")
    have c: "chain m' h (map (slot p) [0..<unat (pg_slot_count p)])"
      "\<forall>j<unat (pg_slot_count p). m' (slot p j + 8) = HZ10_FREELIST_LOCAL_MARKER"
      using init_chain_loop_correct [OF g le_refl, of m 0] l by auto
    then show ?thesis using False assms l
      by (auto simp: hz10_freelist_page_init_chain_def page_rel_def abs_page_ok_def fresh_header_def
          frontier_of_def fresh_abs_def remote_slots_def cong: page_geom_cong)
  qed
qed

section \<open>A concrete page\<close>

text \<open>Four slots of 64 bytes at \<open>0x10000\<close>, used by the witnesses.\<close>

definition example_header :: Hz10FreelistPage where
  "example_header = zero_page\<lparr>pg_base := 65536, pg_slot_size := 64, pg_slot_count := 4,
     pg_generation := 1, pg_pending_words := 1\<rparr>"

lemma example_header_fresh: "fresh_header example_header"
  by (simp add: fresh_header_def page_geom_def example_header_def zero_page_def pending_bit_def
      hz10_freelist_page_remote_head_def)

definition example_view :: page_view where
  "example_view = hz10_freelist_page_init_chain default_config (\<lambda>_. 0, example_header)"

lemma example_view_rel: "page_rel default_config example_view (fresh_abs default_config 4)"
proof -
  have "unat (pg_slot_count example_header) = 4" by (simp add: example_header_def zero_page_def)
  then show ?thesis using init_chain_correct [OF example_header_fresh, of default_config]
    by (simp add: example_view_def)
qed

section \<open>Properties\<close>

text \<open>C6: \<open>hz10_freelist_page_alloc\<close> hands out a slot of the page that nobody else has: it was
  not in the user's hands, not on a remote stripe and not claimed by a foreign thread; it is from
  then on held, the page still represents its abstract page, and the only memory written is the
  marker word of that slot. It returns NULL, changing nothing, exactly when every slot is taken.\<close>

theorem page_alloc_exclusive:
  assumes "page_rel cfg (m, p) A"
  shows "case hz10_freelist_page_alloc cfg (m, p) of (a, m', p') \<Rightarrow>
     (if hz10_freelist_page_has_capacity cfg p then
        (\<exists>i A'. a = slot p i \<and> i < unat (pg_slot_count p) \<and> a \<noteq> 0 \<and> m' = m(a + 8 := 0) \<and>
           i \<notin> held_slots A \<and> i \<notin> set (remote_slots A) \<and> i \<notin> ap_claimed A \<and>
           page_rel cfg (m', p') A' \<and> held_slots A' = insert i (held_slots A) \<and>
           ap_stripes A' = ap_stripes A \<and> ap_claimed A' = ap_claimed A)
      else a = 0 \<and> m' = m \<and> p' = p)"
proof -
  let ?n = "unat (pg_slot_count p)"
  note D = page_relD [OF assms] and cap = has_capacity_iff [OF assms]
  show ?thesis
  proof (cases "abs_alloc ?n A")
    case (Pair r A')
    show ?thesis
    proof (cases r)
      case None
      with Pair have "\<not> hz10_freelist_page_has_capacity cfg p"
        by (auto simp: cap abs_alloc_def split: list.splits if_splits)
      then show ?thesis using alloc_refines [OF assms] Pair None by simp
    next
      case (Some i)
      from Pair Some have "hz10_freelist_page_has_capacity cfg p"
        by (auto simp: cap abs_alloc_def split: list.splits if_splits)
      moreover note abs_alloc_exclusive [OF assms Pair [unfolded Some]]
      ultimately show ?thesis
        using alloc_refines [OF assms] Pair Some slot_nonnull [OF D(1)]
        by (auto intro!: exI [of _ i] exI [of _ A'])
    qed
  qed
qed

theorem page_alloc_exclusive_witness:
  "case hz10_freelist_page_alloc default_config example_view of (a, m', p') \<Rightarrow> a \<noteq> 0"
proof -
  have "hz10_freelist_page_has_capacity default_config (snd example_view)"
    by (simp add: example_view_def example_header_def zero_page_def default_config_def
        hz10_freelist_page_init_chain_def hz10_freelist_page_has_capacity_def)
  then show ?thesis
    using page_alloc_exclusive [of default_config "fst example_view" "snd example_view"] example_view_rel
    by fastforce
qed

text \<open>an owner-thread free followed by an allocation on the same page gives the freed slot
  back, and the page represents the abstract page it represented before: the free list is
  last-in first-out and nothing is lost, whatever the user left in the slot.\<close>

theorem page_free_alloc_lifo:
  assumes "page_rel cfg (m, p) A" "i \<in> held_slots A"
  shows "case hz10_freelist_page_free (slot p i) (m, p) of (m1, p1) \<Rightarrow>
     page_rel cfg (m1, p1) (A\<lparr>ap_free := i # ap_free A\<rparr>) \<and>
     (\<exists>m2 p2. hz10_freelist_page_alloc cfg (m1, p1) = (slot p i, m2, p2) \<and>
        page_rel cfg (m2, p2) A)"
proof -
  have g: "page_geom p" using assms(1) by (rule page_relD)
  obtain m1 p1 where f: "hz10_freelist_page_free (slot p i) (m, p) = (m1, p1)" by force
  have p1: "slot p1 j = slot p j" "pg_slot_count p1 = pg_slot_count p" for j
    using f by (auto simp: free_eq [OF g])
  have r: "page_rel cfg (m1, p1) (abs_free i A)" using free_refines [OF assms] f by simp
  have "abs_alloc (unat (pg_slot_count p1)) (abs_free i A) = (Some i, A)"
    by (simp add: abs_alloc_def abs_free_def)
  with alloc_refines [OF r] p1
  have "\<exists>m2 p2. hz10_freelist_page_alloc cfg (m1, p1) = (slot p i, m2, p2) \<and> page_rel cfg (m2, p2) A"
    by auto
  then show ?thesis using f r by (simp add: abs_free_def)
qed

definition example_alloc_view :: page_view where
  "example_alloc_view = snd (hz10_freelist_page_alloc default_config example_view)"

lemma example_alloc_view_rel:
  "page_rel default_config example_alloc_view ((fresh_abs default_config 4)\<lparr>ap_frontier := Suc 0\<rparr>)"
proof -
  have "abs_alloc (unat (pg_slot_count (snd example_view))) (fresh_abs default_config 4)
      = (Some 0, (fresh_abs default_config 4)\<lparr>ap_frontier := Suc 0\<rparr>)"
    by (simp add: abs_alloc_def fresh_abs_def default_config_def example_view_def example_header_def
        hz10_freelist_page_init_chain_def zero_page_def)
  then show ?thesis
    using alloc_refines [of default_config "fst example_view" "snd example_view"
        "fresh_abs default_config 4"] example_view_rel
    by (auto simp: example_alloc_view_def)
qed

theorem page_free_alloc_lifo_witness:
  "\<exists>m2 p2. hz10_freelist_page_alloc default_config
       (hz10_freelist_page_free 65536 example_alloc_view) = (65536, m2, p2)"
proof -
  have "0 \<in> held_slots ((fresh_abs default_config 4)\<lparr>ap_frontier := Suc 0\<rparr>)"
    by (simp add: held_slots_def fresh_abs_def remote_slots_def default_config_def)
  moreover have "slot (snd example_alloc_view) 0 = 65536"
    by (simp add: example_alloc_view_def example_view_def hz10_freelist_page_alloc_def
        hz10_freelist_page_init_chain_def default_config_def example_header_def zero_page_def
        slot_addr_def)
  ultimately show ?thesis
    using page_free_alloc_lifo [of default_config "fst example_alloc_view" "snd example_alloc_view"
        "(fresh_abs default_config 4)\<lparr>ap_frontier := Suc 0\<rparr>" 0] example_alloc_view_rel
    by auto
qed

text \<open>The idle test \<open>free_count == slot_count\<close>, which guards every destruction and every
  pooling of a page, is exact: it holds if and only if no slot is in the hands of the user, none
  waits on a remote stripe and none is claimed by a thread that has yet to publish it.\<close>

theorem page_idle_exact:
  assumes "page_rel cfg (m, p) A"
  shows "pg_free_count p = pg_slot_count p \<longleftrightarrow>
     held_slots A = {} \<and> remote_slots A = [] \<and> ap_claimed A = {}"
  using assms by (rule idle_iff)

theorem page_idle_exact_witness:
  "pg_free_count (snd example_alloc_view) \<noteq> pg_slot_count (snd example_alloc_view)"
proof -
  have "held_slots ((fresh_abs default_config 4)\<lparr>ap_frontier := Suc 0\<rparr>) \<noteq> {}"
    by (auto simp: held_slots_def fresh_abs_def remote_slots_def default_config_def)
  then show ?thesis
    using page_idle_exact [of default_config "fst example_alloc_view" "snd example_alloc_view"]
      example_alloc_view_rel by auto
qed

end
