(* ===== verification/Hz10_Platform.thy ===== *)
theory Hz10_Platform
  imports Hz10_Config
begin

text \<open>
  \<open>hz10_platform.{h,c}\<close>, POSIX branch: what the allocator asks of the operating system. The
  answers of \<open>mmap\<close> and \<open>clock_gettime\<close> are outside the program: the state carries the list of
  answers still to come (\<open>os_maps\<close>, \<open>os_clock\<close>), so a theorem for every state is a theorem for
  every behaviour of the system. \<open>0\<close> in \<open>os_maps\<close>, or its end, is \<open>MAP_FAILED\<close>. Mappings and
  unmappings are recorded in \<open>os_trace\<close>, newest first. \<open>mem\<close> holds the 64-bit words of payload
  memory by their address; an anonymous mapping is zero-filled. Mutexes have no state here: a
  function that locks is one step of the model. The interleavings that matter are modelled in
  \<open>Hz10_Quantum_Race\<close> and \<open>Hz10_Remote_Protocol\<close>.
\<close>

datatype os_event = Mapped addr u64 | Unmapped addr u64

record platform_state =
  mem :: memory
  os_maps :: "addr list"
  os_clock :: "u64 list"
  os_trace :: "os_event list"

text \<open>\<open>a\<close> lies in the \<open>bytes\<close> bytes from \<open>b\<close> on, in wrapping address arithmetic.\<close>

definition in_range :: "addr \<Rightarrow> u64 \<Rightarrow> addr \<Rightarrow> bool" where
  "in_range b bytes a \<longleftrightarrow> a - b < bytes"

fun os_mapped :: "os_event list \<Rightarrow> addr \<Rightarrow> bool" where
  "os_mapped [] a = False"
| "os_mapped (Mapped b n # tr) a = (in_range b n a \<or> os_mapped tr a)"
| "os_mapped (Unmapped b n # tr) a = (\<not> in_range b n a \<and> os_mapped tr a)"

definition hz10_platform_reserve_rw ::
  "u64 \<Rightarrow> 'a platform_state_scheme \<Rightarrow> addr \<times> 'a platform_state_scheme" where
  "hz10_platform_reserve_rw bytes st =
    (case os_maps st of
       [] \<Rightarrow> (0, st)
     | ptr # rest \<Rightarrow>
         (if ptr = 0 then (0, st\<lparr>os_maps := rest\<rparr>)
          else (ptr, st\<lparr>os_maps := rest, os_trace := Mapped ptr bytes # os_trace st,
                        mem := (\<lambda>a. if in_range ptr bytes a then 0 else mem st a)\<rparr>)))"

definition hz10_platform_release ::
  "addr \<Rightarrow> u64 \<Rightarrow> 'a platform_state_scheme \<Rightarrow> 'a platform_state_scheme" where
  "hz10_platform_release ptr bytes st =
    (if ptr \<noteq> 0 \<and> bytes \<noteq> 0 then st\<lparr>os_trace := Unmapped ptr bytes # os_trace st\<rparr> else st)"

definition hz10_platform_now_ns ::
  "'a platform_state_scheme \<Rightarrow> u64 \<times> 'a platform_state_scheme" where
  "hz10_platform_now_ns st =
    (case os_clock st of [] \<Rightarrow> (0, st) | t # rest \<Rightarrow> (t, st\<lparr>os_clock := rest\<rparr>))"

section \<open>Facts\<close>

lemma in_range_iff:
  "unat b + unat n \<le> 18446744073709551616 \<Longrightarrow>
     in_range b n a \<longleftrightarrow> unat b \<le> unat a \<and> unat a < unat b + unat n"
proof -
  assume le: "unat b + unat n \<le> 18446744073709551616"
  have *: "unat (a - b) = (if unat b \<le> unat a then unat a - unat b
      else unat a + 18446744073709551616 - unat b)"
    using unat_sub_if_size [of a b] by (simp add: word_size)
  show ?thesis
    unfolding in_range_def word_less_nat_alt * using le unat_u64_lt [of a] by auto
qed

lemma in_range_self [simp]: "in_range b n b \<longleftrightarrow> n \<noteq> 0"
  by (simp add: in_range_def word_gt_0)

lemma in_range_offset: "in_range b n (b + off) \<longleftrightarrow> off < n"
  by (simp add: in_range_def)

lemma reserve_rw_cases:
  obtains (fail) rest where "hz10_platform_reserve_rw bytes st = (0, st\<lparr>os_maps := rest\<rparr>)"
  | (ok) ptr rest where "ptr \<noteq> 0" "os_maps st = ptr # rest" "hz10_platform_reserve_rw bytes st =
      (ptr, st\<lparr>os_maps := rest, os_trace := Mapped ptr bytes # os_trace st,
               mem := (\<lambda>a. if in_range ptr bytes a then 0 else mem st a)\<rparr>)"
proof (cases "os_maps st")
  case Nil
  then have "hz10_platform_reserve_rw bytes st = (0, st\<lparr>os_maps := []\<rparr>)"
    by (simp add: hz10_platform_reserve_rw_def)
  then show ?thesis by (rule fail)
next
  case (Cons ptr rest)
  then show ?thesis
    by (cases "ptr = 0") (auto simp: hz10_platform_reserve_rw_def intro: fail ok)
qed

lemma release_frame [hz10_frame]:
  "mem (hz10_platform_release p n st) = mem st"
  "os_maps (hz10_platform_release p n st) = os_maps st"
  "os_clock (hz10_platform_release p n st) = os_clock st"
  by (simp_all add: hz10_platform_release_def)

lemma release_trace:
  "p \<noteq> 0 \<Longrightarrow> n \<noteq> 0 \<Longrightarrow> os_trace (hz10_platform_release p n st) = Unmapped p n # os_trace st"
  by (simp add: hz10_platform_release_def)

text \<open>\<open>if (n > 0) hz10_platform_release(p, n)\<close>: the trims.\<close>

lemma trim_mapped:
  "p \<noteq> 0 \<Longrightarrow> os_mapped (os_trace (if n > 0 then hz10_platform_release p n st else st)) a \<longleftrightarrow>
     \<not> in_range p n a \<and> os_mapped (os_trace st) a"
  by (auto simp: hz10_platform_release_def in_range_def word_gt_0)

text \<open>What an operation may touch, for the states that extend this one.\<close>

lemma reserve_rw_form:
  obtains m ma tr where
    "snd (hz10_platform_reserve_rw n st) = st\<lparr>mem := m, os_maps := ma, os_trace := tr\<rparr>"
proof (cases rule: reserve_rw_cases [of n st])
  case (fail rest)
  then show ?thesis by (intro that [where m = "mem st" and ma = rest and tr = "os_trace st"]) simp
next
  case (ok ptr rest)
  then show ?thesis
    by (intro that [where m = "\<lambda>a. if in_range ptr n a then 0 else mem st a" and ma = rest
          and tr = "Mapped ptr n # os_trace st"]) simp
qed

lemma release_form:
  obtains tr where "hz10_platform_release p n st = st\<lparr>os_trace := tr\<rparr>"
  by (cases "p \<noteq> 0 \<and> n \<noteq> 0") (auto simp: hz10_platform_release_def intro: that [where tr = "os_trace st"] that)

end
