(* ===== verification/Hz10_Pagemap.thy ===== *)
theory Hz10_Pagemap
  imports Hz10_Platform
begin

text \<open>
  \<open>hz10_pagemap.{h,c}\<close>: the two-level radix map from addresses to page records, with
  registration, release, and the classification of an arbitrary pointer (\<open>hz10_pagemap_route\<close>
  and its inline variant). The abstraction is a flat table over the 31 bits of the address the
  radix indices keep (\<open>pm_key\<close>); registration updates one entry of it.
\<close>

section \<open>Data\<close>

datatype H10RouteKind = H10_ROUTE_MISS | H10_ROUTE_VALID | H10_ROUTE_INVALID

datatype H10RouteReason = H10_REASON_NONE | H10_REASON_ROOT_ABSENT | H10_REASON_LEAF_ABSENT
  | H10_REASON_TAIL_SLACK | H10_REASON_MISALIGNED | H10_REASON_INTERIOR
  | H10_REASON_GENERATION_STALE

record H10RouteResult =
  rr_kind :: H10RouteKind
  rr_reason :: H10RouteReason
  rr_page_base :: addr
  rr_slot_size :: u32
  rr_slot_count :: u32
  rr_slot_index :: u32
  rr_generation :: u32
  rr_owner :: addr
  rr_flags :: u32

record H10PageRecord =
  rec_base :: addr
  rec_owner :: addr
  rec_slot_size :: u32
  rec_slot_count :: u32
  rec_generation :: u32
  rec_flags :: u32

record H10Leaf =
  leaf_address :: addr
  leaf_entries :: "u32 \<Rightarrow> H10PageRecord"

record H10RouteLocalResult =
  rl_owner :: addr
  rl_slot_size :: u32
  rl_generation :: u32
  rl_flags :: u32

record pagemap_state = platform_state +
  hz10_pagemap_root :: "u32 \<Rightarrow> H10Leaf option"

definition zero_record :: H10PageRecord where
  "zero_record = \<lparr>rec_base = 0, rec_owner = 0, rec_slot_size = 0, rec_slot_count = 0,
     rec_generation = 0, rec_flags = 0\<rparr>"

text \<open>\<open>sizeof(H10Leaf)\<close>: \<open>2 ^ 20\<close> records of 32 bytes.\<close>

definition sizeof_H10Leaf :: u64 where
  "sizeof_H10Leaf = 33554432"

section \<open>Operations\<close>

definition hz10_pagemap_page_index :: "addr \<Rightarrow> u32" where
  "hz10_pagemap_page_index a = ucast (drop_bit 16 a)"

definition hz10_pagemap_root_index :: "u32 \<Rightarrow> u32" where
  "hz10_pagemap_root_index page_index = drop_bit 20 page_index AND 2047"

definition hz10_pagemap_leaf_index :: "u32 \<Rightarrow> u32" where
  "hz10_pagemap_leaf_index page_index = page_index AND 1048575"

definition hz10_pagemap_ensure_leaf ::
  "u32 \<Rightarrow> 'a pagemap_state_scheme \<Rightarrow> H10Leaf option \<times> 'a pagemap_state_scheme" where
  "hz10_pagemap_ensure_leaf root_idx st =
    (case hz10_pagemap_root st root_idx of
       Some leaf \<Rightarrow> (Some leaf, st)
     | None \<Rightarrow>
         (let (m, st') = hz10_platform_reserve_rw sizeof_H10Leaf st in
          if m \<noteq> 0 then
            (let leaf = \<lparr>leaf_address = m, leaf_entries = (\<lambda>_. zero_record)\<rparr> in
             (Some leaf,
              st'\<lparr>hz10_pagemap_root := (hz10_pagemap_root st')(root_idx := Some leaf)\<rparr>))
          else (None, st')))"

definition hz10_pagemap_register_with_owner_and_flags ::
  "addr \<Rightarrow> u32 \<Rightarrow> u32 \<Rightarrow> addr \<Rightarrow> u32 \<Rightarrow> 'a pagemap_state_scheme \<Rightarrow>
     u32 \<times> 'a pagemap_state_scheme" where
  "hz10_pagemap_register_with_owner_and_flags b slot_size slot_count owner flags st =
    (if b = 0 \<or> slot_size = 0 \<or> slot_count = 0 then (0, st)
     else if b AND (HZ10_PAGE_QUANTUM - 1) \<noteq> 0 then (0, st)
     else
       let span = (ucast slot_size * ucast slot_count :: u64) in
       if slot_count > 1 \<and> span > HZ10_PAGE_QUANTUM then (0, st)
       else
         let page_index = hz10_pagemap_page_index b;
             root_idx = hz10_pagemap_root_index page_index;
             leaf_idx = hz10_pagemap_leaf_index page_index;
             (leaf, st') = hz10_pagemap_ensure_leaf root_idx st
         in case leaf of
              None \<Rightarrow> (0, st')
            | Some l \<Rightarrow>
                let rec = leaf_entries l leaf_idx;
                    old_base = rec_base rec;
                    old_generation = rec_generation rec;
                    generation =
                      (if old_base = 0 \<and> old_generation = 0 then 1 else old_generation + 1);
                    rec' = \<lparr>rec_base = b, rec_owner = owner, rec_slot_size = slot_size,
                            rec_slot_count = slot_count, rec_generation = generation,
                            rec_flags = flags\<rparr>;
                    l' = l\<lparr>leaf_entries := (leaf_entries l)(leaf_idx := rec')\<rparr>
                in (generation,
                    st'\<lparr>hz10_pagemap_root := (hz10_pagemap_root st')(root_idx := Some l')\<rparr>))"

definition hz10_pagemap_register_with_owner ::
  "addr \<Rightarrow> u32 \<Rightarrow> u32 \<Rightarrow> addr \<Rightarrow> 'a pagemap_state_scheme \<Rightarrow> u32 \<times> 'a pagemap_state_scheme" where
  "hz10_pagemap_register_with_owner b slot_size slot_count owner st =
     hz10_pagemap_register_with_owner_and_flags b slot_size slot_count owner 0 st"

definition hz10_pagemap_register ::
  "addr \<Rightarrow> u32 \<Rightarrow> u32 \<Rightarrow> 'a pagemap_state_scheme \<Rightarrow> u32 \<times> 'a pagemap_state_scheme" where
  "hz10_pagemap_register b slot_size slot_count st =
     hz10_pagemap_register_with_owner b slot_size slot_count 0 st"

definition hz10_pagemap_release ::
  "addr \<Rightarrow> 'a pagemap_state_scheme \<Rightarrow> int \<times> 'a pagemap_state_scheme" where
  "hz10_pagemap_release b st =
    (if b = 0 then (0, st)
     else if b AND (HZ10_PAGE_QUANTUM - 1) \<noteq> 0 then (0, st)
     else
       let page_index = hz10_pagemap_page_index b;
           root_idx = hz10_pagemap_root_index page_index;
           leaf_idx = hz10_pagemap_leaf_index page_index
       in case hz10_pagemap_root st root_idx of
            None \<Rightarrow> (0, st)
          | Some l \<Rightarrow>
              let rec = leaf_entries l leaf_idx in
              if rec_base rec = b \<and> rec_slot_size rec \<noteq> 0 then
                (1, st\<lparr>hz10_pagemap_root := (hz10_pagemap_root st)(root_idx :=
                     Some (l\<lparr>leaf_entries := (leaf_entries l)
                               (leaf_idx := rec\<lparr>rec_slot_size := 0\<rparr>)\<rparr>))\<rparr>)
              else (0, st))"

definition hz10_pagemap_result ::
  "H10RouteKind \<Rightarrow> H10RouteReason \<Rightarrow> addr \<Rightarrow> u32 \<Rightarrow> u32 \<Rightarrow> u32 \<Rightarrow> u32 \<Rightarrow> addr \<Rightarrow> u32 \<Rightarrow>
     H10RouteResult" where
  "hz10_pagemap_result kind reason page_base slot_size slot_count slot_index generation owner flags =
    \<lparr>rr_kind = kind, rr_reason = reason, rr_page_base = page_base, rr_slot_size = slot_size,
     rr_slot_count = slot_count, rr_slot_index = slot_index, rr_generation = generation,
     rr_owner = owner, rr_flags = flags\<rparr>"

text \<open>The pipeline of \<open>hz10_pagemap_route\<close> once the record of the pointer's quantum is found.\<close>

definition route_record :: "addr \<Rightarrow> u32 \<Rightarrow> H10PageRecord \<Rightarrow> H10RouteResult" where
  "route_record ptr expected_generation rec =
    (let slot_size = rec_slot_size rec in
     if slot_size = 0 then
       hz10_pagemap_result H10_ROUTE_MISS H10_REASON_LEAF_ABSENT 0 0 0 0 0 0 0
     else
       let b = rec_base rec; owner = rec_owner rec; slot_count = rec_slot_count rec;
           generation = rec_generation rec; flags = rec_flags rec;
           span = (ucast slot_size * ucast slot_count :: u64);
           offset = ptr - b;
           invalid = (\<lambda>reason. hz10_pagemap_result H10_ROUTE_INVALID reason b slot_size slot_count
                                 0 generation owner flags)
       in
       if offset \<ge> span then invalid H10_REASON_TAIL_SLACK
       else if offset AND (HZ10_MIN_ALIGN - 1) \<noteq> 0 then invalid H10_REASON_MISALIGNED
       else if slot_count = 1 then
         (if offset \<noteq> 0 then invalid H10_REASON_INTERIOR
          else if expected_generation \<noteq> HZ10_GENERATION_ANY \<and> expected_generation \<noteq> generation
            then invalid H10_REASON_GENERATION_STALE
          else hz10_pagemap_result H10_ROUTE_VALID H10_REASON_NONE b slot_size slot_count 0
                 generation owner flags)
       else if offset mod ucast slot_size \<noteq> 0 then invalid H10_REASON_INTERIOR
       else if expected_generation \<noteq> HZ10_GENERATION_ANY \<and> expected_generation \<noteq> generation
         then invalid H10_REASON_GENERATION_STALE
       else hz10_pagemap_result H10_ROUTE_VALID H10_REASON_NONE b slot_size slot_count
              (ucast (offset div ucast slot_size)) generation owner flags)"

definition hz10_pagemap_route ::
  "addr \<Rightarrow> u32 \<Rightarrow> 'a pagemap_state_scheme \<Rightarrow> H10RouteResult" where
  "hz10_pagemap_route ptr expected_generation st =
    (let root_absent = hz10_pagemap_result H10_ROUTE_MISS H10_REASON_ROOT_ABSENT 0 0 0 0 0 0 0 in
     if ptr = 0 then root_absent
     else
       let page_index = hz10_pagemap_page_index ptr;
           root_idx = hz10_pagemap_root_index page_index;
           leaf_idx = hz10_pagemap_leaf_index page_index
       in case hz10_pagemap_root st root_idx of
            None \<Rightarrow> root_absent
          | Some leaf \<Rightarrow> route_record ptr expected_generation (leaf_entries leaf leaf_idx))"

definition hz10_pagemap_route_local_fast ::
  "addr \<Rightarrow> 'a pagemap_state_scheme \<Rightarrow> H10RouteLocalResult option" where
  "hz10_pagemap_route_local_fast ptr st =
    (if ptr = 0 then None
     else
       let page_index = hz10_pagemap_page_index ptr;
           root_idx = hz10_pagemap_root_index page_index;
           leaf_idx = hz10_pagemap_leaf_index page_index
       in case hz10_pagemap_root st root_idx of
            None \<Rightarrow> None
          | Some leaf \<Rightarrow>
              let rec = leaf_entries leaf leaf_idx; slot_size = rec_slot_size rec in
              if slot_size = 0 then None
              else
                let b = rec_base rec; owner = rec_owner rec; slot_count = rec_slot_count rec;
                    generation = rec_generation rec; flags = rec_flags rec
                in if flags \<noteq> 0 then None
                   else
                     let span = (ucast slot_size * ucast slot_count :: u64); offset = ptr - b in
                     if offset \<ge> span then None
                     else if offset AND (HZ10_MIN_ALIGN - 1) \<noteq> 0 then None
                     else if (if slot_count = 1 then offset \<noteq> 0
                              else offset mod ucast slot_size \<noteq> 0) then None
                     else Some \<lparr>rl_owner = owner, rl_slot_size = slot_size,
                                rl_generation = generation, rl_flags = flags\<rparr>)"

fun pagemap_reset_from :: "nat \<Rightarrow> 'a pagemap_state_scheme \<Rightarrow> 'a pagemap_state_scheme" where
  "pagemap_reset_from 0 st = st"
| "pagemap_reset_from (Suc k) st =
    (let i = (2048 - of_nat (Suc k) :: u32);
         st' = (case hz10_pagemap_root st i of
                  None \<Rightarrow> st
                | Some leaf \<Rightarrow>
                    (hz10_platform_release (leaf_address leaf) sizeof_H10Leaf st)
                      \<lparr>hz10_pagemap_root := (hz10_pagemap_root st)(i := None)\<rparr>)
     in pagemap_reset_from k st')"

definition hz10_pagemap_reset_for_tests ::
  "'a pagemap_state_scheme \<Rightarrow> 'a pagemap_state_scheme" where
  "hz10_pagemap_reset_for_tests st = pagemap_reset_from 2048 st"

section \<open>The flat table behind the radix\<close>

text \<open>The radix indices keep bits 16 to 46 of an address: two addresses share a record exactly
  when they agree on these 31 bits.\<close>

definition pm_key :: "addr \<Rightarrow> nat" where
  "pm_key a = unat a div 65536 mod 2147483648"

definition pm_record :: "'a pagemap_state_scheme \<Rightarrow> addr \<Rightarrow> H10PageRecord" where
  "pm_record st a =
    (case hz10_pagemap_root st (hz10_pagemap_root_index (hz10_pagemap_page_index a)) of
       None \<Rightarrow> zero_record
     | Some l \<Rightarrow> leaf_entries l (hz10_pagemap_leaf_index (hz10_pagemap_page_index a)))"

lemma unat_page_index: "unat (hz10_pagemap_page_index a) = unat a div 65536 mod 4294967296"
proof -
  have "unat (drop_bit 16 a) = unat a div 65536" by (rule unat_drop_bit_16)
  then show ?thesis
    by (simp add: hz10_pagemap_page_index_def unsigned_ucast_eq take_bit_eq_mod)
qed

lemma unat_root_index: "unat (hz10_pagemap_root_index p) = unat p div 1048576 mod 2048"
  using unat_AND_mask [of "drop_bit 20 p" 11]
  by (simp add: hz10_pagemap_root_index_def mask_eq_exp_minus_1 unat_div drop_bit_eq_div)

lemma unat_leaf_index: "unat (hz10_pagemap_leaf_index p) = unat p mod 1048576"
  using unat_AND_mask [of p 20] by (simp add: hz10_pagemap_leaf_index_def mask_eq_exp_minus_1)

lemma pm_key_indices:
  "pm_key a = unat (hz10_pagemap_root_index (hz10_pagemap_page_index a)) * 1048576
            + unat (hz10_pagemap_leaf_index (hz10_pagemap_page_index a))"
proof -
  let ?y = "unat a div 65536 mod 4294967296"
  have "?y mod (1048576 * 2048) = 1048576 * (?y div 1048576 mod 2048) + ?y mod 1048576"
    by (rule mod_mult2_eq)
  moreover have "?y mod (1048576 * 2048) = unat a div 65536 mod (1048576 * 2048)"
    by (rule mod_mod_cancel) simp
  ultimately show ?thesis
    unfolding pm_key_def unat_root_index unat_leaf_index unat_page_index by simp
qed

lemma indices_eq_iff:
  "hz10_pagemap_root_index (hz10_pagemap_page_index a)
       = hz10_pagemap_root_index (hz10_pagemap_page_index b) \<and>
   hz10_pagemap_leaf_index (hz10_pagemap_page_index a)
       = hz10_pagemap_leaf_index (hz10_pagemap_page_index b)
   \<longleftrightarrow> pm_key a = pm_key b"
proof
  assume eq: "pm_key a = pm_key b"
  have m: "unat (hz10_pagemap_leaf_index (hz10_pagemap_page_index x)) = pm_key x mod 1048576"
    and d: "unat (hz10_pagemap_root_index (hz10_pagemap_page_index x)) = pm_key x div 1048576" for x
    unfolding pm_key_indices by (simp_all add: unat_leaf_index)
  have "unat (hz10_pagemap_leaf_index (hz10_pagemap_page_index a))
      = unat (hz10_pagemap_leaf_index (hz10_pagemap_page_index b))"
    by (simp only: m eq)
  moreover have "unat (hz10_pagemap_root_index (hz10_pagemap_page_index a))
      = unat (hz10_pagemap_root_index (hz10_pagemap_page_index b))"
    by (simp only: d eq)
  ultimately show "hz10_pagemap_root_index (hz10_pagemap_page_index a)
       = hz10_pagemap_root_index (hz10_pagemap_page_index b) \<and>
   hz10_pagemap_leaf_index (hz10_pagemap_page_index a)
       = hz10_pagemap_leaf_index (hz10_pagemap_page_index b)"
    by (simp add: word_unat_eq_iff)
qed (simp add: pm_key_indices)

lemma pm_record_key: "pm_key a = pm_key b \<Longrightarrow> pm_record st a = pm_record st b"
  unfolding indices_eq_iff [symmetric] pm_record_def by (auto split: option.splits)

lemma pm_key_offset:
  assumes "unat b mod 65536 = 0" "unat off < 65536"
  shows "pm_key (b + off) = pm_key b"
proof -
  have "unat (b + off) = unat b + unat off"
    by (rule unat_add_no_wrap) (use quantum_aligned_bound [OF assms(1)] assms(2) in simp)
  moreover obtain k where "unat b = 65536 * k" using assms(1) by (auto simp: mod_0_imp_dvd elim: dvdE)
  ultimately show ?thesis using assms(2) by (simp add: pm_key_def)
qed

section \<open>Registration and release as table updates\<close>

definition reg_ok :: "addr \<Rightarrow> u32 \<Rightarrow> u32 \<Rightarrow> bool" where
  "reg_ok b slot_size slot_count \<longleftrightarrow> b \<noteq> 0 \<and> slot_size \<noteq> 0 \<and> slot_count \<noteq> 0 \<and>
     unat b mod 65536 = 0 \<and> (slot_count > 1 \<longrightarrow> unat slot_size * unat slot_count \<le> 65536)"

definition next_generation :: "H10PageRecord \<Rightarrow> u32" where
  "next_generation rec =
     (if rec_base rec = 0 \<and> rec_generation rec = 0 then 1 else rec_generation rec + 1)"

lemma register_rejects:
  "\<not> reg_ok b s n \<Longrightarrow> hz10_pagemap_register_with_owner_and_flags b s n ow fl st = (0, st)"
  by (auto simp: hz10_pagemap_register_with_owner_and_flags_def reg_ok_def and_quantum_eq_0
      word_less_nat_alt unat_mult_u32)

lemma ensure_leaf_cases:
  obtains (absent) rest where
    "hz10_pagemap_ensure_leaf i st = (None, st\<lparr>os_maps := rest\<rparr>)" "hz10_pagemap_root st i = None"
  | (there) l where
    "hz10_pagemap_ensure_leaf i st = (Some l, st)" "hz10_pagemap_root st i = Some l"
  | (fresh) l m rest where "m \<noteq> 0" "os_maps st = m # rest" "hz10_pagemap_root st i = None"
    "l = \<lparr>leaf_address = m, leaf_entries = \<lambda>_. zero_record\<rparr>"
    "hz10_pagemap_ensure_leaf i st = (Some l, st\<lparr>os_maps := rest,
        os_trace := Mapped m sizeof_H10Leaf # os_trace st,
        mem := (\<lambda>a. if in_range m sizeof_H10Leaf a then 0 else mem st a),
        hz10_pagemap_root := (hz10_pagemap_root st)(i \<mapsto> l)\<rparr>)"
proof (cases "hz10_pagemap_root st i")
  case (Some l)
  then show ?thesis by (intro there) (simp_all add: hz10_pagemap_ensure_leaf_def)
next
  case None
  show ?thesis
  proof (cases rule: reserve_rw_cases [of sizeof_H10Leaf st])
    case (fail rest)
    with None show ?thesis by (intro absent) (simp_all add: hz10_pagemap_ensure_leaf_def)
  next
    case (ok ptr rest)
    with None show ?thesis
      by (intro fresh [of ptr rest]) (simp_all add: hz10_pagemap_ensure_leaf_def Let_def)
  qed
qed

text \<open>What a registration can do: refuse and change nothing, fail for want of memory and leave
  the table as it was, or replace exactly one entry and return its new generation.\<close>

lemma register_cases:
  obtains (refused) rest where "hz10_pagemap_register_with_owner_and_flags b s n ow fl st
      = (0, st\<lparr>os_maps := rest\<rparr>)"
    "\<not> reg_ok b s n \<or>
       hz10_pagemap_root st (hz10_pagemap_root_index (hz10_pagemap_page_index b)) = None"
  | (entered) g st' where "reg_ok b s n"
    "hz10_pagemap_register_with_owner_and_flags b s n ow fl st = (g, st')"
    "g = next_generation (pm_record st b)"
    "\<And>a. pm_record st' a = (if pm_key a = pm_key b then
        \<lparr>rec_base = b, rec_owner = ow, rec_slot_size = s, rec_slot_count = n,
         rec_generation = g, rec_flags = fl\<rparr> else pm_record st a)"
    "hz10_pagemap_root st' (hz10_pagemap_root_index (hz10_pagemap_page_index b)) \<noteq> None"
proof (cases "reg_ok b s n")
  case False
  show ?thesis
    by (rule refused [of "os_maps st"]) (simp_all add: register_rejects [OF False] False)
next
  case ok: True
  let ?i = "hz10_pagemap_root_index (hz10_pagemap_page_index b)"
  let ?j = "hz10_pagemap_leaf_index (hz10_pagemap_page_index b)"
  let ?r = "\<lambda>g. \<lparr>rec_base = b, rec_owner = ow, rec_slot_size = s, rec_slot_count = n,
         rec_generation = g, rec_flags = fl\<rparr>"
  have reg: "hz10_pagemap_register_with_owner_and_flags b s n ow fl st =
     (let (leaf, st') = hz10_pagemap_ensure_leaf ?i st in case leaf of None \<Rightarrow> (0, st')
      | Some l \<Rightarrow> let g = next_generation (leaf_entries l ?j) in
          (g, st'\<lparr>hz10_pagemap_root := (hz10_pagemap_root st')(?i \<mapsto>
                l\<lparr>leaf_entries := (leaf_entries l)(?j := ?r g)\<rparr>)\<rparr>))"
    using ok by (auto simp: hz10_pagemap_register_with_owner_and_flags_def reg_ok_def next_generation_def
        and_quantum_eq_0 word_less_nat_alt unat_mult_u32 Let_def split: prod.splits option.splits)
  have upd: "pm_record (st'\<lparr>hz10_pagemap_root := (hz10_pagemap_root st')(?i \<mapsto>
                l\<lparr>leaf_entries := (leaf_entries l)(?j := x)\<rparr>)\<rparr>) a
      = (if pm_key a = pm_key b then x else pm_record st a)"
    if "hz10_pagemap_root st' ?i = Some l" "\<And>a. pm_record st' a = pm_record st a"
    for st' :: "'a pagemap_state_scheme" and l x a
    using that(1) that(2) [of a] unfolding indices_eq_iff [symmetric] by (auto simp: pm_record_def)
  show ?thesis
  proof (cases rule: ensure_leaf_cases [of ?i st])
    case (absent rest)
    then show ?thesis by (intro refused [of rest]) (simp_all add: reg)
  next
    case (there l)
    then have "leaf_entries l ?j = pm_record st b" by (simp add: pm_record_def)
    with there ok show ?thesis by (intro entered [OF ok]) (auto simp: reg Let_def upd)
  next
    case (fresh l m rest)
    then have "leaf_entries l ?j = pm_record st b" by (simp add: pm_record_def)
    moreover have "pm_record (st\<lparr>os_maps := rest,
        os_trace := Mapped m sizeof_H10Leaf # os_trace st,
        mem := (\<lambda>a. if in_range m sizeof_H10Leaf a then 0 else mem st a),
        hz10_pagemap_root := (hz10_pagemap_root st)(?i \<mapsto> l)\<rparr>) a = pm_record st a" for a
      using fresh by (auto simp: pm_record_def)
    moreover note fresh(5)
    ultimately show ?thesis
      by (intro entered [OF ok reg [unfolded fresh(5) Let_def prod.case option.case]])
         (subst upd | simp)+
  qed
qed

lemma release_cases:
  obtains (missing) "hz10_pagemap_release b st = (0, st)"
    "\<not> (rec_base (pm_record st b) = b \<and> b \<noteq> 0 \<and> unat b mod 65536 = 0 \<and>
         rec_slot_size (pm_record st b) \<noteq> 0)"
  | (cleared) st' where "hz10_pagemap_release b st = (1, st')"
    "rec_base (pm_record st b) = b" "b \<noteq> 0" "unat b mod 65536 = 0"
    "rec_slot_size (pm_record st b) \<noteq> 0"
    "\<And>a. pm_record st' a = (if pm_key a = pm_key b
        then pm_record st b\<lparr>rec_slot_size := 0\<rparr> else pm_record st a)"
    "\<exists>rt. st' = st\<lparr>hz10_pagemap_root := rt\<rparr>"
proof (cases "rec_base (pm_record st b) = b \<and> b \<noteq> 0 \<and> unat b mod 65536 = 0 \<and>
         rec_slot_size (pm_record st b) \<noteq> 0")
  case False
  then have "hz10_pagemap_release b st = (0, st)"
    by (auto simp: hz10_pagemap_release_def pm_record_def zero_record_def and_quantum_eq_0 Let_def
        split: option.splits)
  then show ?thesis using False by (rule missing)
next
  case True
  let ?i = "hz10_pagemap_root_index (hz10_pagemap_page_index b)"
  let ?j = "hz10_pagemap_leaf_index (hz10_pagemap_page_index b)"
  obtain l where l: "hz10_pagemap_root st ?i = Some l" "leaf_entries l ?j = pm_record st b"
    using True by (auto simp: pm_record_def zero_record_def split: option.splits)
  let ?rt = "(hz10_pagemap_root st)(?i \<mapsto> l\<lparr>leaf_entries :=
      (leaf_entries l)(?j := pm_record st b\<lparr>rec_slot_size := 0\<rparr>)\<rparr>)"
  have "hz10_pagemap_release b st = (1, st\<lparr>hz10_pagemap_root := ?rt\<rparr>)"
    using True l by (auto simp: hz10_pagemap_release_def and_quantum_eq_0 Let_def)
  moreover have "pm_record (st\<lparr>hz10_pagemap_root := ?rt\<rparr>) a = (if pm_key a = pm_key b
        then pm_record st b\<lparr>rec_slot_size := 0\<rparr> else pm_record st a)" for a
    using l(1) unfolding indices_eq_iff [symmetric] by (auto simp: pm_record_def)
  ultimately show ?thesis using True by (intro cleared) auto
qed

text \<open>The fields an operation may touch, for the states that extend this one.\<close>

lemma ensure_leaf_form:
  obtains m ma tr rt where "snd (hz10_pagemap_ensure_leaf i st)
      = st\<lparr>mem := m, os_maps := ma, os_trace := tr, hz10_pagemap_root := rt\<rparr>"
proof (cases rule: ensure_leaf_cases [of i st])
  case (absent rest)
  then show ?thesis by (intro that [where m = "mem st" and ma = rest and tr = "os_trace st" and rt = "hz10_pagemap_root st"]) simp
next
  case (there l)
  then show ?thesis
    by (intro that [where m = "mem st" and ma = "os_maps st" and tr = "os_trace st" and rt = "hz10_pagemap_root st"]) simp
next
  case (fresh l m rest)
  then show ?thesis
    by (intro that [where m = "\<lambda>a. if in_range m sizeof_H10Leaf a then 0 else mem st a"
          and ma = rest and tr = "Mapped m sizeof_H10Leaf # os_trace st"
          and rt = "(hz10_pagemap_root st)(i \<mapsto> l)"]) simp
qed

lemma root_update_exists:
  "\<exists>rt. st\<lparr>hz10_pagemap_root := x\<rparr> = st\<lparr>hz10_pagemap_root := rt\<rparr>"
  by blast

lemma register_form:
  obtains m ma tr rt where "snd (hz10_pagemap_register_with_owner_and_flags b s n ow fl st)
      = st\<lparr>mem := m, os_maps := ma, os_trace := tr, hz10_pagemap_root := rt\<rparr>"
proof (cases "snd (hz10_pagemap_register_with_owner_and_flags b s n ow fl st) = st")
  case True
  then show ?thesis
    by (intro that [where m = "mem st" and ma = "os_maps st" and tr = "os_trace st" and rt = "hz10_pagemap_root st"]) simp
next
  case False
  let ?i = "hz10_pagemap_root_index (hz10_pagemap_page_index b)"
  obtain m ma tr rt where e: "snd (hz10_pagemap_ensure_leaf ?i st)
      = st\<lparr>mem := m, os_maps := ma, os_trace := tr, hz10_pagemap_root := rt\<rparr>"
    by (rule ensure_leaf_form)
  obtain leaf st1 where l: "hz10_pagemap_ensure_leaf ?i st = (leaf, st1)" by force
  have "\<exists>rt'. snd (hz10_pagemap_register_with_owner_and_flags b s n ow fl st)
      = st1\<lparr>hz10_pagemap_root := rt'\<rparr>"
  proof (cases leaf)
    case None
    then show ?thesis using False l
      by (intro exI [of _ "hz10_pagemap_root st1"])
         (auto simp: hz10_pagemap_register_with_owner_and_flags_def Let_def split: if_splits)
  next
    case (Some l')
    then show ?thesis using False l
      by (auto simp: hz10_pagemap_register_with_owner_and_flags_def Let_def root_update_exists
          split: if_splits)
  qed
  then obtain rt' where "snd (hz10_pagemap_register_with_owner_and_flags b s n ow fl st)
      = st1\<lparr>hz10_pagemap_root := rt'\<rparr>" ..
  with e l show ?thesis by (intro that [of rt' tr ma m]) simp
qed

lemma pagemap_release_form:
  obtains rt where "snd (hz10_pagemap_release b st) = st\<lparr>hz10_pagemap_root := rt\<rparr>"
proof (cases rule: release_cases [of b st])
  case missing
  then show ?thesis by (intro that [where rt = "hz10_pagemap_root st"]) simp
next
  case (cleared st')
  then show ?thesis by (auto intro: that)
qed

section \<open>Classification\<close>

text \<open>\<open>ptr\<close> is slot \<open>i\<close> of the page a record describes.\<close>

definition is_slot :: "H10PageRecord \<Rightarrow> addr \<Rightarrow> nat \<Rightarrow> bool" where
  "is_slot rec ptr i \<longleftrightarrow> rec_slot_size rec \<noteq> 0 \<and> i < unat (rec_slot_count rec) \<and>
     unat (ptr - rec_base rec) = i * unat (rec_slot_size rec) \<and>
     (i * unat (rec_slot_size rec)) mod 16 = 0"

lemma route_result_simps [simp]:
  "rr_kind (hz10_pagemap_result k r pb ss sc si g ow fl) = k"
  "rr_reason (hz10_pagemap_result k r pb ss sc si g ow fl) = r"
  "rr_page_base (hz10_pagemap_result k r pb ss sc si g ow fl) = pb"
  "rr_slot_size (hz10_pagemap_result k r pb ss sc si g ow fl) = ss"
  "rr_slot_count (hz10_pagemap_result k r pb ss sc si g ow fl) = sc"
  "rr_slot_index (hz10_pagemap_result k r pb ss sc si g ow fl) = si"
  "rr_generation (hz10_pagemap_result k r pb ss sc si g ow fl) = g"
  "rr_owner (hz10_pagemap_result k r pb ss sc si g ow fl) = ow"
  "rr_flags (hz10_pagemap_result k r pb ss sc si g ow fl) = fl"
  by (simp_all add: hz10_pagemap_result_def)

lemma span_less: "(off < ucast (s :: u32) * (ucast (n :: u32) :: u64)) \<longleftrightarrow> unat off < unat s * unat n"
  by (simp add: word_less_nat_alt unat_mult_u32)

lemma offset_mod_0: "((off :: u64) mod ucast (s :: u32) = 0) \<longleftrightarrow> unat off mod unat s = 0"
  by (simp add: word_unat_eq_iff unat_mod)

lemma offset_div:
  assumes "unat (off :: u64) < unat (s :: u32) * unat (n :: u32)"
  shows "unat (ucast (off div ucast s) :: u32) = unat off div unat s"
proof -
  have "unat off div unat s < unat n" using assms by (simp add: less_mult_imp_div_less mult.commute)
  then have "unat off div unat s < 4294967296" using unat_u32_lt [of n] by linarith
  then show ?thesis by (simp add: unsigned_ucast_eq take_bit_eq_mod unat_div)
qed

lemma route_record_valid:
  "rr_kind (route_record ptr g rec) = H10_ROUTE_VALID \<longleftrightarrow>
     (\<exists>i. is_slot rec ptr i) \<and> (g = 0 \<or> g = rec_generation rec)"
proof (cases "rec_slot_size rec = 0")
  case True
  then show ?thesis by (simp add: route_record_def is_slot_def)
next
  case False
  let ?off = "ptr - rec_base rec" and ?s = "unat (rec_slot_size rec)"
    and ?n = "unat (rec_slot_count rec)"
  have s: "0 < ?s" using False by (simp add: unat_gt_0)
  have one: "?off mod ucast (rec_slot_size rec) \<noteq> 0 \<longleftrightarrow> ?off \<noteq> 0"
    if "rec_slot_count rec = 1" "unat ?off < ?s * ?n"
    using that by (simp add: offset_mod_0 unat_0_iff)
  have "(\<exists>i. is_slot rec ptr i) \<longleftrightarrow>
      unat ?off < ?s * ?n \<and> unat ?off mod 16 = 0 \<and> unat ?off mod ?s = 0"
  proof
    assume "\<exists>i. is_slot rec ptr i"
    then obtain i where "i < ?n" "unat ?off = i * ?s" "(i * ?s) mod 16 = 0"
      by (auto simp: is_slot_def)
    then show "unat ?off < ?s * ?n \<and> unat ?off mod 16 = 0 \<and> unat ?off mod ?s = 0"
      using s by (simp add: mult.commute)
  next
    assume h: "unat ?off < ?s * ?n \<and> unat ?off mod 16 = 0 \<and> unat ?off mod ?s = 0"
    then have "unat ?off = unat ?off div ?s * ?s" by (simp add: mod_0_imp_dvd)
    moreover from h have "unat ?off div ?s < ?n" by (simp add: less_mult_imp_div_less mult.commute)
    ultimately have "is_slot rec ptr (unat ?off div ?s)"
      using False h by (auto simp: is_slot_def)
    then show "\<exists>i. is_slot rec ptr i" ..
  qed
  moreover have "rr_kind (route_record ptr g rec) = H10_ROUTE_VALID \<longleftrightarrow>
      unat ?off < ?s * ?n \<and> unat ?off mod 16 = 0 \<and> unat ?off mod ?s = 0 \<and>
      (g = 0 \<or> g = rec_generation rec)"
    using False one
    by (auto simp: route_record_def Let_def span_less not_le and_15_eq_0 offset_mod_0
        simp flip: not_less)
  ultimately show ?thesis by blast
qed

lemma route_record_fields:
  assumes "rec_slot_size rec \<noteq> 0"
  shows "rr_page_base (route_record ptr g rec) = rec_base rec"
    "rr_owner (route_record ptr g rec) = rec_owner rec"
    "rr_slot_size (route_record ptr g rec) = rec_slot_size rec"
    "rr_slot_count (route_record ptr g rec) = rec_slot_count rec"
    "rr_generation (route_record ptr g rec) = rec_generation rec"
    "rr_flags (route_record ptr g rec) = rec_flags rec"
  using assms by (simp_all add: route_record_def Let_def)

lemma route_record_miss:
  "rec_slot_size rec = 0 \<Longrightarrow> rr_kind (route_record ptr g rec) = H10_ROUTE_MISS"
  by (simp add: route_record_def)

lemma is_slot_unique: "is_slot rec ptr i \<Longrightarrow> is_slot rec ptr j \<Longrightarrow> i = j"
  by (auto simp: is_slot_def unat_gt_0 [symmetric])

lemma route_record_index:
  assumes "rr_kind (route_record ptr g rec) = H10_ROUTE_VALID" "is_slot rec ptr i"
  shows "unat (rr_slot_index (route_record ptr g rec)) = i"
proof -
  let ?off = "ptr - rec_base rec"
  have s: "rec_slot_size rec \<noteq> 0" "0 < unat (rec_slot_size rec)"
    and i: "i < unat (rec_slot_count rec)" "unat ?off = i * unat (rec_slot_size rec)"
    using assms(2) by (auto simp: is_slot_def unat_gt_0)
  have "unat ?off < unat (rec_slot_size rec) * unat (rec_slot_count rec)"
    using i s by (simp add: mult.commute)
  then have "unat (ucast (?off div ucast (rec_slot_size rec)) :: u32) = i"
    using offset_div [of ?off "rec_slot_size rec" "rec_slot_count rec"] i(2) s(2) by simp
  moreover have "rec_slot_count rec = 1 \<Longrightarrow> i = 0" using i by simp
  ultimately show ?thesis using assms(1) s(1)
    by (auto simp: route_record_def Let_def split: if_splits)
qed

lemma route_kind:
  "rr_kind (hz10_pagemap_route ptr g st) =
     (if ptr = 0 then H10_ROUTE_MISS else rr_kind (route_record ptr g (pm_record st ptr)))"
  by (auto simp: hz10_pagemap_route_def pm_record_def Let_def zero_record_def route_record_miss
      split: option.splits)

lemma route_eq_record:
  "rec_slot_size (pm_record st ptr) \<noteq> 0 \<Longrightarrow> ptr \<noteq> 0 \<Longrightarrow>
     hz10_pagemap_route ptr g st = route_record ptr g (pm_record st ptr)"
  by (auto simp: hz10_pagemap_route_def pm_record_def Let_def zero_record_def split: option.splits)

lemma route_valid_iff:
  "rr_kind (hz10_pagemap_route ptr g st) = H10_ROUTE_VALID \<longleftrightarrow> ptr \<noteq> 0 \<and>
     (\<exists>i. is_slot (pm_record st ptr) ptr i) \<and> (g = 0 \<or> g = rec_generation (pm_record st ptr))"
  by (simp add: route_kind route_record_valid)

lemma route_valid_record:
  assumes "rr_kind (hz10_pagemap_route ptr g st) = H10_ROUTE_VALID"
  defines "rec \<equiv> pm_record st ptr" and "r \<equiv> hz10_pagemap_route ptr g st"
  shows "is_slot rec ptr (unat (rr_slot_index r))" "rr_page_base r = rec_base rec"
    "rr_owner r = rec_owner rec" "rr_slot_size r = rec_slot_size rec"
    "rr_slot_count r = rec_slot_count rec" "rr_generation r = rec_generation rec"
    "rr_flags r = rec_flags rec"
proof -
  from assms(1) obtain i where i: "is_slot rec ptr i" and p: "ptr \<noteq> 0"
    unfolding rec_def route_valid_iff by auto
  then have s: "rec_slot_size rec \<noteq> 0" by (simp add: is_slot_def)
  then have r: "r = route_record ptr g rec" unfolding r_def rec_def using p by (rule route_eq_record)
  have "unat (rr_slot_index r) = i" unfolding r
    by (rule route_record_index [OF _ i]) (use assms(1) r in \<open>simp add: r_def\<close>)
  with i show "is_slot rec ptr (unat (rr_slot_index r))" by simp
qed (use assms in \<open>auto simp: r_def rec_def route_valid_iff is_slot_def route_eq_record
      route_record_fields\<close>)

lemma is_slot_registered:
  assumes "reg_ok b s n" "unat s mod 16 = 0" "i < unat n" "rec_base rec = b"
    "rec_slot_size rec = s" "rec_slot_count rec = n"
  shows "is_slot rec (slot_addr b s i) i" "pm_key (slot_addr b s i) = pm_key b"
    "slot_addr b s i \<noteq> 0"
proof -
  have al: "unat b mod 65536 = 0" and nz: "b \<noteq> 0" "s \<noteq> 0" using assms(1) by (auto simp: reg_ok_def)
  have lt: "i * unat s < 65536"
  proof (cases "unat n = 1")
    case True
    then show ?thesis using assms(3) by simp
  next
    case False
    then have "1 < unat n" using assms(3) by simp
    then have "unat s * unat n \<le> 65536"
      using assms(1) by (auto simp: reg_ok_def word_less_nat_alt)
    moreover have "i * unat s < unat n * unat s"
      by (rule mult_strict_right_mono) (use assms(3) nz in \<open>simp_all add: unat_gt_0\<close>)
    ultimately show ?thesis by (simp only: mult.commute [of "unat s"])
  qed
  then show "is_slot rec (slot_addr b s i) i"
    using assms nz by (simp add: is_slot_def slot_addr_diff mod_mult_right_eq [symmetric])
  have un: "unat (slot_addr b s i) = unat b + i * unat s" by (rule unat_slot_addr [OF al lt])
  then show "slot_addr b s i \<noteq> 0" using nz(1) by (metis add_is_0 unat_eq_zero)
  have "unat (slot_addr b s i - b) = i * unat s" by (rule slot_addr_diff) (use lt in simp)
  then show "pm_key (slot_addr b s i) = pm_key b"
    using pm_key_offset [OF al, of "slot_addr b s i - b"] lt by simp
qed

text \<open>What a registered page routes to.\<close>

lemma registered_route:
  assumes "hz10_pagemap_register_with_owner_and_flags b s n ow fl st = (g, st')" "g \<noteq> 0"
    and "unat s mod 16 = 0" "i < unat n"
  shows "hz10_pagemap_route (slot_addr b s i) e st' =
     (if e = 0 \<or> e = g
      then hz10_pagemap_result H10_ROUTE_VALID H10_REASON_NONE b s n (of_nat i) g ow fl
      else hz10_pagemap_result H10_ROUTE_INVALID H10_REASON_GENERATION_STALE b s n 0 g ow fl)"
proof (cases rule: register_cases [of b s n ow fl st])
  case (refused rest)
  with assms show ?thesis by simp
next
  case (entered g' st'')
  then have eq: "g' = g" "st'' = st'" using assms(1) by auto
  let ?p = "slot_addr b s i"
  let ?rec = "\<lparr>rec_base = b, rec_owner = ow, rec_slot_size = s, rec_slot_count = n,
     rec_generation = g, rec_flags = fl\<rparr>"
  have sl: "is_slot ?rec ?p i" "pm_key ?p = pm_key b" "?p \<noteq> 0"
    using is_slot_registered [OF entered(1) assms(3,4), of ?rec] by simp_all
  have rec: "pm_record st' ?p = ?rec" using entered(4) [of ?p] sl(2) eq by simp
  have s: "s \<noteq> 0" using entered(1) by (simp add: reg_ok_def)
  then have r: "hz10_pagemap_route ?p e st' = route_record ?p e ?rec"
    using rec sl(3) by (simp add: route_eq_record)
  have v: "rr_kind (route_record ?p 0 ?rec) = H10_ROUTE_VALID"
    using sl(1) by (auto simp: route_record_valid)
  have ix: "rr_slot_index (route_record ?p 0 ?rec) = of_nat i"
    using route_record_index [OF v sl(1)] less_trans [OF assms(4) unat_u32_lt]
    by (simp add: word_unat_eq_iff unat_of_nat)
  show ?thesis
    unfolding r using v ix s assms(2)
    by (auto simp: route_record_def Let_def split: if_splits)
qed

text \<open>The fast path of \<open>hz10_free\<close>.\<close>

lemma fast_route_eq:
  "hz10_pagemap_route_local_fast ptr st =
    (let r = hz10_pagemap_route ptr 0 st in
     if rr_kind r = H10_ROUTE_VALID \<and> rr_flags r = 0
     then Some \<lparr>rl_owner = rr_owner r, rl_slot_size = rr_slot_size r,
                rl_generation = rr_generation r, rl_flags = rr_flags r\<rparr>
     else None)"
  by (auto simp: hz10_pagemap_route_local_fast_def hz10_pagemap_route_def route_record_def Let_def
      split: option.splits)

text \<open>The order of the stores of a registration: every field before \<open>slot_size\<close>, which readers
  take as the sign that a record is present. The list holds the record after each store.\<close>

definition register_stores ::
  "H10PageRecord \<Rightarrow> addr \<Rightarrow> u32 \<Rightarrow> u32 \<Rightarrow> addr \<Rightarrow> u32 \<Rightarrow> H10PageRecord list" where
  "register_stores rec b slot_size slot_count owner flags =
    (let generation = next_generation rec;
         r1 = rec\<lparr>rec_base := b\<rparr>;
         r2 = r1\<lparr>rec_owner := owner\<rparr>;
         r3 = r2\<lparr>rec_slot_count := slot_count\<rparr>;
         r4 = r3\<lparr>rec_generation := generation\<rparr>;
         r5 = r4\<lparr>rec_flags := flags\<rparr>;
         r6 = r5\<lparr>rec_slot_size := slot_size\<rparr>
     in [r1, r2, r3, r4, r5, r6])"

definition example_pagemap :: pagemap_state where
  "example_pagemap = \<lparr>mem = \<lambda>_. 0, os_maps = [0x7f0000000000], os_clock = [], os_trace = [],
     hz10_pagemap_root = \<lambda>_. None\<rparr>"

section \<open>Properties\<close>

text \<open>C3: Classification is fail-closed for every 64-bit pointer and every state of the map: a
  route is VALID exactly when the pointer is the first byte of a 16-aligned slot of the record of
  its quantum and the expected generation is the record's (or \<open>HZ10_GENERATION_ANY\<close>); the result
  then names that slot and carries the record's fields, so interior, misaligned, out-of-range and
  stale pointers are never accepted.\<close>

theorem route_fail_closed:
  "let r = hz10_pagemap_route ptr g st; rec = pm_record st ptr in
   if rr_kind r = H10_ROUTE_VALID then
     ptr \<noteq> 0 \<and> is_slot rec ptr (unat (rr_slot_index r)) \<and> (g = 0 \<or> g = rec_generation rec) \<and>
     r = hz10_pagemap_result H10_ROUTE_VALID H10_REASON_NONE (rec_base rec) (rec_slot_size rec)
           (rec_slot_count rec) (rr_slot_index r) (rec_generation rec) (rec_owner rec) (rec_flags rec)
   else ptr = 0 \<or> (\<forall>i. \<not> is_slot rec ptr i) \<or> (g \<noteq> 0 \<and> g \<noteq> rec_generation rec)"
proof (cases "rr_kind (hz10_pagemap_route ptr g st) = H10_ROUTE_VALID")
  case True
  let ?r = "hz10_pagemap_route ptr g st"
  have p: "ptr \<noteq> 0" "g = 0 \<or> g = rec_generation (pm_record st ptr)"
    using True by (simp_all add: route_valid_iff)
  have sl: "is_slot (pm_record st ptr) ptr (unat (rr_slot_index ?r))"
    using route_valid_record [OF True] by simp
  then have "?r = route_record ptr g (pm_record st ptr)"
    by (intro route_eq_record [OF _ p(1)]) (simp add: is_slot_def)
  moreover have "rr_reason (route_record ptr g rec) = H10_REASON_NONE"
    if "rr_kind (route_record ptr g rec) = H10_ROUTE_VALID" for rec
    using that by (auto simp: route_record_def Let_def split: if_splits)
  ultimately show ?thesis
    using True p sl route_valid_record [OF True]
    by (auto simp: Let_def hz10_pagemap_result_def intro: H10RouteResult.equality)
next
  case False
  then show ?thesis by (auto simp: route_valid_iff Let_def)
qed

text \<open>C4: A registration that returns a generation makes every slot of the page routable: slot
  \<open>i\<close> is VALID with index \<open>i\<close>, the registered geometry, owner tag and flags, for the new
  generation and for \<open>HZ10_GENERATION_ANY\<close>, and STALE for any other generation.\<close>

theorem register_then_route:
  assumes "hz10_pagemap_register_with_owner_and_flags b s n ow fl st = (g, st')" "g \<noteq> 0"
    and "unat s mod 16 = 0" "i < unat n"
  shows "hz10_pagemap_route (slot_addr b s i) e st' =
     (if e = 0 \<or> e = g
      then hz10_pagemap_result H10_ROUTE_VALID H10_REASON_NONE b s n (of_nat i) g ow fl
      else hz10_pagemap_result H10_ROUTE_INVALID H10_REASON_GENERATION_STALE b s n 0 g ow fl)"
  using registered_route [OF assms] .

theorem register_then_route_witness:
  "hz10_pagemap_route (slot_addr 0x7f1234560000 48 3) 1
     (snd (hz10_pagemap_register_with_owner_and_flags 0x7f1234560000 48 1365 7 0 example_pagemap))
   = hz10_pagemap_result H10_ROUTE_VALID H10_REASON_NONE 0x7f1234560000 48 1365 3 1 7 0"
proof -
  have f: "fst (hz10_pagemap_register_with_owner_and_flags 0x7f1234560000 48 1365 7 0
      example_pagemap) = 1"
    by code_simp
  show ?thesis
    by (subst register_then_route [where g = 1 and i = 3 and b = "0x7f1234560000" and s = 48
        and n = 1365 and ow = 7 and fl = 0 and st = example_pagemap])
       (use f in \<open>auto simp: prod_eq_iff\<close>)
qed

text \<open>A registration or a release at one base never changes how a pointer of another table
  entry is classified: kind, owner, slot and generation stay as they were.\<close>

theorem pagemap_frame:
  assumes "pm_key ptr \<noteq> pm_key b"
    and "st' = snd (hz10_pagemap_register_with_owner_and_flags b s n ow fl st)
       \<or> st' = snd (hz10_pagemap_release b st)"
  shows "(hz10_pagemap_route ptr e st')\<lparr>rr_reason := H10_REASON_NONE\<rparr>
       = (hz10_pagemap_route ptr e st)\<lparr>rr_reason := H10_REASON_NONE\<rparr>"
proof -
  have same: "(hz10_pagemap_route ptr e st')\<lparr>rr_reason := H10_REASON_NONE\<rparr>
      = (hz10_pagemap_route ptr e st)\<lparr>rr_reason := H10_REASON_NONE\<rparr>"
    if "pm_record st' ptr = pm_record st ptr" for st' st :: "'a pagemap_state_scheme"
  proof (cases "ptr = 0 \<or> rec_slot_size (pm_record st ptr) = 0")
    case True
    have "(hz10_pagemap_route ptr e st'')\<lparr>rr_reason := H10_REASON_NONE\<rparr>
      = hz10_pagemap_result H10_ROUTE_MISS H10_REASON_NONE 0 0 0 0 0 0 0"
      if "ptr = 0 \<or> rec_slot_size (pm_record st'' ptr) = 0" for st'' :: "'a pagemap_state_scheme"
      using that by (auto simp: hz10_pagemap_route_def pm_record_def route_record_def
          hz10_pagemap_result_def zero_record_def Let_def split: option.splits)
    with True that show ?thesis by simp
  next
    case False
    with that show ?thesis by (simp add: route_eq_record)
  qed
  from assms(2) have "pm_record st' ptr = pm_record st ptr"
  proof
    assume st': "st' = snd (hz10_pagemap_register_with_owner_and_flags b s n ow fl st)"
    show ?thesis
    proof (cases rule: register_cases [of b s n ow fl st])
      case (refused rest)
      then show ?thesis using st' by (simp add: pm_record_def)
    next
      case (entered g st'')
      then show ?thesis using st' assms(1) by simp
    qed
  next
    assume st': "st' = snd (hz10_pagemap_release b st)"
    show ?thesis
      by (cases rule: release_cases [of b st]) (use st' assms(1) in simp_all)
  qed
  then show ?thesis by (rule same)
qed

theorem pagemap_frame_witness:
  "(hz10_pagemap_route 0x7f1234570000 0 (snd (hz10_pagemap_release 0x7f1234560000 example_pagemap)))
      \<lparr>rr_reason := H10_REASON_NONE\<rparr>
   = (hz10_pagemap_route 0x7f1234570000 0 example_pagemap)\<lparr>rr_reason := H10_REASON_NONE\<rparr>"
  by (rule pagemap_frame [where b = "0x7f1234560000"]) (simp_all add: pm_key_def)

text \<open>A stale generation never comes back to life: once a live page is released no pointer of
  its quantum routes, and the next registration of the same base takes the next generation, so a
  holder of the old generation is told GENERATION_STALE (for every generation below the 32-bit
  limit).\<close>

theorem release_then_stale:
  assumes live: "rec_base (pm_record st b) = b" "reg_ok b s n"
      "rec_slot_size (pm_record st b) \<noteq> 0" "unat s mod 16 = 0" "i < unat n"
    and gen: "rec_generation (pm_record st b) = g" "g \<noteq> 0" "g \<noteq> - 1"
    and rel: "hz10_pagemap_release b st = (k, st1)"
    and reg: "hz10_pagemap_register_with_owner_and_flags b s n ow fl st1 = (g', st2)" "g' \<noteq> 0"
  shows "k = 1 \<and> g' = g + 1 \<and>
    (pm_key ptr \<noteq> pm_key b \<or> rr_kind (hz10_pagemap_route ptr e st1) = H10_ROUTE_MISS) \<and>
    rr_reason (hz10_pagemap_route (slot_addr b s i) g st2) = H10_REASON_GENERATION_STALE"
proof -
  have b: "b \<noteq> 0" "unat b mod 65536 = 0" using live(2) by (simp_all add: reg_ok_def)
  have "k = 1 \<and> (\<forall>a. pm_record st1 a = (if pm_key a = pm_key b
      then pm_record st b\<lparr>rec_slot_size := 0\<rparr> else pm_record st a))"
    by (cases rule: release_cases [of b st]) (use live b rel in simp_all)
  then have k: "k = 1" and after: "\<And>a. pm_record st1 a = (if pm_key a = pm_key b
      then pm_record st b\<lparr>rec_slot_size := 0\<rparr> else pm_record st a)" by blast+
  have miss: "pm_key ptr = pm_key b \<Longrightarrow> rr_kind (hz10_pagemap_route ptr e st1) = H10_ROUTE_MISS"
    using after [of ptr] by (simp add: route_kind route_record_miss)
  have g': "g' = g + 1"
    by (cases rule: register_cases [of b s n ow fl st1])
       (use reg after [of b] gen b live(1) in \<open>auto simp: next_generation_def\<close>)
  then have "g \<noteq> g'" by simp
  then have "hz10_pagemap_route (slot_addr b s i) g st2
      = hz10_pagemap_result H10_ROUTE_INVALID H10_REASON_GENERATION_STALE b s n 0 g' ow fl"
    using registered_route [OF reg live(4,5), of g] gen(2) by simp
  with k g' miss show ?thesis by auto
qed

definition live_pagemap :: pagemap_state where
  "live_pagemap = example_pagemap\<lparr>hz10_pagemap_root := (\<lambda>_. Some \<lparr>leaf_address = 0x7f0000000000,
     leaf_entries = (\<lambda>_. \<lparr>rec_base = 0x7f1234560000, rec_owner = 7, rec_slot_size = 48,
       rec_slot_count = 1365, rec_generation = 4, rec_flags = 0\<rparr>)\<rparr>)\<rparr>"

theorem release_then_stale_witness:
  "let st1 = snd (hz10_pagemap_release 0x7f1234560000 live_pagemap);
       st2 = snd (hz10_pagemap_register_with_owner_and_flags 0x7f1234560000 48 1365 9 0 st1)
   in rr_reason (hz10_pagemap_route (slot_addr 0x7f1234560000 48 2) 4 st2)
      = H10_REASON_GENERATION_STALE"
proof -
  let ?st1 = "snd (hz10_pagemap_release 0x7f1234560000 live_pagemap)"
  have 1: "fst (hz10_pagemap_register_with_owner_and_flags 0x7f1234560000 48 1365 9 0 ?st1) = 5"
    by code_simp
  let ?st2 = "snd (hz10_pagemap_register_with_owner_and_flags 0x7f1234560000 48 1365 9 0 ?st1)"
  have rel: "hz10_pagemap_release 0x7f1234560000 live_pagemap
      = (fst (hz10_pagemap_release 0x7f1234560000 live_pagemap), ?st1)" by simp
  have reg: "hz10_pagemap_register_with_owner_and_flags 0x7f1234560000 48 1365 9 0 ?st1 = (5, ?st2)"
    using 1 by (simp add: prod_eq_iff)
  have rec: "pm_record live_pagemap 0x7f1234560000 = \<lparr>rec_base = 0x7f1234560000, rec_owner = 7,
      rec_slot_size = 48, rec_slot_count = 1365, rec_generation = 4, rec_flags = 0\<rparr>"
    by (simp add: live_pagemap_def pm_record_def)
  show ?thesis unfolding Let_def
    by (rule release_then_stale [where i = 2 and g = 4, OF _ _ _ _ _ _ _ _ rel reg,
          THEN conjunct2, THEN conjunct2, THEN conjunct2])
       (simp_all add: rec reg_ok_def)
qed

text \<open>The inline fast path of \<open>hz10_free\<close> accepts exactly the pointers the slow route accepts
  with flags 0 and any generation, and reports the same owner, slot size and generation.\<close>

theorem route_local_fast_eq:
  "hz10_pagemap_route_local_fast ptr st =
    (let r = hz10_pagemap_route ptr 0 st in
     if rr_kind r = H10_ROUTE_VALID \<and> rr_flags r = 0
     then Some \<lparr>rl_owner = rr_owner r, rl_slot_size = rr_slot_size r,
                rl_generation = rr_generation r, rl_flags = rr_flags r\<rparr>
     else None)"
  by (rule fast_route_eq)

text \<open>C21: The generation counter wraps: when the record of a base is at \<open>UINT32_MAX\<close>, the next
  registration writes a live record with generation 0 and returns 0, the value that means failure,
  so the caller gives the memory back while the map still routes it as VALID.\<close>

theorem register_generation_wraps:
  assumes "reg_ok b s n" "rec_generation (pm_record st b) = - 1"
    and "hz10_pagemap_root st (hz10_pagemap_root_index (hz10_pagemap_page_index b)) \<noteq> None"
    and "hz10_pagemap_register_with_owner_and_flags b s n ow fl st = (g, st')"
  shows "g = 0 \<and> rr_kind (hz10_pagemap_route b e st') =
    (if e = 0 then H10_ROUTE_VALID else H10_ROUTE_INVALID)"
proof (cases rule: register_cases [of b s n ow fl st])
  case (refused rest)
  with assms show ?thesis by simp
next
  case (entered g' st'')
  then have "g = 0" using assms(2,4) by (simp add: next_generation_def)
  moreover have "pm_record st' b = \<lparr>rec_base = b, rec_owner = ow, rec_slot_size = s,
      rec_slot_count = n, rec_generation = 0, rec_flags = fl\<rparr>" (is "_ = ?rec")
    using entered(2) entered(4) [of b] assms(4) \<open>g = 0\<close> by simp
  moreover have "s \<noteq> 0" "n \<noteq> 0" "b \<noteq> 0" using assms(1) by (auto simp: reg_ok_def)
  moreover from this have "is_slot ?rec b 0" by (simp add: is_slot_def unat_gt_0)
  ultimately show ?thesis
    by (auto simp: route_eq_record route_record_def Let_def unat_gt_0 span_less not_le
        simp flip: not_less)
qed

definition wrapped_pagemap :: pagemap_state where
  "wrapped_pagemap = example_pagemap\<lparr>hz10_pagemap_root := (\<lambda>_. Some \<lparr>leaf_address = 0x7f0000000000,
     leaf_entries = (\<lambda>_. zero_record\<lparr>rec_base := 0x7f1234560000, rec_generation := - 1\<rparr>)\<rparr>)\<rparr>"

theorem register_generation_wraps_witness:
  "fst (hz10_pagemap_register_with_owner_and_flags 0x7f1234560000 48 1365 7 0 wrapped_pagemap) = 0
   \<and> rr_kind (hz10_pagemap_route 0x7f1234560000 0
        (snd (hz10_pagemap_register_with_owner_and_flags 0x7f1234560000 48 1365 7 0
           wrapped_pagemap))) = H10_ROUTE_VALID"
  using register_generation_wraps [of "0x7f1234560000" 48 1365 wrapped_pagemap 7 0 _ _ 0,
      OF _ _ _ prod.collapse [symmetric]]
  by (simp add: reg_ok_def wrapped_pagemap_def pm_record_def)

text \<open>Readers take no lock, so they can see a registration half done: while the entry is not
  live, every store before the last leaves it a miss, and the last one makes it the complete new
  record.\<close>

theorem register_publishes_last:
  assumes "rec_slot_size rec = 0"
  shows "length (register_stores rec b s n ow fl) = 6 \<and>
    (\<forall>r\<in>set (butlast (register_stores rec b s n ow fl)).
       rr_kind (route_record ptr e r) = H10_ROUTE_MISS) \<and>
    last (register_stores rec b s n ow fl) =
      \<lparr>rec_base = b, rec_owner = ow, rec_slot_size = s, rec_slot_count = n,
       rec_generation = next_generation rec, rec_flags = fl\<rparr>"
  using assms by (simp add: register_stores_def Let_def route_record_miss)

theorem register_publishes_last_witness:
  "rr_kind (route_record 0x7f1234560000 0
     (butlast (register_stores zero_record 0x7f1234560000 48 1365 7 0) ! 4)) = H10_ROUTE_MISS"
  using register_publishes_last [of zero_record "0x7f1234560000" 48 1365 7 0 "0x7f1234560000" 0]
  by (simp add: zero_record_def register_stores_def Let_def)

end
