(* ===== verification/Hz10_Page_Lifecycle.thy ===== *)
theory Hz10_Page_Lifecycle
  imports Hz10_Freelist_Page Hz10_Pagemap
begin

text \<open>
  \<open>hz10_freelist_page.c\<close>: where pages come from and go to. Metadata nodes (a page header, its
  pending words and its spread stripes) are carved from 64 KiB slabs and kept on a free list;
  payload quanta are carved from 16 MiB regions by a bump cursor; \<open>create_common\<close> puts the two
  together and enters the page in the pagemap, \<open>destroy\<close> takes it apart. The page headers are
  \<open>pages\<close>, by the address of their node. Each function is one step here; the lock-free bump of
  the cursor is taken apart in \<open>Hz10_Quantum_Race\<close>.
\<close>

record page_heap_state = pagemap_state +
  pages :: "addr \<Rightarrow> Hz10FreelistPage"
  meta_next :: "addr \<Rightarrow> addr"
  hz10_metadata_free_list :: addr
  hz10_metadata_slab_count :: u64
  hz10_metadata_node_capacity :: u64
  hz10_quantum_region_cursor :: addr
  hz10_quantum_region_end :: addr

abbreviation (input) HZ10_QUANTUM_REGION_COUNT :: u64 where "HZ10_QUANTUM_REGION_COUNT \<equiv> 256"
abbreviation (input) HZ10_METADATA_SLAB_BYTES :: u64 where "HZ10_METADATA_SLAB_BYTES \<equiv> 65536"

text \<open>\<open>sizeof(Hz10FreelistPageMetaNode)\<close> on a 64-bit target without debug counters: the 224 bytes
  of the page, 64 pending words, 4 stripe lines of 64 bytes and the link.\<close>

definition sizeof_meta_node :: u64 where "sizeof_meta_node = 1000"

definition set_page :: "addr \<Rightarrow> Hz10FreelistPage \<Rightarrow> 'a page_heap_state_scheme \<Rightarrow>
    'a page_heap_state_scheme" where
  "set_page pg p st = st\<lparr>pages := (pages st)(pg := p)\<rparr>"

section \<open>Metadata nodes\<close>

fun metadata_slab_link :: "addr \<Rightarrow> nat \<Rightarrow> nat \<Rightarrow> 'a page_heap_state_scheme \<Rightarrow>
    'a page_heap_state_scheme" where
  "metadata_slab_link cursor i 0 st = st"
| "metadata_slab_link cursor i (Suc k) st =
    (let node = cursor + of_nat i * sizeof_meta_node in
     metadata_slab_link cursor (Suc i) k
       (st\<lparr>meta_next := (meta_next st)(node := hz10_metadata_free_list st),
           hz10_metadata_free_list := node\<rparr>))"

definition hz10_metadata_slab_refill_locked ::
  "'a page_heap_state_scheme \<Rightarrow> bool \<times> 'a page_heap_state_scheme" where
  "hz10_metadata_slab_refill_locked st =
    (let (slab, st1) = hz10_platform_reserve_rw HZ10_METADATA_SLAB_BYTES st in
     if slab = 0 then (False, st1)
     else
       let count = HZ10_METADATA_SLAB_BYTES div sizeof_meta_node;
           st2 = metadata_slab_link slab 0 (unat count) st1
       in (True, st2\<lparr>hz10_metadata_slab_count := hz10_metadata_slab_count st2 + 1,
                     hz10_metadata_node_capacity := hz10_metadata_node_capacity st2 + count\<rparr>))"

definition hz10_metadata_page_alloc ::
  "'a page_heap_state_scheme \<Rightarrow> addr \<times> 'a page_heap_state_scheme" where
  "hz10_metadata_page_alloc st =
    (let (ok, st1) = (if hz10_metadata_free_list st = 0 then hz10_metadata_slab_refill_locked st
                      else (True, st)) in
     if \<not> ok then (0, st1)
     else
       let node = hz10_metadata_free_list st1 in
       (node, st1\<lparr>hz10_metadata_free_list := meta_next st1 node,
                  meta_next := (meta_next st1)(node := 0),
                  pages := (pages st1)(node := zero_page)\<rparr>))"

definition hz10_metadata_page_free ::
  "addr \<Rightarrow> 'a page_heap_state_scheme \<Rightarrow> 'a page_heap_state_scheme" where
  "hz10_metadata_page_free page st =
    (if page = 0 then st
     else st\<lparr>meta_next := (meta_next st)(page := hz10_metadata_free_list st),
             hz10_metadata_free_list := page\<rparr>)"

record Hz10FreelistMetadataStats =
  ms_slab_count :: u64
  ms_node_capacity :: u64
  ms_free_nodes :: u64
  ms_live_nodes :: u64
  ms_node_bytes :: u32
  ms_slab_bytes :: u32

partial_function (option) metadata_count_free ::
  "(addr \<Rightarrow> addr) \<Rightarrow> addr \<Rightarrow> u64 \<Rightarrow> u64 option" where
  "metadata_count_free nx node n =
     (if node = 0 then Some n else metadata_count_free nx (nx node) (n + 1))"

definition hz10_freelist_metadata_stats ::
  "'a page_heap_state_scheme \<Rightarrow> Hz10FreelistMetadataStats option" where
  "hz10_freelist_metadata_stats st =
    do {
      free_nodes \<leftarrow> metadata_count_free (meta_next st) (hz10_metadata_free_list st) 0;
      Some \<lparr>ms_slab_count = hz10_metadata_slab_count st,
            ms_node_capacity = hz10_metadata_node_capacity st,
            ms_free_nodes = free_nodes,
            ms_live_nodes = hz10_metadata_node_capacity st - free_nodes,
            ms_node_bytes = ucast sizeof_meta_node,
            ms_slab_bytes = ucast HZ10_METADATA_SLAB_BYTES\<rparr>
    }"

section \<open>Quanta\<close>

definition quantum_region_refill ::
  "'a page_heap_state_scheme \<Rightarrow> bool \<times> 'a page_heap_state_scheme" where
  "quantum_region_refill st =
    (let bytes = HZ10_PAGE_QUANTUM;
         region_bytes = bytes * HZ10_QUANTUM_REGION_COUNT;
         raw_bytes = region_bytes + bytes;
         (raw_addr, st1) = hz10_platform_reserve_rw raw_bytes st
     in
     if raw_addr = 0 then (False, st1)
     else
       let aligned_addr = (raw_addr + (bytes - 1)) AND NOT (bytes - 1);
           head_trim = aligned_addr - raw_addr;
           tail_trim = raw_bytes - head_trim - region_bytes;
           st2 = (if head_trim > 0 then hz10_platform_release raw_addr head_trim st1 else st1);
           st3 = (if tail_trim > 0
                  then hz10_platform_release (aligned_addr + region_bytes) tail_trim st2 else st2)
       in (True, st3\<lparr>hz10_quantum_region_end := aligned_addr + region_bytes,
                     hz10_quantum_region_cursor := aligned_addr\<rparr>))"

lemma quantum_region_refill_nonempty:
  "quantum_region_refill st = (True, st') \<Longrightarrow>
     hz10_quantum_region_end st' = hz10_quantum_region_cursor st' + 16777216"
  by (auto simp: quantum_region_refill_def Let_def split: prod.splits if_splits)

text \<open>The retry loop, as one thread runs it: bump the cursor unless it has reached the end, refill
  otherwise and try again.\<close>

function hz10_freelist_reserve_aligned_quantum ::
  "'a page_heap_state_scheme \<Rightarrow> addr \<times> 'a page_heap_state_scheme" where
  "hz10_freelist_reserve_aligned_quantum st =
    (let cursor = hz10_quantum_region_cursor st in
     if cursor \<noteq> hz10_quantum_region_end st then
       (cursor, st\<lparr>hz10_quantum_region_cursor := cursor + HZ10_PAGE_QUANTUM\<rparr>)
     else
       case quantum_region_refill st of
         (False, st') \<Rightarrow> (0, st')
       | (True, st') \<Rightarrow> hz10_freelist_reserve_aligned_quantum st')"
  by auto
termination
  by (relation "measure (\<lambda>st. if hz10_quantum_region_cursor st = hz10_quantum_region_end st
        then 1 else 0)")
     (auto dest!: quantum_region_refill_nonempty sym [of "(True, _)"])

declare hz10_freelist_reserve_aligned_quantum.simps [simp del]

section \<open>Create and destroy\<close>

definition hz10_freelist_page_create_common ::
  "hz10_config \<Rightarrow> addr \<Rightarrow> u32 \<Rightarrow> u32 \<Rightarrow> bool \<Rightarrow> 'a page_heap_state_scheme \<Rightarrow>
     addr \<times> 'a page_heap_state_scheme" where
  "hz10_freelist_page_create_common cfg base slot_size slot_count with_owner st =
    (if slot_size < 8 \<or> slot_count = 0 then (0, st)
     else
       let span = (ucast slot_size * ucast slot_count :: u64) in
       if span > HZ10_PAGE_QUANTUM then (0, st)
       else
         let (base', owns_base, st1) =
               (if base = 0 then
                  (let (b, s) = hz10_freelist_reserve_aligned_quantum st in (b, True, s))
                else (base, False, st))
         in if base' = 0 then (0, st1)
         else
           let (page, st2) = hz10_metadata_page_alloc st1 in
           if page = 0 then
             (0, if owns_base then hz10_platform_release base' HZ10_PAGE_QUANTUM st2 else st2)
           else
             let pending_words = (slot_count + 63) div 64;
                 p = pages st2 page;
                 p1 = (if pending_words > 1 \<and> cfg_stripe_spread cfg \<and>
                          slot_size \<le> HZ10_STRIPE_SPREAD_MAX_SLOT_SIZE
                       then p\<lparr>pg_remote_free_spread := Some (\<lambda>_. 0)\<rparr> else p);
                 (generation, st3) =
                   (if with_owner
                    then hz10_pagemap_register_with_owner base' slot_size slot_count page st2
                    else hz10_pagemap_register base' slot_size slot_count st2)
             in
             if generation = 0 then
               (let st4 = hz10_metadata_page_free page (set_page page p1 st3) in
                (0, if owns_base then hz10_platform_release base' HZ10_PAGE_QUANTUM st4 else st4))
             else
               let p2 = p1\<lparr>pg_base := base', pg_slot_size := slot_size, pg_slot_count := slot_count,
                           pg_generation := generation, pg_pending_words := pending_words\<rparr>;
                   (m, p3) = hz10_freelist_page_init_chain cfg (mem st3, p2)
               in (page, set_page page p3 (st3\<lparr>mem := m\<rparr>)))"

definition hz10_freelist_page_create_with_base ::
  "hz10_config \<Rightarrow> addr \<Rightarrow> u32 \<Rightarrow> u32 \<Rightarrow> 'a page_heap_state_scheme \<Rightarrow>
     addr \<times> 'a page_heap_state_scheme" where
  "hz10_freelist_page_create_with_base cfg base slot_size slot_count st =
     hz10_freelist_page_create_common cfg base slot_size slot_count False st"

definition hz10_freelist_page_create_with_base_and_owner ::
  "hz10_config \<Rightarrow> addr \<Rightarrow> u32 \<Rightarrow> u32 \<Rightarrow> 'a page_heap_state_scheme \<Rightarrow>
     addr \<times> 'a page_heap_state_scheme" where
  "hz10_freelist_page_create_with_base_and_owner cfg base slot_size slot_count st =
     hz10_freelist_page_create_common cfg base slot_size slot_count True st"

definition hz10_freelist_page_create ::
  "hz10_config \<Rightarrow> u32 \<Rightarrow> u32 \<Rightarrow> 'a page_heap_state_scheme \<Rightarrow>
     addr \<times> 'a page_heap_state_scheme" where
  "hz10_freelist_page_create cfg slot_size slot_count st =
     hz10_freelist_page_create_with_base cfg 0 slot_size slot_count st"

definition hz10_freelist_page_destroy_reclaim_base ::
  "addr \<Rightarrow> 'a page_heap_state_scheme \<Rightarrow> addr \<times> 'a page_heap_state_scheme" where
  "hz10_freelist_page_destroy_reclaim_base page st =
    (if page = 0 then (0, st)
     else
       let st1 = snd (hz10_pagemap_release (pg_base (pages st page)) st);
           base = pg_base (pages st1 page)
       in (base, hz10_metadata_page_free page st1))"

definition hz10_freelist_page_destroy ::
  "addr \<Rightarrow> 'a page_heap_state_scheme \<Rightarrow> 'a page_heap_state_scheme" where
  "hz10_freelist_page_destroy page st =
    (let (base, st1) = hz10_freelist_page_destroy_reclaim_base page st in
     if base \<noteq> 0 then hz10_platform_release base HZ10_PAGE_QUANTUM st1 else st1)"

section \<open>Metadata nodes as an intrusive stack\<close>

interpretation metadata: intrusive_stack "\<lambda>st a. a \<noteq> 0" meta_next hz10_metadata_free_list
  hz10_metadata_page_free hz10_metadata_page_alloc
  by unfold_locales (auto simp: hz10_metadata_page_free_def hz10_metadata_page_alloc_def Let_def)

lemma slab_link_form:
  "\<exists>nx h. metadata_slab_link c i k st = st\<lparr>meta_next := nx, hz10_metadata_free_list := h\<rparr>"
proof (induction k arbitrary: i st)
  case 0
  show ?case
    by (rule exI [of _ "meta_next st"], rule exI [of _ "hz10_metadata_free_list st"]) simp
next
  case (Suc k)
  obtain nx h where "metadata_slab_link c (Suc i) k (st\<lparr>meta_next := (meta_next st)(c + of_nat i *
      sizeof_meta_node := hz10_metadata_free_list st), hz10_metadata_free_list := c + of_nat i *
      sizeof_meta_node\<rparr>) = st\<lparr>meta_next := nx, hz10_metadata_free_list := h\<rparr>"
    using Suc [of "Suc i" "st\<lparr>meta_next := (meta_next st)(c + of_nat i *
      sizeof_meta_node := hz10_metadata_free_list st), hz10_metadata_free_list := c + of_nat i *
      sizeof_meta_node\<rparr>"] by auto
  then show ?case by (simp only: metadata_slab_link.simps Let_def) blast
qed

definition slab_node :: "addr \<Rightarrow> nat \<Rightarrow> addr" where
  "slab_node c i = c + of_nat i * sizeof_meta_node"

lemma unat_slab_node:
  assumes "unat c + 65536 \<le> 18446744073709551616" "i < 65"
  shows "unat (slab_node c i) = unat c + i * 1000"
proof -
  have n: "unat (of_nat i * sizeof_meta_node :: u64) = i * 1000"
    using assms(2) unat_of_nat [of "i * 1000", where 'a = 64] by (simp add: sizeof_meta_node_def)
  show ?thesis unfolding slab_node_def
    by (subst unat_add_no_wrap) (use assms n in simp_all)
qed

text \<open>A refill puts the nodes of the slab on the free list, last one on top, and nothing else.\<close>

lemma slab_link_chain:
  assumes "c \<noteq> 0" "unat c + 65536 \<le> 18446744073709551616" "i + k \<le> 65"
    and "chain (meta_next st) (hz10_metadata_free_list st) xs"
    and "\<forall>j<i + k. slab_node c j \<in> set xs \<longrightarrow> j < i"
  shows "chain (meta_next (metadata_slab_link c i k st))
     (hz10_metadata_free_list (metadata_slab_link c i k st)) (rev (map (slab_node c) [i..<i + k]) @ xs)"
  using assms(3-)
proof (induction k arbitrary: i st xs)
  case (Suc k)
  let ?n = "slab_node c i"
  have un: "unat (slab_node c j) = unat c + j * 1000" if "j < i + Suc k" for j
    by (rule unat_slab_node) (use assms(2) Suc.prems(1) that in simp_all)
  have n0: "?n \<noteq> 0" using un [of i] assms(1) by (auto simp: unat_eq_zero)
  have fresh: "?n \<notin> set xs" using Suc.prems(3) [rule_format, of i] by auto
  have nn: "x \<noteq> 0" if "x \<in> set xs" for x using chain_not_null [OF Suc.prems(2)] that by auto
  have c: "chain (meta_next (hz10_metadata_page_free ?n st))
      (hz10_metadata_free_list (hz10_metadata_page_free ?n st)) (?n # xs)"
    by (rule metadata.push_chain [OF Suc.prems(2) nn n0 fresh])
  have step: "metadata_slab_link c i (Suc k) st = metadata_slab_link c (Suc i) k (hz10_metadata_page_free ?n st)"
    using n0 by (simp add: hz10_metadata_page_free_def slab_node_def Let_def)
  have ne: "slab_node c j \<noteq> ?n" if "j < i + Suc k" "\<not> j < Suc i" for j
    using un [OF that(1)] un [of i] that by auto
  have inv: "\<forall>j<Suc i + k. slab_node c j \<in> set (?n # xs) \<longrightarrow> j < Suc i"
  proof (intro allI impI)
    fix j
    assume "j < Suc i + k" "slab_node c j \<in> set (?n # xs)"
    then show "j < Suc i" using Suc.prems(3) [rule_format, of j] ne [of j] by auto
  qed
  have rv: "rev (map (slab_node c) [i..<i + Suc k]) @ xs
      = rev (map (slab_node c) [Suc i..<Suc i + k]) @ ?n # xs"
    by (subst upt_conv_Cons) (simp_all del: upt_Suc)
  show ?case unfolding step rv
    by (rule Suc.IH [OF _ c inv]) (use Suc.prems(1) in simp)
qed simp

lemma slab_link_obtain:
  obtains nx h where
    "metadata_slab_link c i k st = st\<lparr>meta_next := nx, hz10_metadata_free_list := h\<rparr>"
  using slab_link_form [of c i k st] by blast

lemma slab_refill_form:
  obtains m ma tr nx h sc nc where "snd (hz10_metadata_slab_refill_locked st)
      = st\<lparr>mem := m, os_maps := ma, os_trace := tr, meta_next := nx,
           hz10_metadata_free_list := h, hz10_metadata_slab_count := sc,
           hz10_metadata_node_capacity := nc\<rparr>"
proof (cases rule: reserve_rw_cases [of 65536 st])
  case (fail rest)
  then show ?thesis
    by (intro that [where m = "mem st" and ma = rest and tr = "os_trace st" and nx = "meta_next st"
          and h = "hz10_metadata_free_list st" and sc = "hz10_metadata_slab_count st"
          and nc = "hz10_metadata_node_capacity st"])
       (simp add: hz10_metadata_slab_refill_locked_def)
next
  case (ok ptr rest)
  let ?st = "st\<lparr>os_maps := rest, os_trace := Mapped ptr 65536 # os_trace st,
               mem := (\<lambda>a. if in_range ptr 65536 a then 0 else mem st a)\<rparr>"
  obtain nx h where l: "metadata_slab_link ptr 0 (unat (65536 div sizeof_meta_node)) ?st
      = ?st\<lparr>meta_next := nx, hz10_metadata_free_list := h\<rparr>"
    by (rule slab_link_obtain)
  show ?thesis
    by (rule that [where m = "mem ?st" and ma = rest and tr = "os_trace ?st" and nx = nx and h = h
          and sc = "hz10_metadata_slab_count st + 1" and
          nc = "hz10_metadata_node_capacity st + 65536 div sizeof_meta_node"])
       (simp add: hz10_metadata_slab_refill_locked_def ok l [simplified] Let_def)
qed

lemma metadata_alloc_cases:
  obtains (fail) rest where "hz10_metadata_page_alloc st = (0, st\<lparr>os_maps := rest\<rparr>)"
  | (ok) node m ma tr nx h sc nc where "hz10_metadata_page_alloc st
      = (node, st\<lparr>mem := m, os_maps := ma, os_trace := tr, meta_next := nx,
           hz10_metadata_free_list := h, hz10_metadata_slab_count := sc,
           hz10_metadata_node_capacity := nc, pages := (pages st)(node := zero_page)\<rparr>)"
proof (cases "hz10_metadata_free_list st = 0")
  case False
  then show ?thesis
    by (intro ok [where m = "mem st" and ma = "os_maps st" and tr = "os_trace st"
          and sc = "hz10_metadata_slab_count st" and nc = "hz10_metadata_node_capacity st"
          and nx = "(meta_next st)(hz10_metadata_free_list st := 0)"
          and h = "meta_next st (hz10_metadata_free_list st)" and node = "hz10_metadata_free_list st"])
       (simp add: hz10_metadata_page_alloc_def Let_def)
next
  case True
  show ?thesis
  proof (cases rule: reserve_rw_cases [of 65536 st])
    case (fail rest)
    then show ?thesis using True
      by (intro that(1) [of rest])
         (simp add: hz10_metadata_page_alloc_def hz10_metadata_slab_refill_locked_def)
  next
    case o: (ok ptr rest)
    obtain m ma tr nx h sc nc where f: "snd (hz10_metadata_slab_refill_locked st)
      = st\<lparr>mem := m, os_maps := ma, os_trace := tr, meta_next := nx,
           hz10_metadata_free_list := h, hz10_metadata_slab_count := sc,
           hz10_metadata_node_capacity := nc\<rparr>"
      by (rule slab_refill_form)
    moreover have "fst (hz10_metadata_slab_refill_locked st)"
      by (simp add: hz10_metadata_slab_refill_locked_def o Let_def)
    ultimately have r: "hz10_metadata_slab_refill_locked st = (True, st\<lparr>mem := m, os_maps := ma,
      os_trace := tr, meta_next := nx, hz10_metadata_free_list := h, hz10_metadata_slab_count := sc,
           hz10_metadata_node_capacity := nc\<rparr>)" by (simp add: prod_eq_iff)
    show ?thesis
      by (rule ok [where m = m and ma = ma and tr = tr and nx = "nx(h := 0)" and h = "nx h"
          and sc = sc and nc = nc and node = h])
         (simp add: hz10_metadata_page_alloc_def True r Let_def)
  qed
qed

section \<open>Quanta\<close>

lemma refill_form:
  obtains m ma tr c e where "snd (quantum_region_refill st) = st\<lparr>mem := m, os_maps := ma,
      os_trace := tr, hz10_quantum_region_cursor := c, hz10_quantum_region_end := e\<rparr>"
proof (cases rule: reserve_rw_cases [of 16842752 st])
  case (fail rest)
  then show ?thesis
    by (intro that [where m = "mem st" and ma = rest and tr = "os_trace st"
          and c = "hz10_quantum_region_cursor st" and e = "hz10_quantum_region_end st"])
       (simp add: quantum_region_refill_def)
next
  case (ok ptr rest)
  then show ?thesis
    by (intro that [where m = "mem (snd (quantum_region_refill st))" and ma = rest
          and tr = "os_trace (snd (quantum_region_refill st))"
          and c = "hz10_quantum_region_cursor (snd (quantum_region_refill st))"
          and e = "hz10_quantum_region_end (snd (quantum_region_refill st))"])
       (simp add: quantum_region_refill_def Let_def hz10_platform_release_def)
qed

lemma reserve_quantum_form:
  obtains m ma tr c e where "snd (hz10_freelist_reserve_aligned_quantum st) = st\<lparr>mem := m,
      os_maps := ma, os_trace := tr, hz10_quantum_region_cursor := c, hz10_quantum_region_end := e\<rparr>"
proof -
  have "\<exists>m ma tr c e. snd (hz10_freelist_reserve_aligned_quantum st) = st\<lparr>mem := m,
      os_maps := ma, os_trace := tr, hz10_quantum_region_cursor := c, hz10_quantum_region_end := e\<rparr>"
  proof (cases "hz10_quantum_region_cursor st = hz10_quantum_region_end st")
    case False
    then have "snd (hz10_freelist_reserve_aligned_quantum st) = st\<lparr>mem := mem st,
        os_maps := os_maps st, os_trace := os_trace st,
        hz10_quantum_region_cursor := hz10_quantum_region_cursor st + 65536,
        hz10_quantum_region_end := hz10_quantum_region_end st\<rparr>"
      by (subst hz10_freelist_reserve_aligned_quantum.simps) (simp add: Let_def)
    then show ?thesis by blast
  next
    case True
    obtain ok st1 where r: "quantum_region_refill st = (ok, st1)" by force
    obtain m ma tr c e where "snd (quantum_region_refill st) = st\<lparr>mem := m, os_maps := ma,
      os_trace := tr, hz10_quantum_region_cursor := c, hz10_quantum_region_end := e\<rparr>"
      by (rule refill_form)
    with r have s: "st1 = st\<lparr>mem := m, os_maps := ma,
      os_trace := tr, hz10_quantum_region_cursor := c, hz10_quantum_region_end := e\<rparr>" by simp
    show ?thesis
    proof (cases ok)
      case False
      then have "hz10_freelist_reserve_aligned_quantum st = (0, st1)"
        by (subst hz10_freelist_reserve_aligned_quantum.simps) (simp add: True r Let_def)
      with s have "snd (hz10_freelist_reserve_aligned_quantum st) = st\<lparr>mem := m, os_maps := ma,
          os_trace := tr, hz10_quantum_region_cursor := c, hz10_quantum_region_end := e\<rparr>" by simp
      then show ?thesis by blast
    next
      case T: True
      then have ne: "e = c + 16777216" using quantum_region_refill_nonempty r s by fastforce
      have "hz10_freelist_reserve_aligned_quantum st = hz10_freelist_reserve_aligned_quantum st1"
        by (subst hz10_freelist_reserve_aligned_quantum.simps) (simp add: True T r Let_def)
      also have "\<dots> = (c, st1\<lparr>hz10_quantum_region_cursor := c + 65536\<rparr>)"
        by (subst hz10_freelist_reserve_aligned_quantum.simps) (simp add: s ne Let_def)
      finally have "snd (hz10_freelist_reserve_aligned_quantum st) = st\<lparr>mem := m, os_maps := ma,
          os_trace := tr, hz10_quantum_region_cursor := c + 65536, hz10_quantum_region_end := e\<rparr>"
        by (simp add: s)
      then show ?thesis by blast
    qed
  qed
  then show ?thesis using that by blast
qed

text \<open>What the reservoir promises: the quanta between the cursor and the end are whole, aligned
  and mapped.\<close>

definition region_ok :: "'a page_heap_state_scheme \<Rightarrow> bool" where
  "region_ok st \<longleftrightarrow> (let c = unat (hz10_quantum_region_cursor st); e = unat (hz10_quantum_region_end st) in
     c mod 65536 = 0 \<and> e mod 65536 = 0 \<and> c \<le> e \<and> (c = 0 \<longrightarrow> e = 0) \<and>
     (\<forall>a. c \<le> unat a \<and> unat a < e \<longrightarrow> os_mapped (os_trace st) a))"

text \<open>Documented behaviour of \<open>mmap\<close>: the range it returns lies in the address space.\<close>

definition next_map_fits :: "nat \<Rightarrow> 'a platform_state_scheme \<Rightarrow> bool" where
  "next_map_fits n st \<longleftrightarrow>
     (case os_maps st of [] \<Rightarrow> True | p # _ \<Rightarrow> unat p + n \<le> 18446744073709551616)"

lemma refill_eq:
  assumes "hz10_platform_reserve_rw 16842752 st = (raw, st1)" "raw \<noteq> 0"
  defines "al \<equiv> (raw + 65535) AND NOT 65535"
  defines "tt \<equiv> 16842752 - (al - raw) - 16777216"
  defines "st2 \<equiv> (if al - raw > 0 then hz10_platform_release raw (al - raw) st1 else st1)"
  defines "st3 \<equiv> (if tt > 0 then hz10_platform_release (al + 16777216) tt st2 else st2)"
  shows "quantum_region_refill st = (True, st3\<lparr>hz10_quantum_region_end := al + 16777216,
     hz10_quantum_region_cursor := al\<rparr>)"
proof -
  have n: "(65536 * 256 :: u64) = 16777216" "(16777216 + 65536 :: u64) = 16842752"
    "(65536 - 1 :: u64) = 65535" by simp_all
  show ?thesis
    unfolding quantum_region_refill_def Let_def n assms(1) prod.case st3_def st2_def tt_def al_def
    using assms(2) by (simp only: if_False)
qed

lemma refill_region_ok:
  assumes "quantum_region_refill st = (True, st')" "next_map_fits 16842752 st"
  shows "region_ok st'" "hz10_quantum_region_cursor st' \<noteq> 0"
    "unat (hz10_quantum_region_end st') = unat (hz10_quantum_region_cursor st') + 16777216"
proof -
  obtain raw rest where o: "raw \<noteq> 0" "os_maps st = raw # rest"
    "hz10_platform_reserve_rw 16842752 st = (raw, st\<lparr>os_maps := rest,
       os_trace := Mapped raw 16842752 # os_trace st,
       mem := (\<lambda>a. if in_range raw 16842752 a then 0 else mem st a)\<rparr>)"
    using assms(1) by (cases rule: reserve_rw_cases [of 16842752 st])
      (auto simp: quantum_region_refill_def)
  have fit: "unat raw + 16842752 \<le> 18446744073709551616"
    using assms(2) o(2) by (simp add: next_map_fits_def)
  let ?al = "(raw + 65535) AND NOT 65535"
  define r where "r = unat raw"
  have r65: "unat (raw + 65535) = r + 65535"
    using fit by (subst unat_add_no_wrap) (simp_all add: r_def)
  have al: "unat ?al = r + 65535 - (r + 65535) mod 65536" by (simp only: unat_align_down r65)
  have m: "(r + 65535) mod 65536 \<le> 65535" by (simp add: less_Suc_eq_le [symmetric])
  have alb: "r \<le> unat ?al" "unat ?al \<le> r + 65535" using al m by simp_all
  have al0: "unat ?al mod 65536 = 0" unfolding al by (simp add: minus_mod_eq_mult_div)
  have end': "unat (?al + 16777216) = unat ?al + 16777216"
    using fit alb by (subst unat_add_no_wrap) (simp_all add: r_def)
  have hd: "unat (?al - raw) = unat ?al - r"
    using alb by (simp add: unat_sub word_le_nat_alt r_def)
  have tl: "unat (16842752 - (?al - raw) - 16777216) = 65536 - (unat ?al - r)"
  proof -
    have "unat (16842752 - (?al - raw)) = 16842752 - (unat ?al - r)"
      using alb hd by (subst unat_sub) (simp_all add: word_le_nat_alt)
    then show ?thesis using alb by (subst unat_sub) (simp_all add: word_le_nat_alt)
  qed
  let ?st1 = "st\<lparr>os_maps := rest, os_trace := Mapped raw 16842752 # os_trace st,
       mem := (\<lambda>a. if in_range raw 16842752 a then 0 else mem st a)\<rparr>"
  let ?st2 = "if ?al - raw > 0 then hz10_platform_release raw (?al - raw) ?st1 else ?st1"
  let ?tt = "16842752 - (?al - raw) - 16777216"
  let ?st3 = "if ?tt > 0 then hz10_platform_release (?al + 16777216) ?tt ?st2 else ?st2"
  have eq: "st' = ?st3\<lparr>hz10_quantum_region_end := ?al + 16777216, hz10_quantum_region_cursor := ?al\<rparr>"
    using refill_eq [OF o(3,1)] assms(1) by (simp only: prod.inject)
  have st': "hz10_quantum_region_cursor st' = ?al" "hz10_quantum_region_end st' = ?al + 16777216"
    and os: "os_trace st' = os_trace ?st3"
    unfolding eq by simp_all
  have nz: "?al + 16777216 \<noteq> 0" using end' by (metis add_is_0 unat_0 zero_neq_numeral)
  have tr: "os_mapped (os_trace st') a \<longleftrightarrow>
      \<not> in_range (?al + 16777216) ?tt a \<and>
      \<not> in_range raw (?al - raw) a \<and> (in_range raw 16842752 a \<or> os_mapped (os_trace st) a)"
    for a
    unfolding os by (simp only: trim_mapped [OF nz] trim_mapped [OF o(1)]) simp
  have mapped: "os_mapped (os_trace st') a"
    if "unat ?al \<le> unat a" "unat a < unat ?al + 16777216" for a
    unfolding tr using that alb fit hd tl end'
    by (subst in_range_iff, simp add: r_def)+ (simp add: r_def)
  have ce: "unat (hz10_quantum_region_cursor st') = unat ?al"
    "unat (hz10_quantum_region_end st') = unat ?al + 16777216"
    unfolding st' by (rule refl, rule end')
  have "r \<noteq> 0" using o(1) by (simp add: r_def unat_eq_zero)
  then have "unat ?al \<noteq> 0" using alb(1) by linarith
  then show "region_ok st'" unfolding region_ok_def Let_def ce
    using mapped al0 mod_add_eq [of "unat ?al" 65536 16777216] by (intro conjI) auto
  show "hz10_quantum_region_cursor st' \<noteq> 0"
    using alb o(1) by (auto simp: st' r_def unat_eq_zero)
  show "unat (hz10_quantum_region_end st') = unat (hz10_quantum_region_cursor st') + 16777216"
    by (simp only: ce)
qed

lemma reserve_quantum_cases:
  assumes "region_ok st" "next_map_fits 16842752 st"
  obtains (none) st' where "hz10_freelist_reserve_aligned_quantum st = (0, st')" "region_ok st'"
  | (some) q st1 where "hz10_freelist_reserve_aligned_quantum st
        = (q, st1\<lparr>hz10_quantum_region_cursor := q + 65536\<rparr>)"
    "region_ok st1" "q = hz10_quantum_region_cursor st1" "q \<noteq> hz10_quantum_region_end st1" "q \<noteq> 0"
    "st1 = st \<or> quantum_region_refill st = (True, st1)"
proof (cases "hz10_quantum_region_cursor st = hz10_quantum_region_end st")
  case False
  moreover have "hz10_freelist_reserve_aligned_quantum st = (hz10_quantum_region_cursor st,
      st\<lparr>hz10_quantum_region_cursor := hz10_quantum_region_cursor st + 65536\<rparr>)"
    by (subst hz10_freelist_reserve_aligned_quantum.simps) (simp add: False Let_def)
  moreover have "hz10_quantum_region_cursor st \<noteq> 0"
    using False assms(1) by (auto simp: region_ok_def Let_def unat_eq_zero)
  ultimately show ?thesis using assms(1) some [of "hz10_quantum_region_cursor st" st] by simp
next
  case True
  obtain ok st1 where r: "quantum_region_refill st = (ok, st1)" by force
  show ?thesis
  proof (cases ok)
    case F: False
    have "region_ok st1" using r F assms(1)
      by (cases rule: reserve_rw_cases [of 16842752 st])
         (auto simp: quantum_region_refill_def region_ok_def Let_def)
    moreover have "hz10_freelist_reserve_aligned_quantum st = (0, st1)"
      by (subst hz10_freelist_reserve_aligned_quantum.simps) (simp add: True r F Let_def)
    ultimately show ?thesis by (intro none)
  next
    case T: True
    have r': "quantum_region_refill st = (True, st1)" using r T by simp
    note R = refill_region_ok [OF r' assms(2)]
    have ne: "hz10_quantum_region_cursor st1 \<noteq> hz10_quantum_region_end st1"
      using R(3) by auto
    have "hz10_freelist_reserve_aligned_quantum st = hz10_freelist_reserve_aligned_quantum st1"
      by (subst hz10_freelist_reserve_aligned_quantum.simps) (simp add: True T r Let_def)
    also have "\<dots> = (hz10_quantum_region_cursor st1,
        st1\<lparr>hz10_quantum_region_cursor := hz10_quantum_region_cursor st1 + 65536\<rparr>)"
      by (subst hz10_freelist_reserve_aligned_quantum.simps) (simp add: ne Let_def)
    finally show ?thesis by (rule some [OF _ R(1) refl ne R(2) disjI2 [OF r']])
  qed
qed

text \<open>What a caller gets: an aligned, mapped quantum below everything the reservoir still holds.\<close>

lemma reserve_quantum_result:
  assumes "region_ok st" "next_map_fits 16842752 st"
    and "hz10_freelist_reserve_aligned_quantum st = (q, st')" "q \<noteq> 0"
  shows "unat q mod 65536 = 0" "region_ok st'"
    "unat q + 65536 \<le> unat (hz10_quantum_region_end st')"
    "unat (hz10_quantum_region_cursor st') = unat q + 65536"
    "in_range q 65536 a \<Longrightarrow> os_mapped (os_trace st') a"
proof -
  have "unat q mod 65536 = 0 \<and> region_ok st' \<and> unat q + 65536 \<le> unat (hz10_quantum_region_end st') \<and>
    unat (hz10_quantum_region_cursor st') = unat q + 65536 \<and>
    (in_range q 65536 a \<longrightarrow> os_mapped (os_trace st') a)"
  proof (cases rule: reserve_quantum_cases [OF assms(1,2), case_names none some])
  case (none st'')
  then show "unat q mod 65536 = 0 \<and> region_ok st' \<and> unat q + 65536 \<le> unat (hz10_quantum_region_end st') \<and>
    unat (hz10_quantum_region_cursor st') = unat q + 65536 \<and>
    (in_range q 65536 a \<longrightarrow> os_mapped (os_trace st') a)" using assms(3,4) by simp
next
  case (some q' st1)
  then have q: "q' = q" and st': "st' = st1\<lparr>hz10_quantum_region_cursor := q + 65536\<rparr>"
    using assms(3) by auto
  let ?e = "unat (hz10_quantum_region_end st1)"
  have ok: "unat q mod 65536 = 0" "?e mod 65536 = 0" "unat q \<le> ?e"
    "\<And>a. unat q \<le> unat a \<Longrightarrow> unat a < ?e \<Longrightarrow> os_mapped (os_trace st1) a"
    using some(2,3) q by (auto simp: region_ok_def Let_def)
  have "unat q \<noteq> ?e" using some(4) q by (simp add: word_unat_eq_iff)
  then have le: "unat q + 65536 \<le> ?e"
    using ok(1-3) by (auto simp: mod_0_imp_dvd elim!: dvdE)
  then have q1: "unat (q + 65536) = unat q + 65536"
    using unat_u64_lt [of "hz10_quantum_region_end st1"]
    by (subst unat_add_no_wrap) (simp_all del: unat_u64_lt)
  have ir: "in_range q 65536 a \<longleftrightarrow> unat q \<le> unat a \<and> unat a < unat q + 65536"
    using le unat_u64_lt [of "hz10_quantum_region_end st1"]
    by (subst in_range_iff) (simp_all del: unat_u64_lt)
  have "region_ok st'" using ok le q1 mod_add_eq [of "unat q" 65536 65536]
    by (auto simp: region_ok_def st' Let_def)
  then show "unat q mod 65536 = 0 \<and> region_ok st' \<and> unat q + 65536 \<le> unat (hz10_quantum_region_end st') \<and>
    unat (hz10_quantum_region_cursor st') = unat q + 65536 \<and>
    (in_range q 65536 a \<longrightarrow> os_mapped (os_trace st') a)"
    using ok le q1 ir by (simp add: st')
  qed
  then show "unat q mod 65536 = 0" "region_ok st'"
    "unat q + 65536 \<le> unat (hz10_quantum_region_end st')"
    "unat (hz10_quantum_region_cursor st') = unat q + 65536"
    "in_range q 65536 a \<Longrightarrow> os_mapped (os_trace st') a" by simp_all
qed

section \<open>Creation\<close>

text \<open>The header before \<open>init_chain\<close>: a zeroed node with the geometry filled in.\<close>

definition new_header :: "hz10_config \<Rightarrow> addr \<Rightarrow> u32 \<Rightarrow> u32 \<Rightarrow> u32 \<Rightarrow> Hz10FreelistPage" where
  "new_header cfg b s n g = (let w = (n + 63) div 64 in
     (if w > 1 \<and> cfg_stripe_spread cfg \<and> s \<le> HZ10_STRIPE_SPREAD_MAX_SLOT_SIZE
      then zero_page\<lparr>pg_remote_free_spread := Some (\<lambda>_. 0)\<rparr> else zero_page)
     \<lparr>pg_base := b, pg_slot_size := s, pg_slot_count := n, pg_generation := g, pg_pending_words := w\<rparr>)"

lemma new_header_simps [simp]:
  "pg_base (new_header cfg b s n g) = b" "pg_slot_size (new_header cfg b s n g) = s"
  "pg_slot_count (new_header cfg b s n g) = n" "pg_generation (new_header cfg b s n g) = g"
  "pg_pending_bits (new_header cfg b s n g) = (\<lambda>_. 0)"
  "pg_owner_list_kind (new_header cfg b s n g) = 0"
  by (simp_all add: new_header_def Let_def zero_page_def)

lemma new_header_fresh: "page_geom (new_header cfg b s n g) \<Longrightarrow> fresh_header (new_header cfg b s n g)"
  by (simp add: fresh_header_def pending_bit_def)
     (simp add: hz10_freelist_page_remote_head_def new_header_def Let_def zero_page_def)

lemma init_chain_header:
  "pg_base (snd (hz10_freelist_page_init_chain cfg (m, p))) = pg_base p"
  "pg_slot_size (snd (hz10_freelist_page_init_chain cfg (m, p))) = pg_slot_size p"
  "pg_slot_count (snd (hz10_freelist_page_init_chain cfg (m, p))) = pg_slot_count p"
  "pg_generation (snd (hz10_freelist_page_init_chain cfg (m, p))) = pg_generation p"
  "pg_owner_list_kind (snd (hz10_freelist_page_init_chain cfg (m, p))) = pg_owner_list_kind p"
  by (simp_all add: hz10_freelist_page_init_chain_def split: prod.split)

lemma reserve_quantum_frame [hz10_frame]:
  "pages (snd (hz10_freelist_reserve_aligned_quantum st)) = pages st"
  "hz10_pagemap_root (snd (hz10_freelist_reserve_aligned_quantum st)) = hz10_pagemap_root st"
  by (rule reserve_quantum_form [of st]; simp)+

lemma pm_record_root: "hz10_pagemap_root st = hz10_pagemap_root st' \<Longrightarrow> pm_record st a = pm_record st' a"
  by (simp add: pm_record_def)

lemma register_pages:
  "pages (snd (hz10_pagemap_register_with_owner_and_flags b s n ow fl st)) = pages st"
  by (rule register_form [of b s n ow fl st]) simp

lemma create_common_success:
  assumes c: "hz10_freelist_page_create_common cfg base s n w st = (pg, st')" "pg \<noteq> 0"
    and s16: "16 \<le> unat s" "unat s mod 16 = 0"
  defines "b \<equiv> pg_base (pages st' pg)" and "g \<equiv> pg_generation (pages st' pg)"
  shows "page_rel cfg (mem st', pages st' pg) (fresh_abs cfg (unat n))"
    and "pg_slot_size (pages st' pg) = s" "pg_slot_count (pages st' pg) = n"
    and "reg_ok b s n" "base \<noteq> 0 \<Longrightarrow> b = base" "g = next_generation (pm_record st b)" "g \<noteq> 0"
    and "pm_record st' a = (if pm_key a = pm_key b
           then \<lparr>rec_base = b, rec_owner = (if w then pg else 0), rec_slot_size = s,
                 rec_slot_count = n, rec_generation = g, rec_flags = 0\<rparr> else pm_record st a)"
    and "x \<noteq> pg \<Longrightarrow> pages st' x = pages st x"
proof -
  obtain b' owns st1 where q: "(if base = 0 then
       (let (b, s) = hz10_freelist_reserve_aligned_quantum st in (b, True, s))
       else (base, False, st)) = (b', owns, st1)"
    by (metis prod_cases3)
  have g0: "\<not> (s < 8 \<or> n = 0)" "\<not> (ucast s * ucast n :: u64) > 65536"
    using c by (auto simp: hz10_freelist_page_create_common_def Let_def split: if_splits)
  have b0: "b' \<noteq> 0"
    using c g0 q by (auto simp: hz10_freelist_page_create_common_def Let_def split: if_splits)
  have st1: "pages st1 = pages st" "hz10_pagemap_root st1 = hz10_pagemap_root st"
    using q reserve_quantum_frame [of st] by (auto split: if_splits prod.splits)
  obtain node st2 where m: "hz10_metadata_page_alloc st1 = (node, st2)" by force
  have node0: "node \<noteq> 0"
    using c g0 q b0 m
    by (auto simp: hz10_freelist_page_create_common_def Let_def split: if_splits)
  have st2: "pages st2 = (pages st1)(node := zero_page)" "hz10_pagemap_root st2 = hz10_pagemap_root st1"
    using m node0 by (cases rule: metadata_alloc_cases [of st1]; force)+
  let ?ow = "if w then node else 0"
  obtain g' st3 where r: "hz10_pagemap_register_with_owner_and_flags b' s n ?ow 0 st2 = (g', st3)"
    by force
  have r': "(if w then hz10_pagemap_register_with_owner b' s n node st2
      else hz10_pagemap_register b' s n st2) = (g', st3)"
    using r by (cases w) (simp_all add: hz10_pagemap_register_with_owner_def hz10_pagemap_register_def)
  have g'0: "g' \<noteq> 0"
    using c g0 q b0 m node0 r'
    by (auto simp: hz10_freelist_page_create_common_def Let_def split: if_splits)
  let ?h = "new_header cfg b' s n g'"
  have hdr: "(if (n + 63) div 64 > 1 \<and> cfg_stripe_spread cfg \<and> s \<le> HZ10_STRIPE_SPREAD_MAX_SLOT_SIZE
      then zero_page\<lparr>pg_remote_free_spread := Some (\<lambda>_. 0)\<rparr> else zero_page)
     \<lparr>pg_base := b', pg_slot_size := s, pg_slot_count := n, pg_generation := g',
      pg_pending_words := (n + 63) div 64\<rparr> = ?h"
    by (simp add: new_header_def Let_def)
  have pz: "pages st2 node = zero_page" by (simp add: st2(1))
  obtain m' p3 where i: "hz10_freelist_page_init_chain cfg (mem st3, ?h) = (m', p3)" by force
  have "hz10_freelist_page_create_common cfg base s n w st = (node, set_page node p3 (st3\<lparr>mem := m'\<rparr>))"
    unfolding hz10_freelist_page_create_common_def Let_def q [unfolded Let_def] prod.case m r'
      pz hdr i
    using g0 b0 node0 g'0 by (simp only: if_False simp_thms)
  then have eq: "pg = node" "st' = set_page node p3 (st3\<lparr>mem := m'\<rparr>)" using c(1) by simp_all
  have p3: "pages st' pg = p3" "mem st' = m'" by (simp_all add: eq set_page_def)
  have h3: "pg_base p3 = b'" "pg_slot_size p3 = s" "pg_slot_count p3 = n" "pg_generation p3 = g'"
    using init_chain_header [of cfg "mem st3" ?h] i by simp_all
  then have bg: "b = b'" "g = g'" by (simp_all add: b_def g_def p3)
  show slots: "pg_slot_size (pages st' pg) = s" "pg_slot_count (pages st' pg) = n"
    using h3 by (simp_all add: p3)
  show "base \<noteq> 0 \<Longrightarrow> b = base" using q bg by simp
  have rec: "pm_record st2 a = pm_record st a" for a
    by (rule pm_record_root) (simp add: st2 st1)
  show "g \<noteq> 0" using g'0 bg by simp
  show "x \<noteq> pg \<Longrightarrow> pages st' x = pages st x"
    using register_pages [of b' s n ?ow 0 st2] r by (simp add: eq set_page_def st2 st1)
  have r3: "pm_record st' a = pm_record st3 a" for a
    by (rule pm_record_root) (simp add: eq set_page_def)
  have ent: "reg_ok b' s n \<and> g' = next_generation (pm_record st2 b') \<and>
     (\<forall>a. pm_record st3 a = (if pm_key a = pm_key b' then
        \<lparr>rec_base = b', rec_owner = ?ow, rec_slot_size = s, rec_slot_count = n,
         rec_generation = g', rec_flags = 0\<rparr> else pm_record st2 a))"
    by (cases rule: register_cases [of b' s n ?ow 0 st2]) (use r g'0 in auto)
  then show reg: "reg_ok b s n" and "g = next_generation (pm_record st b)"
    by (simp_all add: bg rec)
  show "pm_record st' a = (if pm_key a = pm_key b
           then \<lparr>rec_base = b, rec_owner = (if w then pg else 0), rec_slot_size = s,
                 rec_slot_count = n, rec_generation = g, rec_flags = 0\<rparr> else pm_record st a)"
    using ent by (simp add: bg rec r3 eq(1))
  have "page_geom ?h"
    using reg bg s16 g0 by (auto simp: page_geom_def reg_ok_def word_less_nat_alt unat_mult_u32)
  then have "page_rel cfg (hz10_freelist_page_init_chain cfg (mem st3, ?h)) (fresh_abs cfg (unat n))"
    using init_chain_correct [OF new_header_fresh, of cfg b' s n g' cfg "mem st3"] by simp
  then show "page_rel cfg (mem st', pages st' pg) (fresh_abs cfg (unat n))" by (simp add: i p3)
qed

definition example_heap :: page_heap_state where
  "example_heap = \<lparr>mem = \<lambda>_. 0, os_maps = [0x7f0000001000, 0x7f0010000000, 0x7f0020000000],
     os_clock = [], os_trace = [], hz10_pagemap_root = \<lambda>_. None, pages = \<lambda>_. zero_page,
     meta_next = \<lambda>_. 0, hz10_metadata_free_list = 0x560000001000, hz10_metadata_slab_count = 1,
     hz10_metadata_node_capacity = 65, hz10_quantum_region_cursor = 0, hz10_quantum_region_end = 0\<rparr>"

lemma example_heap_ok: "region_ok example_heap" "next_map_fits 16842752 example_heap"
  by (simp_all add: region_ok_def example_heap_def next_map_fits_def)

definition example_live_heap :: page_heap_state where
  "example_live_heap =
     snd (hz10_freelist_page_create_with_base_and_owner default_config 0 64 1024 example_heap)"

section \<open>Properties\<close>

text \<open>A quantum taken from the reservoir is 64 KiB aligned, is mapped after the trims of a
  refill, and lies below everything the reservoir still holds, so two calls never return
  overlapping quanta; the reservoir keeps its invariant.\<close>

theorem reserve_quantum_fresh:
  assumes "region_ok st" "next_map_fits 16842752 st"
    and "hz10_freelist_reserve_aligned_quantum st = (q, st')" "q \<noteq> 0"
  shows "unat q mod 65536 = 0 \<and> region_ok st' \<and>
    (\<forall>a. in_range q 65536 a \<longrightarrow> os_mapped (os_trace st') a) \<and>
    unat (hz10_quantum_region_cursor st') = unat q + 65536 \<and>
    unat (hz10_quantum_region_cursor st') \<le> unat (hz10_quantum_region_end st')"
  using reserve_quantum_result [OF assms] by simp

theorem reserve_quantum_fresh_witness:
  "unat (fst (hz10_freelist_reserve_aligned_quantum example_heap)) mod 65536 = 0"
proof -
  have "fst (hz10_freelist_reserve_aligned_quantum example_heap) = 0x7f0000010000"
    by (subst hz10_freelist_reserve_aligned_quantum.simps,
        subst hz10_freelist_reserve_aligned_quantum.simps)
       (simp add: example_heap_def quantum_region_refill_def hz10_platform_reserve_rw_def
        hz10_platform_release_def Let_def)
  then show ?thesis
    using reserve_quantum_fresh [OF example_heap_ok,
        of "fst (hz10_freelist_reserve_aligned_quantum example_heap)"
           "snd (hz10_freelist_reserve_aligned_quantum example_heap)"] by simp
qed

text \<open>C5: Creating a page with an owner tag gives a page on which every slot is free and nobody
  holds anything, entered in the pagemap under its own address: each of its slots routes VALID,
  with the page as owner, for the page's generation, and no other quantum's record changes.\<close>

theorem create_page_correct:
  assumes "hz10_freelist_page_create_with_base_and_owner cfg base s n st = (pg, st')" "pg \<noteq> 0"
    and "16 \<le> unat s" "unat s mod 16 = 0"
  shows "let p = pages st' pg in
     page_rel cfg (mem st', p) (fresh_abs cfg (unat n)) \<and> pg_free_count p = n \<and>
     (base \<noteq> 0 \<longrightarrow> pg_base p = base) \<and>
     (\<forall>i<unat n. hz10_pagemap_route (slot p i) (pg_generation p) st' = hz10_pagemap_result
        H10_ROUTE_VALID H10_REASON_NONE (pg_base p) s n (of_nat i) (pg_generation p) pg 0) \<and>
     (\<forall>a. pm_key a \<noteq> pm_key (pg_base p) \<longrightarrow> pm_record st' a = pm_record st a)"
proof -
  let ?p = "pages st' pg"
  note S = create_common_success [OF assms(1) [unfolded
      hz10_freelist_page_create_with_base_and_owner_def] assms(2-4)]
  have rel: "page_rel cfg (mem st', ?p) (fresh_abs cfg (unat n))" by (rule S(1))
  have fc: "unat (pg_free_count ?p) + ap_frontier (fresh_abs cfg (unat n))
      = length (ap_free (fresh_abs cfg (unat n))) + unat (pg_slot_count ?p)"
    using page_relD(8) [OF rel] .
  then have "pg_free_count ?p = n" by (simp add: fresh_abs_def S(3) word_unat_eq_iff split: if_splits)
  moreover have "hz10_pagemap_route (slot ?p i) (pg_generation ?p) st' = hz10_pagemap_result
        H10_ROUTE_VALID H10_REASON_NONE (pg_base ?p) s n (of_nat i) (pg_generation ?p) pg 0"
    if i: "i < unat n" for i
  proof -
    let ?rec = "\<lparr>rec_base = pg_base ?p, rec_owner = pg, rec_slot_size = s, rec_slot_count = n,
         rec_generation = pg_generation ?p, rec_flags = 0\<rparr>"
    have sl: "is_slot ?rec (slot ?p i) i" "pm_key (slot ?p i) = pm_key (pg_base ?p)" "slot ?p i \<noteq> 0"
      using is_slot_registered [OF S(4) assms(4) i, of ?rec] by (simp_all add: S(2))
    have rec: "pm_record st' (slot ?p i) = ?rec" using S(8) [of "slot ?p i"] sl(2) by simp
    let ?r = "hz10_pagemap_route (slot ?p i) (pg_generation ?p) st'"
    have v: "rr_kind ?r = H10_ROUTE_VALID" using sl rec by (auto simp: route_valid_iff)
    have ix: "unat (rr_slot_index ?r) = i"
      using route_valid_record(1) [OF v] is_slot_unique sl(1) unfolding rec by blast
    then have "rr_slot_index ?r = of_nat i"
      using less_trans [OF i unat_u32_lt] by (simp add: word_unat_eq_iff unat_of_nat)
    moreover have "?r = route_record (slot ?p i) (pg_generation ?p) ?rec"
      using route_eq_record [of st' "slot ?p i"] rec sl by (auto simp: is_slot_def)
    ultimately show ?thesis
      using v by (auto simp: route_record_def Let_def hz10_pagemap_result_def split: if_splits)
  qed
  ultimately show ?thesis using rel S(5,8) by (simp add: Let_def)
qed

theorem create_page_correct_witness:
  "let (pg, st') = hz10_freelist_page_create_with_base_and_owner default_config 0 64 1024 example_heap
   in pg \<noteq> 0 \<and> pg_free_count (pages st' pg) = 1024"
proof -
  obtain pg st' where c: "hz10_freelist_page_create_with_base_and_owner default_config 0 64 1024
      example_heap = (pg, st')" by force
  have "fst (hz10_freelist_page_create_with_base_and_owner default_config 0 64 1024 example_heap) \<noteq> 0"
    by code_simp
  then have "pg \<noteq> 0" using c by simp
  then show ?thesis using create_page_correct [OF c] c by (simp add: Let_def)
qed

text \<open>Destroying a page that is in the pagemap returns its payload, puts its node back on
  top of the metadata list, makes every pointer into its quantum a MISS for every generation,
  and leaves the records of all other quanta alone.\<close>

theorem destroy_page_unroutes:
  assumes "pg \<noteq> 0" "pg_base (pages st pg) = b" "rec_base (pm_record st b) = b"
    "rec_slot_size (pm_record st b) \<noteq> 0" "b \<noteq> 0" "unat b mod 65536 = 0"
    and "chain (meta_next st) (hz10_metadata_free_list st) xs" "pg \<notin> set xs"
  shows "case hz10_freelist_page_destroy_reclaim_base pg st of (r, st') \<Rightarrow>
     r = b \<and> chain (meta_next st') (hz10_metadata_free_list st') (pg # xs) \<and>
     (\<forall>a g. pm_key a = pm_key b \<longrightarrow> rr_kind (hz10_pagemap_route a g st') = H10_ROUTE_MISS) \<and>
     (\<forall>a. pm_key a \<noteq> pm_key b \<longrightarrow> pm_record st' a = pm_record st a)"
proof (cases rule: release_cases [of b st])
  case missing
  then show ?thesis using assms by simp
next
  case (cleared st1)
  obtain rt where rt: "st1 = st\<lparr>hz10_pagemap_root := rt\<rparr>" using cleared(7) by auto
  let ?st' = "hz10_metadata_page_free pg st1"
  have d: "hz10_freelist_page_destroy_reclaim_base pg st = (b, ?st')"
    using assms(1,2) cleared(1) rt by (simp add: hz10_freelist_page_destroy_reclaim_base_def Let_def)
  have c: "chain (meta_next ?st') (hz10_metadata_free_list ?st') (pg # xs)"
    by (rule metadata.push_chain) (use assms rt chain_not_null [OF assms(7)] in auto)
  have rec: "pm_record ?st' a = pm_record st1 a" for a
    by (rule pm_record_root) (simp add: hz10_metadata_page_free_def)
  have "rr_kind (hz10_pagemap_route a g ?st') = H10_ROUTE_MISS" if "pm_key a = pm_key b" for a g
    using that by (simp add: route_kind rec cleared(6) route_record_miss)
  then show ?thesis using c by (simp add: d rec cleared(6))
qed

theorem destroy_page_unroutes_witness:
  "case hz10_freelist_page_destroy_reclaim_base 0x560000001000 example_live_heap of (r, st') \<Rightarrow>
     r = 0x7f0000010000 \<and> rr_kind (hz10_pagemap_route 0x7f0000010040 1 st') = H10_ROUTE_MISS"
proof -
  let ?pg = "0x560000001000 :: addr" and ?b = "0x7f0000010000 :: addr"
  have h: "pg_base (pages example_live_heap ?pg) = ?b" "rec_base (pm_record example_live_heap ?b) = ?b"
    "rec_slot_size (pm_record example_live_heap ?b) \<noteq> 0" "hz10_metadata_free_list example_live_heap = 0"
    by code_simp+
  moreover have "pm_key 0x7f0000010040 = pm_key ?b" "unat ?b mod 65536 = 0"
    by (simp_all add: pm_key_def)
  ultimately show ?thesis
    using destroy_page_unroutes [of ?pg example_live_heap ?b "[]"] by (auto split: prod.splits)
qed

end
