(* ===== verification/Hz10_Remote_Stack.thy ===== *)
theory Hz10_Remote_Stack
  imports Hz10_Freelist_Page "HOL-Library.Multiset"
begin

text \<open>
  \<open>hz10_remote_stack.{h,c}\<close>: a foreign thread frees a slot by claiming its pending bit and then
  pushing it on one of the page's four stripes; the owner drains the stripes into its freelist.
  A CAS loop is one step here (the interleavings of claim, publish and drain are in
  \<open>Hz10_Remote_Protocol\<close>). \<open>claim\<close>, \<open>publish\<close> and \<open>drain\<close> implement operations on the abstract page.
\<close>

section \<open>Operations\<close>

text \<open>The stripe is picked from the address of a thread-local byte, \<open>token\<close>.\<close>

definition hz10_remote_pick_stripe :: "addr \<Rightarrow> nat" where
  "hz10_remote_pick_stripe token =
    (let a1 = token XOR drop_bit 16 token; a2 = a1 XOR drop_bit 8 a1
     in unat ((ucast a2 :: u32) AND (4 - 1)))"

definition hz10_page_pending_try_claim :: "Hz10FreelistPage \<Rightarrow> u32 \<Rightarrow> bool \<times> Hz10FreelistPage" where
  "hz10_page_pending_try_claim p slot_index =
    (let word = unat (slot_index div 64);
         b = (push_bit (unat (slot_index mod 64)) 1 :: u64);
         old = pg_pending_bits p word
     in (old AND b = 0, p\<lparr>pg_pending_bits := (pg_pending_bits p)(word := old OR b)\<rparr>))"

definition hz10_page_pending_clear :: "Hz10FreelistPage \<Rightarrow> u32 \<Rightarrow> Hz10FreelistPage" where
  "hz10_page_pending_clear p slot_index =
    (let word = unat (slot_index div 64);
         b = (push_bit (unat (slot_index mod 64)) 1 :: u64)
     in p\<lparr>pg_pending_bits := (pg_pending_bits p)(word := pg_pending_bits p word AND NOT b)\<rparr>)"

fun freelist_contains_loop :: "nat \<Rightarrow> memory \<Rightarrow> addr \<Rightarrow> addr \<Rightarrow> bool" where
  "freelist_contains_loop 0 m node ptr = False"
| "freelist_contains_loop (Suc k) m node ptr =
     (if node = 0 then False else if node = ptr then True else freelist_contains_loop k m (m node) ptr)"

definition hz10_page_local_freelist_contains :: "page_view \<Rightarrow> addr \<Rightarrow> bool" where
  "hz10_page_local_freelist_contains v ptr = (let (m, p) = v in
     freelist_contains_loop (unat (pg_slot_count p)) m (pg_local_free_head p) ptr)"

definition hz10_page_classify_for_remote :: "Hz10FreelistPage \<Rightarrow> addr \<Rightarrow> u32 \<Rightarrow> u32 option" where
  "hz10_page_classify_for_remote p ptr expected_generation =
    (let offset = ptr - pg_base p;
         span = (ucast (pg_slot_size p) * ucast (pg_slot_count p) :: u64)
     in
     if offset \<ge> span then None
     else if offset AND (HZ10_MIN_ALIGN - 1) \<noteq> 0 then None
     else if offset mod ucast (pg_slot_size p) \<noteq> 0 then None
     else if expected_generation \<noteq> HZ10_GENERATION_ANY \<and> expected_generation \<noteq> pg_generation p then None
     else Some (ucast (offset div ucast (pg_slot_size p))))"

definition hz10_page_classify_for_remote_probe :: "Hz10FreelistPage \<Rightarrow> addr \<Rightarrow> u32 \<Rightarrow> u32 option" where
  "hz10_page_classify_for_remote_probe p ptr expected_generation =
     hz10_page_classify_for_remote p ptr expected_generation"

definition hz10_page_remote_free_claim :: "addr \<Rightarrow> u32 \<Rightarrow> page_view \<Rightarrow> u32 option \<times> page_view" where
  "hz10_page_remote_free_claim ptr expected_generation v =
    (let (m, p) = v in
     case hz10_page_classify_for_remote p ptr expected_generation of
       None \<Rightarrow> (None, m, p\<lparr>pg_remote_invalid_count := pg_remote_invalid_count p + 1\<rparr>)
     | Some slot_index \<Rightarrow>
         if hz10_freelist_page_is_marked_local_free p ptr m then
           (None, m, p\<lparr>pg_remote_invalid_count := pg_remote_invalid_count p + 1\<rparr>)
         else
           let (ok, p1) = hz10_page_pending_try_claim p slot_index in
           if \<not> ok then (None, m, p1\<lparr>pg_remote_duplicate_count := pg_remote_duplicate_count p1 + 1\<rparr>)
           else (Some slot_index, m, p1))"

definition hz10_page_remote_free_publish :: "addr \<Rightarrow> addr \<Rightarrow> page_view \<Rightarrow> page_view" where
  "hz10_page_remote_free_publish token ptr v =
    (let (m, p) = v; s = hz10_remote_pick_stripe token;
         old_head = hz10_freelist_page_remote_head p s
     in (m(ptr := old_head), set_remote_head s ptr p))"

definition hz10_page_remote_free :: "addr \<Rightarrow> addr \<Rightarrow> u32 \<Rightarrow> page_view \<Rightarrow> bool \<times> page_view" where
  "hz10_page_remote_free token ptr expected_generation v =
    (case hz10_page_remote_free_claim ptr expected_generation v of
       (None, v') \<Rightarrow> (False, v')
     | (Some _, v') \<Rightarrow> (True, hz10_page_remote_free_publish token ptr v'))"

text \<open>The inner loop of the drain. It follows the links of payload memory, so nothing in the code
  bounds it: \<open>None\<close> stands for a walk that never reaches NULL.\<close>

partial_function (option) drain_stripe_loop :: "addr \<Rightarrow> u32 \<Rightarrow> page_view \<Rightarrow> (u32 \<times> page_view) option" where
  "drain_stripe_loop head merged v =
    (if head = 0 then Some (merged, v)
     else
       let (m, p) = v; next = m head;
           offset = head - pg_base p;
           slot_index = (ucast (offset div ucast (pg_slot_size p)) :: u32);
           p1 = hz10_page_pending_clear p slot_index
       in
       if hz10_freelist_page_is_marked_local_free p1 head m \<and>
          hz10_page_local_freelist_contains (m, p1) head
       then drain_stripe_loop next merged
              (m, p1\<lparr>pg_drain_invalid_count := pg_drain_invalid_count p1 + 1,
                     pg_remote_invalid_count := pg_remote_invalid_count p1 + 1\<rparr>)
       else
         let m1 = hz10_freelist_page_mark_local_free p1 head m;
             m2 = m1(head := pg_local_free_head p1)
         in drain_stripe_loop next (merged + 1)
              (m2, p1\<lparr>pg_local_free_head := head, pg_free_count := pg_free_count p1 + 1\<rparr>))"

definition drain_stripe :: "nat \<Rightarrow> u32 \<times> page_view \<Rightarrow> (u32 \<times> page_view) option" where
  "drain_stripe s acc =
    (let (merged, m, p) = acc; head = hz10_freelist_page_remote_head p s in
     if head = 0 then Some acc else drain_stripe_loop head merged (m, set_remote_head s 0 p))"

definition hz10_page_drain_remote :: "page_view \<Rightarrow> (u32 \<times> page_view) option" where
  "hz10_page_drain_remote v =
    do {
      a0 \<leftarrow> drain_stripe 0 (0, v);
      a1 \<leftarrow> drain_stripe 1 a0;
      a2 \<leftarrow> drain_stripe 2 a1;
      (merged, m, p) \<leftarrow> drain_stripe 3 a2;
      Some (merged, m,
        if merged > 0 then p\<lparr>pg_drain_count := pg_drain_count p + 1,
                             pg_drain_slot_count := pg_drain_slot_count p + ucast merged\<rparr> else p)
    }"

section \<open>Pending bits\<close>

lemma pick_stripe_lt: "hz10_remote_pick_stripe token < 4"
  using unat_AND_mask [where 'w = 32 and n = 2]
  by (simp add: hz10_remote_pick_stripe_def Let_def mask_eq_exp_minus_1)

lemma try_claim_result:
  "hz10_page_pending_try_claim p i = (b, p') \<Longrightarrow> b \<longleftrightarrow> \<not> pending_bit p (unat i)"
  by (auto simp: hz10_page_pending_try_claim_def pending_bit_def unat_u32_div_mod_64 Let_def
      and_exp_eq_0_iff_not_bit push_bit_eq_mult)

lemma try_claim_bits:
  "hz10_page_pending_try_claim p i = (b, p') \<Longrightarrow> pending_bit p' j \<longleftrightarrow> pending_bit p j \<or> j = unat i"
  using div_mod_64_eq [of "unat i" j]
  by (cases "j div 64 = unat i div 64")
     (auto simp: hz10_page_pending_try_claim_def pending_bit_def unat_u32_div_mod_64 Let_def
      bit_or_iff bit_pow2)

lemma pending_clear_bits:
  "pending_bit (hz10_page_pending_clear p i) j \<longleftrightarrow> pending_bit p j \<and> j \<noteq> unat i"
  using div_mod_64_eq [of "unat i" j]
  by (cases "j div 64 = unat i div 64")
     (auto simp: hz10_page_pending_clear_def pending_bit_def unat_u32_div_mod_64 Let_def
      bit_and_iff bit_not_iff bit_pow2)

section \<open>Classification\<close>

lemma classify_Some_iff:
  assumes g: "page_geom p"
  shows "hz10_page_classify_for_remote p ptr e = Some si \<longleftrightarrow>
     unat si < unat (pg_slot_count p) \<and> ptr = slot p (unat si) \<and> (e = 0 \<or> e = pg_generation p)"
proof -
  let ?off = "ptr - pg_base p" and ?s = "pg_slot_size p" and ?n = "pg_slot_count p"
  have s0: "unat ?s \<noteq> 0" "unat ?s mod 16 = 0" and le: "unat ?s * unat ?n \<le> 65536"
    using g by (auto simp: page_geom_def)
  have span: "(ucast ?s * ucast ?n \<le> ?off) \<longleftrightarrow> \<not> unat ?off < unat ?s * unat ?n"
    by (simp add: word_le_nat_alt unat_mult_u32 not_less)
  have m: "(?off mod ucast ?s \<noteq> 0) \<longleftrightarrow> unat ?off mod unat ?s \<noteq> 0"
    by (simp add: word_unat_eq_iff unat_mod)
  have al: "(?off AND 15 \<noteq> 0) \<longleftrightarrow> unat ?off mod 16 \<noteq> 0" by (simp add: and_15_eq_0)
  have d: "unat (ucast (?off div ucast ?s) :: u32) = unat ?off div unat ?s" if "unat ?off < 65536"
  proof -
    have "unat ?off div unat ?s < 4294967296" using that div_le_dividend [of "unat ?off" "unat ?s"] by linarith
    then show ?thesis by (simp add: unsigned_ucast_eq unat_div take_bit_nat_eq_self_iff)
  qed
  show ?thesis
  proof
    assume "hz10_page_classify_for_remote p ptr e = Some si"
    then have *: "unat ?off < unat ?s * unat ?n" "unat ?off mod unat ?s = 0" "e = 0 \<or> e = pg_generation p"
      "si = ucast (?off div ucast ?s)"
      unfolding hz10_page_classify_for_remote_def Let_def by (auto simp: span m split: if_splits)
    have si: "unat si = unat ?off div unat ?s" using d * le by simp
    then have off: "unat ?off = unat si * unat ?s" using *(2) by (simp add: mod_0_imp_dvd)
    have "unat si < unat ?n" using *(1) off s0(1) by (simp add: mult.commute)
    moreover have "?off = of_nat (unat si) * ucast ?s"
    proof -
      have "?off = of_nat (unat ?off)" by simp
      then show ?thesis by (simp only: off of_nat_mult) simp
    qed
    then have "ptr = slot p (unat si)" by (metis slot_addr_def word_sub_add(2))
    ultimately show "unat si < unat ?n \<and> ptr = slot p (unat si) \<and> (e = 0 \<or> e = pg_generation p)"
      using *(3) by blast
  next
    assume a: "unat si < unat ?n \<and> ptr = slot p (unat si) \<and> (e = 0 \<or> e = pg_generation p)"
    have "unat si * unat ?s + unat ?s \<le> 65536" by (rule slot_end [OF g]) (use a in simp)
    then have off: "unat ?off = unat si * unat ?s" using a slot_addr_diff [of "unat si" ?s "pg_base p"] by simp
    have lt: "unat si * unat ?s < unat ?s * unat ?n" using a s0 by (simp add: mult.commute)
    have "unat si * unat ?s mod 16 = 0" using s0(2) by (simp add: mod_mult_right_eq [symmetric])
    moreover have "ucast (?off div ucast ?s) = si"
      using d off lt le s0 by (simp add: word_unat_eq_iff)
    ultimately show "hz10_page_classify_for_remote p ptr e = Some si"
      using a lt off span m al by (simp add: hz10_page_classify_for_remote_def Let_def)
  qed
qed

section \<open>Abstract claim, publish and drain\<close>

definition abs_claim :: "nat \<Rightarrow> abs_page \<Rightarrow> abs_page" where
  "abs_claim i A = A\<lparr>ap_claimed := insert i (ap_claimed A)\<rparr>"

definition abs_publish :: "nat \<Rightarrow> nat \<Rightarrow> abs_page \<Rightarrow> abs_page" where
  "abs_publish s i A = A\<lparr>ap_stripes := (ap_stripes A)(s := i # ap_stripes A s),
     ap_claimed := ap_claimed A - {i}\<rparr>"

definition abs_drain :: "abs_page \<Rightarrow> abs_page" where
  "abs_drain A = A\<lparr>ap_stripes := (\<lambda>s. if s < 4 then [] else ap_stripes A s),
     ap_free := rev (remote_slots A) @ ap_free A\<rparr>"

lemma slot_count_4096: "page_geom p \<Longrightarrow> unat (pg_slot_count p) \<le> 4096"
proof -
  assume g: "page_geom p"
  have "16 * unat (pg_slot_count p) \<le> unat (pg_slot_size p) * unat (pg_slot_count p)"
    by (rule mult_le_mono1) (use g in \<open>simp add: page_geom_def\<close>)
  then show ?thesis using g unfolding page_geom_def by linarith
qed

text \<open>The header fields \<open>page_rel\<close> reads.\<close>

lemma page_rel_header_cong:
  assumes "pg_base p' = pg_base p" "pg_slot_size p' = pg_slot_size p" "pg_slot_count p' = pg_slot_count p"
    "pg_local_free_head p' = pg_local_free_head p" "pg_free_count p' = pg_free_count p"
    "pg_bump_index p' = pg_bump_index p" "pg_remote_free_head p' = pg_remote_free_head p"
    "pg_remote_free_spread p' = pg_remote_free_spread p" "pg_pending_bits p' = pg_pending_bits p"
  shows "page_rel cfg (m, p') A \<longleftrightarrow> page_rel cfg (m, p) A"
proof -
  have "pending_bit p' = pending_bit p" "frontier_of cfg p' = frontier_of cfg p"
    "hz10_freelist_page_remote_head p' = hz10_freelist_page_remote_head p" "page_geom p' = page_geom p"
    using assms by (auto simp: fun_eq_iff pending_bit_def frontier_of_def page_geom_def
        hz10_freelist_page_remote_head_def split: option.split)
  then show ?thesis unfolding page_rel_def prod.case by (simp only: assms)
qed

lemma page_rel_counters [simp]:
  "page_rel cfg (m, p\<lparr>pg_remote_invalid_count := x\<rparr>) A \<longleftrightarrow> page_rel cfg (m, p) A"
  "page_rel cfg (m, p\<lparr>pg_remote_duplicate_count := x\<rparr>) A \<longleftrightarrow> page_rel cfg (m, p) A"
  "page_rel cfg (m, p\<lparr>pg_drain_count := x\<rparr>) A \<longleftrightarrow> page_rel cfg (m, p) A"
  "page_rel cfg (m, p\<lparr>pg_drain_slot_count := x\<rparr>) A \<longleftrightarrow> page_rel cfg (m, p) A"
  "page_rel cfg (m, p\<lparr>pg_drain_invalid_count := x\<rparr>) A \<longleftrightarrow> page_rel cfg (m, p) A"
  by (rule page_rel_header_cong; simp)+

lemma remote_head_set [simp]:
  "hz10_freelist_page_remote_head (set_remote_head s v p) t =
     (if t = s then v else hz10_freelist_page_remote_head p t)"
  by (simp add: hz10_freelist_page_remote_head_def set_remote_head_def split: option.split)

lemma set_remote_head_frame [simp]:
  "pg_base (set_remote_head s v p) = pg_base p"
  "pg_slot_size (set_remote_head s v p) = pg_slot_size p"
  "pg_slot_count (set_remote_head s v p) = pg_slot_count p"
  "pg_local_free_head (set_remote_head s v p) = pg_local_free_head p"
  "pg_free_count (set_remote_head s v p) = pg_free_count p"
  "pg_bump_index (set_remote_head s v p) = pg_bump_index p"
  "pg_generation (set_remote_head s v p) = pg_generation p"
  "pg_pending_bits (set_remote_head s v p) = pg_pending_bits p"
  by (simp_all add: set_remote_head_def split: option.split)

lemma pending_bits_frame:
  "pg_base (hz10_page_pending_clear p i) = pg_base p"
  "pg_slot_size (hz10_page_pending_clear p i) = pg_slot_size p"
  "pg_slot_count (hz10_page_pending_clear p i) = pg_slot_count p"
  "pg_local_free_head (hz10_page_pending_clear p i) = pg_local_free_head p"
  "pg_free_count (hz10_page_pending_clear p i) = pg_free_count p"
  "pg_bump_index (hz10_page_pending_clear p i) = pg_bump_index p"
  "hz10_freelist_page_remote_head (hz10_page_pending_clear p i) s = hz10_freelist_page_remote_head p s"
  by (simp_all add: hz10_page_pending_clear_def Let_def hz10_freelist_page_remote_head_def
      split: option.split)

lemma try_claim_frame:
  assumes "hz10_page_pending_try_claim p i = (b, p')"
  shows "pg_base p' = pg_base p" "pg_slot_size p' = pg_slot_size p" "pg_slot_count p' = pg_slot_count p"
    "pg_local_free_head p' = pg_local_free_head p" "pg_free_count p' = pg_free_count p"
    "pg_bump_index p' = pg_bump_index p"
    "hz10_freelist_page_remote_head p' s = hz10_freelist_page_remote_head p s"
  using assms by (auto simp: hz10_page_pending_try_claim_def Let_def hz10_freelist_page_remote_head_def
      split: option.split)

text \<open>Changing the claimed set goes with changing the pending bits, and nothing else.\<close>

lemma page_rel_claimed:
  assumes rel: "page_rel cfg (m, p) A"
    and fr: "pg_base p' = pg_base p" "pg_slot_size p' = pg_slot_size p" "pg_slot_count p' = pg_slot_count p"
      "pg_local_free_head p' = pg_local_free_head p" "pg_free_count p' = pg_free_count p"
      "pg_bump_index p' = pg_bump_index p"
      "\<And>s. hz10_freelist_page_remote_head p' s = hz10_freelist_page_remote_head p s"
    and pb: "\<And>j. j < unat (pg_slot_count p) \<Longrightarrow> pending_bit p' j \<longleftrightarrow> j \<in> set (remote_slots A) \<union> C"
    and C: "C \<subseteq> {..<ap_frontier A}" "C \<inter> (set (ap_free A) \<union> set (remote_slots A)) = {}"
  shows "page_rel cfg (m, p') (A\<lparr>ap_claimed := C\<rparr>)"
proof -
  note D = page_relD [OF rel]
  show ?thesis
  proof (rule page_relI)
    show "j < ap_frontier (A\<lparr>ap_claimed := C\<rparr>)"
      if "j \<in> set (ap_free (A\<lparr>ap_claimed := C\<rparr>)) \<or> j \<in> set (remote_slots (A\<lparr>ap_claimed := C\<rparr>)) \<or>
        j \<in> ap_claimed (A\<lparr>ap_claimed := C\<rparr>)" for j
      using that D(12) [of j] C(1) by auto
    show "ap_claimed (A\<lparr>ap_claimed := C\<rparr>) \<inter> (set (ap_free (A\<lparr>ap_claimed := C\<rparr>)) \<union>
        set (remote_slots (A\<lparr>ap_claimed := C\<rparr>))) = {}"
      using C(2) by simp
  qed (use D(1-6,8-11) pb in \<open>simp_all add: fr page_geom_cong [OF fr(1-3)] frontier_of_def\<close>)
qed

section \<open>Refinement\<close>

lemma claim_refines:
  assumes rel: "page_rel cfg (m, p) A" and i: "unat si \<in> held_slots A"
    and gen: "e = 0 \<or> e = pg_generation p"
    and user: "m (slot p (unat si) + 8) \<noteq> HZ10_FREELIST_LOCAL_MARKER"
  shows "\<exists>p'. hz10_page_remote_free_claim (slot p (unat si)) e (m, p) = (Some si, m, p') \<and>
     page_rel cfg (m, p') (abs_claim (unat si) A) \<and> pg_base p' = pg_base p \<and>
     pg_slot_size p' = pg_slot_size p \<and> pg_slot_count p' = pg_slot_count p"
proof -
  note D = page_relD [OF rel]
  have i': "unat si < ap_frontier A" "unat si < unat (pg_slot_count p)" "unat si \<notin> set (ap_free A)"
    "unat si \<notin> set (remote_slots A)" "unat si \<notin> ap_claimed A"
    using i D(3) by (auto simp: held_slots_def)
  have cl: "hz10_page_classify_for_remote p (slot p (unat si)) e = Some si"
    using classify_Some_iff [OF D(1)] i'(2) gen by simp
  have nm: "\<not> hz10_freelist_page_is_marked_local_free p (slot p (unat si)) m"
    using user by (simp add: hz10_freelist_page_is_marked_local_free_def
        hz10_freelist_page_slot_marker_ptr_def split: option.splits)
  have pend: "\<not> pending_bit p (unat si)" using D(7) [OF i'(2)] i' by simp
  obtain b p' where t: "hz10_page_pending_try_claim p si = (b, p')" by force
  then have b: b using try_claim_result pend by blast
  have "page_rel cfg (m, p') (A\<lparr>ap_claimed := insert (unat si) (ap_claimed A)\<rparr>)"
  proof (rule page_rel_claimed [OF rel try_claim_frame [OF t]])
    show "pending_bit p' j \<longleftrightarrow> j \<in> set (remote_slots A) \<union> insert (unat si) (ap_claimed A)"
      if "j < unat (pg_slot_count p)" for j
      using try_claim_bits [OF t, of j] D(7) [OF that] by auto
  qed (use D i' in auto)
  then show ?thesis using cl nm t b try_claim_frame [OF t]
    by (simp add: hz10_page_remote_free_claim_def abs_claim_def)
qed

text \<open>A rejected claim changes counters only.\<close>

lemma claim_rejected:
  assumes rel: "page_rel cfg (m, p) A"
    and r: "hz10_page_remote_free_claim ptr e (m, p) = (None, v')"
  shows "fst v' = m" "page_rel cfg v' A"
proof -
  note D = page_relD [OF rel]
  have "fst v' = m \<and> page_rel cfg v' A"
  proof (cases "hz10_page_classify_for_remote p ptr e")
    case None
    then show ?thesis using r rel by (auto simp: hz10_page_remote_free_claim_def)
  next
    case (Some si)
    then have si: "unat si < unat (pg_slot_count p)" by (simp add: classify_Some_iff [OF D(1)])
    obtain b p' where t: "hz10_page_pending_try_claim p si = (b, p')" by force
    show ?thesis
    proof (cases "hz10_freelist_page_is_marked_local_free p ptr m")
      case True
      then show ?thesis using r rel Some
        by (auto simp: hz10_page_remote_free_claim_def)
    next
      case False
      then have b: "\<not> b" and v': "v' = (m, p'\<lparr>pg_remote_duplicate_count := pg_remote_duplicate_count p' + 1\<rparr>)"
        using r Some t by (auto simp: hz10_page_remote_free_claim_def split: if_splits)
      have pend: "pending_bit p (unat si)" using try_claim_result [OF t] b by simp
      have "page_rel cfg (m, p') (A\<lparr>ap_claimed := ap_claimed A\<rparr>)"
      proof (rule page_rel_claimed [OF rel try_claim_frame [OF t]])
        show "pending_bit p' j \<longleftrightarrow> j \<in> set (remote_slots A) \<union> ap_claimed A"
          if "j < unat (pg_slot_count p)" for j
          using try_claim_bits [OF t, of j] D(7) [OF that] pend by auto
      qed (use D in auto)
      then show ?thesis by (simp add: v')
    qed
  qed
  then show "fst v' = m" "page_rel cfg v' A" by simp_all
qed

lemma publish_refines:
  fixes token :: addr
  assumes rel: "page_rel cfg (m, p) A" and i: "i \<in> ap_claimed A"
  defines "s \<equiv> hz10_remote_pick_stripe token"
  shows "page_rel cfg (hz10_page_remote_free_publish token (slot p i) (m, p)) (abs_publish s i A)"
proof -
  note D = page_relD [OF rel]
  have s4: "s < 4" unfolding s_def by (rule pick_stripe_lt)
  have i': "i < ap_frontier A" "i < unat (pg_slot_count p)" "i \<notin> set (ap_free A)"
    "i \<notin> set (remote_slots A)"
    using i D(3,12,13) by (auto intro: less_le_trans)
  have lt: "\<forall>i\<in>set (ap_free A) \<union> set (remote_slots A). i < unat (pg_slot_count p)"
    using page_rel_lt_count [OF rel] by blast
  have nn: "slot p i \<noteq> 0" by (rule slot_nonnull [OF D(1) i'(2)])
  define m' where "m' = m(slot p i := hz10_freelist_page_remote_head p s)"
  let ?p = "set_remote_head s (slot p i) p"
  have l: "m' (slot p j) = m (slot p j)" if "j < unat (pg_slot_count p)" "j \<noteq> i" for j
    unfolding m'_def using that slot_eq_iff [OF D(1) that(1) i'(2)] by auto
  have l8: "m' (slot p j + 8) = m (slot p j + 8)" if "j < unat (pg_slot_count p)" for j
    unfolding m'_def using slot_neq_marker [OF D(1) i'(2) that] by auto
  have li: "m' (slot p i) = hz10_freelist_page_remote_head p s" by (simp add: m'_def)
  have "page_rel cfg (m', p) A \<longleftrightarrow> page_rel cfg (m, p) A"
    by (rule page_rel_mem_cong) (use l l8 lt i' in auto)
  with rel have rel': "page_rel cfg (m', p) A" by simp
  note D' = page_relD [OF rel']
  have rs: "set (remote_slots (abs_publish s i A)) = insert i (set (remote_slots A))"
    using s4 by (auto simp: remote_slots_stripes abs_publish_def split: if_splits)
  have dr: "distinct (remote_slots (abs_publish s i A))"
  proof -
    have "mset (remote_slots (abs_publish s i A)) = add_mset i (mset (remote_slots A))"
      using s4 by (auto simp: remote_slots_def abs_publish_def numeral_eq_Suc less_Suc_eq)
    then show ?thesis using D(10) i'(4)
      by (metis distinct_count_atmost_1 distinct.simps(2) mset.simps(2) mset_eq_imp_distinct_iff)
  qed
  have ch: "chain m' (hz10_freelist_page_remote_head ?p t) (map (slot p) (ap_stripes (abs_publish s i A) t))"
    if "t < 4" for t
    using D'(5) [OF that] D'(5) [OF s4] nn li by (auto simp: abs_publish_def)
  have pg: "page_geom ?p = page_geom p" by (rule page_geom_cong) simp_all
  have cl: "ap_claimed (abs_publish s i A) = ap_claimed A - {i}"
    "ap_free (abs_publish s i A) = ap_free A" "ap_frontier (abs_publish s i A) = ap_frontier A"
    by (simp_all add: abs_publish_def)
  have "page_rel cfg (m', ?p) (abs_publish s i A)"
  proof (rule page_relI)
    show "pending_bit ?p j \<longleftrightarrow> j \<in> set (remote_slots (abs_publish s i A)) \<union> ap_claimed (abs_publish s i A)"
      if "j < unat (pg_slot_count ?p)" for j
      using D'(7) [of j] that i unfolding rs cl by (auto simp: pending_bit_def)
    show "j < ap_frontier (abs_publish s i A)"
      if "j \<in> set (ap_free (abs_publish s i A)) \<or> j \<in> set (remote_slots (abs_publish s i A)) \<or>
         j \<in> ap_claimed (abs_publish s i A)" for j
      using that D(12) [of j] i'(1) unfolding rs cl by auto
    show "ap_claimed (abs_publish s i A) \<inter>
        (set (ap_free (abs_publish s i A)) \<union> set (remote_slots (abs_publish s i A))) = {}"
      using D(13) i'(3) unfolding rs cl by blast
    show "set (ap_free (abs_publish s i A)) \<inter> set (remote_slots (abs_publish s i A)) = {}"
      using D(11) i'(3) unfolding rs cl by blast
  qed (use D'(1-4,6,8,9) ch dr pg in \<open>simp_all add: cl frontier_of_def\<close>)
  then show ?thesis by (simp add: hz10_page_remote_free_publish_def s_def Let_def m'_def)
qed

section \<open>The drain\<close>

text \<open>Everything of the header a drain leaves alone.\<close>

definition drain_frame :: "Hz10FreelistPage \<Rightarrow> Hz10FreelistPage \<Rightarrow> bool" where
  "drain_frame p' p \<longleftrightarrow> pg_base p' = pg_base p \<and> pg_slot_size p' = pg_slot_size p \<and>
     pg_slot_count p' = pg_slot_count p \<and> pg_bump_index p' = pg_bump_index p \<and>
     pg_generation p' = pg_generation p \<and> pg_class_id p' = pg_class_id p \<and>
     pg_owner_list_kind p' = pg_owner_list_kind p \<and> pg_adopted_count p' = pg_adopted_count p \<and>
     pg_orphaned_at_ns p' = pg_orphaned_at_ns p \<and> pg_owner_thread_token p' = pg_owner_thread_token p \<and>
     pg_next_in_owner_list p' = pg_next_in_owner_list p \<and>
     pg_prev_in_owner_list p' = pg_prev_in_owner_list p \<and>
     pg_pending_words p' = pg_pending_words p \<and>
     pg_retired_ready_flag p' = pg_retired_ready_flag p \<and>
     pg_retired_ready_outstanding p' = pg_retired_ready_outstanding p \<and>
     pg_retired_ready_next p' = pg_retired_ready_next p \<and>
     pg_retired_ready_stack p' = pg_retired_ready_stack p \<and>
     pg_retired_ready_on_stack p' = pg_retired_ready_on_stack p \<and>
     pg_retired_ready_generation p' = pg_retired_ready_generation p"

lemma drain_frame_refl [simp]: "drain_frame p p"
  by (simp add: drain_frame_def)

lemma drain_frame_trans: "drain_frame p3 p2 \<Longrightarrow> drain_frame p2 p1 \<Longrightarrow> drain_frame p3 p1"
  by (simp add: drain_frame_def)

lemmas drain_loop_induct = drain_stripe_loop.raw_induct [rotated, consumes 1, case_names step]

lemma drain_loop_frame_aux:
  "drain_stripe_loop head merged v = Some r \<Longrightarrow> drain_frame (snd (snd r)) (snd v)"
proof (induction rule: drain_loop_induct)
  case (step f head merged v r)
  obtain m p where v: "v = (m, p)" by force
  show ?case
  proof (cases "head = 0")
    case True
    then show ?thesis using step(2) by auto
  next
    case False
    then obtain h' k' m' p' where "f h' k' (m', p') = Some r" "drain_frame p' p"
      using step(2) v by (auto simp: Let_def drain_frame_def hz10_page_pending_clear_def split: if_splits)
    then show ?thesis using step(1) [of h' k' "(m', p')" r] v drain_frame_trans by auto
  qed
qed

lemma drain_loop_frame:
  "drain_stripe_loop head merged v = Some (n, v') \<Longrightarrow> drain_frame (snd v') (snd v)"
  using drain_loop_frame_aux by fastforce

lemma drain_stripe_frame: "drain_stripe s (k, v) = Some (n, v') \<Longrightarrow> drain_frame (snd v') (snd v)"
proof (cases v)
  case (Pair m p)
  assume d: "drain_stripe s (k, v) = Some (n, v')"
  have "drain_frame (set_remote_head s 0 p) p"
    by (simp add: drain_frame_def set_remote_head_def split: option.split)
  then show ?thesis using d Pair drain_loop_frame [of "hz10_freelist_page_remote_head p s" k "(m, set_remote_head s 0 p)" n v']
    by (auto simp: drain_stripe_def Let_def split: if_splits intro: drain_frame_trans)
qed

lemma drain_remote_frame:
  assumes "hz10_page_drain_remote v = Some (n, v')"
  shows "drain_frame (snd v') (snd v)"
proof -
  obtain n0 v0 n1 v1 n2 v2 m p where d: "drain_stripe 0 (0, v) = Some (n0, v0)"
    "drain_stripe 1 (n0, v0) = Some (n1, v1)" "drain_stripe 2 (n1, v1) = Some (n2, v2)"
    "drain_stripe 3 (n2, v2) = Some (n, m, p)"
    and v': "v' = (m, if n > 0 then p\<lparr>pg_drain_count := pg_drain_count p + 1,
                             pg_drain_slot_count := pg_drain_slot_count p + ucast n\<rparr> else p)"
    using assms by (auto simp: hz10_page_drain_remote_def split: bind_splits)
  have "drain_frame (snd v') p" by (simp add: v' drain_frame_def)
  then have "drain_frame (snd v') (snd v2)"
    using drain_stripe_frame [OF d(4)] drain_frame_trans by auto
  then have "drain_frame (snd v') (snd v1)"
    using drain_stripe_frame [OF d(3)] drain_frame_trans by auto
  then have "drain_frame (snd v') (snd v0)"
    using drain_stripe_frame [OF d(2)] drain_frame_trans by auto
  then show ?thesis using drain_stripe_frame [OF d(1)] drain_frame_trans by auto
qed

lemma freelist_contains_iff:
  "chain m h (map f F) \<Longrightarrow> length F \<le> k \<Longrightarrow> freelist_contains_loop k m h x \<longleftrightarrow> x \<in> f ` set F"
proof (induction k arbitrary: h F)
  case (Suc k)
  then show ?case by (cases F) auto
qed simp

lemma slot_index_of:
  assumes "page_geom p" "i < unat (pg_slot_count p)"
  shows "(ucast ((slot p i - pg_base p) div ucast (pg_slot_size p)) :: u32) = of_nat i"
proof -
  have "unat (of_nat i :: u32) = i" using assms(2) less_trans [OF assms(2) unat_u32_lt]
    by (simp add: unat_of_nat)
  then have "hz10_page_classify_for_remote p (slot p i) 0 = Some (of_nat i)"
    using assms by (subst classify_Some_iff) simp_all
  then show ?thesis
    by (simp add: hz10_page_classify_for_remote_def Let_def split: if_splits)
qed

text \<open>Taking a whole stripe: its slots are then in the same position as claimed ones.\<close>

lemma detach_refines:
  assumes rel: "page_rel cfg (m, p) A" and s: "s < 4"
  shows "page_rel cfg (m, set_remote_head s 0 p)
    (A\<lparr>ap_stripes := (ap_stripes A)(s := []), ap_claimed := ap_claimed A \<union> set (ap_stripes A s)\<rparr>)"
proof -
  note D = page_relD [OF rel]
  let ?A = "A\<lparr>ap_stripes := (ap_stripes A)(s := []), ap_claimed := ap_claimed A \<union> set (ap_stripes A s)\<rparr>"
  have ms: "mset (remote_slots A) = mset (ap_stripes A s) + mset (remote_slots ?A)"
    using s by (auto simp: remote_slots_def numeral_eq_Suc less_Suc_eq)
  then have st: "set (remote_slots A) = set (ap_stripes A s) \<union> set (remote_slots ?A)"
    by (metis set_mset_mset set_mset_union)
  have "distinct (ap_stripes A s @ remote_slots ?A)"
    using D(10) ms by (metis mset_append mset_eq_imp_distinct_iff)
  then have dis: "distinct (remote_slots ?A)" "set (ap_stripes A s) \<inter> set (remote_slots ?A) = {}"
    by simp_all
  have pg: "page_geom (set_remote_head s 0 p) = page_geom p" by (rule page_geom_cong) simp_all
  show ?thesis
  proof (rule page_relI)
    show "j < ap_frontier ?A" if "j \<in> set (ap_free ?A) \<or> j \<in> set (remote_slots ?A) \<or> j \<in> ap_claimed ?A" for j
      using that D(12) [of j] st by auto
    show "ap_claimed ?A \<inter> (set (ap_free ?A) \<union> set (remote_slots ?A)) = {}"
      using D(11,13) st dis by auto
    show "set (ap_free ?A) \<inter> set (remote_slots ?A) = {}" using D(11) st by auto
    show "pending_bit (set_remote_head s 0 p) j \<longleftrightarrow> j \<in> set (remote_slots ?A) \<union> ap_claimed ?A"
      if "j < unat (pg_slot_count (set_remote_head s 0 p))" for j
      using D(7) [of j] that st by (auto simp: pending_bit_def)
  qed (use D(1-6,8,9) dis pg in \<open>simp_all add: frontier_of_def\<close>)
qed

text \<open>Merging one slot: its pending bit is cleared and it becomes the top of the freelist.\<close>

lemma merge_refines:
  assumes rel: "page_rel cfg (m, p) A" and i: "i \<in> ap_claimed A"
  shows "page_rel cfg (hz10_freelist_page_free (slot p i) (m, hz10_page_pending_clear p (of_nat i)))
    (A\<lparr>ap_claimed := ap_claimed A - {i}, ap_free := i # ap_free A\<rparr>)"
proof -
  note D = page_relD [OF rel]
  have n: "i < unat (pg_slot_count p)" using D(3,12) i by (auto intro: less_le_trans)
  then have un: "unat (of_nat i :: u32) = i" using less_trans [OF n unat_u32_lt] by (simp add: unat_of_nat)
  let ?p = "hz10_page_pending_clear p (of_nat i)"
  have "page_rel cfg (m, ?p) (A\<lparr>ap_claimed := ap_claimed A - {i}\<rparr>)"
  proof (rule page_rel_claimed [OF rel pending_bits_frame])
    show "pending_bit ?p j \<longleftrightarrow> j \<in> set (remote_slots A) \<union> (ap_claimed A - {i})"
      if "j < unat (pg_slot_count p)" for j
      using D(7) [OF that] D(13) i by (auto simp: pending_clear_bits un)
  qed (use D i in auto)
  moreover have "i \<in> held_slots (A\<lparr>ap_claimed := ap_claimed A - {i}\<rparr>)"
    using D(12,13) i by (auto simp: held_slots_def)
  ultimately have "page_rel cfg (hz10_freelist_page_free (slot ?p i) (m, ?p))
      (abs_free i (A\<lparr>ap_claimed := ap_claimed A - {i}\<rparr>))"
    by (rule free_refines)
  then show ?thesis by (simp add: abs_free_def pending_bits_frame)
qed

text \<open>A drain writes inside the page's quantum only.\<close>

definition same_outside :: "addr \<Rightarrow> memory \<Rightarrow> memory \<Rightarrow> bool" where
  "same_outside b m' m \<longleftrightarrow> (\<forall>a. unat a div 65536 \<noteq> unat b div 65536 \<longrightarrow> m' a = m a)"

lemma same_outside_refl [simp]: "same_outside b m m"
  by (simp add: same_outside_def)

lemma same_outside_trans: "same_outside b m3 m2 \<Longrightarrow> same_outside b m2 m1 \<Longrightarrow> same_outside b m3 m1"
  by (simp add: same_outside_def)

lemma slot_quantum:
  assumes "page_geom p" "i < unat (pg_slot_count p)"
  shows "unat (slot p i) div 65536 = unat (pg_base p) div 65536" "unat (slot p i + 8) div 65536 = unat (pg_base p) div 65536"
proof -
  have e: "i * unat (pg_slot_size p) + unat (pg_slot_size p) \<le> 65536" "16 \<le> unat (pg_slot_size p)"
    "unat (pg_base p) mod 65536 = 0"
    using slot_end [OF assms] assms(1) by (simp_all add: page_geom_def)
  then obtain k where k: "unat (pg_base p) = 65536 * k" by (auto elim: dvdE)
  have "(65536 * k + x) div 65536 = k" if "x < 65536" for x using that by simp
  then show "unat (slot p i) div 65536 = unat (pg_base p) div 65536" "unat (slot p i + 8) div 65536 = unat (pg_base p) div 65536"
    unfolding unat_slot_0 [OF assms] unat_slot_8 [OF assms] k using e(1,2) by (simp_all add: add.assoc)
qed

lemma freelist_free_same_outside:
  assumes "page_geom p" "i < unat (pg_slot_count p)" "hz10_freelist_page_free (slot p i) (m, p) = (m', p')"
  shows "same_outside (pg_base p) m' m"
  using assms(3) slot_quantum [OF assms(1,2)] by (auto simp: free_eq [OF assms(1)] same_outside_def)

text \<open>Another page does not notice.\<close>

lemma page_rel_other_page:
  assumes "page_rel cfg (m, q) A" "same_outside b m' m" "unat b mod 65536 = 0" "pg_base q \<noteq> b"
  shows "page_rel cfg (m', q) A"
proof -
  note D = page_relD [OF assms(1)]
  have "unat (pg_base q) div 65536 \<noteq> unat b div 65536"
  proof
    assume eq: "unat (pg_base q) div 65536 = unat b div 65536"
    have "unat (pg_base q) = unat (pg_base q) div 65536 * 65536" "unat b = unat b div 65536 * 65536"
      using assms(3) D(1) by (auto simp: page_geom_def)
    then show False using eq assms(4) by (metis word_unat_eq_iff)
  qed
  then have w: "m' (slot q i) = m (slot q i)" "m' (slot q i + 8) = m (slot q i + 8)"
    if "i \<in> set (ap_free A) \<union> set (remote_slots A)" for i
    using assms(2) slot_quantum [OF D(1), of i] page_rel_lt_count [OF assms(1), of i] that
    by (auto simp: same_outside_def)
  have "page_rel cfg (m', q) A \<longleftrightarrow> page_rel cfg (m, q) A"
    by (rule page_rel_mem_cong) (use w in auto)
  then show ?thesis using assms(1) by simp
qed

lemma drain_loop_refines:
  assumes "page_rel cfg (m, p) A" "chain m head (map (slot p) xs)" "distinct xs" "set xs \<subseteq> ap_claimed A"
  shows "\<exists>m' p'. drain_stripe_loop head merged (m, p) = Some (merged + of_nat (length xs), m', p') \<and>
     page_rel cfg (m', p') (A\<lparr>ap_claimed := ap_claimed A - set xs, ap_free := rev xs @ ap_free A\<rparr>) \<and>
     same_outside (pg_base p) m' m"
  using assms
proof (induction xs arbitrary: head merged m p A)
  case Nil
  then show ?case by (subst drain_stripe_loop.simps) simp
next
  case (Cons i xs)
  note rel = Cons.prems(1)
  note D = page_relD [OF rel]
  have i: "i \<in> ap_claimed A" "i \<notin> set xs" "set xs \<subseteq> ap_claimed A - {i}"
    and hd: "head = slot p i" "slot p i \<noteq> 0" "chain m (m head) (map (slot p) xs)"
    using Cons.prems by auto
  have lt: "j < unat (pg_slot_count p)" if "j \<in> ap_claimed A" for j
    using D(3,12) that by (auto intro: less_le_trans)
  let ?p1 = "hz10_page_pending_clear p (of_nat i)"
  have p1: "page_geom ?p1" using D(1) page_geom_cong [of ?p1 p] by (simp add: pending_bits_frame)
  have "length (ap_free A) \<le> unat (pg_slot_count p)"
    using D(8) unat_u32_lt [of "pg_free_count p"] page_relD(3) [OF rel]
      distinct_bounded_length [OF D(9), of "ap_frontier A"] D(12) by fastforce
  then have "\<not> hz10_page_local_freelist_contains (m, ?p1) head"
    using freelist_contains_iff [OF D(4), of "unat (pg_slot_count p)" head] D(13) i(1) hd(1)
      slot_set_iff [OF D(1) lt [OF i(1)], of "set (ap_free A)"] page_rel_lt_count [OF rel]
    by (auto simp: hz10_page_local_freelist_contains_def pending_bits_frame)
  moreover have "(ucast ((head - pg_base p) div ucast (pg_slot_size p)) :: u32) = of_nat i"
    unfolding hd(1) by (rule slot_index_of [OF D(1) lt [OF i(1)]])
  moreover obtain m1 q1 where f: "hz10_freelist_page_free head (m, ?p1) = (m1, q1)" by force
  ultimately have step: "drain_stripe_loop head merged (m, p) = drain_stripe_loop (m head) (merged + 1) (m1, q1)"
    using hd(1,2) by (subst drain_stripe_loop.simps)
      (simp add: Let_def hz10_freelist_page_free_def)
  have rel1: "page_rel cfg (m1, q1) (A\<lparr>ap_claimed := ap_claimed A - {i}, ap_free := i # ap_free A\<rparr>)"
    using merge_refines [OF rel i(1)] f hd(1) by simp
  have q1: "slot q1 = slot p" using f by (auto simp: free_eq [OF p1] pending_bits_frame)
  have "m1 (slot p j) = m (slot p j)" if "j \<in> set xs" for j
  proof -
    have j: "j < unat (pg_slot_count p)" "j \<noteq> i" using that i lt by auto
    then show ?thesis using f hd(1) slot_eq_iff [OF D(1) j(1) lt [OF i(1)]]
        slot_neq_marker [OF D(1) j(1) lt [OF i(1)]] by (auto simp: free_eq [OF p1])
  qed
  then have "chain m1 (m head) (map (slot p) xs) \<longleftrightarrow> chain m (m head) (map (slot p) xs)"
    by (intro chain_cong) auto
  then have c: "chain m1 (m head) (map (slot q1) xs)" using hd(3) by (simp add: q1)
  let ?A1 = "A\<lparr>ap_claimed := ap_claimed A - {i}, ap_free := i # ap_free A\<rparr>"
  have d: "distinct xs" using Cons.prems(3) by simp
  have sb: "set xs \<subseteq> ap_claimed ?A1" using i(3) by simp
  obtain m' p' where r: "drain_stripe_loop (m head) (merged + 1) (m1, q1)
        = Some (merged + 1 + of_nat (length xs), m', p')"
      "page_rel cfg (m', p') (?A1\<lparr>ap_claimed := ap_claimed ?A1 - set xs, ap_free := rev xs @ ap_free ?A1\<rparr>)"
      "same_outside (pg_base q1) m' m1"
    using Cons.IH [OF rel1 c d sb, of "merged + 1"] by blast
  have "pg_base q1 = pg_base p" "slot ?p1 i = slot p i" "i < unat (pg_slot_count ?p1)"
    using f lt [OF i(1)] by (auto simp: free_eq [OF p1] pending_bits_frame)
  then have "same_outside (pg_base p) m' m"
    using freelist_free_same_outside [OF p1, of i m m1 q1] f hd(1) r(3) same_outside_trans
    by (metis pending_bits_frame(1))
  moreover have "ap_claimed ?A1 - set xs = ap_claimed A - set (i # xs)" by auto
  ultimately show ?case using step r(1,2) by (simp add: ac_simps)
qed

lemma drain_stripe_refines:
  assumes rel: "page_rel cfg (m, p) A" and s: "s < 4"
  shows "\<exists>m' p'. drain_stripe s (k, m, p) = Some (k + of_nat (length (ap_stripes A s)), m', p') \<and>
     page_rel cfg (m', p') (A\<lparr>ap_stripes := (ap_stripes A)(s := []),
        ap_free := rev (ap_stripes A s) @ ap_free A\<rparr>) \<and>
     same_outside (pg_base p) m' m \<and> pg_base p' = pg_base p"
proof (cases "ap_stripes A s")
  case Nil
  then have "hz10_freelist_page_remote_head p s = 0" using page_relD(5) [OF rel s] by simp
  moreover have "(ap_stripes A)(s := []) = ap_stripes A" using Nil by auto
  ultimately show ?thesis using rel Nil by (simp add: drain_stripe_def)
next
  case (Cons i xs)
  note D = page_relD [OF rel]
  let ?A = "A\<lparr>ap_stripes := (ap_stripes A)(s := []), ap_claimed := ap_claimed A \<union> set (ap_stripes A s)\<rparr>"
  let ?p = "set_remote_head s 0 p"
  have h: "hz10_freelist_page_remote_head p s \<noteq> 0" using D(5) [OF s] Cons by auto
  have sub: "set (ap_stripes A s) \<subseteq> set (remote_slots A)" by (rule stripe_subset [OF s])
  have "distinct (ap_stripes A s)"
    using D(10) s by (auto simp: remote_slots_def numeral_eq_Suc less_Suc_eq)
  then obtain m' p' where "drain_stripe_loop (hz10_freelist_page_remote_head p s) k (m, ?p)
      = Some (k + of_nat (length (ap_stripes A s)), m', p')"
    "page_rel cfg (m', p') (?A\<lparr>ap_claimed := ap_claimed ?A - set (ap_stripes A s),
        ap_free := rev (ap_stripes A s) @ ap_free ?A\<rparr>)" "same_outside (pg_base p) m' m"
    using drain_loop_refines [OF detach_refines [OF rel s], of "hz10_freelist_page_remote_head p s" "ap_stripes A s" k]
      D(5) [OF s] by auto
  moreover have "ap_claimed A \<union> set (ap_stripes A s) - set (ap_stripes A s) = ap_claimed A"
    using D(13) sub by auto
  moreover have "pg_base p' = pg_base ?p"
    using drain_loop_frame [OF calculation(1)] by (simp add: drain_frame_def)
  ultimately show ?thesis using h by (simp add: drain_stripe_def)
qed

lemma drain_refines:
  assumes rel: "page_rel cfg (m, p) A"
  shows "\<exists>m' p'. hz10_page_drain_remote (m, p) = Some (of_nat (length (remote_slots A)), m', p') \<and>
     page_rel cfg (m', p') (abs_drain A) \<and> drain_frame p' p \<and> same_outside (pg_base p) m' m"
proof -
  obtain m0 p0 where 0: "drain_stripe 0 (0, m, p) = Some (0 + of_nat (length (ap_stripes A 0)), m0, p0)"
    "page_rel cfg (m0, p0) (A\<lparr>ap_stripes := (ap_stripes A)(0 := []), ap_free := rev (ap_stripes A 0) @ ap_free A\<rparr>)"
    (is "page_rel _ _ ?A0") "same_outside (pg_base p) m0 m" "pg_base p0 = pg_base p"
    using drain_stripe_refines [OF rel, of 0 0] by auto
  obtain m1 p1 where 1: "drain_stripe 1 (0 + of_nat (length (ap_stripes A 0)), m0, p0)
      = Some (0 + of_nat (length (ap_stripes A 0)) + of_nat (length (ap_stripes ?A0 1)), m1, p1)"
    "page_rel cfg (m1, p1) (?A0\<lparr>ap_stripes := (ap_stripes ?A0)(1 := []), ap_free := rev (ap_stripes ?A0 1) @ ap_free ?A0\<rparr>)"
    (is "page_rel _ _ ?A1") "same_outside (pg_base p0) m1 m0" "pg_base p1 = pg_base p0"
    using drain_stripe_refines [OF 0(2), of 1 "0 + of_nat (length (ap_stripes A 0))"] by auto
  obtain m2 p2 where 2: "drain_stripe 2 (0 + of_nat (length (ap_stripes A 0)) + of_nat (length (ap_stripes ?A0 1)), m1, p1)
      = Some (0 + of_nat (length (ap_stripes A 0)) + of_nat (length (ap_stripes ?A0 1)) + of_nat (length (ap_stripes ?A1 2)), m2, p2)"
    "page_rel cfg (m2, p2) (?A1\<lparr>ap_stripes := (ap_stripes ?A1)(2 := []), ap_free := rev (ap_stripes ?A1 2) @ ap_free ?A1\<rparr>)"
    (is "page_rel _ _ ?A2") "same_outside (pg_base p1) m2 m1" "pg_base p2 = pg_base p1"
    using drain_stripe_refines [OF 1(2), of 2 "0 + of_nat (length (ap_stripes A 0)) + of_nat (length (ap_stripes ?A0 1))"] by auto
  obtain m3 p3 where 3: "drain_stripe 3 (0 + of_nat (length (ap_stripes A 0)) + of_nat (length (ap_stripes ?A0 1)) + of_nat (length (ap_stripes ?A1 2)), m2, p2)
      = Some (0 + of_nat (length (ap_stripes A 0)) + of_nat (length (ap_stripes ?A0 1)) + of_nat (length (ap_stripes ?A1 2)) + of_nat (length (ap_stripes ?A2 3)), m3, p3)"
    "page_rel cfg (m3, p3) (?A2\<lparr>ap_stripes := (ap_stripes ?A2)(3 := []), ap_free := rev (ap_stripes ?A2 3) @ ap_free ?A2\<rparr>)" "same_outside (pg_base p2) m3 m2"
    using drain_stripe_refines [OF 2(2), of 3 "0 + of_nat (length (ap_stripes A 0)) + of_nat (length (ap_stripes ?A0 1)) + of_nat (length (ap_stripes ?A1 2))"] by auto
  let ?k = "of_nat (length (remote_slots A)) :: u32"
  let ?p = "if ?k > 0 then p3\<lparr>pg_drain_count := pg_drain_count p3 + 1,
      pg_drain_slot_count := pg_drain_slot_count p3 + ucast ?k\<rparr> else p3"
  have "hz10_page_drain_remote (m, p) = Some (?k, m3, ?p)"
    unfolding hz10_page_drain_remote_def using 0(1) 1(1) 2(1) 3(1)
    by (simp add: remote_slots_def ac_simps)
  moreover have "(\<lambda>s. if s < 4 then [] else ap_stripes A s) = (ap_stripes A)(0 := [], 1 := [], 2 := [], 3 := [])"
    by (auto simp: fun_eq_iff numeral_eq_Suc less_Suc_eq)
  then have "page_rel cfg (m3, p3) (abs_drain A)"
    using 3(2) by (simp add: abs_drain_def remote_slots_def)
  then have "page_rel cfg (m3, ?p) (abs_drain A)" by simp
  moreover have "drain_frame ?p p"
    using drain_remote_frame [OF calculation(1)] by simp
  moreover have "same_outside (pg_base p) m3 m"
    using 0(3,4) 1(3,4) 2(3,4) 3(3) same_outside_trans by metis
  ultimately show ?thesis by blast
qed

section \<open>A stripe as an intrusive stack\<close>

lemma publish_eq:
  "hz10_page_remote_free_publish token a (m, p) =
     (m(a := hz10_freelist_page_remote_head p (hz10_remote_pick_stripe token)),
      set_remote_head (hz10_remote_pick_stripe token) a p)"
  by (simp add: hz10_page_remote_free_publish_def Let_def)

interpretation stripe: intrusive_push
  "\<lambda>v a. page_geom (snd v) \<and> (\<exists>i<unat (pg_slot_count (snd v)). a = slot (snd v) i)"
  fst "\<lambda>v. hz10_freelist_page_remote_head (snd v) (hz10_remote_pick_stripe token)"
  "hz10_page_remote_free_publish token"
  for token
proof (unfold_locales, goal_cases)
  case (1 v a)
  then show ?case by (cases v) (simp add: publish_eq)
next
  case (2 v a b)
  then show ?case by (cases v) (simp add: publish_eq)
next
  case (3 v a b)
  have "page_geom (set_remote_head s x p) = page_geom p" for s x p
    by (rule page_geom_cong) simp_all
  then show ?case by (cases v) (simp add: publish_eq)
next
  case (4 v a)
  then obtain i where "page_geom (snd v)" "i < unat (pg_slot_count (snd v))" "a = slot (snd v) i"
    by (elim conjE exE)
  then show ?case using slot_nonnull [of "snd v" i] by simp
qed

lemma example_user_slot:
  "0 \<in> held_slots ((fresh_abs default_config 4)\<lparr>ap_frontier := Suc 0\<rparr>)"
  "pg_base (snd example_alloc_view) = 65536" "pg_generation (snd example_alloc_view) = 1"
  "fst example_alloc_view 65544 = 0" "remote_slots (fresh_abs default_config 4) = []"
proof -
  show "0 \<in> held_slots ((fresh_abs default_config 4)\<lparr>ap_frontier := Suc 0\<rparr>)"
    by (simp add: held_slots_def fresh_abs_def remote_slots_def default_config_def)
  show "pg_base (snd example_alloc_view) = 65536" "pg_generation (snd example_alloc_view) = 1"
    "fst example_alloc_view 65544 = 0"
    by code_simp+
  show "remote_slots (fresh_abs default_config 4) = []"
    by (simp add: remote_slots_def fresh_abs_def)
qed

section \<open>Properties\<close>



text \<open>What foreign threads freed comes back, once: after a claimed slot is published, the
  owner's drain returns (it never runs on), merges exactly the published slots, and leaves a page
  on which they are free again, none is remote and nobody lost a slot.\<close>

theorem remote_free_then_drain:
  assumes rel: "page_rel cfg (m, p) A" and i: "i \<in> held_slots A"
    and "e = 0 \<or> e = pg_generation p" "m (slot p i + 8) \<noteq> HZ10_FREELIST_LOCAL_MARKER"
  shows "\<exists>v1 m2 p2 A2. hz10_page_remote_free token (slot p i) e (m, p) = (True, v1) \<and>
     hz10_page_drain_remote v1 = Some (of_nat (Suc (length (remote_slots A))), m2, p2) \<and>
     page_rel cfg (m2, p2) A2 \<and> held_slots A2 = held_slots A - {i} \<and> remote_slots A2 = [] \<and>
     ap_claimed A2 = ap_claimed A \<and> set (ap_free A2) = insert i (set (ap_free A) \<union> set (remote_slots A))"
proof -
  note D = page_relD [OF rel]
  have i': "i < ap_frontier A" "i \<notin> set (ap_free A)" "i \<notin> set (remote_slots A)" "i \<notin> ap_claimed A"
    using i by (auto simp: held_slots_def)
  have "i < unat (pg_slot_count p)" using i'(1) D(3) by simp
  then have un: "unat (of_nat i :: u32) = i" using less_trans [OF _ unat_u32_lt] by (simp add: unat_of_nat)
  obtain p1 where c: "hz10_page_remote_free_claim (slot p i) e (m, p) = (Some (of_nat i), m, p1)"
    "page_rel cfg (m, p1) (abs_claim i A)" "slot p1 i = slot p i"
    using claim_refines [OF rel, of "of_nat i" e] assms(2-) by (auto simp: un)
  let ?s = "hz10_remote_pick_stripe token"
  let ?A1 = "abs_publish ?s i (abs_claim i A)"
  have r1: "page_rel cfg (hz10_page_remote_free_publish token (slot p i) (m, p1)) ?A1"
    using publish_refines [OF c(2), of i token] c(3) by (simp add: abs_claim_def)
  have cl: "insert i (ap_claimed A) - {i} = ap_claimed A" using i'(4) by auto
  have ms: "mset (remote_slots ?A1) = add_mset i (mset (remote_slots A))"
    using pick_stripe_lt [of token]
    by (auto simp: remote_slots_def abs_publish_def abs_claim_def numeral_eq_Suc less_Suc_eq)
  then have rs: "set (remote_slots ?A1) = insert i (set (remote_slots A))"
    and len: "length (remote_slots ?A1) = Suc (length (remote_slots A))"
    by (metis set_mset_add_mset_insert set_mset_mset, metis size_add_mset size_mset)
  obtain m1 q1 where v1: "hz10_page_remote_free_publish token (slot p i) (m, p1) = (m1, q1)" by force
  obtain m2 p2 where d: "hz10_page_drain_remote (m1, q1) = Some (of_nat (length (remote_slots ?A1)), m2, p2)"
    "page_rel cfg (m2, p2) (abs_drain ?A1)"
    using drain_refines [of cfg m1 q1 ?A1] r1 v1 by auto
  have "set (ap_free (abs_drain ?A1)) = insert i (set (ap_free A) \<union> set (remote_slots A))"
    using rs by (auto simp: abs_drain_def abs_publish_def abs_claim_def)
  moreover have "remote_slots (abs_drain ?A1) = []"
    by (simp add: remote_slots_def [of "abs_drain ?A1"]) (simp add: abs_drain_def)
  moreover have "ap_claimed (abs_drain ?A1) = ap_claimed A" "ap_frontier (abs_drain ?A1) = ap_frontier A"
    by (simp_all add: abs_drain_def abs_publish_def abs_claim_def cl)
  ultimately show ?thesis using c v1 d len
    by (intro exI [of _ "(m1, q1)"] exI [of _ m2] exI [of _ p2] exI [of _ "abs_drain ?A1"])
       (auto simp: hz10_page_remote_free_def held_slots_def)
qed

theorem remote_free_then_drain_witness:
  "\<exists>v1 v2. hz10_page_remote_free 7 65536 1 example_alloc_view = (True, v1) \<and>
     hz10_page_drain_remote v1 = Some (1, v2)"
proof -
  let ?A = "(fresh_abs default_config 4)\<lparr>ap_frontier := Suc 0\<rparr>"
  have "page_rel default_config (fst example_alloc_view, snd example_alloc_view) ?A"
    using example_alloc_view_rel by simp
  note R = remote_free_then_drain [OF this example_user_slot(1), of 1 7]
  show ?thesis using R by (auto simp: example_user_slot)
qed

text \<open>A foreign free whose block holds the marker value in its second word is lost: the claim
  takes the user's data for the owner's local-free mark and refuses the free of a slot that is in
  the user's hands.\<close>

theorem marker_collision_loses_free:
  assumes rel: "page_rel cfg (m, p) A" and i: "i \<in> held_slots A"
    and user: "m (slot p i + 8) = HZ10_FREELIST_LOCAL_MARKER"
  shows "\<exists>p'. hz10_page_remote_free token (slot p i) e (m, p) = (False, m, p') \<and>
     page_rel cfg (m, p') A \<and> i \<in> held_slots A"
proof -
  have g: "page_geom p" using page_relD(1) [OF rel] .
  have mk: "hz10_freelist_page_is_marked_local_free p (slot p i) m"
    using user g by (simp add: hz10_freelist_page_is_marked_local_free_def page_geom_def
        hz10_freelist_page_slot_marker_ptr_def word_less_nat_alt)
  then have "\<exists>p'. hz10_page_remote_free_claim (slot p i) e (m, p) = (None, m, p')"
    by (cases "hz10_page_classify_for_remote p (slot p i) e")
       (simp_all add: hz10_page_remote_free_claim_def)
  then obtain p' where c: "hz10_page_remote_free_claim (slot p i) e (m, p) = (None, m, p')" ..
  moreover have "page_rel cfg (m, p') A" using claim_rejected(2) [OF rel c] .
  ultimately show ?thesis using i by (simp add: hz10_page_remote_free_def)
qed

theorem marker_collision_loses_free_witness:
  "let (m, p) = example_alloc_view; m' = m(65536 + 8 := 0x4831304c46524545)
   in \<exists>p'. hz10_page_remote_free 7 65536 1 (m', p) = (False, m', p')"
proof -
  let ?A = "(fresh_abs default_config 4)\<lparr>ap_frontier := Suc 0\<rparr>"
  obtain m p where v: "example_alloc_view = (m, p)" by force
  have "page_rel default_config (m(65536 + 8 := 0x4831304c46524545), p) ?A \<longleftrightarrow>
      page_rel default_config (m, p) ?A"
    by (rule page_rel_mem_cong) (simp_all add: fresh_abs_def default_config_def remote_slots_def)
  then have "page_rel default_config (m(65536 + 8 := 0x4831304c46524545), p) ?A"
    using example_alloc_view_rel v by simp
  note R = marker_collision_loses_free [OF this example_user_slot(1), of 7 1]
  moreover have "pg_base p = 65536" using example_user_slot(2) unfolding v by simp
  ultimately show ?thesis unfolding v prod.case Let_def by auto
qed

end
