(* ===== verification/Hz10_Page_Pool.thy ===== *)
theory Hz10_Page_Pool
  imports Hz10_Page_Lifecycle Hz10_Remote_Stack
begin

text \<open>
  \<open>hz10_page_pool.{h,c}\<close> and \<open>hz10_pooled_page.{h,c}\<close>: a bounded cache of payload quanta. A cached
  quantum is a list node itself: its first word is the link, its second the time it was released.
  The contract of a bounded cache is the locale \<open>bounded_cache\<close>, interpreted on the pool's acquire
  and release; the aging sweep \<open>purge_idle\<close> is shown to keep exactly the blocks that are young.
\<close>

record pool_state = page_heap_state +
  hz10_pool_head :: addr
  hz10_pool_count :: u32
  hz10_pool_cap :: u32
  hz10_pool_reuse_count :: u64
  hz10_pool_release_count :: u64
  hz10_pool_purged_count :: u64

abbreviation (input) HZ10_PAGE_POOL_DEFAULT_CAP :: u32 where "HZ10_PAGE_POOL_DEFAULT_CAP \<equiv> 64"

section \<open>Operations\<close>

definition hz10_page_pool_try_acquire ::
  "'a pool_state_scheme \<Rightarrow> addr \<times> 'a pool_state_scheme" where
  "hz10_page_pool_try_acquire st =
    (let node = hz10_pool_head st in
     if node = 0 then (0, st)
     else (node, st\<lparr>hz10_pool_head := mem st node, hz10_pool_count := hz10_pool_count st - 1,
                    hz10_pool_reuse_count := hz10_pool_reuse_count st + 1\<rparr>))"

definition hz10_page_pool_release ::
  "addr \<Rightarrow> 'a pool_state_scheme \<Rightarrow> bool \<times> 'a pool_state_scheme" where
  "hz10_page_pool_release base st =
    (if base = 0 then (False, st)
     else if hz10_pool_count st < hz10_pool_cap st then
       (let st1 = st\<lparr>mem := (mem st)(base := hz10_pool_head st)\<rparr>;
            (now, st2) = hz10_platform_now_ns st1
        in (True, st2\<lparr>mem := (mem st2)(base + 8 := now), hz10_pool_head := base,
                      hz10_pool_count := hz10_pool_count st2 + 1\<rparr>))
     else (False, hz10_platform_release base HZ10_PAGE_QUANTUM
                    (st\<lparr>hz10_pool_release_count := hz10_pool_release_count st + 1\<rparr>)))"

text \<open>The sweep under the lock: \<open>(new_head, purged_head, count, memory)\<close>.\<close>

partial_function (option) purge_walk ::
  "u64 \<Rightarrow> u64 \<Rightarrow> addr \<Rightarrow> addr \<Rightarrow> addr \<Rightarrow> addr \<Rightarrow> u32 \<Rightarrow> memory \<Rightarrow> (addr \<times> addr \<times> u32 \<times> memory) option" where
  "purge_walk now max_idle_ns node prev new_head purged_head cnt m =
    (if node = 0 then Some (new_head, purged_head, cnt, m)
     else
       let next = m node; idle_ns = now - m (node + 8) in
       if idle_ns \<ge> max_idle_ns then
         let m1 = (if prev \<noteq> 0 then m(prev := next) else m);
             new_head1 = (if prev \<noteq> 0 then new_head else next);
             m2 = m1(node := purged_head)
         in purge_walk now max_idle_ns next prev new_head1 node (cnt - 1) m2
       else purge_walk now max_idle_ns next node new_head purged_head cnt m)"

partial_function (option) purge_release_loop ::
  "addr \<Rightarrow> u32 \<Rightarrow> 'a pool_state_scheme \<Rightarrow> (u32 \<times> 'a pool_state_scheme) option" where
  "purge_release_loop purged_head purged st =
    (if purged_head = 0 then Some (purged, st)
     else
       let next = mem st purged_head in
       purge_release_loop next (purged + 1) (hz10_platform_release purged_head HZ10_PAGE_QUANTUM st))"

definition hz10_page_pool_purge_idle ::
  "u64 \<Rightarrow> 'a pool_state_scheme \<Rightarrow> (u32 \<times> 'a pool_state_scheme) option" where
  "hz10_page_pool_purge_idle max_idle_ns st =
    do {
      let (now, st1) = hz10_platform_now_ns st;
      (new_head, purged_head, cnt, m) \<leftarrow>
        purge_walk now max_idle_ns (hz10_pool_head st1) 0 (hz10_pool_head st1) 0
          (hz10_pool_count st1) (mem st1);
      let st2 = st1\<lparr>mem := m, hz10_pool_count := cnt\<rparr>;
      let st3 = (if purged_head \<noteq> 0 then st2\<lparr>hz10_pool_head := new_head\<rparr> else st2);
      (purged, st4) \<leftarrow> purge_release_loop purged_head 0 st3;
      Some (purged, if purged > 0
                    then st4\<lparr>hz10_pool_purged_count := hz10_pool_purged_count st4 + ucast purged\<rparr>
                    else st4)
    }"

definition hz10_page_pool_set_cap ::
  "u32 \<Rightarrow> 'a pool_state_scheme \<Rightarrow> u32 \<times> 'a pool_state_scheme" where
  "hz10_page_pool_set_cap cap st = (hz10_pool_cap st, st\<lparr>hz10_pool_cap := cap\<rparr>)"

definition hz10_page_pool_cached_count :: "'a pool_state_scheme \<Rightarrow> u32" where
  "hz10_page_pool_cached_count st = (let n = hz10_pool_count st in n)"

definition hz10_page_pool_reuse_count :: "'a pool_state_scheme \<Rightarrow> u64" where
  "hz10_page_pool_reuse_count st = (let n = hz10_pool_reuse_count st in n)"

definition hz10_page_pool_release_count :: "'a pool_state_scheme \<Rightarrow> u64" where
  "hz10_page_pool_release_count st = (let n = hz10_pool_release_count st in n)"

definition hz10_page_pool_purged_count :: "'a pool_state_scheme \<Rightarrow> u64" where
  "hz10_page_pool_purged_count st = (let n = hz10_pool_purged_count st in n)"

partial_function (option) pool_reset_loop ::
  "addr \<Rightarrow> 'a pool_state_scheme \<Rightarrow> 'a pool_state_scheme option" where
  "pool_reset_loop node st =
    (if node = 0 then Some st
     else let next = mem st node in
       pool_reset_loop next (hz10_platform_release node HZ10_PAGE_QUANTUM st))"

definition hz10_page_pool_reset_for_tests ::
  "'a pool_state_scheme \<Rightarrow> 'a pool_state_scheme option" where
  "hz10_page_pool_reset_for_tests st =
    pool_reset_loop (hz10_pool_head st)
      (st\<lparr>hz10_pool_head := 0, hz10_pool_count := 0, hz10_pool_cap := HZ10_PAGE_POOL_DEFAULT_CAP,
          hz10_pool_reuse_count := 0, hz10_pool_release_count := 0, hz10_pool_purged_count := 0\<rparr>)"

text \<open>\<open>hz10_pooled_page.c\<close>.\<close>

definition hz10_pooled_page_create ::
  "hz10_config \<Rightarrow> u32 \<Rightarrow> u32 \<Rightarrow> 'a pool_state_scheme \<Rightarrow> addr \<times> 'a pool_state_scheme" where
  "hz10_pooled_page_create cfg slot_size slot_count st =
    (let (base, st1) = hz10_page_pool_try_acquire st;
         (page, st2) = hz10_freelist_page_create_with_base cfg base slot_size slot_count st1
     in (page, if page = 0 \<and> base \<noteq> 0 then snd (hz10_page_pool_release base st2) else st2))"

definition hz10_pooled_page_create_with_owner ::
  "hz10_config \<Rightarrow> u32 \<Rightarrow> u32 \<Rightarrow> 'a pool_state_scheme \<Rightarrow> addr \<times> 'a pool_state_scheme" where
  "hz10_pooled_page_create_with_owner cfg slot_size slot_count st =
    (let (base, st1) = hz10_page_pool_try_acquire st;
         (page, st2) = hz10_freelist_page_create_with_base_and_owner cfg base slot_size slot_count st1
     in (page, if page = 0 \<and> base \<noteq> 0 then snd (hz10_page_pool_release base st2) else st2))"

definition hz10_pooled_page_destroy ::
  "addr \<Rightarrow> 'a pool_state_scheme \<Rightarrow> 'a pool_state_scheme" where
  "hz10_pooled_page_destroy page st =
    (let (base, st1) = hz10_freelist_page_destroy_reclaim_base page st in
     if base \<noteq> 0 then snd (hz10_page_pool_release base st1) else st1)"

text \<open>\<open>hz10_page_drain_remote\<close> on a page of the heap.\<close>

definition drain_page :: "addr \<Rightarrow> 'a page_heap_state_scheme \<Rightarrow> (u32 \<times> 'a page_heap_state_scheme) option" where
  "drain_page pg st =
    do {
      (merged, m, p) \<leftarrow> hz10_page_drain_remote (mem st, pages st pg);
      Some (merged, set_page pg p (st\<lparr>mem := m\<rparr>))
    }"

text \<open>\<open>hz10_freelist_page_alloc\<close> and \<open>hz10_freelist_page_free\<close> on a page of the heap.\<close>

definition page_alloc :: "hz10_config \<Rightarrow> addr \<Rightarrow> 'a page_heap_state_scheme \<Rightarrow>
    addr \<times> 'a page_heap_state_scheme" where
  "page_alloc cfg pg st =
    (case hz10_freelist_page_alloc cfg (mem st, pages st pg) of
       (ptr, m, p) \<Rightarrow> (ptr, set_page pg p (st\<lparr>mem := m\<rparr>)))"

definition page_free :: "addr \<Rightarrow> addr \<Rightarrow> 'a page_heap_state_scheme \<Rightarrow> 'a page_heap_state_scheme" where
  "page_free pg ptr st =
    (case hz10_freelist_page_free ptr (mem st, pages st pg) of
       (m, p) \<Rightarrow> set_page pg p (st\<lparr>mem := m\<rparr>))"

section \<open>Bounded caches\<close>

datatype 'b cache_op = Get | Put 'b

locale bounded_cache =
  fixes rep :: "'s \<Rightarrow> 'b list \<Rightarrow> bool"
    and block :: "'b \<Rightarrow> bool"
    and cap :: "'s \<Rightarrow> nat"
    and get :: "'s \<Rightarrow> 'b option \<times> 's"
    and put :: "'b \<Rightarrow> 's \<Rightarrow> bool \<times> 's"
  assumes rep_blocks: "rep s xs \<Longrightarrow> x \<in> set xs \<Longrightarrow> block x"
    and rep_distinct: "rep s xs \<Longrightarrow> distinct xs"
    and get_empty: "rep s [] \<Longrightarrow> fst (get s) = None \<and> rep (snd (get s)) []"
    and get_cons: "rep s (x # xs) \<Longrightarrow> fst (get s) = Some x \<and> rep (snd (get s)) xs"
    and get_cap: "cap (snd (get s)) = cap s"
    and put_under: "rep s xs \<Longrightarrow> block x \<Longrightarrow> x \<notin> set xs \<Longrightarrow> length xs < cap s \<Longrightarrow>
      fst (put x s) \<and> rep (snd (put x s)) (x # xs)"
    and put_full: "rep s xs \<Longrightarrow> block x \<Longrightarrow> x \<notin> set xs \<Longrightarrow> \<not> length xs < cap s \<Longrightarrow>
      \<not> fst (put x s) \<and> rep (snd (put x s)) xs"
    and put_cap: "cap (snd (put x s)) = cap s"
begin

text \<open>A client owns blocks; it may put one it owns and owns what it gets.\<close>

fun run :: "'b cache_op list \<Rightarrow> 's \<times> 'b set \<Rightarrow> 's \<times> 'b set" where
  "run [] (s, own) = (s, own)"
| "run (Get # ops) (s, own) = (case get s of
     (None, s') \<Rightarrow> run ops (s', own) | (Some x, s') \<Rightarrow> run ops (s', insert x own))"
| "run (Put x # ops) (s, own) =
     (if x \<in> own then run ops (snd (put x s), own - {x}) else run ops (s, own))"

lemma run_invariant:
  assumes "rep s xs" "length xs \<le> cap s" "set xs \<inter> own = {}" "\<forall>x\<in>own. block x"
  shows "case run ops (s, own) of (s', own') \<Rightarrow> \<exists>ys. rep s' ys \<and> length ys \<le> cap s' \<and> cap s' = cap s \<and>
     set ys \<inter> own' = {} \<and> set ys \<union> own' \<subseteq> set xs \<union> own \<and> (\<forall>x\<in>own'. block x)"
  using assms
proof (induction ops arbitrary: s xs own)
  case Nil
  then show ?case by auto
next
  case (Cons op ops)
  show ?case
  proof (cases op)
    case Get
    show ?thesis
    proof (cases xs)
      case Nil
      obtain s' where g: "get s = (None, s')" "rep s' []" using get_empty [of s] Cons.prems(1) Nil
        by (cases "get s") auto
      then have "cap s' = cap s" using get_cap [of s] by simp
      then show ?thesis using Cons.IH [OF g(2)] Cons.prems Get g(1) Nil by fastforce
    next
      case (Cons x ys)
      obtain s' where g: "get s = (Some x, s')" "rep s' ys"
        using get_cons [of s x ys] Cons.prems(1) Cons by (cases "get s") auto
      have c: "cap s' = cap s" using get_cap [of s] g by simp
      have d: "x \<notin> set ys" "block x"
        using rep_distinct [OF Cons.prems(1)] rep_blocks [OF Cons.prems(1)] Cons by auto
      have "set ys \<inter> insert x own = {}" "length ys \<le> cap s'" "\<forall>x\<in>insert x own. block x"
        using Cons.prems Cons c d by auto
      from Cons.IH [OF g(2) this(2,1,3)] show ?thesis using Get g(1) Cons c by fastforce
    qed
  next
    case (Put x)
    show ?thesis
    proof (cases "x \<in> own")
      case False
      then show ?thesis using Cons.IH [OF Cons.prems] Put by simp
    next
      case True
      then have bx: "block x" "x \<notin> set xs" using Cons.prems by auto
      have c: "cap (snd (put x s)) = cap s" by (rule put_cap)
      show ?thesis
      proof (cases "length xs < cap s")
        case lt: True
        then have r: "rep (snd (put x s)) (x # xs)" using put_under [OF Cons.prems(1) bx] by simp
        have "length (x # xs) \<le> cap (snd (put x s))" "set (x # xs) \<inter> (own - {x}) = {}" "\<forall>y\<in>own - {x}. block y"
          using lt c Cons.prems by auto
        from Cons.IH [OF r this] show ?thesis using Put True c by fastforce
      next
        case nlt: False
        then have r: "rep (snd (put x s)) xs" using put_full [OF Cons.prems(1) bx] by simp
        have "length xs \<le> cap (snd (put x s))" "set xs \<inter> (own - {x}) = {}" "\<forall>y\<in>own - {x}. block y"
          using c Cons.prems by auto
        from Cons.IH [OF r this] show ?thesis using Put True c by fastforce
      qed
    qed
  qed
qed

end

section \<open>The pool as a bounded cache\<close>

definition pool_rep :: "'a pool_state_scheme \<Rightarrow> addr list \<Rightarrow> bool" where
  "pool_rep st xs \<longleftrightarrow> chain (mem st) (hz10_pool_head st) xs \<and>
     unat (hz10_pool_count st) = length xs \<and> (\<forall>x\<in>set xs. unat x mod 65536 = 0)"

definition pool_get :: "'a pool_state_scheme \<Rightarrow> addr option \<times> 'a pool_state_scheme" where
  "pool_get st = (case hz10_page_pool_try_acquire st of (b, st') \<Rightarrow> (if b = 0 then None else Some b, st'))"

lemma now_ns_form:
  obtains t cl where "hz10_platform_now_ns st = (t, st\<lparr>os_clock := cl\<rparr>)"
proof (cases "os_clock st")
  case Nil
  then show ?thesis by (intro that [of 0 "[]"]) (simp add: hz10_platform_now_ns_def)
next
  case (Cons t cl)
  then show ?thesis by (intro that [of t cl]) (simp add: hz10_platform_now_ns_def)
qed

lemma quantum_plus_8_neq:
  assumes "unat (a :: addr) mod 65536 = 0" "unat b mod 65536 = 0"
  shows "a + 8 \<noteq> b"
proof
  assume "a + 8 = b"
  moreover have "unat (a + 8) = unat a + 8"
    by (subst unat_add_no_wrap) (use quantum_aligned_bound [OF assms(1)] in simp_all)
  ultimately have "(unat a + 8) mod 65536 = 0" using assms(2) by simp
  then show False using assms(1) mod_add_left_eq [of "unat a" 65536 8] by simp
qed

interpretation page_pool: bounded_cache pool_rep "\<lambda>x. x \<noteq> 0 \<and> unat x mod 65536 = 0"
  "\<lambda>st. unat (hz10_pool_cap st)" pool_get hz10_page_pool_release
proof (unfold_locales, goal_cases)
  case (1 s xs x)
  then show ?case using chain_not_null by (auto simp: pool_rep_def)
next
  case (2 s xs)
  then show ?case using chain_distinct by (auto simp: pool_rep_def)
next
  case (3 s)
  then show ?case by (simp add: pool_rep_def pool_get_def hz10_page_pool_try_acquire_def)
next
  case (4 s x xs)
  then show ?case
    by (auto simp: pool_rep_def pool_get_def hz10_page_pool_try_acquire_def Let_def unat_dec_Suc)
next
  case (5 s)
  then show ?case by (simp add: pool_get_def hz10_page_pool_try_acquire_def Let_def)
next
  case (6 s xs x)
  obtain t cl where t: "hz10_platform_now_ns (s\<lparr>mem := (mem s)(x := hz10_pool_head s)\<rparr>)
      = (t, s\<lparr>mem := (mem s)(x := hz10_pool_head s)\<rparr>\<lparr>os_clock := cl\<rparr>)" by (rule now_ns_form)
  have lt: "hz10_pool_count s < hz10_pool_cap s" using 6 by (simp add: pool_rep_def word_less_nat_alt)
  have sz: "unat (hz10_pool_count s + 1) = Suc (length xs)"
    using 6 lt unat_suc_u32 [of "hz10_pool_count s" "hz10_pool_cap s"]
    by (simp add: pool_rep_def word_less_nat_alt)
  have "chain ((mem s)(x := hz10_pool_head s, x + 8 := t)) (hz10_pool_head s) xs"
    using 6 quantum_plus_8_neq [of x] by (subst chain_upd, force simp: pool_rep_def)+ (simp add: pool_rep_def)
  moreover have "((mem s)(x := hz10_pool_head s, x + 8 := t)) x = hz10_pool_head s"
    using quantum_plus_8_neq [of x x] 6 by simp
  ultimately show ?case using 6 lt t sz
    by (simp add: hz10_page_pool_release_def pool_rep_def Let_def)
next
  case (7 s xs x)
  then have "\<not> hz10_pool_count s < hz10_pool_cap s" by (simp add: pool_rep_def word_less_nat_alt)
  then show ?case using 7
    by (simp add: hz10_page_pool_release_def pool_rep_def hz10_platform_release_def)
next
  case (8 x s)
  obtain t cl where t: "hz10_platform_now_ns (s\<lparr>mem := (mem s)(x := hz10_pool_head s)\<rparr>)
      = (t, s\<lparr>mem := (mem s)(x := hz10_pool_head s)\<rparr>\<lparr>os_clock := cl\<rparr>)" by (rule now_ns_form)
  then show ?case by (simp add: hz10_page_pool_release_def hz10_platform_release_def Let_def)
qed


text \<open>Unlinking the node after a kept prefix.\<close>

lemma chain_skip:
  "chain m h (ks @ [k] @ x # ys) \<Longrightarrow> chain (m(k := m x)) h (ks @ [k] @ ys)"
proof (induction ks arbitrary: h)
  case Nil
  then have "k \<notin> set ys" "h = k" "k \<noteq> 0" "m k = x" "chain m (m x) ys"
    using chain_distinct [OF Nil] by auto
  then have "chain (m(k := m x)) (m x) ys" by (cases ys) (auto simp: chain_upd)
  then show ?case using \<open>h = k\<close> \<open>k \<noteq> 0\<close> by (simp only: append.simps chain.simps fun_upd_same simp_thms)
next
  case (Cons a ks)
  then have "a \<noteq> k" using chain_distinct [OF Cons.prems] by auto
  then show ?case using Cons by auto
qed

lemma chain_suffix_head: "chain m h (ks @ [k] @ ys) \<Longrightarrow> chain m (m k) ys"
  by (induction ks arbitrary: h) auto

definition old_block :: "u64 \<Rightarrow> u64 \<Rightarrow> memory \<Rightarrow> addr \<Rightarrow> bool" where
  "old_block now max_idle m x \<longleftrightarrow> now - m (x + 8) \<ge> max_idle"

lemma old_block_eq: "old_block now max_idle m = (\<lambda>x. max_idle \<le> now - m (x + 8))"
  by (simp add: old_block_def fun_eq_iff)

text \<open>What the sweep has done when it stands at \<open>todo\<close>: \<open>kept\<close> is still linked in front of it,
  \<open>gone\<close> hangs off the purge list.\<close>

definition purge_rel :: "addr \<Rightarrow> addr \<Rightarrow> addr \<Rightarrow> addr \<Rightarrow> memory \<Rightarrow> addr list \<Rightarrow> addr list \<Rightarrow> addr list \<Rightarrow> bool" where
  "purge_rel node prev new_head purged_head m kept todo gone \<longleftrightarrow>
     chain m new_head (kept @ todo) \<and> chain m node todo \<and> chain m purged_head gone \<and>
     prev = (if kept = [] then 0 else last kept) \<and> (kept = [] \<longrightarrow> new_head = node) \<and>
     set gone \<inter> set (kept @ todo) = {} \<and> (\<forall>x\<in>set (kept @ todo @ gone). unat x mod 65536 = 0)"

lemma purge_rel_old:
  assumes "purge_rel node prev new_head purged_head m kept (node # todo) gone"
  shows "purge_rel (m node) prev (if prev \<noteq> 0 then new_head else m node) node
           ((if prev \<noteq> 0 then m(prev := m node) else m)(node := purged_head)) kept todo (node # gone)"
proof (cases "kept = []")
  case True
  then show ?thesis using assms chain_hd_notin_tl [of m node node todo]
    by (auto simp: purge_rel_def)
next
  case False
  then obtain ks k where k: "kept = ks @ [k]" by (metis rev_exhaust)
  have prev: "prev = k" "k \<noteq> 0"
    using assms chain_not_null [of m new_head "kept @ node # todo"] by (auto simp: purge_rel_def k)
  have d: "distinct (kept @ node # todo)"
    by (rule chain_distinct [of m new_head]) (use assms in \<open>simp add: purge_rel_def\<close>)
  have "chain (m(k := m node)) new_head (ks @ [k] @ todo)"
    by (rule chain_skip) (use assms k in \<open>simp add: purge_rel_def\<close>)
  moreover have "node \<noteq> 0" "k \<noteq> node" "k \<notin> set todo" "k \<notin> set gone" "node \<notin> set todo" "node \<notin> set gone"
    "node \<notin> set ks" using assms d by (auto simp: purge_rel_def k)
  ultimately show ?thesis using assms by (auto simp: purge_rel_def k prev)
qed

lemma purge_rel_young:
  assumes "purge_rel node prev new_head purged_head m kept (node # todo) gone"
  shows "purge_rel (m node) node new_head purged_head m (kept @ [node]) todo gone"
  using assms by (auto simp: purge_rel_def)

lemma purge_walk_correct:
  assumes "purge_rel node prev new_head purged_head m kept todo gone"
    and "unat cnt = length (kept @ todo)"
  shows "\<exists>new_head' purged_head' cnt' m'.
    purge_walk now max_idle node prev new_head purged_head cnt m = Some (new_head', purged_head', cnt', m') \<and>
    chain m' new_head' (kept @ filter (\<lambda>x. \<not> old_block now max_idle m x) todo) \<and>
    chain m' purged_head' (rev (filter (old_block now max_idle m) todo) @ gone) \<and>
    unat cnt' = length (kept @ filter (\<lambda>x. \<not> old_block now max_idle m x) todo) \<and>
    (filter (old_block now max_idle m) todo = [] \<longrightarrow> new_head' = new_head)"
  using assms
proof (induction todo arbitrary: node prev new_head purged_head m kept gone cnt)
  case Nil
  then show ?case by (subst purge_walk.simps) (simp add: purge_rel_def)
next
  case (Cons x todo)
  have node: "node = x" "x \<noteq> 0" using Cons.prems(1) by (auto simp: purge_rel_def)
  note r = Cons.prems(1) [unfolded node(1)]
  show ?case
  proof (cases "old_block now max_idle m x")
    case True
    let ?m = "(if prev \<noteq> 0 then m(prev := m x) else m)(x := purged_head)"
    have al: "unat y mod 65536 = 0" if "y \<in> set (kept @ x # todo)" for y
      using r that by (auto simp: purge_rel_def)
    have prev: "prev \<noteq> 0 \<Longrightarrow> prev \<in> set kept" using r by (auto simp: purge_rel_def split: if_splits)
    have same: "old_block now max_idle ?m y = old_block now max_idle m y" if "y \<in> set todo" for y
    proof -
      have "y + 8 \<noteq> x" "prev \<noteq> 0 \<Longrightarrow> y + 8 \<noteq> prev"
        using al that prev quantum_plus_8_neq by auto
      then show ?thesis by (simp add: old_block_def)
    qed
    then have flt: "filter (old_block now max_idle ?m) todo = filter (old_block now max_idle m) todo"
      "filter (\<lambda>x. \<not> old_block now max_idle ?m x) todo = filter (\<lambda>x. \<not> old_block now max_idle m x) todo"
      by (auto intro: filter_cong)
    have "unat (cnt - 1) = length (kept @ todo)" using Cons.prems(2) by (auto intro: unat_dec_Suc)
    note ih = Cons.IH [OF purge_rel_old [OF r] this, unfolded flt]
    have "purge_walk now max_idle node prev new_head purged_head cnt m =
      purge_walk now max_idle (m x) prev (if prev \<noteq> 0 then new_head else m x) x (cnt - 1) ?m"
      using True node by (subst purge_walk.simps) (simp add: old_block_def Let_def)
    then show ?thesis using ih True
      by (simp only: filter.simps if_True rev.simps append_assoc append.simps simp_thms if_False list.simps) blast
  next
    case False
    have "unat cnt = length ((kept @ [x]) @ todo)" using Cons.prems(2) by simp
    note ih = Cons.IH [OF purge_rel_young [OF r] this]
    have "purge_walk now max_idle node prev new_head purged_head cnt m =
      purge_walk now max_idle (m x) x new_head purged_head cnt m"
      using False node by (subst purge_walk.simps) (simp add: old_block_def Let_def)
    then show ?thesis using ih False by simp
  qed
qed

lemma purge_release_loop_correct:
  "chain (mem st) h xs \<Longrightarrow> unat k + length xs < 4294967296 \<Longrightarrow>
     purge_release_loop h k st = Some (k + of_nat (length xs),
       st\<lparr>os_trace := rev (map (\<lambda>x. Unmapped x 65536) xs) @ os_trace st\<rparr>)"
proof (induction xs arbitrary: h k st)
  case Nil
  then show ?case by (subst purge_release_loop.simps) simp
next
  case (Cons x xs)
  have x: "h = x" "x \<noteq> 0" "chain (mem st) (mem st x) xs" using Cons.prems(1) by auto
  have "purge_release_loop h k st =
    purge_release_loop (mem st x) (k + 1) (st\<lparr>os_trace := Unmapped x 65536 # os_trace st\<rparr>)"
    using x by (subst purge_release_loop.simps) (simp add: hz10_platform_release_def Let_def)
  also have "\<dots> = Some (k + 1 + of_nat (length xs), st\<lparr>os_trace := Unmapped x 65536 # os_trace st\<rparr>
      \<lparr>os_trace := rev (map (\<lambda>x. Unmapped x 65536) xs) @ Unmapped x 65536 # os_trace st\<rparr>)"
    using Cons.IH [of "st\<lparr>os_trace := Unmapped x 65536 # os_trace st\<rparr>" "mem st x" "k + 1"] x Cons.prems(2)
    by (simp add: unat_add_no_wrap)
  finally show ?case by (simp add: ac_simps)
qed


lemma purge_idle_correct:
  assumes rep: "pool_rep st xs"
  defines "now \<equiv> fst (hz10_platform_now_ns st)"
  shows "\<exists>n st'. hz10_page_pool_purge_idle max_idle st = Some (n, st') \<and>
    pool_rep st' (filter (\<lambda>x. \<not> old_block now max_idle (mem st) x) xs) \<and>
    n = of_nat (length (filter (old_block now max_idle (mem st)) xs)) \<and>
    os_trace st' = map (\<lambda>x. Unmapped x 65536) (filter (old_block now max_idle (mem st)) xs) @ os_trace st \<and>
    hz10_pool_purged_count st' = hz10_pool_purged_count st + ucast n"
proof -
  obtain cl where t: "hz10_platform_now_ns st = (now, st\<lparr>os_clock := cl\<rparr>)"
    using now_ns_form [of st] unfolding now_def by (metis fst_conv)
  let ?old = "filter (old_block now max_idle (mem st)) xs"
  let ?young = "filter (\<lambda>x. \<not> old_block now max_idle (mem st) x) xs"
  have "purge_rel (hz10_pool_head st) 0 (hz10_pool_head st) 0 (mem st) [] xs []"
    using rep by (simp add: purge_rel_def pool_rep_def)
  from purge_walk_correct [OF this, of "hz10_pool_count st" now max_idle] rep
  obtain h ph c m where w: "purge_walk now max_idle (hz10_pool_head st) 0 (hz10_pool_head st) 0
        (hz10_pool_count st) (mem st) = Some (h, ph, c, m)"
    and h: "chain m h ?young" and ph: "chain m ph (rev ?old)" and c: "unat c = length ?young"
    and same: "?old = [] \<Longrightarrow> h = hz10_pool_head st"
    by (auto simp: pool_rep_def)
  let ?st3 = "st\<lparr>os_clock := cl, mem := m, hz10_pool_count := c, hz10_pool_head := h\<rparr>"
  have b: "length ?old \<le> length xs" by simp
  have "length xs < 4294967296" using rep unat_u32_lt [of "hz10_pool_count st"] by (simp add: pool_rep_def)
  then have lt: "length ?old < 4294967296" using b by linarith
  have l: "purge_release_loop ph 0 ?st3 = Some (of_nat (length ?old),
      ?st3\<lparr>os_trace := map (\<lambda>x. Unmapped x 65536) ?old @ os_trace st\<rparr>)"
    using purge_release_loop_correct [of ?st3 ph "rev ?old" 0] ph lt by (simp add: rev_map)
  have st3: "(if ph \<noteq> 0 then st\<lparr>os_clock := cl, mem := m, hz10_pool_count := c\<rparr>\<lparr>hz10_pool_head := h\<rparr>
      else st\<lparr>os_clock := cl, mem := m, hz10_pool_count := c\<rparr>) = ?st3"
    using ph same by (cases "?old = []") (auto simp: chain_Nil_iff)
  let ?n = "of_nat (length ?old) :: u32"
  have n: "?n > 0 \<longleftrightarrow> ?old \<noteq> []"
  proof -
    have "unat ?n = length ?old" using lt by (simp add: unat_of_nat take_bit_nat_eq_self_iff)
    then show ?thesis by (auto simp: word_gt_0 unat_eq_zero [symmetric])
  qed
  let ?st4 = "?st3\<lparr>os_trace := map (\<lambda>x. Unmapped x 65536) ?old @ os_trace st\<rparr>"
  let ?st' = "if ?n > 0 then ?st4\<lparr>hz10_pool_purged_count := hz10_pool_purged_count st + ucast ?n\<rparr> else ?st4"
  have "hz10_page_pool_purge_idle max_idle st = Some (?n, ?st')"
    using w l st3 by (simp add: hz10_page_pool_purge_idle_def t Let_def)
  moreover have "pool_rep ?st' ?young" using h c rep by (simp add: pool_rep_def)
  moreover have "hz10_pool_purged_count ?st' = hz10_pool_purged_count st + ucast ?n"
    using n by auto
  moreover have "os_trace ?st' = map (\<lambda>x. Unmapped x 65536) ?old @ os_trace st" by simp
  ultimately show ?thesis by blast
qed

section \<open>Properties\<close>

definition example_pool :: pool_state where
  "example_pool = \<lparr>mem = (\<lambda>a. if a = 0x30000 then 0x20000 else if a = 0x30008 then 900
       else if a = 0x20008 then 100 else 0),
     os_maps = [], os_clock = [1000], os_trace = [], hz10_pagemap_root = (\<lambda>_. None),
     pages = (\<lambda>_. zero_page), meta_next = (\<lambda>_. 0), hz10_metadata_free_list = 0,
     hz10_metadata_slab_count = 0, hz10_metadata_node_capacity = 0,
     hz10_quantum_region_cursor = 0, hz10_quantum_region_end = 0,
     hz10_pool_head = 0x30000, hz10_pool_count = 2, hz10_pool_cap = 2,
     hz10_pool_reuse_count = 0, hz10_pool_release_count = 0, hz10_pool_purged_count = 0\<rparr>"

lemma example_pool_rep: "pool_rep example_pool [0x30000, 0x20000]"
  by (simp add: pool_rep_def example_pool_def)

text \<open>Whatever sequence of acquires and releases the clients of the page pool make, releasing
  only blocks they own, the pool never holds more than its cap, and a block is never in the pool
  and with a client at once: no quantum is handed out twice.\<close>

theorem page_pool_exclusive:
  assumes "pool_rep st xs" "length xs \<le> unat (hz10_pool_cap st)" "set xs \<inter> own = {}"
    and "\<forall>x\<in>own. x \<noteq> 0 \<and> unat x mod 65536 = 0"
  shows "case page_pool.run ops (st, own) of (st', own') \<Rightarrow>
    \<exists>ys. pool_rep st' ys \<and> length ys \<le> unat (hz10_pool_cap st') \<and> set ys \<inter> own' = {} \<and>
      set ys \<union> own' \<subseteq> set xs \<union> own"
  using page_pool.run_invariant [OF assms, of ops] by auto

theorem page_pool_exclusive_witness:
  "case page_pool.run [Put 0x40000, Get, Get, Put 0x50000] (example_pool, {0x40000, 0x50000}) of (st', own') \<Rightarrow>
    \<exists>ys. pool_rep st' ys \<and> length ys \<le> unat (hz10_pool_cap st') \<and> set ys \<inter> own' = {} \<and>
      set ys \<union> own' \<subseteq> set [0x30000, 0x20000] \<union> {0x40000, 0x50000}"
  by (rule page_pool_exclusive [OF example_pool_rep]) (simp_all add: example_pool_def)

text \<open>The aging sweep of the pool always returns, unmaps exactly the blocks whose age has
  reached the limit, keeps the others linked in their order, and counts what it removed.\<close>

theorem purge_idle_exact:
  assumes "pool_rep st xs" "hz10_platform_now_ns st = (now, st1)"
  shows "\<exists>n st'. hz10_page_pool_purge_idle max_idle st = Some (n, st') \<and>
    pool_rep st' (filter (\<lambda>x. now - mem st (x + 8) < max_idle) xs) \<and>
    n = of_nat (length (filter (\<lambda>x. now - mem st (x + 8) \<ge> max_idle) xs)) \<and>
    os_trace st' = map (\<lambda>x. Unmapped x 65536)
      (filter (\<lambda>x. now - mem st (x + 8) \<ge> max_idle) xs) @ os_trace st \<and>
    hz10_pool_purged_count st' = hz10_pool_purged_count st + ucast n"
  using purge_idle_correct [OF assms(1), of max_idle] assms(2) by (simp add: old_block_eq not_le)

theorem purge_idle_exact_witness:
  "\<exists>n st'. hz10_page_pool_purge_idle 500 example_pool = Some (n, st') \<and>
    pool_rep st' [0x30000] \<and> n = 1 \<and> os_trace st' = [Unmapped 0x20000 65536] \<and>
    hz10_pool_purged_count st' = 1"
  using purge_idle_exact [OF example_pool_rep, of 1000 "example_pool\<lparr>os_clock := []\<rparr>" 500]
  by (simp add: hz10_platform_now_ns_def example_pool_def)

end
