(* ===== verification/Hz10_Retired_Ready.thy ===== *)
theory Hz10_Retired_Ready
  imports Hz10_Page_Pool
begin

text \<open>
  \<open>hz10_retired_ready.{h,c}\<close>: the event-driven ready stack of a class. A page that is evicted with
  slots outstanding is marked; the remote free that brings the count of outstanding slots to zero
  pushes the page, the owner pops it. A stack is found by its address, the address
  \<open>&list->ready\<close> inside the list of its class. Every operation is a step here; the
  compare-and-swap loops of push and pop then succeed at once.
\<close>

record Hz10RetiredReadyStack =
  rs_head :: addr
  rs_push_count :: u64

record ready_state = pool_state +
  ready_stacks :: "addr \<Rightarrow> Hz10RetiredReadyStack"

definition set_stack :: "addr \<Rightarrow> Hz10RetiredReadyStack \<Rightarrow> 'a ready_state_scheme \<Rightarrow> 'a ready_state_scheme" where
  "set_stack s v st = st\<lparr>ready_stacks := (ready_stacks st)(s := v)\<rparr>"

section \<open>Operations\<close>

definition hz10_retired_ready_mark ::
  "addr \<Rightarrow> addr \<Rightarrow> u32 \<Rightarrow> 'a ready_state_scheme \<Rightarrow> 'a ready_state_scheme" where
  "hz10_retired_ready_mark page stack outstanding st =
    (let p = pages st page in
     set_page page (p\<lparr>pg_retired_ready_stack := stack, pg_retired_ready_generation := pg_generation p,
       pg_retired_ready_outstanding := outstanding, pg_retired_ready_flag := 1\<rparr>) st)"

text \<open>The compare-and-swap of the flag from 1 to 0, shared by the pusher and by cancel.\<close>

definition hz10_retired_ready_cancel :: "addr \<Rightarrow> 'a ready_state_scheme \<Rightarrow> bool \<times> 'a ready_state_scheme" where
  "hz10_retired_ready_cancel page st =
    (let p = pages st page in
     if pg_retired_ready_flag p = 1
     then (True, set_page page (p\<lparr>pg_retired_ready_flag := 0\<rparr>) st)
     else (False, st))"

definition hz10_retired_ready_note_remote_free :: "addr \<Rightarrow> 'a ready_state_scheme \<Rightarrow> 'a ready_state_scheme" where
  "hz10_retired_ready_note_remote_free page st =
    (let p = pages st page in
     if pg_retired_ready_flag p = 0 then st
     else
       let prev = pg_retired_ready_outstanding p;
           p1 = p\<lparr>pg_retired_ready_outstanding := prev - 1\<rparr> in
       if prev \<noteq> 1 then set_page page p1 st
       else if pg_retired_ready_flag p1 \<noteq> 1 then set_page page p1 st
       else
         let stack = pg_retired_ready_stack p1;
             s = ready_stacks st stack
         in set_stack stack (s\<lparr>rs_head := page, rs_push_count := rs_push_count s + 1\<rparr>)
              (set_page page (p1\<lparr>pg_retired_ready_flag := 0, pg_retired_ready_on_stack := 1,
                                 pg_retired_ready_next := rs_head s\<rparr>) st))"

definition hz10_retired_ready_pop :: "addr \<Rightarrow> 'a ready_state_scheme \<Rightarrow> addr \<times> 'a ready_state_scheme" where
  "hz10_retired_ready_pop stack st =
    (let s = ready_stacks st stack; head = rs_head s in
     if head = 0 then (0, st)
     else
       let p = pages st head in
       (head, set_page head (p\<lparr>pg_retired_ready_on_stack := 0\<rparr>)
                (set_stack stack (s\<lparr>rs_head := pg_retired_ready_next p\<rparr>) st)))"

section \<open>The stack\<close>

text \<open>The push that ends an accepted note, alone.\<close>

definition ready_push :: "addr \<Rightarrow> 'a ready_state_scheme \<Rightarrow> 'a ready_state_scheme" where
  "ready_push page st =
    (let p = pages st page; s = ready_stacks st (pg_retired_ready_stack p) in
     set_stack (pg_retired_ready_stack p) (s\<lparr>rs_head := page, rs_push_count := rs_push_count s + 1\<rparr>)
       (set_page page (p\<lparr>pg_retired_ready_on_stack := 1, pg_retired_ready_next := rs_head s\<rparr>) st))"

lemma set_page_ready [simp]:
  "pages (set_page pg p st) = (pages st)(pg := p)" "ready_stacks (set_page pg p st') = ready_stacks st'"
  by (simp_all add: set_page_def)

lemma set_stack_simps [simp]:
  "pages (set_stack s v st) = pages st" "ready_stacks (set_stack s v st) = (ready_stacks st)(s := v)"
  by (simp_all add: set_stack_def)

interpretation ready_stack: intrusive_stack
  "\<lambda>st a. a \<noteq> 0 \<and> pg_retired_ready_stack (pages st a) = S"
  "\<lambda>st a. pg_retired_ready_next (pages st a)" "\<lambda>st. rs_head (ready_stacks st S)"
  ready_push "hz10_retired_ready_pop S"
  by unfold_locales (auto simp: ready_push_def hz10_retired_ready_pop_def Let_def)

text \<open>\<open>ready_rep S st xs\<close>: the stack at \<open>S\<close> holds \<open>xs\<close>; a page on it is not marked any more.\<close>

definition ready_rep :: "addr \<Rightarrow> 'a ready_state_scheme \<Rightarrow> addr list \<Rightarrow> bool" where
  "ready_rep S st xs \<longleftrightarrow>
     chain (\<lambda>a. pg_retired_ready_next (pages st a)) (rs_head (ready_stacks st S)) xs \<and>
     (\<forall>x\<in>set xs. pg_retired_ready_flag (pages st x) = 0 \<and> pg_retired_ready_stack (pages st x) = S) \<and>
     pg_retired_ready_flag (pages st 0) = 0"

definition marked :: "'a ready_state_scheme \<Rightarrow> addr set" where
  "marked st = {p. pg_retired_ready_flag (pages st p) = 1}"

lemma cancel_ready:
  assumes "ready_rep S st xs" "hz10_retired_ready_cancel p st = (ok, st')"
  shows "ready_rep S st' xs" "ok \<longleftrightarrow> p \<in> marked st" "marked st' = marked st - {p}"
proof -
  have "chain (\<lambda>a. pg_retired_ready_next (pages st' a)) h xs = chain (\<lambda>a. pg_retired_ready_next (pages st a)) h xs" for h
    by (rule chain_cong) (use assms(2) in \<open>auto simp: hz10_retired_ready_cancel_def Let_def split: if_splits\<close>)
  then show "ready_rep S st' xs" "ok \<longleftrightarrow> p \<in> marked st" "marked st' = marked st - {p}"
    using assms by (auto simp: ready_rep_def hz10_retired_ready_cancel_def Let_def marked_def split: if_splits)
qed

lemma note_ready:
  assumes rep: "ready_rep S st xs" and st'_def: "st' = hz10_retired_ready_note_remote_free p st"
  shows "\<exists>xs'. ready_rep S st' xs' \<and> marked st' \<union> set xs' \<subseteq> marked st \<union> set xs \<and> set xs \<subseteq> set xs' \<and>
    (p \<in> marked st \<and> pg_retired_ready_outstanding (pages st p) = 1 \<and> pg_retired_ready_stack (pages st p) = S
      \<longrightarrow> p \<in> set xs')"
proof (cases "p \<in> marked st \<and> pg_retired_ready_outstanding (pages st p) = 1")
  case False
  then have st': "st' = st \<or> st' = set_page p ((pages st p)\<lparr>pg_retired_ready_outstanding :=
      pg_retired_ready_outstanding (pages st p) - 1\<rparr>) st"
    by (auto simp: st'_def hz10_retired_ready_note_remote_free_def Let_def marked_def)
  have "chain (\<lambda>a. pg_retired_ready_next (pages st' a)) h xs = chain (\<lambda>a. pg_retired_ready_next (pages st a)) h xs" for h
    by (rule chain_cong) (use st' in auto)
  moreover have "rs_head (ready_stacks st' S) = rs_head (ready_stacks st S)" using st' by auto
  moreover have "pg_retired_ready_flag (pages st' a) = pg_retired_ready_flag (pages st a)
      \<and> pg_retired_ready_stack (pages st' a) = pg_retired_ready_stack (pages st a)" for a using st' by auto
  ultimately have "ready_rep S st' xs" "marked st' = marked st" using rep by (simp_all add: ready_rep_def marked_def)
  then show ?thesis using False by (intro exI [of _ xs]) auto
next
  case True
  then have p: "p \<notin> set xs" "p \<noteq> 0" and pm: "p \<in> marked st" using rep by (auto simp: ready_rep_def marked_def)
  let ?st = "set_page p ((pages st p)\<lparr>pg_retired_ready_outstanding := 0, pg_retired_ready_flag := 0\<rparr>) st"
  have st': "st' = ready_push p ?st"
    using True by (simp add: st'_def hz10_retired_ready_note_remote_free_def Let_def marked_def ready_push_def
        set_page_def set_stack_def)
  have "pg_retired_ready_next (pages ?st a) = pg_retired_ready_next (pages st a)" for a by simp
  then have "(\<lambda>a. pg_retired_ready_next (pages ?st a)) = (\<lambda>a. pg_retired_ready_next (pages st a))" by blast
  then have c: "chain (\<lambda>a. pg_retired_ready_next (pages ?st a)) (rs_head (ready_stacks ?st S)) xs"
    using rep by (simp only: ready_rep_def set_page_ready)
  have flags: "pg_retired_ready_flag (pages st' a) = (if a = p then 0 else pg_retired_ready_flag (pages st a))"
    "pg_retired_ready_stack (pages st' a) = pg_retired_ready_stack (pages st a)" for a
    by (simp_all add: st' ready_push_def Let_def)
  then have m: "marked st' = marked st - {p}" by (auto simp: marked_def)
  show ?thesis
  proof (cases "pg_retired_ready_stack (pages st p) = S")
    case True
    have mem: "x \<noteq> 0 \<and> pg_retired_ready_stack (pages ?st x) = S" if "x \<in> set xs" for x
      using rep that True by (auto simp: ready_rep_def dest: chain_not_null)
    have top: "p \<noteq> 0 \<and> pg_retired_ready_stack (pages ?st p) = S" using True p by simp
    have "chain (\<lambda>a. pg_retired_ready_next (pages st' a)) (rs_head (ready_stacks st' S)) (p # xs)"
      unfolding st' by (rule ready_stack.push_chain [OF c mem top p(1)])
    then have "ready_rep S st' (p # xs)" using rep flags True by (auto simp: ready_rep_def)
    moreover have "marked st' \<union> set (p # xs) \<subseteq> marked st \<union> set xs" using m pm by auto
    ultimately show ?thesis by (intro exI [of _ "p # xs"]) auto
  next
    case False
    have nx: "pg_retired_ready_next (pages st' a) = pg_retired_ready_next (pages st a)" if "a \<noteq> p" for a
      using that by (auto simp: st' ready_push_def Let_def)
    have "chain (\<lambda>a. pg_retired_ready_next (pages st' a)) k xs = chain (\<lambda>a. pg_retired_ready_next (pages st a)) k xs" for k
      by (rule chain_cong) (use nx p(1) in metis)
    moreover have "rs_head (ready_stacks st' S) = rs_head (ready_stacks st S)"
      using False by (simp add: st' ready_push_def Let_def)
    ultimately have "ready_rep S st' xs" using rep flags by (simp add: ready_rep_def)
    moreover have "marked st' \<union> set xs \<subseteq> marked st \<union> set xs" using m by auto
    ultimately show ?thesis using False by (intro exI [of _ xs]) auto
  qed
qed

lemma pop_ready:
  assumes rep: "ready_rep S st xs" and pop: "hz10_retired_ready_pop S st = (p, st')"
  shows "p = (case xs of [] \<Rightarrow> 0 | x # _ \<Rightarrow> x)" "ready_rep S st' (tl xs)" "marked st' = marked st"
    "p \<noteq> 0 \<Longrightarrow> pg_retired_ready_on_stack (pages st' p) = 0"
proof -
  have flags: "pg_retired_ready_flag (pages st' a) = pg_retired_ready_flag (pages st a)"
    "pg_retired_ready_stack (pages st' a) = pg_retired_ready_stack (pages st a)" for a
    using pop by (auto simp: hz10_retired_ready_pop_def Let_def split: if_splits)
  then show "marked st' = marked st" by (simp add: marked_def)
  show "p \<noteq> 0 \<Longrightarrow> pg_retired_ready_on_stack (pages st' p) = 0"
    using pop by (auto simp: hz10_retired_ready_pop_def Let_def split: if_splits)
  have "p = (case xs of [] \<Rightarrow> 0 | x # _ \<Rightarrow> x) \<and> ready_rep S st' (tl xs)"
  proof (cases xs)
    case Nil
    then show ?thesis using rep pop by (auto simp: ready_rep_def hz10_retired_ready_pop_def Let_def)
  next
    case (Cons x ys)
    have c: "chain (\<lambda>a. pg_retired_ready_next (pages st a)) (rs_head (ready_stacks st S)) (x # ys)"
      and n: "\<And>y. y \<in> set (x # ys) \<Longrightarrow> y \<noteq> 0 \<and> pg_retired_ready_stack (pages st y) = S"
      using rep Cons chain_not_null by (auto simp: ready_rep_def)
    from ready_stack.pop_chain [OF c n] show ?thesis using pop rep Cons flags by (simp add: ready_rep_def)
  qed
  then show "p = (case xs of [] \<Rightarrow> 0 | x # _ \<Rightarrow> x)" "ready_rep S st' (tl xs)" by blast+
qed

section \<open>Interleavings of the owner and the remote frees\<close>

datatype ready_op = Note addr | Cancel addr | Pop

text \<open>The pages taken out of retirement, in order: those a cancel won and those popped.\<close>

fun ready_run :: "addr \<Rightarrow> ready_op list \<Rightarrow> 'a ready_state_scheme \<Rightarrow> addr list \<times> 'a ready_state_scheme" where
  "ready_run S [] st = ([], st)"
| "ready_run S (Note p # ops) st = ready_run S ops (hz10_retired_ready_note_remote_free p st)"
| "ready_run S (Cancel p # ops) st =
    (case hz10_retired_ready_cancel p st of (ok, st1) \<Rightarrow>
      case ready_run S ops st1 of (taken, st2) \<Rightarrow> (if ok then p # taken else taken, st2))"
| "ready_run S (Pop # ops) st =
    (case hz10_retired_ready_pop S st of (p, st1) \<Rightarrow>
      case ready_run S ops st1 of (taken, st2) \<Rightarrow> (if p \<noteq> 0 then p # taken else taken, st2))"

lemma ready_run_invariant:
  assumes "ready_rep S st xs" "ready_run S ops st = (taken, st')"
  shows "distinct taken \<and> set taken \<subseteq> marked st \<union> set xs \<and>
    (\<exists>xs'. ready_rep S st' xs' \<and> marked st' \<union> set xs' \<subseteq> marked st \<union> set xs - set taken)"
  using assms
proof (induction ops arbitrary: st xs taken)
  case Nil
  then show ?case by auto
next
  case (Cons op ops)
  show ?case
  proof (cases op)
    case (Note p)
    obtain xs1 where n: "ready_rep S (hz10_retired_ready_note_remote_free p st) xs1"
      "marked (hz10_retired_ready_note_remote_free p st) \<union> set xs1 \<subseteq> marked st \<union> set xs"
      using note_ready [OF Cons.prems(1) refl] by blast
    then show ?thesis using Cons.IH [OF n(1)] Cons.prems(2) Note by fastforce
  next
    case (Cancel p)
    obtain ok st1 where c: "hz10_retired_ready_cancel p st = (ok, st1)" by force
    obtain t where t: "ready_run S ops st1 = (t, st')" "taken = (if ok then p # t else t)"
      using Cons.prems(2) Cancel c by (auto split: prod.splits)
    have p: "p \<in> marked st \<Longrightarrow> p \<notin> set xs" using Cons.prems(1) by (auto simp: ready_rep_def marked_def)
    note C = cancel_ready [OF Cons.prems(1) c]
    show ?thesis using Cons.IH [OF C(1) t(1)] C(2,3) t(2) p by (cases ok) auto
  next
    case Pop
    obtain p st1 where c: "hz10_retired_ready_pop S st = (p, st1)" by force
    obtain t where t: "ready_run S ops st1 = (t, st')" "taken = (if p \<noteq> 0 then p # t else t)"
      using Cons.prems(2) Pop c by (auto split: prod.splits)
    note C = pop_ready [OF Cons.prems(1) c]
    have nm: "set xs \<inter> marked st = {}" "distinct xs" "0 \<notin> set xs"
      using Cons.prems(1) chain_distinct chain_not_null by (auto simp: ready_rep_def marked_def)
    show ?thesis using Cons.IH [OF C(2) t(1)] C(1,3) t(2) nm by (cases xs) auto
  qed
qed

text \<open>The life of one mark. A note of another page leaves the mark of \<open>p\<close> alone; one of \<open>p\<close> counts.\<close>

lemma note_mark:
  defines "note \<equiv> hz10_retired_ready_note_remote_free"
  shows "q \<noteq> p \<Longrightarrow> pages (note q st) p = pages st p"
    "p \<in> marked st \<Longrightarrow> pg_retired_ready_outstanding (pages st p) \<noteq> 1 \<Longrightarrow>
       p \<in> marked (note p st) \<and> pg_retired_ready_stack (pages (note p st) p) = pg_retired_ready_stack (pages st p) \<and>
       pg_retired_ready_outstanding (pages (note p st) p) = pg_retired_ready_outstanding (pages st p) - 1"
  by (simp_all add: note_def hz10_retired_ready_note_remote_free_def Let_def marked_def)

lemma pop_mark:
  assumes "hz10_retired_ready_pop S st = (q, st')"
  shows "pg_retired_ready_outstanding (pages st' p) = pg_retired_ready_outstanding (pages st p)"
    "pg_retired_ready_stack (pages st' p) = pg_retired_ready_stack (pages st p)"
  using assms by (auto simp: hz10_retired_ready_pop_def Let_def split: if_splits)

lemma cancel_mark:
  assumes "hz10_retired_ready_cancel q st = (ok, st')"
  shows "pg_retired_ready_outstanding (pages st' p) = pg_retired_ready_outstanding (pages st p)"
    "pg_retired_ready_stack (pages st' p) = pg_retired_ready_stack (pages st p)"
  using assms by (auto simp: hz10_retired_ready_cancel_def Let_def split: if_splits)

text \<open>A page on the stack stays there until it is taken.\<close>

lemma run_keeps_stacked:
  assumes "ready_rep S st xs" "p \<in> set xs" "ready_run S ops st = (taken, st')"
  shows "p \<in> set taken \<or> (\<exists>xs'. ready_rep S st' xs' \<and> p \<in> set xs')"
  using assms
proof (induction ops arbitrary: st xs taken)
  case Nil
  then show ?case by auto
next
  case (Cons op ops)
  show ?case
  proof (cases op)
    case (Note q)
    obtain xs1 where x: "ready_rep S (hz10_retired_ready_note_remote_free q st) xs1" "set xs \<subseteq> set xs1"
      using note_ready [OF Cons.prems(1) refl, of q] by blast
    have "p \<in> set xs1" using x(2) Cons.prems(2) by blast
    then show ?thesis by (rule Cons.IH [OF x(1)]) (use Cons.prems(3) Note in simp)
  next
    case (Cancel q)
    obtain ok st1 t where c: "hz10_retired_ready_cancel q st = (ok, st1)" "ready_run S ops st1 = (t, st')"
      "taken = (if ok then q # t else t)"
      using Cons.prems(3) Cancel by (auto split: prod.splits)
    from Cons.IH [OF cancel_ready(1) [OF Cons.prems(1) c(1)] Cons.prems(2) c(2)] c(3) show ?thesis by auto
  next
    case Pop
    obtain q st1 t where c: "hz10_retired_ready_pop S st = (q, st1)" "ready_run S ops st1 = (t, st')"
      "taken = (if q \<noteq> 0 then q # t else t)"
      using Cons.prems(3) Pop by (auto split: prod.splits)
    note P = pop_ready [OF Cons.prems(1) c(1)]
    have nz: "p \<noteq> 0" using Cons.prems(1,2) chain_not_null by (auto simp: ready_rep_def)
    show ?thesis
    proof (cases "p = q")
      case True
      then show ?thesis using c(3) nz by simp
    next
      case False
      then have "p \<in> set (tl xs)" using Cons.prems(2) P(1) by (cases xs) auto
      from Cons.IH [OF P(2) this c(2)] c(3) show ?thesis by auto
    qed
  qed
qed

lemma run_counts_notes:
  assumes "ready_rep S st xs" "p \<in> marked st" "pg_retired_ready_stack (pages st p) = S"
    and "Cancel p \<notin> set ops" "ready_run S ops st = (taken, st')"
    and "pg_retired_ready_outstanding (pages st p) = n" "n \<noteq> 0"
  shows "(count_list ops (Note p) < unat n \<longrightarrow> p \<in> marked st' \<and> p \<notin> set taken) \<and>
    (unat n \<le> count_list ops (Note p) \<longrightarrow> p \<in> set taken \<or> (\<exists>xs'. ready_rep S st' xs' \<and> p \<in> set xs'))"
  using assms
proof (induction ops arbitrary: st xs taken n)
  case Nil
  then have "unat n \<noteq> 0" by (simp add: unat_eq_zero)
  then show ?case using Nil by auto
next
  case (Cons op ops)
  have pm: "p \<notin> set xs" using Cons.prems(1,2) by (auto simp: ready_rep_def marked_def)
  show ?case
  proof (cases op)
    case (Note q)
    let ?st1 = "hz10_retired_ready_note_remote_free q st"
    have run: "ready_run S ops ?st1 = (taken, st')" using Cons.prems(5) Note by simp
    obtain xs1 where x: "ready_rep S ?st1 xs1" "set xs \<subseteq> set xs1"
      "q \<in> marked st \<and> pg_retired_ready_outstanding (pages st q) = 1 \<and> pg_retired_ready_stack (pages st q) = S
        \<longrightarrow> q \<in> set xs1"
      using note_ready [OF Cons.prems(1) refl, of q] by blast
    show ?thesis
    proof (cases "q = p")
      case False
      then have "pages ?st1 p = pages st p" by (rule note_mark(1))
      then have "p \<in> marked ?st1" "pg_retired_ready_stack (pages ?st1 p) = S"
        "pg_retired_ready_outstanding (pages ?st1 p) = n" using Cons.prems by (simp_all add: marked_def)
      from Cons.IH [OF x(1) this(1,2) _ run this(3) Cons.prems(7)] show ?thesis using False Note Cons.prems(4) by simp
    next
      case True
      show ?thesis
      proof (cases "n = 1")
        case n1: True
        then have "p \<in> set xs1" using x(3) True Cons.prems(2,3,6) by simp
        from run_keeps_stacked [OF x(1) this run] show ?thesis using n1 True Note by simp
      next
        case False
        then have N: "p \<in> marked ?st1" "pg_retired_ready_stack (pages ?st1 p) = S"
          "pg_retired_ready_outstanding (pages ?st1 p) = n - 1"
          using note_mark(2) [OF Cons.prems(2)] Cons.prems(3,6) True by auto
        have u: "unat (n - 1) = unat n - 1" "n - 1 \<noteq> 0" using unat_dec [OF Cons.prems(7)] False by auto
        have "0 < unat n" using Cons.prems(7) by (simp add: unat_gt_0)
        then show ?thesis
          using Cons.IH [OF x(1) N(1,2) _ run N(3) u(2)] u(1) True Note Cons.prems(4) by auto
      qed
    qed
  next
    case (Cancel q)
    obtain ok st1 t where c: "hz10_retired_ready_cancel q st = (ok, st1)" "ready_run S ops st1 = (t, st')"
      "taken = (if ok then q # t else t)"
      using Cons.prems(5) Cancel by (auto split: prod.splits)
    note C = cancel_ready [OF Cons.prems(1) c(1)] cancel_mark [OF c(1), of p]
    have "p \<in> marked st1" "p \<noteq> q" using C(3) Cons.prems(2,4) Cancel by auto
    then show ?thesis using Cons.IH [OF C(1) _ _ _ c(2)] C(4,5) Cons.prems(3-7) Cancel c(3) by auto
  next
    case Pop
    obtain q st1 t where c: "hz10_retired_ready_pop S st = (q, st1)" "ready_run S ops st1 = (t, st')"
      "taken = (if q \<noteq> 0 then q # t else t)"
      using Cons.prems(5) Pop by (auto split: prod.splits)
    note C = pop_ready [OF Cons.prems(1) c(1)] pop_mark [OF c(1), of p]
    have "q \<noteq> 0 \<Longrightarrow> p \<noteq> q" using C(1) pm by (cases xs) auto
    then show ?thesis using Cons.IH [OF C(2) _ _ _ c(2)] C(3,5,6) Cons.prems(2-7) Pop c(3) by auto
  qed
qed

section \<open>Properties\<close>

definition example_ready :: ready_state where
  "example_ready = \<lparr>mem = (\<lambda>_. 0), os_maps = [], os_clock = [], os_trace = [], hz10_pagemap_root = (\<lambda>_. None),
     pages = (\<lambda>a. if a = 0x1000 then zero_page\<lparr>pg_retired_ready_flag := 1, pg_retired_ready_outstanding := 1,
                      pg_retired_ready_stack := 0x9000\<rparr>
                  else if a = 0x2000 then zero_page\<lparr>pg_retired_ready_flag := 1, pg_retired_ready_outstanding := 3,
                      pg_retired_ready_stack := 0x9000\<rparr>
                  else zero_page),
     meta_next = (\<lambda>_. 0), hz10_metadata_free_list = 0, hz10_metadata_slab_count = 0,
     hz10_metadata_node_capacity = 0, hz10_quantum_region_cursor = 0, hz10_quantum_region_end = 0,
     hz10_pool_head = 0, hz10_pool_count = 0, hz10_pool_cap = 64, hz10_pool_reuse_count = 0,
     hz10_pool_release_count = 0, hz10_pool_purged_count = 0,
     ready_stacks = (\<lambda>_. \<lparr>rs_head = 0, rs_push_count = 0\<rparr>)\<rparr>"

lemma example_ready_rep: "ready_rep 0x9000 example_ready []"
  by (simp add: ready_rep_def example_ready_def zero_page_def)

text \<open>Whatever the interleaving of remote frees, the owner's sweep (cancel) and the owner's
  pops, a retired page is taken out of retirement at most once per mark: no page is both popped
  and cancelled, none is popped twice, and only pages that were marked or on the stack are taken.\<close>

theorem ready_taken_once:
  assumes "ready_rep S st xs" "ready_run S ops st = (taken, st')"
  shows "distinct taken \<and> set taken \<subseteq> marked st \<union> set xs"
  using ready_run_invariant [OF assms] by blast

theorem ready_taken_once_witness:
  "fst (ready_run 0x9000 [Note 0x1000, Cancel 0x1000, Cancel 0x2000, Pop, Pop] example_ready) = [0x2000, 0x1000] \<and>
   distinct [0x2000, 0x1000 :: addr]"
proof -
  let ?r = "ready_run 0x9000 [Note 0x1000, Cancel 0x1000, Cancel 0x2000, Pop, Pop] example_ready"
  have "fst ?r = [0x2000, 0x1000]"
    by (simp add: hz10_retired_ready_note_remote_free_def hz10_retired_ready_cancel_def hz10_retired_ready_pop_def
        example_ready_def zero_page_def set_page_def set_stack_def Let_def)
  then show ?thesis
    using ready_taken_once [OF example_ready_rep, of _ "fst ?r" "snd ?r"] by (metis prod.collapse)
qed

text \<open>A page that was popped and left where it was, the case the harvest counts as a false
  positive, is out of reach of every later operation on the stack: no cancel of it succeeds and no
  pop returns it, whatever remote frees follow. Only a new mark could bring it back, and pages are
  marked only when they are evicted from the active list.\<close>

theorem ready_pop_strands:
  assumes "ready_rep S st xs" "hz10_retired_ready_pop S st = (p, st1)" "p \<noteq> 0"
    and "ready_run S ops st1 = (taken, st2)"
  shows "p \<notin> set taken \<and> pg_retired_ready_flag (pages st1 p) = 0 \<and> pg_retired_ready_on_stack (pages st1 p) = 0"
proof -
  note P = pop_ready [OF assms(1,2)]
  obtain ys where xs: "xs = p # ys" using P(1) assms(3) by (cases xs) auto
  have "distinct xs" using assms(1) chain_distinct by (auto simp: ready_rep_def)
  then have p: "p \<notin> marked st1" "p \<notin> set (tl xs)" "pg_retired_ready_flag (pages st p) = 0"
    using assms(1) xs P(3) by (auto simp: ready_rep_def marked_def)
  have "pg_retired_ready_flag (pages st1 p) = pg_retired_ready_flag (pages st p)"
    using assms(2) by (auto simp: hz10_retired_ready_pop_def Let_def split: if_splits)
  then show ?thesis using ready_run_invariant [OF P(2) assms(4)] p P(4) assms(3) by auto
qed

theorem ready_pop_strands_witness:
  "let st1 = snd (hz10_retired_ready_pop 0x9000 (hz10_retired_ready_note_remote_free 0x1000 example_ready)) in
   0x1000 \<notin> set (fst (ready_run 0x9000 [Note 0x1000, Cancel 0x1000, Pop] st1))"
proof -
  let ?st = "hz10_retired_ready_note_remote_free 0x1000 example_ready"
  have "ready_rep 0x9000 ?st [0x1000]" "fst (hz10_retired_ready_pop 0x9000 ?st) = 0x1000"
    by (simp_all add: ready_rep_def hz10_retired_ready_note_remote_free_def hz10_retired_ready_pop_def example_ready_def
        zero_page_def set_page_def set_stack_def Let_def)
  then show ?thesis
    using ready_pop_strands [of "0x9000" ?st "[0x1000]" "0x1000" "snd (hz10_retired_ready_pop 0x9000 ?st)"
        "[Note 0x1000, Cancel 0x1000, Pop]"] by (simp add: prod_eq_iff Let_def)
qed

text \<open>C14: Every mark is answered. A page marked with \<open>n\<close> slots outstanding stays marked through
  the first \<open>n - 1\<close> remote frees of its slots, and after the \<open>n\<close>-th it is on the ready stack of its
  class or has been popped from it, whatever other pages and the owner do in between, unless the
  owner's sweep cancels it first.\<close>

theorem ready_after_last_free:
  assumes "ready_rep S st xs" "p \<noteq> 0" "p \<notin> set xs" "n \<noteq> 0" "Cancel p \<notin> set ops"
    and "ready_run S ops (hz10_retired_ready_mark p S n st) = (taken, st')"
  shows "(count_list ops (Note p) < unat n \<longrightarrow> pg_retired_ready_flag (pages st' p) = 1 \<and> p \<notin> set taken) \<and>
    (unat n \<le> count_list ops (Note p) \<longrightarrow> p \<in> set taken \<or> (\<exists>xs'. ready_rep S st' xs' \<and> p \<in> set xs'))"
proof -
  let ?st = "hz10_retired_ready_mark p S n st"
  have "chain (\<lambda>a. pg_retired_ready_next (pages ?st a)) h xs = chain (\<lambda>a. pg_retired_ready_next (pages st a)) h xs" for h
    by (rule chain_cong) (use assms(3) in \<open>auto simp: hz10_retired_ready_mark_def Let_def\<close>)
  then have "ready_rep S ?st xs"
    using assms(1-3) by (auto simp: ready_rep_def hz10_retired_ready_mark_def Let_def)
  moreover have "p \<in> marked ?st" "pg_retired_ready_stack (pages ?st p) = S"
    "pg_retired_ready_outstanding (pages ?st p) = n"
    by (simp_all add: marked_def hz10_retired_ready_mark_def Let_def)
  ultimately show ?thesis using run_counts_notes [OF _ _ _ assms(5,6) _ assms(4)] by (simp add: marked_def)
qed

theorem ready_after_last_free_witness:
  "let r = ready_run 0x9000 [Note 0x3000, Note 0x1000, Note 0x3000] (hz10_retired_ready_mark 0x3000 0x9000 2 example_ready) in
   0x3000 \<in> set (fst r) \<or> (\<exists>xs'. ready_rep 0x9000 (snd r) xs' \<and> 0x3000 \<in> set xs')"
  using ready_after_last_free [OF example_ready_rep, of "0x3000" 2 "[Note 0x3000, Note 0x1000, Note 0x3000]"]
  by (simp add: Let_def split: prod.splits)

end
