(* ===== verification/Hz10_Page_Sublist.thy ===== *)
theory Hz10_Page_Sublist
  imports Hz10_Freelist_Page
begin

text \<open>
  The doubly linked page lists of \<open>hz10_class_pages.c\<close>: head, tail and length in the sublist, the
  links in the page headers. An operation takes and returns the sublist and the map of headers.
  \<open>dll P sub xs\<close> says that both directions of the links run through exactly \<open>xs\<close>. The contract that
  the class lists and the orphan registry rely on is the locale \<open>page_sequence\<close>.
\<close>

type_synonym page_map = "addr \<Rightarrow> Hz10FreelistPage"

record Hz10PageSublist =
  sl_head :: addr
  sl_tail :: addr
  sl_length :: u32

definition empty_sublist :: Hz10PageSublist where
  "empty_sublist = \<lparr>sl_head = 0, sl_tail = 0, sl_length = 0\<rparr>"

definition upd_pg :: "addr \<Rightarrow> (Hz10FreelistPage \<Rightarrow> Hz10FreelistPage) \<Rightarrow> page_map \<Rightarrow> page_map" where
  "upd_pg a f P = P(a := f (P a))"

abbreviation (input) HZ10_FREELIST_PAGE_OWNER_LIST_NONE :: u32 where
  "HZ10_FREELIST_PAGE_OWNER_LIST_NONE \<equiv> 0"
abbreviation (input) HZ10_FREELIST_PAGE_OWNER_LIST_ACTIVE :: u32 where
  "HZ10_FREELIST_PAGE_OWNER_LIST_ACTIVE \<equiv> 1"
abbreviation (input) HZ10_FREELIST_PAGE_OWNER_LIST_RETIRED :: u32 where
  "HZ10_FREELIST_PAGE_OWNER_LIST_RETIRED \<equiv> 2"

section \<open>Sublists\<close>

definition hz10_page_sublist_prepend ::
  "addr \<Rightarrow> Hz10PageSublist \<times> page_map \<Rightarrow> Hz10PageSublist \<times> page_map" where
  "hz10_page_sublist_prepend page = (\<lambda>(sub, P).
    let P1 = upd_pg page (\<lambda>p. p\<lparr>pg_prev_in_owner_list := 0, pg_next_in_owner_list := sl_head sub\<rparr>) P;
        (sub1, P2) = (if sl_head sub \<noteq> 0
                      then (sub, upd_pg (sl_head sub) (\<lambda>p. p\<lparr>pg_prev_in_owner_list := page\<rparr>) P1)
                      else (sub\<lparr>sl_tail := page\<rparr>, P1))
    in (sub1\<lparr>sl_head := page, sl_length := sl_length sub1 + 1\<rparr>, P2))"

definition unlinked :: "Hz10FreelistPage \<Rightarrow> Hz10FreelistPage" where
  "unlinked p = p\<lparr>pg_next_in_owner_list := 0, pg_prev_in_owner_list := 0,
     pg_owner_list_kind := HZ10_FREELIST_PAGE_OWNER_LIST_NONE\<rparr>"

definition hz10_page_sublist_pop_tail ::
  "Hz10PageSublist \<times> page_map \<Rightarrow> addr \<times> Hz10PageSublist \<times> page_map" where
  "hz10_page_sublist_pop_tail = (\<lambda>(sub, P).
    let node = sl_tail sub;
        sub1 = sub\<lparr>sl_tail := pg_prev_in_owner_list (P node)\<rparr>;
        (sub2, P1) = (if sl_tail sub1 \<noteq> 0
                      then (sub1, upd_pg (sl_tail sub1) (\<lambda>p. p\<lparr>pg_next_in_owner_list := 0\<rparr>) P)
                      else (sub1\<lparr>sl_head := 0\<rparr>, P))
    in (node, sub2\<lparr>sl_length := sl_length sub2 - 1\<rparr>, upd_pg node unlinked P1))"

text \<open>The two pointer redirections of an unlink, shared by the removals.\<close>

definition sublist_splice :: "addr \<Rightarrow> Hz10PageSublist \<times> page_map \<Rightarrow> Hz10PageSublist \<times> page_map" where
  "sublist_splice node = (\<lambda>(sub, P).
    let nx = pg_next_in_owner_list (P node); pv = pg_prev_in_owner_list (P node);
        (sub1, P1) = (if pv \<noteq> 0 then (sub, upd_pg pv (\<lambda>p. p\<lparr>pg_next_in_owner_list := nx\<rparr>) P)
                      else (sub\<lparr>sl_head := nx\<rparr>, P));
        nx1 = pg_next_in_owner_list (P1 node); pv1 = pg_prev_in_owner_list (P1 node);
        (sub2, P2) = (if nx1 \<noteq> 0 then (sub1, upd_pg nx1 (\<lambda>p. p\<lparr>pg_prev_in_owner_list := pv1\<rparr>) P1)
                      else (sub1\<lparr>sl_tail := pv1\<rparr>, P1))
    in (sub2\<lparr>sl_length := sl_length sub2 - 1\<rparr>, P2))"

definition hz10_page_sublist_remove ::
  "addr \<Rightarrow> Hz10PageSublist \<times> page_map \<Rightarrow> Hz10PageSublist \<times> page_map" where
  "hz10_page_sublist_remove node v =
    (let (sub, P) = sublist_splice node v in (sub, upd_pg node unlinked P))"

definition hz10_page_sublist_move_to_head ::
  "addr \<Rightarrow> Hz10PageSublist \<times> page_map \<Rightarrow> Hz10PageSublist \<times> page_map" where
  "hz10_page_sublist_move_to_head node v =
    (if sl_head (fst v) = node then v
     else
       let (sub, P) = hz10_page_sublist_prepend node (hz10_page_sublist_remove node v)
       in (sub, upd_pg node (\<lambda>p. p\<lparr>pg_owner_list_kind := HZ10_FREELIST_PAGE_OWNER_LIST_ACTIVE\<rparr>) P))"

section \<open>The list a sublist holds\<close>

definition dll :: "page_map \<Rightarrow> Hz10PageSublist \<Rightarrow> addr list \<Rightarrow> bool" where
  "dll P sub xs \<longleftrightarrow> chain (\<lambda>a. pg_next_in_owner_list (P a)) (sl_head sub) xs \<and>
     chain (\<lambda>a. pg_prev_in_owner_list (P a)) (sl_tail sub) (rev xs) \<and>
     unat (sl_length sub) = length xs"

lemma dll_empty [simp]: "dll P empty_sublist xs \<longleftrightarrow> xs = []"
  by (auto simp: dll_def empty_sublist_def)

lemma dll_not_null: "dll P sub xs \<Longrightarrow> 0 \<notin> set xs"
  by (auto simp: dll_def dest: chain_not_null)

lemma dll_distinct: "dll P sub xs \<Longrightarrow> distinct xs"
  by (auto simp: dll_def dest: chain_distinct)

lemma dll_head: "dll P sub xs \<Longrightarrow> sl_head sub = (case xs of [] \<Rightarrow> 0 | x # _ \<Rightarrow> x)"
  by (cases xs) (auto simp: dll_def)

lemma dll_tail: "dll P sub xs \<Longrightarrow> sl_tail sub = (if xs = [] then 0 else last xs)"
  by (cases xs rule: rev_cases) (auto simp: dll_def)

lemma dll_links:
  assumes "dll P sub (us @ x # vs)"
  shows "pg_next_in_owner_list (P x) = (case vs of [] \<Rightarrow> 0 | v # _ \<Rightarrow> v)"
    "pg_prev_in_owner_list (P x) = (if us = [] then 0 else last us)"
proof -
  show "pg_next_in_owner_list (P x) = (case vs of [] \<Rightarrow> 0 | v # _ \<Rightarrow> v)"
    by (rule chain_app_link [of _ "sl_head sub" us]) (use assms in \<open>simp add: dll_def\<close>)
  have "pg_prev_in_owner_list (P x) = (case rev us of [] \<Rightarrow> 0 | v # _ \<Rightarrow> v)"
    by (rule chain_app_link [of "\<lambda>a. pg_prev_in_owner_list (P a)" "sl_tail sub" "rev vs"]) (use assms in \<open>simp add: dll_def\<close>)
  then show "pg_prev_in_owner_list (P x) = (if us = [] then 0 else last us)"
    by (cases us rule: rev_cases) auto
qed

text \<open>Only the links of the nodes of a list matter.\<close>

lemma dll_cong:
  assumes "\<And>a. a \<in> set xs \<Longrightarrow> pg_next_in_owner_list (P' a) = pg_next_in_owner_list (P a) \<and>
      pg_prev_in_owner_list (P' a) = pg_prev_in_owner_list (P a)"
  shows "dll P' sub xs \<longleftrightarrow> dll P sub xs"
proof -
  have "chain (\<lambda>a. pg_next_in_owner_list (P' a)) h xs = chain (\<lambda>a. pg_next_in_owner_list (P a)) h xs" for h
    by (rule chain_cong) (use assms in auto)
  moreover have "chain (\<lambda>a. pg_prev_in_owner_list (P' a)) h (rev xs) = chain (\<lambda>a. pg_prev_in_owner_list (P a)) h (rev xs)" for h
    by (rule chain_cong) (use assms in auto)
  ultimately show ?thesis by (simp add: dll_def)
qed

lemma upd_pg_simps: "upd_pg a f P b = (if b = a then f (P a) else P b)"
  by (simp add: upd_pg_def)

text \<open>Two headers that differ in their list links at most.\<close>

definition same_but_links :: "Hz10FreelistPage \<Rightarrow> Hz10FreelistPage \<Rightarrow> bool" where
  "same_but_links p' p \<longleftrightarrow> p'\<lparr>pg_next_in_owner_list := 0, pg_prev_in_owner_list := 0\<rparr>
     = p\<lparr>pg_next_in_owner_list := 0, pg_prev_in_owner_list := 0\<rparr>"

lemma same_but_links_upd [simp]:
  "same_but_links p p"
  "same_but_links (p'\<lparr>pg_next_in_owner_list := n\<rparr>) p \<longleftrightarrow> same_but_links p' p"
  "same_but_links (p'\<lparr>pg_prev_in_owner_list := n\<rparr>) p \<longleftrightarrow> same_but_links p' p"
  by (simp_all add: same_but_links_def)

lemma same_but_links_trans: "same_but_links p3 p2 \<Longrightarrow> same_but_links p2 p1 \<Longrightarrow> same_but_links p3 p1"
  by (simp add: same_but_links_def)

lemma prepend_correct:
  assumes "dll P sub xs" "page \<noteq> 0" "page \<notin> set xs" "length xs < 4294967295"
    and "hz10_page_sublist_prepend page (sub, P) = (sub', P')"
  shows "dll P' sub' (page # xs)" "\<And>a. a \<noteq> page \<Longrightarrow> a \<notin> set xs \<Longrightarrow> P' a = P a"
    "\<And>a. same_but_links (P' a) (P a)"
proof -
  have len: "unat (sl_length sub + 1) = Suc (length xs)"
    using assms by (simp add: dll_def unat_add_no_wrap)
  have "dll P' sub' (page # xs) \<and> (\<forall>a. a \<noteq> page \<and> a \<notin> set xs \<longrightarrow> P' a = P a) \<and>
    (\<forall>a. same_but_links (P' a) (P a))"
  proof (cases xs)
    case Nil
    then have "sl_head sub = 0" using assms(1) by (simp add: dll_def)
    then have P': "P' = upd_pg page (\<lambda>p. p\<lparr>pg_prev_in_owner_list := 0, pg_next_in_owner_list := 0\<rparr>) P"
      "sub' = sub\<lparr>sl_tail := page, sl_head := page, sl_length := sl_length sub + 1\<rparr>"
      using assms(5) by (simp_all add: hz10_page_sublist_prepend_def Let_def)
    show ?thesis using assms(2) len Nil by (simp add: dll_def P' upd_pg_simps)
  next
    case (Cons x ys)
    have x: "sl_head sub = x" "x \<noteq> 0" "x \<noteq> page" using assms Cons by (auto simp: dll_def)
    have P: "P' = upd_pg x (\<lambda>p. p\<lparr>pg_prev_in_owner_list := page\<rparr>)
        (upd_pg page (\<lambda>p. p\<lparr>pg_prev_in_owner_list := 0, pg_next_in_owner_list := x\<rparr>) P)"
      and sub': "sub' = sub\<lparr>sl_head := page, sl_length := sl_length sub + 1\<rparr>"
      using x assms(5) by (simp_all add: hz10_page_sublist_prepend_def Let_def)
    have "chain (\<lambda>a. pg_next_in_owner_list (P' a)) x xs = chain (\<lambda>a. pg_next_in_owner_list (P a)) x xs"
      by (rule chain_cong) (use assms x in \<open>auto simp: P upd_pg_simps\<close>)
    moreover have "chain (\<lambda>a. pg_prev_in_owner_list (P' a)) (sl_tail sub) (rev ys @ [x, page])"
    proof (rule chain_push_back [of "\<lambda>a. pg_prev_in_owner_list (P a)"])
      show "chain (\<lambda>a. pg_prev_in_owner_list (P a)) (sl_tail sub) (rev ys @ [x])"
        using assms Cons by (simp add: dll_def)
      show "pg_prev_in_owner_list (P' a) = pg_prev_in_owner_list (P a)" if "a \<in> set (rev ys)" for a
        using that assms dll_distinct [OF assms(1)] Cons by (auto simp: P upd_pg_simps)
    qed (use assms x in \<open>auto simp: P upd_pg_simps\<close>)
    moreover have "chain (\<lambda>a. pg_next_in_owner_list (P a)) x xs" using assms(1) x by (simp add: dll_def)
    ultimately have "dll P' sub' (page # xs)"
      using assms(2) x len by (simp add: dll_def sub' Cons) (simp add: P upd_pg_simps)
    then show ?thesis using x Cons by (simp add: P upd_pg_simps)
  qed
  then show "dll P' sub' (page # xs)" "\<And>a. a \<noteq> page \<Longrightarrow> a \<notin> set xs \<Longrightarrow> P' a = P a"
    "\<And>a. same_but_links (P' a) (P a)" by blast+
qed


lemma splice_correct:
  assumes d: "dll P sub (us @ node # vs)" and s: "sublist_splice node (sub, P) = (sub', P')"
  shows "dll P' sub' (us @ vs)" "\<And>a. a \<notin> set (us @ vs) \<Longrightarrow> P' a = P a"
    "\<And>a. same_but_links (P' a) (P a)"
proof -
  note nn = dll_not_null [OF d] and di = dll_distinct [OF d] and ln = dll_links [OF d]
  let ?nx = "pg_next_in_owner_list (P node)" let ?pv = "pg_prev_in_owner_list (P node)"
  have lu: "last us \<noteq> 0 \<and> last us \<noteq> node" if "us \<noteq> []"
  proof -
    have "last us \<in> set us" using that by simp
    then show ?thesis using nn di by (auto simp del: last_in_set)
  qed
  have pv: "?pv \<noteq> 0 \<longleftrightarrow> us \<noteq> []" "us \<noteq> [] \<Longrightarrow> ?pv = last us" "?pv \<noteq> node"
    and nx: "?nx \<noteq> 0 \<longleftrightarrow> vs \<noteq> []" "vs \<noteq> [] \<Longrightarrow> ?nx = hd vs" "?nx \<noteq> node"
    using nn di ln lu by (auto split: list.splits)
  have P': "P' = (if vs \<noteq> [] then upd_pg ?nx (\<lambda>p. p\<lparr>pg_prev_in_owner_list := ?pv\<rparr>) else id)
      ((if us \<noteq> [] then upd_pg ?pv (\<lambda>p. p\<lparr>pg_next_in_owner_list := ?nx\<rparr>) else id) P)"
    and sub': "sub' = sub\<lparr>sl_head := if us = [] then ?nx else sl_head sub,
        sl_tail := if vs = [] then ?pv else sl_tail sub, sl_length := sl_length sub - 1\<rparr>"
    using s pv nx by (auto simp: sublist_splice_def Let_def upd_pg_simps)
  have nexts: "pg_next_in_owner_list (P' a) = (if us \<noteq> [] \<and> a = last us then ?nx else pg_next_in_owner_list (P a))"
    and prevs: "pg_prev_in_owner_list (P' a) = (if vs \<noteq> [] \<and> a = hd vs then ?pv else pg_prev_in_owner_list (P a))" for a
    using pv(2) nx(2) by (auto simp: P' upd_pg_simps)
  have lus: "last us \<notin> set vs" "last us \<notin> set (butlast us)" if "us \<noteq> []"
  proof -
    obtain ws w where "us = ws @ [w]" using \<open>us \<noteq> []\<close> by (cases us rule: rev_cases) auto
    then have "last us = w" "set (butlast us) = set ws" "w \<notin> set vs" "w \<notin> set ws" using di by simp_all
    then show "last us \<notin> set vs" "last us \<notin> set (butlast us)" by simp_all
  qed
  have hvs: "hd vs \<notin> set us" "hd vs \<notin> set (tl vs)" if "vs \<noteq> []"
  proof -
    obtain v vt where "vs = v # vt" using \<open>vs \<noteq> []\<close> by (cases vs) auto
    then show "hd vs \<notin> set us" "hd vs \<notin> set (tl vs)" using di by simp_all
  qed
  have "chain (\<lambda>a. pg_next_in_owner_list (P' a)) (if us = [] then ?nx else sl_head sub) (us @ vs)"
  proof (rule chain_remove [where nx = "\<lambda>a. pg_next_in_owner_list (P a)" and x = node])
    show "chain (\<lambda>a. pg_next_in_owner_list (P a)) (sl_head sub) (us @ node # vs)" using d by (simp add: dll_def)
    show "pg_next_in_owner_list (P' y) = pg_next_in_owner_list (P y)" if "y \<in> set vs" for y
      using that lus by (auto simp: nexts)
    show "pg_next_in_owner_list (P' y) = pg_next_in_owner_list (P y)" if "y \<in> set (butlast us)" for y
      using that lus by (auto simp: nexts)
  qed (simp add: nexts)
  moreover have "chain (\<lambda>a. pg_prev_in_owner_list (P' a)) (if rev vs = [] then ?pv else sl_tail sub) (rev vs @ rev us)"
  proof (rule chain_remove [where nx = "\<lambda>a. pg_prev_in_owner_list (P a)" and x = node])
    show "chain (\<lambda>a. pg_prev_in_owner_list (P a)) (sl_tail sub) (rev vs @ node # rev us)" using d by (simp add: dll_def)
    show "pg_prev_in_owner_list (P' y) = pg_prev_in_owner_list (P y)" if "y \<in> set (rev us)" for y
      using that hvs by (auto simp: prevs)
    show "pg_prev_in_owner_list (P' y) = pg_prev_in_owner_list (P y)" if "y \<in> set (butlast (rev vs))" for y
      using that hvs by (cases vs) (auto simp: prevs)
  qed (simp add: prevs last_rev)
  moreover have "unat (sl_length sub - 1) = length (us @ vs)"
    using d by (intro unat_dec_Suc) (simp add: dll_def)
  ultimately show "dll P' sub' (us @ vs)" by (simp add: dll_def sub')
  have mem: "us \<noteq> [] \<Longrightarrow> ?pv \<in> set us" "vs \<noteq> [] \<Longrightarrow> ?nx \<in> set vs"
    using pv(2) nx(2) last_in_set [of us] hd_in_set [of vs] by simp_all
  show "P' a = P a" if "a \<notin> set (us @ vs)" for a
  proof -
    have "us \<noteq> [] \<Longrightarrow> a \<noteq> ?pv" "vs \<noteq> [] \<Longrightarrow> a \<noteq> ?nx" using that mem by (metis Un_iff set_append)+
    then show ?thesis by (simp add: P' upd_pg_simps)
  qed
  show "same_but_links (P' a) (P a)" for a by (simp add: P' upd_pg_simps)
qed

lemma remove_correct:
  assumes d: "dll P sub (us @ node # vs)" and s: "hz10_page_sublist_remove node (sub, P) = (sub', P')"
  shows "dll P' sub' (us @ vs)" "\<And>a. a \<notin> set (us @ node # vs) \<Longrightarrow> P' a = P a"
    "\<And>a. a \<noteq> node \<Longrightarrow> same_but_links (P' a) (P a)" "P' node = unlinked (P node)"
proof -
  obtain P1 where s1: "sublist_splice node (sub, P) = (sub', P1)" and P': "P' = upd_pg node unlinked P1"
    using s by (auto simp: hz10_page_sublist_remove_def split: prod.splits)
  note S = splice_correct [OF d s1]
  have n: "node \<notin> set (us @ vs)" using dll_distinct [OF d] by auto
  have "dll P' sub' (us @ vs) \<longleftrightarrow> dll P1 sub' (us @ vs)"
    by (rule dll_cong) (use n in \<open>auto simp: P' upd_pg_simps\<close>)
  then show "dll P' sub' (us @ vs)" using S(1) by simp
  show "P' a = P a" if "a \<notin> set (us @ node # vs)" for a
    using S(2) that by (simp add: P' upd_pg_simps)
  show "same_but_links (P' a) (P a)" if "a \<noteq> node" for a using S(3) that by (simp add: P' upd_pg_simps)
  show "P' node = unlinked (P node)" using S(2) n by (simp add: P' upd_pg_simps)
qed

text \<open>Popping the tail is removing the last node.\<close>

lemma pop_tail_remove:
  assumes d: "dll P sub (us @ [x])"
  shows "hz10_page_sublist_pop_tail (sub, P) = (x, hz10_page_sublist_remove x (sub, P))"
proof -
  note ln = dll_links [OF d]
  have t: "sl_tail sub = x" using dll_tail [OF d] by simp
  have "us \<noteq> [] \<Longrightarrow> last us \<noteq> x" using dll_distinct [OF d] by (auto dest: last_in_set)
  then show ?thesis using ln t dll_not_null [OF d]
    by (auto simp: hz10_page_sublist_pop_tail_def hz10_page_sublist_remove_def sublist_splice_def
        Let_def upd_pg_simps)
qed


text \<open>Appending at the tail, with whatever else the operation writes into the new node.\<close>

lemma push_back_correct:
  assumes d: "dll P sub xs" and p: "page \<noteq> 0" "page \<notin> set xs" "length xs < 4294967295"
    and new: "pg_next_in_owner_list (f (P page)) = 0" "pg_prev_in_owner_list (f (P page)) = sl_tail sub"
    and P': "P' = (if sl_tail sub \<noteq> 0 then upd_pg (sl_tail sub) (\<lambda>p. p\<lparr>pg_next_in_owner_list := page\<rparr>) else id) (upd_pg page f P)"
    and sub': "sub' = sub\<lparr>sl_head := if sl_tail sub = 0 then page else sl_head sub, sl_tail := page, sl_length := sl_length sub + 1\<rparr>"
  shows "dll P' sub' (xs @ [page])" "\<And>a. a \<noteq> page \<Longrightarrow> a \<notin> set xs \<Longrightarrow> P' a = P a"
    "\<And>a. a \<noteq> page \<Longrightarrow> same_but_links (P' a) (P a)" "P' page = f (P page)"
proof -
  have len: "unat (sl_length sub + 1) = Suc (length xs)" using d p by (simp add: dll_def unat_add_no_wrap)
  have "dll P' sub' (xs @ [page]) \<and> (\<forall>a. a \<noteq> page \<and> a \<notin> set xs \<longrightarrow> P' a = P a) \<and>
    (\<forall>a. a \<noteq> page \<longrightarrow> same_but_links (P' a) (P a)) \<and> P' page = f (P page)"
  proof (cases xs rule: rev_cases)
    case Nil
    then have "sl_tail sub = 0" using d by (simp add: dll_def)
    then show ?thesis using new p len Nil by (simp add: dll_def P' sub' upd_pg_simps)
  next
    case (snoc ys x)
    have x: "sl_tail sub = x" "x \<noteq> 0" "x \<noteq> page" using d p snoc by (auto simp: dll_def)
    have "chain (\<lambda>a. pg_prev_in_owner_list (P' a)) x (rev xs) = chain (\<lambda>a. pg_prev_in_owner_list (P a)) x (rev xs)"
      by (rule chain_cong) (use p x in \<open>auto simp: P' upd_pg_simps\<close>)
    moreover have "chain (\<lambda>a. pg_next_in_owner_list (P' a)) (sl_head sub) (ys @ [x, page])"
    proof (rule chain_push_back [of "\<lambda>a. pg_next_in_owner_list (P a)"])
      show "chain (\<lambda>a. pg_next_in_owner_list (P a)) (sl_head sub) (ys @ [x])" using d snoc by (simp add: dll_def)
      show "pg_next_in_owner_list (P' a) = pg_next_in_owner_list (P a)" if "a \<in> set ys" for a
        using that p dll_distinct [OF d] x(1) unfolding snoc by (auto simp: P' upd_pg_simps)
    qed (use p new x in \<open>auto simp: P' upd_pg_simps\<close>)
    moreover have "chain (\<lambda>a. pg_prev_in_owner_list (P a)) x (rev xs)" using d x by (simp add: dll_def)
    ultimately have "dll P' sub' (xs @ [page])"
      using p x len new by (simp add: dll_def sub' snoc) (simp add: P' upd_pg_simps)
    then show ?thesis using x snoc by (simp add: P' upd_pg_simps)
  qed
  then show "dll P' sub' (xs @ [page])" "\<And>a. a \<noteq> page \<Longrightarrow> a \<notin> set xs \<Longrightarrow> P' a = P a"
    "\<And>a. a \<noteq> page \<Longrightarrow> same_but_links (P' a) (P a)" "P' page = f (P page)" by blast+
qed

section \<open>Sequences of pages\<close>

locale page_sequence =
  fixes rep :: "'s \<Rightarrow> addr list \<Rightarrow> bool"
    and push_front :: "addr \<Rightarrow> 's \<Rightarrow> 's"
    and remove :: "addr \<Rightarrow> 's \<Rightarrow> 's"
    and pop_back :: "'s \<Rightarrow> addr \<times> 's"
  assumes rep_distinct: "rep s xs \<Longrightarrow> distinct xs"
    and rep_nonnull: "rep s xs \<Longrightarrow> x \<in> set xs \<Longrightarrow> x \<noteq> 0"
    and rep_length: "rep s xs \<Longrightarrow> length xs < 4294967296"
    and rep_push: "rep s xs \<Longrightarrow> x \<noteq> 0 \<Longrightarrow> x \<notin> set xs \<Longrightarrow> length xs < 4294967295 \<Longrightarrow>
      rep (push_front x s) (x # xs)"
    and rep_remove: "rep s (us @ x # vs) \<Longrightarrow> rep (remove x s) (us @ vs)"
    and rep_pop: "rep s (us @ [x]) \<Longrightarrow> fst (pop_back s) = x \<and> rep (snd (pop_back s)) us"
begin

lemma remove_member: "rep s xs \<Longrightarrow> x \<in> set xs \<Longrightarrow> rep (remove x s) (removeAll x xs)"
proof -
  assume r: "rep s xs" and "x \<in> set xs"
  then obtain us vs where xs: "xs = us @ x # vs" by (meson split_list)
  then have "removeAll x xs = us @ vs" using rep_distinct [OF r] by simp
  then show ?thesis using rep_remove [of s us x vs] r xs by simp
qed

lemma move_front:
  assumes "rep s xs" "x \<in> set xs"
  shows "rep (push_front x (remove x s)) (x # removeAll x xs)"
proof (rule rep_push)
  have "length (removeAll x xs) < length xs" using assms(2) by (rule length_removeAll_less)
  then show "length (removeAll x xs) < 4294967295" using rep_length [OF assms(1)] by simp
qed (use assms rep_nonnull remove_member in auto)

text \<open>A push that keeps at most \<open>n\<close> pages by giving up the last.\<close>

lemma push_pop:
  assumes "rep s xs" "x \<noteq> 0" "x \<notin> set xs" "length xs < 4294967295" "xs \<noteq> []"
  shows "fst (pop_back (push_front x s)) = last xs" "rep (snd (pop_back (push_front x s))) (x # butlast xs)"
proof -
  have "rep (push_front x s) ((x # butlast xs) @ [last xs])" using rep_push [OF assms(1-4)] assms(5) by simp
  from rep_pop [OF this] show "fst (pop_back (push_front x s)) = last xs"
    "rep (snd (pop_back (push_front x s))) (x # butlast xs)" by simp_all
qed

end

interpretation owner_list: page_sequence "\<lambda>v xs. dll (snd v) (fst v) xs"
  hz10_page_sublist_prepend hz10_page_sublist_remove hz10_page_sublist_pop_tail
proof (unfold_locales, goal_cases)
  case (3 s xs)
  then show ?case using unat_u32_lt [of "sl_length (fst s)"] by (simp add: dll_def)
next
  case (4 s xs x)
  then show ?case
    using prepend_correct(1) [of "snd s" "fst s" xs x "fst (hz10_page_sublist_prepend x s)" "snd (hz10_page_sublist_prepend x s)"]
    by simp
next
  case (5 s us x vs)
  then show ?case
    using remove_correct(1) [of "snd s" "fst s" us x vs "fst (hz10_page_sublist_remove x s)" "snd (hz10_page_sublist_remove x s)"]
    by simp
next
  case (6 s us x)
  then show ?case using pop_tail_remove [of "snd s" "fst s" us x]
      remove_correct(1) [of "snd s" "fst s" us x "[]" "fst (hz10_page_sublist_remove x s)" "snd (hz10_page_sublist_remove x s)"]
    by simp
qed (auto dest: dll_distinct dll_not_null)

lemma move_to_head_correct:
  assumes "dll P sub xs" "x \<in> set xs" "hz10_page_sublist_move_to_head x (sub, P) = (sub', P')"
  shows "dll P' sub' (x # removeAll x xs)"
proof (cases "sl_head sub = x")
  case True
  obtain y ys where xs: "xs = y # ys" using assms(2) by (cases xs) auto
  then have "y = x" using dll_head [OF assms(1)] True by simp
  moreover have "x \<notin> set ys" using dll_distinct [OF assms(1)] xs \<open>y = x\<close> by simp
  ultimately show ?thesis using assms True xs by (simp add: hz10_page_sublist_move_to_head_def)
next
  case False
  let ?v = "hz10_page_sublist_prepend x (hz10_page_sublist_remove x (sub, P))"
  have "sub' = fst ?v" "P' = upd_pg x (\<lambda>p. p\<lparr>pg_owner_list_kind := 1\<rparr>) (snd ?v)"
    using assms(3) False by (auto simp: hz10_page_sublist_move_to_head_def split: prod.splits)
  moreover have "dll (snd ?v) (fst ?v) (x # removeAll x xs)"
    using owner_list.move_front [of "(sub, P)" xs x] assms by simp
  moreover have "dll (upd_pg x (\<lambda>p. p\<lparr>pg_owner_list_kind := 1\<rparr>) (snd ?v)) (fst ?v) ys \<longleftrightarrow> dll (snd ?v) (fst ?v) ys" for ys
    by (rule dll_cong) (auto simp: upd_pg_simps)
  ultimately show ?thesis by simp
qed

end
