(* ===== verification/Hz10_Class_Pages.thy ===== *)
theory Hz10_Class_Pages
  imports Hz10_Retired_Ready Hz10_Page_Sublist
begin

text \<open>
  \<open>hz10_class_pages.{h,c}\<close>: the pages a thread owns of one size class, in two doubly linked lists
  threaded through the page headers: \<open>active\<close>, scanned for capacity, and \<open>retired\<close>, pages evicted
  while slots were outstanding. A list is found by its address; its ready stack is the member at
  offset 56, kept in \<open>ready_stacks\<close>. Operations that drain a page return an option, because a drain
  walks a list that foreign threads build. The counters compiled in by
  \<open>HZ10_ENABLE_ACTIVE_SCAN_STATS\<close> and \<open>HZ10_ENABLE_TWO_SLOT_STATS\<close> are left out.
\<close>

record Hz10ClassPageList =
  cl_active :: Hz10PageSublist
  cl_retired :: Hz10PageSublist
  cl_retired_sweep_cursor :: addr
  cl_eviction_count :: u64
  cl_eviction_reclaimed_count :: u64
  cl_retired_count :: u64
  cl_max_retired_length :: u32
  cl_retired_reclaimed_by_sweep_count :: u64
  cl_retired_promoted_by_sweep_count :: u64
  cl_harvest_call_count :: u64
  cl_retired_reclaimed_by_ready_count :: u64
  cl_retired_promoted_by_ready_count :: u64
  cl_retired_reclaimed_by_local_free_count :: u64
  cl_ready_false_positive_count :: u64
  cl_ready_stale_generation_count :: u64
  cl_sweep_cancel_lost_race_count :: u64

definition empty_class_list :: Hz10ClassPageList where
  "empty_class_list = \<lparr>cl_active = empty_sublist, cl_retired = empty_sublist,
     cl_retired_sweep_cursor = 0, cl_eviction_count = 0, cl_eviction_reclaimed_count = 0,
     cl_retired_count = 0, cl_max_retired_length = 0, cl_retired_reclaimed_by_sweep_count = 0,
     cl_retired_promoted_by_sweep_count = 0, cl_harvest_call_count = 0,
     cl_retired_reclaimed_by_ready_count = 0, cl_retired_promoted_by_ready_count = 0,
     cl_retired_reclaimed_by_local_free_count = 0, cl_ready_false_positive_count = 0,
     cl_ready_stale_generation_count = 0, cl_sweep_cancel_lost_race_count = 0\<rparr>"

record class_state = ready_state +
  class_lists :: "addr \<Rightarrow> Hz10ClassPageList"

definition ready_addr :: "addr \<Rightarrow> addr" where "ready_addr l = l + 56"

definition upd_list :: "addr \<Rightarrow> (Hz10ClassPageList \<Rightarrow> Hz10ClassPageList) \<Rightarrow>
    'a class_state_scheme \<Rightarrow> 'a class_state_scheme" where
  "upd_list l f st = st\<lparr>class_lists := (class_lists st)(l := f (class_lists st l))\<rparr>"

text \<open>Running one of them on \<open>&list->active\<close> or \<open>&list->retired\<close>.\<close>

definition on_active :: "addr \<Rightarrow> (Hz10PageSublist \<times> page_map \<Rightarrow> Hz10PageSublist \<times> page_map) \<Rightarrow>
    'a class_state_scheme \<Rightarrow> 'a class_state_scheme" where
  "on_active l f st =
    (let (sub, P) = f (cl_active (class_lists st l), pages st) in
     upd_list l (\<lambda>c. c\<lparr>cl_active := sub\<rparr>) (st\<lparr>pages := P\<rparr>))"

definition on_retired :: "addr \<Rightarrow> (Hz10PageSublist \<times> page_map \<Rightarrow> Hz10PageSublist \<times> page_map) \<Rightarrow>
    'a class_state_scheme \<Rightarrow> 'a class_state_scheme" where
  "on_retired l f st =
    (let (sub, P) = f (cl_retired (class_lists st l), pages st) in
     upd_list l (\<lambda>c. c\<lparr>cl_retired := sub\<rparr>) (st\<lparr>pages := P\<rparr>))"

section \<open>List operations\<close>

definition set_kind :: "u32 \<Rightarrow> addr \<Rightarrow> 'a page_heap_state_scheme \<Rightarrow> 'a page_heap_state_scheme" where
  "set_kind k page st = st\<lparr>pages := upd_pg page (\<lambda>p. p\<lparr>pg_owner_list_kind := k\<rparr>) (pages st)\<rparr>"

definition hz10_class_pages_prepend_active :: "addr \<Rightarrow> addr \<Rightarrow> 'a class_state_scheme \<Rightarrow> 'a class_state_scheme" where
  "hz10_class_pages_prepend_active l page st =
    on_active l (hz10_page_sublist_prepend page) (set_kind HZ10_FREELIST_PAGE_OWNER_LIST_ACTIVE page st)"

definition hz10_class_pages_prepend_retired :: "addr \<Rightarrow> addr \<Rightarrow> 'a class_state_scheme \<Rightarrow> 'a class_state_scheme" where
  "hz10_class_pages_prepend_retired l page st =
    on_retired l (hz10_page_sublist_prepend page) (set_kind HZ10_FREELIST_PAGE_OWNER_LIST_RETIRED page st)"

definition hz10_class_pages_retired_remove :: "addr \<Rightarrow> addr \<Rightarrow> 'a class_state_scheme \<Rightarrow> 'a class_state_scheme" where
  "hz10_class_pages_retired_remove l node st =
    (let st1 = (if cl_retired_sweep_cursor (class_lists st l) = node
                then upd_list l (\<lambda>c. c\<lparr>cl_retired_sweep_cursor := pg_prev_in_owner_list (pages st node)\<rparr>) st
                else st)
     in on_retired l (hz10_page_sublist_remove node) st1)"

abbreviation (input) page_idle :: "addr \<Rightarrow> 'a page_heap_state_scheme \<Rightarrow> bool" where
  "page_idle pg st \<equiv> pg_free_count (pages st pg) = pg_slot_count (pages st pg)"

definition hz10_class_pages_prepend_active_with_eviction ::
  "addr \<Rightarrow> addr \<Rightarrow> 'a class_state_scheme \<Rightarrow> 'a class_state_scheme option" where
  "hz10_class_pages_prepend_active_with_eviction l page st =
    (let st1 = hz10_class_pages_prepend_active l page st in
     if sl_length (cl_active (class_lists st1 l)) \<le> HZ10_CLASS_PAGES_SCAN_LIMIT then Some st1
     else
       let (evict, sub, P) = hz10_page_sublist_pop_tail (cl_active (class_lists st1 l), pages st1);
           st2 = upd_list l (\<lambda>c. c\<lparr>cl_active := sub, cl_eviction_count := cl_eviction_count c + 1\<rparr>)
                   (st1\<lparr>pages := P\<rparr>)
       in do {
         (_, st3) \<leftarrow> drain_page evict st2;
         if page_idle evict st3 then
           Some (hz10_pooled_page_destroy evict
             (upd_list l (\<lambda>c. c\<lparr>cl_eviction_reclaimed_count := cl_eviction_reclaimed_count c + 1\<rparr>) st3))
         else
           let st4 = hz10_class_pages_prepend_retired l evict st3;
               st5 = upd_list l (\<lambda>c. let c1 = c\<lparr>cl_retired_count := cl_retired_count c + 1\<rparr> in
                       if sl_length (cl_retired c1) > cl_max_retired_length c1
                       then c1\<lparr>cl_max_retired_length := sl_length (cl_retired c1)\<rparr> else c1) st4;
               p = pages st5 evict
           in Some (hz10_retired_ready_mark evict (ready_addr l) (pg_slot_count p - pg_free_count p) st5)
       })"

definition hz10_class_pages_add :: "addr \<Rightarrow> addr \<Rightarrow> 'a class_state_scheme \<Rightarrow> 'a class_state_scheme option" where
  "hz10_class_pages_add l page st = hz10_class_pages_prepend_active_with_eviction l page st"

text \<open>The scan; the first argument counts the pages it may still visit.\<close>

fun find_scan :: "hz10_config \<Rightarrow> nat \<Rightarrow> addr \<Rightarrow> addr \<Rightarrow> 'a class_state_scheme \<Rightarrow>
    (addr \<times> 'a class_state_scheme) option" where
  "find_scan cfg 0 l page st = Some (0, st)"
| "find_scan cfg (Suc k) l page st =
    (if page = 0 then Some (0, st)
     else if hz10_freelist_page_has_capacity cfg (pages st page)
     then Some (page, if cfg_active_mtf cfg then on_active l (hz10_page_sublist_move_to_head page) st else st)
     else do {
       (merged, st1) \<leftarrow> drain_page page st;
       if merged > 0
       then Some (page, if cfg_active_mtf cfg then on_active l (hz10_page_sublist_move_to_head page) st1 else st1)
       else find_scan cfg k l (pg_next_in_owner_list (pages st1 page)) st1
     })"

definition hz10_class_pages_find_with_capacity :: "hz10_config \<Rightarrow> addr \<Rightarrow> 'a class_state_scheme \<Rightarrow>
    (addr \<times> 'a class_state_scheme) option" where
  "hz10_class_pages_find_with_capacity cfg l st =
    find_scan cfg (unat HZ10_CLASS_PAGES_SCAN_LIMIT) l (sl_head (cl_active (class_lists st l))) st"

text \<open>The ready loop of the harvest: the page it promoted, or NULL when the stack ran empty.\<close>

partial_function (option) harvest_ready :: "hz10_config \<Rightarrow> addr \<Rightarrow> 'a class_state_scheme \<Rightarrow>
    (addr \<times> 'a class_state_scheme) option" where
  "harvest_ready cfg l st =
    (let (candidate, st1) = hz10_retired_ready_pop (ready_addr l) st in
     if candidate = 0 then Some (0, st1)
     else if pg_generation (pages st1 candidate) \<noteq> pg_retired_ready_generation (pages st1 candidate)
     then harvest_ready cfg l
            (upd_list l (\<lambda>c. c\<lparr>cl_ready_stale_generation_count := cl_ready_stale_generation_count c + 1\<rparr>) st1)
     else do {
       (_, st2) \<leftarrow> drain_page candidate st1;
       if page_idle candidate st2 then
         harvest_ready cfg l (hz10_pooled_page_destroy candidate
           (upd_list l (\<lambda>c. c\<lparr>cl_retired_reclaimed_by_ready_count := cl_retired_reclaimed_by_ready_count c + 1\<rparr>)
             (hz10_class_pages_retired_remove l candidate st2)))
       else if hz10_freelist_page_has_capacity cfg (pages st2 candidate) then do {
         st3 \<leftarrow> hz10_class_pages_prepend_active_with_eviction l candidate
           (upd_list l (\<lambda>c. c\<lparr>cl_retired_promoted_by_ready_count := cl_retired_promoted_by_ready_count c + 1\<rparr>)
             (hz10_class_pages_retired_remove l candidate st2));
         Some (candidate, st3)
       }
       else harvest_ready cfg l
              (upd_list l (\<lambda>c. c\<lparr>cl_ready_false_positive_count := cl_ready_false_positive_count c + 1\<rparr>) st2)
     })"

definition set_cursor :: "addr \<Rightarrow> addr \<Rightarrow> 'a class_state_scheme \<Rightarrow> 'a class_state_scheme" where
  "set_cursor l a = upd_list l (\<lambda>c. c\<lparr>cl_retired_sweep_cursor := a\<rparr>)"

text \<open>The budgeted sweep; the second argument counts the pages it may still check.\<close>

fun harvest_sweep :: "hz10_config \<Rightarrow> nat \<Rightarrow> addr \<Rightarrow> addr \<Rightarrow> 'a class_state_scheme \<Rightarrow>
    (addr \<times> 'a class_state_scheme) option" where
  "harvest_sweep cfg 0 l node st = Some (0, set_cursor l node st)"
| "harvest_sweep cfg (Suc k) l node st =
    (if node = 0 then Some (0, set_cursor l node st)
     else
       let prev = pg_prev_in_owner_list (pages st node) in
       if pg_retired_ready_on_stack (pages st node) \<noteq> 0 then harvest_sweep cfg k l prev st
       else do {
         (_, st1) \<leftarrow> drain_page node st;
         if page_idle node st1 then
           (case hz10_retired_ready_cancel node st1 of
              (False, st2) \<Rightarrow> harvest_sweep cfg k l prev
                (upd_list l (\<lambda>c. c\<lparr>cl_sweep_cancel_lost_race_count := cl_sweep_cancel_lost_race_count c + 1\<rparr>) st2)
            | (True, st2) \<Rightarrow> harvest_sweep cfg k l prev (hz10_pooled_page_destroy node
                (upd_list l (\<lambda>c. c\<lparr>cl_retired_reclaimed_by_sweep_count := cl_retired_reclaimed_by_sweep_count c + 1\<rparr>)
                  (hz10_class_pages_retired_remove l node st2))))
         else if hz10_freelist_page_has_capacity cfg (pages st1 node) then
           (case hz10_retired_ready_cancel node st1 of
              (False, st2) \<Rightarrow> harvest_sweep cfg k l prev
                (upd_list l (\<lambda>c. c\<lparr>cl_sweep_cancel_lost_race_count := cl_sweep_cancel_lost_race_count c + 1\<rparr>) st2)
            | (True, st2) \<Rightarrow> do {
                st3 \<leftarrow> hz10_class_pages_prepend_active_with_eviction l node
                  (upd_list l (\<lambda>c. c\<lparr>cl_retired_promoted_by_sweep_count := cl_retired_promoted_by_sweep_count c + 1\<rparr>)
                    (hz10_class_pages_retired_remove l node st2));
                Some (node, set_cursor l prev st3)
              })
         else harvest_sweep cfg k l prev st1
       })"

definition hz10_class_pages_harvest_retired_capacity :: "hz10_config \<Rightarrow> addr \<Rightarrow> 'a class_state_scheme \<Rightarrow>
    (addr \<times> 'a class_state_scheme) option" where
  "hz10_class_pages_harvest_retired_capacity cfg l st =
    do {
      (candidate, st1) \<leftarrow> harvest_ready cfg l
        (upd_list l (\<lambda>c. c\<lparr>cl_harvest_call_count := cl_harvest_call_count c + 1\<rparr>) st);
      if candidate \<noteq> 0 then Some (candidate, st1)
      else
        let c = class_lists st1 l;
            node = (if cl_retired_sweep_cursor c = 0 then sl_tail (cl_retired c) else cl_retired_sweep_cursor c)
        in harvest_sweep cfg (unat HZ10_CLASS_PAGES_SWEEP_BUDGET) l node st1
    }"

partial_function (option) sublist_contains :: "addr \<Rightarrow> addr \<Rightarrow> page_map \<Rightarrow> bool option" where
  "sublist_contains page node P =
    (if node = 0 then Some False
     else if node = page then Some True
     else sublist_contains page (pg_next_in_owner_list (P node)) P)"

abbreviation (input) HZ10_RETIRED_LOCAL_IDLE_MIN_SLOT_SIZE :: u32 where
  "HZ10_RETIRED_LOCAL_IDLE_MIN_SLOT_SIZE \<equiv> 80"
abbreviation (input) HZ10_RETIRED_LOCAL_IDLE_MAX_SLOT_SIZE :: u32 where
  "HZ10_RETIRED_LOCAL_IDLE_MAX_SLOT_SIZE \<equiv> 4096"

definition hz10_class_pages_reclaim_retired_idle_after_local_free ::
  "hz10_config \<Rightarrow> addr \<Rightarrow> addr \<Rightarrow> 'a class_state_scheme \<Rightarrow> (bool \<times> 'a class_state_scheme) option" where
  "hz10_class_pages_reclaim_retired_idle_after_local_free cfg l page st =
    (if \<not> cfg_retired_local_idle cfg then Some (False, st)
     else if l = 0 \<or> page = 0 \<or> \<not> page_idle page st then Some (False, st)
     else if pg_slot_size (pages st page) < HZ10_RETIRED_LOCAL_IDLE_MIN_SLOT_SIZE \<or>
       pg_slot_size (pages st page) > HZ10_RETIRED_LOCAL_IDLE_MAX_SLOT_SIZE \<or>
       pg_owner_list_kind (pages st page) \<noteq> HZ10_FREELIST_PAGE_OWNER_LIST_RETIRED \<or>
       pg_retired_ready_flag (pages st page) = 0 then Some (False, st)
     else do {
       found \<leftarrow> sublist_contains page (sl_head (cl_retired (class_lists st l))) (pages st);
       if \<not> found then Some (False, st)
       else if pg_retired_ready_on_stack (pages st page) \<noteq> 0 then Some (False, st)
       else
         (case hz10_retired_ready_cancel page st of
            (False, st1) \<Rightarrow> Some (False,
              upd_list l (\<lambda>c. c\<lparr>cl_sweep_cancel_lost_race_count := cl_sweep_cancel_lost_race_count c + 1\<rparr>) st1)
          | (True, st1) \<Rightarrow> Some (True, hz10_pooled_page_destroy page
              (upd_list l (\<lambda>c. c\<lparr>cl_retired_reclaimed_by_local_free_count :=
                  cl_retired_reclaimed_by_local_free_count c + 1\<rparr>)
                (hz10_class_pages_retired_remove l page st1))))
     })"

end
