(* ===== verification/Hz10_Size_Class.thy ===== *)
theory Hz10_Size_Class
  imports Hz10_Config
begin

text \<open>
  \<open>hz10_size_class.{h,c}\<close>: the table of slot sizes and the arithmetic that finds the class of a
  request, for the default table of 24 classes and the opt-in table of 38. The lemmas show that
  the bit arithmetic computes the least class that fits, against the table as a plain list.
\<close>

section \<open>Definitions\<close>

definition hz10_class_count :: "hz10_config \<Rightarrow> u32" where
  "hz10_class_count cfg = (if cfg_fine_size_classes cfg then 38 else 24)"

definition hz10_size_class_table :: "hz10_config \<Rightarrow> u32 list" where
  "hz10_size_class_table cfg =
    (if cfg_fine_size_classes cfg then
      [16, 32, 48, 64, 80, 96, 112, 128,
       160, 192, 224, 256, 320, 384, 448, 512,
       640, 768, 896, 1024, 1280, 1536, 1792, 2048,
       2560, 3072, 3584, 4096, 5120, 6144, 7168, 8192,
       12288, 16384, 24576, 32768, 49152, 65536]
     else
      [16, 32, 48, 64, 96, 128, 192, 256,
       384, 512, 768, 1024, 1536, 2048, 3072, 4096,
       6144, 8192, 12288, 16384, 24576, 32768, 49152, 65536])"

text \<open>
  \<open>__builtin_clzll\<close>: the number of zero bits above the highest set bit, reading the bits from
  the top. (The C builtin is undefined on 0, which the code never passes: sizes are above 32.)
\<close>

fun clz_from :: "nat \<Rightarrow> u64 \<Rightarrow> nat" where
  "clz_from 0 x = 0"
| "clz_from (Suc n) x = (if bit x n then 0 else Suc (clz_from n x))"

definition builtin_clzll :: "u64 \<Rightarrow> nat" where
  "builtin_clzll x = clz_from 64 x"

text \<open>The exponent \<open>e\<close> with \<open>2 ^ e < sz \<le> 2 ^ (e + 1)\<close>, as the code computes it.\<close>

definition size_exponent :: "u64 \<Rightarrow> nat" where
  "size_exponent sz = (let rounded = sz - 1; bits = 64 - builtin_clzll rounded in bits - 1)"

definition hz10_size_class_for :: "hz10_config \<Rightarrow> u64 \<Rightarrow> u32" where
  "hz10_size_class_for cfg sz =
    (if sz = 0 \<or> sz > HZ10_PAGE_QUANTUM then hz10_class_count cfg
     else if sz \<le> 16 then 0
     else if sz \<le> 32 then 1
     else if cfg_fine_size_classes cfg then
       (if sz \<le> 48 then 2
        else if sz \<le> 64 then 3
        else if sz \<le> 8192 then
          (let e = size_exponent sz;
               low_pow = push_bit e (1 :: u64);
               quarter_shift = e - 2;
               quarter = drop_bit 2 low_pow;
               base_index = (3 + (of_nat e - 6) * 4 :: u32);
               delta = sz - low_pow;
               step = (ucast (drop_bit quarter_shift (delta + quarter - 1)) :: u32)
           in base_index + step)
        else
          (let e = size_exponent sz;
               low_pow = push_bit e (1 :: u64);
               half_point = low_pow + drop_bit 1 low_pow;
               octave_pos = (of_nat e - 13 :: u32);
               base_index = 32 + octave_pos * 2
           in if sz \<le> half_point then base_index else base_index + 1))
     else
       (let e = size_exponent sz;
            low_pow = push_bit e (1 :: u64);
            half_point = low_pow + drop_bit 1 low_pow;
            octave_pos = (of_nat e - 5 :: u32);
            base_index = 2 + octave_pos * 2
        in if sz \<le> half_point then base_index else base_index + 1))"

definition hz10_size_class_slot_size :: "hz10_config \<Rightarrow> u32 \<Rightarrow> u32" where
  "hz10_size_class_slot_size cfg class_id =
    (if class_id \<ge> hz10_class_count cfg then 0
     else hz10_size_class_table cfg ! unat class_id)"

definition hz10_size_class_slot_count :: "hz10_config \<Rightarrow> u32 \<Rightarrow> u32" where
  "hz10_size_class_slot_count cfg class_id =
    (let slot_size = hz10_size_class_slot_size cfg class_id in
     if slot_size = 0 then 0 else HZ10_PAGE_QUANTUM div slot_size)"

section \<open>Leading zeros and the exponent\<close>

lemma clz_from_highest:
  assumes "k < n" and "bit x k" and "\<And>j. k < j \<Longrightarrow> j < n \<Longrightarrow> \<not> bit x j"
  shows "clz_from n x = n - Suc k"
  using assms
proof (induction n)
  case (Suc n)
  show ?case
  proof (cases "k = n")
    case True
    then show ?thesis using Suc.prems by simp
  next
    case False
    then have "k < n" using Suc.prems by simp
    moreover have "\<not> bit x n" using Suc.prems False by auto
    ultimately show ?thesis using Suc by auto
  qed
qed simp

lemma bit_u64_iff: "bit (x :: u64) k \<longleftrightarrow> odd (unat x div 2 ^ k)"
  using bit_unsigned_iff [of x k, where 'a = nat] by (simp add: bit_iff_odd [where 'a = nat])

lemma size_exponent_eq:
  assumes lo: "2 ^ e < unat sz" and hi: "unat sz \<le> 2 ^ Suc e" and e: "e < 63"
  shows "size_exponent sz = e"
proof -
  let ?r = "unat (sz - 1)"
  have nz: "sz \<noteq> 0" using lo by auto
  have r: "?r = unat sz - 1" by (rule unat_dec [OF nz])
  have bounds: "2 ^ e \<le> ?r" "?r < 2 ^ Suc e" using lo hi r by simp_all
  have "?r div 2 ^ e = 1" using bounds by (simp add: div_nat_eqI)
  then have top: "bit (sz - 1) e" using e by (simp add: bit_u64_iff)
  have above: "\<not> bit (sz - 1) j" if "e < j" for j
  proof -
    have "(2::nat) ^ Suc e \<le> 2 ^ j" using that by (intro power_increasing) auto
    with bounds have "?r < 2 ^ j" by linarith
    then have "?r div 2 ^ j = 0" by simp
    then show ?thesis by (simp add: bit_u64_iff)
  qed
  have "builtin_clzll (sz - 1) = 64 - Suc e"
    unfolding builtin_clzll_def by (rule clz_from_highest) (use e top above in auto)
  then show ?thesis using e by (simp add: size_exponent_def)
qed

section \<open>The class found is the least that fits\<close>

text \<open>What a lookup promises, over the table as a list: an index in range, a slot that is large
  enough, and every earlier slot too small.\<close>

definition least_class :: "u32 list \<Rightarrow> u64 \<Rightarrow> u32 \<Rightarrow> bool" where
  "least_class tbl sz c \<longleftrightarrow>
     unat c < length tbl \<and> unat sz \<le> unat (tbl ! unat c) \<and>
     (\<forall>t\<in>set (take (unat c) tbl). unat t < unat sz)"

lemma least_classI:
  assumes "sorted (map unat tbl)" "0 < unat c" "unat c < length tbl"
    "unat sz \<le> unat (tbl ! unat c)" "unat (tbl ! (unat c - 1)) < unat sz"
  shows "least_class tbl sz c"
proof -
  have "unat t < unat sz" if t: "t \<in> set (take (unat c) tbl)" for t
  proof -
    obtain i where i: "i < unat c" "t = tbl ! i" using t assms(3) by (auto simp: in_set_conv_nth)
    then have "map unat tbl ! i \<le> map unat tbl ! (unat c - 1)"
      by (intro sorted_nth_mono [OF assms(1)]) (use assms(3) in auto)
    then show ?thesis using i assms(3,5) by simp
  qed
  then show ?thesis using assms by (simp add: least_class_def)
qed

lemma table_sorted: "sorted (map unat (hz10_size_class_table cfg))"
  by (simp add: hz10_size_class_table_def)

lemma octave_cases:
  assumes "32 < (n :: nat)" "n \<le> 65536"
  obtains e where "e \<in> {5, 6, 7, 8, 9, 10, 11, 12, 13, 14, 15}" "2 ^ e < n" "n \<le> 2 ^ Suc e"
proof -
  obtain e where e: "2 ^ e < n" "n \<le> 2 ^ Suc e" using ex_power_ivl2 [of 2 n] assms by auto
  have "5 \<le> e"
  proof (rule ccontr)
    assume "\<not> 5 \<le> e"
    then have "(2::nat) ^ Suc e \<le> 2 ^ 5" by (intro power_increasing) auto
    with e(2) assms(1) show False by simp
  qed
  moreover have "e < 16" using e(1) assms(2) power_less_imp_less_exp [of "2::nat" e 16] by simp
  ultimately have "e \<in> {5, 6, 7, 8, 9, 10, 11, 12, 13, 14, 15}" by simp presburger
  with e show ?thesis by (intro that)
qed

lemmas word_nat_less = word_less_nat_alt word_le_nat_alt

lemma default_least:
  assumes "\<not> cfg_fine_size_classes cfg" "32 < unat sz" "unat sz \<le> 65536"
  shows "least_class (hz10_size_class_table cfg) sz (hz10_size_class_for cfg sz)"
proof -
  obtain e where e: "e \<in> {5, 6, 7, 8, 9, 10, 11, 12, 13, 14, 15}" "2 ^ e < unat sz"
    "unat sz \<le> 2 ^ Suc e" using octave_cases [OF assms(2,3)] by metis
  have exp: "size_exponent sz = e" by (rule size_exponent_eq) (use e in auto)
  have "sz \<noteq> 0" using assms(2) by auto
  then have "hz10_size_class_for cfg sz =
      (let low_pow = push_bit e (1 :: u64); half_point = low_pow + drop_bit 1 low_pow;
           base_index = 2 + (of_nat e - 5 :: u32) * 2
       in if sz \<le> half_point then base_index else base_index + 1)"
    using assms by (simp add: hz10_size_class_for_def exp word_nat_less Let_def)
  with e assms(2) show ?thesis
    by (elim insertE emptyE; intro least_classI [OF table_sorted])
       (simp_all add: assms(1) hz10_size_class_table_def word_nat_less Let_def)
qed

text \<open>The fine table between 64 and 8192: the step in quarter octaves.\<close>

lemma unat_drop_bit_dec: "w \<noteq> 0 \<Longrightarrow> unat (drop_bit k (w - 1 :: u64)) = (unat w - 1) div 2 ^ k"
  by (simp add: unat_drop_bit_eq drop_bit_eq_div [where 'a = nat] unat_dec del: drop_bit_eq_div)

lemma fine_step:
  assumes e: "6 \<le> e" "e \<le> 12" "2 ^ e < unat sz" "unat sz \<le> 2 ^ Suc e"
  shows "unat (drop_bit (e - 2) (sz - push_bit e (1 :: u64) + drop_bit 2 (push_bit e 1) - 1))
     = (unat sz - 2 ^ e + 2 ^ (e - 2) - 1) div 2 ^ (e - 2)"
proof -
  have p: "unat (push_bit e (1 :: u64)) = 2 ^ e"
    using e(2) by (simp add: unat_pow2_u64)
  have q: "unat (drop_bit 2 (push_bit e (1 :: u64))) = 2 ^ (e - 2)"
    using e(1,2)
    by (simp add: drop_bit_eq_div power_diff unat_div unat_pow2_u64)
  have small: "(2::nat) ^ (e - 2) \<le> 2 ^ 12" "(2::nat) ^ Suc e \<le> 2 ^ 13" "0 < (2::nat) ^ (e - 2)"
    by (intro power_increasing, use e in simp, simp)
      (intro power_increasing, use e in simp, simp, simp)
  have d: "unat (sz - push_bit e (1 :: u64)) = unat sz - 2 ^ e"
    using e(3) p by (simp add: unat_sub word_le_nat_alt)
  have s: "unat (sz - push_bit e (1 :: u64) + drop_bit 2 (push_bit e 1))
      = unat sz - 2 ^ e + 2 ^ (e - 2)"
    by (subst unat_add_no_wrap) (use d q small e(3,4) in simp_all)
  then have "sz - push_bit e (1 :: u64) + drop_bit 2 (push_bit e 1) \<noteq> 0" (is "?w \<noteq> 0")
    using small(3) by (metis add_is_0 less_numeral_extra(3) unat_0)
  from unat_drop_bit_dec [OF this] show ?thesis by (simp only: s)
qed

lemma ucast_u64_u32: "unat (ucast (x :: u64) :: u32) = unat x mod 4294967296"
  by (simp add: unsigned_ucast_eq take_bit_eq_mod)

lemma fine_class_64_8192:
  assumes f: "cfg_fine_size_classes cfg" and n: "64 < unat sz" "unat sz \<le> 8192"
    and e: "2 ^ e < unat sz" "unat sz \<le> 2 ^ Suc e" "6 \<le> e" "e \<le> 12"
  shows "unat (hz10_size_class_for cfg sz)
    = 3 + (e - 6) * 4 + (unat sz - 2 ^ e + 2 ^ (e - 2) - 1) div 2 ^ (e - 2)"
proof -
  let ?k = "(unat sz - 2 ^ e + 2 ^ (e - 2) - 1) div 2 ^ (e - 2)"
  have exp: "size_exponent sz = e" by (rule size_exponent_eq) (use e in auto)
  have "(2::nat) ^ e = 2 ^ (e - 2) * 4"
    using power_add [of "2::nat" "e - 2" 2] e(3) by (simp only: le_add_diff_inverse2) simp
  then have "unat sz - 2 ^ e + 2 ^ (e - 2) - 1 < 6 * 2 ^ (e - 2)" using e(1,2) by simp
  then have k: "?k < 6" by (simp add: less_mult_imp_div_less)
  have st: "unat (ucast (drop_bit (e - 2)
      (sz - push_bit e (1 :: u64) + drop_bit 2 (push_bit e 1) - 1)) :: u32) = ?k"
    using fine_step [OF e(3,4,1,2)] k by (simp add: ucast_u64_u32)
  have b: "unat (3 + (of_nat e - 6) * 4 :: u32) = 3 + (e - 6) * 4"
  proof -
    have "e \<in> {6, 7, 8, 9, 10, 11, 12}" using e(3,4) by simp presburger
    then show ?thesis by (elim insertE emptyE) simp_all
  qed
  have "hz10_size_class_for cfg sz = (3 + (of_nat e - 6) * 4) + ucast (drop_bit (e - 2)
      (sz - push_bit e (1 :: u64) + drop_bit 2 (push_bit e 1) - 1))"
    using f n by (auto simp: hz10_size_class_for_def exp word_nat_less Let_def)
  moreover have "(e - 6) * 4 \<le> 24" using e(4) by simp
  ultimately show ?thesis
    by (simp only:, subst unat_add_no_wrap) (use b st k in simp_all)
qed

lemma ceil_div:
  assumes "0 < (d :: nat)" "d \<le> 4 * Q" "0 < Q"
  defines "k \<equiv> (d + Q - 1) div Q"
  shows "k \<in> {1, 2, 3, 4}" "(k - 1) * Q < d" "d \<le> k * Q"
proof -
  have lo: "k * Q \<le> d + Q - 1" unfolding k_def by (rule div_times_less_eq_dividend)
  have hi: "d + Q - 1 < (k + 1) * Q"
    unfolding k_def using dividend_less_div_times [OF assms(3), of "d + Q - 1"] by simp
  show "d \<le> k * Q" using hi by simp
  have "k \<noteq> 0"
  proof
    assume "k = 0"
    with hi assms(1) show False by simp
  qed
  then show "(k - 1) * Q < d" using lo assms(1,3) by (auto simp: diff_mult_distrib)
  have "k * Q < 5 * Q" by (rule le_less_trans [OF lo]) (use assms(1-3) in linarith)
  then have "k < 5" by simp
  with \<open>k \<noteq> 0\<close> show "k \<in> {1, 2, 3, 4}" by auto
qed

lemma fine_least_64_8192:
  assumes f: "cfg_fine_size_classes cfg" and n: "64 < unat sz" "unat sz \<le> 8192"
  shows "least_class (hz10_size_class_table cfg) sz (hz10_size_class_for cfg sz)"
proof -
  obtain e where e: "2 ^ e < unat sz" "unat sz \<le> 2 ^ Suc e"
    "e \<in> {5, 6, 7, 8, 9, 10, 11, 12, 13, 14, 15}"
    by (rule octave_cases [of "unat sz"]) (use n in auto)
  define c where "c = hz10_size_class_for cfg sz"
  have c: "6 \<le> e \<Longrightarrow> e \<le> 12 \<Longrightarrow>
      unat c = 3 + (e - 6) * 4 + (unat sz - 2 ^ e + 2 ^ (e - 2) - 1) div 2 ^ (e - 2)"
    unfolding c_def by (rule fine_class_64_8192) (use assms e in auto)
  have e': "e \<in> {6, 7, 8, 9, 10, 11, 12}"
  proof -
    have "e \<noteq> 5" using e(2) n(1) by auto
    moreover have "e < 13"
      using e(1) n(2) power_less_imp_less_exp [of "2::nat" e 13] by simp
    ultimately show ?thesis using e(3) by auto
  qed
  define Q :: nat where "Q = 2 ^ (e - 2)"
  define q where "q = (unat sz - 2 ^ e + Q - 1) div Q"
  have Q: "2 ^ e = 4 * Q" "0 < Q" using e' by (auto simp: Q_def)
  have q: "q \<in> {1, 2, 3, 4}" "(q - 1) * Q < unat sz - 2 ^ e" "unat sz - 2 ^ e \<le> q * Q"
    using ceil_div [of "unat sz - 2 ^ e" Q] e(1,2) Q by (auto simp: q_def)
  have cq: "unat c = 3 + (e - 6) * 4 + q" using c e' by (auto simp: q_def Q_def)
  have "unat (hz10_size_class_table cfg ! (3 + (e - 6) * 4 + q)) = 2 ^ e + q * Q \<and>
      unat (hz10_size_class_table cfg ! (3 + (e - 6) * 4 + q - 1)) = 2 ^ e + (q - 1) * Q \<and>
      3 + (e - 6) * 4 + q < length (hz10_size_class_table cfg)"
    using e' q(1) unfolding Q_def
    by (elim insertE emptyE) (simp_all add: f hz10_size_class_table_def)
  then show ?thesis
    unfolding c_def [symmetric]
    by (intro least_classI [OF table_sorted]) (use cq q(2,3) e(1) in auto)
qed

lemma fine_least_large:
  assumes f: "cfg_fine_size_classes cfg" and n: "8192 < unat sz" "unat sz \<le> 65536"
  shows "least_class (hz10_size_class_table cfg) sz (hz10_size_class_for cfg sz)"
proof -
  obtain e where e: "2 ^ e < unat sz" "unat sz \<le> 2 ^ Suc e"
    "e \<in> {5, 6, 7, 8, 9, 10, 11, 12, 13, 14, 15}"
    by (rule octave_cases [of "unat sz"]) (use n in auto)
  have exp: "size_exponent sz = e" by (rule size_exponent_eq) (use e in auto)
  have "12 < e" using e(2) n(1) power_less_imp_less_exp [of "2::nat" 13 "Suc e"] by simp
  then have e': "e \<in> {13, 14, 15}" using e(3) by auto
  have "hz10_size_class_for cfg sz =
      (let low_pow = push_bit e (1 :: u64); half_point = low_pow + drop_bit 1 low_pow;
           base_index = 32 + (of_nat e - 13 :: u32) * 2
       in if sz \<le> half_point then base_index else base_index + 1)"
    using f n by (auto simp: hz10_size_class_for_def exp word_nat_less Let_def)
  with e' e(1,2) n show ?thesis
    by (elim insertE emptyE; intro least_classI [OF table_sorted])
       (auto simp: f hz10_size_class_table_def word_nat_less Let_def)
qed

lemma small_least:
  assumes "0 < unat sz" "unat sz \<le> 32 \<or> cfg_fine_size_classes cfg \<and> unat sz \<le> 64"
  shows "least_class (hz10_size_class_table cfg) sz (hz10_size_class_for cfg sz)"
  using assms
  by (auto simp: hz10_size_class_for_def least_class_def hz10_size_class_table_def word_nat_less)

lemma class_for_least:
  assumes "0 < unat sz" "unat sz \<le> 65536"
  shows "least_class (hz10_size_class_table cfg) sz (hz10_size_class_for cfg sz)"
  using assms small_least [of sz cfg] default_least [of cfg sz] fine_least_64_8192 [of cfg sz]
    fine_least_large [of cfg sz]
  by (meson not_le)

lemma class_count_length: "unat (hz10_class_count cfg) = length (hz10_size_class_table cfg)"
  by (simp add: hz10_class_count_def hz10_size_class_table_def)

lemma slot_size_nth:
  "unat c < length (hz10_size_class_table cfg) \<Longrightarrow>
     hz10_size_class_slot_size cfg c = hz10_size_class_table cfg ! unat c"
  by (simp add: hz10_size_class_slot_size_def word_le_nat_alt class_count_length)

lemma class_for_fits:
  assumes "0 < unat sz" "unat sz \<le> 65536"
  shows "hz10_size_class_for cfg sz < hz10_class_count cfg"
    and "unat sz \<le> unat (hz10_size_class_slot_size cfg (hz10_size_class_for cfg sz))"
  using class_for_least [OF assms, of cfg]
  by (auto simp: least_class_def word_less_nat_alt class_count_length slot_size_nth)

lemma table_props:
  "\<forall>t\<in>set (hz10_size_class_table cfg). 16 \<le> unat t \<and> unat t \<le> 65536 \<and> unat t mod 16 = 0"
  by (simp add: hz10_size_class_table_def)

lemma table_distinct: "distinct (map unat (hz10_size_class_table cfg))"
  by (simp add: hz10_size_class_table_def)

section \<open>Properties\<close>

text \<open>C15: For every request the bit arithmetic of \<open>hz10_size_class_for\<close> finds the least class of
  the table whose slot holds the request, in the default and in the fine table, and it answers
  \<open>HZ10_CLASS_COUNT\<close> exactly on 0 and on requests above one quantum.\<close>

theorem size_class_for_spec:
  "if sz = 0 \<or> 65536 < unat sz then hz10_size_class_for cfg sz = hz10_class_count cfg
   else least_class (hz10_size_class_table cfg) sz (hz10_size_class_for cfg sz)"
  using class_for_least [of sz cfg] by (auto simp: hz10_size_class_for_def word_less_nat_alt unat_gt_0)

text \<open>Every class describes a page the pagemap accepts: slots are multiples of 16 bytes, at
  least one fits, together they stay inside one 64 KiB quantum and waste less than one slot; an
  index outside the table has slot size and slot count 0.\<close>

theorem size_class_geometry:
  "if c < hz10_class_count cfg then
     (let s = unat (hz10_size_class_slot_size cfg c); n = unat (hz10_size_class_slot_count cfg c) in
      16 \<le> s \<and> s mod 16 = 0 \<and> 1 \<le> n \<and> s * n \<le> 65536 \<and> 65536 - s * n < s)
   else hz10_size_class_slot_size cfg c = 0 \<and> hz10_size_class_slot_count cfg c = 0"
proof (cases "c < hz10_class_count cfg")
  case True
  then have i: "unat c < length (hz10_size_class_table cfg)"
    by (simp add: word_less_nat_alt class_count_length)
  let ?s = "hz10_size_class_slot_size cfg c"
  have s: "16 \<le> unat ?s" "unat ?s \<le> 65536" "unat ?s mod 16 = 0"
    using table_props [of cfg] nth_mem [OF i] by (simp_all add: slot_size_nth [OF i])
  then have "?s \<noteq> 0" by auto
  then have n: "unat (hz10_size_class_slot_count cfg c) = 65536 div unat ?s"
    by (simp add: hz10_size_class_slot_count_def unat_div)
  have "65536 - unat ?s * (65536 div unat ?s) = 65536 mod unat ?s"
    by (simp add: minus_mult_div_eq_mod)
  moreover have "65536 mod unat ?s < unat ?s" using s by simp
  moreover have "1 \<le> 65536 div unat ?s" using s div_le_mono [of "unat ?s" 65536 "unat ?s"] by simp
  ultimately show ?thesis using True s n by (simp add: Let_def)
next
  case False
  then show ?thesis
    by (simp add: hz10_size_class_slot_size_def hz10_size_class_slot_count_def not_less)
qed

text \<open>Asking for exactly the slot size of a class gives that class back, so a block of the
  class can always be replaced by a request of its own usable size.\<close>

theorem size_class_roundtrip:
  assumes "c < hz10_class_count cfg"
  shows "hz10_size_class_for cfg (ucast (hz10_size_class_slot_size cfg c)) = c"
proof -
  let ?t = "hz10_size_class_table cfg"
  have i: "unat c < length ?t" using assms by (simp add: word_less_nat_alt class_count_length)
  have "16 \<le> unat (?t ! unat c)" "unat (?t ! unat c) \<le> 65536"
    using table_props [of cfg] nth_mem [OF i] by auto
  then have l: "least_class ?t (ucast (?t ! unat c)) (hz10_size_class_for cfg (ucast (?t ! unat c)))"
    (is "least_class _ _ ?d") by (intro class_for_least) simp_all
  have "unat ?d = unat c"
  proof (rule linorder_cases [of "unat ?d" "unat c"])
    assume "unat ?d < unat c"
    then have "map unat ?t ! unat ?d < map unat ?t ! unat c"
      using i sorted_nth_mono [OF table_sorted, of "unat ?d" "unat c" cfg]
        nth_eq_iff_index_eq [OF table_distinct, of "unat ?d" cfg "unat c"]
      by (simp add: order_less_le)
    with l i \<open>unat ?d < unat c\<close> show ?thesis by (simp add: least_class_def)
  next
    assume "unat c < unat ?d"
    then have "?t ! unat c \<in> set (take (unat ?d) ?t)" using i by (auto simp: in_set_conv_nth)
    with l show ?thesis by (auto simp: least_class_def)
  qed
  then show ?thesis using i by (simp add: slot_size_nth word_unat_eq_iff)
qed

theorem size_class_roundtrip_witness:
  "hz10_size_class_for default_config (ucast (hz10_size_class_slot_size default_config 22)) = 22"
  by (rule size_class_roundtrip) (simp add: hz10_class_count_def default_config_def)

end
