(* ===== verification/Hz10_Owner.thy ===== *)
theory Hz10_Owner
  imports Hz10_Class_Pages Hz10_Size_Class
begin

text \<open>
  \<open>hz10_public_entry_owner.{h,c}\<close>: thread owners and the orphan registry. An owner record, four
  bytes that outlive the thread, is carved from a slab; the owner itself, with the lists of all
  classes, is a mapping of its own. A thread is a number; \<open>hz10_current_owner\<close> is its thread-local
  pointer and \<open>hz10_owner_key_value\<close> its value under the thread key. The lists of an owner are
  found by their address inside it (\<open>list_addr\<close>). With \<open>HZ10_ENABLE_ORPHAN_ACTIVE_ADOPTION\<close> the active
  pages of an exiting thread go to the registry, one list per class, and other threads adopt
  them. A function that takes the registry lock is one step. The destructor is in
  \<open>Hz10_Public_Entry\<close>, because it flushes the front cache.
\<close>

record Hz10ThreadOwner =
  to_record :: addr
  to_active :: "nat \<Rightarrow> addr"

record Hz10OrphanAdoptionClassStats =
  oa_published_pages :: u64
  oa_pop_count :: u64
  oa_adopt_count :: u64
  oa_reject_class_count :: u64
  oa_reject_state_count :: u64
  oa_reject_no_capacity_count :: u64
  oa_repush_count :: u64
  oa_depth :: u64
  oa_max_depth :: u64

definition zero_adoption_stats :: Hz10OrphanAdoptionClassStats where
  "zero_adoption_stats = \<lparr>oa_published_pages = 0, oa_pop_count = 0, oa_adopt_count = 0,
     oa_reject_class_count = 0, oa_reject_state_count = 0, oa_reject_no_capacity_count = 0,
     oa_repush_count = 0, oa_depth = 0, oa_max_depth = 0\<rparr>"

record owner_state = class_state +
  owner_records :: "addr \<Rightarrow> u32"
  thread_owners :: "addr \<Rightarrow> Hz10ThreadOwner"
  hz10_current_owner :: "nat \<Rightarrow> addr"
  hz10_owner_slab_cursor :: addr
  hz10_owner_slab_end :: addr
  hz10_owner_key_once :: bool
  hz10_owner_key_ready :: bool
  hz10_owner_key_value :: "nat \<Rightarrow> addr"
  os_key_create_ok :: bool
  hz10_orphan_active :: "nat \<Rightarrow> Hz10PageSublist"
  hz10_orphan_adoption_stats :: "nat \<Rightarrow> Hz10OrphanAdoptionClassStats"
  hz10_orphan_drain_probe_owner :: addr

abbreviation (input) HZ10_THREAD_OWNER_STATE_LIVE :: u32 where "HZ10_THREAD_OWNER_STATE_LIVE \<equiv> 1"
abbreviation (input) HZ10_THREAD_OWNER_STATE_EXITED :: u32 where "HZ10_THREAD_OWNER_STATE_EXITED \<equiv> 2"
abbreviation (input) HZ10_OWNER_SLAB_BYTES :: u64 where "HZ10_OWNER_SLAB_BYTES \<equiv> HZ10_PAGE_QUANTUM"
abbreviation (input) HZ10_ORPHAN_ACTIVE_ADOPT_SCAN_BUDGET :: nat where
  "HZ10_ORPHAN_ACTIVE_ADOPT_SCAN_BUDGET \<equiv> 16"

text \<open>\<open>sizeof\<close> on a 64-bit target: a record is 4 bytes, a class state 8 + 408, an owner 8 plus its
  class states.\<close>

definition sizeof_thread_owner :: "hz10_config \<Rightarrow> u64" where
  "sizeof_thread_owner cfg = 8 + 416 * ucast (hz10_class_count cfg)"

definition list_addr :: "addr \<Rightarrow> nat \<Rightarrow> addr" where
  "list_addr owner c = owner + 16 + 416 * of_nat c"

section \<open>Owner records and owners\<close>

definition hz10_owner_record_alloc :: "'a owner_state_scheme \<Rightarrow> addr \<times> 'a owner_state_scheme" where
  "hz10_owner_record_alloc st =
    (let owner_bytes = (4 + 15) AND NOT 15 :: u64;
         (ok, st1) =
           (if hz10_owner_slab_cursor st = 0 \<or> hz10_owner_slab_end st - hz10_owner_slab_cursor st < owner_bytes
            then
              let slab_bytes = (if HZ10_OWNER_SLAB_BYTES < owner_bytes then owner_bytes else HZ10_OWNER_SLAB_BYTES);
                  (slab, st0) = hz10_platform_reserve_rw slab_bytes st
              in if slab = 0 then (False, st0)
                 else (True, st0\<lparr>hz10_owner_slab_cursor := slab, hz10_owner_slab_end := slab + slab_bytes\<rparr>)
            else (True, st))
     in if \<not> ok then (0, st1)
        else
          let owner = hz10_owner_slab_cursor st1;
              st2 = st1\<lparr>hz10_owner_slab_cursor := owner + owner_bytes\<rparr>
          in (owner, st2\<lparr>owner_records := (owner_records st2)(owner := HZ10_THREAD_OWNER_STATE_LIVE)\<rparr>))"

text \<open>\<open>memset(owner, 0, sizeof(*owner))\<close> on the lists and ready stacks inside the owner.\<close>

fun clear_classes :: "nat \<Rightarrow> addr \<Rightarrow> 'a owner_state_scheme \<Rightarrow> 'a owner_state_scheme" where
  "clear_classes 0 owner st = st"
| "clear_classes (Suc c) owner st =
    clear_classes c owner
      (set_stack (ready_addr (list_addr owner c)) \<lparr>rs_head = 0, rs_push_count = 0\<rparr>
        (upd_list (list_addr owner c) (\<lambda>_. empty_class_list) st))"

definition hz10_owner_alloc :: "hz10_config \<Rightarrow> 'a owner_state_scheme \<Rightarrow> addr \<times> 'a owner_state_scheme" where
  "hz10_owner_alloc cfg st =
    (let (record_ptr, st1) = hz10_owner_record_alloc st in
     if record_ptr = 0 then (0, st1)
     else
       let (owner, st2) = hz10_platform_reserve_rw (sizeof_thread_owner cfg) st1 in
       if owner = 0
       then (0, st2\<lparr>owner_records := (owner_records st2)(record_ptr := HZ10_THREAD_OWNER_STATE_EXITED)\<rparr>)
       else
         let st3 = clear_classes (unat (hz10_class_count cfg)) owner st2
         in (owner, st3\<lparr>thread_owners := (thread_owners st3)
                         (owner := \<lparr>to_record = record_ptr, to_active = (\<lambda>_. 0)\<rparr>)\<rparr>))"

definition hz10_owner_key_init :: "'a owner_state_scheme \<Rightarrow> 'a owner_state_scheme" where
  "hz10_owner_key_init st = st\<lparr>hz10_owner_key_ready := os_key_create_ok st\<rparr>"

definition hz10_owner_register_for_exit :: "nat \<Rightarrow> addr \<Rightarrow> 'a owner_state_scheme \<Rightarrow> 'a owner_state_scheme" where
  "hz10_owner_register_for_exit tid owner st =
    (let st1 = (if hz10_owner_key_once st then st
                else (hz10_owner_key_init st)\<lparr>hz10_owner_key_once := True\<rparr>)
     in if hz10_owner_key_ready st1
        then st1\<lparr>hz10_owner_key_value := (hz10_owner_key_value st1)(tid := owner)\<rparr>
        else st1)"

definition hz10_public_entry_current_owner_slow ::
  "hz10_config \<Rightarrow> nat \<Rightarrow> 'a owner_state_scheme \<Rightarrow> addr \<times> 'a owner_state_scheme" where
  "hz10_public_entry_current_owner_slow cfg tid st =
    (let (owner, st1) = hz10_owner_alloc cfg st in
     if owner = 0 then (0, st1)
     else (owner, hz10_owner_register_for_exit tid owner
                    (st1\<lparr>hz10_current_owner := (hz10_current_owner st1)(tid := owner)\<rparr>)))"

definition hz10_public_entry_current_owner_if_any :: "nat \<Rightarrow> 'a owner_state_scheme \<Rightarrow> addr" where
  "hz10_public_entry_current_owner_if_any tid st = hz10_current_owner st tid"

definition hz10_public_entry_current_owner ::
  "hz10_config \<Rightarrow> nat \<Rightarrow> 'a owner_state_scheme \<Rightarrow> addr \<times> 'a owner_state_scheme" where
  "hz10_public_entry_current_owner cfg tid st =
    (let owner = hz10_current_owner st tid in
     if owner \<noteq> 0 then (owner, st) else hz10_public_entry_current_owner_slow cfg tid st)"

definition hz10_public_entry_owner_record :: "addr \<Rightarrow> 'a owner_state_scheme \<Rightarrow> addr" where
  "hz10_public_entry_owner_record owner st = (if owner \<noteq> 0 then to_record (thread_owners st owner) else 0)"

definition hz10_public_entry_owner_state :: "addr \<Rightarrow> 'a owner_state_scheme \<Rightarrow> u32" where
  "hz10_public_entry_owner_state owner st = (if owner = 0 then 0 else owner_records st owner)"

section \<open>The orphan registry\<close>

definition upd_stats :: "nat \<Rightarrow> (Hz10OrphanAdoptionClassStats \<Rightarrow> Hz10OrphanAdoptionClassStats) \<Rightarrow>
    'a owner_state_scheme \<Rightarrow> 'a owner_state_scheme" where
  "upd_stats c f st = st\<lparr>hz10_orphan_adoption_stats :=
     (hz10_orphan_adoption_stats st)(c := f (hz10_orphan_adoption_stats st c))\<rparr>"

definition hz10_orphan_stats_depth_add :: "hz10_config \<Rightarrow> nat \<Rightarrow> u64 \<Rightarrow> 'a owner_state_scheme \<Rightarrow> 'a owner_state_scheme" where
  "hz10_orphan_stats_depth_add cfg c value st =
    (if value = 0 \<or> c \<ge> unat (hz10_class_count cfg) then st
     else upd_stats c (\<lambda>s. let depth = oa_depth s + value in
            s\<lparr>oa_depth := depth, oa_max_depth := if depth > oa_max_depth s then depth else oa_max_depth s\<rparr>) st)"

definition hz10_orphan_stats_depth_sub :: "hz10_config \<Rightarrow> nat \<Rightarrow> u64 \<Rightarrow> 'a owner_state_scheme \<Rightarrow> 'a owner_state_scheme" where
  "hz10_orphan_stats_depth_sub cfg c value st =
    (if value = 0 \<or> c \<ge> unat (hz10_class_count cfg) then st
     else upd_stats c (\<lambda>s. s\<lparr>oa_depth := oa_depth s - value\<rparr>) st)"

definition popcount :: "u64 \<Rightarrow> nat" where
  "popcount w = length (filter (bit w) [0..<64])"

fun hidden_pending_loop :: "nat \<Rightarrow> Hz10FreelistPage \<Rightarrow> u64" where
  "hidden_pending_loop 0 p = 0"
| "hidden_pending_loop (Suc i) p = hidden_pending_loop i p + of_nat (popcount (pg_pending_bits p i))"

definition hz10_orphan_hidden_pending_slots :: "Hz10FreelistPage \<Rightarrow> u64" where
  "hz10_orphan_hidden_pending_slots p = hidden_pending_loop (unat (pg_pending_words p)) p"

partial_function (option) hz10_orphan_note_published_at :: "addr \<Rightarrow> u64 \<Rightarrow> page_map \<Rightarrow> page_map option" where
  "hz10_orphan_note_published_at page now_ns P =
    (if page = 0 then Some P
     else
       let P1 = upd_pg page (\<lambda>p. p\<lparr>pg_orphaned_at_ns := now_ns\<rparr>) P
       in hz10_orphan_note_published_at (pg_next_in_owner_list (P1 page)) now_ns P1)"

text \<open>Joining the list \<open>sub\<close> to the end of \<open>dst\<close>.\<close>

definition sublist_join :: "Hz10PageSublist \<Rightarrow> Hz10PageSublist \<times> page_map \<Rightarrow> Hz10PageSublist \<times> page_map" where
  "sublist_join sub = (\<lambda>(dst, P).
    let (dst1, P1) = (if sl_tail dst \<noteq> 0
          then (dst, upd_pg (sl_head sub) (\<lambda>p. p\<lparr>pg_prev_in_owner_list := sl_tail dst\<rparr>)
                      (upd_pg (sl_tail dst) (\<lambda>p. p\<lparr>pg_next_in_owner_list := sl_head sub\<rparr>) P))
          else (dst\<lparr>sl_head := sl_head sub\<rparr>, P))
    in (dst1\<lparr>sl_tail := sl_tail sub, sl_length := sl_length dst1 + sl_length sub\<rparr>, P1))"

definition hz10_orphan_append_active ::
  "hz10_config \<Rightarrow> nat \<Rightarrow> addr \<Rightarrow> 'a owner_state_scheme \<Rightarrow> 'a owner_state_scheme option" where
  "hz10_orphan_append_active cfg c l st =
    (let sub = cl_active (class_lists st l) in
     if sl_head sub = 0 then Some st
     else
       let (now, st1) = hz10_platform_now_ns st in do {
         P \<leftarrow> hz10_orphan_note_published_at (sl_head sub) now (pages st1);
         let (dst, P1) = sublist_join sub (hz10_orphan_active st1 c, P);
         let st2 = upd_list l (\<lambda>cl. cl\<lparr>cl_active := empty_sublist\<rparr>)
                (st1\<lparr>pages := P1, hz10_orphan_active := (hz10_orphan_active st1)(c := dst)\<rparr>);
         Some (if c < unat (hz10_class_count cfg)
               then hz10_orphan_stats_depth_add cfg c (ucast (sl_length sub))
                      (upd_stats c (\<lambda>s. s\<lparr>oa_published_pages := oa_published_pages s + ucast (sl_length sub)\<rparr>) st2)
               else st2)
       })"

definition hz10_orphan_append_one :: "addr \<Rightarrow> Hz10PageSublist \<times> page_map \<Rightarrow> Hz10PageSublist \<times> page_map" where
  "hz10_orphan_append_one page = (\<lambda>(dst, P).
    let P1 = upd_pg page (\<lambda>p. p\<lparr>pg_next_in_owner_list := 0, pg_prev_in_owner_list := sl_tail dst,
               pg_owner_list_kind := HZ10_FREELIST_PAGE_OWNER_LIST_ACTIVE\<rparr>) P;
        (dst1, P2) = (if sl_tail dst \<noteq> 0
                      then (dst, upd_pg (sl_tail dst) (\<lambda>p. p\<lparr>pg_next_in_owner_list := page\<rparr>) P1)
                      else (dst\<lparr>sl_head := page\<rparr>, P1))
    in (dst1\<lparr>sl_tail := page, sl_length := sl_length dst1 + 1\<rparr>, P2))"

definition hz10_orphan_pop_one :: "Hz10PageSublist \<times> page_map \<Rightarrow> addr \<times> Hz10PageSublist \<times> page_map" where
  "hz10_orphan_pop_one = (\<lambda>(src, P).
    let page = sl_head src in
    if page = 0 then (0, src, P)
    else
      let src1 = src\<lparr>sl_head := pg_next_in_owner_list (P page)\<rparr>;
          (src2, P1) = (if sl_head src1 \<noteq> 0
                        then (src1, upd_pg (sl_head src1) (\<lambda>p. p\<lparr>pg_prev_in_owner_list := 0\<rparr>) P)
                        else (src1\<lparr>sl_tail := 0\<rparr>, P))
      in (page, src2\<lparr>sl_length := sl_length src2 - 1\<rparr>, upd_pg page unlinked P1))"

definition set_orphan_list :: "nat \<Rightarrow> Hz10PageSublist \<times> page_map \<Rightarrow> 'a owner_state_scheme \<Rightarrow> 'a owner_state_scheme" where
  "set_orphan_list c v st =
    st\<lparr>pages := snd v, hz10_orphan_active := (hz10_orphan_active st)(c := fst v)\<rparr>"

definition hz10_orphan_unlink_active_locked ::
  "hz10_config \<Rightarrow> nat \<Rightarrow> addr \<Rightarrow> 'a owner_state_scheme \<Rightarrow> 'a owner_state_scheme" where
  "hz10_orphan_unlink_active_locked cfg c page st =
    hz10_orphan_stats_depth_sub cfg c 1
      (set_orphan_list c (hz10_page_sublist_remove page (hz10_orphan_active st c, pages st)) st)"

definition hz10_orphan_pop_class :: "hz10_config \<Rightarrow> nat \<Rightarrow> 'a owner_state_scheme \<Rightarrow> addr \<times> 'a owner_state_scheme" where
  "hz10_orphan_pop_class cfg c st =
    (let (page, src, P) = hz10_orphan_pop_one (hz10_orphan_active st c, pages st);
         st1 = set_orphan_list c (src, P) st
     in (page, if page \<noteq> 0
               then hz10_orphan_stats_depth_sub cfg c 1 (upd_stats c (\<lambda>s. s\<lparr>oa_pop_count := oa_pop_count s + 1\<rparr>) st1)
               else st1))"

definition hz10_orphan_repush_class :: "hz10_config \<Rightarrow> nat \<Rightarrow> addr \<Rightarrow> 'a owner_state_scheme \<Rightarrow> 'a owner_state_scheme" where
  "hz10_orphan_repush_class cfg c page st =
    (let st1 = set_orphan_list c (hz10_orphan_append_one page (hz10_orphan_active st c, pages st)) st
     in if c < unat (hz10_class_count cfg)
        then hz10_orphan_stats_depth_add cfg c 1
               (upd_stats c (\<lambda>s. s\<lparr>oa_repush_count := oa_repush_count s + 1\<rparr>) st1)
        else st1)"

text \<open>Popping the head is removing the first node.\<close>

lemma pop_one_remove:
  assumes d: "dll P sub (x # vs)"
  shows "hz10_orphan_pop_one (sub, P) = (x, hz10_page_sublist_remove x (sub, P))"
proof -
  note ln = dll_links [of P sub "[]" x vs, unfolded append_Nil, OF d]
  have h: "sl_head sub = x" using dll_head [OF d] by simp
  have "vs \<noteq> [] \<Longrightarrow> hd vs \<noteq> x" using dll_distinct [OF d] by (cases vs) auto
  then show ?thesis using ln h dll_not_null [OF d]
    by (auto simp: hz10_orphan_pop_one_def hz10_page_sublist_remove_def sublist_splice_def
        Let_def upd_pg_simps split: list.splits)
qed

lemma append_one_correct:
  assumes "dll P sub xs" "page \<noteq> 0" "page \<notin> set xs" "length xs < 4294967295"
    and a: "hz10_orphan_append_one page (sub, P) = (sub', P')"
  shows "dll P' sub' (xs @ [page])" "\<And>a. a \<noteq> page \<Longrightarrow> a \<notin> set xs \<Longrightarrow> P' a = P a"
    "\<And>a. a \<noteq> page \<Longrightarrow> same_but_links (P' a) (P a)"
    "P' page = (P page)\<lparr>pg_next_in_owner_list := 0, pg_prev_in_owner_list := sl_tail sub, pg_owner_list_kind := 1\<rparr>"
  using push_back_correct [OF assms(1-4), where P' = P' and sub' = sub' and f = "\<lambda>p. p\<lparr>pg_next_in_owner_list := 0,
      pg_prev_in_owner_list := sl_tail sub, pg_owner_list_kind := 1\<rparr>"] a
  by (auto simp: hz10_orphan_append_one_def Let_def split: if_splits)

section \<open>Adoption\<close>

definition set_token :: "addr \<Rightarrow> addr \<Rightarrow> 'a page_heap_state_scheme \<Rightarrow> 'a page_heap_state_scheme" where
  "set_token page token st = set_page page (hz10_freelist_page_set_owner_thread token (pages st page)) st"

definition adopt_page :: "hz10_config \<Rightarrow> nat \<Rightarrow> addr \<Rightarrow> addr \<Rightarrow> 'a owner_state_scheme \<Rightarrow>
    (addr \<times> 'a owner_state_scheme) option" where
  "adopt_page cfg c adopter page st =
    (let st1 = upd_stats c (\<lambda>s. s\<lparr>oa_adopt_count := oa_adopt_count s + 1\<rparr>) st;
         st2 = set_page page (hz10_freelist_page_note_adopted (pages st1 page)) st1
     in do { st3 \<leftarrow> hz10_class_pages_add (list_addr adopter c) page st2; Some (page, st3) })"

fun adopt_scan :: "hz10_config \<Rightarrow> nat \<Rightarrow> nat \<Rightarrow> addr \<Rightarrow> 'a owner_state_scheme \<Rightarrow>
    (addr \<times> 'a owner_state_scheme) option" where
  "adopt_scan cfg 0 c adopter st = Some (0, st)"
| "adopt_scan cfg (Suc k) c adopter st =
    (let (page, st1) = hz10_orphan_pop_class cfg c st;
         old_owner = hz10_freelist_page_owner_thread (pages st1 page) in
     if page = 0 then Some (0, st1)
     else if cfg_partial_orphan_adoption cfg then
       if unat (pg_class_id (pages st1 page)) \<noteq> c then
         adopt_scan cfg k c adopter (hz10_orphan_repush_class cfg c page
           (upd_stats c (\<lambda>s. s\<lparr>oa_reject_class_count := oa_reject_class_count s + 1\<rparr>) st1))
       else if hz10_public_entry_owner_state old_owner st1 \<noteq> HZ10_THREAD_OWNER_STATE_EXITED then
         adopt_scan cfg k c adopter (hz10_orphan_repush_class cfg c page
           (upd_stats c (\<lambda>s. s\<lparr>oa_reject_state_count := oa_reject_state_count s + 1\<rparr>) st1))
       else do {
         (_, st2) \<leftarrow> drain_page page (set_token page (hz10_public_entry_owner_record adopter st1) st1);
         if hz10_freelist_page_has_capacity cfg (pages st2 page) then adopt_page cfg c adopter page st2
         else adopt_scan cfg k c adopter (hz10_orphan_repush_class cfg c page
                (upd_stats c (\<lambda>s. s\<lparr>oa_reject_no_capacity_count := oa_reject_no_capacity_count s + 1\<rparr>)
                  (set_token page old_owner st2)))
       }
     else do {
       (_, st2) \<leftarrow> drain_page page st1;
       if page_idle page st2
       then adopt_page cfg c adopter page (set_token page (hz10_public_entry_owner_record adopter st2) st2)
       else adopt_scan cfg k c adopter (hz10_orphan_repush_class cfg c page
              (upd_stats c (\<lambda>s. s\<lparr>oa_reject_no_capacity_count := oa_reject_no_capacity_count s + 1\<rparr>) st2))
     })"

definition hz10_public_entry_try_adopt_orphan_active :: "hz10_config \<Rightarrow> nat \<Rightarrow> addr \<Rightarrow>
    'a owner_state_scheme \<Rightarrow> (addr \<times> 'a owner_state_scheme) option" where
  "hz10_public_entry_try_adopt_orphan_active cfg c adopter st =
    (if \<not> cfg_orphan_active_adoption cfg then Some (0, st)
     else if adopter = 0 \<or> c \<ge> unat (hz10_class_count cfg) then Some (0, st)
     else adopt_scan cfg HZ10_ORPHAN_ACTIVE_ADOPT_SCAN_BUDGET c adopter st)"

definition hz10_public_entry_orphan_adoption_class_stats ::
  "hz10_config \<Rightarrow> nat \<Rightarrow> 'a owner_state_scheme \<Rightarrow> Hz10OrphanAdoptionClassStats" where
  "hz10_public_entry_orphan_adoption_class_stats cfg c st =
    (if \<not> cfg_orphan_active_adoption cfg \<or> c \<ge> unat (hz10_class_count cfg) then zero_adoption_stats
     else hz10_orphan_adoption_stats st c)"

section \<open>Probes and the quiescent purge\<close>

record Hz10OrphanRegistryProbeClassStats =
  pr_depth :: u64
  pr_idle_pages :: u64
  pr_live_pinned_pages :: u64
  pr_hidden_pending_slots :: u64
  pr_age_lt_100ms :: u64
  pr_age_lt_1s :: u64
  pr_age_lt_4s :: u64
  pr_age_lt_16s :: u64
  pr_age_ge_16s :: u64

definition zero_probe_stats :: Hz10OrphanRegistryProbeClassStats where
  "zero_probe_stats = \<lparr>pr_depth = 0, pr_idle_pages = 0, pr_live_pinned_pages = 0,
     pr_hidden_pending_slots = 0, pr_age_lt_100ms = 0, pr_age_lt_1s = 0, pr_age_lt_4s = 0,
     pr_age_lt_16s = 0, pr_age_ge_16s = 0\<rparr>"

definition probe_page :: "u64 \<Rightarrow> Hz10FreelistPage \<Rightarrow> Hz10OrphanRegistryProbeClassStats \<Rightarrow>
    Hz10OrphanRegistryProbeClassStats" where
  "probe_page now_ns p out =
    (let out1 = out\<lparr>pr_depth := pr_depth out + 1\<rparr>;
         out2 = (if pg_free_count p = pg_slot_count p
                 then out1\<lparr>pr_idle_pages := pr_idle_pages out1 + 1\<rparr>
                 else out1\<lparr>pr_live_pinned_pages := pr_live_pinned_pages out1 + 1\<rparr>);
         out3 = out2\<lparr>pr_hidden_pending_slots :=
                  pr_hidden_pending_slots out2 + hz10_orphan_hidden_pending_slots p\<rparr>;
         age_ns = now_ns - pg_orphaned_at_ns p in
     if age_ns < 100000000 then out3\<lparr>pr_age_lt_100ms := pr_age_lt_100ms out3 + 1\<rparr>
     else if age_ns < 1000000000 then out3\<lparr>pr_age_lt_1s := pr_age_lt_1s out3 + 1\<rparr>
     else if age_ns < 4000000000 then out3\<lparr>pr_age_lt_4s := pr_age_lt_4s out3 + 1\<rparr>
     else if age_ns < 16000000000 then out3\<lparr>pr_age_lt_16s := pr_age_lt_16s out3 + 1\<rparr>
     else out3\<lparr>pr_age_ge_16s := pr_age_ge_16s out3 + 1\<rparr>)"

partial_function (option) probe_loop :: "u64 \<Rightarrow> addr \<Rightarrow> page_map \<Rightarrow> Hz10OrphanRegistryProbeClassStats \<Rightarrow>
    Hz10OrphanRegistryProbeClassStats option" where
  "probe_loop now_ns page P out =
    (if page = 0 then Some out
     else probe_loop now_ns (pg_next_in_owner_list (P page)) P (probe_page now_ns (P page) out))"

definition hz10_public_entry_orphan_registry_probe_class_stats ::
  "hz10_config \<Rightarrow> nat \<Rightarrow> u64 \<Rightarrow> 'a owner_state_scheme \<Rightarrow> Hz10OrphanRegistryProbeClassStats option" where
  "hz10_public_entry_orphan_registry_probe_class_stats cfg c now_ns st =
    (if \<not> cfg_orphan_active_adoption cfg \<or> c \<ge> unat (hz10_class_count cfg) then Some zero_probe_stats
     else probe_loop now_ns (sl_head (hz10_orphan_active st c)) (pages st) zero_probe_stats)"

record Hz10OrphanRegistryDrainProbeClassStats =
  dp_depth :: u64
  dp_already_idle_pages :: u64
  dp_drain_idle_pages :: u64
  dp_drain_capacity_pages :: u64
  dp_truly_live_pinned_pages :: u64
  dp_skipped_live_owner_pages :: u64
  dp_pending_before_slots :: u64
  dp_merged_slots :: u64

definition zero_drain_probe_stats :: Hz10OrphanRegistryDrainProbeClassStats where
  "zero_drain_probe_stats = \<lparr>dp_depth = 0, dp_already_idle_pages = 0, dp_drain_idle_pages = 0,
     dp_drain_capacity_pages = 0, dp_truly_live_pinned_pages = 0, dp_skipped_live_owner_pages = 0,
     dp_pending_before_slots = 0, dp_merged_slots = 0\<rparr>"

definition probe_owner_live :: "'a owner_state_scheme \<Rightarrow> 'a owner_state_scheme" where
  "probe_owner_live st = st\<lparr>owner_records := (owner_records st)
     (hz10_orphan_drain_probe_owner st := HZ10_THREAD_OWNER_STATE_LIVE)\<rparr>"

partial_function (option) drain_probe_loop :: "addr \<Rightarrow> Hz10OrphanRegistryDrainProbeClassStats \<Rightarrow>
    'a owner_state_scheme \<Rightarrow> (Hz10OrphanRegistryDrainProbeClassStats \<times> 'a owner_state_scheme) option" where
  "drain_probe_loop page out st =
    (if page = 0 then Some (out, st)
     else
       let p = pages st page;
           pending_before = hz10_orphan_hidden_pending_slots p;
           out1 = out\<lparr>dp_depth := dp_depth out + 1,
                     dp_pending_before_slots := dp_pending_before_slots out + pending_before\<rparr>;
           old_owner = hz10_freelist_page_owner_thread p in
       if pg_free_count p = pg_slot_count p then
         drain_probe_loop (pg_next_in_owner_list p)
           (out1\<lparr>dp_already_idle_pages := dp_already_idle_pages out1 + 1\<rparr>) st
       else if hz10_public_entry_owner_state old_owner st \<noteq> HZ10_THREAD_OWNER_STATE_EXITED then
         drain_probe_loop (pg_next_in_owner_list p)
           (out1\<lparr>dp_skipped_live_owner_pages := dp_skipped_live_owner_pages out1 + 1\<rparr>) st
       else do {
         (merged, st1) \<leftarrow> drain_page page (set_token page (hz10_orphan_drain_probe_owner st) st);
         let st2 = set_token page old_owner st1;
         let out2 = out1\<lparr>dp_merged_slots := dp_merged_slots out1 + ucast merged\<rparr>;
         let out3 = (if page_idle page st2
                     then out2\<lparr>dp_drain_idle_pages := dp_drain_idle_pages out2 + 1\<rparr>
                     else if merged > 0
                     then out2\<lparr>dp_drain_capacity_pages := dp_drain_capacity_pages out2 + 1\<rparr>
                     else out2\<lparr>dp_truly_live_pinned_pages := dp_truly_live_pinned_pages out2 + 1\<rparr>);
         drain_probe_loop (pg_next_in_owner_list (pages st2 page)) out3 st2
       })"

definition hz10_public_entry_orphan_registry_drain_probe_class_stats ::
  "hz10_config \<Rightarrow> nat \<Rightarrow> 'a owner_state_scheme \<Rightarrow>
     (Hz10OrphanRegistryDrainProbeClassStats \<times> 'a owner_state_scheme) option" where
  "hz10_public_entry_orphan_registry_drain_probe_class_stats cfg c st =
    (if \<not> cfg_orphan_active_adoption cfg \<or> c \<ge> unat (hz10_class_count cfg)
     then Some (zero_drain_probe_stats, st)
     else
       let st1 = probe_owner_live st in
       drain_probe_loop (sl_head (hz10_orphan_active st1 c)) zero_drain_probe_stats st1)"

record Hz10OrphanRegistryPurgeStats =
  pu_pages_seen :: u64
  pu_pages_drained :: u64
  pu_pages_reclaimed :: u64
  pu_pages_busy :: u64
  pu_pages_skipped_live_owner :: u64
  pu_slots_merged :: u64

definition zero_purge_stats :: Hz10OrphanRegistryPurgeStats where
  "zero_purge_stats = \<lparr>pu_pages_seen = 0, pu_pages_drained = 0, pu_pages_reclaimed = 0,
     pu_pages_busy = 0, pu_pages_skipped_live_owner = 0, pu_slots_merged = 0\<rparr>"

text \<open>One class of the purge: \<open>(stats, destroy_head, state)\<close>.\<close>

partial_function (option) purge_orphan_loop :: "hz10_config \<Rightarrow> nat \<Rightarrow> addr \<Rightarrow> Hz10OrphanRegistryPurgeStats \<Rightarrow>
    addr \<Rightarrow> 'a owner_state_scheme \<Rightarrow> (Hz10OrphanRegistryPurgeStats \<times> addr \<times> 'a owner_state_scheme) option" where
  "purge_orphan_loop cfg c page stats destroy_head st =
    (if page = 0 then Some (stats, destroy_head, st)
     else
       let nxt = pg_next_in_owner_list (pages st page);
           stats1 = stats\<lparr>pu_pages_seen := pu_pages_seen stats + 1\<rparr>;
           old_owner = hz10_freelist_page_owner_thread (pages st page) in
       if hz10_public_entry_owner_state old_owner st \<noteq> HZ10_THREAD_OWNER_STATE_EXITED then
         purge_orphan_loop cfg c nxt
           (stats1\<lparr>pu_pages_skipped_live_owner := pu_pages_skipped_live_owner stats1 + 1\<rparr>) destroy_head st
       else do {
         (merged, st1) \<leftarrow> drain_page page (set_token page (hz10_orphan_drain_probe_owner st) st);
         let stats2 = stats1\<lparr>pu_slots_merged := pu_slots_merged stats1 + ucast merged\<rparr>;
         let stats3 = (if merged > 0 then stats2\<lparr>pu_pages_drained := pu_pages_drained stats2 + 1\<rparr> else stats2);
         if page_idle page st1 then
           let st2 = hz10_orphan_unlink_active_locked cfg c page st1;
               st3 = st2\<lparr>pages := upd_pg page (\<lambda>p. p\<lparr>pg_next_in_owner_list := destroy_head\<rparr>) (pages st2)\<rparr>
           in purge_orphan_loop cfg c nxt
                (stats3\<lparr>pu_pages_reclaimed := pu_pages_reclaimed stats3 + 1\<rparr>) page st3
         else
           purge_orphan_loop cfg c nxt
             (stats3\<lparr>pu_pages_busy := pu_pages_busy stats3 + 1\<rparr>) destroy_head (set_token page old_owner st1)
       })"

text \<open>The loop over the classes; the first argument counts those that are left.\<close>

fun purge_orphan_classes :: "hz10_config \<Rightarrow> nat \<Rightarrow> nat \<Rightarrow> Hz10OrphanRegistryPurgeStats \<Rightarrow> addr \<Rightarrow>
    'a owner_state_scheme \<Rightarrow> (Hz10OrphanRegistryPurgeStats \<times> addr \<times> 'a owner_state_scheme) option" where
  "purge_orphan_classes cfg 0 c stats destroy_head st = Some (stats, destroy_head, st)"
| "purge_orphan_classes cfg (Suc k) c stats destroy_head st =
    do {
      (stats1, destroy_head1, st1) \<leftarrow>
        purge_orphan_loop cfg c (sl_head (hz10_orphan_active st c)) stats destroy_head st;
      purge_orphan_classes cfg k (Suc c) stats1 destroy_head1 st1
    }"

partial_function (option) purge_destroy_loop :: "addr \<Rightarrow> 'a owner_state_scheme \<Rightarrow> 'a owner_state_scheme option" where
  "purge_destroy_loop destroy_head st =
    (if destroy_head = 0 then Some st
     else
       let nxt = pg_next_in_owner_list (pages st destroy_head);
           st1 = st\<lparr>pages := upd_pg destroy_head (\<lambda>p. p\<lparr>pg_next_in_owner_list := 0\<rparr>) (pages st)\<rparr>
       in purge_destroy_loop nxt (hz10_pooled_page_destroy destroy_head st1))"

definition hz10_public_entry_purge_orphan_registry_quiescent :: "hz10_config \<Rightarrow> 'a owner_state_scheme \<Rightarrow>
    (Hz10OrphanRegistryPurgeStats \<times> 'a owner_state_scheme) option" where
  "hz10_public_entry_purge_orphan_registry_quiescent cfg st =
    (if \<not> cfg_orphan_active_adoption cfg then Some (zero_purge_stats, st)
     else do {
       (stats, destroy_head, st1) \<leftarrow> purge_orphan_classes cfg (unat (hz10_class_count cfg)) 0
          zero_purge_stats 0 (probe_owner_live st);
       st2 \<leftarrow> purge_destroy_loop destroy_head st1;
       Some (stats, st2)
     })"

end
