(* ===== verification/Hz10_Large_Alloc.thy ===== *)
theory Hz10_Large_Alloc
  imports Hz10_Page_Lifecycle
begin

text \<open>
  \<open>hz10_large_alloc.{h,c}\<close>, POSIX branch: allocations above one quantum. A large block is its own
  mapping, rounded up to whole quanta and aligned by over-reserving one quantum and trimming; its
  first quantum is registered with flag \<open>LARGE\<close>, one slot and no owner.
\<close>

abbreviation (input) HZ10_PAGEMAP_FLAG_LARGE :: u32 where "HZ10_PAGEMAP_FLAG_LARGE \<equiv> 1"

abbreviation (input) SIZE_MAX :: u64 where "SIZE_MAX \<equiv> 0xffffffffffffffff"

definition hz10_large_reserve_aligned :: "u64 \<Rightarrow> 'a platform_state_scheme \<Rightarrow> addr \<times> 'a platform_state_scheme" where
  "hz10_large_reserve_aligned rounded_size st =
    (let raw_bytes = rounded_size + HZ10_PAGE_QUANTUM;
         (raw_addr, st1) = hz10_platform_reserve_rw raw_bytes st in
     if raw_addr = 0 then (0, st1)
     else
       let aligned_addr = (raw_addr + (HZ10_PAGE_QUANTUM - 1)) AND NOT (HZ10_PAGE_QUANTUM - 1);
           head_trim = aligned_addr - raw_addr;
           tail_trim = raw_bytes - head_trim - rounded_size;
           st2 = (if head_trim > 0 then hz10_platform_release raw_addr head_trim st1 else st1);
           st3 = (if tail_trim > 0 then hz10_platform_release (aligned_addr + rounded_size) tail_trim st2 else st2)
       in (aligned_addr, st3))"

definition hz10_large_rounded :: "u64 \<Rightarrow> u64" where
  "hz10_large_rounded sz = (sz + HZ10_PAGE_QUANTUM - 1) div HZ10_PAGE_QUANTUM * HZ10_PAGE_QUANTUM"

definition hz10_large_alloc :: "u64 \<Rightarrow> 'a pagemap_state_scheme \<Rightarrow> addr \<times> 'a pagemap_state_scheme" where
  "hz10_large_alloc sz st =
    (if sz = 0 then (0, st)
     else if sz > SIZE_MAX - HZ10_PAGE_QUANTUM then (0, st)
     else
       let rounded_size = hz10_large_rounded sz in
       if rounded_size > 0xffffffff then (0, st)
       else
         let (base, st1) = hz10_large_reserve_aligned rounded_size st in
         if base = 0 then (0, st1)
         else
           let (generation, st2) = hz10_pagemap_register_with_owner_and_flags base (ucast rounded_size) 1 0
                 HZ10_PAGEMAP_FLAG_LARGE st1 in
           if generation = 0 then (0, hz10_platform_release base rounded_size st2)
           else (base, st2))"

definition hz10_large_free :: "addr \<Rightarrow> u32 \<Rightarrow> 'a pagemap_state_scheme \<Rightarrow> 'a pagemap_state_scheme" where
  "hz10_large_free base rounded_size st =
    (if base = 0 then st
     else hz10_platform_release base (ucast rounded_size) (snd (hz10_pagemap_release base st)))"

end
