(* ===== verification/Hz10_Public_Entry.thy ===== *)
theory Hz10_Public_Entry
  imports Hz10_Owner Hz10_Large_Alloc
begin

text \<open>
  \<open>hz10_public_entry.{h,c}\<close> and the owner destructor of \<open>hz10_public_entry_owner.c\<close>: what \<open>malloc\<close>
  and \<open>free\<close> do. The page layer finds a page with capacity for a class (the active page, the scan,
  the harvest, an orphan, a fresh page); the optional front cache
  (\<open>HZ10_ENABLE_FRONT_CACHE\<close>, the intrusive variant) keeps freed slots per thread and class in front
  of it. The first argument of an operation is the thread that calls it; \<open>hz10_stripe_token\<close> is the
  address of the thread-local byte that picks its remote stripe. Operations return an
  option because the page layer drains remote lists.
\<close>

record Hz10FrontCache =
  fc_head :: addr
  fc_count :: u32
  fc_cap :: u32
  fc_refill_batch :: u32
  fc_slot_size :: u32

definition zero_front_cache :: Hz10FrontCache where
  "zero_front_cache = \<lparr>fc_head = 0, fc_count = 0, fc_cap = 0, fc_refill_batch = 0, fc_slot_size = 0\<rparr>"

record entry_state = owner_state +
  hz10_front_cache :: "nat \<Rightarrow> nat \<Rightarrow> Hz10FrontCache"
  hz10_stripe_token :: "nat \<Rightarrow> addr"

definition set_fc :: "nat \<Rightarrow> nat \<Rightarrow> Hz10FrontCache \<Rightarrow> 'a entry_state_scheme \<Rightarrow> 'a entry_state_scheme" where
  "set_fc tid c fc st = st\<lparr>hz10_front_cache := (hz10_front_cache st)
     (tid := (hz10_front_cache st tid)(c := fc))\<rparr>"

abbreviation (input) HZ10_FRONT_CACHE_CLASS_BYTES :: u32 where "HZ10_FRONT_CACHE_CLASS_BYTES \<equiv> 2097152"
abbreviation (input) HZ10_FRONT_CACHE_MIN_OBJECTS :: u32 where "HZ10_FRONT_CACHE_MIN_OBJECTS \<equiv> 8"
abbreviation (input) HZ10_FRONT_CACHE_MAX_OBJECTS :: u32 where "HZ10_FRONT_CACHE_MAX_OBJECTS \<equiv> 4096"
abbreviation (input) HZ10_FRONT_CACHE_REFILL_BYTES :: u32 where "HZ10_FRONT_CACHE_REFILL_BYTES \<equiv> 65536"
abbreviation (input) HZ10_FRONT_CACHE_MAX_REFILL_OBJECTS :: u32 where "HZ10_FRONT_CACHE_MAX_REFILL_OBJECTS \<equiv> 32"
abbreviation (input) HZ10_RETIRED_LOCAL_IDLE_MIN_CLASS_ID :: u32 where "HZ10_RETIRED_LOCAL_IDLE_MIN_CLASS_ID \<equiv> 4"

definition HZ10_RETIRED_LOCAL_IDLE_MAX_CLASS_ID :: "hz10_config \<Rightarrow> u32" where
  "HZ10_RETIRED_LOCAL_IDLE_MAX_CLASS_ID cfg = (if cfg_fine_size_classes cfg then 27 else 15)"

section \<open>The page layer\<close>

definition set_active :: "addr \<Rightarrow> nat \<Rightarrow> addr \<Rightarrow> 'a owner_state_scheme \<Rightarrow> 'a owner_state_scheme" where
  "set_active owner c page st = st\<lparr>thread_owners := (thread_owners st)(owner :=
     (thread_owners st owner)\<lparr>to_active := (to_active (thread_owners st owner))(c := page)\<rparr>)\<rparr>"

text \<open>What the slow path does once the active page has nothing: scan, harvest, adopt, create.\<close>

definition page_layer_fresh :: "hz10_config \<Rightarrow> nat \<Rightarrow> addr \<Rightarrow> 'a owner_state_scheme \<Rightarrow>
    (addr \<times> 'a owner_state_scheme) option" where
  "page_layer_fresh cfg c owner st =
    (let (fresh, st1) = hz10_pooled_page_create_with_owner cfg
            (hz10_size_class_slot_size cfg (of_nat c)) (hz10_size_class_slot_count cfg (of_nat c)) st in
     if fresh = 0 then Some (0, st1)
     else
       let st2 = set_token fresh (hz10_public_entry_owner_record owner st1) st1;
           st3 = set_page fresh (hz10_freelist_page_set_class_id (of_nat c) (pages st2 fresh)) st2
       in do {
         st4 \<leftarrow> hz10_class_pages_add (list_addr owner c) fresh st3;
         Some (page_alloc cfg fresh (set_active owner c fresh st4))
       })"

definition page_layer_search :: "hz10_config \<Rightarrow> nat \<Rightarrow> addr \<Rightarrow> 'a owner_state_scheme \<Rightarrow>
    (addr \<times> 'a owner_state_scheme) option" where
  "page_layer_search cfg c owner st =
    do {
      (found, st1) \<leftarrow> hz10_class_pages_find_with_capacity cfg (list_addr owner c) st;
      if found \<noteq> 0 then Some (page_alloc cfg found (set_active owner c found st1))
      else do {
        (harvested, st2) \<leftarrow> hz10_class_pages_harvest_retired_capacity cfg (list_addr owner c) st1;
        if harvested \<noteq> 0 then Some (page_alloc cfg harvested (set_active owner c harvested st2))
        else do {
          (adopted, st3) \<leftarrow> hz10_public_entry_try_adopt_orphan_active cfg c owner st2;
          if adopted \<noteq> 0 then
            (case page_alloc cfg adopted (set_active owner c adopted st3) of
               (ptr, st4) \<Rightarrow> if ptr \<noteq> 0 then Some (ptr, st4) else page_layer_fresh cfg c owner st4)
          else page_layer_fresh cfg c owner st3
        }
      }
    }"

definition hz10_public_entry_alloc_from_page_layer_slow :: "nat \<Rightarrow> hz10_config \<Rightarrow> nat \<Rightarrow>
    'a owner_state_scheme \<Rightarrow> (addr \<times> 'a owner_state_scheme) option" where
  "hz10_public_entry_alloc_from_page_layer_slow tid cfg c st =
    (let (owner, st1) = hz10_public_entry_current_owner cfg tid st in
     if owner = 0 then Some (0, st1)
     else
       let active = to_active (thread_owners st1 owner) c in
       if active = 0 then page_layer_search cfg c owner st1
       else
         (case page_alloc cfg active st1 of (ptr, st2) \<Rightarrow>
            if ptr \<noteq> 0 then Some (ptr, st2)
            else do {
              (merged, st3) \<leftarrow> drain_page active st2;
              if merged > 0 then
                (case page_alloc cfg active st3 of (ptr', st4) \<Rightarrow>
                   if ptr' \<noteq> 0 then Some (ptr', st4) else page_layer_search cfg c owner st4)
              else page_layer_search cfg c owner st3
            }))"

definition hz10_public_entry_alloc_from_page_layer :: "nat \<Rightarrow> hz10_config \<Rightarrow> nat \<Rightarrow>
    'a owner_state_scheme \<Rightarrow> (addr \<times> 'a owner_state_scheme) option" where
  "hz10_public_entry_alloc_from_page_layer tid cfg c st =
    (let owner = hz10_public_entry_current_owner_if_any tid st in
     if owner = 0 then hz10_public_entry_alloc_from_page_layer_slow tid cfg c st
     else
       let active = to_active (thread_owners st owner) c in
       if active = 0 then hz10_public_entry_alloc_from_page_layer_slow tid cfg c st
       else
         (case page_alloc cfg active st of (ptr, st1) \<Rightarrow>
            if ptr = 0 then hz10_public_entry_alloc_from_page_layer_slow tid cfg c st1
            else Some (ptr, st1)))"

definition hz10_public_entry_note_owner_local_free :: "nat \<Rightarrow> hz10_config \<Rightarrow> u32 \<Rightarrow> addr \<Rightarrow>
    'a owner_state_scheme \<Rightarrow> 'a owner_state_scheme option" where
  "hz10_public_entry_note_owner_local_free tid cfg class_id page st =
    (if cfg_retired_local_idle cfg \<and>
        class_id \<ge> HZ10_RETIRED_LOCAL_IDLE_MIN_CLASS_ID \<and>
        class_id \<le> HZ10_RETIRED_LOCAL_IDLE_MAX_CLASS_ID cfg \<and> page \<noteq> 0 \<and>
        pg_slot_size (pages st page) \<ge> HZ10_RETIRED_LOCAL_IDLE_MIN_SLOT_SIZE \<and>
        pg_slot_size (pages st page) \<le> HZ10_RETIRED_LOCAL_IDLE_MAX_SLOT_SIZE \<and>
        page_idle page st \<and>
        pg_owner_list_kind (pages st page) = HZ10_FREELIST_PAGE_OWNER_LIST_RETIRED \<and>
        class_id < hz10_class_count cfg
     then
       let owner = hz10_public_entry_current_owner_if_any tid st in
       if owner = 0 then Some st
       else do {
         (_, st1) \<leftarrow> hz10_class_pages_reclaim_retired_idle_after_local_free cfg
           (list_addr owner (unat class_id)) page st;
         Some st1
       }
     else Some st)"

section \<open>The front cache\<close>

definition hz10_front_cache_set_marker :: "u32 \<Rightarrow> addr \<Rightarrow> memory \<Rightarrow> memory" where
  "hz10_front_cache_set_marker slot_size ptr m =
    (if slot_size \<ge> 16 then m(ptr + 8 := HZ10_FREELIST_LOCAL_MARKER) else m)"

definition hz10_front_cache_clear_marker :: "u32 \<Rightarrow> addr \<Rightarrow> memory \<Rightarrow> memory" where
  "hz10_front_cache_clear_marker slot_size ptr m = (if slot_size \<ge> 16 then m(ptr + 8 := 0) else m)"

definition hz10_front_cache_init :: "hz10_config \<Rightarrow> nat \<Rightarrow> Hz10FrontCache \<Rightarrow> Hz10FrontCache" where
  "hz10_front_cache_init cfg c fc =
    (let slot_size = hz10_size_class_slot_size cfg (of_nat c);
         cap = HZ10_FRONT_CACHE_CLASS_BYTES div slot_size;
         cap = (if cap < HZ10_FRONT_CACHE_MIN_OBJECTS then HZ10_FRONT_CACHE_MIN_OBJECTS else cap);
         cap = (if cap > HZ10_FRONT_CACHE_MAX_OBJECTS then HZ10_FRONT_CACHE_MAX_OBJECTS else cap);
         batch = HZ10_FRONT_CACHE_REFILL_BYTES div slot_size;
         batch = (if batch < 1 then 1 else batch);
         batch = (if batch > HZ10_FRONT_CACHE_MAX_REFILL_OBJECTS then HZ10_FRONT_CACHE_MAX_REFILL_OBJECTS else batch);
         batch = (if batch > cap then cap else batch)
     in fc\<lparr>fc_slot_size := slot_size, fc_refill_batch := batch, fc_cap := cap\<rparr>)"

text \<open>The flush loop; the first argument is how many objects are over the target.\<close>

fun flush_loop :: "nat \<Rightarrow> nat \<Rightarrow> hz10_config \<Rightarrow> nat \<Rightarrow> 'a entry_state_scheme \<Rightarrow> 'a entry_state_scheme option" where
  "flush_loop 0 tid cfg c st = Some st"
| "flush_loop (Suc k) tid cfg c st =
    (let fc = hz10_front_cache st tid c;
         slot = fc_head fc;
         st1 = set_fc tid c (fc\<lparr>fc_head := mem st slot, fc_count := fc_count fc - 1\<rparr>) st;
         route = hz10_pagemap_route slot HZ10_GENERATION_ANY st1 in
     if rr_kind route \<noteq> H10_ROUTE_VALID \<or> rr_owner route = 0 then flush_loop k tid cfg c st1
     else
       let page = rr_owner route;
           st2 = page_free page slot st1
       in do {
         st3 \<leftarrow> hz10_public_entry_note_owner_local_free tid cfg (pg_class_id (pages st2 page)) page st2;
         flush_loop k tid cfg c st3
       })"

definition hz10_front_cache_flush_to_count :: "nat \<Rightarrow> hz10_config \<Rightarrow> nat \<Rightarrow> u32 \<Rightarrow>
    'a entry_state_scheme \<Rightarrow> 'a entry_state_scheme option" where
  "hz10_front_cache_flush_to_count tid cfg c target_count st =
    flush_loop (unat (fc_count (hz10_front_cache st tid c)) - unat target_count) tid cfg c st"

fun refill_loop :: "nat \<Rightarrow> nat \<Rightarrow> hz10_config \<Rightarrow> nat \<Rightarrow> 'a entry_state_scheme \<Rightarrow> 'a entry_state_scheme option" where
  "refill_loop 0 tid cfg c st = Some st"
| "refill_loop (Suc k) tid cfg c st =
    do {
      (extra, st1) \<leftarrow> hz10_public_entry_alloc_from_page_layer tid cfg c st;
      if extra = 0 then Some st1
      else
        let fc = hz10_front_cache st1 tid c;
            m = hz10_front_cache_set_marker (fc_slot_size fc) extra (mem st1);
            st2 = st1\<lparr>mem := m(extra := fc_head fc)\<rparr>
        in refill_loop k tid cfg c (set_fc tid c (fc\<lparr>fc_head := extra, fc_count := fc_count fc + 1\<rparr>) st2)
    }"

definition hz10_front_cache_refill_and_alloc :: "nat \<Rightarrow> hz10_config \<Rightarrow> nat \<Rightarrow>
    'a entry_state_scheme \<Rightarrow> (addr \<times> 'a entry_state_scheme) option" where
  "hz10_front_cache_refill_and_alloc tid cfg c st =
    (let fc = hz10_front_cache st tid c;
         st1 = (if fc_cap fc = 0 then set_fc tid c (hz10_front_cache_init cfg c fc) st else st) in do {
       (first, st2) \<leftarrow> hz10_public_entry_alloc_from_page_layer tid cfg c st1;
       if first = 0 then Some (0, st2)
       else do {
         st3 \<leftarrow> refill_loop (unat (fc_refill_batch (hz10_front_cache st2 tid c)) - 1) tid cfg c st2;
         Some (first, st3)
       }
     })"

definition hz10_front_cache_overflow :: "nat \<Rightarrow> hz10_config \<Rightarrow> nat \<Rightarrow> 'a entry_state_scheme \<Rightarrow>
    'a entry_state_scheme option" where
  "hz10_front_cache_overflow tid cfg c st =
    (let fc = hz10_front_cache st tid c;
         fc1 = (if fc_cap fc = 0 then hz10_front_cache_init cfg c fc else fc);
         st1 = set_fc tid c fc1 st in
     if fc_cap fc = 0 \<and> fc_count fc1 \<le> fc_cap fc1 then Some st1
     else hz10_front_cache_flush_to_count tid cfg c (fc_cap fc1 div 2) st1)"

fun flush_all_classes :: "nat \<Rightarrow> nat \<Rightarrow> nat \<Rightarrow> hz10_config \<Rightarrow> 'a entry_state_scheme \<Rightarrow> 'a entry_state_scheme option" where
  "flush_all_classes 0 c tid cfg st = Some st"
| "flush_all_classes (Suc k) c tid cfg st =
    (let fc = hz10_front_cache st tid c in do {
       st1 \<leftarrow> (if fc_cap fc \<noteq> 0 \<and> fc_count fc \<noteq> 0
               then hz10_front_cache_flush_to_count tid cfg c 0 st else Some st);
       flush_all_classes k (Suc c) tid cfg st1
     })"

definition hz10_front_cache_flush_all :: "nat \<Rightarrow> hz10_config \<Rightarrow> 'a entry_state_scheme \<Rightarrow> 'a entry_state_scheme option" where
  "hz10_front_cache_flush_all tid cfg st = flush_all_classes (unat (hz10_class_count cfg)) 0 tid cfg st"

definition hz10_public_entry_owner_exit_flush_front_cache :: "nat \<Rightarrow> hz10_config \<Rightarrow>
    'a entry_state_scheme \<Rightarrow> 'a entry_state_scheme option" where
  "hz10_public_entry_owner_exit_flush_front_cache tid cfg st =
    (if cfg_front_cache cfg then hz10_front_cache_flush_all tid cfg st else Some st)"

section \<open>malloc and free\<close>

definition hz10_malloc :: "nat \<Rightarrow> hz10_config \<Rightarrow> u64 \<Rightarrow> 'a entry_state_scheme \<Rightarrow>
    (addr \<times> 'a entry_state_scheme) option" where
  "hz10_malloc tid cfg sz st =
    (if sz = 0 then Some (0, st)
     else if sz > HZ10_PAGE_QUANTUM then Some (hz10_large_alloc sz st)
     else
       let class_id = hz10_size_class_for cfg sz in
       if class_id \<ge> hz10_class_count cfg then Some (0, st)
       else
         let c = unat class_id in
         if cfg_front_cache cfg then
           let fc = hz10_front_cache st tid c; slot = fc_head fc in
           if slot \<noteq> 0 then
             let st1 = set_fc tid c (fc\<lparr>fc_head := mem st slot, fc_count := fc_count fc - 1\<rparr>) st
             in Some (slot, st1\<lparr>mem := hz10_front_cache_clear_marker (fc_slot_size fc) slot (mem st1)\<rparr>)
           else hz10_front_cache_refill_and_alloc tid cfg c st
         else hz10_public_entry_alloc_from_page_layer tid cfg c st)"

definition hz10_public_entry_free_local_page :: "nat \<Rightarrow> hz10_config \<Rightarrow> addr \<Rightarrow> addr \<Rightarrow>
    'a entry_state_scheme \<Rightarrow> (bool \<times> 'a entry_state_scheme) option" where
  "hz10_public_entry_free_local_page tid cfg page ptr st =
    (if cfg_front_cache cfg then
       let class_id = pg_class_id (pages st page); c = unat class_id;
           fc = hz10_front_cache st tid c;
           m = hz10_freelist_page_mark_local_free (pages st page) ptr (mem st);
           st1 = st\<lparr>mem := m(ptr := fc_head fc)\<rparr>;
           fc1 = fc\<lparr>fc_head := ptr, fc_count := fc_count fc + 1\<rparr>;
           st2 = set_fc tid c fc1 st1
       in do {
         st3 \<leftarrow> (if fc_count fc1 > fc_cap fc1 then hz10_front_cache_overflow tid cfg c st2 else Some st2);
         Some (True, st3)
       }
     else
       let st1 = page_free page ptr st in do {
         st2 \<leftarrow> hz10_public_entry_note_owner_local_free tid cfg (pg_class_id (pages st1 page)) page st1;
         Some (True, st2)
       })"

definition hz10_public_entry_free_remote_slow :: "nat \<Rightarrow> addr \<Rightarrow> addr \<Rightarrow> u32 \<Rightarrow>
    'a entry_state_scheme \<Rightarrow> bool \<times> 'a entry_state_scheme" where
  "hz10_public_entry_free_remote_slow tid page ptr route_generation st =
    (case hz10_page_remote_free_claim ptr route_generation (mem st, pages st page) of
       (None, m, p) \<Rightarrow> (False, set_page page p (st\<lparr>mem := m\<rparr>))
     | (Some i, m, p) \<Rightarrow>
         let st1 = hz10_retired_ready_note_remote_free page (set_page page p (st\<lparr>mem := m\<rparr>)) in
         (case hz10_page_remote_free_publish (hz10_stripe_token st1 tid) ptr (mem st1, pages st1 page) of
            (m', p') \<Rightarrow> (True, set_page page p' (st1\<lparr>mem := m'\<rparr>))))"

text \<open>The owner test that \<open>hz10_free\<close> and its slow route share.\<close>

definition free_on_page :: "nat \<Rightarrow> hz10_config \<Rightarrow> addr \<Rightarrow> addr \<Rightarrow> u32 \<Rightarrow>
    'a entry_state_scheme \<Rightarrow> (bool \<times> 'a entry_state_scheme) option" where
  "free_on_page tid cfg page ptr gen st =
    (let owner = hz10_public_entry_current_owner_if_any tid st in
     if owner \<noteq> 0 \<and> hz10_freelist_page_owner_thread (pages st page) = hz10_public_entry_owner_record owner st
     then hz10_public_entry_free_local_page tid cfg page ptr st
     else Some (hz10_public_entry_free_remote_slow tid page ptr gen st))"

definition hz10_public_entry_free_slow_route :: "nat \<Rightarrow> hz10_config \<Rightarrow> addr \<Rightarrow>
    'a entry_state_scheme \<Rightarrow> (bool \<times> 'a entry_state_scheme) option" where
  "hz10_public_entry_free_slow_route tid cfg ptr st =
    (let route = hz10_pagemap_route ptr HZ10_GENERATION_ANY st in
     if rr_kind route \<noteq> H10_ROUTE_VALID then Some (False, st)
     else if rr_flags route = HZ10_PAGEMAP_FLAG_LARGE
     then Some (True, hz10_large_free (rr_page_base route) (rr_slot_size route) st)
     else if rr_owner route = 0 then Some (False, st)
     else free_on_page tid cfg (rr_owner route) ptr (rr_generation route) st)"

definition hz10_free :: "nat \<Rightarrow> hz10_config \<Rightarrow> addr \<Rightarrow> 'a entry_state_scheme \<Rightarrow>
    (bool \<times> 'a entry_state_scheme) option" where
  "hz10_free tid cfg ptr st =
    (if ptr = 0 then Some (True, st)
     else case hz10_pagemap_route_local_fast ptr st of
       None \<Rightarrow> hz10_public_entry_free_slow_route tid cfg ptr st
     | Some r \<Rightarrow>
         if rl_owner r = 0 then Some (False, st)
         else free_on_page tid cfg (rl_owner r) ptr (rl_generation r) st)"

end
