(* ===== verification/Hz10_Lifecycle_Flush.thy ===== *)
theory Hz10_Lifecycle_Flush
  imports Hz10_Public_Entry
begin

text \<open>
  The lifecycle half of \<open>hz10_public_entry.c\<close> and the owner destructor of
  \<open>hz10_public_entry_owner.c\<close>: the quiescent flush of a thread's pages, what a thread leaves behind
  when it exits, and the statistics that are read from the lists.
\<close>

record Hz10PublicEntryThreadReclaimStats =
  rc_pages_seen :: u64
  rc_pages_reclaimed :: u64
  rc_pages_busy :: u64
  rc_pages_deferred_ready :: u64
  rc_pages_deferred_cancel :: u64
  rc_slots_merged :: u64

definition zero_reclaim_stats :: Hz10PublicEntryThreadReclaimStats where
  "zero_reclaim_stats = \<lparr>rc_pages_seen = 0, rc_pages_reclaimed = 0, rc_pages_busy = 0,
     rc_pages_deferred_ready = 0, rc_pages_deferred_cancel = 0, rc_slots_merged = 0\<rparr>"

section \<open>The quiescent flush\<close>

definition hz10_public_entry_reclaim_keep_page ::
  "addr \<Rightarrow> Hz10PageSublist \<times> page_map \<Rightarrow> Hz10PageSublist \<times> page_map" where
  "hz10_public_entry_reclaim_keep_page page = (\<lambda>(survivors, P).
    let P1 = upd_pg page (\<lambda>p. p\<lparr>pg_prev_in_owner_list := sl_tail survivors, pg_next_in_owner_list := 0\<rparr>) P;
        (s1, P2) = (if sl_tail survivors \<noteq> 0
                    then (survivors, upd_pg (sl_tail survivors) (\<lambda>p. p\<lparr>pg_next_in_owner_list := page\<rparr>) P1)
                    else (survivors\<lparr>sl_head := page\<rparr>, P1))
    in (s1\<lparr>sl_tail := page, sl_length := sl_length s1 + 1\<rparr>, P2))"

lemma keep_page_correct:
  assumes "dll P sub xs" "page \<noteq> 0" "page \<notin> set xs" "length xs < 4294967295"
    and a: "hz10_public_entry_reclaim_keep_page page (sub, P) = (sub', P')"
  shows "dll P' sub' (xs @ [page])" "\<And>a. a \<noteq> page \<Longrightarrow> a \<notin> set xs \<Longrightarrow> P' a = P a"
    "\<And>a. same_but_links (P' a) (P a)"
proof -
  note pb = push_back_correct [OF assms(1-4), where P' = P' and sub' = sub' and f = "\<lambda>p. p\<lparr>pg_prev_in_owner_list := sl_tail sub,
      pg_next_in_owner_list := 0\<rparr>"]
  show "dll P' sub' (xs @ [page])" "\<And>a. a \<noteq> page \<Longrightarrow> a \<notin> set xs \<Longrightarrow> P' a = P a"
    using pb(1,2) a by (auto simp: hz10_public_entry_reclaim_keep_page_def Let_def split: if_splits)
  show "same_but_links (P' a) (P a)" for a
    using pb(3) [of a] pb(4) a by (cases "a = page") (auto simp: hz10_public_entry_reclaim_keep_page_def Let_def split: if_splits)
qed

definition hz10_public_entry_retired_remove :: "addr \<Rightarrow> addr \<Rightarrow> 'a class_state_scheme \<Rightarrow> 'a class_state_scheme" where
  "hz10_public_entry_retired_remove l page st =
    (let st1 = (if cl_retired_sweep_cursor (class_lists st l) = page
                then set_cursor l (pg_prev_in_owner_list (pages st page)) st else st)
     in on_retired l (sublist_splice page) st1)"

partial_function (option) hz10_public_entry_reclaim_ready_idle_pages ::
  "addr \<Rightarrow> Hz10PublicEntryThreadReclaimStats \<Rightarrow> 'a class_state_scheme \<Rightarrow>
     (Hz10PublicEntryThreadReclaimStats \<times> 'a class_state_scheme) option" where
  "hz10_public_entry_reclaim_ready_idle_pages l stats st =
    (let (page, st1) = hz10_retired_ready_pop (ready_addr l) st in
     if page = 0 then Some (stats, st1)
     else if pg_generation (pages st1 page) \<noteq> pg_retired_ready_generation (pages st1 page)
     then hz10_public_entry_reclaim_ready_idle_pages l stats
            (upd_list l (\<lambda>c. c\<lparr>cl_ready_stale_generation_count := cl_ready_stale_generation_count c + 1\<rparr>) st1)
     else do {
       (merged, st2) \<leftarrow> drain_page page st1;
       let stats1 = stats\<lparr>rc_pages_seen := rc_pages_seen stats + 1,
                         rc_slots_merged := rc_slots_merged stats + ucast merged\<rparr>;
       if page_idle page st2 then
         hz10_public_entry_reclaim_ready_idle_pages l
           (stats1\<lparr>rc_pages_reclaimed := rc_pages_reclaimed stats1 + 1\<rparr>)
           (hz10_pooled_page_destroy page
             (upd_list l (\<lambda>c. c\<lparr>cl_retired_reclaimed_by_ready_count := cl_retired_reclaimed_by_ready_count c + 1\<rparr>)
               (hz10_public_entry_retired_remove l page st2)))
       else
         hz10_public_entry_reclaim_ready_idle_pages l
           (stats1\<lparr>rc_pages_busy := rc_pages_busy stats1 + 1\<rparr>)
           (upd_list l (\<lambda>c. c\<lparr>cl_ready_false_positive_count := cl_ready_false_positive_count c + 1\<rparr>) st2)
     })"

definition clear_links :: "addr \<Rightarrow> page_map \<Rightarrow> page_map" where
  "clear_links page P = upd_pg page (\<lambda>p. p\<lparr>pg_next_in_owner_list := 0, pg_prev_in_owner_list := 0\<rparr>) P"

definition keep_survivor :: "addr \<Rightarrow> Hz10PageSublist \<Rightarrow> 'a class_state_scheme \<Rightarrow>
    Hz10PageSublist \<times> 'a class_state_scheme" where
  "keep_survivor page survivors st =
    (case hz10_public_entry_reclaim_keep_page page (survivors, pages st) of
       (s, P) \<Rightarrow> (s, st\<lparr>pages := P\<rparr>))"

text \<open>The walk over one sublist, collecting the survivors.\<close>

partial_function (option) reclaim_walk :: "bool \<Rightarrow> addr \<Rightarrow> Hz10PageSublist \<Rightarrow> Hz10PublicEntryThreadReclaimStats \<Rightarrow>
    'a class_state_scheme \<Rightarrow> (Hz10PageSublist \<times> Hz10PublicEntryThreadReclaimStats \<times> 'a class_state_scheme) option" where
  "reclaim_walk is_retired page survivors stats st =
    (if page = 0 then Some (survivors, stats, st)
     else
       let nxt = pg_next_in_owner_list (pages st page);
           st1 = st\<lparr>pages := clear_links page (pages st)\<rparr> in
       do {
         (merged, st2) \<leftarrow> drain_page page st1;
         let stats1 = stats\<lparr>rc_pages_seen := rc_pages_seen stats + 1,
                           rc_slots_merged := rc_slots_merged stats + ucast merged\<rparr>;
         if \<not> page_idle page st2 then
           (case keep_survivor page survivors st2 of (s, st3) \<Rightarrow>
              reclaim_walk is_retired nxt s (stats1\<lparr>rc_pages_busy := rc_pages_busy stats1 + 1\<rparr>) st3)
         else if is_retired \<and> pg_retired_ready_on_stack (pages st2 page) \<noteq> 0 then
           (case keep_survivor page survivors st2 of (s, st3) \<Rightarrow>
              reclaim_walk is_retired nxt s
                (stats1\<lparr>rc_pages_deferred_ready := rc_pages_deferred_ready stats1 + 1\<rparr>) st3)
         else
           (let (mine, st3) = (if is_retired then hz10_retired_ready_cancel page st2 else (True, st2)) in
            if \<not> mine then
              (case keep_survivor page survivors st3 of (s, st4) \<Rightarrow>
                 reclaim_walk is_retired nxt s
                   (stats1\<lparr>rc_pages_deferred_cancel := rc_pages_deferred_cancel stats1 + 1\<rparr>) st4)
            else
              reclaim_walk is_retired nxt survivors
                (stats1\<lparr>rc_pages_reclaimed := rc_pages_reclaimed stats1 + 1\<rparr>)
                (hz10_pooled_page_destroy page st3))
       })"

definition hz10_public_entry_reclaim_sublist_idle_pages :: "bool \<Rightarrow> addr \<Rightarrow> Hz10PublicEntryThreadReclaimStats \<Rightarrow>
    'a class_state_scheme \<Rightarrow> (Hz10PublicEntryThreadReclaimStats \<times> 'a class_state_scheme) option" where
  "hz10_public_entry_reclaim_sublist_idle_pages is_retired l stats st =
    (let sub = (if is_retired then cl_retired (class_lists st l) else cl_active (class_lists st l)) in do {
       (survivors, stats1, st1) \<leftarrow> reclaim_walk is_retired (sl_head sub) empty_sublist stats st;
       Some (stats1, upd_list l (\<lambda>c. if is_retired then c\<lparr>cl_retired := survivors\<rparr>
                                     else c\<lparr>cl_active := survivors\<rparr>) st1)
     })"

fun flush_classes :: "nat \<Rightarrow> nat \<Rightarrow> addr \<Rightarrow> Hz10PublicEntryThreadReclaimStats \<Rightarrow> 'a owner_state_scheme \<Rightarrow>
    (Hz10PublicEntryThreadReclaimStats \<times> 'a owner_state_scheme) option" where
  "flush_classes 0 c owner stats st = Some (stats, st)"
| "flush_classes (Suc k) c owner stats st =
    (let l = list_addr owner c in do {
       (stats1, st1) \<leftarrow> hz10_public_entry_reclaim_ready_idle_pages l stats st;
       (stats2, st2) \<leftarrow> hz10_public_entry_reclaim_sublist_idle_pages False l stats1 st1;
       (stats3, st3) \<leftarrow> hz10_public_entry_reclaim_sublist_idle_pages True l stats2 st2;
       let st4 = set_cursor l 0 st3;
       flush_classes k (Suc c) owner stats3
         (set_active owner c (sl_head (cl_active (class_lists st4 l))) st4)
     })"

definition hz10_public_entry_flush_thread_cache_quiescent :: "nat \<Rightarrow> hz10_config \<Rightarrow> 'a entry_state_scheme \<Rightarrow>
    (Hz10PublicEntryThreadReclaimStats \<times> 'a entry_state_scheme) option" where
  "hz10_public_entry_flush_thread_cache_quiescent tid cfg st =
    do {
      st1 \<leftarrow> (if cfg_front_cache cfg then hz10_front_cache_flush_all tid cfg st else Some st);
      let owner = hz10_public_entry_current_owner_if_any tid st1;
      if owner = 0 then Some (zero_reclaim_stats, st1)
      else flush_classes (unat (hz10_class_count cfg)) 0 owner zero_reclaim_stats st1
    }"

section \<open>Thread exit\<close>

fun orphan_publish_classes :: "nat \<Rightarrow> nat \<Rightarrow> hz10_config \<Rightarrow> addr \<Rightarrow> 'a owner_state_scheme \<Rightarrow> 'a owner_state_scheme option" where
  "orphan_publish_classes 0 c cfg owner st = Some st"
| "orphan_publish_classes (Suc k) c cfg owner st =
    do {
      st1 \<leftarrow> hz10_orphan_append_active cfg c (list_addr owner c) st;
      orphan_publish_classes k (Suc c) cfg owner (set_active owner c 0 st1)
    }"

text \<open>The value under the key is NULL before the destructor runs, and so it is not run twice.\<close>

definition hz10_owner_destructor :: "nat \<Rightarrow> hz10_config \<Rightarrow> addr \<Rightarrow> 'a entry_state_scheme \<Rightarrow> 'a entry_state_scheme option" where
  "hz10_owner_destructor tid cfg owner st =
    (if owner = 0 then Some st
     else do {
       st1 \<leftarrow> hz10_public_entry_owner_exit_flush_front_cache tid cfg st;
       let st2 = (if hz10_current_owner st1 tid = owner
                  then st1\<lparr>hz10_current_owner := (hz10_current_owner st1)(tid := 0)\<rparr> else st1);
       let st3 = st2\<lparr>owner_records := (owner_records st2)
                  (to_record (thread_owners st2 owner) := HZ10_THREAD_OWNER_STATE_EXITED)\<rparr>;
       st4 \<leftarrow> (if cfg_orphan_active_adoption cfg
               then orphan_publish_classes (unat (hz10_class_count cfg)) 0 cfg owner st3 else Some st3);
       Some (hz10_platform_release owner (sizeof_thread_owner cfg) st4)
     })"

section \<open>Statistics\<close>

record Hz10ClassPageListStats =
  cs_active_length :: u32
  cs_retired_length :: u32
  cs_max_retired_length :: u32
  cs_eviction_count :: u64
  cs_eviction_reclaimed_count :: u64
  cs_retired_count :: u64
  cs_retired_reclaimed_by_sweep_count :: u64
  cs_retired_promoted_by_sweep_count :: u64
  cs_harvest_call_count :: u64
  cs_retired_reclaimed_by_ready_count :: u64
  cs_retired_promoted_by_ready_count :: u64
  cs_retired_reclaimed_by_local_free_count :: u64
  cs_ready_false_positive_count :: u64
  cs_ready_push_count :: u64
  cs_ready_stale_generation_count :: u64
  cs_sweep_cancel_lost_race_count :: u64

definition zero_class_stats :: Hz10ClassPageListStats where
  "zero_class_stats = \<lparr>cs_active_length = 0, cs_retired_length = 0, cs_max_retired_length = 0,
     cs_eviction_count = 0, cs_eviction_reclaimed_count = 0, cs_retired_count = 0,
     cs_retired_reclaimed_by_sweep_count = 0, cs_retired_promoted_by_sweep_count = 0,
     cs_harvest_call_count = 0, cs_retired_reclaimed_by_ready_count = 0,
     cs_retired_promoted_by_ready_count = 0, cs_retired_reclaimed_by_local_free_count = 0,
     cs_ready_false_positive_count = 0, cs_ready_push_count = 0,
     cs_ready_stale_generation_count = 0, cs_sweep_cancel_lost_race_count = 0\<rparr>"

definition hz10_public_entry_class_list_stats :: "nat \<Rightarrow> hz10_config \<Rightarrow> u32 \<Rightarrow> 'a owner_state_scheme \<Rightarrow>
    Hz10ClassPageListStats" where
  "hz10_public_entry_class_list_stats tid cfg class_id st =
    (let owner = hz10_public_entry_current_owner_if_any tid st in
     if class_id \<ge> hz10_class_count cfg \<or> owner = 0 then zero_class_stats
     else
       let l = list_addr owner (unat class_id); c = class_lists st l in
       \<lparr>cs_active_length = sl_length (cl_active c), cs_retired_length = sl_length (cl_retired c),
        cs_max_retired_length = cl_max_retired_length c,
        cs_eviction_count = cl_eviction_count c,
        cs_eviction_reclaimed_count = cl_eviction_reclaimed_count c,
        cs_retired_count = cl_retired_count c,
        cs_retired_reclaimed_by_sweep_count = cl_retired_reclaimed_by_sweep_count c,
        cs_retired_promoted_by_sweep_count = cl_retired_promoted_by_sweep_count c,
        cs_harvest_call_count = cl_harvest_call_count c,
        cs_retired_reclaimed_by_ready_count = cl_retired_reclaimed_by_ready_count c,
        cs_retired_promoted_by_ready_count = cl_retired_promoted_by_ready_count c,
        cs_retired_reclaimed_by_local_free_count = cl_retired_reclaimed_by_local_free_count c,
        cs_ready_false_positive_count = cl_ready_false_positive_count c,
        cs_ready_push_count = rs_push_count (ready_stacks st (ready_addr l)),
        cs_ready_stale_generation_count = cl_ready_stale_generation_count c,
        cs_sweep_cancel_lost_race_count = cl_sweep_cancel_lost_race_count c\<rparr>)"

record Hz10FrontCacheStats =
  fs_count :: u32
  fs_cap :: u32
  fs_refill_batch :: u32
  fs_slot_size :: u32

definition hz10_public_entry_front_cache_stats :: "nat \<Rightarrow> hz10_config \<Rightarrow> u32 \<Rightarrow> 'a entry_state_scheme \<Rightarrow>
    Hz10FrontCacheStats" where
  "hz10_public_entry_front_cache_stats tid cfg class_id st =
    (if \<not> cfg_front_cache cfg \<or> class_id \<ge> hz10_class_count cfg
     then \<lparr>fs_count = 0, fs_cap = 0, fs_refill_batch = 0, fs_slot_size = 0\<rparr>
     else let fc = hz10_front_cache st tid (unat class_id) in
       \<lparr>fs_count = fc_count fc, fs_cap = fc_cap fc, fs_refill_batch = fc_refill_batch fc,
        fs_slot_size = fc_slot_size fc\<rparr>)"

end
