(* ===== verification/Hz10_Shim.thy ===== *)
theory Hz10_Shim
  imports Hz10_Lifecycle_Flush
begin

text \<open>
  \<open>hz10_shim.c\<close>: the C allocation interface on top of \<open>hz10_malloc\<close> and \<open>hz10_free\<close>, and the census
  of pages it can print. \<open>abort()\<close> is the left injection with the name of the function that
  aborted. \<open>errno\<close> is per thread; a call into the allocator that reaches the operating system may
  leave any value there (\<open>os_errno\<close>), one that does not leaves it alone. The environment of the
  process is the argument \<open>env\<close>. Bytes are written a word at a time, in the little-endian order of
  the targets: \<open>memset\<close> of a partial word clears its low bytes. The text the dump functions format
  and write is not modelled.
\<close>

record shim_state = entry_state +
  errno :: "nat \<Rightarrow> int"
  os_errno :: "nat \<Rightarrow> int"
  hz10_shim_foreign_free_count :: u64

type_synonym ('r, 's) shim = "(string + 'r \<times> 's) option"

abbreviation (input) ENOMEM :: int where "ENOMEM \<equiv> 12"
abbreviation (input) EINVAL :: int where "EINVAL \<equiv> 22"

definition set_errno :: "nat \<Rightarrow> int \<Rightarrow> 'a shim_state_scheme \<Rightarrow> 'a shim_state_scheme" where
  "set_errno tid e st = st\<lparr>errno := (errno st)(tid := e)\<rparr>"

text \<open>What a call that may have failed in the operating system leaves in \<open>errno\<close>.\<close>

definition note_os_errno :: "nat \<Rightarrow> 'a shim_state_scheme \<Rightarrow> 'a shim_state_scheme \<Rightarrow> 'a shim_state_scheme" where
  "note_os_errno tid st st' =
    (if os_maps st \<noteq> [] \<and> os_maps st' = os_maps st then st' else set_errno tid (os_errno st tid) st')"

section \<open>Environment switches\<close>

type_synonym environment = "string \<Rightarrow> string option"

definition hz10_shim_is_power_of_two :: "u64 \<Rightarrow> bool" where
  "hz10_shim_is_power_of_two v \<longleftrightarrow> v \<noteq> 0 \<and> v AND (v - 1) = 0"

definition hz10_shim_tolerate_foreign :: "environment \<Rightarrow> bool" where
  "hz10_shim_tolerate_foreign env =
    (case env ''HZ10_SHIM_TOLERATE_FOREIGN'' of
       None \<Rightarrow> False | Some v \<Rightarrow> v \<noteq> [] \<and> hd v = CHR ''1'' \<and> tl v = [])"

definition hz10_shim_exit_stats_enabled :: "environment \<Rightarrow> bool" where
  "hz10_shim_exit_stats_enabled env =
    (case env ''HZ10_SHIM_EXIT_STATS'' of
       None \<Rightarrow> False | Some v \<Rightarrow> v \<noteq> [] \<and> hd v = CHR ''1'' \<and> tl v = [])"

definition hz10_shim_orphan_registry_probe_enabled :: "environment \<Rightarrow> bool" where
  "hz10_shim_orphan_registry_probe_enabled env =
    (case env ''HZ10_SHIM_ORPHAN_REGISTRY_PROBE'' of
       None \<Rightarrow> False | Some v \<Rightarrow> v \<noteq> [] \<and> hd v = CHR ''1'' \<and> tl v = [])"

definition hz10_shim_orphan_registry_drain_probe_enabled :: "environment \<Rightarrow> bool" where
  "hz10_shim_orphan_registry_drain_probe_enabled env =
    (case env ''HZ10_SHIM_ORPHAN_REGISTRY_DRAIN_PROBE'' of
       None \<Rightarrow> False | Some v \<Rightarrow> v \<noteq> [] \<and> hd v = CHR ''1'' \<and> tl v = [])"

definition hz10_shim_exit_stats_classes_enabled :: "environment \<Rightarrow> bool" where
  "hz10_shim_exit_stats_classes_enabled env =
    (case env ''HZ10_SHIM_EXIT_STATS_CLASSES'' of
       None \<Rightarrow> True | Some v \<Rightarrow> \<not> (v \<noteq> [] \<and> hd v = CHR ''0'' \<and> tl v = []))"

text \<open>\<open>strtoul\<close> in base 10: white space, a sign, digits. The result saturates at \<open>ULONG_MAX\<close> and is
  negated in unsigned arithmetic after a minus sign; the second component is what follows the
  number, or the whole text when there is none.\<close>

definition is_space :: "char \<Rightarrow> bool" where
  "is_space ch \<longleftrightarrow> ch \<in> {CHR '' '', CHR 0x09, CHR 0x0A, CHR 0x0B, CHR 0x0C, CHR 0x0D}"

definition is_digit :: "char \<Rightarrow> bool" where
  "is_digit ch \<longleftrightarrow> 48 \<le> (of_char ch :: nat) \<and> (of_char ch :: nat) \<le> 57"

definition digits_value :: "string \<Rightarrow> nat" where
  "digits_value ds = foldl (\<lambda>n ch. 10 * n + (of_char ch - 48)) 0 ds"

definition strtoul :: "string \<Rightarrow> u64 \<times> string" where
  "strtoul text =
    (let t1 = dropWhile is_space text;
         (neg, t2) = (case t1 of
            [] \<Rightarrow> (False, []) | ch # r \<Rightarrow> if ch = CHR ''-'' then (True, r)
                                   else if ch = CHR ''+'' then (False, r) else (False, t1));
         ds = takeWhile is_digit t2; n = digits_value ds in
     if ds = [] then (0, text)
     else if n > 18446744073709551615 then (- 1, dropWhile is_digit t2)
     else ((if neg then - of_nat n else of_nat n), dropWhile is_digit t2))"

definition hz10_shim_census_seconds :: "environment \<Rightarrow> u32" where
  "hz10_shim_census_seconds env =
    (case env ''HZ10_SHIM_CENSUS_SEC'' of
       None \<Rightarrow> 0
     | Some v \<Rightarrow>
         if v = [] then 0
         else case strtoul v of (parsed, rest) \<Rightarrow>
           if rest = v \<or> rest \<noteq> [] \<or> parsed = 0 then 0
           else ucast (if parsed > 3600 then 3600 else parsed))"

section \<open>The allocation functions\<close>

definition hz10_shim_request_size :: "u64 \<Rightarrow> u64" where
  "hz10_shim_request_size sz = (if sz = 0 then HZ10_MIN_ALIGN else sz)"

definition hz10_shim_malloc_impl :: "nat \<Rightarrow> hz10_config \<Rightarrow> u64 \<Rightarrow> 'a shim_state_scheme \<Rightarrow>
    (addr \<times> 'a shim_state_scheme) option" where
  "hz10_shim_malloc_impl tid cfg sz st =
    do { (ptr, st1) \<leftarrow> hz10_malloc tid cfg (hz10_shim_request_size sz) st;
         Some (ptr, note_os_errno tid st st1) }"

definition hz10_shim_free_impl :: "nat \<Rightarrow> hz10_config \<Rightarrow> environment \<Rightarrow> addr \<Rightarrow> string \<Rightarrow>
    'a shim_state_scheme \<Rightarrow> (unit, 'a shim_state_scheme) shim" where
  "hz10_shim_free_impl tid cfg env ptr api st =
    (if ptr = 0 then Some (Inr ((), st))
     else do {
       (ok, st1) \<leftarrow> hz10_free tid cfg ptr st;
       if \<not> ok then
         (if \<not> hz10_shim_tolerate_foreign env then Some (Inl api)
          else Some (Inr ((), st1\<lparr>hz10_shim_foreign_free_count := hz10_shim_foreign_free_count st1 + 1\<rparr>)))
       else Some (Inr ((), st1))
     })"

definition hz10_shim_tolerated_foreign_free_count :: "'a shim_state_scheme \<Rightarrow> u64" where
  "hz10_shim_tolerated_foreign_free_count st = (let n = hz10_shim_foreign_free_count st in n)"

definition hz10_shim_aligned_alloc_impl :: "nat \<Rightarrow> hz10_config \<Rightarrow> u64 \<Rightarrow> u64 \<Rightarrow> 'a shim_state_scheme \<Rightarrow>
    (addr \<times> 'a shim_state_scheme) option" where
  "hz10_shim_aligned_alloc_impl tid cfg alignment sz st =
    (let request = hz10_shim_request_size sz in
     if alignment \<le> HZ10_MIN_ALIGN then
       do { (ptr, st1) \<leftarrow> hz10_malloc tid cfg request st; Some (ptr, note_os_errno tid st st1) }
     else if alignment > HZ10_PAGE_QUANTUM then Some (0, set_errno tid ENOMEM st)
     else (case hz10_large_alloc request st of (ptr, st1) \<Rightarrow> Some (ptr, note_os_errno tid st st1)))"

definition shim_malloc :: "nat \<Rightarrow> hz10_config \<Rightarrow> u64 \<Rightarrow> 'a shim_state_scheme \<Rightarrow>
    (addr, 'a shim_state_scheme) shim" where
  "shim_malloc tid cfg sz st =
    do { (ptr, st1) \<leftarrow> hz10_shim_malloc_impl tid cfg sz st; Some (Inr (ptr, st1)) }"

definition shim_free :: "nat \<Rightarrow> hz10_config \<Rightarrow> environment \<Rightarrow> addr \<Rightarrow> 'a shim_state_scheme \<Rightarrow>
    (unit, 'a shim_state_scheme) shim" where
  "shim_free tid cfg env ptr st = hz10_shim_free_impl tid cfg env ptr ''free'' st"

text \<open>\<open>memset(ptr, 0, n)\<close> on the words of memory.\<close>

definition mem_zero :: "addr \<Rightarrow> u64 \<Rightarrow> memory \<Rightarrow> memory" where
  "mem_zero ptr n m = (\<lambda>a. let off = a - ptr in
     if off < n then
       (if n - off \<ge> 8 then 0 else m a AND NOT (mask (8 * unat (n - off))))
     else m a)"

definition shim_calloc :: "nat \<Rightarrow> hz10_config \<Rightarrow> u64 \<Rightarrow> u64 \<Rightarrow> 'a shim_state_scheme \<Rightarrow>
    (addr, 'a shim_state_scheme) shim" where
  "shim_calloc tid cfg n sz st =
    (if n \<noteq> 0 \<and> sz > SIZE_MAX div n then Some (Inr (0, set_errno tid ENOMEM st))
     else
       let total = n * sz in do {
         (ptr, st1) \<leftarrow> hz10_shim_malloc_impl tid cfg total st;
         Some (Inr (ptr, if ptr \<noteq> 0
                         then st1\<lparr>mem := mem_zero ptr (hz10_shim_request_size total) (mem st1)\<rparr> else st1))
       })"

definition hz10_shim_usable_size_or_abort :: "addr \<Rightarrow> string \<Rightarrow> 'a shim_state_scheme \<Rightarrow> string + u64" where
  "hz10_shim_usable_size_or_abort ptr api st =
    (let route = hz10_pagemap_route ptr HZ10_GENERATION_ANY st in
     if rr_kind route \<noteq> H10_ROUTE_VALID then Inl api else Inr (ucast (rr_slot_size route)))"

text \<open>\<open>memcpy(next, ptr, n)\<close> for a whole number of words.\<close>

definition mem_copy :: "addr \<Rightarrow> addr \<Rightarrow> u64 \<Rightarrow> memory \<Rightarrow> memory" where
  "mem_copy dst src n m = (\<lambda>a. if a - dst < n then m (src + (a - dst)) else m a)"

definition shim_realloc :: "nat \<Rightarrow> hz10_config \<Rightarrow> environment \<Rightarrow> addr \<Rightarrow> u64 \<Rightarrow> 'a shim_state_scheme \<Rightarrow>
    (addr, 'a shim_state_scheme) shim" where
  "shim_realloc tid cfg env ptr sz st =
    (if ptr = 0 then shim_malloc tid cfg sz st
     else if sz = 0 then
       do {
         r \<leftarrow> hz10_shim_free_impl tid cfg env ptr ''realloc'' st;
         (case r of Inl api \<Rightarrow> Some (Inl api) | Inr (_, st1) \<Rightarrow> Some (Inr (0, st1)))
       }
     else case hz10_shim_usable_size_or_abort ptr ''realloc'' st of
       Inl api \<Rightarrow> Some (Inl api)
     | Inr old_size \<Rightarrow>
         if sz \<le> old_size then Some (Inr (ptr, st))
         else do {
           (new_ptr, st1) \<leftarrow> hz10_shim_malloc_impl tid cfg sz st;
           if new_ptr = 0 then Some (Inr (0, st1))
           else do {
             r \<leftarrow> hz10_shim_free_impl tid cfg env ptr ''realloc''
                    (st1\<lparr>mem := mem_copy new_ptr ptr old_size (mem st1)\<rparr>);
             (case r of Inl api \<Rightarrow> Some (Inl api) | Inr (_, st2) \<Rightarrow> Some (Inr (new_ptr, st2)))
           }
         })"

definition malloc_usable_size :: "addr \<Rightarrow> 'a shim_state_scheme \<Rightarrow> u64" where
  "malloc_usable_size ptr st =
    (if ptr = 0 then 0
     else let route = hz10_pagemap_route ptr HZ10_GENERATION_ANY st in
       if rr_kind route = H10_ROUTE_VALID then ucast (rr_slot_size route) else 0)"

text \<open>The pointer that \<open>posix_memalign\<close> stores is the option; \<open>None\<close> when \<open>*out\<close> is not written.\<close>

definition posix_memalign :: "nat \<Rightarrow> hz10_config \<Rightarrow> u64 \<Rightarrow> u64 \<Rightarrow> 'a shim_state_scheme \<Rightarrow>
    (int \<times> addr option \<times> 'a shim_state_scheme) option" where
  "posix_memalign tid cfg alignment sz st =
    (if alignment < 8 \<or> \<not> hz10_shim_is_power_of_two alignment then Some (EINVAL, None, st)
     else do {
       (ptr, st1) \<leftarrow> hz10_shim_aligned_alloc_impl tid cfg alignment sz st;
       if ptr = 0 then Some (if errno st1 tid = ENOMEM then ENOMEM else EINVAL, None, st1)
       else Some (0, Some ptr, st1)
     })"

definition shim_aligned_alloc :: "nat \<Rightarrow> hz10_config \<Rightarrow> u64 \<Rightarrow> u64 \<Rightarrow> 'a shim_state_scheme \<Rightarrow>
    (addr \<times> 'a shim_state_scheme) option" where
  "shim_aligned_alloc tid cfg alignment sz st =
    (if \<not> hz10_shim_is_power_of_two alignment \<or> (alignment \<noteq> 0 \<and> sz mod alignment \<noteq> 0)
     then Some (0, set_errno tid EINVAL st)
     else hz10_shim_aligned_alloc_impl tid cfg alignment sz st)"

definition shim_memalign :: "nat \<Rightarrow> hz10_config \<Rightarrow> u64 \<Rightarrow> u64 \<Rightarrow> 'a shim_state_scheme \<Rightarrow>
    (addr \<times> 'a shim_state_scheme) option" where
  "shim_memalign tid cfg alignment sz st =
    (if \<not> hz10_shim_is_power_of_two alignment then Some (0, set_errno tid EINVAL st)
     else hz10_shim_aligned_alloc_impl tid cfg alignment sz st)"

section \<open>The census\<close>

datatype Hz10ShimCensusBucket = HZ10_CENSUS_LIVE_ACTIVE | HZ10_CENSUS_LIVE_RETIRED
  | HZ10_CENSUS_ORPHAN_ACTIVE | HZ10_CENSUS_ORPHAN_RETIRED | HZ10_CENSUS_ADOPTED | HZ10_CENSUS_UNKNOWN

definition hz10_shim_census_bucket_name :: "Hz10ShimCensusBucket \<Rightarrow> string" where
  "hz10_shim_census_bucket_name b =
    (case b of
       HZ10_CENSUS_LIVE_ACTIVE \<Rightarrow> ''owner_live_active''
     | HZ10_CENSUS_LIVE_RETIRED \<Rightarrow> ''owner_live_retired''
     | HZ10_CENSUS_ORPHAN_ACTIVE \<Rightarrow> ''orphan_unadopted''
     | HZ10_CENSUS_ORPHAN_RETIRED \<Rightarrow> ''orphan_retired''
     | HZ10_CENSUS_ADOPTED \<Rightarrow> ''adopted''
     | HZ10_CENSUS_UNKNOWN \<Rightarrow> ''unknown'')"

record Hz10ShimCensusClassBucket =
  cc_pages :: u64
  cc_page_bytes :: u64
  cc_slot_capacity :: u64
  cc_live_slots :: u64
  cc_free_slots :: u64
  cc_hidden_free_slots :: u64
  cc_util_hist :: "nat \<Rightarrow> u64"

record Hz10ShimCensusTotals =
  ct_by_class :: "Hz10ShimCensusBucket \<Rightarrow> nat \<Rightarrow> Hz10ShimCensusClassBucket"
  ct_large_pages :: u64
  ct_skipped_records :: u64

fun census_pending_loop :: "nat \<Rightarrow> Hz10FreelistPage \<Rightarrow> u32" where
  "census_pending_loop 0 p = 0"
| "census_pending_loop (Suc i) p = census_pending_loop i p + of_nat (popcount (pg_pending_bits p i))"

definition hz10_shim_census_popcount_pending :: "Hz10FreelistPage \<Rightarrow> u32" where
  "hz10_shim_census_popcount_pending p =
    (let total = census_pending_loop (unat (pg_pending_words p)) p in
     if total > pg_slot_count p then pg_slot_count p else total)"

definition hz10_shim_census_util_bucket :: "u32 \<Rightarrow> u32 \<Rightarrow> nat" where
  "hz10_shim_census_util_bucket live_slots slot_count =
    (if live_slots = 0 then 0
     else if live_slots = 1 then 1
     else if live_slots \<le> 3 then 2
     else if live_slots \<le> 7 then 3
     else if live_slots \<le> 15 then 4
     else if live_slots \<le> 63 then 5
     else if live_slots = slot_count then 7
     else 6)"

definition hz10_shim_census_add_page :: "hz10_config \<Rightarrow> Hz10ShimCensusBucket \<Rightarrow> Hz10FreelistPage \<Rightarrow>
    Hz10ShimCensusTotals \<Rightarrow> Hz10ShimCensusTotals" where
  "hz10_shim_census_add_page cfg bucket p totals =
    (let (bucket, class_id) = (if pg_class_id p \<ge> hz10_class_count cfg then (HZ10_CENSUS_UNKNOWN, 0)
                               else (bucket, unat (pg_class_id p)));
         cell = ct_by_class totals bucket class_id;
         free_count = (if pg_free_count p > pg_slot_count p then pg_slot_count p else pg_free_count p);
         live_slots = pg_slot_count p - free_count;
         hidden_free = hz10_shim_census_popcount_pending p;
         u = hz10_shim_census_util_bucket live_slots (pg_slot_count p);
         cell1 = cell\<lparr>cc_pages := cc_pages cell + 1,
           cc_page_bytes := cc_page_bytes cell + HZ10_PAGE_QUANTUM,
           cc_slot_capacity := cc_slot_capacity cell + ucast (pg_slot_count p),
           cc_live_slots := cc_live_slots cell + ucast live_slots,
           cc_free_slots := cc_free_slots cell + ucast free_count,
           cc_hidden_free_slots := cc_hidden_free_slots cell + ucast hidden_free,
           cc_util_hist := (cc_util_hist cell)(u := cc_util_hist cell u + 1)\<rparr>
     in totals\<lparr>ct_by_class := (ct_by_class totals)
          (bucket := (ct_by_class totals bucket)(class_id := cell1))\<rparr>)"

text \<open>One record of the map; the two reads of the generation are the same in one step.\<close>

definition census_record :: "hz10_config \<Rightarrow> 'a owner_state_scheme \<Rightarrow> H10PageRecord \<Rightarrow>
    Hz10ShimCensusTotals \<Rightarrow> Hz10ShimCensusTotals" where
  "census_record cfg st rec totals =
    (if rec_slot_size rec = 0 then totals
     else if rec_owner rec = 0 then totals\<lparr>ct_skipped_records := ct_skipped_records totals + 1\<rparr>
     else if rec_flags rec \<noteq> 0 then totals\<lparr>ct_large_pages := ct_large_pages totals + 1\<rparr>
     else
       let p = pages st (rec_owner rec);
           owner_state = hz10_public_entry_owner_state (hz10_freelist_page_owner_thread p) st;
           bucket =
             (if pg_adopted_count p \<noteq> 0 then HZ10_CENSUS_ADOPTED
              else if owner_state = HZ10_THREAD_OWNER_STATE_LIVE then
                (if pg_owner_list_kind p = HZ10_FREELIST_PAGE_OWNER_LIST_RETIRED
                 then HZ10_CENSUS_LIVE_RETIRED else HZ10_CENSUS_LIVE_ACTIVE)
              else if owner_state = HZ10_THREAD_OWNER_STATE_EXITED then
                (if pg_owner_list_kind p = HZ10_FREELIST_PAGE_OWNER_LIST_RETIRED
                 then HZ10_CENSUS_ORPHAN_RETIRED else HZ10_CENSUS_ORPHAN_ACTIVE)
              else HZ10_CENSUS_UNKNOWN)
       in hz10_shim_census_add_page cfg bucket p totals)"

definition zero_census :: Hz10ShimCensusTotals where
  "zero_census = \<lparr>ct_by_class = (\<lambda>_ _. \<lparr>cc_pages = 0, cc_page_bytes = 0, cc_slot_capacity = 0,
     cc_live_slots = 0, cc_free_slots = 0, cc_hidden_free_slots = 0, cc_util_hist = (\<lambda>_. 0)\<rparr>),
     ct_large_pages = 0, ct_skipped_records = 0\<rparr>"

definition census_scan :: "hz10_config \<Rightarrow> 'a owner_state_scheme \<Rightarrow> Hz10ShimCensusTotals" where
  "census_scan cfg st =
    fold (\<lambda>r totals. case hz10_pagemap_root st (of_nat r) of
        None \<Rightarrow> totals
      | Some leaf \<Rightarrow> fold (\<lambda>i. census_record cfg st (leaf_entries leaf (of_nat i))) [0..<1048576] totals)
      [0..<2048] zero_census"

end
