(* ===== verification/Hz10_Remote_Protocol.thy ===== *)
theory Hz10_Remote_Protocol
  imports Hz10_Remote_Stack
begin

text \<open>
  The remote free of \<open>hz10_remote_stack.c\<close> as interleaved atomic steps: the owner allocates, frees,
  drains a stripe node by node and destroys the page when it is idle, while any number of threads
  hold blocks, write to them, claim them and run the push loop of
  \<open>hz10_page_remote_free_publish\<close> (load the head, store the link, compare and swap). The memory
  model is sequentially consistent. The invariant says that the page header and payload memory
  always represent an abstract page whose claimed slots are exactly those in flight; it follows
  that the page is never destroyed while a thread may still touch it.
\<close>

text \<open>Where a thread is in the push loop; the parameter is its local \<open>old_head\<close>.\<close>

datatype publish_pc = PubLoad | PubStore addr | PubCas addr

record race_state =
  rs_view :: page_view
  rs_user :: "addr set"
  rs_push :: "nat \<Rightarrow> (addr \<times> publish_pc) option"
  rs_drain :: "addr option"
  rs_destroyed :: bool

text \<open>One iteration of the drain loop.\<close>

definition drain_one :: "addr \<Rightarrow> page_view \<Rightarrow> addr \<times> page_view" where
  "drain_one head v =
    (let (m, p) = v; next = m head;
         offset = head - pg_base p;
         slot_index = (ucast (offset div ucast (pg_slot_size p)) :: u32);
         p1 = hz10_page_pending_clear p slot_index
     in
     if hz10_freelist_page_is_marked_local_free p1 head m \<and>
        hz10_page_local_freelist_contains (m, p1) head
     then (next, m, p1\<lparr>pg_drain_invalid_count := pg_drain_invalid_count p1 + 1,
                      pg_remote_invalid_count := pg_remote_invalid_count p1 + 1\<rparr>)
     else
       let m1 = hz10_freelist_page_mark_local_free p1 head m;
           m2 = m1(head := pg_local_free_head p1)
       in (next, m2, p1\<lparr>pg_local_free_head := head, pg_free_count := pg_free_count p1 + 1\<rparr>))"


inductive race_step :: "hz10_config \<Rightarrow> u32 \<Rightarrow> (nat \<Rightarrow> addr) \<Rightarrow> race_state \<Rightarrow> race_state \<Rightarrow> bool"
  for cfg e token where
  owner_alloc: "\<not> rs_destroyed s \<Longrightarrow> rs_drain s = None \<Longrightarrow>
    hz10_freelist_page_alloc cfg (rs_view s) = (a, v') \<Longrightarrow>
    race_step cfg e token s
      (s\<lparr>rs_view := v', rs_user := (if a = 0 then rs_user s else insert a (rs_user s))\<rparr>)"
| owner_free: "\<not> rs_destroyed s \<Longrightarrow> rs_drain s = None \<Longrightarrow> a \<in> rs_user s \<Longrightarrow>
    race_step cfg e token s
      (s\<lparr>rs_view := hz10_freelist_page_free a (rs_view s), rs_user := rs_user s - {a}\<rparr>)"
| user_write: "a \<in> rs_user s \<Longrightarrow> off < ucast (pg_slot_size (snd (rs_view s))) \<Longrightarrow> off AND 7 = 0 \<Longrightarrow>
    race_step cfg e token s
      (s\<lparr>rs_view := ((fst (rs_view s))(a + off := x), snd (rs_view s))\<rparr>)"
| claim_ok: "a \<in> rs_user s \<Longrightarrow> rs_push s t = None \<Longrightarrow>
    hz10_page_remote_free_claim a e (rs_view s) = (Some si, v') \<Longrightarrow>
    race_step cfg e token s
      (s\<lparr>rs_view := v', rs_user := rs_user s - {a}, rs_push := (rs_push s)(t \<mapsto> (a, PubLoad))\<rparr>)"
| claim_refused: "a \<in> rs_user s \<Longrightarrow> rs_push s t = None \<Longrightarrow>
    hz10_page_remote_free_claim a e (rs_view s) = (None, v') \<Longrightarrow>
    race_step cfg e token s (s\<lparr>rs_view := v'\<rparr>)"
| push_load: "rs_push s t = Some (a, PubLoad) \<Longrightarrow>
    old = hz10_freelist_page_remote_head (snd (rs_view s)) (hz10_remote_pick_stripe (token t)) \<Longrightarrow>
    race_step cfg e token s (s\<lparr>rs_push := (rs_push s)(t \<mapsto> (a, PubStore old))\<rparr>)"
| push_store: "rs_push s t = Some (a, PubStore old) \<Longrightarrow>
    race_step cfg e token s (s\<lparr>rs_view := ((fst (rs_view s))(a := old), snd (rs_view s)),
      rs_push := (rs_push s)(t \<mapsto> (a, PubCas old))\<rparr>)"
| push_cas: "rs_push s t = Some (a, PubCas old) \<Longrightarrow>
    hz10_freelist_page_remote_head (snd (rs_view s)) (hz10_remote_pick_stripe (token t)) = old \<Longrightarrow>
    race_step cfg e token s
      (s\<lparr>rs_view := (fst (rs_view s), set_remote_head (hz10_remote_pick_stripe (token t)) a (snd (rs_view s))),
         rs_push := (rs_push s)(t := None)\<rparr>)"
| push_retry: "rs_push s t = Some (a, PubCas old) \<Longrightarrow>
    new = hz10_freelist_page_remote_head (snd (rs_view s)) (hz10_remote_pick_stripe (token t)) \<Longrightarrow>
    race_step cfg e token s (s\<lparr>rs_push := (rs_push s)(t \<mapsto> (a, PubStore new))\<rparr>)"
| drain_take: "\<not> rs_destroyed s \<Longrightarrow> rs_drain s = None \<Longrightarrow> k < 4 \<Longrightarrow>
    head = hz10_freelist_page_remote_head (snd (rs_view s)) k \<Longrightarrow>
    race_step cfg e token s (s\<lparr>rs_view := (fst (rs_view s), set_remote_head k 0 (snd (rs_view s))),
      rs_drain := Some head\<rparr>)"
| drain_node: "rs_drain s = Some head \<Longrightarrow> head \<noteq> 0 \<Longrightarrow> drain_one head (rs_view s) = (next, v') \<Longrightarrow>
    race_step cfg e token s (s\<lparr>rs_view := v', rs_drain := Some next\<rparr>)"
| drain_done: "rs_drain s = Some 0 \<Longrightarrow> race_step cfg e token s (s\<lparr>rs_drain := None\<rparr>)"
| destroy: "\<not> rs_destroyed s \<Longrightarrow> rs_drain s = None \<Longrightarrow>
    pg_free_count (snd (rs_view s)) = pg_slot_count (snd (rs_view s)) \<Longrightarrow>
    race_step cfg e token s (s\<lparr>rs_destroyed := True\<rparr>)"

section \<open>The invariant\<close>

text \<open>\<open>xs\<close> are the slots the owner has taken off a stripe and not merged yet.\<close>

definition race_rel :: "hz10_config \<Rightarrow> race_state \<Rightarrow> abs_page \<Rightarrow> nat list \<Rightarrow> bool" where
  "race_rel cfg s A xs \<longleftrightarrow> (let m = fst (rs_view s); p = snd (rs_view s) in
     page_rel cfg (m, p) A \<and> distinct xs \<and> set xs \<subseteq> ap_claimed A \<and>
     (case rs_drain s of None \<Rightarrow> xs = [] | Some h \<Rightarrow> chain m h (map (slot p) xs)) \<and>
     rs_user s = slot p ` held_slots A \<and>
     (\<forall>t a pc. rs_push s t = Some (a, pc) \<longrightarrow> (\<exists>i\<in>ap_claimed A - set xs. a = slot p i)) \<and>
     (\<forall>i\<in>ap_claimed A - set xs. \<exists>t pc. rs_push s t = Some (slot p i, pc)) \<and>
     (\<forall>t t' a pc pc'. rs_push s t = Some (a, pc) \<longrightarrow> rs_push s t' = Some (a, pc') \<longrightarrow> t = t') \<and>
     (\<forall>t a old. rs_push s t = Some (a, PubCas old) \<longrightarrow> m a = old) \<and>
     (rs_destroyed s \<longrightarrow> held_slots A = {} \<and> ap_claimed A = {} \<and> remote_slots A = []))"

definition race_inv :: "hz10_config \<Rightarrow> race_state \<Rightarrow> bool" where
  "race_inv cfg s \<longleftrightarrow> (\<exists>A xs. race_rel cfg s A xs)"

lemma race_relD:
  assumes "race_rel cfg s A xs" "rs_view s = (m, p)"
  shows "page_rel cfg (m, p) A" "distinct xs" "set xs \<subseteq> ap_claimed A"
    "rs_drain s = None \<Longrightarrow> xs = []" "rs_drain s = Some h \<Longrightarrow> chain m h (map (slot p) xs)"
    "rs_user s = slot p ` held_slots A"
    "rs_push s t = Some (a, pc) \<Longrightarrow> \<exists>i\<in>ap_claimed A - set xs. a = slot p i"
    "i \<in> ap_claimed A - set xs \<Longrightarrow> \<exists>t pc. rs_push s t = Some (slot p i, pc)"
    "rs_push s t = Some (a, pc) \<Longrightarrow> rs_push s t' = Some (a, pc') \<Longrightarrow> t = t'"
    "rs_push s t = Some (a, PubCas old) \<Longrightarrow> m a = old"
    "rs_destroyed s \<Longrightarrow> held_slots A = {} \<and> ap_claimed A = {} \<and> remote_slots A = []"
proof -
  have C: "page_rel cfg (m, p) A \<and> distinct xs \<and> set xs \<subseteq> ap_claimed A \<and>
     (case rs_drain s of None \<Rightarrow> xs = [] | Some h \<Rightarrow> chain m h (map (slot p) xs)) \<and>
     rs_user s = slot p ` held_slots A \<and>
     (\<forall>t a pc. rs_push s t = Some (a, pc) \<longrightarrow> (\<exists>i\<in>ap_claimed A - set xs. a = slot p i)) \<and>
     (\<forall>i\<in>ap_claimed A - set xs. \<exists>t pc. rs_push s t = Some (slot p i, pc)) \<and>
     (\<forall>t t' a pc pc'. rs_push s t = Some (a, pc) \<longrightarrow> rs_push s t' = Some (a, pc') \<longrightarrow> t = t') \<and>
     (\<forall>t a old. rs_push s t = Some (a, PubCas old) \<longrightarrow> m a = old) \<and>
     (rs_destroyed s \<longrightarrow> held_slots A = {} \<and> ap_claimed A = {} \<and> remote_slots A = [])"
    using assms(1) unfolding race_rel_def Let_def assms(2) fst_conv snd_conv .
  show "page_rel cfg (m, p) A" "distinct xs" "set xs \<subseteq> ap_claimed A" "rs_user s = slot p ` held_slots A"
    using C by simp_all
  show "rs_drain s = None \<Longrightarrow> xs = []" "rs_drain s = Some h \<Longrightarrow> chain m h (map (slot p) xs)"
    using C by simp_all
  show "rs_push s t = Some (a, pc) \<Longrightarrow> \<exists>i\<in>ap_claimed A - set xs. a = slot p i"
    "i \<in> ap_claimed A - set xs \<Longrightarrow> \<exists>t pc. rs_push s t = Some (slot p i, pc)"
    "rs_push s t = Some (a, pc) \<Longrightarrow> rs_push s t' = Some (a, pc') \<Longrightarrow> t = t'"
    "rs_push s t = Some (a, PubCas old) \<Longrightarrow> m a = old"
    "rs_destroyed s \<Longrightarrow> held_slots A = {} \<and> ap_claimed A = {} \<and> remote_slots A = []"
    using C by blast+
qed

lemma race_relI:
  assumes "rs_view s = (m, p)" "page_rel cfg (m, p) A" "distinct xs" "set xs \<subseteq> ap_claimed A"
    "rs_drain s = None \<Longrightarrow> xs = []" "\<And>h. rs_drain s = Some h \<Longrightarrow> chain m h (map (slot p) xs)"
    "rs_user s = slot p ` held_slots A"
    "\<And>t a pc. rs_push s t = Some (a, pc) \<Longrightarrow> \<exists>i\<in>ap_claimed A - set xs. a = slot p i"
    "\<And>i. i \<in> ap_claimed A - set xs \<Longrightarrow> \<exists>t pc. rs_push s t = Some (slot p i, pc)"
    "\<And>t t' a pc pc'. rs_push s t = Some (a, pc) \<Longrightarrow> rs_push s t' = Some (a, pc') \<Longrightarrow> t = t'"
    "\<And>t a old. rs_push s t = Some (a, PubCas old) \<Longrightarrow> m a = old"
    "rs_destroyed s \<Longrightarrow> held_slots A = {} \<and> ap_claimed A = {} \<and> remote_slots A = []"
  shows "race_rel cfg s A xs"
  unfolding race_rel_def Let_def assms(1) fst_conv snd_conv
  using assms(2-) by (intro conjI) (auto split: option.split)

text \<open>What the owner's operations do to the header's geometry and to payload memory.\<close>

lemma held_lt: "page_rel cfg (m, p) A \<Longrightarrow> i \<in> held_slots A \<Longrightarrow> i < unat (pg_slot_count p)"
  using page_relD(3) [of cfg m p A] by (auto simp: held_slots_def)

lemma claimed_lt: "page_rel cfg (m, p) A \<Longrightarrow> i \<in> ap_claimed A \<Longrightarrow> i < unat (pg_slot_count p)"
  using page_rel_lt_count [of cfg m p A i] by blast

lemma alloc_geom:
  "hz10_freelist_page_alloc cfg (m, p) = (a, m', p') \<Longrightarrow>
     pg_base p' = pg_base p \<and> pg_slot_size p' = pg_slot_size p \<and> pg_slot_count p' = pg_slot_count p \<and>
     pg_generation p' = pg_generation p"
  by (auto simp: hz10_freelist_page_alloc_def Let_def split: if_splits)

lemma slot_offset_neq:
  assumes g: "page_geom p" and i: "i < unat (pg_slot_count p)" and j: "j < unat (pg_slot_count p)"
    and off: "off < ucast (pg_slot_size p)" and ne: "i \<noteq> j"
  shows "slot p i + off \<noteq> slot p j" "slot p i + off \<noteq> slot p j + 8"
proof -
  let ?s = "unat (pg_slot_size p)"
  have o: "unat off < ?s" using off by (simp add: word_less_nat_alt)
  have "i * ?s + unat off < 65536" using slot_end [OF g i] o by linarith
  then have ui: "unat (slot p i + off) = unat (pg_base p) + i * ?s + unat off"
    using unat_slot_addr_plus [of "pg_base p" i "pg_slot_size p" "unat off"] g by (simp add: page_geom_def)
  have s: "8 < ?s" using g by (auto simp: page_geom_def)
  have "\<not> (i * ?s \<le> j * ?s + k \<and> j * ?s + k < i * ?s + ?s)" if "k < ?s" for k
  proof
    assume a: "i * ?s \<le> j * ?s + k \<and> j * ?s + k < i * ?s + ?s"
    have "(j * ?s + k) div ?s = j" using that by simp
    moreover have "(j * ?s + k) div ?s = i"
      by (rule div_nat_eqI) (use a in \<open>simp_all add: mult.commute\<close>)
    ultimately show False using ne by simp
  qed
  from this [of 0] this [of 8] have k: "i * ?s + unat off \<noteq> j * ?s" "i * ?s + unat off \<noteq> j * ?s + 8"
    using o s by linarith+
  show "slot p i + off \<noteq> slot p j"
  proof
    assume "slot p i + off = slot p j"
    then have "unat (pg_base p) + i * ?s + unat off = unat (pg_base p) + j * ?s"
      using ui unat_slot_0 [OF g j] by simp
    then show False using k(1) by linarith
  qed
  show "slot p i + off \<noteq> slot p j + 8"
  proof
    assume "slot p i + off = slot p j + 8"
    then have "unat (pg_base p) + i * ?s + unat off = unat (pg_base p) + j * ?s + 8"
      using ui unat_slot_8 [OF g j] by simp
    then show False using k(2) by linarith
  qed
qed

text \<open>A write that keeps away from the slots on the lists keeps every part of the relation that
  does not look at the written slot.\<close>

lemma page_rel_write_other:
  assumes rel: "page_rel cfg (m, p) A" and i: "i \<in> held_slots A \<or> i \<in> ap_claimed A"
    and off: "off < ucast (pg_slot_size p)"
  shows "page_rel cfg (m(slot p i + off := x), p) A"
proof -
  note D = page_relD [OF rel]
  have il: "i < unat (pg_slot_count p)" using i held_lt [OF rel] claimed_lt [OF rel] by blast
  have ni: "i \<notin> set (ap_free A) \<union> set (remote_slots A)" using i D(13) by (auto simp: held_slots_def)
  have "slot p i + off \<noteq> slot p j" "slot p i + off \<noteq> slot p j + 8"
    if "j \<in> set (ap_free A) \<union> set (remote_slots A)" for j
  proof -
    have "j < unat (pg_slot_count p)" "i \<noteq> j" using that page_rel_lt_count [OF rel, of j] ni by auto
    then show "slot p i + off \<noteq> slot p j" "slot p i + off \<noteq> slot p j + 8"
      using slot_offset_neq [OF D(1) il _ off] by blast+
  qed
  then have "page_rel cfg (m(slot p i + off := x), p) A \<longleftrightarrow> page_rel cfg (m, p) A"
    by (intro page_rel_mem_cong) (metis fun_upd_other UnI1)+
  with rel show ?thesis by simp
qed

lemma drain_one_eq:
  assumes rel: "page_rel cfg (m, p) A" and i: "i \<in> ap_claimed A"
  shows "drain_one (slot p i) (m, p) = (m (slot p i),
     hz10_freelist_page_free (slot p i) (m, hz10_page_pending_clear p (of_nat i)))"
proof -
  note D = page_relD [OF rel]
  have il: "i < unat (pg_slot_count p)" by (rule claimed_lt [OF rel i])
  have "length (ap_free A) \<le> unat (pg_slot_count p)"
    using D(3,8) distinct_bounded_length [OF D(9), of "ap_frontier A"] D(12) by fastforce
  then have "\<not> hz10_page_local_freelist_contains (m, hz10_page_pending_clear p (of_nat i)) (slot p i)"
    using freelist_contains_iff [OF D(4), of "unat (pg_slot_count p)" "slot p i"] D(13) i
      slot_set_iff [OF D(1) il, of "set (ap_free A)"] page_rel_lt_count [OF rel]
    by (auto simp: hz10_page_local_freelist_contains_def pending_bits_frame)
  then show ?thesis using slot_index_of [OF D(1) il]
    by (simp add: drain_one_def Let_def hz10_freelist_page_free_def)
qed

section \<open>Every step keeps the invariant\<close>

text \<open>Threads in the push loop are not disturbed by a write elsewhere.\<close>

lemma cas_kept:
  assumes R: "race_rel cfg s A xs" and v: "rs_view s = (m, p)"
    and "\<And>i. i \<in> ap_claimed A - set xs \<Longrightarrow> m' (slot p i) = m (slot p i)"
    and "rs_push s t = Some (a, PubCas old)"
  shows "m' a = old"
  using race_relD(7,10) [OF R v] assms(3,4) by (metis (no_types, lifting))

lemma step_alloc:
  assumes R: "race_rel cfg s A xs" and "\<not> rs_destroyed s" "rs_drain s = None"
    and al: "hz10_freelist_page_alloc cfg (rs_view s) = (a, v')"
  shows "\<exists>A' xs'. race_rel cfg (s\<lparr>rs_view := v',
     rs_user := (if a = 0 then rs_user s else insert a (rs_user s))\<rparr>) A' xs'"
proof -
  obtain m p where v: "rs_view s = (m, p)" by force
  note D = race_relD [OF R v]
  have xs: "xs = []" using D(4) assms(3) .
  let ?n = "unat (pg_slot_count p)"
  obtain r A' where aa: "abs_alloc ?n A = (r, A')" by force
  note AR = alloc_refines [OF D(1), unfolded aa prod.case]
  show ?thesis
  proof (cases r)
    case None
    then have "a = 0" "v' = (m, p)" using AR al v by simp_all
    then have "s\<lparr>rs_view := v', rs_user := (if a = 0 then rs_user s else insert a (rs_user s))\<rparr> = s"
      using v by simp
    then show ?thesis using R by auto
  next
    case (Some i)
    then obtain m' p' where al': "hz10_freelist_page_alloc cfg (m, p) = (slot p i, m', p')"
      "m' = m(slot p i + 8 := 0)" "page_rel cfg (m', p') A'" "i < ?n" using AR by auto
    then have a: "a = slot p i" "v' = (m', p')" using al unfolding v al'(1) prod.inject by metis+
    note E = abs_alloc_exclusive [OF D(1) aa [unfolded Some]]
    have g: "page_geom p" using page_relD(1) [OF D(1)] .
    have a0: "a \<noteq> 0" using slot_nonnull [OF g al'(4)] a by simp
    have sl: "slot p' = slot p" using alloc_geom [OF al'(1)] by simp
    have mem: "m' (slot p j) = m (slot p j)" if "j \<in> ap_claimed A - set xs" for j
      using that claimed_lt [OF D(1), of j] slot_neq_marker [OF g _ al'(4), of j] by (auto simp: al'(2))
    show ?thesis
    proof (intro exI, rule race_relI)
      show "rs_view (s\<lparr>rs_view := v', rs_user := (if a = 0 then rs_user s else insert a (rs_user s))\<rparr>)
          = (m', p')" by (simp add: a(2))
      show "m' b = old" if "rs_push (s\<lparr>rs_view := v',
          rs_user := (if a = 0 then rs_user s else insert a (rs_user s))\<rparr>) t = Some (b, PubCas old)" for t b old
        using cas_kept [OF R v mem] that by simp
    qed (use D al' E a a0 xs assms(2,3) sl in auto)
  qed
qed

lemma step_free:
  assumes R: "race_rel cfg s A xs" and "\<not> rs_destroyed s" "rs_drain s = None" "a \<in> rs_user s"
  shows "\<exists>A' xs'. race_rel cfg (s\<lparr>rs_view := hz10_freelist_page_free a (rs_view s),
     rs_user := rs_user s - {a}\<rparr>) A' xs'"
proof -
  obtain m p where v: "rs_view s = (m, p)" by force
  note D = race_relD [OF R v]
  have xs: "xs = []" using D(4) assms(3) .
  have g: "page_geom p" using page_relD(1) [OF D(1)] .
  obtain i where i: "i \<in> held_slots A" "a = slot p i" using D(6) assms(4) by auto
  have il: "i < unat (pg_slot_count p)" by (rule held_lt [OF D(1) i(1)])
  obtain m' p' where f: "hz10_freelist_page_free a (m, p) = (m', p')" by force
  have rel: "page_rel cfg (m', p') (abs_free i A)" using free_refines [OF D(1) i(1)] f i(2) by simp
  have sl: "slot p' = slot p" using f by (auto simp: free_eq [OF g])
  have h: "held_slots (abs_free i A) = held_slots A - {i}" "ap_claimed (abs_free i A) = ap_claimed A"
    by (auto simp: abs_free_def held_slots_def)
  have u: "slot p ` (held_slots A - {i}) = slot p ` held_slots A - {a}"
    using i held_lt [OF D(1)] slot_eq_iff [OF g] by auto
  have mem: "m' (slot p j) = m (slot p j)" if "j \<in> ap_claimed A - set xs" for j
  proof -
    have "j < unat (pg_slot_count p)" "j \<noteq> i"
      using that claimed_lt [OF D(1)] i(1) by (auto simp: held_slots_def)
    then show ?thesis using f i(2) slot_eq_iff [OF g _ il, of j] slot_neq_marker [OF g _ il, of j]
      by (auto simp: free_eq [OF g])
  qed
  show ?thesis
  proof (intro exI, rule race_relI)
    show "rs_view (s\<lparr>rs_view := hz10_freelist_page_free a (rs_view s), rs_user := rs_user s - {a}\<rparr>) = (m', p')"
      by (simp add: v f)
    show "m' b = old" if "rs_push (s\<lparr>rs_view := hz10_freelist_page_free a (rs_view s),
        rs_user := rs_user s - {a}\<rparr>) t = Some (b, PubCas old)" for t b old
      using cas_kept [OF R v mem] that by simp
  qed (use D rel h u xs assms(2,3) sl in auto)
qed

lemma step_write:
  assumes R: "race_rel cfg s A xs" and "a \<in> rs_user s"
    and off: "off < ucast (pg_slot_size (snd (rs_view s)))"
  shows "race_rel cfg (s\<lparr>rs_view := ((fst (rs_view s))(a + off := x), snd (rs_view s))\<rparr>) A xs"
proof -
  obtain m p where v: "rs_view s = (m, p)" by force
  note D = race_relD [OF R v]
  have g: "page_geom p" using page_relD(1) [OF D(1)] .
  obtain i where i: "i \<in> held_slots A" "a = slot p i" using D(6) assms(2) by auto
  have il: "i < unat (pg_slot_count p)" by (rule held_lt [OF D(1) i(1)])
  let ?m = "m(a + off := x)"
  have rel: "page_rel cfg (?m, p) A"
    using page_rel_write_other [OF D(1)] i off v by simp
  have mem: "?m (slot p j) = m (slot p j)" if "j \<in> ap_claimed A" for j
  proof -
    have "j < unat (pg_slot_count p)" "i \<noteq> j"
      using that claimed_lt [OF D(1)] i(1) by (auto simp: held_slots_def)
    then have "slot p i + off \<noteq> slot p j" using slot_offset_neq(1) [OF g il] off v by simp
    then show ?thesis by (simp add: i(2))
  qed
  show ?thesis
  proof (rule race_relI)
    show "rs_view (s\<lparr>rs_view := ((fst (rs_view s))(a + off := x), snd (rs_view s))\<rparr>) = (?m, p)" by (simp add: v)
    show "?m b = old" if "rs_push (s\<lparr>rs_view := ((fst (rs_view s))(a + off := x), snd (rs_view s))\<rparr>) t
        = Some (b, PubCas old)" for t b old
      using cas_kept [OF R v, of ?m t b old] mem that by simp
    show "chain ?m h (map (slot p) xs)"
      if "rs_drain (s\<lparr>rs_view := ((fst (rs_view s))(a + off := x), snd (rs_view s))\<rparr>) = Some h" for h
    proof -
      have "chain ?m h (map (slot p) xs) \<longleftrightarrow> chain m h (map (slot p) xs)"
      proof (rule chain_cong)
        fix y
        assume "y \<in> set (map (slot p) xs)"
        then obtain j where "j \<in> set xs" "y = slot p j" by auto
        then show "?m y = m y" using mem D(3) by blast
      qed
      then show ?thesis using D(5) [of h] that by simp
    qed
  qed (use D rel in auto)
qed

lemma step_claim:
  assumes R: "race_rel cfg s A xs" and "a \<in> rs_user s" "rs_push s t = None"
    and c: "hz10_page_remote_free_claim a e (rs_view s) = (Some si, v')"
  shows "\<exists>A' xs'. race_rel cfg (s\<lparr>rs_view := v', rs_user := rs_user s - {a},
     rs_push := (rs_push s)(t \<mapsto> (a, PubLoad))\<rparr>) A' xs'"
proof -
  obtain m p where v: "rs_view s = (m, p)" by force
  note D = race_relD [OF R v]
  have g: "page_geom p" using page_relD(1) [OF D(1)] .
  obtain i where i: "i \<in> held_slots A" "a = slot p i" using D(6) assms(2) by auto
  have il: "i < unat (pg_slot_count p)" by (rule held_lt [OF D(1) i(1)])
  have cl: "hz10_page_classify_for_remote p a e = Some si"
    and nm: "\<not> hz10_freelist_page_is_marked_local_free p a m"
    using c by (auto simp: v hz10_page_remote_free_claim_def split: option.splits if_splits prod.splits)
  then have si: "unat si < unat (pg_slot_count p)" "a = slot p (unat si)" "e = 0 \<or> e = pg_generation p"
    using classify_Some_iff [OF g] by auto
  have "slot p (unat si) = slot p i" by (rule trans [OF si(2) [symmetric] i(2)])
  then have ii: "unat si = i" by (rule iffD1 [OF slot_eq_iff [OF g si(1) il]])
  have mk: "m (slot p i + 8) \<noteq> HZ10_FREELIST_LOCAL_MARKER"
    using nm i(2) g by (simp add: hz10_freelist_page_is_marked_local_free_def page_geom_def
        hz10_freelist_page_slot_marker_ptr_def word_less_nat_alt)
  obtain p' where c0: "hz10_page_remote_free_claim (slot p (unat si)) e (m, p) = (Some si, m, p')"
    "page_rel cfg (m, p') (abs_claim (unat si) A)" "pg_base p' = pg_base p" "pg_slot_size p' = pg_slot_size p"
    using claim_refines [OF D(1) i(1) [folded ii] si(3) mk [folded ii]] by blast
  have c': "hz10_page_remote_free_claim a e (m, p) = (Some si, m, p')"
    "page_rel cfg (m, p') (abs_claim i A)" "slot p' = slot p"
    using c0 unfolding ii i(2) by simp_all
  then have v': "v' = (m, p')" using c v by simp
  have nc: "i \<notin> ap_claimed A" using i(1) by (simp add: held_slots_def)
  have h: "held_slots (abs_claim i A) = held_slots A - {i}" "ap_claimed (abs_claim i A) = insert i (ap_claimed A)"
    by (auto simp: abs_claim_def held_slots_def)
  have u: "slot p ` (held_slots A - {i}) = slot p ` held_slots A - {a}"
    using i held_lt [OF D(1)] slot_eq_iff [OF g] by auto
  have fresh: "rs_push s t' = Some (a, pc) \<Longrightarrow> False" for t' pc
  proof -
    assume "rs_push s t' = Some (a, pc)"
    then obtain j where j: "j \<in> ap_claimed A" "a = slot p j" using D(7) by blast
    have "slot p j = slot p i" by (rule trans [OF j(2) [symmetric] i(2)])
    then have "j = i" by (rule iffD1 [OF slot_eq_iff [OF g claimed_lt [OF D(1) j(1)] il]])
    then show False using j nc by simp
  qed
  have ix: "i \<notin> set xs" using nc D(3) by auto
  let ?s = "s\<lparr>rs_view := v', rs_user := rs_user s - {a}, rs_push := (rs_push s)(t \<mapsto> (a, PubLoad))\<rparr>"
  have "race_rel cfg ?s (abs_claim i A) xs"
  proof (rule race_relI)
    show "rs_view ?s = (m, p')" by (simp add: v')
    show "\<exists>j\<in>ap_claimed (abs_claim i A) - set xs. b = slot p' j" if "rs_push ?s t' = Some (b, pc)" for t' b pc
      using that D(7) [of t' b pc] i(2) ix by (auto simp: h c'(3) split: if_splits)
    show "\<exists>t' pc. rs_push ?s t' = Some (slot p' j, pc)" if jj: "j \<in> ap_claimed (abs_claim i A) - set xs" for j
    proof (cases "j = i")
      case True
      then show ?thesis using i(2) by (auto simp: c'(3))
    next
      case False
      then obtain t' pc where "rs_push s t' = Some (slot p j, pc)" using jj D(8) [of j] by (auto simp: h)
      then show ?thesis using assms(3) by (intro exI [of _ t'] exI [of _ pc]) (auto simp: c'(3))
    qed
    show "t1 = t2" if "rs_push ?s t1 = Some (b, pc1)" "rs_push ?s t2 = Some (b, pc2)" for t1 t2 b pc1 pc2
      using that fresh D(9) [of t1 b pc1 t2 pc2] by (auto split: if_splits)
    show "m b = old" if "rs_push ?s t' = Some (b, PubCas old)" for t' b old
      using that D(10) [of t' b old] by (auto split: if_splits)
    show "rs_destroyed ?s \<Longrightarrow> held_slots (abs_claim i A) = {} \<and> ap_claimed (abs_claim i A) = {} \<and>
        remote_slots (abs_claim i A) = []"
      using D(11) i(1) by auto
  qed (use D c' h u in auto)
  then show ?thesis by blast
qed

lemma step_refused:
  assumes R: "race_rel cfg s A xs"
    and c: "hz10_page_remote_free_claim a e (rs_view s) = (None, v')"
  shows "race_rel cfg (s\<lparr>rs_view := v'\<rparr>) A xs"
proof -
  obtain m p where v: "rs_view s = (m, p)" by force
  note D = race_relD [OF R v]
  obtain p' where v': "v' = (m, p')" using claim_rejected(1) [OF D(1)] c v by (metis prod.collapse)
  have rel: "page_rel cfg (m, p') A" using claim_rejected(2) [OF D(1)] c v v' by simp
  have "pg_base p' = pg_base p \<and> pg_slot_size p' = pg_slot_size p"
    using c v v' by (auto simp: hz10_page_remote_free_claim_def hz10_page_pending_try_claim_def Let_def
        split: option.splits if_splits)
  then have sl: "slot p' = slot p" by simp
  show ?thesis by (rule race_relI [of _ m p']) (use D rel v' in \<open>auto simp: sl\<close>)
qed

lemma step_push:
  assumes R: "race_rel cfg s A xs" and "rs_push s t = Some (a, pc)"
    and "\<And>old. pc' = PubCas old \<Longrightarrow> fst (rs_view s) a = old"
  shows "race_rel cfg (s\<lparr>rs_push := (rs_push s)(t \<mapsto> (a, pc'))\<rparr>) A xs"
proof -
  obtain m p where v: "rs_view s = (m, p)" by force
  note D = race_relD [OF R v]
  let ?s = "s\<lparr>rs_push := (rs_push s)(t \<mapsto> (a, pc'))\<rparr>"
  show ?thesis
  proof (rule race_relI)
    show "rs_view ?s = (m, p)" by (simp add: v)
    show "\<exists>j\<in>ap_claimed A - set xs. b = slot p j" if "rs_push ?s t' = Some (b, pc2)" for t' b pc2
      using that D(7) [of t' b pc2] D(7) [OF assms(2)] by (auto split: if_splits)
    show "\<exists>t' pc2. rs_push ?s t' = Some (slot p j, pc2)" if j: "j \<in> ap_claimed A - set xs" for j
    proof -
      obtain t' pc2 where "rs_push s t' = Some (slot p j, pc2)" using D(8) [OF j] by blast
      then show ?thesis using assms(2) by (cases "t' = t") auto
    qed
    show "t1 = t2" if "rs_push ?s t1 = Some (b, pc1)" "rs_push ?s t2 = Some (b, pc2)" for t1 t2 b pc1 pc2
    proof -
      have "\<exists>pc1. rs_push s t1 = Some (b, pc1)" "\<exists>pc2. rs_push s t2 = Some (b, pc2)"
        using that assms(2) by (auto split: if_splits)
      then show ?thesis using D(9) by blast
    qed
    show "m b = old" if "rs_push ?s t' = Some (b, PubCas old)" for t' b old
      using that D(10) [of t' b old] assms(3) [of old] v by (auto split: if_splits)
  qed (use D in auto)
qed

lemma step_store:
  assumes R: "race_rel cfg s A xs" and t: "rs_push s t = Some (a, PubStore old)"
  shows "race_rel cfg (s\<lparr>rs_view := ((fst (rs_view s))(a := old), snd (rs_view s)),
      rs_push := (rs_push s)(t \<mapsto> (a, PubCas old))\<rparr>) A xs"
proof -
  obtain m p where v: "rs_view s = (m, p)" by force
  note D = race_relD [OF R v]
  have g: "page_geom p" using page_relD(1) [OF D(1)] .
  obtain i where i: "i \<in> ap_claimed A" "i \<notin> set xs" "a = slot p i" using D(7) [OF t] by auto
  have il: "i < unat (pg_slot_count p)" by (rule claimed_lt [OF D(1) i(1)])
  let ?m = "m(a := old)"
  have s0: "(0 :: addr) < ucast (pg_slot_size p)"
    using g by (auto simp: page_geom_def word_gt_0 word_unat_eq_iff)
  have rel: "page_rel cfg (?m, p) A"
    using page_rel_write_other [OF D(1) disjI2 [OF i(1)] s0, of old] i(3) by simp
  have mem: "?m (slot p j) = m (slot p j)" if "j \<in> ap_claimed A" "j \<noteq> i" for j
    using slot_eq_iff [OF g claimed_lt [OF D(1) that(1)] il] that(2) by (simp add: i(3))
  let ?s = "s\<lparr>rs_view := (?m, p)\<rparr>"
  have "race_rel cfg (?s\<lparr>rs_push := (rs_push ?s)(t \<mapsto> (a, PubCas old))\<rparr>) A xs"
  proof (rule step_push)
    show "rs_push ?s t = Some (a, PubStore old)" using t by simp
    show "race_rel cfg ?s A xs"
    proof (rule race_relI)
      show "rs_view ?s = (?m, p)" by simp
      show "?m b = x" if tb: "rs_push ?s t' = Some (b, PubCas x)" for t' b x
      proof (cases "b = a")
        case True
        then have "t' = t" using tb t D(9) by auto
        then show ?thesis using tb t by simp
      next
        case False
        then show ?thesis using tb D(10) [of t' b x] by simp
      qed
      show "chain ?m h (map (slot p) xs)" if dr: "rs_drain ?s = Some h" for h
      proof -
        have "chain ?m h (map (slot p) xs) \<longleftrightarrow> chain m h (map (slot p) xs)"
        proof (rule chain_cong)
          fix y
          assume "y \<in> set (map (slot p) xs)"
          then obtain j where "j \<in> set xs" "y = slot p j" by auto
          then show "?m y = m y" using mem [of j] D(3) i(2) by blast
        qed
        then show ?thesis using D(5) [of h] dr by simp
      qed
    qed (use D rel in auto)
  qed simp_all
  then show ?thesis by (simp add: v)
qed

lemma publish_held: "k < 4 \<Longrightarrow> i \<in> ap_claimed A \<Longrightarrow> held_slots (abs_publish k i A) = held_slots A"
  by (auto simp: held_slots_def abs_publish_def remote_slots_stripes split: if_splits)

lemma step_cas:
  assumes R: "race_rel cfg s A xs" and t: "rs_push s t = Some (a, PubCas old)"
    and hd: "hz10_freelist_page_remote_head (snd (rs_view s)) (hz10_remote_pick_stripe tok) = old"
  shows "\<exists>A' xs'. race_rel cfg (s\<lparr>rs_view := (fst (rs_view s),
        set_remote_head (hz10_remote_pick_stripe tok) a (snd (rs_view s))),
      rs_push := (rs_push s)(t := None)\<rparr>) A' xs'"
proof -
  obtain m p where v: "rs_view s = (m, p)" by force
  note D = race_relD [OF R v]
  obtain i where i: "i \<in> ap_claimed A" "i \<notin> set xs" "a = slot p i" using D(7) [OF t] by auto
  let ?k = "hz10_remote_pick_stripe tok" and ?A = "abs_publish (hz10_remote_pick_stripe tok) i A"
  let ?p = "set_remote_head ?k a p"
  have "m(a := old) = m" using D(10) [OF t] by auto
  then have rel: "page_rel cfg (m, ?p) ?A"
    using publish_refines [OF D(1) i(1), of tok] hd v by (simp add: publish_eq i(3) del: slot_addr_0)
  have h: "held_slots ?A = held_slots A" "ap_claimed ?A = ap_claimed A - {i}"
    using publish_held [OF pick_stripe_lt [of tok] i(1)] by (simp_all add: abs_publish_def)
  let ?s = "s\<lparr>rs_view := (m, ?p), rs_push := (rs_push s)(t := None)\<rparr>"
  have "race_rel cfg ?s ?A xs"
  proof (rule race_relI)
    show "rs_view ?s = (m, ?p)" by simp
    show "\<exists>j\<in>ap_claimed ?A - set xs. b = slot ?p j" if tb: "rs_push ?s t' = Some (b, pc)" for t' b pc
    proof -
      have "t' \<noteq> t" "rs_push s t' = Some (b, pc)" using tb by (auto split: if_splits)
      then have "b \<noteq> a" using D(9) [of t' b pc t] t by blast
      then show ?thesis using D(7) [of t' b pc] tb i(3) \<open>t' \<noteq> t\<close> by (auto simp: h)
    qed
    show "\<exists>t' pc. rs_push ?s t' = Some (slot ?p j, pc)" if j: "j \<in> ap_claimed ?A - set xs" for j
    proof -
      obtain t' pc where "rs_push s t' = Some (slot p j, pc)" using D(8) [of j] j by (auto simp: h)
      moreover have "slot p j \<noteq> slot p i"
        using j slot_eq_iff [OF page_relD(1) [OF D(1)] claimed_lt [OF D(1)] claimed_lt [OF D(1) i(1)], of j]
        by (auto simp: h)
      ultimately have "t' \<noteq> t" using t i(3) by auto
      with \<open>rs_push s t' = Some (slot p j, pc)\<close> show ?thesis by auto
    qed
    show "t1 = t2" if "rs_push ?s t1 = Some (b, pc1)" "rs_push ?s t2 = Some (b, pc2)" for t1 t2 b pc1 pc2
      using that D(9) [of t1 b pc1 t2 pc2] by (auto split: if_splits)
    show "m b = x" if "rs_push ?s t' = Some (b, PubCas x)" for t' b x
      using that D(10) [of t' b x] by (auto split: if_splits)
    show "rs_destroyed ?s \<Longrightarrow> held_slots ?A = {} \<and> ap_claimed ?A = {} \<and> remote_slots ?A = []"
      using D(11) i(1) by auto
  qed (use D rel h i in auto)
  then show ?thesis using v by auto
qed

lemma step_take:
  assumes R: "race_rel cfg s A xs" and "\<not> rs_destroyed s" "rs_drain s = None" "k < 4"
  shows "\<exists>A' xs'. race_rel cfg (s\<lparr>rs_view := (fst (rs_view s), set_remote_head k 0 (snd (rs_view s))),
      rs_drain := Some (hz10_freelist_page_remote_head (snd (rs_view s)) k)\<rparr>) A' xs'"
proof -
  obtain m p where v: "rs_view s = (m, p)" by force
  note D = race_relD [OF R v]
  have xs: "xs = []" using D(4) assms(3) .
  let ?ys = "ap_stripes A k"
  let ?A = "A\<lparr>ap_stripes := (ap_stripes A)(k := []), ap_claimed := ap_claimed A \<union> set ?ys\<rparr>"
  let ?p = "set_remote_head k 0 p"
  have rel: "page_rel cfg (m, ?p) ?A" by (rule detach_refines [OF D(1) assms(4)])
  have sub: "set ?ys \<subseteq> set (remote_slots A)" by (rule stripe_subset [OF assms(4)])
  have dis: "ap_claimed A \<inter> set ?ys = {}" using page_relD(13) [OF D(1)] sub by auto
  have rem: "set (remote_slots A) = set ?ys \<union> set (remote_slots ?A)"
    using assms(4) by (auto simp: remote_slots_stripes split: if_splits)
  have held: "held_slots ?A = held_slots A" by (auto simp: held_slots_def rem)
  have d: "distinct ?ys" using page_relD(10) [OF D(1)] assms(4)
    by (auto simp: remote_slots_def numeral_eq_Suc less_Suc_eq)
  have cl: "ap_claimed ?A - set ?ys = ap_claimed A" using dis by auto
  let ?s = "s\<lparr>rs_view := (m, ?p), rs_drain := Some (hz10_freelist_page_remote_head p k)\<rparr>"
  have "race_rel cfg ?s ?A ?ys"
  proof (rule race_relI)
    show "rs_view ?s = (m, ?p)" by simp
    show "\<exists>j\<in>ap_claimed ?A - set ?ys. b = slot ?p j" if "rs_push ?s t = Some (b, pc)" for t b pc
      unfolding cl using D(7) that xs by simp
    show "\<exists>t pc. rs_push ?s t = Some (slot ?p j, pc)" if "j \<in> ap_claimed ?A - set ?ys" for j
      using D(8) [of j] that unfolding cl by (simp add: xs)
    show "t1 = t2" if "rs_push ?s t1 = Some (b, pc1)" "rs_push ?s t2 = Some (b, pc2)" for t1 t2 b pc1 pc2
      using that D(9) by simp
  qed (use D(6,10) rel d held assms(2) page_relD(5) [OF D(1) assms(4)] in simp_all)
  then show ?thesis using v by auto
qed

lemma step_node:
  assumes R: "race_rel cfg s A xs" and dr: "rs_drain s = Some head" "head \<noteq> 0"
    and one: "drain_one head (rs_view s) = (nxt, v')"
  shows "\<exists>A' xs'. race_rel cfg (s\<lparr>rs_view := v', rs_drain := Some nxt\<rparr>) A' xs'"
proof -
  obtain m p where v: "rs_view s = (m, p)" by force
  note D = race_relD [OF R v]
  have g: "page_geom p" using page_relD(1) [OF D(1)] .
  obtain i ys where xs: "xs = i # ys" "head = slot p i" "chain m (m head) (map (slot p) ys)"
    using D(5) [OF dr(1)] dr(2) by (cases xs) auto
  have i: "i \<in> ap_claimed A" using D(3) xs(1) by simp
  have il: "i < unat (pg_slot_count p)" by (rule claimed_lt [OF D(1) i])
  let ?p1 = "hz10_page_pending_clear p (of_nat i)"
  obtain m' p' where f: "hz10_freelist_page_free (slot p i) (m, ?p1) = (m', p')" by force
  have n: "nxt = m (slot p i)" "v' = (m', p')"
    using one drain_one_eq [OF D(1) i] f unfolding v xs(2) by simp_all
  let ?A = "A\<lparr>ap_claimed := ap_claimed A - {i}, ap_free := i # ap_free A\<rparr>"
  have rel: "page_rel cfg (m', p') ?A" using merge_refines [OF D(1) i] f by simp
  have g1: "page_geom ?p1" using g page_geom_cong [of ?p1 p] by (simp add: pending_bits_frame)
  have sl: "slot p' = slot p" using f by (auto simp: free_eq [OF g1] pending_bits_frame)
  have held: "held_slots ?A = held_slots A"
    using page_relD(12) [OF D(1)] i by (auto simp: held_slots_def)
  have mem: "m' (slot p j) = m (slot p j)" if "j \<in> ap_claimed A" "j \<noteq> i" for j
  proof -
    have "slot p j \<noteq> slot p i" "slot p j \<noteq> slot p i + 8"
      using slot_eq_iff [OF g claimed_lt [OF D(1) that(1)] il] that(2)
        slot_neq_marker(1) [OF g claimed_lt [OF D(1) that(1)] il] by auto
    then show ?thesis using f by (auto simp: free_eq [OF g1])
  qed
  have iys: "i \<notin> set ys" "distinct ys" using D(2) xs(1) by auto
  let ?s = "s\<lparr>rs_view := (m', p'), rs_drain := Some nxt\<rparr>"
  have cl: "ap_claimed ?A - set ys = ap_claimed A - set xs" using xs(1) by auto
  have "race_rel cfg ?s ?A ys"
  proof (rule race_relI)
    show "rs_view ?s = (m', p')" by simp
    show "chain m' h (map (slot p') ys)" if "rs_drain ?s = Some h" for h
    proof -
      have "chain m' nxt (map (slot p) ys) \<longleftrightarrow> chain m nxt (map (slot p) ys)"
      proof (rule chain_cong)
        fix y
        assume "y \<in> set (map (slot p) ys)"
        then obtain j where "j \<in> set ys" "y = slot p j" by auto
        then show "m' y = m y" using mem [of j] D(3) xs(1) iys(1) by auto
      qed
      then show ?thesis using xs(2,3) that n(1) by (simp add: sl)
    qed
    show "m' b = x" if tb: "rs_push ?s t = Some (b, PubCas x)" for t b x
    proof (rule cas_kept [OF R v, of m' t b x])
      show "m' (slot p j) = m (slot p j)" if "j \<in> ap_claimed A - set xs" for j
        using mem [of j] that xs(1) by auto
    qed (use tb in simp)
    show "\<exists>j\<in>ap_claimed ?A - set ys. b = slot p' j" if "rs_push ?s t = Some (b, pc)" for t b pc
      unfolding cl sl using D(7) that by simp
    show "\<exists>t pc. rs_push ?s t = Some (slot p' j, pc)" if "j \<in> ap_claimed ?A - set ys" for j
      using D(8) [of j] that unfolding cl sl by simp
    show "set ys \<subseteq> ap_claimed ?A" using D(3) xs(1) iys(1) by auto
    show "rs_user ?s = slot p' ` held_slots ?A" using D(6) by (simp add: held sl)
    show "rs_destroyed ?s \<Longrightarrow> held_slots ?A = {} \<and> ap_claimed ?A = {} \<and> remote_slots ?A = []"
      using D(11) i by auto
    show "t1 = t2" if "rs_push ?s t1 = Some (b, pc1)" "rs_push ?s t2 = Some (b, pc2)" for t1 t2 b pc1 pc2
      using that D(9) by simp
  qed (use rel iys in simp_all)
  then show ?thesis using n by auto
qed

inductive_cases race_stepE: "race_step cfg e token s s'"

lemma step_done:
  assumes R: "race_rel cfg s A xs" and "rs_drain s = Some 0"
  shows "race_rel cfg (s\<lparr>rs_drain := None\<rparr>) A xs"
proof -
  obtain m p where v: "rs_view s = (m, p)" by force
  note D = race_relD [OF R v]
  have "xs = []" using D(5) [OF assms(2)] by simp
  then show ?thesis by (intro race_relI [of _ m p]) (use D v in auto)
qed

lemma step_destroy:
  assumes R: "race_rel cfg s A xs" and "rs_drain s = None"
    and "pg_free_count (snd (rs_view s)) = pg_slot_count (snd (rs_view s))"
  shows "race_rel cfg (s\<lparr>rs_destroyed := True\<rparr>) A xs"
proof -
  obtain m p where v: "rs_view s = (m, p)" by force
  note D = race_relD [OF R v]
  have "held_slots A = {} \<and> remote_slots A = [] \<and> ap_claimed A = {}"
    using idle_iff [OF D(1)] assms(3) v by simp
  then show ?thesis by (intro race_relI [of _ m p]) (use D v in auto)
qed

lemma race_step_inv:
  assumes "race_step cfg e token s s'" "race_inv cfg s"
  shows "race_inv cfg s'"
proof -
  obtain A xs where R: "race_rel cfg s A xs" using assms(2) by (auto simp: race_inv_def)
  from assms(1) have "\<exists>A' xs'. race_rel cfg s' A' xs'"
  proof (cases rule: race_step.cases)
    case (owner_alloc a v')
    then show ?thesis using step_alloc [OF R] by blast
  next
    case (owner_free a)
    then show ?thesis using step_free [OF R] by blast
  next
    case (user_write a off x)
    then show ?thesis using step_write [OF R] by blast
  next
    case (claim_ok a t si v')
    then show ?thesis using step_claim [OF R] by blast
  next
    case (claim_refused a t v')
    then show ?thesis using step_refused [OF R] by blast
  next
    case (push_load t a old)
    then show ?thesis using step_push [OF R, of t a PubLoad "PubStore old"] by auto
  next
    case (push_store t a old)
    then show ?thesis using step_store [OF R] by blast
  next
    case (push_cas t a old)
    then show ?thesis using step_cas [OF R] by blast
  next
    case (push_retry t a old new)
    then show ?thesis using step_push [OF R, of t a "PubCas old" "PubStore new"] by auto
  next
    case (drain_take k head)
    then show ?thesis using step_take [OF R] by blast
  next
    case (drain_node head nxt v')
    then show ?thesis using step_node [OF R] by blast
  next
    case drain_done
    then show ?thesis using step_done [OF R] by blast
  next
    case destroy
    then show ?thesis using step_destroy [OF R] by blast
  qed
  then show ?thesis by (simp add: race_inv_def)
qed

text \<open>A page starts fresh from \<open>create\<close>, with nobody holding anything.\<close>

definition race_start :: "hz10_config \<Rightarrow> race_state \<Rightarrow> bool" where
  "race_start cfg s \<longleftrightarrow>
     page_rel cfg (rs_view s) (fresh_abs cfg (unat (pg_slot_count (snd (rs_view s))))) \<and>
     rs_user s = {} \<and> (\<forall>t. rs_push s t = None) \<and> rs_drain s = None \<and> \<not> rs_destroyed s"

inductive race_reach :: "hz10_config \<Rightarrow> u32 \<Rightarrow> (nat \<Rightarrow> addr) \<Rightarrow> race_state \<Rightarrow> bool" for cfg e token where
  reach_start: "race_start cfg s \<Longrightarrow> race_reach cfg e token s"
| reach_step: "race_reach cfg e token s \<Longrightarrow> race_step cfg e token s s' \<Longrightarrow> race_reach cfg e token s'"

lemma race_start_inv: "race_start cfg s \<Longrightarrow> race_inv cfg s"
proof -
  assume st: "race_start cfg s"
  obtain m p where v: "rs_view s = (m, p)" by force
  let ?A = "fresh_abs cfg (unat (pg_slot_count p))"
  have "held_slots ?A = {}" "ap_claimed ?A = {}" by (auto simp: held_slots_def fresh_abs_def)
  then have "race_rel cfg s ?A []" by (intro race_relI [of _ m p]) (use st v in \<open>auto simp: race_start_def\<close>)
  then show ?thesis by (auto simp: race_inv_def)
qed

lemma race_reach_inv: "race_reach cfg e token s \<Longrightarrow> race_inv cfg s"
  by (induction rule: race_reach.induct) (auto intro: race_start_inv race_step_inv)

section \<open>A concrete run\<close>

definition example_race :: race_state where
  "example_race = \<lparr>rs_view = example_view, rs_user = {}, rs_push = \<lambda>_. None, rs_drain = None,
     rs_destroyed = False\<rparr>"

lemma example_race_start: "race_start default_config example_race"
proof -
  have "unat (pg_slot_count (snd example_view)) = 4"
    by (simp add: example_view_def hz10_freelist_page_init_chain_def example_header_def zero_page_def
        default_config_def)
  then show ?thesis using example_view_rel by (simp add: race_start_def example_race_def)
qed

lemma example_race_destroyed:
  "race_reach default_config e token (example_race\<lparr>rs_destroyed := True\<rparr>)"
proof (rule reach_step [OF reach_start [OF example_race_start]], rule destroy)
  show "pg_free_count (snd (rs_view example_race)) = pg_slot_count (snd (rs_view example_race))"
    by (simp add: example_race_def example_view_def hz10_freelist_page_init_chain_def
        example_header_def zero_page_def default_config_def)
qed (simp_all add: example_race_def)

section \<open>Properties\<close>

text \<open>C7: In every interleaving of owner, users and remote freeing threads, once the owner has
  found the page idle and destroyed it no thread is anywhere between its claim and the end of its
  push, nobody holds a block of the page, and nothing is waiting on a stripe: the page is never
  touched after it is gone.\<close>

theorem remote_no_use_after_destroy:
  assumes "race_reach cfg e token s" "rs_destroyed s"
  shows "(\<forall>t. rs_push s t = None) \<and> rs_user s = {} \<and> rs_drain s \<in> {None, Some 0} \<and>
     (\<forall>k<4. hz10_freelist_page_remote_head (snd (rs_view s)) k = 0)"
proof -
  obtain A xs where R: "race_rel cfg s A xs" using race_reach_inv [OF assms(1)] by (auto simp: race_inv_def)
  obtain m p where v: "rs_view s = (m, p)" by force
  note D = race_relD [OF R v]
  have e: "held_slots A = {}" "ap_claimed A = {}" "remote_slots A = []" using D(11) assms(2) by simp_all
  have p: "rs_push s t = None" for t
    using D(7) [of t] e(2) by (cases "rs_push s t") auto
  have "rs_drain s \<in> {None, Some 0}"
    using D(3,5) e(2) by (cases "rs_drain s") auto
  moreover have "hz10_freelist_page_remote_head p k = 0" if "k < 4" for k
    using page_relD(5) [OF D(1) that] e(3) stripe_subset [OF that, of A] by auto
  ultimately show ?thesis using p e D(6) v by simp
qed

theorem remote_no_use_after_destroy_witness:
  "rs_push (example_race\<lparr>rs_destroyed := True\<rparr>) 0 = None"
  using remote_no_use_after_destroy [OF example_race_destroyed [of 0 "\<lambda>_. 0"]] by simp

text \<open>C8: In every interleaving the owner's allocation never hands out a block that somebody
  still has: not one in the hands of a user and not one a thread is in the middle of freeing.\<close>

theorem remote_no_double_allocation:
  assumes "race_reach cfg e token s" "rs_drain s = None"
    and "hz10_freelist_page_alloc cfg (rs_view s) = (a, v')" "a \<noteq> 0"
  shows "a \<notin> rs_user s \<and> (\<forall>t pc. rs_push s t \<noteq> Some (a, pc))"
proof -
  obtain A xs where R: "race_rel cfg s A xs" using race_reach_inv [OF assms(1)] by (auto simp: race_inv_def)
  obtain m p where v: "rs_view s = (m, p)" by force
  note D = race_relD [OF R v]
  have g: "page_geom p" using page_relD(1) [OF D(1)] .
  obtain r A' where aa: "abs_alloc (unat (pg_slot_count p)) A = (r, A')" by force
  note AR = alloc_refines [OF D(1), unfolded aa prod.case]
  obtain i where i: "r = Some i" "a = slot p i" "i < unat (pg_slot_count p)"
    using AR assms(3,4) v by (cases r) auto
  note E = abs_alloc_exclusive [OF D(1) aa [unfolded i(1)]]
  have neq: "slot p j \<noteq> a" if "j < unat (pg_slot_count p)" "j \<noteq> i" for j
    using slot_eq_iff [OF g that(1) i(3)] that(2) i(2) by simp
  have "a \<notin> rs_user s"
    using D(6) E(1) neq held_lt [OF D(1)] by (auto simp: image_iff)
  moreover have "rs_push s t \<noteq> Some (a, pc)" for t pc
    using D(7) [of t a pc] E(3) neq claimed_lt [OF D(1)] by auto
  ultimately show ?thesis by simp
qed

theorem remote_no_double_allocation_witness:
  "fst (hz10_freelist_page_alloc default_config example_view) \<notin> rs_user example_race"
proof -
  have "fst (hz10_freelist_page_alloc default_config example_view) \<noteq> 0" by code_simp
  then show ?thesis
    using remote_no_double_allocation [OF reach_start [OF example_race_start, of 0 "\<lambda>_. 0"], of
        "fst (hz10_freelist_page_alloc default_config example_view)"
        "snd (hz10_freelist_page_alloc default_config example_view)"]
    by (simp add: example_race_def)
qed



end
