(* ===== verification/Hz10_Class_Pages_Correct.thy ===== *)
theory Hz10_Class_Pages_Correct
  imports Hz10_Class_Pages
begin

text \<open>
  What the operations of \<open>Hz10_Class_Pages\<close> do to the two lists of a class. \<open>class_rep st l as rs\<close>
  says that list \<open>l\<close> holds the active pages \<open>as\<close> and the retired pages \<open>rs\<close>, linked in both
  directions, disjoint, with the kinds of their headers right and the sweep cursor on a retired
  page or NULL. The list steps come from \<open>owner_list\<close>, the interpretation of the page sequence.
\<close>

section \<open>Headers up to their list membership\<close>

definition core_eq :: "Hz10FreelistPage \<Rightarrow> Hz10FreelistPage \<Rightarrow> bool" where
  "core_eq p' p \<longleftrightarrow>
     p'\<lparr>pg_next_in_owner_list := 0, pg_prev_in_owner_list := 0, pg_owner_list_kind := 0\<rparr>
     = p\<lparr>pg_next_in_owner_list := 0, pg_prev_in_owner_list := 0, pg_owner_list_kind := 0\<rparr>"

lemma core_eq_simps [simp]:
  "core_eq p p"
  "core_eq (p'\<lparr>pg_owner_list_kind := k\<rparr>) p \<longleftrightarrow> core_eq p' p"
  "core_eq (unlinked p') p \<longleftrightarrow> core_eq p' p"
  by (simp_all add: core_eq_def unlinked_def)

lemma core_eq_trans: "core_eq p3 p2 \<Longrightarrow> core_eq p2 p1 \<Longrightarrow> core_eq p3 p1"
  by (simp add: core_eq_def)

lemma core_eq_links:
  assumes "same_but_links p' p" shows "core_eq p' p"
proof -
  have "p'\<lparr>pg_next_in_owner_list := 0, pg_prev_in_owner_list := 0\<rparr>\<lparr>pg_owner_list_kind := 0\<rparr>
      = p\<lparr>pg_next_in_owner_list := 0, pg_prev_in_owner_list := 0\<rparr>\<lparr>pg_owner_list_kind := 0\<rparr>"
    using assms by (simp only: same_but_links_def)
  then show ?thesis by (simp add: core_eq_def)
qed

lemma same_but_links_kind: "same_but_links p' p \<Longrightarrow> pg_owner_list_kind p' = pg_owner_list_kind p"
  unfolding same_but_links_def by (drule arg_cong [where f = pg_owner_list_kind]) simp

lemma core_eq_field:
  assumes "core_eq p' p" "\<And>p n v k. f (p\<lparr>pg_next_in_owner_list := n, pg_prev_in_owner_list := v, pg_owner_list_kind := k\<rparr>) = f p"
  shows "f p' = f p"
  using assms by (metis core_eq_def)

lemma core_eq_fields:
  assumes "core_eq p' p"
  shows "pg_free_count p' = pg_free_count p" "pg_slot_count p' = pg_slot_count p" "pg_base p' = pg_base p"
    "pg_generation p' = pg_generation p" "pg_local_free_head p' = pg_local_free_head p"
    "pg_retired_ready_flag p' = pg_retired_ready_flag p" "pg_retired_ready_on_stack p' = pg_retired_ready_on_stack p"
    "pg_bump_index p' = pg_bump_index p" "pg_owner_thread_token p' = pg_owner_thread_token p"
  by (rule core_eq_field [OF assms]; simp)+

lemma core_eq_page_rel:
  assumes "core_eq p' p" shows "page_rel cfg (m, p') A \<longleftrightarrow> page_rel cfg (m, p) A"
  by (rule page_rel_header_cong; rule core_eq_field [OF assms]; simp)

section \<open>The lists of a class\<close>

definition class_rep :: "'a class_state_scheme \<Rightarrow> addr \<Rightarrow> addr list \<Rightarrow> addr list \<Rightarrow> bool" where
  "class_rep st l as rs \<longleftrightarrow>
     dll (pages st) (cl_active (class_lists st l)) as \<and> dll (pages st) (cl_retired (class_lists st l)) rs \<and>
     set as \<inter> set rs = {} \<and> cl_retired_sweep_cursor (class_lists st l) \<in> insert 0 (set rs) \<and>
     (\<forall>a\<in>set as. pg_owner_list_kind (pages st a) = HZ10_FREELIST_PAGE_OWNER_LIST_ACTIVE) \<and>
     (\<forall>r\<in>set rs. pg_owner_list_kind (pages st r) = HZ10_FREELIST_PAGE_OWNER_LIST_RETIRED)"

text \<open>It depends on the links and kinds of its own pages and on three fields of the list.\<close>

lemma class_rep_cong:
  assumes "\<And>a. a \<in> set as \<union> set rs \<Longrightarrow>
      pg_next_in_owner_list (pages st' a) = pg_next_in_owner_list (pages st a) \<and>
      pg_prev_in_owner_list (pages st' a) = pg_prev_in_owner_list (pages st a) \<and>
      pg_owner_list_kind (pages st' a) = pg_owner_list_kind (pages st a)"
    and "cl_active (class_lists st' l) = cl_active (class_lists st l)"
    "cl_retired (class_lists st' l) = cl_retired (class_lists st l)"
    "cl_retired_sweep_cursor (class_lists st' l) = cl_retired_sweep_cursor (class_lists st l)"
  shows "class_rep st' l as rs \<longleftrightarrow> class_rep st l as rs"
proof -
  have "dll (pages st') sub as \<longleftrightarrow> dll (pages st) sub as" for sub by (rule dll_cong) (use assms(1) in auto)
  moreover have "dll (pages st') sub rs \<longleftrightarrow> dll (pages st) sub rs" for sub by (rule dll_cong) (use assms(1) in auto)
  ultimately show ?thesis using assms by (auto simp: class_rep_def)
qed

lemma class_repD:
  assumes "class_rep st l as rs"
  shows "dll (pages st) (cl_active (class_lists st l)) as" "dll (pages st) (cl_retired (class_lists st l)) rs"
    "set as \<inter> set rs = {}" "a \<in> set as \<Longrightarrow> pg_owner_list_kind (pages st a) = 1"
    "r \<in> set rs \<Longrightarrow> pg_owner_list_kind (pages st r) = 2" "distinct as" "distinct rs" "0 \<notin> set as" "0 \<notin> set rs"
  using assms dll_distinct dll_not_null by (auto simp: class_rep_def)

text \<open>Writing a list back.\<close>

lemma upd_list_lists [simp]:
  "class_lists (upd_list l f st) l' = (if l' = l then f (class_lists st l) else class_lists st l')"
  "pages (upd_list l f st) = pages st" "mem (upd_list l f st) = mem st"
  "ready_stacks (upd_list l f st) = ready_stacks st"
  by (simp_all add: upd_list_def)

lemma set_page_simps [simp]:
  "pages (set_page pg p st) a = (if a = pg then p else pages st a)"
  "mem (set_page pg p st) = mem st"
  by (simp_all add: set_page_def)

lemma set_page_lists [simp]: "class_lists (set_page pg p st) = class_lists st"
  "ready_stacks (set_page pg p st) = ready_stacks st"
  by (simp_all add: set_page_def)

lemma prepend_active_rep:
  assumes rep: "class_rep st l as rs" and p: "page \<noteq> 0" "page \<notin> set as \<union> set rs" "length as < 4294967295"
  defines "st' \<equiv> hz10_class_pages_prepend_active l page st"
  shows "class_rep st' l (page # as) rs" "\<And>a. core_eq (pages st' a) (pages st a)" "mem st' = mem st"
    "\<And>a. a \<notin> insert page (set as) \<Longrightarrow> pages st' a = pages st a"
proof -
  let ?P = "upd_pg page (\<lambda>p. p\<lparr>pg_owner_list_kind := 1\<rparr>) (pages st)"
  obtain sub P where sp: "hz10_page_sublist_prepend page (cl_active (class_lists st l), ?P) = (sub, P)" by force
  have "dll ?P (cl_active (class_lists st l)) as \<longleftrightarrow> dll (pages st) (cl_active (class_lists st l)) as"
    by (rule dll_cong) (simp add: upd_pg_simps)
  then have d: "dll ?P (cl_active (class_lists st l)) as" using class_repD(1) [OF rep] by simp
  note C = prepend_correct [OF d p(1) _ p(3) sp]
  have st': "st' = upd_list l (\<lambda>c. c\<lparr>cl_active := sub\<rparr>) (st\<lparr>pages := P\<rparr>)"
    using sp by (simp add: st'_def hz10_class_pages_prepend_active_def on_active_def set_kind_def)
  have pg: "page \<notin> set as" "page \<notin> set rs" using p(2) by auto
  have same: "P a = pages st a" if "a \<notin> insert page (set as)" for a
    using C(2) [OF pg(1), of a] that by (auto simp: upd_pg_simps)
  have r: "P r = pages st r" if "r \<in> set rs" for r
    by (rule same) (use that class_repD(3) [OF rep] pg in auto)
  have "dll P (cl_retired (class_lists st l)) rs \<longleftrightarrow> dll (pages st) (cl_retired (class_lists st l)) rs"
    by (rule dll_cong) (simp add: r)
  moreover have "pg_owner_list_kind (P a) = 1" if "a \<in> set (page # as)" for a
    using same_but_links_kind [OF C(3) [OF pg(1), of a]] that class_repD(4) [OF rep] by (auto simp: upd_pg_simps)
  ultimately show "class_rep st' l (page # as) rs"
    using rep C(1) [OF pg(1)] pg r by (auto simp: class_rep_def st')
  show "core_eq (pages st' a) (pages st a)" for a
    using core_eq_links [OF C(3) [OF pg(1), of a]] by (auto simp: st' upd_pg_simps core_eq_def split: if_splits)
  show "mem st' = mem st" by (simp add: st')
  show "pages st' a = pages st a" if "a \<notin> insert page (set as)" for a using same that by (simp add: st')
qed

lemma prepend_retired_rep:
  assumes rep: "class_rep st l as rs" and p: "page \<noteq> 0" "page \<notin> set as \<union> set rs" "length rs < 4294967295"
  defines "st' \<equiv> hz10_class_pages_prepend_retired l page st"
  shows "class_rep st' l as (page # rs)" "\<And>a. core_eq (pages st' a) (pages st a)" "mem st' = mem st"
    "\<And>a. a \<notin> insert page (set rs) \<Longrightarrow> pages st' a = pages st a"
proof -
  let ?P = "upd_pg page (\<lambda>p. p\<lparr>pg_owner_list_kind := 2\<rparr>) (pages st)"
  obtain sub P where sp: "hz10_page_sublist_prepend page (cl_retired (class_lists st l), ?P) = (sub, P)" by force
  have "dll ?P (cl_retired (class_lists st l)) rs \<longleftrightarrow> dll (pages st) (cl_retired (class_lists st l)) rs"
    by (rule dll_cong) (simp add: upd_pg_simps)
  then have d: "dll ?P (cl_retired (class_lists st l)) rs" using class_repD(2) [OF rep] by simp
  note C = prepend_correct [OF d p(1) _ p(3) sp]
  have st': "st' = upd_list l (\<lambda>c. c\<lparr>cl_retired := sub\<rparr>) (st\<lparr>pages := P\<rparr>)"
    using sp by (simp add: st'_def hz10_class_pages_prepend_retired_def on_retired_def set_kind_def)
  have pg: "page \<notin> set as" "page \<notin> set rs" using p(2) by auto
  have same: "P a = pages st a" if "a \<notin> insert page (set rs)" for a
    using C(2) [OF pg(2), of a] that by (auto simp: upd_pg_simps)
  have r: "P r = pages st r" if "r \<in> set as" for r
    by (rule same) (use that class_repD(3) [OF rep] pg in auto)
  have "dll P (cl_active (class_lists st l)) as \<longleftrightarrow> dll (pages st) (cl_active (class_lists st l)) as"
    by (rule dll_cong) (simp add: r)
  moreover have "pg_owner_list_kind (P a) = 2" if "a \<in> set (page # rs)" for a
    using same_but_links_kind [OF C(3) [OF pg(2), of a]] that class_repD(5) [OF rep] by (auto simp: upd_pg_simps)
  ultimately show "class_rep st' l as (page # rs)"
    using rep C(1) [OF pg(2)] pg r by (auto simp: class_rep_def st')
  show "core_eq (pages st' a) (pages st a)" for a
    using core_eq_links [OF C(3) [OF pg(2), of a]] by (auto simp: st' upd_pg_simps core_eq_def split: if_splits)
  show "mem st' = mem st" by (simp add: st')
  show "pages st' a = pages st a" if "a \<notin> insert page (set rs)" for a using same that by (simp add: st')
qed


lemma pop_active_rep:
  assumes rep: "class_rep st l (as @ [x]) rs"
    and pop: "hz10_page_sublist_pop_tail (cl_active (class_lists st l), pages st) = (e, sub, P)"
  shows "e = x" "class_rep (upd_list l (\<lambda>c. c\<lparr>cl_active := sub, cl_eviction_count := n c\<rparr>) (st\<lparr>pages := P\<rparr>)) l as rs"
    "\<And>a. core_eq (P a) (pages st a)" "\<And>a. a \<notin> set (as @ [x]) \<Longrightarrow> P a = pages st a"
    "x \<notin> set as \<union> set rs" "x \<noteq> 0"
proof -
  have d: "dll (pages st) (cl_active (class_lists st l)) (as @ [x])" by (rule class_repD(1) [OF rep])
  have rm: "e = x" "hz10_page_sublist_remove x (cl_active (class_lists st l), pages st) = (sub, P)"
    using pop_tail_remove [OF d] pop by simp_all
  show "e = x" by (rule rm(1))
  note R = remove_correct [OF d rm(2)]
  show x: "x \<notin> set as \<union> set rs" "x \<noteq> 0"
    using class_repD(3,6,8) [OF rep] by auto
  have act: "pg_owner_list_kind (P a) = 1" if "a \<in> set as" for a
    using same_but_links_kind [OF R(3), of a] class_repD(4) [OF rep, of a] that x by auto
  have ret: "P r = pages st r" if "r \<in> set rs" for r
    using R(2) [of r] class_repD(3) [OF rep] that by auto
  have "dll P (cl_retired (class_lists st l)) rs \<longleftrightarrow> dll (pages st) (cl_retired (class_lists st l)) rs"
    by (rule dll_cong) (simp add: ret)
  then show "class_rep (upd_list l (\<lambda>c. c\<lparr>cl_active := sub, cl_eviction_count := n c\<rparr>) (st\<lparr>pages := P\<rparr>)) l as rs"
    using rep R(1) act ret by (auto simp: class_rep_def)
  show "core_eq (P a) (pages st a)" for a
    using R(3) [of a] R(4) core_eq_links by (cases "a = x") auto
  show "P a = pages st a" if "a \<notin> set (as @ [x])" for a using R(2) that by auto
qed

lemma retired_remove_rep:
  assumes rep: "class_rep st l as rs" and x: "x \<in> set rs"
  defines "st' \<equiv> hz10_class_pages_retired_remove l x st"
  shows "class_rep st' l as (removeAll x rs)" "\<And>a. core_eq (pages st' a) (pages st a)" "mem st' = mem st"
    "\<And>a. a \<notin> set rs \<Longrightarrow> pages st' a = pages st a"
proof -
  obtain us vs where rs: "rs = us @ x # vs" using x by (meson split_list)
  have rmAll: "removeAll x rs = us @ vs" using class_repD(7) [OF rep] rs by simp
  have d: "dll (pages st) (cl_retired (class_lists st l)) (us @ x # vs)" using class_repD(2) [OF rep] rs by simp
  obtain sub P where rm: "hz10_page_sublist_remove x (cl_retired (class_lists st l), pages st) = (sub, P)" by force
  note R = remove_correct [OF d rm]
  let ?cur = "if cl_retired_sweep_cursor (class_lists st l) = x then pg_prev_in_owner_list (pages st x)
      else cl_retired_sweep_cursor (class_lists st l)"
  have cl: "class_lists st' l = (class_lists st l)\<lparr>cl_retired_sweep_cursor := ?cur, cl_retired := sub\<rparr>"
    and pg: "pages st' = P" and m: "mem st' = mem st"
    using rm by (auto simp: st'_def hz10_class_pages_retired_remove_def on_retired_def Let_def)
  have cur: "?cur \<in> insert 0 (set (us @ vs))"
  proof -
    have "cl_retired_sweep_cursor (class_lists st l) \<in> insert 0 (set rs)" using rep by (simp add: class_rep_def)
    then show ?thesis using dll_links(2) [OF d] last_in_set [of us] rs by (cases "us = []") auto
  qed
  have nx: "x \<notin> set (us @ vs)" using class_repD(7) [OF rep] rs by simp
  have ret: "pg_owner_list_kind (P r) = 2" if "r \<in> set (us @ vs)" for r
    using same_but_links_kind [OF R(3), of r] class_repD(5) [OF rep, of r] that nx rs by auto
  have act: "P a = pages st a" if "a \<in> set as" for a
    using R(2) [of a] class_repD(3) [OF rep] that rs by auto
  have "dll P (cl_active (class_lists st l)) as \<longleftrightarrow> dll (pages st) (cl_active (class_lists st l)) as"
    by (rule dll_cong) (simp add: act)
  moreover have "set as \<inter> set (us @ vs) = {}" using class_repD(3) [OF rep] rs by auto
  moreover have "\<forall>a\<in>set as. pg_owner_list_kind (P a) = 1" using act class_repD(4) [OF rep] by simp
  moreover have "\<forall>r\<in>set (us @ vs). pg_owner_list_kind (P r) = 2" using ret by blast
  ultimately show "class_rep st' l as (removeAll x rs)"
    using R(1) cur class_repD(1) [OF rep] by (simp add: class_rep_def cl pg rmAll del: set_append)
  show "core_eq (pages st' a) (pages st a)" for a
    using R(3) [of a] R(4) core_eq_links by (cases "a = x") (auto simp: pg)
  show "mem st' = mem st" by (rule m)
  show "pages st' a = pages st a" if "a \<notin> set rs" for a using R(2) that rs by (auto simp: pg)
qed

section \<open>Draining and destroying a page\<close>

lemma drain_page_refines:
  assumes "page_rel cfg (mem st, pages st pg) A"
  obtains m p where "drain_page pg st = Some (of_nat (length (remote_slots A)), set_page pg p (st\<lparr>mem := m\<rparr>))"
    "page_rel cfg (m, p) (abs_drain A)" "drain_frame p (pages st pg)"
  using drain_refines [OF assms] by (auto simp: drain_page_def)

text \<open>A page with nothing on its stripes: the drain changes nothing.\<close>

lemma drain_page_nothing:
  assumes "page_rel cfg (mem st, pages st pg) A" "remote_slots A = []"
  shows "drain_page pg st = Some (0, st)"
proof -
  have "hz10_freelist_page_remote_head (pages st pg) s = 0" if "s < 4" for s
    using page_relD(5) [OF assms(1) that] stripe_subset [OF that, of A] assms(2) by simp
  then have "hz10_page_drain_remote (mem st, pages st pg) = Some (0, mem st, pages st pg)"
    by (simp add: hz10_page_drain_remote_def drain_stripe_def)
  then show ?thesis by (simp add: drain_page_def set_page_def)
qed

lemma drain_list_fields:
  "drain_frame p' p \<Longrightarrow> pg_next_in_owner_list p' = pg_next_in_owner_list p \<and>
     pg_prev_in_owner_list p' = pg_prev_in_owner_list p \<and> pg_owner_list_kind p' = pg_owner_list_kind p"
  by (simp add: drain_frame_def)

text \<open>Destroying a page writes no header and no list.\<close>

lemma pool_release_form:
  obtains m cl tr ph pc pr where "snd (hz10_page_pool_release b st) =
    st\<lparr>mem := m, os_clock := cl, os_trace := tr, hz10_pool_head := ph, hz10_pool_count := pc, hz10_pool_release_count := pr\<rparr>"
proof (cases "b = 0")
  case True
  then have "snd (hz10_page_pool_release b st) = st\<lparr>mem := mem st, os_clock := os_clock st, os_trace := os_trace st,
      hz10_pool_head := hz10_pool_head st, hz10_pool_count := hz10_pool_count st, hz10_pool_release_count := hz10_pool_release_count st\<rparr>"
    by (simp add: hz10_page_pool_release_def)
  then show ?thesis by (rule that)
next
  case False
  show ?thesis
  proof (cases "hz10_pool_count st < hz10_pool_cap st")
    case True
    let ?m = "(mem st)(b := hz10_pool_head st)"
    obtain t cl where t: "hz10_platform_now_ns (st\<lparr>mem := ?m\<rparr>) = (t, st\<lparr>mem := ?m\<rparr>\<lparr>os_clock := cl\<rparr>)"
      by (rule now_ns_form)
    have "snd (hz10_page_pool_release b st) = st\<lparr>mem := ?m(b + 8 := t), os_clock := cl, os_trace := os_trace st,
      hz10_pool_head := b, hz10_pool_count := hz10_pool_count st + 1, hz10_pool_release_count := hz10_pool_release_count st\<rparr>"
      using False True t by (simp add: hz10_page_pool_release_def Let_def)
    then show ?thesis by (rule that)
  next
    case nlt: False
    have "snd (hz10_page_pool_release b st) = st\<lparr>mem := mem st, os_clock := os_clock st,
      os_trace := Unmapped b 65536 # os_trace st, hz10_pool_head := hz10_pool_head st,
      hz10_pool_count := hz10_pool_count st, hz10_pool_release_count := hz10_pool_release_count st + 1\<rparr>"
      using False nlt by (simp add: hz10_page_pool_release_def hz10_platform_release_def)
    then show ?thesis by (rule that)
  qed
qed

lemma pooled_destroy_frame [simp]:
  "pages (hz10_pooled_page_destroy pg st) = pages st"
  "class_lists (hz10_pooled_page_destroy pg st') = class_lists st'"
  "ready_stacks (hz10_pooled_page_destroy pg st'') = ready_stacks st''"
proof -
  have reclaim: "\<exists>rt mn fl. snd (hz10_freelist_page_destroy_reclaim_base pg st) =
      st\<lparr>hz10_pagemap_root := rt, meta_next := mn, hz10_metadata_free_list := fl\<rparr>" for st :: "'x page_heap_state_scheme"
  proof (cases "pg = 0")
    case True
    then have "snd (hz10_freelist_page_destroy_reclaim_base pg st) = st\<lparr>hz10_pagemap_root := hz10_pagemap_root st,
       meta_next := meta_next st, hz10_metadata_free_list := hz10_metadata_free_list st\<rparr>"
      by (simp add: hz10_freelist_page_destroy_reclaim_base_def)
    then show ?thesis by blast
  next
    case False
    obtain rt where rt: "snd (hz10_pagemap_release (pg_base (pages st pg)) st) = st\<lparr>hz10_pagemap_root := rt\<rparr>"
      by (rule pagemap_release_form)
    have "snd (hz10_freelist_page_destroy_reclaim_base pg st) = st\<lparr>hz10_pagemap_root := rt,
        meta_next := (meta_next st)(pg := hz10_metadata_free_list st), hz10_metadata_free_list := pg\<rparr>"
      using False rt by (simp add: hz10_freelist_page_destroy_reclaim_base_def Let_def hz10_metadata_page_free_def)
    then show ?thesis by blast
  qed
  have destroy: "\<exists>rt mn fl m cl tr ph pc pr. hz10_pooled_page_destroy pg st =
      st\<lparr>hz10_pagemap_root := rt, meta_next := mn, hz10_metadata_free_list := fl, mem := m, os_clock := cl,
        os_trace := tr, hz10_pool_head := ph, hz10_pool_count := pc, hz10_pool_release_count := pr\<rparr>"
    for st :: "'x pool_state_scheme"
  proof -
    obtain b st1 where d: "hz10_freelist_page_destroy_reclaim_base pg st = (b, st1)" by force
    obtain rt mn fl where st1: "st1 = st\<lparr>hz10_pagemap_root := rt, meta_next := mn, hz10_metadata_free_list := fl\<rparr>"
      using reclaim [of st] d by auto
    obtain m cl tr ph pc pr where r: "snd (hz10_page_pool_release b st1) = st1\<lparr>mem := m, os_clock := cl, os_trace := tr,
        hz10_pool_head := ph, hz10_pool_count := pc, hz10_pool_release_count := pr\<rparr>"
      by (rule pool_release_form)
    have "snd (hz10_page_pool_release 0 st1) = st1" by (simp add: hz10_page_pool_release_def)
    then have "hz10_pooled_page_destroy pg st = snd (hz10_page_pool_release b st1)"
      by (simp add: hz10_pooled_page_destroy_def d)
    also have "\<dots> = st\<lparr>hz10_pagemap_root := rt, meta_next := mn, hz10_metadata_free_list := fl, mem := m, os_clock := cl,
        os_trace := tr, hz10_pool_head := ph, hz10_pool_count := pc, hz10_pool_release_count := pr\<rparr>"
      using r by (simp add: st1)
    finally show ?thesis by blast
  qed
  show "pages (hz10_pooled_page_destroy pg st) = pages st" using destroy [of st] by auto
  show "class_lists (hz10_pooled_page_destroy pg st') = class_lists st'" using destroy [of st'] by auto
  show "ready_stacks (hz10_pooled_page_destroy pg st'') = ready_stacks st''" using destroy [of st''] by auto
qed


lemma abs_drain_simps [simp]:
  "remote_slots (abs_drain A) = []" "held_slots (abs_drain A) = held_slots A"
  "ap_claimed (abs_drain A) = ap_claimed A" "ap_frontier (abs_drain A) = ap_frontier A"
  "ap_free (abs_drain A) = rev (remote_slots A) @ ap_free A"
  by (auto simp: abs_drain_def remote_slots_def held_slots_def)

text \<open>The slots a page misses are the ones held or claimed.\<close>

lemma outstanding_count:
  assumes rel: "page_rel cfg (m, p) A" and "remote_slots A = []"
  shows "unat (pg_slot_count p - pg_free_count p) = card (held_slots A \<union> ap_claimed A)"
proof -
  note D = page_relD [OF rel]
  have part: "{..<ap_frontier A} = set (ap_free A) \<union> (held_slots A \<union> ap_claimed A)"
    using D(12) assms(2) by (auto simp: held_slots_def)
  moreover have "set (ap_free A) \<inter> (held_slots A \<union> ap_claimed A) = {}"
    using D(13) by (auto simp: held_slots_def)
  moreover have "finite (held_slots A \<union> ap_claimed A)"
    using part by (metis finite_Un finite_lessThan)
  ultimately have "card {..<ap_frontier A} = card (set (ap_free A)) + card (held_slots A \<union> ap_claimed A)"
    using card_Un_disjoint [of "set (ap_free A)" "held_slots A \<union> ap_claimed A"] by simp
  then have "ap_frontier A = length (ap_free A) + card (held_slots A \<union> ap_claimed A)"
    using D(9) by (simp add: distinct_card)
  moreover have "pg_free_count p \<le> pg_slot_count p" using D(8) calculation by (simp add: word_le_nat_alt)
  ultimately show ?thesis using D(8) by (simp add: unat_sub)
qed

section \<open>Adding a page\<close>

lemma class_rep_counters:
  "class_rep (upd_list l f st) l as rs \<longleftrightarrow> class_rep st l as rs"
  if "\<And>c. cl_active (f c) = cl_active c \<and> cl_retired (f c) = cl_retired c \<and>
    cl_retired_sweep_cursor (f c) = cl_retired_sweep_cursor c"
  by (rule class_rep_cong) (simp_all add: that)

lemma add_correct:
  assumes rep: "class_rep st l as rs" and p: "page \<noteq> 0" "page \<notin> set as \<union> set rs"
    and len: "length as \<le> 128" "length rs < 4294967295"
    and full: "length as = 128 \<Longrightarrow> page_rel cfg (mem st, pages st (last as)) A"
  shows "\<exists>st'. hz10_class_pages_prepend_active_with_eviction l page st = Some st' \<and>
    (if length as < 128 then class_rep st' l (page # as) rs
     else if held_slots A = {} \<and> ap_claimed A = {} then class_rep st' l (page # butlast as) rs
     else class_rep st' l (page # butlast as) (last as # rs) \<and>
       pg_retired_ready_flag (pages st' (last as)) = 1 \<and>
       pg_retired_ready_stack (pages st' (last as)) = ready_addr l \<and>
       unat (pg_retired_ready_outstanding (pages st' (last as))) = card (held_slots A \<union> ap_claimed A))"
proof -
  define st1 where "st1 = hz10_class_pages_prepend_active l page st"
  note P = prepend_active_rep [OF rep p, folded st1_def]
  have P1: "class_rep st1 l (page # as) rs" using P(1) len by simp
  have sl: "unat (sl_length (cl_active (class_lists st1 l))) = Suc (length as)"
    using class_repD(1) [OF P1] by (simp add: dll_def)
  show ?thesis
  proof (cases "length as < 128")
    case True
    then have "sl_length (cl_active (class_lists st1 l)) \<le> 128" using sl by (simp add: word_le_nat_alt)
    then show ?thesis using True P1
      by (simp add: hz10_class_pages_prepend_active_with_eviction_def Let_def st1_def [symmetric])
  next
    case False
    then have l128: "length as = 128" using len by simp
    then have gt: "\<not> sl_length (cl_active (class_lists st1 l)) \<le> 128" using sl by (simp add: word_le_nat_alt)
    have asx: "page # as = (page # butlast as) @ [last as]" using l128 by (cases as) auto
    obtain e sub Q where pop: "hz10_page_sublist_pop_tail (cl_active (class_lists st1 l), pages st1) = (e, sub, Q)"
      by (metis prod_cases3)
    define st2 where "st2 = upd_list l (\<lambda>c. c\<lparr>cl_active := sub, cl_eviction_count := cl_eviction_count c + 1\<rparr>) (st1\<lparr>pages := Q\<rparr>)"
    note E = pop_active_rep [OF P1 [unfolded asx] pop]
    have e: "e = last as" "e \<noteq> 0" "e \<notin> set (page # butlast as) \<union> set rs" using E by auto
    have R2: "class_rep st2 l (page # butlast as) rs" using E(2) by (simp add: st2_def)
    have "core_eq (pages st2 e) (pages st e)"
      using E(3) [of e] P(2) [OF len(1) [THEN le_less_trans], of e] core_eq_trans by (simp add: st2_def)
    moreover have "mem st2 = mem st" using P(3) len by (simp add: st2_def)
    ultimately have rel: "page_rel cfg (mem st2, pages st2 e) A"
      using full [OF l128] e(1) core_eq_page_rel by simp
    obtain m q where dr: "drain_page e st2 = Some (of_nat (length (remote_slots A)), set_page e q (st2\<lparr>mem := m\<rparr>))"
      and qr: "page_rel cfg (m, q) (abs_drain A)" "drain_frame q (pages st2 e)"
      by (rule drain_page_refines [OF rel])
    define st3 where "st3 = set_page e q (st2\<lparr>mem := m\<rparr>)"
    have R3: "class_rep st3 l (page # butlast as) rs"
      using R2 by (rule class_rep_cong [THEN iffD2, rotated -1]) (use e(3) in \<open>auto simp: st3_def\<close>)
    have idle: "page_idle e st3 \<longleftrightarrow> held_slots A = {} \<and> ap_claimed A = {}"
      using idle_iff [OF qr(1)] by (simp add: st3_def)
    have eq: "hz10_class_pages_prepend_active_with_eviction l page st =
      (if page_idle e st3 then Some (hz10_pooled_page_destroy e
         (upd_list l (\<lambda>c. c\<lparr>cl_eviction_reclaimed_count := cl_eviction_reclaimed_count c + 1\<rparr>) st3))
       else let st4 = hz10_class_pages_prepend_retired l e st3;
               st5 = upd_list l (\<lambda>c. let c1 = c\<lparr>cl_retired_count := cl_retired_count c + 1\<rparr> in
                       if sl_length (cl_retired c1) > cl_max_retired_length c1
                       then c1\<lparr>cl_max_retired_length := sl_length (cl_retired c1)\<rparr> else c1) st4;
               p = pages st5 e
           in Some (hz10_retired_ready_mark e (ready_addr l) (pg_slot_count p - pg_free_count p) st5))"
      using gt pop dr
      by (simp add: hz10_class_pages_prepend_active_with_eviction_def Let_def st1_def [symmetric] st2_def [symmetric]
          st3_def [symmetric])
    show ?thesis
    proof (cases "held_slots A = {} \<and> ap_claimed A = {}")
      case True
      let ?st = "hz10_pooled_page_destroy e
         (upd_list l (\<lambda>c. c\<lparr>cl_eviction_reclaimed_count := cl_eviction_reclaimed_count c + 1\<rparr>) st3)"
      have "class_rep ?st l (page # butlast as) rs"
        using R3 by (rule class_rep_cong [THEN iffD2, rotated -1]) simp_all
      then show ?thesis using eq idle True False by auto
    next
      case busy: False
      define st4 where "st4 = hz10_class_pages_prepend_retired l e st3"
      note P4 = prepend_retired_rep [OF R3 e(2,3) len(2), folded st4_def]
      define st5 where "st5 = upd_list l (\<lambda>c. let c1 = c\<lparr>cl_retired_count := cl_retired_count c + 1\<rparr> in
                       if sl_length (cl_retired c1) > cl_max_retired_length c1
                       then c1\<lparr>cl_max_retired_length := sl_length (cl_retired c1)\<rparr> else c1) st4"
      have R5: "class_rep st5 l (page # butlast as) (e # rs)"
        unfolding st5_def using P4(1) by (subst class_rep_counters) (simp_all add: Let_def)
      let ?p = "pages st5 e"
      let ?st = "hz10_retired_ready_mark e (ready_addr l) (pg_slot_count ?p - pg_free_count ?p) st5"
      have R6: "class_rep ?st l (page # butlast as) (e # rs)"
        using R5 by (rule class_rep_cong [THEN iffD2, rotated -1]) (auto simp: hz10_retired_ready_mark_def Let_def)
      have "core_eq ?p q" using P4(2) [of e] by (simp add: st5_def st3_def)
      then have "unat (pg_slot_count ?p - pg_free_count ?p) = card (held_slots A \<union> ap_claimed A)"
        using outstanding_count [OF qr(1)] core_eq_fields(1,2) by simp
      then have out: "unat (pg_retired_ready_outstanding (pages ?st e)) = card (held_slots A \<union> ap_claimed A)"
        "pg_retired_ready_flag (pages ?st e) = 1" "pg_retired_ready_stack (pages ?st e) = ready_addr l"
        by (simp_all add: hz10_retired_ready_mark_def Let_def)
      have "\<not> page_idle e st3" using idle busy by blast
      then have "hz10_class_pages_prepend_active_with_eviction l page st = Some ?st"
        unfolding eq by (simp only: if_False Let_def st4_def st5_def)
      then show ?thesis using busy False R6 out e(1) by auto
    qed
  qed
qed


section \<open>The scan for capacity\<close>

definition usable :: "hz10_config \<Rightarrow> Hz10FreelistPage \<Rightarrow> abs_page \<Rightarrow> bool" where
  "usable cfg p A \<longleftrightarrow> ap_free A \<noteq> [] \<or> ap_frontier A < unat (pg_slot_count p) \<or> remote_slots A \<noteq> []"

lemma merged_pos: "page_rel cfg (m, p) A \<Longrightarrow> (of_nat (length (remote_slots A)) :: u32) > 0 \<longleftrightarrow> remote_slots A \<noteq> []"
proof -
  assume rel: "page_rel cfg (m, p) A"
  have "length (remote_slots A) \<le> unat (pg_slot_count p)"
    using page_relD(3,10,12) [OF rel] by (meson distinct_bounded_length le_trans order_less_le_trans)
  then have lt: "length (remote_slots A) < 4294967296" using unat_u32_lt [of "pg_slot_count p"] by linarith
  have "unat (of_nat (length (remote_slots A)) :: u32) = length (remote_slots A)"
    using lt by (simp add: unat_of_nat take_bit_nat_eq_self_iff)
  then have "(of_nat (length (remote_slots A)) :: u32) = 0 \<longleftrightarrow> remote_slots A = []"
    by (simp add: word_unat_eq_iff)
  then show ?thesis by (simp add: word_gt_0)
qed

text \<open>What the scan found: the page has capacity now, and the list is the old one, with the page
  moved to its front when \<open>HZ10_ENABLE_ACTIVE_MTF\<close> is on.\<close>

definition found_ok :: "hz10_config \<Rightarrow> addr \<Rightarrow> addr list \<Rightarrow> addr \<Rightarrow> 'a class_state_scheme \<Rightarrow> bool" where
  "found_ok cfg l xs x st \<longleftrightarrow> hz10_freelist_page_has_capacity cfg (pages st x) \<and>
     dll (pages st) (cl_active (class_lists st l)) (if cfg_active_mtf cfg then x # removeAll x xs else xs)"

lemma on_active_move:
  assumes "dll (pages st) (cl_active (class_lists st l)) xs" "x \<in> set xs"
    "hz10_freelist_page_has_capacity cfg (pages st x)"
  shows "found_ok cfg l xs x (if cfg_active_mtf cfg then on_active l (hz10_page_sublist_move_to_head x) st else st)"
proof (cases "cfg_active_mtf cfg")
  case True
  obtain sub P where mv: "hz10_page_sublist_move_to_head x (cl_active (class_lists st l), pages st) = (sub, P)" by force
  have "pg_local_free_head (P x) = pg_local_free_head (pages st x) \<and> pg_bump_index (P x) = pg_bump_index (pages st x)
      \<and> pg_slot_count (P x) = pg_slot_count (pages st x)"
  proof (cases "sl_head (cl_active (class_lists st l)) = x")
    case True
    then show ?thesis using mv by (simp add: hz10_page_sublist_move_to_head_def)
  next
    case False
    obtain us vs where xs: "xs = us @ x # vs" using assms(2) by (meson split_list)
    obtain s1 P1 where r: "hz10_page_sublist_remove x (cl_active (class_lists st l), pages st) = (s1, P1)" by force
    note R = remove_correct [OF assms(1) [unfolded xs] r]
    obtain s2 P2 where p: "hz10_page_sublist_prepend x (s1, P1) = (s2, P2)" by force
    have "x \<notin> set (us @ vs)" "x \<noteq> 0" "length (us @ vs) < 4294967295"
      using dll_distinct [OF assms(1)] dll_not_null [OF assms(1)] xs owner_list.rep_length [of "(cl_active (class_lists st l), pages st)" xs] assms(1)
      by auto
    then have "same_but_links (P2 x) (P1 x)" using prepend_correct(3) [OF R(1) _ _ _ p] by blast
    then have "core_eq (P2 x) (pages st x)" using core_eq_links core_eq_trans R(4) core_eq_simps by metis
    moreover have "P = upd_pg x (\<lambda>q. q\<lparr>pg_owner_list_kind := 1\<rparr>) P2"
      using mv False r p by (simp add: hz10_page_sublist_move_to_head_def)
    ultimately have "core_eq (P x) (pages st x)" by (simp add: upd_pg_simps)
    then show ?thesis using core_eq_fields by blast
  qed
  then show ?thesis using True mv assms(3) move_to_head_correct [OF assms(1,2) mv]
    by (simp add: found_ok_def on_active_def hz10_freelist_page_has_capacity_def)
next
  case False
  then show ?thesis using assms by (simp add: found_ok_def)
qed

lemma find_scan_correct:
  assumes "dll (pages st) (cl_active (class_lists st l)) xs"
    and "chain (\<lambda>a. pg_next_in_owner_list (pages st a)) h ys" "set ys \<subseteq> set xs"
    and "\<And>x. x \<in> set ys \<Longrightarrow> page_rel cfg (mem st, pages st x) (A x)"
  shows "\<exists>r st'. find_scan cfg k l h st = Some (r, st') \<and>
    (case find (\<lambda>x. usable cfg (pages st x) (A x)) (take k ys) of
       None \<Rightarrow> r = 0 \<and> st' = st | Some x \<Rightarrow> r = x \<and> found_ok cfg l xs x st')"
  using assms(2-4)
proof (induction k arbitrary: h ys)
  case 0
  then show ?case by simp
next
  case (Suc k)
  show ?case
  proof (cases ys)
    case Nil
    then show ?thesis using Suc.prems(1) by simp
  next
    case (Cons x zs)
    then have h: "h = x" "x \<noteq> 0" "chain (\<lambda>a. pg_next_in_owner_list (pages st a)) (pg_next_in_owner_list (pages st x)) zs"
      and xin: "x \<in> set xs" and zs: "set zs \<subseteq> set xs" using Suc.prems by auto
    have rel: "page_rel cfg (mem st, pages st x) (A x)" using Suc.prems(3) Cons by simp
    show ?thesis
    proof (cases "hz10_freelist_page_has_capacity cfg (pages st x)")
      case True
      then have "usable cfg (pages st x) (A x)" using has_capacity_iff [OF rel] by (auto simp: usable_def)
      then show ?thesis using True h Cons on_active_move [OF assms(1) xin True] by simp
    next
      case nocap: False
      show ?thesis
      proof (cases "remote_slots (A x) = []")
        case True
        then have "\<not> usable cfg (pages st x) (A x)" using nocap has_capacity_iff [OF rel] by (simp add: usable_def)
        moreover have "find_scan cfg (Suc k) l h st = find_scan cfg k l (pg_next_in_owner_list (pages st x)) st"
          using nocap h drain_page_nothing [OF rel True] by simp
        ultimately show ?thesis using Suc.IH [OF h(3) zs] Suc.prems(3) Cons by simp
      next
        case False
        then have us: "usable cfg (pages st x) (A x)" by (simp add: usable_def)
        obtain m p where d: "drain_page x st = Some (of_nat (length (remote_slots (A x))), set_page x p (st\<lparr>mem := m\<rparr>))"
          and p: "page_rel cfg (m, p) (abs_drain (A x))" "drain_frame p (pages st x)"
          by (rule drain_page_refines [OF rel])
        let ?st = "set_page x p (st\<lparr>mem := m\<rparr>)"
        have pos: "(of_nat (length (remote_slots (A x))) :: u32) > 0" using merged_pos [OF rel] False by blast
        have "dll (pages ?st) (cl_active (class_lists ?st l)) xs \<longleftrightarrow> dll (pages st) (cl_active (class_lists ?st l)) xs"
          by (rule dll_cong) (use drain_list_fields [OF p(2)] in simp)
        then have dl: "dll (pages ?st) (cl_active (class_lists ?st l)) xs" using assms(1) by simp
        have "hz10_freelist_page_has_capacity cfg (pages ?st x)" using has_capacity_iff [OF p(1)] False by simp
        from on_active_move [OF dl xin this] show ?thesis using us nocap h d pos Cons by simp
      qed
    qed
  qed
qed

section \<open>The sweep over pages that nobody will hand back\<close>

text \<open>A retired page whose mark is gone and that is on no ready stack.\<close>

definition stranded :: "hz10_config \<Rightarrow> 'a class_state_scheme \<Rightarrow> addr \<Rightarrow> bool" where
  "stranded cfg st r \<longleftrightarrow> pg_retired_ready_flag (pages st r) = 0 \<and> pg_retired_ready_on_stack (pages st r) = 0 \<and>
     (\<exists>A. page_rel cfg (mem st, pages st r) A \<and> remote_slots A = [])"

lemma stranded_upd_list [simp]: "stranded cfg (upd_list l f st) r \<longleftrightarrow> stranded cfg st r"
  by (simp add: stranded_def)

lemma class_rep_cursor:
  assumes "class_rep st l as rs" "a \<in> insert 0 (set rs)"
  shows "class_rep (set_cursor l a st) l as rs" "pages (set_cursor l a st) = pages st" "mem (set_cursor l a st) = mem st"
  using assms by (simp_all add: class_rep_def set_cursor_def)

lemma dll_prev_in: "dll P sub xs \<Longrightarrow> x \<in> set xs \<Longrightarrow> pg_prev_in_owner_list (P x) \<in> insert 0 (set xs)"
  using dll_links(2) by (fastforce dest: split_list)

lemma dll_tail_in: "dll P sub xs \<Longrightarrow> sl_tail sub \<in> insert 0 (set xs)"
  by (simp add: dll_tail)

lemma sweep_stranded:
  assumes "class_rep st l as rs" "\<And>r. r \<in> set rs \<Longrightarrow> stranded cfg st r" "node \<in> insert 0 (set rs)"
  shows "\<exists>st'. harvest_sweep cfg k l node st = Some (0, st') \<and> class_rep st' l as rs \<and>
    pages st' = pages st \<and> mem st' = mem st"
  using assms
proof (induction k arbitrary: node st)
  case 0
  then show ?case using class_rep_cursor [OF 0(1,3)] by simp
next
  case (Suc k)
  show ?case
  proof (cases "node = 0")
    case True
    then show ?thesis using class_rep_cursor [OF Suc.prems(1,3)] by simp
  next
    case False
    then have node: "node \<in> set rs" using Suc.prems(3) by simp
    then obtain A where A: "page_rel cfg (mem st, pages st node) A" "remote_slots A = []"
      and fl: "pg_retired_ready_flag (pages st node) = 0" "pg_retired_ready_on_stack (pages st node) = 0"
      using Suc.prems(2) by (auto simp: stranded_def)
    let ?prev = "pg_prev_in_owner_list (pages st node)"
    have "?prev \<in> insert 0 (set rs)"
      using dll_prev_in [OF class_repD(2) [OF Suc.prems(1)] node] by simp
    define lost where "lost = upd_list l (\<lambda>c. c\<lparr>cl_sweep_cancel_lost_race_count := cl_sweep_cancel_lost_race_count c + 1\<rparr>) st"
    have L: "class_rep lost l as rs" "\<And>r. r \<in> set rs \<Longrightarrow> stranded cfg lost r" "pages lost = pages st" "mem lost = mem st"
      using Suc.prems(1,2) by (simp_all add: lost_def class_rep_counters)
    have "harvest_sweep cfg (Suc k) l node st = harvest_sweep cfg k l ?prev lost \<or>
        harvest_sweep cfg (Suc k) l node st = harvest_sweep cfg k l ?prev st"
      using False fl drain_page_nothing [OF A]
      by (simp add: hz10_retired_ready_cancel_def Let_def lost_def)
    then show ?thesis
      using Suc.IH [OF L(1,2) \<open>?prev \<in> _\<close>] Suc.IH [OF Suc.prems(1,2) \<open>?prev \<in> _\<close>] L(3,4) by metis
  qed
qed

section \<open>A concrete class\<close>

text \<open>One active page of four slots at \<open>0x1000\<close> in the list at \<open>0x7000\<close>; \<open>0x2000\<close> is its copy.\<close>

definition example_class :: class_state where
  "example_class = \<lparr>mem = fst example_view, os_maps = [], os_clock = [], os_trace = [],
     hz10_pagemap_root = (\<lambda>_. None),
     pages = (\<lambda>a. if a = 0x1000 then (snd example_view)\<lparr>pg_owner_list_kind := 1\<rparr> else snd example_view),
     meta_next = (\<lambda>_. 0), hz10_metadata_free_list = 0, hz10_metadata_slab_count = 0,
     hz10_metadata_node_capacity = 0, hz10_quantum_region_cursor = 0, hz10_quantum_region_end = 0,
     hz10_pool_head = 0, hz10_pool_count = 0, hz10_pool_cap = 64, hz10_pool_reuse_count = 0,
     hz10_pool_release_count = 0, hz10_pool_purged_count = 0,
     ready_stacks = (\<lambda>_. \<lparr>rs_head = 0, rs_push_count = 0\<rparr>),
     class_lists = (\<lambda>_. empty_class_list\<lparr>cl_active := \<lparr>sl_head = 0x1000, sl_tail = 0x1000, sl_length = 1\<rparr>\<rparr>)\<rparr>"

lemma example_view_lists:
  "pg_next_in_owner_list (snd example_view) = 0" "pg_prev_in_owner_list (snd example_view) = 0"
  "pg_owner_list_kind (snd example_view) = 0" "pg_retired_ready_flag (snd example_view) = 0"
  "pg_retired_ready_on_stack (snd example_view) = 0" "pg_slot_count (snd example_view) = 4"
  by (simp_all add: example_view_def hz10_freelist_page_init_chain_def example_header_def zero_page_def default_config_def)

lemma example_class_rep: "class_rep example_class 0x7000 [0x1000] []"
  by (simp add: class_rep_def example_class_def dll_def example_view_lists empty_class_list_def empty_sublist_def)

lemma example_class_page:
  "page_rel default_config (mem example_class, pages example_class a) (fresh_abs default_config 4)"
proof -
  have "page_rel default_config (fst example_view, (snd example_view)\<lparr>pg_owner_list_kind := k\<rparr>) A
      \<longleftrightarrow> page_rel default_config (fst example_view, snd example_view) A" for k A
    by (rule core_eq_page_rel) simp
  then show ?thesis using example_view_rel by (simp add: example_class_def)
qed

section \<open>Properties\<close>



text \<open>The scan of a class returns the first of the first 128 active pages that has a slot to
  give, counting slots that other threads have handed back; it drains that page, so the allocation
  that follows succeeds, and returns NULL, changing nothing, when there is no such page. The list
  stays well formed and, with \<open>HZ10_ENABLE_ACTIVE_MTF\<close>, the page moves to its front.\<close>

theorem class_pages_find:
  assumes "dll (pages st) (cl_active (class_lists st l)) xs"
    and "\<And>x. x \<in> set xs \<Longrightarrow> page_rel cfg (mem st, pages st x) (A x)"
  shows "\<exists>r st'. hz10_class_pages_find_with_capacity cfg l st = Some (r, st') \<and>
    (case find (\<lambda>x. usable cfg (pages st x) (A x)) (take 128 xs) of
       None \<Rightarrow> r = 0 \<and> st' = st
     | Some x \<Rightarrow> r = x \<and> hz10_freelist_page_has_capacity cfg (pages st' x) \<and>
         dll (pages st') (cl_active (class_lists st' l)) (if cfg_active_mtf cfg then x # removeAll x xs else xs))"
proof -
  let ?h = "sl_head (cl_active (class_lists st l))"
  have "chain (\<lambda>a. pg_next_in_owner_list (pages st a)) ?h xs" using assms(1) by (simp add: dll_def)
  from find_scan_correct [where k = 128, OF assms(1) this order_refl assms(2)]
  show ?thesis unfolding found_ok_def hz10_class_pages_find_with_capacity_def by simp
qed

theorem class_pages_find_witness:
  "\<exists>st'. hz10_class_pages_find_with_capacity default_config 0x7000 example_class = Some (0x1000, st') \<and>
     hz10_freelist_page_has_capacity default_config (pages st' 0x1000)"
proof -
  have "usable default_config (pages example_class 0x1000) (fresh_abs default_config 4)"
    by (simp add: usable_def fresh_abs_def default_config_def example_class_def example_view_lists)
  then show ?thesis
    using class_pages_find [OF class_repD(1) [OF example_class_rep], of default_config "\<lambda>_. fresh_abs default_config 4"]
      example_class_page by auto
qed



end
