(* ===== verification/Hz10_Owner_Correct.thy ===== *)
theory Hz10_Owner_Correct
  imports Hz10_Owner Hz10_Class_Pages_Correct
begin

text \<open>
  The orphan registry as a first-in first-out queue per class, whose nodes are the page headers
  themselves: publishing appends a whole active list in order, popping takes the page that has
  waited longest, a rejected page goes to the end.
\<close>

section \<open>Stamping and joining\<close>

lemma chain_join:
  assumes "chain nx h xs" "xs \<noteq> []" "chain nx k ys" "set xs \<inter> set ys = {}"
  shows "chain (nx(last xs := k)) h (xs @ ys)"
  using assms
proof (induction xs arbitrary: h)
  case (Cons x xs)
  show ?case
  proof (cases xs)
    case Nil
    then have "x \<notin> set ys" "h = x" "x \<noteq> 0" using Cons.prems by auto
    moreover from this have "chain (nx(x := k)) k ys" using Cons.prems(3) by (intro iffD2 [OF chain_upd])
    ultimately show ?thesis using Nil by (simp add: fun_upd_def del: chain_upd)
  next
    case (Cons y zs)
    have "x \<notin> set xs" using Cons.prems(1) chain_hd_notin_tl by blast
    then have "last xs \<noteq> x" using Cons by (metis last_in_set list.discI)
    then show ?thesis using Cons.IH [of "nx x"] Cons.prems Cons by auto
  qed
qed simp

lemma note_published_walk:
  assumes "chain (\<lambda>a. pg_next_in_owner_list (P a)) h xs"
  shows "hz10_orphan_note_published_at h now P =
    Some (\<lambda>a. if a \<in> set xs then (P a)\<lparr>pg_orphaned_at_ns := now\<rparr> else P a)"
  using assms
proof (induction xs arbitrary: h P)
  case Nil
  then show ?case by (simp add: hz10_orphan_note_published_at.simps)
next
  case (Cons x xs)
  then have h: "h = x" "x \<noteq> 0" and c: "chain (\<lambda>a. pg_next_in_owner_list (P a)) (pg_next_in_owner_list (P x)) xs"
    and nx: "x \<notin> set xs" using chain_hd_notin_tl by auto
  let ?P = "upd_pg x (\<lambda>p. p\<lparr>pg_orphaned_at_ns := now\<rparr>) P"
  have links: "pg_next_in_owner_list (?P a) = pg_next_in_owner_list (P a)" for a by (simp add: upd_pg_simps)
  have "hz10_orphan_note_published_at h now P = hz10_orphan_note_published_at (pg_next_in_owner_list (P x)) now ?P"
    using h by (subst hz10_orphan_note_published_at.simps) (simp add: links)
  also have "\<dots> = Some (\<lambda>a. if a \<in> set xs then (?P a)\<lparr>pg_orphaned_at_ns := now\<rparr> else ?P a)"
    by (rule Cons.IH) (simp add: links c)
  finally show ?case using nx by (auto simp: fun_eq_iff upd_pg_simps)
qed

lemma join_correct:
  assumes "dll P sub xs" "xs \<noteq> []" "dll P dst ys" "set xs \<inter> set ys = {}" "length ys + length xs < 4294967296"
    and j: "sublist_join sub (dst, P) = (dst', P')"
  shows "dll P' dst' (ys @ xs)" "\<And>a. a \<notin> set xs \<union> set ys \<Longrightarrow> P' a = P a" "\<And>a. same_but_links (P' a) (P a)"
proof -
  have h: "sl_head sub = hd xs" "sl_tail sub = last xs" "sl_tail dst = (if ys = [] then 0 else last ys)"
    using dll_head [OF assms(1)] dll_tail [OF assms(1)] dll_tail [OF assms(3)] assms(2) by (auto split: list.splits)
  have len: "unat (sl_length dst + sl_length sub) = length ys + length xs"
    using assms(1,3,5) by (subst unat_add_no_wrap) (simp_all add: dll_def)
  have n0: "0 \<notin> set xs" "0 \<notin> set ys" using assms(1,3) dll_not_null by blast+
  note C = assms(1,3) [unfolded dll_def]
  show "dll P' dst' (ys @ xs)"
  proof (cases "ys = []")
    case True
    then show ?thesis using j h len C by (auto simp: sublist_join_def dll_def)
  next
    case False
    then have lv: "last ys \<in> set ys" "hd xs \<in> set xs" using assms(2) by auto
    then have nz: "last ys \<noteq> 0" "last ys \<noteq> hd xs" "last ys \<notin> set xs" "hd xs \<notin> set ys" using n0 assms(4) by auto
    have P': "P' = upd_pg (hd xs) (\<lambda>p. p\<lparr>pg_prev_in_owner_list := last ys\<rparr>)
        (upd_pg (last ys) (\<lambda>p. p\<lparr>pg_next_in_owner_list := hd xs\<rparr>) P)"
      and dst': "dst' = dst\<lparr>sl_tail := last xs, sl_length := sl_length dst + sl_length sub\<rparr>"
      using j h nz False by (auto simp: sublist_join_def)
    have nx: "(\<lambda>a. pg_next_in_owner_list (P' a)) = (\<lambda>a. pg_next_in_owner_list (P a))(last ys := hd xs)"
      and pv: "(\<lambda>a. pg_prev_in_owner_list (P' a)) = (\<lambda>a. pg_prev_in_owner_list (P a))(hd xs := last ys)"
      using nz by (auto simp: P' fun_eq_iff upd_pg_simps)
    have "chain ((\<lambda>a. pg_next_in_owner_list (P a))(last ys := hd xs)) (sl_head dst) (ys @ xs)"
      by (rule chain_join) (use C h False assms(4) in auto)
    moreover have "chain ((\<lambda>a. pg_prev_in_owner_list (P a))(last (rev xs) := last ys)) (last xs) (rev xs @ rev ys)"
      by (rule chain_join) (use C h False assms(2,4) in auto)
    ultimately show ?thesis using len C assms(2)
      by (simp add: dll_def nx pv dst' last_rev)
  qed
  show "P' a = P a" if "a \<notin> set xs \<union> set ys" for a
  proof -
    have "a \<noteq> hd xs" "ys \<noteq> [] \<Longrightarrow> a \<noteq> last ys" using that assms(2) by auto
    then show ?thesis using j h n0 by (auto simp: sublist_join_def upd_pg_simps split: if_splits)
  qed
  show "same_but_links (P' a) (P a)" for a
    using j by (auto simp: sublist_join_def upd_pg_simps same_but_links_def split: if_splits)
qed

section \<open>A concrete registry\<close>

text \<open>One orphaned page of class 3 at \<open>0x1000\<close>, whose owner has exited.\<close>

definition example_registry :: owner_state where
  "example_registry = \<lparr>mem = fst example_view, os_maps = [], os_clock = [], os_trace = [],
     hz10_pagemap_root = (\<lambda>_. None),
     pages = (\<lambda>_. (snd example_view)\<lparr>pg_owner_thread_token := 0x5000, pg_owner_list_kind := 1, pg_class_id := 3\<rparr>),
     meta_next = (\<lambda>_. 0), hz10_metadata_free_list = 0, hz10_metadata_slab_count = 0,
     hz10_metadata_node_capacity = 0, hz10_quantum_region_cursor = 0, hz10_quantum_region_end = 0,
     hz10_pool_head = 0, hz10_pool_count = 0, hz10_pool_cap = 64, hz10_pool_reuse_count = 0,
     hz10_pool_release_count = 0, hz10_pool_purged_count = 0,
     ready_stacks = (\<lambda>_. \<lparr>rs_head = 0, rs_push_count = 0\<rparr>), class_lists = (\<lambda>_. empty_class_list),
     owner_records = (\<lambda>a. if a = 0x5000 then HZ10_THREAD_OWNER_STATE_EXITED else HZ10_THREAD_OWNER_STATE_LIVE),
     thread_owners = (\<lambda>_. \<lparr>to_record = 0x5010, to_active = (\<lambda>_. 0)\<rparr>),
     hz10_current_owner = (\<lambda>_. 0x40000), hz10_owner_slab_cursor = 0, hz10_owner_slab_end = 0,
     hz10_owner_key_once = True, hz10_owner_key_ready = True, hz10_owner_key_value = (\<lambda>_. 0x40000),
     os_key_create_ok = True,
     hz10_orphan_active = (\<lambda>c. if c = 3 then \<lparr>sl_head = 0x1000, sl_tail = 0x1000, sl_length = 1\<rparr> else empty_sublist),
     hz10_orphan_adoption_stats = (\<lambda>_. zero_adoption_stats), hz10_orphan_drain_probe_owner = 0x6000\<rparr>"

section \<open>Properties\<close>

text \<open>Publishing a thread's active list of a class moves the whole list, in order, to the end of
  the registry's queue of that class, stamps every page with one time, leaves the thread's list
  empty and touches no other page.\<close>

theorem orphan_publish:
  assumes "dll (pages st) (cl_active (class_lists st l)) xs" "dll (pages st) (hz10_orphan_active st c) ys"
    and "set xs \<inter> set ys = {}" "length ys + length xs < 4294967296"
  shows "\<exists>st'. hz10_orphan_append_active cfg c l st = Some st' \<and>
    dll (pages st') (hz10_orphan_active st' c) (ys @ xs) \<and> cl_active (class_lists st' l) = empty_sublist \<and>
    (\<exists>now. \<forall>x\<in>set xs. pg_orphaned_at_ns (pages st' x) = now) \<and>
    (\<forall>a. a \<notin> set xs \<union> set ys \<longrightarrow> pages st' a = pages st a) \<and>
    (\<forall>c'. c' \<noteq> c \<longrightarrow> hz10_orphan_active st' c' = hz10_orphan_active st c')"
proof (cases "xs = []")
  case True
  then have "sl_head (cl_active (class_lists st l)) = 0" "cl_active (class_lists st l) = empty_sublist"
    using assms(1) by (auto simp: dll_def empty_sublist_def unat_eq_zero intro: Hz10PageSublist.equality)
  then show ?thesis using True assms(2) by (simp add: hz10_orphan_append_active_def)
next
  case False
  let ?sub = "cl_active (class_lists st l)"
  obtain now st1 where clk: "hz10_platform_now_ns st = (now, st1)" by force
  have st1: "pages st1 = pages st" "hz10_orphan_active st1 = hz10_orphan_active st" "class_lists st1 = class_lists st"
    using clk by (auto simp: hz10_platform_now_ns_def split: list.splits)
  have h: "sl_head ?sub \<noteq> 0" using dll_head [OF assms(1)] dll_not_null [OF assms(1)] False by (auto split: list.splits)
  define P where "P = (\<lambda>a. if a \<in> set xs then (pages st a)\<lparr>pg_orphaned_at_ns := now\<rparr> else pages st a)"
  have walk: "hz10_orphan_note_published_at (sl_head ?sub) now (pages st) = Some P"
    unfolding P_def by (rule note_published_walk) (use assms(1) in \<open>simp add: dll_def\<close>)
  have links: "pg_next_in_owner_list (P a) = pg_next_in_owner_list (pages st a)"
    "pg_prev_in_owner_list (P a) = pg_prev_in_owner_list (pages st a)" for a by (simp_all add: P_def)
  have d: "dll P ?sub xs" "dll P (hz10_orphan_active st c) ys"
    using assms(1,2) by (simp_all add: dll_def links)
  obtain dst P1 where j: "sublist_join ?sub (hz10_orphan_active st c, P) = (dst, P1)" by force
  note J = join_correct [OF d(1) False d(2) assms(3,4) j]
  let ?st2 = "upd_list l (\<lambda>cl. cl\<lparr>cl_active := empty_sublist\<rparr>)
                (st1\<lparr>pages := P1, hz10_orphan_active := (hz10_orphan_active st1)(c := dst)\<rparr>)"
  have stamp: "pg_orphaned_at_ns (P1 x) = now" if "x \<in> set xs" for x
  proof -
    have "pg_orphaned_at_ns (P1 x) = pg_orphaned_at_ns (P x)"
      using J(3) [of x] unfolding same_but_links_def by (drule_tac arg_cong [where f = pg_orphaned_at_ns]) simp
    then show ?thesis using that by (simp add: P_def)
  qed
  have frame: "P1 a = pages st a" if "a \<notin> set xs \<union> set ys" for a
    using J(2) [OF that] that by (simp add: P_def)
  have stats: "pages (hz10_orphan_stats_depth_add cfg c n (upd_stats c f s)) = pages s"
    "hz10_orphan_active (hz10_orphan_stats_depth_add cfg c n (upd_stats c f s)) = hz10_orphan_active s"
    "class_lists (hz10_orphan_stats_depth_add cfg c n (upd_stats c f s)) = class_lists s" for n f and s :: "'a owner_state_scheme"
    by (simp_all add: hz10_orphan_stats_depth_add_def upd_stats_def)
  have "\<exists>st'. hz10_orphan_append_active cfg c l st = Some st' \<and> pages st' = pages ?st2 \<and>
      hz10_orphan_active st' = hz10_orphan_active ?st2 \<and> class_lists st' = class_lists ?st2"
    using h clk walk j st1 by (simp add: hz10_orphan_append_active_def Let_def stats)
  then obtain st' where st': "hz10_orphan_append_active cfg c l st = Some st'" "pages st' = P1"
      "hz10_orphan_active st' = (hz10_orphan_active st)(c := dst)" "cl_active (class_lists st' l) = empty_sublist"
    by (auto simp: upd_list_def st1)
  then show ?thesis using J(1) stamp frame by (intro exI [of _ st']) auto
qed

theorem orphan_publish_witness:
  "let st = example_registry\<lparr>class_lists := (\<lambda>_. empty_class_list\<lparr>cl_active := \<lparr>sl_head = 0x2000, sl_tail = 0x2000, sl_length = 1\<rparr>\<rparr>)\<rparr> in
   \<exists>st'. hz10_orphan_append_active default_config 3 0x7000 st = Some st' \<and>
     dll (pages st') (hz10_orphan_active st' 3) [0x1000, 0x2000]"
proof -
  let ?st = "example_registry\<lparr>class_lists := (\<lambda>_. empty_class_list\<lparr>cl_active := \<lparr>sl_head = 0x2000, sl_tail = 0x2000, sl_length = 1\<rparr>\<rparr>)\<rparr>"
  have "dll (pages ?st) (cl_active (class_lists ?st 0x7000)) [0x2000]" "dll (pages ?st) (hz10_orphan_active ?st 3) [0x1000]"
    by (simp_all add: dll_def example_registry_def example_view_lists empty_class_list_def)
  from orphan_publish [OF this, of default_config] show ?thesis by (auto simp: Let_def)
qed

end
