(* ===== verification/Hz10_Pages_Rep.thy ===== *)
theory Hz10_Pages_Rep
  imports Hz10_Class_Pages_Correct
begin

text \<open>
  Several pages at once: pages with disjoint payloads, each representing its abstract page. A drain,
  or the destruction, of one leaves the others as they are; every walk over a list of pages rests on
  this.
\<close>

section \<open>Draining one page of many\<close>

definition pages_rep :: "hz10_config \<Rightarrow> 'a page_heap_state_scheme \<Rightarrow> addr set \<Rightarrow> (addr \<Rightarrow> abs_page) \<Rightarrow> bool" where
  "pages_rep cfg st Y As \<longleftrightarrow> (\<forall>y\<in>Y. page_rel cfg (mem st, pages st y) (As y)) \<and>
     inj_on (\<lambda>y. pg_base (pages st y)) Y"

lemma pages_rep_cong:
  assumes "pages_rep cfg st Y As" "mem st' = mem st"
    and "\<And>y. y \<in> Y \<Longrightarrow> core_eq (pages st' y) (pages st y)"
  shows "pages_rep cfg st' Y As"
proof -
  have "page_rel cfg (mem st', pages st' y) (As y)" "pg_base (pages st' y) = pg_base (pages st y)" if "y \<in> Y" for y
    using core_eq_page_rel [OF assms(3) [OF that]] core_eq_fields(3) [OF assms(3) [OF that]] assms(1,2) that
    by (simp_all add: pages_rep_def)
  then show ?thesis using assms(1) by (simp add: pages_rep_def inj_on_def)
qed

lemma drain_pages:
  assumes "pages_rep cfg st Y As" "x \<in> Y"
  shows "\<exists>m p. drain_page x st = Some (of_nat (length (remote_slots (As x))), set_page x p (st\<lparr>mem := m\<rparr>)) \<and>
    drain_frame p (pages st x) \<and> pages_rep cfg (set_page x p (st\<lparr>mem := m\<rparr>)) Y (As(x := abs_drain (As x)))"
proof -
  have rel: "page_rel cfg (mem st, pages st x) (As x)" using assms by (auto simp: pages_rep_def)
  obtain m p where d: "hz10_page_drain_remote (mem st, pages st x) = Some (of_nat (length (remote_slots (As x))), m, p)"
    "page_rel cfg (m, p) (abs_drain (As x))" "drain_frame p (pages st x)" "same_outside (pg_base (pages st x)) m (mem st)"
    using drain_refines [OF rel] by auto
  have b: "unat (pg_base (pages st x)) mod 65536 = 0" using page_relD(1) [OF rel] by (simp add: page_geom_def)
  have o: "page_rel cfg (m, pages st y) (As y)" if "y \<in> Y" "y \<noteq> x" for y
    by (rule page_rel_other_page [OF _ d(4) b]) (use assms that in \<open>auto simp: pages_rep_def inj_on_def\<close>)
  have bp: "pg_base (pages (set_page x p (st\<lparr>mem := m\<rparr>)) y) = pg_base (pages st y)" for y
    using d(3) by (simp add: drain_frame_def)
  have "page_rel cfg (mem (set_page x p (st\<lparr>mem := m\<rparr>)), pages (set_page x p (st\<lparr>mem := m\<rparr>)) y) ((As(x := abs_drain (As x))) y)"
    if "y \<in> Y" for y using d(2) o [OF that] by (cases "y = x") simp_all
  then have "pages_rep cfg (set_page x p (st\<lparr>mem := m\<rparr>)) Y (As(x := abs_drain (As x)))"
    using assms(1) bp unfolding pages_rep_def by simp
  moreover have "drain_page x st = Some (of_nat (length (remote_slots (As x))), set_page x p (st\<lparr>mem := m\<rparr>))"
    using d(1) by (simp add: drain_page_def)
  ultimately show ?thesis using d(3) by (intro exI [of _ m] exI [of _ p]) simp
qed

section \<open>Destroying one page of many\<close>

lemma pool_release_same_outside:
  assumes "unat b mod 65536 = 0"
  shows "same_outside b (mem (snd (hz10_page_pool_release b st))) (mem st)"
proof -
  obtain k where k: "unat b = 65536 * k" using assms by (auto elim: dvdE)
  have "unat b + unat (8 :: addr) < 18446744073709551616" using quantum_aligned_bound [OF assms] by simp
  then have "unat (b + 8) = unat b + 8" by (subst unat_add_no_wrap) simp_all
  then have "unat (b + 8) div 65536 = unat b div 65536" using k by simp
  then show ?thesis
    by (auto simp: same_outside_def hz10_page_pool_release_def Let_def hz10_platform_release_def
        hz10_platform_now_ns_def split: prod.splits list.splits)
qed

lemma destroy_same_outside:
  assumes "unat (pg_base (pages st pg)) mod 65536 = 0"
  shows "same_outside (pg_base (pages st pg)) (mem (hz10_pooled_page_destroy pg st)) (mem st)"
proof (cases "pg = 0")
  case True
  then show ?thesis by (simp add: hz10_pooled_page_destroy_def hz10_freelist_page_destroy_reclaim_base_def)
next
  case False
  obtain rt where rt: "snd (hz10_pagemap_release (pg_base (pages st pg)) st) = st\<lparr>hz10_pagemap_root := rt\<rparr>"
    by (rule pagemap_release_form)
  let ?st1 = "st\<lparr>hz10_pagemap_root := rt, meta_next := (meta_next st)(pg := hz10_metadata_free_list st), hz10_metadata_free_list := pg\<rparr>"
  have "hz10_freelist_page_destroy_reclaim_base pg st = (pg_base (pages st pg), ?st1)"
    using False rt by (simp add: hz10_freelist_page_destroy_reclaim_base_def Let_def hz10_metadata_page_free_def)
  then show ?thesis
    using pool_release_same_outside [OF assms, of ?st1] by (simp add: hz10_pooled_page_destroy_def)
qed

lemma pages_rep_subset: "pages_rep cfg st Y As \<Longrightarrow> Z \<subseteq> Y \<Longrightarrow> pages_rep cfg st Z As"
  by (auto simp: pages_rep_def intro: inj_on_subset)

lemma pages_rep_As: "pages_rep cfg st Y As \<Longrightarrow> (\<And>y. y \<in> Y \<Longrightarrow> As' y = As y) \<Longrightarrow> pages_rep cfg st Y As'"
  by (simp add: pages_rep_def)

lemma destroy_pages:
  assumes "pages_rep cfg st Y As" "x \<in> Y" "Z \<subseteq> Y - {x}"
  shows "pages_rep cfg (hz10_pooled_page_destroy x st) Z As"
proof -
  let ?st = "hz10_pooled_page_destroy x st"
  have b: "unat (pg_base (pages st x)) mod 65536 = 0"
    using assms(1,2) page_relD(1) by (fastforce simp: pages_rep_def page_geom_def)
  have "page_rel cfg (mem ?st, pages st y) (As y)" if "y \<in> Z" for y
    by (rule page_rel_other_page [OF _ destroy_same_outside [OF b] b])
      (use assms that in \<open>auto simp: pages_rep_def inj_on_def\<close>)
  moreover have "inj_on (\<lambda>y. pg_base (pages st y)) Z"
    using assms(1,3) by (auto simp: pages_rep_def intro: inj_on_subset)
  ultimately show ?thesis by (simp add: pages_rep_def)
qed

end
