(* ===== verification/Hz10_Adoption.thy ===== *)
theory Hz10_Adoption
  imports Hz10_Owner_Correct Hz10_Pages_Rep
begin

text \<open>
  Adoption with \<open>HZ10_ENABLE_PARTIAL_ORPHAN_ADOPTION\<close>: a thread that needs a page of a class pops the
  pages of exited threads from the registry, drains them under its own token, and keeps the first
  that has a slot.
\<close>

lemma page_rel_token: "page_rel cfg (m, p\<lparr>pg_owner_thread_token := t\<rparr>) A \<longleftrightarrow> page_rel cfg (m, p) A"
  by (rule page_rel_header_cong) simp_all

lemma page_rel_adopted: "page_rel cfg (m, p\<lparr>pg_adopted_count := t\<rparr>) A \<longleftrightarrow> page_rel cfg (m, p) A"
  by (rule page_rel_header_cong) simp_all

lemma pages_rep_set_token [simp]: "pages_rep cfg (set_token x t st) Y As \<longleftrightarrow> pages_rep cfg st Y As"
proof -
  have "page_rel cfg (mem st, pages (set_token x t st) y) A \<longleftrightarrow> page_rel cfg (mem st, pages st y) A"
    "pg_base (pages (set_token x t st) y) = pg_base (pages st y)" for y A
    by (simp_all add: set_token_def hz10_freelist_page_set_owner_thread_def page_rel_token)
  then show ?thesis by (simp add: pages_rep_def) (simp add: set_token_def)
qed

section \<open>The steps of the registry\<close>

text \<open>What no step of a scan changes.\<close>

definition scan_frame :: "addr set \<Rightarrow> 'a owner_state_scheme \<Rightarrow> 'a owner_state_scheme \<Rightarrow> bool" where
  "scan_frame Y st' st \<longleftrightarrow> owner_records st' = owner_records st \<and> thread_owners st' = thread_owners st \<and>
     class_lists st' = class_lists st \<and> (\<forall>a. a \<notin> Y \<longrightarrow> pages st' a = pages st a) \<and>
     (\<forall>a. pg_class_id (pages st' a) = pg_class_id (pages st a) \<and>
          pg_owner_thread_token (pages st' a) = pg_owner_thread_token (pages st a))"

lemma scan_frame_trans: "scan_frame Y st3 st2 \<Longrightarrow> scan_frame Y st2 st1 \<Longrightarrow> scan_frame Y st3 st1"
  by (simp add: scan_frame_def)

lemma upd_stats_simps [simp]:
  "pages (upd_stats c f st) = pages st" "mem (upd_stats c f st) = mem st"
  "hz10_orphan_active (upd_stats c f st) = hz10_orphan_active st" "owner_records (upd_stats c f st) = owner_records st"
  "thread_owners (upd_stats c f st) = thread_owners st" "class_lists (upd_stats c f st) = class_lists st"
  by (simp_all add: upd_stats_def)

lemma depth_simps [simp]:
  "pages (hz10_orphan_stats_depth_add cfg c n st) = pages st" "mem (hz10_orphan_stats_depth_add cfg c n st) = mem st"
  "hz10_orphan_active (hz10_orphan_stats_depth_add cfg c n st) = hz10_orphan_active st"
  "owner_records (hz10_orphan_stats_depth_add cfg c n st) = owner_records st"
  "thread_owners (hz10_orphan_stats_depth_add cfg c n st) = thread_owners st"
  "class_lists (hz10_orphan_stats_depth_add cfg c n st) = class_lists st"
  "pages (hz10_orphan_stats_depth_sub cfg c n st) = pages st" "mem (hz10_orphan_stats_depth_sub cfg c n st) = mem st"
  "hz10_orphan_active (hz10_orphan_stats_depth_sub cfg c n st) = hz10_orphan_active st"
  "owner_records (hz10_orphan_stats_depth_sub cfg c n st) = owner_records st"
  "thread_owners (hz10_orphan_stats_depth_sub cfg c n st) = thread_owners st"
  "class_lists (hz10_orphan_stats_depth_sub cfg c n st) = class_lists st"
  by (simp_all add: hz10_orphan_stats_depth_add_def hz10_orphan_stats_depth_sub_def)

lemma core_eq_ids:
  assumes "core_eq p' p"
  shows "pg_class_id p' = pg_class_id p" "pg_owner_thread_token p' = pg_owner_thread_token p"
  by (rule core_eq_field [OF assms]; simp)+

lemma pop_class_step:
  assumes d: "dll (pages st) (hz10_orphan_active st c) (y # ys)"
  obtains st1 where "hz10_orphan_pop_class cfg c st = (y, st1)" "y \<noteq> 0" "y \<notin> set ys"
    "dll (pages st1) (hz10_orphan_active st1 c) ys" "\<And>a. core_eq (pages st1 a) (pages st a)" "mem st1 = mem st"
    "scan_frame (set (y # ys)) st1 st"
proof -
  obtain sub P where r: "hz10_page_sublist_remove y (hz10_orphan_active st c, pages st) = (sub, P)" by force
  note R = remove_correct [of "pages st" "hz10_orphan_active st c" "[]" y ys, unfolded append_Nil, OF d r]
  have n: "y \<noteq> 0" "y \<notin> set ys" using dll_not_null [OF d] dll_distinct [OF d] by auto
  have pop: "hz10_orphan_pop_one (hz10_orphan_active st c, pages st) = (y, sub, P)"
    using pop_one_remove [OF d] r by simp
  obtain st1 where st1: "hz10_orphan_pop_class cfg c st = (y, st1)" "pages st1 = P" "hz10_orphan_active st1 c = sub"
    "mem st1 = mem st" "owner_records st1 = owner_records st" "thread_owners st1 = thread_owners st"
    "class_lists st1 = class_lists st"
    using pop n by (simp add: hz10_orphan_pop_class_def set_orphan_list_def)
  have core: "core_eq (pages st1 a) (pages st a)" for a
    using R(3) [of a] R(4) core_eq_links st1(2) by (cases "a = y") auto
  have "scan_frame (set (y # ys)) st1 st"
    using R(2) st1 core_eq_ids [OF core] by (simp add: scan_frame_def)
  then show ?thesis using that [OF st1(1) n _ core st1(4)] R(1) st1(2,3) by simp
qed

lemma repush_step:
  assumes d: "dll (pages st) (hz10_orphan_active st c) ys" "y \<noteq> 0" "y \<notin> set ys" "length ys < 4294967295"
    and st1_def: "st1 = hz10_orphan_repush_class cfg c y st"
  shows "dll (pages st1) (hz10_orphan_active st1 c) (ys @ [y])" "\<And>a. core_eq (pages st1 a) (pages st a)" "mem st1 = mem st"
    "scan_frame (set (y # ys)) st1 st"
proof -
  obtain sub P where a: "hz10_orphan_append_one y (hz10_orphan_active st c, pages st) = (sub, P)" by force
  note A = append_one_correct [OF d(1-4) a]
  have st1: "pages st1 = P" "hz10_orphan_active st1 c = sub" "mem st1 = mem st" "owner_records st1 = owner_records st"
    "thread_owners st1 = thread_owners st" "class_lists st1 = class_lists st"
    using a by (simp_all add: st1_def hz10_orphan_repush_class_def set_orphan_list_def Let_def)
  show core: "core_eq (pages st1 a) (pages st a)" for a
    using A(3) [of a] A(4) core_eq_links st1(1) by (cases "a = y") (auto simp: core_eq_def)
  show "dll (pages st1) (hz10_orphan_active st1 c) (ys @ [y])" using A(1) st1 by simp
  show "mem st1 = mem st" by (rule st1)
  show "scan_frame (set (y # ys)) st1 st"
    using A(2) st1 core_eq_ids [OF core] by (simp add: scan_frame_def)
qed

section \<open>The scan\<close>

text \<open>A page goes back: the registry is rotated and everything a later step looks at is as it was.\<close>

definition reg_ok_for :: "hz10_config \<Rightarrow> nat \<Rightarrow> addr \<Rightarrow> 'a owner_state_scheme \<Rightarrow> addr list \<Rightarrow> (addr \<Rightarrow> abs_page) \<Rightarrow>
    addr list \<Rightarrow> addr list \<Rightarrow> bool" where
  "reg_ok_for cfg c l st ys As as rs \<longleftrightarrow> dll (pages st) (hz10_orphan_active st c) ys \<and> pages_rep cfg st (set ys) As \<and>
     class_rep st l as rs \<and> set ys \<inter> (set as \<union> set rs) = {} \<and> length ys < 4294967296 \<and> length as < 128"

lemma class_rep_scan_frame:
  assumes "class_rep st l as rs" "scan_frame Y st' st" "Y \<inter> (set as \<union> set rs) = {}"
  shows "class_rep st' l as rs"
proof -
  have "pages st' a = pages st a" if "a \<in> set as \<union> set rs" for a
    using that assms(2,3) by (auto simp: scan_frame_def)
  then have "class_rep st' l as rs \<longleftrightarrow> class_rep st l as rs"
    using assms(2) by (intro class_rep_cong) (simp_all add: scan_frame_def)
  then show ?thesis using assms(1) by simp
qed

lemma reject_rep:
  assumes ok: "reg_ok_for cfg c l st (y # ys) As as rs"
    and d: "dll (pages st2) (hz10_orphan_active st2 c) ys" and fr: "scan_frame (set (y # ys)) st2 st"
    and pr: "pages_rep cfg st2 (set (y # ys)) As'"
    and st3: "st3 = hz10_orphan_repush_class cfg c y (upd_stats c f st2)"
  shows "reg_ok_for cfg c l st3 (ys @ [y]) As' as rs" "scan_frame (set (y # ys)) st3 st"
proof -
  have y: "y \<noteq> 0" "y \<notin> set ys" and len: "length ys < 4294967295"
    using ok dll_not_null dll_distinct by (fastforce simp: reg_ok_for_def)+
  have d': "dll (pages (upd_stats c f st2)) (hz10_orphan_active (upd_stats c f st2) c) ys" using d by simp
  note R = repush_step [OF d' y len st3]
  have "scan_frame (set (y # ys)) (upd_stats c f st2) st2" by (simp add: scan_frame_def)
  then show fr3: "scan_frame (set (y # ys)) st3 st" using R(4) fr scan_frame_trans by blast
  have "pages_rep cfg st3 (set (y # ys)) As'"
    by (rule pages_rep_cong [OF pr]) (use R(2,3) in simp_all)
  moreover have "class_rep st3 l as rs"
    using class_rep_scan_frame [OF _ fr3] ok by (auto simp: reg_ok_for_def)
  ultimately show "reg_ok_for cfg c l st3 (ys @ [y]) As' as rs"
    using R(1) ok by (auto simp: reg_ok_for_def insert_commute)
qed

text \<open>The drain under the adopter's token, and the token put back.\<close>

lemma adopt_drain:
  assumes pr: "pages_rep cfg st1 (set (y # ys)) As" and d: "dll (pages st1) (hz10_orphan_active st1 c) ys" "y \<notin> set ys"
  obtains n st2 where "drain_page y (set_token y t st1) = Some (n, st2)"
    "pages_rep cfg st2 (set (y # ys)) (As(y := abs_drain (As y)))" "dll (pages st2) (hz10_orphan_active st2 c) ys"
    "pg_owner_thread_token (pages st2 y) = t" "scan_frame (set (y # ys)) (set_token y (pg_owner_thread_token (pages st1 y)) st2) st1"
    "owner_records st2 = owner_records st1" "thread_owners st2 = thread_owners st1" "class_lists st2 = class_lists st1"
    "\<And>a. a \<noteq> y \<Longrightarrow> pages st2 a = pages st1 a"
proof -
  let ?st = "set_token y t st1"
  have "pages_rep cfg ?st (set (y # ys)) As" using pr by simp
  from drain_pages [OF this, of y] obtain m p where
    D: "drain_page y ?st = Some (of_nat (length (remote_slots (As y))), set_page y p (?st\<lparr>mem := m\<rparr>))"
      "drain_frame p (pages ?st y)" "pages_rep cfg (set_page y p (?st\<lparr>mem := m\<rparr>)) (set (y # ys)) (As(y := abs_drain (As y)))"
    by auto
  let ?st2 = "set_page y p (?st\<lparr>mem := m\<rparr>)"
  have o: "hz10_orphan_active ?st2 = hz10_orphan_active st1" "owner_records ?st2 = owner_records st1"
    "thread_owners ?st2 = thread_owners st1" "class_lists ?st2 = class_lists st1"
    "\<And>a. a \<noteq> y \<Longrightarrow> pages ?st2 a = pages st1 a" "pages ?st2 y = p"
    by (simp_all add: set_page_def set_token_def)
  have p: "pg_owner_thread_token p = t" "pg_class_id p = pg_class_id (pages st1 y)"
    using D(2) by (simp_all add: drain_frame_def set_token_def hz10_freelist_page_set_owner_thread_def)
  have "dll (pages ?st2) (hz10_orphan_active st1 c) ys \<longleftrightarrow> dll (pages st1) (hz10_orphan_active st1 c) ys"
    by (rule dll_cong) (use o(5) d(2) in metis)
  then have "dll (pages ?st2) (hz10_orphan_active ?st2 c) ys" using d(1) o(1) by simp
  moreover have "scan_frame (set (y # ys)) (set_token y (pg_owner_thread_token (pages st1 y)) ?st2) st1"
    using o p by (auto simp: scan_frame_def set_token_def hz10_freelist_page_set_owner_thread_def set_page_def)
  ultimately show ?thesis using that [OF D(1,3)] o p(1) by simp
qed

lemma add_short:
  assumes "class_rep st l as rs" "page \<noteq> 0" "page \<notin> set as \<union> set rs" "length as < 128"
  shows "hz10_class_pages_add l page st = Some (hz10_class_pages_prepend_active l page st)"
proof -
  have "class_rep (hz10_class_pages_prepend_active l page st) l (page # as) rs"
    by (rule prepend_active_rep [OF assms(1-3)]) (use assms(4) in simp)
  then have "unat (sl_length (cl_active (class_lists (hz10_class_pages_prepend_active l page st) l))) = Suc (length as)"
    by (auto dest!: class_repD(1) simp: dll_def)
  then show ?thesis using assms(4)
    by (simp add: hz10_class_pages_add_def hz10_class_pages_prepend_active_with_eviction_def Let_def word_le_nat_alt)
qed

definition adopt_ok :: "hz10_config \<Rightarrow> nat \<Rightarrow> addr \<Rightarrow> 'a owner_state_scheme \<Rightarrow> addr list \<Rightarrow> addr list \<Rightarrow> addr list \<Rightarrow>
    addr \<Rightarrow> 'a owner_state_scheme \<Rightarrow> bool" where
  "adopt_ok cfg c adopter st ys as rs r st' \<longleftrightarrow>
    (if r = 0 then (\<exists>ys'. mset ys' = mset ys \<and> dll (pages st') (hz10_orphan_active st' c) ys') \<and>
       class_rep st' (list_addr adopter c) as rs
     else r \<in> set ys \<and> unat (pg_class_id (pages st r)) = c \<and>
       hz10_public_entry_owner_state (pg_owner_thread_token (pages st r)) st = HZ10_THREAD_OWNER_STATE_EXITED \<and>
       pg_owner_thread_token (pages st' r) = hz10_public_entry_owner_record adopter st \<and>
       hz10_freelist_page_has_capacity cfg (pages st' r) \<and> class_rep st' (list_addr adopter c) (r # as) rs \<and>
       (\<exists>ys'. mset ys' + {#r#} = mset ys \<and> dll (pages st') (hz10_orphan_active st' c) ys'))"

lemma adopt_ok_frame:
  assumes "adopt_ok cfg c adopter st3 ys' as rs r st'" "scan_frame Y st3 st" "mset ys' = mset ys"
  shows "adopt_ok cfg c adopter st ys as rs r st'"
proof -
  have "hz10_public_entry_owner_state a st3 = hz10_public_entry_owner_state a st"
    "hz10_public_entry_owner_record adopter st3 = hz10_public_entry_owner_record adopter st" for a
    using assms(2) by (simp_all add: scan_frame_def hz10_public_entry_owner_state_def hz10_public_entry_owner_record_def)
  moreover have "set ys' = set ys" using assms(3) by (rule mset_eq_setD)
  ultimately show ?thesis using assms by (auto simp: adopt_ok_def scan_frame_def)
qed

lemma adopt_page_correct:
  assumes d: "dll (pages st2) (hz10_orphan_active st2 c) ys" "y \<notin> set ys" "y \<noteq> 0"
    and cls: "class_rep st2 (list_addr adopter c) as rs" "set (y # ys) \<inter> (set as \<union> set rs) = {}" "length as < 128"
    and cap: "hz10_freelist_page_has_capacity cfg (pages st2 y)"
  shows "\<exists>st'. adopt_page cfg c adopter y st2 = Some (y, st') \<and> class_rep st' (list_addr adopter c) (y # as) rs \<and>
    dll (pages st') (hz10_orphan_active st' c) ys \<and> hz10_freelist_page_has_capacity cfg (pages st' y) \<and>
    pg_owner_thread_token (pages st' y) = pg_owner_thread_token (pages st2 y)"
proof -
  let ?l = "list_addr adopter c"
  define sa where "sa = set_page y (hz10_freelist_page_note_adopted (pages st2 y))
      (upd_stats c (\<lambda>s. s\<lparr>oa_adopt_count := oa_adopt_count s + 1\<rparr>) st2)"
  have sa: "pages sa = (pages st2)(y := hz10_freelist_page_note_adopted (pages st2 y))"
    "class_lists sa = class_lists st2" "hz10_orphan_active sa = hz10_orphan_active st2"
    by (simp_all add: sa_def set_page_def upd_stats_def)
  have "class_rep sa ?l as rs \<longleftrightarrow> class_rep st2 ?l as rs"
    by (rule class_rep_cong) (simp_all add: sa hz10_freelist_page_note_adopted_def)
  then have ca: "class_rep sa ?l as rs" using cls(1) by simp
  have y: "y \<notin> set as \<union> set rs" using cls(2) by auto
  define st' where "st' = hz10_class_pages_prepend_active ?l y sa"
  have "length as < 4294967295" using cls(3) by simp
  note P = prepend_active_rep [OF ca d(3) y this, folded st'_def]
  have ad: "adopt_page cfg c adopter y st2 = Some (y, st')"
    using add_short [OF ca d(3) y cls(3)] by (simp add: adopt_page_def sa_def st'_def Let_def)
  have orph: "hz10_orphan_active st' = hz10_orphan_active st2"
    by (simp add: st'_def hz10_class_pages_prepend_active_def on_active_def set_kind_def upd_list_def sa(3) split: prod.split)
  have "dll (pages st') (hz10_orphan_active st2 c) ys \<longleftrightarrow> dll (pages st2) (hz10_orphan_active st2 c) ys"
  proof (rule dll_cong)
    fix a
    assume "a \<in> set ys"
    then have "a \<noteq> y" "a \<notin> insert y (set as)" using d(2) cls(2) by auto
    then show "pg_next_in_owner_list (pages st' a) = pg_next_in_owner_list (pages st2 a) \<and>
        pg_prev_in_owner_list (pages st' a) = pg_prev_in_owner_list (pages st2 a)"
      using P(4) [of a] sa(1) by simp
  qed
  moreover have "hz10_freelist_page_has_capacity cfg (pages st' y)"
    using cap core_eq_fields [OF P(2) [of y]] by (simp add: hz10_freelist_page_has_capacity_def sa(1) hz10_freelist_page_note_adopted_def)
  moreover have "pg_owner_thread_token (pages st' y) = pg_owner_thread_token (pages st2 y)"
    using core_eq_fields(9) [OF P(2) [of y]] by (simp add: sa(1) hz10_freelist_page_note_adopted_def)
  ultimately show ?thesis using ad P(1) d(1) orph by simp
qed

lemma adopt_scan_correct:
  assumes part: "cfg_partial_orphan_adoption cfg" and ad: "adopter \<noteq> 0"
    and ok: "reg_ok_for cfg c (list_addr adopter c) st ys As as rs"
  shows "\<exists>r st'. adopt_scan cfg k c adopter st = Some (r, st') \<and> adopt_ok cfg c adopter st ys as rs r st'"
  using ok
proof (induction k arbitrary: st ys As)
  case 0
  then show ?case by (auto simp: adopt_ok_def reg_ok_for_def)
next
  case (Suc k)
  let ?l = "list_addr adopter c"
  have d: "dll (pages st) (hz10_orphan_active st c) ys" and pr: "pages_rep cfg st (set ys) As"
    and cls: "class_rep st ?l as rs" "set ys \<inter> (set as \<union> set rs) = {}" "length as < 128"
    using Suc.prems by (simp_all add: reg_ok_for_def)
  show ?case
  proof (cases ys)
    case Nil
    then have "sl_head (hz10_orphan_active st c) = 0" using d by (simp add: dll_def)
    then obtain st1 where p: "hz10_orphan_pop_class cfg c st = (0, st1)" "pages st1 = pages st"
      "class_lists st1 = class_lists st" "hz10_orphan_active st1 c = hz10_orphan_active st c"
      by (simp add: hz10_orphan_pop_class_def hz10_orphan_pop_one_def set_orphan_list_def)
    have "class_rep st1 ?l as rs \<longleftrightarrow> class_rep st ?l as rs" by (rule class_rep_cong) (simp_all add: p)
    then have "adopt_ok cfg c adopter st ys as rs 0 st1" using cls(1) d p Nil by (simp add: adopt_ok_def)
    then show ?thesis using p by (simp add: Let_def)
  next
    case (Cons y vs)
    note okc = Suc.prems [unfolded Cons]
    obtain st1 where pop: "hz10_orphan_pop_class cfg c st = (y, st1)" "y \<noteq> 0" "y \<notin> set vs"
      "dll (pages st1) (hz10_orphan_active st1 c) vs" "\<And>a. core_eq (pages st1 a) (pages st a)" "mem st1 = mem st"
      "scan_frame (set (y # vs)) st1 st"
      by (rule pop_class_step [OF d [unfolded Cons], where cfg = cfg]) (rule that; assumption)
    have pr1: "pages_rep cfg st1 (set (y # vs)) As"
      by (rule pages_rep_cong [OF pr [unfolded Cons] pop(6)]) (rule pop(5))
    let ?old = "pg_owner_thread_token (pages st1 y)"
    have again: "\<exists>r st'. adopt_scan cfg k c adopter st3 = Some (r, st') \<and> adopt_ok cfg c adopter st ys as rs r st'"
      if "dll (pages st2) (hz10_orphan_active st2 c) vs" "scan_frame (set (y # vs)) st2 st"
        "pages_rep cfg st2 (set (y # vs)) As'" "st3 = hz10_orphan_repush_class cfg c y (upd_stats c f st2)"
      for st2 st3 f As'
    proof -
      note R = reject_rep [OF okc that]
      from Suc.IH [OF R(1)] obtain r st' where "adopt_scan cfg k c adopter st3 = Some (r, st')"
        "adopt_ok cfg c adopter st3 (vs @ [y]) as rs r st'" by blast
      then show ?thesis using adopt_ok_frame [OF _ R(2), of cfg c adopter "vs @ [y]" as rs r st' ys] Cons by auto
    qed
    show ?thesis
    proof (cases "unat (pg_class_id (pages st1 y)) = c \<and>
        hz10_public_entry_owner_state ?old st1 = HZ10_THREAD_OWNER_STATE_EXITED")
      case False
      then show ?thesis
        using again [OF pop(4,7) pr1 refl] pop(1,2) part
        by (auto simp: Let_def hz10_freelist_page_owner_thread_def)
    next
      case True
      let ?t = "hz10_public_entry_owner_record adopter st1"
      obtain n st2 where D: "drain_page y (set_token y ?t st1) = Some (n, st2)"
        "pages_rep cfg st2 (set (y # vs)) (As(y := abs_drain (As y)))" "dll (pages st2) (hz10_orphan_active st2 c) vs"
        "pg_owner_thread_token (pages st2 y) = ?t" "scan_frame (set (y # vs)) (set_token y ?old st2) st1"
        "owner_records st2 = owner_records st1" "thread_owners st2 = thread_owners st1" "class_lists st2 = class_lists st1"
        "\<And>a. a \<noteq> y \<Longrightarrow> pages st2 a = pages st1 a"
        by (rule adopt_drain [OF pr1 pop(4,3), where t = ?t]) (rule that; assumption)
      show ?thesis
      proof (cases "hz10_freelist_page_has_capacity cfg (pages st2 y)")
        case cap: True
        have dis: "set (y # vs) \<inter> (set as \<union> set rs) = {}" using cls(2) Cons by simp
        have "pages st2 a = pages st a" if "a \<in> set as \<union> set rs" for a
        proof -
          have "a \<noteq> y" "a \<notin> set (y # vs)" using that dis by auto
          then show ?thesis using D(9) [of a] pop(7) by (simp add: scan_frame_def)
        qed
        then have "class_rep st2 ?l as rs \<longleftrightarrow> class_rep st ?l as rs"
          using D(8) pop(7) by (intro class_rep_cong) (simp_all add: scan_frame_def)
        then have c2: "class_rep st2 ?l as rs" using cls(1) by simp
        from adopt_page_correct [OF D(3) pop(3,2) c2 dis cls(3) cap] obtain st' where
          A: "adopt_page cfg c adopter y st2 = Some (y, st')" "class_rep st' ?l (y # as) rs"
            "dll (pages st') (hz10_orphan_active st' c) vs" "hz10_freelist_page_has_capacity cfg (pages st' y)"
            "pg_owner_thread_token (pages st' y) = ?t" using D(4) by auto
        have eq: "?old = pg_owner_thread_token (pages st y)" "pg_class_id (pages st1 y) = pg_class_id (pages st y)"
          "hz10_public_entry_owner_state a st1 = hz10_public_entry_owner_state a st"
          "?t = hz10_public_entry_owner_record adopter st" for a
          using pop(7) by (simp_all add: scan_frame_def hz10_public_entry_owner_state_def hz10_public_entry_owner_record_def)
        have "adopt_ok cfg c adopter st ys as rs y st'"
          using A(2-5) True Cons eq pop(2) by (auto simp: adopt_ok_def intro!: exI [of _ vs])
        moreover have "adopt_scan cfg (Suc k) c adopter st = Some (y, st')"
          using pop(1,2) part True D(1) cap A(1) by (simp add: Let_def hz10_freelist_page_owner_thread_def)
        ultimately show ?thesis by blast
      next
        case nocap: False
        let ?st2 = "set_token y ?old st2"
        have d2: "dll (pages ?st2) (hz10_orphan_active ?st2 c) vs"
        proof -
          have "dll (pages ?st2) (hz10_orphan_active st2 c) vs \<longleftrightarrow> dll (pages st2) (hz10_orphan_active st2 c) vs"
            by (rule dll_cong) (use pop(3) in \<open>auto simp: set_token_def\<close>)
          then show ?thesis using D(3) by (simp add: set_token_def set_page_def)
        qed
        have p2: "pages_rep cfg ?st2 (set (y # vs)) (As(y := abs_drain (As y)))" using D(2) by simp
        show ?thesis
          using again [OF d2 scan_frame_trans [OF D(5) pop(7)] p2 refl] pop(1,2) part True D(1) nocap
          by (simp add: Let_def hz10_freelist_page_owner_thread_def)
      qed
    qed
  qed
qed

section \<open>Properties\<close>


lemma example_registry_page: "page_rel default_config (mem example_registry, pages example_registry a) (fresh_abs default_config 4)"
proof -
  have "page_rel default_config (fst example_view,
      (snd example_view)\<lparr>pg_owner_thread_token := t, pg_owner_list_kind := k, pg_class_id := c\<rparr>) A
      \<longleftrightarrow> page_rel default_config (fst example_view, snd example_view) A" for t k c A
    by (rule page_rel_header_cong) simp_all
  then show ?thesis using example_view_rel by (simp add: example_registry_def)
qed


end
