(* ===== verification/Hz10_Flush_Correct.thy ===== *)
theory Hz10_Flush_Correct
  imports Hz10_Lifecycle_Flush Hz10_Pages_Rep
begin

text \<open>
  The quiescent flush: the walk over a list of a class drains every page, destroys the idle ones and
  rebuilds the list from the others, in their order. It always returns.
\<close>

section \<open>The walk\<close>

text \<open>A page survives while something on it is in use; a retired page also while the ready stack
  holds it or its mark is gone.\<close>

definition survives :: "bool \<Rightarrow> 'a page_heap_state_scheme \<Rightarrow> (addr \<Rightarrow> abs_page) \<Rightarrow> addr \<Rightarrow> bool" where
  "survives is_retired st As x \<longleftrightarrow> held_slots (As x) \<noteq> {} \<or> ap_claimed (As x) \<noteq> {} \<or>
     is_retired \<and> (pg_retired_ready_on_stack (pages st x) \<noteq> 0 \<or> pg_retired_ready_flag (pages st x) \<noteq> 1)"

lemma clear_links_pages:
  "clear_links x P a = (if a = x then (P x)\<lparr>pg_next_in_owner_list := 0, pg_prev_in_owner_list := 0\<rparr> else P a)"
  by (simp add: clear_links_def upd_pg_simps)

lemma core_eq_clear_links: "core_eq (clear_links x P a) (P a)"
  by (simp add: clear_links_pages core_eq_def)

text \<open>One page of the walk: drained, and then kept or destroyed.\<close>

lemma walk_drain:
  assumes pr: "pages_rep cfg st Y As" "x \<in> Y"
  obtains m p where
    "drain_page x (st\<lparr>pages := clear_links x (pages st)\<rparr>) = Some (of_nat (length (remote_slots (As x))),
       (st\<lparr>mem := m, pages := (pages st)(x := p)\<rparr>))"
    "pages_rep cfg (st\<lparr>mem := m, pages := (pages st)(x := p)\<rparr>) Y (As(x := abs_drain (As x)))"
    "pg_free_count p = pg_slot_count p \<longleftrightarrow> held_slots (As x) = {} \<and> ap_claimed (As x) = {}"
    "pg_retired_ready_on_stack p = pg_retired_ready_on_stack (pages st x)"
    "pg_retired_ready_flag p = pg_retired_ready_flag (pages st x)"
proof -
  let ?st = "st\<lparr>pages := clear_links x (pages st)\<rparr>"
  have "pages_rep cfg ?st Y As" by (rule pages_rep_cong [OF pr(1)]) (simp_all add: core_eq_clear_links)
  from drain_pages [OF this pr(2)] obtain m p where
    D: "drain_page x ?st = Some (of_nat (length (remote_slots (As x))), set_page x p (?st\<lparr>mem := m\<rparr>))"
      "drain_frame p (pages ?st x)" "pages_rep cfg (set_page x p (?st\<lparr>mem := m\<rparr>)) Y (As(x := abs_drain (As x)))"
    by blast
  have eq: "set_page x p (?st\<lparr>mem := m\<rparr>) = st\<lparr>mem := m, pages := (pages st)(x := p)\<rparr>"
    by (auto simp: set_page_def clear_links_def upd_pg_simps fun_eq_iff intro!: arg_cong [where f = "\<lambda>P. st\<lparr>mem := m, pages := P\<rparr>"])
  have "page_rel cfg (m, p) (abs_drain (As x))" using D(3) pr(2) by (auto simp: pages_rep_def)
  then have "pg_free_count p = pg_slot_count p \<longleftrightarrow> held_slots (As x) = {} \<and> ap_claimed (As x) = {}"
    using idle_iff by simp
  then show ?thesis using that [OF D(1) [unfolded eq] D(3) [unfolded eq]] D(2)
    by (simp add: drain_frame_def clear_links_pages)
qed

definition walk_pre :: "hz10_config \<Rightarrow> 'a class_state_scheme \<Rightarrow> addr \<Rightarrow> addr list \<Rightarrow> Hz10PageSublist \<Rightarrow> addr list \<Rightarrow>
    (addr \<Rightarrow> abs_page) \<Rightarrow> bool" where
  "walk_pre cfg st h xs sv ys As \<longleftrightarrow> chain (\<lambda>a. pg_next_in_owner_list (pages st a)) h xs \<and> dll (pages st) sv ys \<and>
     set xs \<inter> set ys = {} \<and> length ys + length xs < 4294967296 \<and> pages_rep cfg st (set xs \<union> set ys) As"

lemma walk_pre_links:
  assumes "walk_pre cfg st h (x # xs) sv ys As" "\<And>a. a \<in> set xs \<union> set ys \<Longrightarrow> P a = pages st a"
  shows "chain (\<lambda>a. pg_next_in_owner_list (P a)) (pg_next_in_owner_list (pages st x)) xs" "dll P sv ys"
    "x \<noteq> 0" "h = x" "x \<notin> set xs" "x \<notin> set ys" "length ys < 4294967295"
proof -
  have c: "chain (\<lambda>a. pg_next_in_owner_list (pages st a)) h (x # xs)" and d: "dll (pages st) sv ys"
    and o: "set (x # xs) \<inter> set ys = {}" "length ys + length (x # xs) < 4294967296"
    using assms(1) by (simp_all add: walk_pre_def)
  show "x \<noteq> 0" "h = x" "x \<notin> set xs" "x \<notin> set ys" "length ys < 4294967295"
    using c o chain_hd_notin_tl [OF c] by auto
  have "chain (\<lambda>a. pg_next_in_owner_list (P a)) k xs = chain (\<lambda>a. pg_next_in_owner_list (pages st a)) k xs" for k
    by (rule chain_cong) (use assms(2) in simp)
  then show "chain (\<lambda>a. pg_next_in_owner_list (P a)) (pg_next_in_owner_list (pages st x)) xs" using c by simp
  have "dll P sv ys \<longleftrightarrow> dll (pages st) sv ys" by (rule dll_cong) (use assms(2) in simp)
  then show "dll P sv ys" using d by simp
qed

text \<open>Keeping the page.\<close>

lemma walk_keep:
  assumes pre: "walk_pre cfg st h (x # xs) sv ys As"
    and st1: "st1 = st\<lparr>mem := m, pages := (pages st)(x := p)\<rparr>"
    and pr: "pages_rep cfg st1 (set (x # xs) \<union> set ys) As1" "\<And>y. y \<noteq> x \<Longrightarrow> As1 y = As y"
  obtains s st3 where "keep_survivor x sv st1 = (s, st3)"
    "walk_pre cfg st3 (pg_next_in_owner_list (pages st x)) xs s (ys @ [x]) As1"
    "\<And>y. y \<in> set xs \<Longrightarrow> survives r st3 As1 y = survives r st As y" "class_lists st3 = class_lists st"
proof -
  have n: "x \<notin> set xs" "x \<notin> set ys" using walk_pre_links(5,6) [OF pre, of "pages st"] by simp_all
  have P1: "pages st1 a = pages st a" if "a \<in> set xs \<union> set ys" for a using that n by (auto simp: st1)
  note L = walk_pre_links [OF pre P1]
  obtain s P where k: "hz10_public_entry_reclaim_keep_page x (sv, pages st1) = (s, P)" by force
  note K = keep_page_correct [OF L(2,3,6,7) k]
  let ?st3 = "st1\<lparr>pages := P\<rparr>"
  have x3: "pages ?st3 a = pages st a" if "a \<in> set xs" for a
  proof -
    have "a \<noteq> x" "a \<notin> set ys" using that pre n(1) by (auto simp: walk_pre_def)
    then show ?thesis using K(2) P1 that by simp
  qed
  have "chain (\<lambda>a. pg_next_in_owner_list (pages ?st3 a)) k xs = chain (\<lambda>a. pg_next_in_owner_list (pages st1 a)) k xs" for k
    by (rule chain_cong) (use x3 P1 in simp)
  moreover have "pages_rep cfg ?st3 (set (x # xs) \<union> set ys) As1"
    by (rule pages_rep_cong [OF pr(1)]) (use K(3) core_eq_links in simp_all)
  moreover have "set (x # xs) \<union> set ys = set xs \<union> set (ys @ [x])" by auto
  ultimately have "walk_pre cfg ?st3 (pg_next_in_owner_list (pages st x)) xs s (ys @ [x]) As1"
    using pre L(1,5) K(1) by (auto simp: walk_pre_def)
  moreover have "survives r ?st3 As1 y = survives r st As y" if "y \<in> set xs" for y
    using x3 [OF that] pr(2) [of y] that n(1) unfolding survives_def by metis
  ultimately show ?thesis using that [of s ?st3] k by (simp add: keep_survivor_def st1)
qed

text \<open>Destroying it.\<close>

lemma walk_destroy:
  assumes pre: "walk_pre cfg st h (x # xs) sv ys As"
    and st1: "st1 = st\<lparr>mem := m, pages := (pages st)(x := p)\<rparr>"
    and pr: "pages_rep cfg st1 (set (x # xs) \<union> set ys) As1" "\<And>y. y \<noteq> x \<Longrightarrow> As1 y = As y"
    and st2: "st2 = st1 \<or> st2 = set_page x (p\<lparr>pg_retired_ready_flag := 0\<rparr>) st1"
  defines "st3 \<equiv> hz10_pooled_page_destroy x st2"
  shows "walk_pre cfg st3 (pg_next_in_owner_list (pages st x)) xs sv ys As1"
    "\<And>y. y \<in> set xs \<Longrightarrow> survives r st3 As1 y = survives r st As y" "class_lists st3 = class_lists st"
proof -
  have n: "x \<notin> set xs" "x \<notin> set ys" using walk_pre_links(5,6) [OF pre, of "pages st"] by simp_all
  have P3: "pages st3 a = pages st a" if "a \<in> set xs \<union> set ys" for a
    using that n st2 by (auto simp: st3_def st1)
  note L = walk_pre_links [OF pre P3]
  let ?st = "set_page x (p\<lparr>pg_retired_ready_flag := 0\<rparr>) st1"
  have "page_rel cfg (mm, p\<lparr>pg_retired_ready_flag := 0\<rparr>) A \<longleftrightarrow> page_rel cfg (mm, p) A" for mm A
    by (rule page_rel_header_cong) simp_all
  moreover have "page_rel cfg (mem st1, pages st1 y) (As1 y)" if "y \<in> set (x # xs) \<union> set ys" for y
    using pr(1) that unfolding pages_rep_def by blast
  ultimately have "page_rel cfg (mem ?st, pages ?st y) (As1 y)" if "y \<in> set (x # xs) \<union> set ys" for y
    using that by (cases "y = x") (fastforce simp: st1 set_page_def)+
  moreover have "pg_base (pages ?st y) = pg_base (pages st1 y)" for y by (simp add: st1)
  ultimately have "pages_rep cfg ?st (set (x # xs) \<union> set ys) As1"
    using pr(1) unfolding pages_rep_def by simp
  then have "pages_rep cfg st2 (set (x # xs) \<union> set ys) As1" using pr(1) st2 by auto
  then have "pages_rep cfg st3 (set xs \<union> set ys) As1"
    unfolding st3_def by (rule destroy_pages) (use n in auto)
  then show "walk_pre cfg st3 (pg_next_in_owner_list (pages st x)) xs sv ys As1"
    using pre L(1,2) by (simp add: walk_pre_def)
  show "survives r st3 As1 y = survives r st As y" if "y \<in> set xs" for y
  proof -
    have "pages st3 y = pages st y" "As1 y = As y" using that n(1) P3 [of y] pr(2) [of y] by auto
    then show ?thesis by (simp add: survives_def)
  qed
  show "class_lists st3 = class_lists st" using st2 by (auto simp: st3_def st1 set_page_def)
qed

lemma reclaim_walk_correct:
  assumes "walk_pre cfg st h xs sv ys As"
  shows "\<exists>s' stats' st'. reclaim_walk r h sv stats st = Some (s', stats', st') \<and>
    dll (pages st') s' (ys @ filter (survives r st As) xs) \<and> class_lists st' = class_lists st \<and>
    rc_pages_seen stats' = rc_pages_seen stats + of_nat (length xs)"
  using assms
proof (induction xs arbitrary: st h sv ys As stats)
  case Nil
  then have "h = 0" by (simp add: walk_pre_def)
  then show ?case using Nil by (subst reclaim_walk.simps) (simp add: walk_pre_def)
next
  case (Cons x xs)
  note pre = Cons.prems
  have h: "h = x" "x \<noteq> 0" "x \<notin> set xs" using walk_pre_links(3-5) [OF pre, of "pages st"] by simp_all
  have pr: "pages_rep cfg st (set (x # xs) \<union> set ys) As" using pre by (simp add: walk_pre_def)
  obtain m p where D: "drain_page x (st\<lparr>pages := clear_links x (pages st)\<rparr>) = Some (of_nat (length (remote_slots (As x))),
       (st\<lparr>mem := m, pages := (pages st)(x := p)\<rparr>))"
    "pages_rep cfg (st\<lparr>mem := m, pages := (pages st)(x := p)\<rparr>) (set (x # xs) \<union> set ys) (As(x := abs_drain (As x)))"
    "pg_free_count p = pg_slot_count p \<longleftrightarrow> held_slots (As x) = {} \<and> ap_claimed (As x) = {}"
    "pg_retired_ready_on_stack p = pg_retired_ready_on_stack (pages st x)"
    "pg_retired_ready_flag p = pg_retired_ready_flag (pages st x)"
    by (rule walk_drain [OF pr, of x]) simp
  define st1 where "st1 = st\<lparr>mem := m, pages := (pages st)(x := p)\<rparr>"
  let ?As = "As(x := abs_drain (As x))" and ?nxt = "pg_next_in_owner_list (pages st x)"
  let ?k = "ucast (of_nat (length (remote_slots (As x))) :: u32) :: u64"
  define stats1 where "stats1 = stats\<lparr>rc_pages_seen := rc_pages_seen stats + 1, rc_slots_merged := rc_slots_merged stats + ?k\<rparr>"
  have p1: "pages st1 x = p" by (simp add: st1_def)
  have walk: "reclaim_walk r h sv stats st =
    (if \<not> page_idle x st1 then (case keep_survivor x sv st1 of (s, st3) \<Rightarrow>
         reclaim_walk r ?nxt s (stats1\<lparr>rc_pages_busy := rc_pages_busy stats1 + 1\<rparr>) st3)
     else if r \<and> pg_retired_ready_on_stack (pages st1 x) \<noteq> 0 then (case keep_survivor x sv st1 of (s, st3) \<Rightarrow>
         reclaim_walk r ?nxt s (stats1\<lparr>rc_pages_deferred_ready := rc_pages_deferred_ready stats1 + 1\<rparr>) st3)
     else (let (mine, st3) = (if r then hz10_retired_ready_cancel x st1 else (True, st1)) in
       if \<not> mine then (case keep_survivor x sv st3 of (s, st4) \<Rightarrow>
           reclaim_walk r ?nxt s (stats1\<lparr>rc_pages_deferred_cancel := rc_pages_deferred_cancel stats1 + 1\<rparr>) st4)
       else reclaim_walk r ?nxt sv (stats1\<lparr>rc_pages_reclaimed := rc_pages_reclaimed stats1 + 1\<rparr>)
              (hz10_pooled_page_destroy x st3)))"
    unfolding h(1) stats1_def using h(2) by (subst reclaim_walk.simps) (simp add: D(1) [folded st1_def] Let_def)
  have seen: "rc_pages_seen stats1 + of_nat n = rc_pages_seen stats + of_nat (Suc n)" for n
    by (simp add: stats1_def)
  have As: "\<And>y. y \<noteq> x \<Longrightarrow> ?As y = As y" by simp
  have next_IH: "\<exists>s' stats' st'. reclaim_walk r ?nxt sv3 stats3 st3 = Some (s', stats', st') \<and>
      dll (pages st') s' (ys3 @ filter (survives r st As) xs) \<and> class_lists st' = class_lists st \<and>
      rc_pages_seen stats' = rc_pages_seen stats + of_nat (length (x # xs))"
    if "walk_pre cfg st3 ?nxt xs sv3 ys3 ?As" "\<And>y. y \<in> set xs \<Longrightarrow> survives r st3 ?As y = survives r st As y"
      "class_lists st3 = class_lists st" "rc_pages_seen stats3 = rc_pages_seen stats1" for sv3 ys3 stats3 and st3 :: "'a class_state_scheme"
  proof -
    have "filter (survives r st3 ?As) xs = filter (survives r st As) xs" by (rule filter_cong) (use that(2) in auto)
    from Cons.IH [OF that(1), of stats3, unfolded this] show ?thesis using that(3,4) seen [of "length xs"] by simp
  qed
  have keep: "\<exists>s' stats' st'. (case keep_survivor x sv st1 of (s, st3) \<Rightarrow> reclaim_walk r ?nxt s stats3 st3) = Some (s', stats', st') \<and>
      dll (pages st') s' (ys @ x # filter (survives r st As) xs) \<and> class_lists st' = class_lists st \<and>
      rc_pages_seen stats' = rc_pages_seen stats + of_nat (length (x # xs))"
    if "rc_pages_seen stats3 = rc_pages_seen stats1" for stats3
  proof -
    obtain s st3 where K: "keep_survivor x sv st1 = (s, st3)" "walk_pre cfg st3 ?nxt xs s (ys @ [x]) ?As"
      "\<And>y. y \<in> set xs \<Longrightarrow> survives r st3 ?As y = survives r st As y" "class_lists st3 = class_lists st"
      by (rule walk_keep [OF pre st1_def D(2) [folded st1_def] As, where r = r], assumption) (rule that; assumption)
    from next_IH [OF K(2-4) that] show ?thesis using K(1) by simp
  qed
  show ?case
  proof (cases "page_idle x st1 \<and> \<not> (r \<and> pg_retired_ready_on_stack (pages st1 x) \<noteq> 0) \<and>
      \<not> (r \<and> pg_retired_ready_flag (pages st1 x) \<noteq> 1)")
    case False
    then have sv: "survives r st As x" using D(3-5) p1 by (auto simp: survives_def)
    have "\<exists>stats3. rc_pages_seen stats3 = rc_pages_seen stats1 \<and>
        reclaim_walk r h sv stats st = (case keep_survivor x sv st1 of (s, st3) \<Rightarrow> reclaim_walk r ?nxt s stats3 st3)"
      using False unfolding walk by (auto simp: hz10_retired_ready_cancel_def Let_def intro: exI [of _ "stats1\<lparr>rc_pages_busy := rc_pages_busy stats1 + 1\<rparr>"]
        exI [of _ "stats1\<lparr>rc_pages_deferred_ready := rc_pages_deferred_ready stats1 + 1\<rparr>"]
        exI [of _ "stats1\<lparr>rc_pages_deferred_cancel := rc_pages_deferred_cancel stats1 + 1\<rparr>"])
    then show ?thesis using keep sv by auto
  next
    case True
    then have sv: "\<not> survives r st As x" using D(3-5) p1 by (auto simp: survives_def)
    obtain st2 where st2: "st2 = st1 \<or> st2 = set_page x (p\<lparr>pg_retired_ready_flag := 0\<rparr>) st1"
      "reclaim_walk r h sv stats st = reclaim_walk r ?nxt sv (stats1\<lparr>rc_pages_reclaimed := rc_pages_reclaimed stats1 + 1\<rparr>)
              (hz10_pooled_page_destroy x st2)"
      using True p1 unfolding walk by (cases r) (auto simp: hz10_retired_ready_cancel_def Let_def)
    note W = walk_destroy [OF pre st1_def D(2) [folded st1_def] As st2(1)]
    from next_IH [OF W, of "stats1\<lparr>rc_pages_reclaimed := rc_pages_reclaimed stats1 + 1\<rparr>"] show ?thesis using st2(2) sv by simp
  qed
qed

section \<open>Properties\<close>

lemma class_list_dll:
  "dll P (if r then cl_retired c else cl_active c) xs \<Longrightarrow>
     chain (\<lambda>a. pg_next_in_owner_list (P a)) (sl_head (if r then cl_retired c else cl_active c)) xs"
  by (simp add: dll_def)

text \<open>C13: The quiescent flush of a list of a class always returns, whatever the list and the state of
  its pages: it has looked at every page once, and the list that is left is exactly the pages that
  cannot be given back (something on them is in use, or, for retired pages, the ready stack holds
  them or their mark is gone), in their order.\<close>

theorem reclaim_list_correct:
  assumes "dll (pages st) (if r then cl_retired (class_lists st l) else cl_active (class_lists st l)) xs"
    and "pages_rep cfg st (set xs) As"
  shows "\<exists>stats' st'. hz10_public_entry_reclaim_sublist_idle_pages r l stats st = Some (stats', st') \<and>
    dll (pages st') (if r then cl_retired (class_lists st' l) else cl_active (class_lists st' l))
      (filter (survives r st As) xs) \<and>
    rc_pages_seen stats' = rc_pages_seen stats + of_nat (length xs)"
proof -
  let ?sub = "if r then cl_retired (class_lists st l) else cl_active (class_lists st l)"
  have "length xs < 4294967296" using assms(1) unsigned_less [of "sl_length ?sub", where 'a = nat] by (simp add: dll_def)
  then have "walk_pre cfg st (sl_head ?sub) xs empty_sublist [] As"
    using assms class_list_dll [OF assms(1)] by (simp add: walk_pre_def)
  from reclaim_walk_correct [OF this, of r stats] obtain s' stats' st' where
    W: "reclaim_walk r (sl_head ?sub) empty_sublist stats st = Some (s', stats', st')"
      "dll (pages st') s' (filter (survives r st As) xs)" "rc_pages_seen stats' = rc_pages_seen stats + of_nat (length xs)"
    by auto
  then show ?thesis
    by (cases r) (simp_all add: hz10_public_entry_reclaim_sublist_idle_pages_def Let_def upd_list_def)
qed

theorem reclaim_list_correct_witness:
  "\<exists>stats' st'. hz10_public_entry_reclaim_sublist_idle_pages False 0x7000 zero_reclaim_stats example_class = Some (stats', st') \<and>
     cl_active (class_lists st' 0x7000) = empty_sublist"
proof -
  have d: "dll (pages example_class) (if False then cl_retired (class_lists example_class 0x7000)
      else cl_active (class_lists example_class 0x7000)) [0x1000]"
    using class_repD(1) [OF example_class_rep] by simp
  have "pages_rep default_config example_class (set [0x1000]) (\<lambda>_. fresh_abs default_config 4)"
    using example_class_page by (simp add: pages_rep_def)
  from reclaim_list_correct [OF d this, of zero_reclaim_stats]
  obtain stats' st' where R: "hz10_public_entry_reclaim_sublist_idle_pages False 0x7000 zero_reclaim_stats example_class = Some (stats', st')"
    "dll (pages st') (cl_active (class_lists st' 0x7000)) (filter (survives False example_class (\<lambda>_. fresh_abs default_config 4)) [0x1000])"
    by auto
  have "\<not> survives False example_class (\<lambda>_. fresh_abs default_config 4) 0x1000"
    by (auto simp: survives_def fresh_abs_def held_slots_def default_config_def)
  then have "dll (pages st') (cl_active (class_lists st' 0x7000)) []" using R(2) by simp
  then have "cl_active (class_lists st' 0x7000) = empty_sublist"
    by (auto simp: dll_def empty_sublist_def unat_eq_zero intro: Hz10PageSublist.equality)
  then show ?thesis using R(1) by blast
qed

end
