(* ===== verification/Hz10_Large_Correct.thy ===== *)
theory Hz10_Large_Correct
  imports Hz10_Large_Alloc
begin

text \<open>
  The large allocations: the trimmed mapping is aligned and exactly as long as the rounded request,
  every byte of it is mapped and zero, the pointer routes as a large block and, after the free, as
  nothing.
\<close>

section \<open>The over-reserve and trim\<close>

text \<open>The next answer of \<open>mmap\<close> is an address whose block does not run over the top of memory.\<close>

definition large_map_fits :: "u64 \<Rightarrow> 'a platform_state_scheme \<Rightarrow> bool" where
  "large_map_fits n st \<longleftrightarrow>
     (\<forall>r rest. os_maps st = r # rest \<longrightarrow> unat r + unat n + 65536 \<le> 18446744073709551616)"

lemma large_trim:
  fixes r n :: u64
  assumes "unat r + unat n + 65536 \<le> 18446744073709551616" "r \<noteq> 0"
  defines "a \<equiv> (r + 65535) AND NOT 65535"
  defines "h \<equiv> a - r"
  shows "unat a = unat r + unat h" "unat h < 65536" "unat a mod 65536 = 0" "a \<noteq> 0"
    "unat (n + 65536 - h - n) = 65536 - unat h"
proof -
  have s: "unat (r + 65535) = unat r + 65535"
    using unat_add_no_wrap [of r "65535 :: u64"] assms(1) by simp
  have ua: "unat a = unat r + 65535 - (unat r + 65535) mod 65536"
    unfolding a_def by (simp only: unat_align_down s)
  have le: "unat r \<le> unat a" "unat a < unat r + 65536"
    using ua mod_less_divisor [of 65536 "unat r + 65535"] by linarith+
  then have uh: "unat h = unat a - unat r"
    unfolding h_def by (simp add: unat_sub word_le_nat_alt)
  show "unat a = unat r + unat h" "unat h < 65536" using le uh by linarith+
  have "\<And>x::nat. (x - x mod 65536) mod 65536 = 0" by (metis minus_mod_self2 mod_mod_trivial modulo_nat_def diff_mult_distrib mod_mult_self1_is_0 minus_mod_eq_div_mult mod_mult_self2_is_0)
  then show "unat a mod 65536 = 0" using ua by simp
  show "a \<noteq> 0" using le(1) assms(2) by (metis le_zero_eq unat_eq_zero unat_0)
  have "n + 65536 - h - n = 65536 - h" by simp
  moreover have "unat (65536 - h :: u64) = 65536 - unat h"
    using \<open>unat h < 65536\<close> by (subst unat_sub) (simp_all add: word_le_nat_alt)
  ultimately show "unat (n + 65536 - h - n) = 65536 - unat h" by simp
qed

lemma large_reserve_cases:
  assumes "large_map_fits n st" "n \<noteq> 0"
  obtains (fail) rest where "hz10_large_reserve_aligned n st = (0, st\<lparr>os_maps := rest\<rparr>)"
  | (ok) r rest b tr where "os_maps st = r # rest" "r \<noteq> 0" "b \<noteq> 0" "unat b mod 65536 = 0"
      "unat b + unat n \<le> 18446744073709551616"
      "hz10_large_reserve_aligned n st = (b, st\<lparr>os_maps := rest, os_trace := tr,
         mem := (\<lambda>a. if in_range r (n + 65536) a then 0 else mem st a)\<rparr>)"
      "\<And>a. in_range b n a \<Longrightarrow> in_range r (n + 65536) a"
      "\<And>a. os_mapped tr a \<longleftrightarrow> in_range b n a \<or> (\<not> in_range r (n + 65536) a \<and> os_mapped (os_trace st) a)"
proof (cases rule: reserve_rw_cases [of "n + 65536" st])
  case (fail rest)
  then show ?thesis by (intro that(1)) (simp add: hz10_large_reserve_aligned_def)
next
  case (ok r rest)
  let ?a = "(r + 65535) AND NOT 65535 :: u64"
  let ?h = "?a - r" and ?t = "n + 65536 - (?a - r) - n"
  let ?st1 = "st\<lparr>os_maps := rest, os_trace := Mapped r (n + 65536) # os_trace st,
               mem := (\<lambda>a. if in_range r (n + 65536) a then 0 else mem st a)\<rparr>"
  let ?st2 = "if ?h > 0 then hz10_platform_release r ?h ?st1 else ?st1"
  let ?st3 = "if ?t > 0 then hz10_platform_release (?a + n) ?t ?st2 else ?st2"
  have fits: "unat r + unat n + 65536 \<le> 18446744073709551616" using assms(1) ok by (auto simp: large_map_fits_def)
  note T = large_trim [OF fits ok(1)]
  have res: "hz10_large_reserve_aligned n st = (?a, ?st3)"
    unfolding hz10_large_reserve_aligned_def Let_def ok(3) prod.case using ok(1) by (simp add: hz10_large_reserve_aligned_def Let_def)
  have nb: "unat (n + 65536) = unat n + 65536"
  proof -
    have "0 < unat r" using ok(1) by (simp add: unat_gt_0)
    then have "unat n + unat (65536 :: u64) < 18446744073709551616" using fits by simp
    then show ?thesis using unat_add_no_wrap [of n 65536] by simp
  qed
  have "unat ?a + unat n < 18446744073709551616" using fits T(1,2) by linarith
  then have uan: "unat (?a + n) = unat ?a + unat n" by (intro unat_add_no_wrap) simp
  have n0: "unat n \<noteq> 0" "?a + n \<noteq> 0" using assms(2) uan unat_eq_zero by (metis add_is_0)+
  have R: "in_range r (n + 65536) a \<longleftrightarrow> unat r \<le> unat a \<and> unat a < unat r + unat n + 65536" for a
    by (subst in_range_iff) (use fits nb in \<open>auto simp: algebra_simps\<close>)
  have H: "in_range r ?h a \<longleftrightarrow> unat r \<le> unat a \<and> unat a < unat ?a" for a
    by (subst in_range_iff) (use fits T in linarith)+
  have L: "in_range (?a + n) ?t a \<longleftrightarrow> unat ?a + unat n \<le> unat a \<and> unat a < unat r + unat n + 65536" for a
    by (subst in_range_iff) (use fits T uan in linarith)+
  have K: "in_range ?a n a \<longleftrightarrow> unat ?a \<le> unat a \<and> unat a < unat ?a + unat n" for a
    by (rule in_range_iff) (use fits T in linarith)
  have st2: "os_mapped (os_trace ?st2) a \<longleftrightarrow> \<not> in_range r ?h a \<and> os_mapped (os_trace ?st1) a" for a
    by (rule trim_mapped [OF ok(1)])
  have mapped: "os_mapped (os_trace ?st3) a \<longleftrightarrow> in_range ?a n a \<or>
      (\<not> in_range r (n + 65536) a \<and> os_mapped (os_trace st) a)" for a
  proof -
    have "os_mapped (os_trace ?st3) a \<longleftrightarrow> \<not> in_range (?a + n) ?t a \<and> \<not> in_range r ?h a \<and>
       (in_range r (n + 65536) a \<or> os_mapped (os_trace st) a)"
      by (simp only: trim_mapped [OF n0(2)] st2) simp
    then show ?thesis unfolding R H L K using T(1,2) by linarith
  qed
  have sub: "in_range r (n + 65536) a" if "in_range ?a n a" for a
    using that T(1,2) unfolding R K by linarith
  have b: "unat ?a + unat n \<le> 18446744073709551616" using fits T by linarith
  have eq: "?st3 = st\<lparr>os_maps := rest, os_trace := os_trace ?st3,
         mem := (\<lambda>a. if in_range r (n + 65536) a then 0 else mem st a)\<rparr>"
    by (simp add: hz10_platform_release_def)
  have "hz10_large_reserve_aligned n st = (?a, st\<lparr>os_maps := rest, os_trace := os_trace ?st3,
         mem := (\<lambda>a. if in_range r (n + 65536) a then 0 else mem st a)\<rparr>)"
    unfolding res by (rule arg_cong [OF eq])
  then show ?thesis by (rule that(2) [OF ok(2,1) T(4,3) b _ sub mapped])
qed

text \<open>The rounding, for the sizes that pass the first two checks of \<open>hz10_large_alloc\<close>.\<close>

lemma large_rounded:
  assumes "sz \<noteq> 0" "sz \<le> SIZE_MAX - HZ10_PAGE_QUANTUM"
  shows "unat (hz10_large_rounded sz) = (unat sz + 65535) div 65536 * 65536"
    "unat sz \<le> unat (hz10_large_rounded sz)" "unat (hz10_large_rounded sz) < unat sz + 65536"
    "hz10_large_rounded sz \<noteq> 0"
proof -
  have le: "unat sz \<le> 18446744073709486079" using assms(2) by (simp add: word_le_nat_alt)
  have e: "sz + 65536 - 1 = sz + 65535" by simp
  have "unat sz + unat (65535 :: u64) < 18446744073709551616" using le by simp
  then have "unat (sz + 65535) = unat sz + unat (65535 :: u64)" by (intro unat_add_no_wrap) simp
  then have s: "unat (sz + 65536 - 1) = unat sz + 65535" by (simp only: e) simp
  have d: "(unat sz + 65535) div 65536 * 65536 \<le> unat sz + 65535" by simp
  have "unat (hz10_large_rounded sz) = (unat sz + 65535) div 65536 * 65536 mod 18446744073709551616"
    by (simp only: hz10_large_rounded_def unat_word_ariths unat_div s) (simp add: mod_mult_left_eq)
  then show *: "unat (hz10_large_rounded sz) = (unat sz + 65535) div 65536 * 65536"
    using d le by simp
  have "unat sz + 65535 = (unat sz + 65535) div 65536 * 65536 + (unat sz + 65535) mod 65536" by simp
  then show ge: "unat sz \<le> unat (hz10_large_rounded sz)" "unat (hz10_large_rounded sz) < unat sz + 65536"
    using * mod_less_divisor [of 65536 "unat sz + 65535"] by linarith+
  show "hz10_large_rounded sz \<noteq> 0" using ge(1) assms(1) by (metis le_zero_eq unat_0 unat_eq_zero)
qed

text \<open>A registration may map a leaf, but unmaps nothing and writes only zeros.\<close>

lemma register_os:
  assumes "st' = snd (hz10_pagemap_register_with_owner_and_flags b s n ow fl st)"
  shows "os_mapped (os_trace st) a \<Longrightarrow> os_mapped (os_trace st') a" "mem st a = 0 \<Longrightarrow> mem st' a = 0"
proof -
  let ?i = "hz10_pagemap_root_index (hz10_pagemap_page_index b)"
  have "(os_trace st', mem st') \<in> {(os_trace st, mem st),
      (os_trace (snd (hz10_pagemap_ensure_leaf ?i st)), mem (snd (hz10_pagemap_ensure_leaf ?i st)))}"
    unfolding assms by (auto simp: hz10_pagemap_register_with_owner_and_flags_def Let_def split: prod.splits option.splits)
  moreover have "(os_mapped (os_trace st) a \<longrightarrow> os_mapped (os_trace (snd (hz10_pagemap_ensure_leaf ?i st))) a) \<and>
      (mem st a = 0 \<longrightarrow> mem (snd (hz10_pagemap_ensure_leaf ?i st)) a = 0)"
    by (cases rule: ensure_leaf_cases [of ?i st]) auto
  ultimately show "os_mapped (os_trace st) a \<Longrightarrow> os_mapped (os_trace st') a" "mem st a = 0 \<Longrightarrow> mem st' a = 0"
    by auto
qed

text \<open>The shape of an attempt: refused outright, no mapping, no registration, or a block.\<close>

lemma large_alloc_cases:
  assumes n_def: "n = hz10_large_rounded sz" and "large_map_fits n st"
  obtains (refused) "sz = 0 \<or> sz > SIZE_MAX - HZ10_PAGE_QUANTUM \<or> n > 0xffffffff" "hz10_large_alloc sz st = (0, st)"
  | (unmapped) rest where "hz10_large_alloc sz st = (0, st\<lparr>os_maps := rest\<rparr>)"
  | (unregistered) r b st1 st2 where "hz10_large_alloc sz st = (0, hz10_platform_release b n st2)"
      "hz10_pagemap_register_with_owner_and_flags b (ucast n) 1 0 HZ10_PAGEMAP_FLAG_LARGE st1 = (0, st2)"
      "b \<noteq> 0" "n \<noteq> 0"
      "\<And>a. os_mapped (os_trace st1) a \<longleftrightarrow> in_range b n a \<or> (\<not> in_range r (n + 65536) a \<and> os_mapped (os_trace st) a)"
  | (block) b g st1 st' where "hz10_large_alloc sz st = (b, st')" "b \<noteq> 0" "g \<noteq> 0" "unat b mod 65536 = 0"
      "sz \<noteq> 0" "sz \<le> SIZE_MAX - HZ10_PAGE_QUANTUM" "n \<le> 0xffffffff"
      "hz10_pagemap_register_with_owner_and_flags b (ucast n) 1 0 HZ10_PAGEMAP_FLAG_LARGE st1 = (g, st')"
      "\<And>a. in_range b n a \<Longrightarrow> os_mapped (os_trace st1) a \<and> mem st1 a = 0"
proof (cases "sz = 0 \<or> sz > SIZE_MAX - HZ10_PAGE_QUANTUM \<or> n > 0xffffffff")
  case True
  moreover from this have "hz10_large_alloc sz st = (0, st)" by (auto simp: hz10_large_alloc_def Let_def n_def)
  ultimately show ?thesis by (rule refused)
next
  case False
  then have sz: "sz \<noteq> 0" "sz \<le> SIZE_MAX - HZ10_PAGE_QUANTUM" "n \<le> 0xffffffff" by auto
  have n0: "n \<noteq> 0" using large_rounded(4) [OF sz(1,2)] by (simp add: n_def)
  have al: "hz10_large_alloc sz st = (let (base, st1) = hz10_large_reserve_aligned n st in
         if base = 0 then (0, st1)
         else
           let (g, st2) = hz10_pagemap_register_with_owner_and_flags base (ucast n) 1 0 HZ10_PAGEMAP_FLAG_LARGE st1 in
           if g = 0 then (0, hz10_platform_release base n st2) else (base, st2))"
    using False unfolding n_def by (simp add: hz10_large_alloc_def Let_def)
  show ?thesis
    using assms(2) n0
  proof (cases rule: large_reserve_cases)
    case (fail rest)
    then show ?thesis using al by (intro unmapped) simp
  next
    case (ok r rest b tr)
    let ?st1 = "st\<lparr>os_maps := rest, os_trace := tr,
         mem := (\<lambda>a. if in_range r (n + 65536) a then 0 else mem st a)\<rparr>"
    obtain g st2 where rg: "hz10_pagemap_register_with_owner_and_flags b (ucast n) 1 0 HZ10_PAGEMAP_FLAG_LARGE ?st1 = (g, st2)"
      by force
    show ?thesis
    proof (cases "g = 0")
      case True
      then have "hz10_large_alloc sz st = (0, hz10_platform_release b n st2)" using al ok(3,6) rg by simp
      then show ?thesis
        by (rule unregistered [OF _ rg [unfolded True] ok(3) n0]) (simp add: ok(8))
    next
      case g: False
      then have "hz10_large_alloc sz st = (b, st2)" using al ok(3,6) rg by simp
      then show ?thesis by (rule block [OF _ ok(3) g ok(4) sz rg]) (simp add: ok(7,8))
    qed
  qed
qed

lemma register_zero_os:
  assumes "hz10_pagemap_register_with_owner_and_flags b s n ow fl st = (0, st')"
  shows "os_trace st' = os_trace st"
  by (cases rule: ensure_leaf_cases [of "hz10_pagemap_root_index (hz10_pagemap_page_index b)" st])
    (use assms in \<open>auto simp: hz10_pagemap_register_with_owner_and_flags_def Let_def zero_record_def split: if_splits\<close>)

section \<open>Properties\<close>

text \<open>C17: A large allocation that succeeds returns an aligned block of the request rounded up to
  whole quanta: every byte of it is mapped, every word of it is zero, and the pointer routes as the
  only slot of a large page that no thread owns.\<close>

theorem large_alloc_correct:
  assumes "hz10_large_alloc sz st = (p, st')" "p \<noteq> 0" "large_map_fits (hz10_large_rounded sz) st"
    and "n = hz10_large_rounded sz"
  shows "unat p mod 65536 = 0 \<and> unat n = (unat sz + 65535) div 65536 * 65536 \<and>
    (\<forall>a. in_range p n a \<longrightarrow> os_mapped (os_trace st') a \<and> mem st' a = 0) \<and>
    (\<exists>g. g \<noteq> 0 \<and> hz10_pagemap_route p HZ10_GENERATION_ANY st' =
       hz10_pagemap_result H10_ROUTE_VALID H10_REASON_NONE p (ucast n) 1 0 g 0 HZ10_PAGEMAP_FLAG_LARGE)"
  using assms(4) assms(3) [folded assms(4)]
proof (cases rule: large_alloc_cases)
  case (block b g st1 st2)
  then have eq: "b = p" "st2 = st'" using assms(1) by auto
  note R = large_rounded [OF block(5,6), folded assms(4)]
  have un: "unat (ucast n :: u32) = unat n"
    using block(7) assms(4) by (simp add: unsigned_ucast_eq take_bit_eq_mod word_le_nat_alt)
  have "unat n mod 65536 = 0" using R(1) by simp
  then have "unat n mod 16 = 0" using mod_mod_cancel [of 16 65536 "unat n"] by simp
  then have m: "unat (ucast n :: u32) mod 16 = 0" by (simp only: un)
  have "os_mapped (os_trace st') a \<and> mem st' a = 0" if "in_range p n a" for a
    using register_os [of st' b "ucast n" 1 0 1 st1 a] block(8) block(9) [of a] that eq
    by simp
  then show ?thesis
    using registered_route [OF block(8) block(3) m, of 0 0] block(3,4) R(1) eq by auto
qed (use assms in auto)

definition example_large :: pagemap_state where
  "example_large = \<lparr>mem = (\<lambda>_. 0), os_maps = [0x12345000, 0x7f0000000000], os_clock = [], os_trace = [],
     hz10_pagemap_root = (\<lambda>_. None)\<rparr>"

theorem large_alloc_correct_witness:
  "\<exists>p st'. hz10_large_alloc 100000 example_large = (p, st') \<and> p \<noteq> 0 \<and> unat p mod 65536 = 0"
proof -
  have "fst (hz10_large_alloc 100000 example_large) \<noteq> 0" by code_simp
  moreover have "hz10_large_rounded 100000 = 131072" by code_simp
  then have "large_map_fits (hz10_large_rounded 100000) example_large"
    by (simp add: large_map_fits_def example_large_def)
  ultimately show ?thesis using large_alloc_correct [of 100000 example_large, OF prod.collapse [symmetric] _ _ refl]
    by (metis prod.collapse)
qed

text \<open>A large allocation that fails, because the size is refused, the system has no memory or
  the page map cannot take the block, leaves nothing mapped that was not mapped before.\<close>

theorem large_alloc_failure:
  assumes "hz10_large_alloc sz st = (0, st')" "large_map_fits (hz10_large_rounded sz) st"
    and "os_mapped (os_trace st') a"
  shows "os_mapped (os_trace st) a"
  using refl assms(2)
proof (cases rule: large_alloc_cases)
  case (unregistered r b st1 st2)
  let ?n = "hz10_large_rounded sz"
  have "os_mapped (Unmapped b ?n # os_trace st1) a"
    using assms(1,3) unregistered(1) register_zero_os [OF unregistered(2)] release_trace [OF unregistered(3,4), of st2]
    by simp
  then show ?thesis using unregistered(5) by auto
qed (use assms in auto)

theorem large_alloc_failure_witness:
  "fst (hz10_large_alloc 100000 (example_large\<lparr>os_maps := [0x12345000]\<rparr>)) = 0 \<and>
   \<not> os_mapped (os_trace (snd (hz10_large_alloc 100000 (example_large\<lparr>os_maps := [0x12345000]\<rparr>)))) 0x12350000"
proof -
  let ?st = "example_large\<lparr>os_maps := [0x12345000]\<rparr>"
  have z: "fst (hz10_large_alloc 100000 ?st) = 0" by code_simp
  have "hz10_large_rounded 100000 = 131072" by code_simp
  then have "large_map_fits (hz10_large_rounded 100000) ?st"
    by (simp add: large_map_fits_def example_large_def)
  from large_alloc_failure [OF _ this, of "snd (hz10_large_alloc 100000 ?st)" "0x12350000"] z
  show ?thesis by (auto simp: prod_eq_iff example_large_def)
qed

text \<open>Freeing a large block through the size its route reports unmaps every byte of it, makes
  the pointer a miss at every generation, and changes no record of another address.\<close>

theorem large_free_correct:
  assumes "rr_kind (hz10_pagemap_route p HZ10_GENERATION_ANY st) = H10_ROUTE_VALID"
    and "rr_page_base (hz10_pagemap_route p HZ10_GENERATION_ANY st) = p" "unat p mod 65536 = 0"
    and "st' = hz10_large_free p (rr_slot_size (hz10_pagemap_route p HZ10_GENERATION_ANY st)) st"
  shows "rr_kind (hz10_pagemap_route p g st') = H10_ROUTE_MISS \<and>
    (\<forall>a. in_range p (ucast (rr_slot_size (hz10_pagemap_route p HZ10_GENERATION_ANY st))) a \<longrightarrow> \<not> os_mapped (os_trace st') a) \<and>
    (\<forall>a. pm_key a \<noteq> pm_key p \<longrightarrow> pm_record st' a = pm_record st a)"
proof -
  let ?r = "hz10_pagemap_route p HZ10_GENERATION_ANY st"
  let ?n = "ucast (rr_slot_size ?r) :: u64"
  note V = route_valid_record [OF assms(1)]
  have p: "p \<noteq> 0" using assms(1) by (auto simp: route_kind)
  have rec: "rec_base (pm_record st p) = p" "rec_slot_size (pm_record st p) \<noteq> 0"
    using V(1,2) assms(2) by (auto simp: is_slot_def)
  have n: "?n \<noteq> 0" using rec(2) V(4) by (simp add: word_unat_eq_iff)
  show ?thesis
  proof (cases rule: release_cases [of p st])
    case missing
    then show ?thesis using rec p assms(3) by blast
  next
    case (cleared st1)
    have st': "st' = hz10_platform_release p ?n st1" using assms(4) p cleared(1) by (simp add: hz10_large_free_def)
    have rt: "hz10_pagemap_root st' = hz10_pagemap_root st1" by (simp add: st' hz10_platform_release_def)
    have "rr_kind (hz10_pagemap_route p g st') = H10_ROUTE_MISS"
      using cleared(6) [of p] pm_record_root [OF rt] by (simp add: route_kind route_record_miss)
    moreover have "os_trace st' = Unmapped p ?n # os_trace st1" unfolding st' by (rule release_trace [OF p n])
    moreover have "pm_record st' a = pm_record st a" if "pm_key a \<noteq> pm_key p" for a
      using cleared(6) [of a] that pm_record_root [OF rt] by simp
    ultimately show ?thesis by simp
  qed
qed

theorem large_free_correct_witness:
  "let st = snd (hz10_large_alloc 100000 example_large) in
   rr_kind (hz10_pagemap_route 0x12350000 0 st) = H10_ROUTE_VALID \<and>
   rr_kind (hz10_pagemap_route 0x12350000 0
     (hz10_large_free 0x12350000 (rr_slot_size (hz10_pagemap_route 0x12350000 0 st)) st)) = H10_ROUTE_MISS"
proof -
  let ?st = "snd (hz10_large_alloc 100000 example_large)"
  have "rr_kind (hz10_pagemap_route 0x12350000 0 ?st) = H10_ROUTE_VALID"
    "rr_page_base (hz10_pagemap_route 0x12350000 0 ?st) = 0x12350000" by code_simp+
  then show ?thesis using large_free_correct [of "0x12350000" ?st] by (simp add: Let_def)
qed

end
