(* ===== verification/Hz10_Public_Entry_Correct.thy ===== *)
theory Hz10_Public_Entry_Correct
  imports Hz10_Public_Entry
begin

text \<open>
  \<open>malloc\<close> and \<open>free\<close> end to end: what the page map, the size classes and the page say together
  about a pointer. A page is live when its header represents an abstract page and its map record
  describes it.
\<close>

section \<open>Live pages\<close>

definition live_page :: "hz10_config \<Rightarrow> 'a page_heap_state_scheme \<Rightarrow> addr \<Rightarrow> abs_page \<Rightarrow> bool" where
  "live_page cfg st pg A \<longleftrightarrow> (let p = pages st pg in
     pg \<noteq> 0 \<and> page_rel cfg (mem st, p) A \<and> pg_generation p \<noteq> 0 \<and>
     pm_record st (pg_base p) = \<lparr>rec_base = pg_base p, rec_owner = pg, rec_slot_size = pg_slot_size p,
       rec_slot_count = pg_slot_count p, rec_generation = pg_generation p, rec_flags = 0\<rparr>)"

lemma page_geom_reg_ok: "page_geom p \<Longrightarrow> reg_ok (pg_base p) (pg_slot_size p) (pg_slot_count p)"
  by (auto simp: page_geom_def reg_ok_def)

lemma live_slot:
  assumes "live_page cfg st pg A" "i < unat (pg_slot_count (pages st pg))"
  defines "p \<equiv> pages st pg"
  shows "slot p i \<noteq> 0" "pm_record st (slot p i) = \<lparr>rec_base = pg_base p, rec_owner = pg, rec_slot_size = pg_slot_size p,
       rec_slot_count = pg_slot_count p, rec_generation = pg_generation p, rec_flags = 0\<rparr>"
    "is_slot (pm_record st (slot p i)) (slot p i) i"
    "hz10_pagemap_route (slot p i) HZ10_GENERATION_ANY st =
       hz10_pagemap_result H10_ROUTE_VALID H10_REASON_NONE (pg_base p) (pg_slot_size p) (pg_slot_count p)
         (of_nat i) (pg_generation p) pg 0"
    "hz10_pagemap_route_local_fast (slot p i) st =
       Some \<lparr>rl_owner = pg, rl_slot_size = pg_slot_size p, rl_generation = pg_generation p, rl_flags = 0\<rparr>"
proof -
  have "page_rel cfg (mem st, p) A" "pg \<noteq> 0" and rec: "pm_record st (pg_base p) = \<lparr>rec_base = pg_base p,
      rec_owner = pg, rec_slot_size = pg_slot_size p, rec_slot_count = pg_slot_count p,
      rec_generation = pg_generation p, rec_flags = 0\<rparr>"
    using assms(1) by (auto simp: live_page_def p_def Let_def)
  then have g: "page_geom p" by (auto dest: page_relD(1))
  have i: "i < unat (pg_slot_count p)" using assms(2) by (simp add: p_def)
  have "unat (pg_slot_size p) mod 16 = 0" using g by (simp add: page_geom_def)
  note S = is_slot_registered [OF page_geom_reg_ok [OF g] this i, of "pm_record st (pg_base p)"]
  show nn: "slot p i \<noteq> 0" using S(3) rec by simp
  show r: "pm_record st (slot p i) = \<lparr>rec_base = pg_base p, rec_owner = pg, rec_slot_size = pg_slot_size p,
       rec_slot_count = pg_slot_count p, rec_generation = pg_generation p, rec_flags = 0\<rparr>"
    using pm_record_key [OF S(2), of st] rec by simp
  show sl: "is_slot (pm_record st (slot p i)) (slot p i) i"
    using S(1) rec pm_record_key [OF S(2), of st] by simp
  have v: "rr_kind (hz10_pagemap_route (slot p i) 0 st) = H10_ROUTE_VALID"
    using sl nn by (auto simp: route_valid_iff)
  note V = route_valid_record [OF v]
  have ix: "rr_slot_index (hz10_pagemap_route (slot p i) 0 st) = of_nat i"
    using is_slot_unique [OF V(1) sl] by (simp add: word_unat_eq_iff unat_of_nat take_bit_nat_eq_self_iff less_trans [OF i unat_u32_lt])
  have rr: "hz10_pagemap_route (slot p i) 0 st = route_record (slot p i) 0 (pm_record st (slot p i))"
    by (rule route_eq_record) (use nn sl in \<open>simp_all add: is_slot_def\<close>)
  have nz: "pg_slot_size p \<noteq> 0" using sl r by (simp add: is_slot_def)
  show ro: "hz10_pagemap_route (slot p i) HZ10_GENERATION_ANY st =
       hz10_pagemap_result H10_ROUTE_VALID H10_REASON_NONE (pg_base p) (pg_slot_size p) (pg_slot_count p)
         (of_nat i) (pg_generation p) pg 0"
    using v ix nz unfolding rr r by (auto simp: route_record_def Let_def split: if_splits)
  show "hz10_pagemap_route_local_fast (slot p i) st =
       Some \<lparr>rl_owner = pg, rl_slot_size = pg_slot_size p, rl_generation = pg_generation p, rl_flags = 0\<rparr>"
    by (simp add: fast_route_eq ro hz10_pagemap_result_def)
qed

text \<open>Writes of the allocator inside the page keep it live; other pages are not looked at.\<close>

lemma pm_record_set_page [simp]: "pm_record (set_page pg p (st\<lparr>mem := m\<rparr>)) a = pm_record st a"
  by (simp add: pm_record_def set_page_def)

lemma live_page_set:
  assumes "live_page cfg st pg A" "page_rel cfg (m, p) A'" "pg_base p = pg_base (pages st pg)"
    "pg_slot_size p = pg_slot_size (pages st pg)" "pg_slot_count p = pg_slot_count (pages st pg)"
    "pg_generation p = pg_generation (pages st pg)"
  shows "live_page cfg (set_page pg p (st\<lparr>mem := m\<rparr>)) pg A'"
  using assms by (simp add: live_page_def Let_def) (simp add: set_page_def)

section \<open>An owner and its pages\<close>

text \<open>The thread owns the page: its owner's record is the page's token.\<close>

definition owns :: "nat \<Rightarrow> 'a owner_state_scheme \<Rightarrow> addr \<Rightarrow> bool" where
  "owns tid st pg \<longleftrightarrow> hz10_current_owner st tid \<noteq> 0 \<and>
     pg_owner_thread_token (pages st pg) = to_record (thread_owners st (hz10_current_owner st tid))"

lemma free_on_page_owner:
  "owns tid st pg \<Longrightarrow> free_on_page tid cfg pg ptr g st = hz10_public_entry_free_local_page tid cfg pg ptr st"
  by (simp add: owns_def free_on_page_def hz10_public_entry_current_owner_if_any_def
      hz10_public_entry_owner_record_def hz10_freelist_page_owner_thread_def)

lemma free_live:
  assumes "live_page cfg st pg A" "i < unat (pg_slot_count (pages st pg))"
  shows "hz10_free tid cfg (slot (pages st pg) i) st
    = free_on_page tid cfg pg (slot (pages st pg) i) (pg_generation (pages st pg)) st"
proof -
  have "pg \<noteq> 0" using assms(1) by (simp add: live_page_def Let_def)
  then show ?thesis using live_slot(1,5) [OF assms] by (simp add: hz10_free_def)
qed

text \<open>A page that is not retired: the note of a local free has nothing to do.\<close>

lemma note_local_free_skip:
  "pg_owner_list_kind (pages st page) \<noteq> HZ10_FREELIST_PAGE_OWNER_LIST_RETIRED \<Longrightarrow>
     hz10_public_entry_note_owner_local_free tid cfg c page st = Some st"
  by (simp add: hz10_public_entry_note_owner_local_free_def)

lemma freelist_free_header:
  "page_geom p \<Longrightarrow> snd (hz10_freelist_page_free a (m, p))
     = p\<lparr>pg_local_free_head := a, pg_free_count := pg_free_count p + 1\<rparr>"
  by (simp add: free_eq)

lemma freelist_alloc_header:
  fixes m p cfg
  defines "p' \<equiv> snd (snd (hz10_freelist_page_alloc cfg (m, p)))"
  shows "p' = p\<lparr>pg_local_free_head := pg_local_free_head p', pg_free_count := pg_free_count p',
    pg_bump_index := pg_bump_index p'\<rparr>"
  unfolding p'_def by (simp add: hz10_freelist_page_alloc_def Let_def)

lemma header_fields:
  assumes "p' = p\<lparr>pg_local_free_head := h, pg_free_count := f, pg_bump_index := b\<rparr>"
  shows "pg_base p' = pg_base p" "pg_slot_size p' = pg_slot_size p" "pg_slot_count p' = pg_slot_count p"
    "pg_generation p' = pg_generation p" "pg_owner_list_kind p' = pg_owner_list_kind p"
    "pg_owner_thread_token p' = pg_owner_thread_token p" "pg_class_id p' = pg_class_id p"
  using assms by simp_all

text \<open>An allocation on a live page that has capacity.\<close>

lemma page_alloc_live:
  assumes "live_page cfg st pg A" "hz10_freelist_page_has_capacity cfg (pages st pg)"
  obtains i A' st' where "page_alloc cfg pg st = (slot (pages st pg) i, st')" "i < unat (pg_slot_count (pages st pg))"
    "i \<notin> held_slots A" "held_slots A' = insert i (held_slots A)" "live_page cfg st' pg A'"
    "\<exists>m h f b. st' = set_page pg ((pages st pg)\<lparr>pg_local_free_head := h, pg_free_count := f, pg_bump_index := b\<rparr>) (st\<lparr>mem := m\<rparr>)"
    "mem st' (slot (pages st pg) i + 8) = 0"
proof -
  let ?p = "pages st pg"
  have rel: "page_rel cfg (mem st, ?p) A" using assms(1) by (simp add: live_page_def Let_def)
  obtain r A' where ab: "abs_alloc (unat (pg_slot_count ?p)) A = (r, A')" by force
  obtain i where r: "r = Some i"
    using ab assms(2) has_capacity_iff [OF rel] by (auto simp: abs_alloc_def split: list.splits if_splits)
  obtain m' p' where al: "hz10_freelist_page_alloc cfg (mem st, ?p) = (slot ?p i, m', p')"
    "page_rel cfg (m', p') A'" "i < unat (pg_slot_count ?p)" "m' = (mem st)(slot ?p i + 8 := 0)"
    using alloc_refines [OF rel] ab r by auto
  have p': "p' = ?p\<lparr>pg_local_free_head := pg_local_free_head p', pg_free_count := pg_free_count p',
    pg_bump_index := pg_bump_index p'\<rparr>" using freelist_alloc_header [of cfg "mem st" ?p] al(1) by simp
  note F = header_fields [OF p'] and E = abs_alloc_exclusive [OF rel ab [unfolded r]]
  have "page_alloc cfg pg st = (slot ?p i, set_page pg p' (st\<lparr>mem := m'\<rparr>))"
    by (simp add: page_alloc_def al(1))
  then show ?thesis
    by (rule that [OF _ al(3) E(1,4) live_page_set [OF assms(1) al(2) F(1-4)]]) (rule exI [of _ m'], rule exI, rule exI, rule exI, subst p', rule refl, simp add: set_page_def al(4))
qed

text \<open>An owner's free on a live page without the front cache.\<close>

lemma page_free_live:
  assumes "live_page cfg st pg A" "i \<in> held_slots A"
  shows "live_page cfg (page_free pg (slot (pages st pg) i) st) pg (abs_free i A)"
    "pg_owner_list_kind (pages (page_free pg (slot (pages st pg) i) st) pg) = pg_owner_list_kind (pages st pg)"
proof -
  let ?p = "pages st pg"
  have rel: "page_rel cfg (mem st, ?p) A" using assms(1) by (simp add: live_page_def Let_def)
  obtain m' p' where f: "hz10_freelist_page_free (slot ?p i) (mem st, ?p) = (m', p')" by force
  then have p': "p' = ?p\<lparr>pg_local_free_head := slot ?p i, pg_free_count := pg_free_count ?p + 1, pg_bump_index := pg_bump_index ?p\<rparr>"
    using free_eq [OF page_relD(1) [OF rel]] by (auto simp: prod_eq_iff)
  have eq: "page_free pg (slot ?p i) st = set_page pg p' (st\<lparr>mem := m'\<rparr>)" by (simp add: page_free_def f)
  show "live_page cfg (page_free pg (slot ?p i) st) pg (abs_free i A)" unfolding eq
    by (rule live_page_set [OF assms(1) _ header_fields(1-4) [OF p']]) (use free_refines [OF rel assms(2)] f in simp)
  show "pg_owner_list_kind (pages (page_free pg (slot ?p i) st) pg) = pg_owner_list_kind ?p"
    unfolding eq using header_fields(5) [OF p'] by (simp add: set_page_def)
qed

section \<open>The foreign free\<close>

lemma claim_header:
  "hz10_page_remote_free_claim ptr e (m, p) = (Some i, m', p1) \<Longrightarrow>
     m' = m \<and> p1 = p\<lparr>pg_pending_bits := pg_pending_bits p1\<rparr>"
  by (auto simp: hz10_page_remote_free_claim_def hz10_page_pending_try_claim_def Let_def
      split: option.splits if_splits prod.splits)

lemma note_remote_free_frame:
  "mem (hz10_retired_ready_note_remote_free pg st) = mem st"
  "pm_record (hz10_retired_ready_note_remote_free pg st) a = pm_record st a"
  "q \<noteq> pg \<Longrightarrow> pages (hz10_retired_ready_note_remote_free pg st) q = pages st q"
  "hz10_stripe_token (hz10_retired_ready_note_remote_free pg st') = hz10_stripe_token st'"
  by (simp_all add: hz10_retired_ready_note_remote_free_def Let_def set_page_def set_stack_def pm_record_def)

lemma note_remote_free_header:
  "\<exists>f n k s. pages (hz10_retired_ready_note_remote_free pg st) pg = (pages st pg)
     \<lparr>pg_retired_ready_flag := f, pg_retired_ready_next := n, pg_retired_ready_on_stack := s,
      pg_retired_ready_outstanding := k\<rparr>"
proof -
  let ?p = "pages st pg" and ?p' = "pages (hz10_retired_ready_note_remote_free pg st) pg"
  have "?p' = ?p\<lparr>pg_retired_ready_flag := pg_retired_ready_flag ?p', pg_retired_ready_next := pg_retired_ready_next ?p',
      pg_retired_ready_on_stack := pg_retired_ready_on_stack ?p', pg_retired_ready_outstanding := pg_retired_ready_outstanding ?p'\<rparr>"
    by (simp add: hz10_retired_ready_note_remote_free_def Let_def set_page_def set_stack_def)
  then show ?thesis by blast
qed

lemma held_after_publish:
  "s < 4 \<Longrightarrow> held_slots (abs_publish s i (abs_claim i A)) = held_slots A - {i}"
  by (auto simp: held_slots_def abs_publish_def abs_claim_def remote_slots_stripes split: if_splits)

lemma free_on_page_foreign:
  "\<not> owns tid st pg \<Longrightarrow> free_on_page tid cfg pg ptr g st = Some (hz10_public_entry_free_remote_slow tid pg ptr g st)"
  by (auto simp: owns_def free_on_page_def hz10_public_entry_current_owner_if_any_def
      hz10_public_entry_owner_record_def hz10_freelist_page_owner_thread_def Let_def)

lemma remote_slow_live:
  assumes live: "live_page cfg st pg A" and i: "i \<in> held_slots A"
    and user: "mem st (slot (pages st pg) i + 8) \<noteq> HZ10_FREELIST_LOCAL_MARKER"
    and s_def: "s = hz10_remote_pick_stripe (hz10_stripe_token st tid)"
  shows "\<exists>st'. hz10_public_entry_free_remote_slow tid pg (slot (pages st pg) i) (pg_generation (pages st pg)) st = (True, st')
    \<and> live_page cfg st' pg (abs_publish s i (abs_claim i A))
    \<and> pg_local_free_head (pages st' pg) = pg_local_free_head (pages st pg)
    \<and> pg_free_count (pages st' pg) = pg_free_count (pages st pg)
    \<and> pg_bump_index (pages st' pg) = pg_bump_index (pages st pg)
    \<and> (\<forall>q. q \<noteq> pg \<longrightarrow> pages st' q = pages st q)"
proof -
  let ?p = "pages st pg"
  have rel: "page_rel cfg (mem st, ?p) A" using live by (simp add: live_page_def Let_def)
  have lt: "i < unat (pg_slot_count ?p)" using i page_relD(3) [OF rel] by (auto simp: held_slots_def)
  then have si: "unat (of_nat i :: u32) = i" using less_trans [OF lt unat_u32_lt]
    by (simp add: unat_of_nat take_bit_nat_eq_self_iff)
  obtain p1 where cl: "hz10_page_remote_free_claim (slot ?p i) (pg_generation ?p) (mem st, ?p) = (Some (of_nat i), mem st, p1)"
    and r1: "page_rel cfg (mem st, p1) (abs_claim i A)"
    using claim_refines [OF rel, of "of_nat i" "pg_generation ?p"] i user si by auto
  have p1: "p1 = ?p\<lparr>pg_pending_bits := pg_pending_bits p1\<rparr>" using claim_header [OF cl] by simp
  define st0 where "st0 = set_page pg p1 st"
  define st1 where "st1 = hz10_retired_ready_note_remote_free pg st0"
  have st0: "pages st0 pg = p1" "mem st0 = mem st" "q \<noteq> pg \<Longrightarrow> pages st0 q = pages st q"
    "pm_record st0 a = pm_record st a" "hz10_stripe_token st0 = hz10_stripe_token st" for q a
    by (simp_all add: st0_def set_page_def pm_record_def)
  obtain f n k t where h: "pages st1 pg = p1\<lparr>pg_retired_ready_flag := f, pg_retired_ready_next := n,
      pg_retired_ready_on_stack := t, pg_retired_ready_outstanding := k\<rparr>"
    using note_remote_free_header [of pg st0] st0(1) by (auto simp: st1_def)
  have "page_rel cfg (mem st, pages st1 pg) (abs_claim i A) \<longleftrightarrow> page_rel cfg (mem st, p1) (abs_claim i A)"
    by (rule page_rel_header_cong) (simp_all add: h)
  then have r2: "page_rel cfg (mem st1, pages st1 pg) (abs_claim i A)"
    using r1 by (simp add: st1_def note_remote_free_frame st0)
  have tok: "hz10_stripe_token st1 = hz10_stripe_token st" by (simp add: st1_def note_remote_free_frame st0)
  have g: "pg_base (pages st1 pg) = pg_base ?p" "pg_slot_size (pages st1 pg) = pg_slot_size ?p"
    "pg_slot_count (pages st1 pg) = pg_slot_count ?p" "pg_generation (pages st1 pg) = pg_generation ?p"
    "pg_local_free_head (pages st1 pg) = pg_local_free_head ?p" "pg_free_count (pages st1 pg) = pg_free_count ?p"
    "pg_bump_index (pages st1 pg) = pg_bump_index ?p"
    by (simp_all add: h, (subst p1, simp)+)
  obtain m2 p2 where pub: "hz10_page_remote_free_publish (hz10_stripe_token st1 tid) (slot ?p i) (mem st1, pages st1 pg) = (m2, p2)"
    by force
  then have p2: "p2 = set_remote_head s (slot ?p i) (pages st1 pg)"
    by (simp add: hz10_page_remote_free_publish_def Let_def s_def tok)
  have "page_rel cfg (m2, p2) (abs_publish s i (abs_claim i A))"
    using publish_refines [OF r2, of i "hz10_stripe_token st1 tid"] pub g(1,2) by (simp add: abs_claim_def s_def tok)
  moreover have "live_page cfg st1 pg (abs_claim i A)"
    using live r2 g by (simp add: live_page_def Let_def st1_def note_remote_free_frame st0)
  ultimately have "live_page cfg (set_page pg p2 (st1\<lparr>mem := m2\<rparr>)) pg (abs_publish s i (abs_claim i A))"
    by (intro live_page_set) (simp_all add: p2)
  moreover have "hz10_public_entry_free_remote_slow tid pg (slot ?p i) (pg_generation ?p) st
      = (True, set_page pg p2 (st1\<lparr>mem := m2\<rparr>))"
    using cl pub by (simp add: hz10_public_entry_free_remote_slow_def st0_def [symmetric] st1_def [symmetric] Let_def)
  moreover have "pages st1 q = pages st q" if "q \<noteq> pg" for q
    using that by (simp add: st1_def note_remote_free_frame st0)
  ultimately show ?thesis using g by (simp add: p2 set_page_def)
qed

text \<open>The clamps of the cache's capacity and batch.\<close>

lemma clamp_bounds:
  fixes q b :: u32
  shows "let cap = (if q < 8 then 8 else q); cap = (if cap > 4096 then 4096 else cap) in
      8 \<le> cap \<and> cap \<le> 4096 \<and> (cap = 8 \<or> cap \<le> q)"
    "8 \<le> cap \<Longrightarrow> let b1 = (if b < 1 then 1 else b); b2 = (if b1 > 32 then 32 else b1); b3 = (if b2 > cap then cap else b2) in
      1 \<le> b3 \<and> b3 \<le> 32 \<and> b3 \<le> cap \<and> (b3 = 1 \<or> b3 \<le> b)"
proof -
  show "let cap = (if q < 8 then 8 else q); cap = (if cap > 4096 then 4096 else cap) in
      8 \<le> cap \<and> cap \<le> 4096 \<and> (cap = 8 \<or> cap \<le> q)"
    by (auto simp: Let_def word_le_nat_alt word_less_nat_alt)
  show "8 \<le> cap \<Longrightarrow> let b1 = (if b < 1 then 1 else b); b2 = (if b1 > 32 then 32 else b1); b3 = (if b2 > cap then cap else b2) in
      1 \<le> b3 \<and> b3 \<le> 32 \<and> b3 \<le> cap \<and> (b3 = 1 \<or> b3 \<le> b)"
    by (auto simp: Let_def word_le_nat_alt word_less_nat_alt)
qed

section \<open>Properties\<close>

text \<open>\<open>hz10_free\<close> fails closed: a pointer that is not the first byte of a slot of a live
  record, whatever it is, is refused and nothing is read through it or changed.\<close>

theorem free_fail_closed:
  assumes "ptr \<noteq> 0" "rr_kind (hz10_pagemap_route ptr HZ10_GENERATION_ANY st) \<noteq> H10_ROUTE_VALID"
  shows "hz10_free tid cfg ptr st = Some (False, st)"
  using assms by (simp add: hz10_free_def fast_route_eq hz10_public_entry_free_slow_route_def)

text \<open>One thread, number 0, with its owner at \<open>0x40000\<close>; its active page of class 3 is the header at
  \<open>0x1000\<close> for the four slots at \<open>0x10000\<close>.\<close>

definition example_entry :: entry_state where
  "example_entry = \<lparr>mem = fst example_view, os_maps = [], os_clock = [], os_trace = [],
     hz10_pagemap_root = (\<lambda>i. if i = 0 then Some \<lparr>leaf_address = 0x2000000, leaf_entries = (\<lambda>j. if j = 1
       then \<lparr>rec_base = 0x10000, rec_owner = 0x1000, rec_slot_size = 64, rec_slot_count = 4,
             rec_generation = 1, rec_flags = 0\<rparr> else zero_record)\<rparr> else None),
     pages = (\<lambda>_. (snd example_view)\<lparr>pg_owner_thread_token := 0x5000, pg_owner_list_kind := 1, pg_class_id := 3\<rparr>),
     meta_next = (\<lambda>_. 0), hz10_metadata_free_list = 0, hz10_metadata_slab_count = 0,
     hz10_metadata_node_capacity = 0, hz10_quantum_region_cursor = 0, hz10_quantum_region_end = 0,
     hz10_pool_head = 0, hz10_pool_count = 0, hz10_pool_cap = 64, hz10_pool_reuse_count = 0,
     hz10_pool_release_count = 0, hz10_pool_purged_count = 0,
     ready_stacks = (\<lambda>_. \<lparr>rs_head = 0, rs_push_count = 0\<rparr>), class_lists = (\<lambda>_. empty_class_list),
     owner_records = (\<lambda>_. 1), thread_owners = (\<lambda>_. \<lparr>to_record = 0x5000, to_active = (\<lambda>_. 0x1000)\<rparr>),
     hz10_current_owner = (\<lambda>t. if t = 0 then 0x40000 else 0), hz10_owner_slab_cursor = 0, hz10_owner_slab_end = 0,
     hz10_owner_key_once = True, hz10_owner_key_ready = True, hz10_owner_key_value = (\<lambda>_. 0x40000),
     os_key_create_ok = True, hz10_orphan_active = (\<lambda>_. empty_sublist),
     hz10_orphan_adoption_stats = (\<lambda>_. zero_adoption_stats), hz10_orphan_drain_probe_owner = 0x6000,
     hz10_front_cache = (\<lambda>_ _. \<lparr>fc_head = 0, fc_count = 0, fc_cap = 64, fc_refill_batch = 8, fc_slot_size = 64\<rparr>),
     hz10_stripe_token = (\<lambda>_. 0)\<rparr>"

lemma example_entry_live: "live_page default_config example_entry 0x1000 (fresh_abs default_config 4)"
proof -
  have "page_rel default_config (fst example_view,
      (snd example_view)\<lparr>pg_owner_thread_token := t, pg_owner_list_kind := k, pg_class_id := c\<rparr>) A
      \<longleftrightarrow> page_rel default_config (fst example_view, snd example_view) A" for t k c A
    by (rule page_rel_header_cong) simp_all
  moreover have "pg_base (snd example_view) = 0x10000" "pg_slot_size (snd example_view) = 64"
    "pg_slot_count (snd example_view) = 4" "pg_generation (snd example_view) = 1"
    by (simp_all add: example_view_def hz10_freelist_page_init_chain_def example_header_def zero_page_def default_config_def)
  moreover have "hz10_pagemap_root_index (hz10_pagemap_page_index 0x10000) = 0"
    "hz10_pagemap_leaf_index (hz10_pagemap_page_index 0x10000) = 1" by code_simp+
  ultimately show ?thesis using example_view_rel
    by (simp add: live_page_def Let_def example_entry_def pm_record_def)
qed

theorem free_fail_closed_witness:
  "hz10_free 0 default_config 0x10008 example_entry = Some (False, example_entry)"
proof (rule free_fail_closed)
  have "hz10_pagemap_root_index (hz10_pagemap_page_index 0x10008) = 0"
    "hz10_pagemap_leaf_index (hz10_pagemap_page_index 0x10008) = 1" by code_simp+
  then show "rr_kind (hz10_pagemap_route 0x10008 HZ10_GENERATION_ANY example_entry) \<noteq> H10_ROUTE_VALID"
    by (simp add: hz10_pagemap_route_def route_record_def hz10_pagemap_result_def example_entry_def Let_def)
qed simp

text \<open>C1: With the front cache off, an allocation from an active page that has a slot returns one
  nobody held: its class is large enough for the request, it is aligned, and it routes to its page.
  The free of it by the same thread succeeds, hands exactly that slot back and keeps the page
  live.\<close>

theorem malloc_then_free:
  assumes "\<not> cfg_front_cache cfg" "sz \<noteq> 0" "sz \<le> HZ10_PAGE_QUANTUM"
    and "c = unat (hz10_size_class_for cfg sz)"
    and "pg = to_active (thread_owners st (hz10_current_owner st tid)) c" "owns tid st pg"
    and "live_page cfg st pg A" "hz10_freelist_page_has_capacity cfg (pages st pg)"
    and "pg_slot_size (pages st pg) = hz10_size_class_slot_size cfg (of_nat c)"
    and "pg_owner_list_kind (pages st pg) \<noteq> HZ10_FREELIST_PAGE_OWNER_LIST_RETIRED"
  shows "\<exists>ptr i A1 st1 A2 st2. hz10_malloc tid cfg sz st = Some (ptr, st1) \<and>
     ptr = slot (pages st pg) i \<and> i \<notin> held_slots A \<and> unat ptr mod 16 = 0 \<and>
     unat sz \<le> unat (pg_slot_size (pages st pg)) \<and>
     live_page cfg st1 pg A1 \<and> held_slots A1 = insert i (held_slots A) \<and>
     rr_kind (hz10_pagemap_route ptr HZ10_GENERATION_ANY st1) = H10_ROUTE_VALID \<and>
     rr_owner (hz10_pagemap_route ptr HZ10_GENERATION_ANY st1) = pg \<and>
     hz10_free tid cfg ptr st1 = Some (True, st2) \<and> live_page cfg st2 pg A2 \<and> held_slots A2 = held_slots A"
proof -
  let ?p = "pages st pg"
  have usz: "0 < unat sz" "unat sz \<le> 65536" using assms(2,3) by (simp_all add: unat_gt_0 word_le_nat_alt)
  note C = class_for_fits [OF usz, of cfg]
  have cc: "of_nat c = hz10_size_class_for cfg sz" by (simp add: assms(4))
  have pg0: "pg \<noteq> 0" and geom: "page_geom ?p"
    using assms(7) page_relD(1) by (auto simp: live_page_def Let_def)
  obtain i A1 st1 where al: "page_alloc cfg pg st = (slot ?p i, st1)" "i < unat (pg_slot_count ?p)"
    "i \<notin> held_slots A" "held_slots A1 = insert i (held_slots A)" "live_page cfg st1 pg A1"
    "\<exists>m h f b. st1 = set_page pg (?p\<lparr>pg_local_free_head := h, pg_free_count := f, pg_bump_index := b\<rparr>) (st\<lparr>mem := m\<rparr>)"
    by (rule page_alloc_live [OF assms(7,8)])
  obtain m h f b where st1: "st1 = set_page pg (?p\<lparr>pg_local_free_head := h, pg_free_count := f, pg_bump_index := b\<rparr>) (st\<lparr>mem := m\<rparr>)"
    using al(6) by blast
  have p1: "slot (pages st1 pg) i = slot ?p i" "pg_slot_count (pages st1 pg) = pg_slot_count ?p"
    "pg_owner_list_kind (pages st1 pg) = pg_owner_list_kind ?p" "owns tid st1 pg"
    using assms(6) by (simp_all add: st1 owns_def set_page_def)
  have "slot ?p i \<noteq> 0" by (rule slot_nonnull [OF geom al(2)])
  then have malloc: "hz10_malloc tid cfg sz st = Some (slot ?p i, st1)"
    using assms(1-6) C(1) pg0 al(1) by (simp add: hz10_malloc_def owns_def not_le [symmetric]
        hz10_public_entry_alloc_from_page_layer_def hz10_public_entry_current_owner_if_any_def Let_def)
  have i1: "i < unat (pg_slot_count (pages st1 pg))" "i \<in> held_slots A1" using al p1 by auto
  have route: "rr_kind (hz10_pagemap_route (slot ?p i) 0 st1) = H10_ROUTE_VALID"
    "rr_owner (hz10_pagemap_route (slot ?p i) 0 st1) = pg"
    using live_slot(4) [OF al(5) i1(1)] p1(1) by (simp_all add: hz10_pagemap_result_def)
  note F = page_free_live [OF al(5) i1(2)]
  define st2 where "st2 = page_free pg (slot ?p i) st1"
  have "hz10_free tid cfg (slot ?p i) st1 = Some (True, st2)"
    using free_live [OF al(5) i1(1), of tid] free_on_page_owner [OF p1(4)] assms(1,10) F(2) p1
    by (simp add: hz10_public_entry_free_local_page_def note_local_free_skip st2_def Let_def)
  moreover have "live_page cfg st2 pg (abs_free i A1)" using F(1) p1(1) by (simp add: st2_def)
  moreover have "held_slots (abs_free i A1) = held_slots A1 - {i}"
    by (auto simp: held_slots_def abs_free_def)
  then have "held_slots (abs_free i A1) = held_slots A" using al(3,4) by auto
  moreover have "unat (slot ?p i) mod 16 = 0" by (rule slot_mod_16 [OF geom al(2)])
  moreover have "unat sz \<le> unat (pg_slot_size ?p)" using C(2) assms(9) cc by simp
  ultimately show ?thesis using malloc al(3,4,5) route
    by - (rule exI [of _ "slot ?p i"], rule exI [of _ i], rule exI [of _ A1], rule exI [of _ st1],
        rule exI [of _ "abs_free i A1"], rule exI [of _ st2], simp)
qed

theorem malloc_then_free_witness:
  "\<exists>ptr st1 st2. hz10_malloc 0 default_config 50 example_entry = Some (ptr, st1) \<and>
     hz10_free 0 default_config ptr st1 = Some (True, st2)"
proof -
  have c: "hz10_size_class_for default_config 50 = 3" "hz10_size_class_slot_size default_config 3 = 64" by code_simp+
  have h: "hz10_freelist_page_has_capacity default_config (pages example_entry 0x1000)"
    "pg_slot_size (pages example_entry 0x1000) = 64" "owns 0 example_entry 0x1000"
    by (simp_all add: example_entry_def example_view_def hz10_freelist_page_init_chain_def example_header_def
        zero_page_def default_config_def hz10_freelist_page_has_capacity_def owns_def)
  show ?thesis
    using malloc_then_free [OF _ _ _ refl _ h(3) example_entry_live h(1), of 50] c h(2)
    by (simp add: example_entry_def default_config_def) blast
qed



text \<open>With the front cache on and room in it, the owner's free puts the slot on the cache of its
  class, marked so that a free of it by another thread is refused, and the next allocation of any
  size of that class returns the same slot and leaves the cache and every page header as they
  were.\<close>

theorem front_cache_lifo:
  assumes "cfg_front_cache cfg" "live_page cfg st pg A" "owns tid st pg" "i < unat (pg_slot_count (pages st pg))"
    and "ptr = slot (pages st pg) i" "c = unat (pg_class_id (pages st pg))" "fc = hz10_front_cache st tid c"
    and "fc_count fc < fc_cap fc"
    and "sz \<noteq> 0" "sz \<le> HZ10_PAGE_QUANTUM" "hz10_size_class_for cfg sz = pg_class_id (pages st pg)"
  shows "\<exists>st1 st2. hz10_free tid cfg ptr st = Some (True, st1) \<and>
    fst (hz10_page_remote_free_claim ptr e (mem st1, pages st1 pg)) = None \<and>
    hz10_malloc tid cfg sz st1 = Some (ptr, st2) \<and>
    hz10_front_cache st2 = hz10_front_cache st \<and> pages st2 = pages st"
proof -
  let ?p = "pages st pg"
  have geom: "page_geom ?p" using assms(2) page_relD(1) by (auto simp: live_page_def Let_def)
  then have s16: "16 \<le> pg_slot_size ?p" by (simp add: page_geom_def word_le_nat_alt)
  have usz: "0 < unat sz" "unat sz \<le> 65536" using assms(9,10) by (simp_all add: unat_gt_0 word_le_nat_alt)
  have nn: "ptr \<noteq> 0" unfolding assms(5) by (rule slot_nonnull [OF geom assms(4)])
  have p8: "ptr \<noteq> ptr + 8" by simp
  let ?fc = "fc\<lparr>fc_head := ptr, fc_count := fc_count fc + 1\<rparr>"
  let ?st1 = "set_fc tid c ?fc (st\<lparr>mem := (mem st)(ptr + 8 := HZ10_FREELIST_LOCAL_MARKER, ptr := fc_head fc)\<rparr>)"
  have room: "\<not> fc_count fc + 1 > fc_cap fc"
    using assms(8) by (simp add: not_less inc_le)
  have free: "hz10_free tid cfg ptr st = Some (True, ?st1)"
    using free_live [OF assms(2,4), of tid] free_on_page_owner [OF assms(3)] assms(1,5,6,7) room s16
    by (simp add: hz10_public_entry_free_local_page_def hz10_freelist_page_mark_local_free_def
        hz10_freelist_page_slot_marker_ptr_def Let_def)
  have "hz10_freelist_page_is_marked_local_free (pages ?st1 pg) ptr (mem ?st1)"
    using s16 by (simp add: hz10_freelist_page_is_marked_local_free_def hz10_freelist_page_slot_marker_ptr_def set_fc_def)
  then have ref: "fst (hz10_page_remote_free_claim ptr e (mem ?st1, pages ?st1 pg)) = None"
    by (simp add: hz10_page_remote_free_claim_def split: option.split)
  have fc1: "hz10_front_cache ?st1 tid c = ?fc" "mem ?st1 ptr = fc_head fc" by (simp_all add: set_fc_def)
  have "\<exists>st2. hz10_malloc tid cfg sz ?st1 = Some (ptr, st2) \<and> hz10_front_cache st2 = hz10_front_cache st \<and>
      pages st2 = pages st"
    using class_for_fits(1) [OF usz, of cfg] assms(1,6,7,9,10,11) nn fc1
    by (simp add: hz10_malloc_def Let_def not_le [symmetric] set_fc_def fun_eq_iff)
  with free ref show ?thesis by blast
qed

theorem front_cache_lifo_witness:
  "\<exists>st1 st2. hz10_free 0 (default_config\<lparr>cfg_front_cache := True\<rparr>) 0x10040 example_entry = Some (True, st1) \<and>
     hz10_malloc 0 (default_config\<lparr>cfg_front_cache := True\<rparr>) 50 st1 = Some (0x10040, st2)"
proof -
  let ?cfg = "default_config\<lparr>cfg_front_cache := True\<rparr>"
  have "page_rel ?cfg v A \<longleftrightarrow> page_rel default_config v A" for v A
    by (simp add: page_rel_def frontier_of_def)
  then have live: "live_page ?cfg example_entry 0x1000 (fresh_abs default_config 4)"
    using example_entry_live by (simp add: live_page_def Let_def)
  have h: "owns 0 example_entry 0x1000" "pg_slot_count (pages example_entry 0x1000) = 4"
    "slot (pages example_entry 0x1000) 1 = 0x10040" "pg_class_id (pages example_entry 0x1000) = 3"
    "hz10_front_cache example_entry 0 3 = \<lparr>fc_head = 0, fc_count = 0, fc_cap = 64, fc_refill_batch = 8, fc_slot_size = 64\<rparr>"
    by (simp_all add: example_entry_def example_view_def hz10_freelist_page_init_chain_def example_header_def
        zero_page_def default_config_def owns_def slot_addr_def)
  have "hz10_size_class_for ?cfg 50 = 3" by code_simp
  then show ?thesis
    using front_cache_lifo [OF _ live h(1) _ h(3) [symmetric] refl refl, of 50 0] h by auto
qed

text \<open>The first use of a class's cache gives it a capacity between 8 and 4096 objects and at
  most 2 MiB unless that is fewer than 8, and a refill batch between 1 and 32 that is never above
  the capacity.\<close>

theorem front_cache_init_bounds:
  assumes "c < unat (hz10_class_count cfg)"
  shows "let fc' = hz10_front_cache_init cfg c fc; s = unat (hz10_size_class_slot_size cfg (of_nat c)) in
    8 \<le> fc_cap fc' \<and> fc_cap fc' \<le> 4096 \<and> (fc_cap fc' = 8 \<or> unat (fc_cap fc') * s \<le> 2097152) \<and>
    1 \<le> fc_refill_batch fc' \<and> fc_refill_batch fc' \<le> 32 \<and> fc_refill_batch fc' \<le> fc_cap fc' \<and>
    (fc_refill_batch fc' = 1 \<or> unat (fc_refill_batch fc') * s \<le> 65536) \<and>
    fc_head fc' = fc_head fc \<and> fc_count fc' = fc_count fc"
proof -
  let ?s = "hz10_size_class_slot_size cfg (of_nat c)" and ?fc = "hz10_front_cache_init cfg c fc"
  have k1: "8 \<le> fc_cap ?fc \<and> fc_cap ?fc \<le> 4096 \<and> (fc_cap ?fc = 8 \<or> fc_cap ?fc \<le> 2097152 div ?s)"
    using clamp_bounds(1) [of "2097152 div ?s"] by (simp only: hz10_front_cache_init_def Let_def) simp
  have e: "fc_refill_batch ?fc = (let b1 = (if 65536 div ?s < 1 then 1 else 65536 div ?s);
      b2 = (if b1 > 32 then 32 else b1) in if b2 > fc_cap ?fc then fc_cap ?fc else b2)"
    by (simp add: hz10_front_cache_init_def Let_def)
  have "let b1 = (if 65536 div ?s < 1 then 1 else 65536 div ?s); b2 = (if b1 > 32 then 32 else b1);
      b3 = (if b2 > fc_cap ?fc then fc_cap ?fc else b2) in
      1 \<le> b3 \<and> b3 \<le> 32 \<and> b3 \<le> fc_cap ?fc \<and> (b3 = 1 \<or> b3 \<le> 65536 div ?s)"
    by (rule clamp_bounds(2)) (use k1 in blast)
  then have k2: "1 \<le> fc_refill_batch ?fc \<and> fc_refill_batch ?fc \<le> 32 \<and> fc_refill_batch ?fc \<le> fc_cap ?fc \<and>
       (fc_refill_batch ?fc = 1 \<or> fc_refill_batch ?fc \<le> 65536 div ?s)"
    by (simp only: e Let_def)
  have k3: "fc_head ?fc = fc_head fc" "fc_count ?fc = fc_count fc"
    by (simp_all add: hz10_front_cache_init_def Let_def)
  have "unat x * unat ?s \<le> unat n" if "x \<le> n div ?s" for x n :: u32
  proof -
    have "unat x \<le> unat n div unat ?s" using that by (simp add: word_le_nat_alt unat_div)
    then have "unat x * unat ?s \<le> unat n div unat ?s * unat ?s" by (rule mult_le_mono1)
    then show ?thesis by (rule le_trans) simp
  qed
  from this [of "fc_cap ?fc" 2097152] this [of "fc_refill_batch ?fc" 65536] k1 k2 k3 show ?thesis
    by (simp only: Let_def) auto
qed

theorem front_cache_init_bounds_witness:
  "fc_cap (hz10_front_cache_init default_config 23 zero_front_cache) = 32 \<and>
   8 \<le> fc_cap (hz10_front_cache_init default_config 23 zero_front_cache)"
proof -
  have "fc_cap (hz10_front_cache_init default_config 23 zero_front_cache) = 32" by code_simp
  then show ?thesis using front_cache_init_bounds [of 23 default_config zero_front_cache]
    by (simp add: hz10_class_count_def default_config_def Let_def)
qed

end
