(* ===== verification/Hz10_Shim_Correct.thy ===== *)
theory Hz10_Shim_Correct
  imports Hz10_Shim Hz10_Large_Correct Hz10_Public_Entry_Correct Hz10_Owner_Correct
begin

text \<open>
  What the C allocation interface promises on top of the allocator: alignment, the overflow check of
  \<open>calloc\<close>, what is done with a pointer of another allocator, and which error a caller is told.
\<close>

section \<open>Powers of two\<close>

lemma power_of_two_nat:
  fixes n :: nat
  assumes "0 < n" "n AND (n - 1) = 0"
  obtains k where "n = 2 ^ k"
proof -
  obtain k where k: "2 ^ k \<le> n" "n < 2 ^ (k + 1)" using ex_power_ivl1 [of 2 n] assms(1) by auto
  have top: "bit m k" if "2 ^ k \<le> m" "m < 2 ^ (k + 1)" for m :: nat
  proof -
    have "m div 2 ^ k < 2" using that(2) by (intro less_mult_imp_div_less) simp
    moreover have "1 \<le> m div 2 ^ k" using that(1) div_le_mono [of "2 ^ k" m "2 ^ k"] by simp
    ultimately have "m div 2 ^ k = 1" by linarith
    then show ?thesis by (simp add: bit_iff_odd)
  qed
  have "\<not> 2 ^ k \<le> n - 1"
  proof
    assume "2 ^ k \<le> n - 1"
    then have "bit (n AND (n - 1)) k" using top [OF k] top [of "n - 1"] k(2) by (simp add: bit_and_iff)
    then show False using assms(2) by simp
  qed
  then show ?thesis using that [of k] k(1) by simp
qed

lemma power_of_two_word:
  assumes "hz10_shim_is_power_of_two v"
  obtains k where "unat v = 2 ^ k"
proof -
  have v: "v \<noteq> 0" "v AND (v - 1) = 0" using assms by (simp_all add: hz10_shim_is_power_of_two_def)
  have "1 \<le> unat v" using v(1) by (simp add: unat_gt_0 Suc_le_eq)
  then have "unat (v - 1) = unat v - 1" by (subst unat_sub) (simp_all add: word_le_nat_alt)
  then have "unat v AND (unat v - 1) = unat (v AND (v - 1))" by (simp add: unsigned_and_eq)
  then have "unat v AND (unat v - 1) = 0" using v(2) by simp
  then show ?thesis using power_of_two_nat [of "unat v"] v(1) that by (auto simp: unat_gt_0)
qed

section \<open>Alignment\<close>

text \<open>Above the minimum alignment the block is a large one, whatever its size.\<close>

lemma aligned_impl_aligned:
  assumes "hz10_shim_aligned_alloc_impl tid cfg al sz st = Some (p, st')" "p \<noteq> 0" "al > HZ10_MIN_ALIGN"
    and "hz10_shim_is_power_of_two al" "large_map_fits (hz10_large_rounded (hz10_shim_request_size sz)) st"
  shows "unat p mod unat al = 0"
proof -
  have al: "\<not> al > HZ10_PAGE_QUANTUM"
    and L: "fst (hz10_large_alloc (hz10_shim_request_size sz) st) = p"
    using assms(1-3) by (auto simp: hz10_shim_aligned_alloc_impl_def Let_def split: if_splits prod.splits)
  obtain st1 where l: "hz10_large_alloc (hz10_shim_request_size sz) st = (p, st1)" using L by (metis prod.collapse)
  have p: "unat p mod 65536 = 0"
    using refl assms(5) by (cases rule: large_alloc_cases) (use l assms(2) in auto)
  obtain k where k: "unat al = 2 ^ k" using power_of_two_word [OF assms(4)] .
  have "(2 :: nat) ^ k \<le> 2 ^ 16" using al k by (simp add: not_less word_le_nat_alt)
  then have "k \<le> 16" by (rule power_le_imp_le_exp [rotated]) simp
  then have "(2 :: nat) ^ k dvd 2 ^ 16" by (rule le_imp_power_dvd)
  then have "(2 :: nat) ^ k dvd unat p" using p dvd_trans [of "2 ^ k" 65536 "unat p"] by (simp add: mod_eq_0_iff_dvd)
  then show ?thesis using k by (simp add: mod_eq_0_iff_dvd)
qed

section \<open>Multiplication\<close>

lemma calloc_guard:
  fixes n sz :: u64
  shows "(n \<noteq> 0 \<and> sz > SIZE_MAX div n) \<longleftrightarrow> 18446744073709551616 \<le> unat n * unat sz"
proof (cases "n = 0")
  case False
  then have n: "0 < unat n" by (simp add: unat_gt_0)
  have "sz > SIZE_MAX div n \<longleftrightarrow> 18446744073709551615 div unat n < unat sz"
    by (simp add: word_less_nat_alt unat_div)
  also have "\<dots> \<longleftrightarrow> 18446744073709551615 < unat n * unat sz"
    using n div_less_iff_less_mult [of "unat n" 18446744073709551615 "unat sz"] by (simp add: mult.commute)
  finally show ?thesis using False by auto
qed simp

lemma mem_zero_word:
  assumes "unat off + 8 \<le> unat n"
  shows "mem_zero p n m (p + off) = 0"
proof -
  have "off < n" "unat (n - off) = unat n - unat off"
    using assms by (simp_all add: word_less_nat_alt unat_sub word_le_nat_alt)
  then have "off < n" "8 \<le> n - off" using assms by (simp_all add: word_le_nat_alt)
  then show ?thesis by (simp add: mem_zero_def Let_def)
qed

section \<open>The census\<close>

lemma fold_keeps: "(\<And>x s. x \<in> set xs \<Longrightarrow> f (g x s) = f s) \<Longrightarrow> f (fold g xs s) = f s"
  by (induction xs arbitrary: s) auto

definition large_unowned :: "'a pagemap_state_scheme \<Rightarrow> bool" where
  "large_unowned st \<longleftrightarrow> (\<forall>i leaf j. hz10_pagemap_root st i = Some leaf \<and> rec_flags (leaf_entries leaf j) \<noteq> 0 \<longrightarrow>
     rec_owner (leaf_entries leaf j) = 0)"

lemma large_unownedD:
  "large_unowned st \<Longrightarrow> hz10_pagemap_root st i = Some leaf \<Longrightarrow> rec_flags (leaf_entries leaf j) \<noteq> 0 \<Longrightarrow>
     rec_owner (leaf_entries leaf j) = 0"
  by (auto simp: large_unowned_def)

lemma large_unowned_store:
  assumes "large_unowned st" "hz10_pagemap_root st i = Some l" "rec_owner r = 0 \<or> rec_flags r = 0"
  shows "large_unowned (st\<lparr>hz10_pagemap_root := (hz10_pagemap_root st)(i \<mapsto> l\<lparr>leaf_entries := (leaf_entries l)(k := r)\<rparr>)\<rparr>)"
  using assms(3) large_unownedD [OF assms(1,2)] large_unownedD [OF assms(1)]
  by (auto simp: large_unowned_def)

lemma ensure_leaf_unowned:
  assumes "large_unowned st" "hz10_pagemap_ensure_leaf i st = (lf, st')"
  shows "large_unowned st'" "lf = Some l \<Longrightarrow> hz10_pagemap_root st' i = Some l"
  by (cases rule: ensure_leaf_cases [of i st]; use assms in \<open>auto simp: large_unowned_def zero_record_def\<close>)+

lemma register_unowned:
  assumes "large_unowned st" "ow = 0 \<or> fl = 0"
  shows "large_unowned (snd (hz10_pagemap_register_with_owner_and_flags b s n ow fl st))"
proof -
  let ?i = "hz10_pagemap_root_index (hz10_pagemap_page_index b)"
  obtain lf st' where e: "hz10_pagemap_ensure_leaf ?i st = (lf, st')" by force
  note E = ensure_leaf_unowned [OF assms(1) e]
  show ?thesis
  proof (cases lf)
    case None
    then show ?thesis using assms(1) e E(1) by (simp add: hz10_pagemap_register_with_owner_and_flags_def Let_def)
  next
    case (Some l)
    note st = large_unowned_store [OF E(1) E(2) [OF Some]]
    show ?thesis using assms(1) e Some
      by (simp add: hz10_pagemap_register_with_owner_and_flags_def Let_def) (use assms(2) in \<open>auto intro!: st\<close>)
  qed
qed

lemma large_reserve_root: "hz10_pagemap_root (snd (hz10_large_reserve_aligned n st)) = hz10_pagemap_root st"
  by (simp add: hz10_large_reserve_aligned_def hz10_platform_reserve_rw_def hz10_platform_release_def Let_def
      split: list.splits prod.splits)

lemma large_alloc_unowned:
  assumes "large_unowned st"
  shows "large_unowned (snd (hz10_large_alloc sz st))"
proof -
  let ?n = "hz10_large_rounded sz"
  obtain b st1 where r: "hz10_large_reserve_aligned ?n st = (b, st1)" by force
  have 1: "large_unowned st1" using large_reserve_root [of ?n st] assms r by (simp add: large_unowned_def)
  obtain g st2 where g: "hz10_pagemap_register_with_owner_and_flags b (ucast ?n) 1 0 HZ10_PAGEMAP_FLAG_LARGE st1 = (g, st2)"
    by force
  then have 2: "large_unowned st2"
    using register_unowned [OF 1, of 0 HZ10_PAGEMAP_FLAG_LARGE b "ucast ?n" 1] by simp
  then have "large_unowned (hz10_platform_release b ?n st2)"
    by (cases "b \<noteq> 0 \<and> ?n \<noteq> 0") (auto simp add: large_unowned_def hz10_platform_release_def)
  then show ?thesis using assms 1 2 r g by (simp add: hz10_large_alloc_def Let_def)
qed

lemma census_record_unowned:
  assumes "rec_flags rec \<noteq> 0 \<Longrightarrow> rec_owner rec = 0"
  shows "ct_large_pages (census_record cfg st rec totals) = ct_large_pages totals"
  using assms by (auto simp: census_record_def hz10_shim_census_add_page_def Let_def)

section \<open>A concrete state\<close>

text \<open>The system has two mappings left to give; thread 0 has \<open>EAGAIN\<close> in its \<open>errno\<close>.\<close>

definition example_shim :: shim_state where
  "example_shim = entry_state.extend (example_entry\<lparr>os_maps := [0x12345000, 0x7f0000000000]\<rparr>)
     \<lparr>errno = (\<lambda>_. 11), os_errno = (\<lambda>_. ENOMEM), hz10_shim_foreign_free_count = 0\<rparr>"

lemma example_shim_fields:
  "os_maps example_shim = [0x12345000, 0x7f0000000000]" "errno example_shim t = 11"
  "hz10_pagemap_root example_shim = hz10_pagemap_root example_entry"
  by (simp_all add: example_shim_def entry_state.defs)

section \<open>Properties\<close>

text \<open>A pointer that \<open>memalign\<close>, \<open>aligned_alloc\<close> or \<open>posix_memalign\<close> returns for an alignment above
  the allocator's own is a multiple of that alignment.\<close>

theorem aligned_allocation:
  assumes "shim_memalign tid cfg al sz st = Some (p, st') \<or> shim_aligned_alloc tid cfg al sz st = Some (p, st') \<or>
      posix_memalign tid cfg al sz st = Some (0, Some p, st')"
    and "p \<noteq> 0" "al > HZ10_MIN_ALIGN" "large_map_fits (hz10_large_rounded (hz10_shim_request_size sz)) st"
  shows "unat p mod unat al = 0"
proof -
  have "hz10_shim_is_power_of_two al" "hz10_shim_aligned_alloc_impl tid cfg al sz st = Some (p, st')"
    using assms(1,2) by (auto simp: shim_memalign_def shim_aligned_alloc_def posix_memalign_def
        split: if_splits bind_splits)
  then show ?thesis using aligned_impl_aligned assms(2-4) by blast
qed

theorem aligned_allocation_witness:
  "\<exists>p st'. shim_memalign 0 default_config 4096 100 example_shim = Some (p, st') \<and> p \<noteq> 0 \<and> unat p mod 4096 = 0"
proof -
  obtain p st1 where l: "hz10_large_alloc 100 example_shim = (p, st1)" by force
  have "fst (hz10_large_alloc 100 example_shim) \<noteq> 0" by code_simp
  then have p: "p \<noteq> 0" using l by simp
  have m: "shim_memalign 0 default_config 4096 100 example_shim = Some (p, note_os_errno 0 example_shim st1)"
    using l by (simp add: shim_memalign_def hz10_shim_is_power_of_two_def hz10_shim_aligned_alloc_impl_def
        hz10_shim_request_size_def Let_def)
  have r: "hz10_large_rounded (hz10_shim_request_size 100) = 65536" by code_simp
  have f: "large_map_fits (hz10_large_rounded (hz10_shim_request_size 100)) example_shim"
    unfolding r by (simp add: large_map_fits_def example_shim_fields)
  have "(4096 :: u64) > HZ10_MIN_ALIGN" by simp
  from aligned_allocation [OF disjI1 [OF m] p this f] m p show ?thesis by simp
qed



text \<open>A pointer that no live page knows is never freed: \<open>free\<close> aborts the process, or, when
  \<open>HZ10_SHIM_TOLERATE_FOREIGN\<close> is exactly \<open>1\<close>, counts the pointer and does nothing else.\<close>

theorem foreign_free_aborts:
  assumes "ptr \<noteq> 0" "rr_kind (hz10_pagemap_route ptr HZ10_GENERATION_ANY st) \<noteq> H10_ROUTE_VALID"
  shows "shim_free tid cfg env ptr st =
    (if env ''HZ10_SHIM_TOLERATE_FOREIGN'' = Some ''1''
     then Some (Inr ((), st\<lparr>hz10_shim_foreign_free_count := hz10_shim_foreign_free_count st + 1\<rparr>))
     else Some (Inl ''free''))"
proof -
  have "hz10_shim_tolerate_foreign env \<longleftrightarrow> env ''HZ10_SHIM_TOLERATE_FOREIGN'' = Some ''1''"
    by (cases "env ''HZ10_SHIM_TOLERATE_FOREIGN''") (auto simp: hz10_shim_tolerate_foreign_def neq_Nil_conv)
  moreover have "hz10_free tid cfg ptr st = Some (False, st)"
    using assms by (simp add: hz10_free_def fast_route_eq hz10_public_entry_free_slow_route_def)
  ultimately show ?thesis using assms(1) by (simp add: shim_free_def hz10_shim_free_impl_def)
qed

theorem foreign_free_aborts_witness:
  "shim_free 0 default_config (\<lambda>_. None) 0x10008 example_shim = Some (Inl ''free'')"
proof -
  have "hz10_pagemap_root_index (hz10_pagemap_page_index 0x10008) = 0"
    "hz10_pagemap_leaf_index (hz10_pagemap_page_index 0x10008) = 1" by code_simp+
  then have "rr_kind (hz10_pagemap_route 0x10008 HZ10_GENERATION_ANY example_shim) \<noteq> H10_ROUTE_VALID"
    by (simp add: hz10_pagemap_route_def route_record_def Let_def example_shim_fields example_entry_def hz10_pagemap_result_def)
  from foreign_free_aborts [OF _ this, of 0 default_config "\<lambda>_. None"] show ?thesis by simp
qed

text \<open>A size that the large allocator refuses without asking the system leaves \<open>errno\<close> as it was,
  so \<open>posix_memalign\<close>, which reads \<open>errno\<close> to tell its errors apart, answers \<open>EINVAL\<close> for a request
  whose arguments are valid unless \<open>errno\<close> happened to be \<open>ENOMEM\<close> already.\<close>

theorem posix_memalign_stale_errno:
  assumes "hz10_shim_is_power_of_two al" "HZ10_MIN_ALIGN < al" "al \<le> HZ10_PAGE_QUANTUM"
    and "sz > SIZE_MAX - HZ10_PAGE_QUANTUM \<or> hz10_large_rounded sz > 0xffffffff" "os_maps st \<noteq> []"
  shows "posix_memalign tid cfg al sz st = Some (if errno st tid = ENOMEM then ENOMEM else EINVAL, None, st)"
proof -
  have "sz \<noteq> 0" using assms(4) by (auto simp: hz10_large_rounded_def)
  then have "hz10_large_alloc (hz10_shim_request_size sz) st = (0, st)"
    using assms(4) by (auto simp: hz10_large_alloc_def hz10_shim_request_size_def Let_def)
  moreover have "\<not> al < 8" "\<not> al \<le> HZ10_MIN_ALIGN" "\<not> al > HZ10_PAGE_QUANTUM" using assms(2,3) by (simp_all add: word_less_nat_alt word_le_nat_alt)
  ultimately show ?thesis using assms(1,5)
    by (simp add: posix_memalign_def hz10_shim_aligned_alloc_impl_def Let_def note_os_errno_def)
qed

theorem posix_memalign_stale_errno_witness:
  "posix_memalign 0 default_config 64 0x100000000 example_shim = Some (EINVAL, None, example_shim)"
proof -
  have "hz10_shim_is_power_of_two 64" by code_simp
  moreover have "hz10_large_rounded 0x100000000 > 0xffffffff" by code_simp
  ultimately show ?thesis
    using posix_memalign_stale_errno [of 64 "0x100000000" example_shim 0 default_config] by (simp add: example_shim_fields)
qed

text \<open>The census never counts a large block: every block the large allocator registers has no
  owner, and a record without an owner is put down as skipped before its flags are looked at. So
  right after a large allocation the number of large pages it reports is still zero.\<close>

theorem census_never_counts_large:
  assumes "large_unowned st"
  shows "ct_large_pages (census_scan cfg (snd (hz10_large_alloc sz st))) = 0"
proof -
  let ?st = "snd (hz10_large_alloc sz st)"
  have "ct_large_pages (fold (\<lambda>i. census_record cfg ?st (leaf_entries leaf (of_nat i))) ks totals) = ct_large_pages totals"
    if "hz10_pagemap_root ?st (of_nat r) = Some leaf" for r :: nat and leaf totals ks
    by (rule fold_keeps [where f = ct_large_pages], rule census_record_unowned)
      (use large_alloc_unowned [OF assms] that in \<open>auto simp: large_unowned_def\<close>)
  then have "ct_large_pages (census_scan cfg ?st) = ct_large_pages zero_census"
    unfolding census_scan_def by (intro fold_keeps) (auto split: option.splits)
  then show ?thesis by (simp add: zero_census_def)
qed

theorem census_never_counts_large_witness:
  "ct_large_pages (census_scan default_config (snd (hz10_large_alloc 100000
     (example_registry\<lparr>os_maps := [0x7f0000000000, 0x7f0001000000]\<rparr>)))) = 0"
  by (rule census_never_counts_large) (simp add: large_unowned_def example_registry_def)

end
