(* ===== verification/Hz10_Pagemap_Wf.thy ===== *)
theory Hz10_Pagemap_Wf
  imports Hz10_Pagemap
begin

text \<open>
  Well-formedness of the page map: whatever sequence of registrations and releases is run, with
  whatever arguments, each record either was never used or describes a page of the quantum it is
  filed under.
\<close>

definition record_wf :: "nat \<Rightarrow> H10PageRecord \<Rightarrow> bool" where
  "record_wf key rec \<longleftrightarrow> rec = zero_record \<or>
     (rec_base rec \<noteq> 0 \<and> unat (rec_base rec) mod 65536 = 0 \<and> pm_key (rec_base rec) = key \<and>
      rec_slot_count rec \<noteq> 0 \<and>
      (rec_slot_count rec > 1 \<longrightarrow> unat (rec_slot_size rec) * unat (rec_slot_count rec) \<le> 65536))"

datatype pagemap_op = Register addr u32 u32 addr u32 | Release addr

fun pagemap_exec :: "pagemap_op \<Rightarrow> 'a pagemap_state_scheme \<Rightarrow> 'a pagemap_state_scheme" where
  "pagemap_exec (Register b s n ow fl) st = snd (hz10_pagemap_register_with_owner_and_flags b s n ow fl st)"
| "pagemap_exec (Release b) st = snd (hz10_pagemap_release b st)"

definition map_wf :: "'a pagemap_state_scheme \<Rightarrow> bool" where
  "map_wf st \<longleftrightarrow> (\<forall>a. record_wf (pm_key a) (pm_record st a))"

lemma record_wf_release: "record_wf k rec \<Longrightarrow> rec \<noteq> zero_record \<Longrightarrow> record_wf k (rec\<lparr>rec_slot_size := 0\<rparr>)"
  by (auto simp: record_wf_def)

lemma map_wf_exec: "map_wf st \<Longrightarrow> map_wf (pagemap_exec op st)"
proof (induction op)
  case (Register b s n ow fl)
  show ?case
  proof (cases rule: register_cases [of b s n ow fl st])
    case (refused rest)
    then show ?thesis using Register by (simp add: map_wf_def pm_record_def)
  next
    case (entered g st')
    then have "record_wf (pm_key b) \<lparr>rec_base = b, rec_owner = ow, rec_slot_size = s, rec_slot_count = n,
        rec_generation = g, rec_flags = fl\<rparr>" by (auto simp: record_wf_def reg_ok_def)
    then show ?thesis using Register entered by (simp add: map_wf_def)
  qed
next
  case (Release b)
  show ?case
  proof (cases rule: release_cases [of b st])
    case missing
    then show ?thesis using Release by simp
  next
    case (cleared st')
    have "record_wf (pm_key b) (pm_record st b)" using Release by (simp add: map_wf_def)
    moreover have "pm_record st b \<noteq> zero_record" using cleared(5) by (auto simp: zero_record_def)
    ultimately have "record_wf (pm_key b) (pm_record st b\<lparr>rec_slot_size := 0\<rparr>)" by (rule record_wf_release)
    then show ?thesis using Release cleared(1,6) by (simp add: map_wf_def)
  qed
qed

lemma map_wf_run: "map_wf st \<Longrightarrow> map_wf (fold pagemap_exec ops st)"
  by (induction ops arbitrary: st) (simp_all add: map_wf_exec)

text \<open>C16: Any sequence of registrations and releases, accepted or refused, leaves every record of the
  map either untouched since the start or describing a page of the very quantum it is filed under,
  with slots that stay inside the quantum unless the page is one large slot. So whatever pointer is
  routed, a VALID answer has an aligned base and a slot of that page that contains the pointer.\<close>

theorem pagemap_well_formed:
  assumes "hz10_pagemap_root st = (\<lambda>_. None)" and st'_def: "st' = fold pagemap_exec ops st"
  shows "record_wf (pm_key a) (pm_record st' a) \<and>
    (rr_kind (hz10_pagemap_route a g st') = H10_ROUTE_VALID \<longrightarrow>
      unat (rr_page_base (hz10_pagemap_route a g st')) mod 65536 = 0 \<and>
      pm_key (rr_page_base (hz10_pagemap_route a g st')) = pm_key a \<and>
      rr_slot_index (hz10_pagemap_route a g st') < rr_slot_count (hz10_pagemap_route a g st'))"
proof -
  have "map_wf st" using assms(1) by (simp add: map_wf_def pm_record_def record_wf_def)
  then have wf: "record_wf (pm_key a) (pm_record st' a)" for a
    unfolding st'_def using map_wf_run by (auto simp: map_wf_def)
  show ?thesis
  proof (rule conjI [OF _ impI])
    show "record_wf (pm_key a) (pm_record st' a)" by (rule wf)
  next
    assume v: "rr_kind (hz10_pagemap_route a g st') = H10_ROUTE_VALID"
    note V = route_valid_record [OF v]
    have "pm_record st' a \<noteq> zero_record" using V(1) by (auto simp: is_slot_def zero_record_def)
    moreover have "unat (rr_slot_index (hz10_pagemap_route a g st')) < unat (rec_slot_count (pm_record st' a))"
      using V(1) by (simp add: is_slot_def)
    ultimately show "unat (rr_page_base (hz10_pagemap_route a g st')) mod 65536 = 0 \<and>
        pm_key (rr_page_base (hz10_pagemap_route a g st')) = pm_key a \<and>
        rr_slot_index (hz10_pagemap_route a g st') < rr_slot_count (hz10_pagemap_route a g st')"
      using wf [of a] V(2,5) by (auto simp: record_wf_def word_less_nat_alt)
  qed
qed

theorem pagemap_well_formed_witness:
  "record_wf (pm_key 0x10000) (pm_record (fold pagemap_exec [Register 0x10000 64 4 0 0, Release 0x10000,
      Register 0x12345 64 4 0 0] example_pagemap) 0x10000)"
  by (rule pagemap_well_formed [THEN conjunct1, OF _ refl]) (simp add: example_pagemap_def)

end
