(* ===== verification/Hz10_Quantum_Race.thy ===== *)
theory Hz10_Quantum_Race
  imports Hz10_Page_Lifecycle
begin

text \<open>
  \<open>hz10_freelist_reserve_aligned_quantum\<close> taken apart into its atomic steps: the two loads, the
  compare-and-swap of the bump cursor, the lock, the check under it, and the refill with its two
  stores, for any number of threads. Run by one thread alone the steps are the sequential function;
  with two threads there is a schedule that hands out memory of no region.
\<close>

section \<open>The steps\<close>

datatype quantum_pc =
    Q_Start
  | Q_Load_End addr
  | Q_While addr addr
  | Q_Lock
  | Q_Recheck
  | Q_Recheck_End addr
  | Q_Publish_End addr
  | Q_Publish_Cursor addr
  | Q_Unlock
  | Q_Unlock_Null
  | Q_Return addr

record quantum_state = page_heap_state +
  hz10_quantum_region_lock :: "nat option"
  quantum_pc :: "nat \<Rightarrow> quantum_pc"

text \<open>The mapping and the two trims of a refill; the trims of memory nobody else knows are one step
  with the mapping.\<close>

definition quantum_region_map :: "'a page_heap_state_scheme \<Rightarrow> addr option \<times> 'a page_heap_state_scheme" where
  "quantum_region_map st =
    (let bytes = HZ10_PAGE_QUANTUM;
         region_bytes = bytes * HZ10_QUANTUM_REGION_COUNT;
         raw_bytes = region_bytes + bytes;
         (raw_addr, st1) = hz10_platform_reserve_rw raw_bytes st
     in
     if raw_addr = 0 then (None, st1)
     else
       let aligned_addr = (raw_addr + (bytes - 1)) AND NOT (bytes - 1);
           head_trim = aligned_addr - raw_addr;
           tail_trim = raw_bytes - head_trim - region_bytes;
           st2 = (if head_trim > 0 then hz10_platform_release raw_addr head_trim st1 else st1)
       in (Some aligned_addr, if tail_trim > 0
             then hz10_platform_release (aligned_addr + region_bytes) tail_trim st2 else st2))"

definition goto :: "nat \<Rightarrow> quantum_pc \<Rightarrow> 'a quantum_state_scheme \<Rightarrow> 'a quantum_state_scheme" where
  "goto t pc st = st\<lparr>quantum_pc := (quantum_pc st)(t := pc)\<rparr>"

text \<open>The next atomic step of thread \<open>t\<close>. A thread that waits for the lock, or has returned, stays
  where it is; so does a compare-and-swap that fails spuriously.\<close>

definition quantum_step :: "nat \<Rightarrow> 'a quantum_state_scheme \<Rightarrow> 'a quantum_state_scheme" where
  "quantum_step t st = (case quantum_pc st t of
     Q_Start \<Rightarrow> goto t (Q_Load_End (hz10_quantum_region_cursor st)) st
   | Q_Load_End cursor \<Rightarrow> goto t (Q_While cursor (hz10_quantum_region_end st)) st
   | Q_While cursor end_ \<Rightarrow>
       if cursor \<noteq> end_ then
         (if hz10_quantum_region_cursor st = cursor
          then goto t (Q_Return cursor) (st\<lparr>hz10_quantum_region_cursor := cursor + HZ10_PAGE_QUANTUM\<rparr>)
          else goto t (Q_While (hz10_quantum_region_cursor st) end_) st)
       else goto t Q_Lock st
   | Q_Lock \<Rightarrow> (if hz10_quantum_region_lock st = None
                then goto t Q_Recheck (st\<lparr>hz10_quantum_region_lock := Some t\<rparr>) else st)
   | Q_Recheck \<Rightarrow> goto t (Q_Recheck_End (hz10_quantum_region_cursor st)) st
   | Q_Recheck_End cursor \<Rightarrow>
       if cursor = hz10_quantum_region_end st then
         (case quantum_region_map st of
            (None, st1) \<Rightarrow> goto t Q_Unlock_Null st1
          | (Some region, st1) \<Rightarrow> goto t (Q_Publish_End region) st1)
       else goto t Q_Unlock st
   | Q_Publish_End region \<Rightarrow>
       goto t (Q_Publish_Cursor region)
         (st\<lparr>hz10_quantum_region_end := region + HZ10_PAGE_QUANTUM * HZ10_QUANTUM_REGION_COUNT\<rparr>)
   | Q_Publish_Cursor region \<Rightarrow> goto t Q_Unlock (st\<lparr>hz10_quantum_region_cursor := region\<rparr>)
   | Q_Unlock \<Rightarrow> goto t Q_Start (st\<lparr>hz10_quantum_region_lock := None\<rparr>)
   | Q_Unlock_Null \<Rightarrow> goto t (Q_Return 0) (st\<lparr>hz10_quantum_region_lock := None\<rparr>)
   | Q_Return cursor \<Rightarrow> st)"

abbreviation quantum_run :: "nat list \<Rightarrow> 'a quantum_state_scheme \<Rightarrow> 'a quantum_state_scheme" where
  "quantum_run sched st \<equiv> fold quantum_step sched st"

section \<open>One thread alone\<close>

lemma refill_map:
  "quantum_region_refill st = (case quantum_region_map st of
     (None, st1) \<Rightarrow> (False, st1)
   | (Some region, st1) \<Rightarrow>
       (True, st1\<lparr>hz10_quantum_region_end := region + HZ10_PAGE_QUANTUM * HZ10_QUANTUM_REGION_COUNT,
                  hz10_quantum_region_cursor := region\<rparr>))"
  by (simp add: quantum_region_refill_def quantum_region_map_def Let_def split: prod.splits)

lemma release_quantum_frame:
  "hz10_quantum_region_cursor (hz10_platform_release p n st) = hz10_quantum_region_cursor st"
  "hz10_quantum_region_end (hz10_platform_release p n st) = hz10_quantum_region_end st"
  "hz10_quantum_region_lock (hz10_platform_release p n st') = hz10_quantum_region_lock st'"
  "quantum_pc (hz10_platform_release p n st') = quantum_pc st'"
  by (simp_all add: hz10_platform_release_def)

lemma region_map_frame:
  fixes st st1 :: "'a quantum_state_scheme"
  assumes "quantum_region_map st = (region, st1)"
  shows "hz10_quantum_region_cursor st1 = hz10_quantum_region_cursor st"
    "hz10_quantum_region_end st1 = hz10_quantum_region_end st"
    "hz10_quantum_region_lock st1 = hz10_quantum_region_lock st" "quantum_pc st1 = quantum_pc st"
  using assms by (auto simp: quantum_region_map_def Let_def hz10_platform_reserve_rw_def release_quantum_frame
      split: list.splits if_splits)

lemma goto_simps [simp]:
  "quantum_pc (goto t pc st) = (quantum_pc st)(t := pc)"
  "hz10_quantum_region_cursor (goto t pc st) = hz10_quantum_region_cursor st"
  "hz10_quantum_region_end (goto t pc st) = hz10_quantum_region_end st"
  "hz10_quantum_region_lock (goto t pc st) = hz10_quantum_region_lock st"
  "os_trace (goto t pc st) = os_trace st"
  by (simp_all add: goto_def)

lemma goto_updates:
  "goto t pc (goto t pc' st) = goto t pc st"
  "goto t pc (st\<lparr>hz10_quantum_region_lock := l\<rparr>) = (goto t pc st)\<lparr>hz10_quantum_region_lock := l\<rparr>"
  "goto t pc (st\<lparr>hz10_quantum_region_end := e\<rparr>) = (goto t pc st)\<lparr>hz10_quantum_region_end := e\<rparr>"
  "goto t pc (st\<lparr>hz10_quantum_region_cursor := c\<rparr>) = (goto t pc st)\<lparr>hz10_quantum_region_cursor := c\<rparr>"
  by (simp_all add: goto_def)

lemma step_simps:
  "quantum_pc st t = Q_Start \<Longrightarrow> quantum_step t st = goto t (Q_Load_End (hz10_quantum_region_cursor st)) st"
  "quantum_pc st t = Q_Load_End c \<Longrightarrow> quantum_step t st = goto t (Q_While c (hz10_quantum_region_end st)) st"
  "quantum_pc st t = Q_While c c \<Longrightarrow> quantum_step t st = goto t Q_Lock st"
  "quantum_pc st t = Q_While c e \<Longrightarrow> c \<noteq> e \<Longrightarrow> hz10_quantum_region_cursor st = c \<Longrightarrow>
     quantum_step t st = goto t (Q_Return c) (st\<lparr>hz10_quantum_region_cursor := c + HZ10_PAGE_QUANTUM\<rparr>)"
  "quantum_pc st t = Q_Lock \<Longrightarrow> hz10_quantum_region_lock st = None \<Longrightarrow>
     quantum_step t st = goto t Q_Recheck (st\<lparr>hz10_quantum_region_lock := Some t\<rparr>)"
  "quantum_pc st t = Q_Recheck \<Longrightarrow> quantum_step t st = goto t (Q_Recheck_End (hz10_quantum_region_cursor st)) st"
  "quantum_pc st t = Q_Recheck_End c \<Longrightarrow> c = hz10_quantum_region_end st \<Longrightarrow>
     quantum_region_map st = (Some b, st1) \<Longrightarrow> quantum_step t st = goto t (Q_Publish_End b) st1"
  "quantum_pc st t = Q_Recheck_End c \<Longrightarrow> c = hz10_quantum_region_end st \<Longrightarrow>
     quantum_region_map st = (None, st1) \<Longrightarrow> quantum_step t st = goto t Q_Unlock_Null st1"
  "quantum_pc st t = Q_Publish_Cursor b \<Longrightarrow> quantum_step t st = goto t Q_Unlock (st\<lparr>hz10_quantum_region_cursor := b\<rparr>)"
  "quantum_pc st t = Q_Unlock \<Longrightarrow> quantum_step t st = goto t Q_Start (st\<lparr>hz10_quantum_region_lock := None\<rparr>)"
  "quantum_pc st t = Q_Unlock_Null \<Longrightarrow> quantum_step t st = goto t (Q_Return 0) (st\<lparr>hz10_quantum_region_lock := None\<rparr>)"
  "quantum_pc st t = Q_Publish_End b \<Longrightarrow> quantum_step t st = goto t (Q_Publish_Cursor b)
     (st\<lparr>hz10_quantum_region_end := b + HZ10_PAGE_QUANTUM * HZ10_QUANTUM_REGION_COUNT\<rparr>)"
  by (simp_all add: quantum_step_def)

text \<open>The steps of a thread that finds the region exhausted, up to the first of its two stores.\<close>

lemma refill_steps:
  fixes st st1 :: "'a quantum_state_scheme"
  assumes "quantum_pc st u = Q_Start" "hz10_quantum_region_lock st = None"
    and "hz10_quantum_region_cursor st = hz10_quantum_region_end st"
    and "quantum_region_map (goto u (Q_Recheck_End (hz10_quantum_region_cursor st)) st\<lparr>hz10_quantum_region_lock := Some u\<rparr>)
      = (Some region, st1)"
  shows "quantum_run (replicate 7 u) st = goto u (Q_Publish_Cursor region) st1
      \<lparr>hz10_quantum_region_end := region + HZ10_PAGE_QUANTUM * HZ10_QUANTUM_REGION_COUNT\<rparr>"
  using assms by (simp add: numeral_eq_Suc step_simps goto_updates)

text \<open>The map does not depend on where the threads are.\<close>

lemma region_map_threads:
  fixes st :: "'a quantum_state_scheme"
  assumes "quantum_region_map st = (r, st1)"
  shows "quantum_region_map (goto t pc st\<lparr>hz10_quantum_region_lock := l\<rparr>)
    = (r, goto t pc st1\<lparr>hz10_quantum_region_lock := l\<rparr>)"
  using assms by (auto simp: quantum_region_map_def Let_def hz10_platform_reserve_rw_def hz10_platform_release_def goto_def
      split: list.splits if_splits cong del: if_weak_cong)

lemma region_map_goto:
  fixes st :: "'a quantum_state_scheme"
  assumes "quantum_region_map st = (r, st1)"
  shows "quantum_region_map (goto t pc st) = (r, goto t pc st1)"
proof -
  let ?l = "hz10_quantum_region_lock st"
  have 1: "goto t pc st\<lparr>hz10_quantum_region_lock := ?l\<rparr> = goto t pc st" by (simp add: goto_def)
  have "goto t pc st1\<lparr>hz10_quantum_region_lock := hz10_quantum_region_lock st1\<rparr> = goto t pc st1" by (simp add: goto_def)
  then have 2: "goto t pc st1\<lparr>hz10_quantum_region_lock := ?l\<rparr> = goto t pc st1" using region_map_frame(3) [OF assms] by simp
  from region_map_threads [OF assms, where t = t and pc = pc and l = ?l] show ?thesis by (simp only: 1 2)
qed

section \<open>Properties\<close>

text \<open>Run by one thread alone, the atomic steps end, and they end with the address and the cursor
  of the sequential function.\<close>

theorem quantum_alone:
  assumes "quantum_pc st t = Q_Start" "hz10_quantum_region_lock st = None"
  shows "\<exists>n. let st' = quantum_run (replicate n t) st; (r, seq) = hz10_freelist_reserve_aligned_quantum st in
    quantum_pc st' t = Q_Return r \<and> hz10_quantum_region_cursor st' = hz10_quantum_region_cursor seq \<and>
    hz10_quantum_region_end st' = hz10_quantum_region_end seq \<and> os_trace st' = os_trace seq \<and>
    hz10_quantum_region_lock st' = None"
proof (cases "hz10_quantum_region_cursor st = hz10_quantum_region_end st")
  case False
  then show ?thesis using assms
    by (intro exI [of _ 3])
      (simp add: numeral_eq_Suc step_simps goto_updates hz10_freelist_reserve_aligned_quantum.simps [of st] Let_def)
next
  case True
  obtain r st1 where m: "quantum_region_map st = (r, st1)" by force
  note F = region_map_frame [OF m]
  show ?thesis
  proof (cases r)
    case None
    then show ?thesis using assms True m F
      by (intro exI [of _ 7]) (simp add: numeral_eq_Suc step_simps goto_updates region_map_threads [OF m]
          hz10_freelist_reserve_aligned_quantum.simps [of st] refill_map Let_def)
  next
    case (Some region)
    let ?seq = "st1\<lparr>hz10_quantum_region_end := region + 16777216, hz10_quantum_region_cursor := region\<rparr>"
    have "quantum_region_refill st = (True, ?seq)" using m Some by (simp add: refill_map)
    moreover have "region \<noteq> region + 16777216" by simp
    ultimately have "hz10_freelist_reserve_aligned_quantum st = (region, ?seq\<lparr>hz10_quantum_region_cursor := region + 65536\<rparr>)"
      using True by (simp add: hz10_freelist_reserve_aligned_quantum.simps [of st]
          hz10_freelist_reserve_aligned_quantum.simps [of ?seq] Let_def)
    moreover have "quantum_step t x = goto t (Q_Return region) (x\<lparr>hz10_quantum_region_cursor := region + 65536\<rparr>)"
      if "quantum_pc x t = Q_While region (region + 16777216)" "hz10_quantum_region_cursor x = region"
      for x :: "'a quantum_state_scheme"
      using that by (simp add: quantum_step_def)
    ultimately show ?thesis using assms True F Some
      by (intro exI [of _ 12]) (simp add: numeral_eq_Suc step_simps goto_updates region_map_threads [OF m] Let_def)
  qed
qed

text \<open>C20: Two threads: when the region is exhausted, one can read the cursor before, and the end
  after, the other's refill stores the new end. Its comparison then says that the region is not
  exhausted, its compare-and-swap succeeds because the new cursor is not stored yet, and it is handed
  the quantum after the old region, which the allocator has never mapped.\<close>

theorem quantum_race:
  assumes "quantum_pc st t = Q_Start" "quantum_pc st u = Q_Start" "t \<noteq> u" "hz10_quantum_region_lock st = None"
    and "hz10_quantum_region_cursor st = hz10_quantum_region_end st" "quantum_region_map st = (Some region, st1)"
    and "hz10_quantum_region_end st \<noteq> region + HZ10_PAGE_QUANTUM * HZ10_QUANTUM_REGION_COUNT"
    and "\<not> os_mapped (os_trace st1) (hz10_quantum_region_end st)"
  shows "\<exists>sched q. quantum_pc (quantum_run sched st) t = Q_Return q \<and> q = hz10_quantum_region_end st \<and>
    \<not> os_mapped (os_trace (quantum_run sched st)) q"
proof -
  let ?e = "hz10_quantum_region_end st" and ?new = "region + HZ10_PAGE_QUANTUM * HZ10_QUANTUM_REGION_COUNT"
  let ?st = "goto t (Q_Load_End ?e) st"
  let ?mid = "goto u (Q_Publish_Cursor region) (goto t (Q_Load_End ?e) st1)\<lparr>hz10_quantum_region_lock := Some u, hz10_quantum_region_end := ?new\<rparr>"
  note F = region_map_frame [OF assms(6)]
  have m: "quantum_region_map (goto u (Q_Recheck_End (hz10_quantum_region_cursor ?st)) ?st\<lparr>hz10_quantum_region_lock := Some u\<rparr>)
      = (Some region, goto u (Q_Recheck_End ?e) (goto t (Q_Load_End ?e) st1)\<lparr>hz10_quantum_region_lock := Some u\<rparr>)"
  proof -
    have "quantum_region_map ?st = (Some region, goto t (Q_Load_End ?e) st1)"
      using region_map_goto [OF assms(6)] .
    from region_map_threads [OF this] show ?thesis using assms(5) by simp
  qed
  have "quantum_run (replicate 7 u) ?st = ?mid"
    using refill_steps [OF _ _ _ m] assms(1-5) by (simp add: goto_updates)
  moreover have "quantum_step t st = ?st" using assms(1,5) by (simp add: step_simps)
  moreover have "quantum_step t ?mid = goto t (Q_While ?e ?new) ?mid" using assms(3) by (simp add: step_simps)
  moreover have "quantum_step t (goto t (Q_While ?e ?new) ?mid) = goto t (Q_Return ?e) (?mid\<lparr>hz10_quantum_region_cursor := ?e + HZ10_PAGE_QUANTUM\<rparr>)"
    using assms(5,7) F(1) by (simp add: quantum_step_def) (simp add: goto_def)
  ultimately have "quantum_run (t # replicate 7 u @ [t, t]) st = goto t (Q_Return ?e) (?mid\<lparr>hz10_quantum_region_cursor := ?e + HZ10_PAGE_QUANTUM\<rparr>)"
    by simp
  then show ?thesis using assms(8) by (intro exI [of _ "t # replicate 7 u @ [t, t]"] exI [of _ ?e]) simp
qed

text \<open>All quanta of the region that ended at \<open>0x31000000\<close> are handed out; the system has one more
  mapping to give.\<close>

definition example_quantum :: quantum_state where
  "example_quantum = \<lparr>mem = (\<lambda>_. 0), os_maps = [0x7f0000000000], os_clock = [],
     os_trace = [Mapped 0x30000000 0x1000000],
     hz10_pagemap_root = (\<lambda>_. None), pages = (\<lambda>_. zero_page), meta_next = (\<lambda>_. 0),
     hz10_metadata_free_list = 0, hz10_metadata_slab_count = 0, hz10_metadata_node_capacity = 0,
     hz10_quantum_region_cursor = 0x31000000, hz10_quantum_region_end = 0x31000000,
     hz10_quantum_region_lock = None, quantum_pc = (\<lambda>_. Q_Start)\<rparr>"

theorem quantum_alone_witness:
  "\<exists>n. quantum_pc (quantum_run (replicate n 1) example_quantum) 1 = Q_Return 0x7f0000000000"
proof -
  have "quantum_pc example_quantum 1 = Q_Start" "hz10_quantum_region_lock example_quantum = None"
    by (simp_all add: example_quantum_def)
  moreover have "fst (hz10_freelist_reserve_aligned_quantum example_quantum) = 0x7f0000000000" by code_simp
  moreover obtain r seq where "hz10_freelist_reserve_aligned_quantum example_quantum = (r, seq)" by force
  ultimately show ?thesis using quantum_alone [of example_quantum 1] by (auto simp: Let_def)
qed

theorem quantum_race_witness:
  "\<exists>sched. quantum_pc (quantum_run sched example_quantum) 1 = Q_Return 0x31000000 \<and>
     \<not> os_mapped (os_trace (quantum_run sched example_quantum)) 0x31000000"
proof -
  obtain r st1 where m: "quantum_region_map example_quantum = (r, st1)" by force
  have "fst (quantum_region_map example_quantum) = Some 0x7f0000000000" by code_simp
  then have r: "r = Some 0x7f0000000000" using m by simp
  have "\<not> os_mapped (os_trace (snd (quantum_region_map example_quantum))) 0x31000000" by code_simp
  then have "\<not> os_mapped (os_trace st1) (hz10_quantum_region_end example_quantum)"
    using m by (simp add: example_quantum_def)
  from quantum_race [OF _ _ _ _ _ m [unfolded r] _ this, of 1 2] show ?thesis
    by (auto simp: example_quantum_def)
qed

end
