(* ===== verification/Hz12_Size_Class.thy ===== *)
theory Hz12_Size_Class
  imports Hz10_Prelude
begin

text \<open>
  \<open>src/hakozuna-hz12/src/hz12_size_class.{h,c}\<close>: the size classes of HZ12 and the table that finds
  them, one entry per 16 bytes up to 64 KiB. The build options of HZ12 that change behaviour are one
  record; the functions that depend on them take it as their first argument. \<open>c12_thread_cache_bytes\<close> is
  \<open>sizeof(H12ThreadCache)\<close>, which the compiler lays out.
\<close>

type_synonym u8 = "8 word"

record hz12_config =
  c12_classify_span :: bool
  c12_tls_fastpath :: bool
  c12_thread_cache_bytes :: u64
  c12_fine_size_classes :: bool
  c12_fine_linear_max :: nat
  c12_cache_cap :: u32
  c12_max_cached_bytes :: u64
  c12_cache_byte_accounting :: bool
  c12_returned_refill_batch :: bool
  c12_returned_refill_batch_min_class :: u8
  c12_returned_refill_batch_max_class :: u8
  c12_returned_refill_batch_count :: u32
  c12_pressure_gate :: bool
  c12_pressure_threshold :: u8
  c12_cold_skip :: bool
  c12_cold_skip_budget :: u8
  c12_span_bump_batch :: bool
  c12_span_bump_batch_count :: u32
  c12_returned_push_range :: bool
  c12_returned_push_range_chunk :: u32

definition hz12_default_config :: hz12_config where
  "hz12_default_config = \<lparr>c12_classify_span = False, c12_tls_fastpath = False,
     c12_thread_cache_bytes = 20072, c12_fine_size_classes = False, c12_fine_linear_max = 1024, c12_cache_cap = 32,
     c12_max_cached_bytes = 2097152, c12_cache_byte_accounting = True, c12_returned_refill_batch = False,
     c12_returned_refill_batch_min_class = 4, c12_returned_refill_batch_max_class = 12,
     c12_returned_refill_batch_count = 32, c12_pressure_gate = False, c12_pressure_threshold = 4,
     c12_cold_skip = False, c12_cold_skip_budget = 8, c12_span_bump_batch = False,
     c12_span_bump_batch_count = 16, c12_returned_push_range = False, c12_returned_push_range_chunk = 0\<rparr>"

abbreviation (input) HZ12_MIN_SIZE :: u64 where "HZ12_MIN_SIZE \<equiv> 16"
abbreviation (input) HZ12_MAX_CACHED_SIZE :: u64 where "HZ12_MAX_CACHED_SIZE \<equiv> 65536"
abbreviation (input) HZ12_LARGE_CLASS :: u8 where "HZ12_LARGE_CLASS \<equiv> 255"
abbreviation (input) HZ12_SIZE_TABLE_ENTRIES :: nat where "HZ12_SIZE_TABLE_ENTRIES \<equiv> 4096"

section \<open>Classes and their slots\<close>

definition HZ12_FINE_LINEAR_CLASSES :: "hz12_config \<Rightarrow> u8" where
  "HZ12_FINE_LINEAR_CLASSES cfg =
    (if c12_fine_linear_max cfg = 128 then 8 else if c12_fine_linear_max cfg = 256 then 16
     else if c12_fine_linear_max cfg = 512 then 32 else 64)"

definition HZ12_FINE_POWER_BASE :: "hz12_config \<Rightarrow> u64" where
  "HZ12_FINE_POWER_BASE cfg =
    (if c12_fine_linear_max cfg = 128 then 256 else if c12_fine_linear_max cfg = 256 then 512
     else if c12_fine_linear_max cfg = 512 then 1024 else 2048)"

definition HZ12_CLASS_COUNT :: "hz12_config \<Rightarrow> u8" where
  "HZ12_CLASS_COUNT cfg =
    (if \<not> c12_fine_size_classes cfg then 13
     else if c12_fine_linear_max cfg = 128 then 17 else if c12_fine_linear_max cfg = 256 then 24
     else if c12_fine_linear_max cfg = 512 then 39 else 70)"

definition hz12_class_slot_size :: "hz12_config \<Rightarrow> u8 \<Rightarrow> u64" where
  "hz12_class_slot_size cfg class_id =
    (if class_id \<ge> HZ12_CLASS_COUNT cfg then 0
     else if c12_fine_size_classes cfg then
       (if class_id < HZ12_FINE_LINEAR_CLASSES cfg then HZ12_MIN_SIZE * (ucast class_id + 1)
        else push_bit (unat (class_id - HZ12_FINE_LINEAR_CLASSES cfg)) (HZ12_FINE_POWER_BASE cfg))
     else push_bit (unat class_id) HZ12_MIN_SIZE)"

section \<open>The table\<close>

lemma search_step:
  fixes c k :: u8
  assumes "(ucast c + 1 :: u32) < ucast k"
  shows "unat (c + 1) = Suc (unat c)" "unat (c + 1) < unat k"
proof -
  have k: "unat k < 256" and c: "unat c < 256" using unsigned_less [of k, where 'a = nat] unsigned_less [of c, where 'a = nat] by simp_all
  have "unat (ucast c + 1 :: u32) = Suc (unat c)" using c by (simp add: unat_word_ariths unsigned_ucast_eq take_bit_nat_eq_self)
  then have "Suc (unat c) < unat k"
    using assms k by (simp add: word_less_nat_alt unsigned_ucast_eq take_bit_nat_eq_self)
  then show "unat (c + 1) = Suc (unat c)" "unat (c + 1) < unat k" using k by (simp_all add: unat_word_ariths)
qed

text \<open>The inner loop of the initialisation: from class \<open>c\<close> with slot size \<open>slot\<close> upwards.\<close>

function size_class_search :: "hz12_config \<Rightarrow> u64 \<Rightarrow> u8 \<Rightarrow> u64 \<Rightarrow> u8" where
  "size_class_search cfg size_max c slot =
    (if slot < size_max \<and> (ucast c + 1 :: u32) < ucast (HZ12_CLASS_COUNT cfg)
     then size_class_search cfg size_max (c + 1) (hz12_class_slot_size cfg (c + 1))
     else c)"
  by auto

termination
proof (relation "measure (\<lambda>(cfg, m, c, s). unat (HZ12_CLASS_COUNT cfg) - unat c)", goal_cases)
  case (2 cfg size_max c slot)
  then show ?case using search_step [of c "HZ12_CLASS_COUNT cfg"] by simp
qed simp

declare size_class_search.simps [simp del]

record h12_size_state =
  hz12_size_table :: "nat \<Rightarrow> u8"
  hz12_size_table_ready :: bool

definition hz12_size_class_init :: "hz12_config \<Rightarrow> 'a h12_size_state_scheme \<Rightarrow> 'a h12_size_state_scheme" where
  "hz12_size_class_init cfg st =
    (if hz12_size_table_ready st then st
     else st\<lparr>hz12_size_table := (\<lambda>i. if i < HZ12_SIZE_TABLE_ENTRIES
               then size_class_search cfg (push_bit 4 (of_nat i + 1)) 0 (hz12_class_slot_size cfg 0)
               else hz12_size_table st i),
             hz12_size_table_ready := True\<rparr>)"

definition hz12_size_class :: "hz12_config \<Rightarrow> u64 \<Rightarrow> 'a h12_size_state_scheme \<Rightarrow> u8 \<times> 'a h12_size_state_scheme" where
  "hz12_size_class cfg size0 st =
    (let size1 = (if size0 = 0 then HZ12_MIN_SIZE else size0) in
     if size1 > HZ12_MAX_CACHED_SIZE then (HZ12_LARGE_CLASS, st)
     else let st1 = (if \<not> hz12_size_table_ready st then hz12_size_class_init cfg st else st)
       in (hz12_size_table st1 (unat (drop_bit 4 (size1 - 1))), st1))"

section \<open>Slot sizes\<close>

lemma class_count_cases:
  "HZ12_CLASS_COUNT cfg \<in> {13, 17, 24, 39, 70}" "unat (HZ12_CLASS_COUNT cfg) \<le> 70" "0 < HZ12_CLASS_COUNT cfg"
  by (simp_all add: HZ12_CLASS_COUNT_def)

text \<open>The sizes of a configuration, as numbers.\<close>

definition slot_bytes :: "hz12_config \<Rightarrow> nat \<Rightarrow> nat" where
  "slot_bytes cfg c =
    (if c12_fine_size_classes cfg then
       (let l = unat (HZ12_FINE_LINEAR_CLASSES cfg) in
        if c < l then 16 * (c + 1) else unat (HZ12_FINE_POWER_BASE cfg) * 2 ^ (c - l))
     else 16 * 2 ^ c)"

definition class_total :: "hz12_config \<Rightarrow> nat" where
  "class_total cfg = unat (HZ12_CLASS_COUNT cfg)"

text \<open>The shape every build has: \<open>l\<close> classes in steps of 16, then \<open>k + 1\<close> powers of two from \<open>b\<close>.\<close>

lemma table_shape:
  obtains l b k where "class_total cfg = l + k + 1" "16 * l < b" "b mod 16 = 0" "b * 2 ^ k = 65536" "l + k < 70"
    "\<And>c. slot_bytes cfg c = (if c < l then 16 * (c + 1) else b * 2 ^ (c - l))"
    "\<And>c. c < HZ12_CLASS_COUNT cfg \<Longrightarrow> hz12_class_slot_size cfg c
       = (if unat c < l then 16 * (ucast c + 1) else of_nat b * 2 ^ (unat c - l))"
proof (cases "c12_fine_size_classes cfg")
  case False
  show ?thesis
    by (rule that [of 0 12 16])
      (use False in \<open>simp_all add: class_total_def HZ12_CLASS_COUNT_def slot_bytes_def hz12_class_slot_size_def push_bit_eq_mult linorder_not_less [symmetric]\<close>)
next
  case True
  have sub: "unat (c - n) = unat c - unat n" if "\<not> c < n" for c n :: u8
    using that by (simp add: unat_sub not_less)
  show ?thesis
  proof (rule that [of "unat (HZ12_FINE_LINEAR_CLASSES cfg)" "class_total cfg - 1 - unat (HZ12_FINE_LINEAR_CLASSES cfg)"
      "unat (HZ12_FINE_POWER_BASE cfg)"])
    fix c assume "c < HZ12_CLASS_COUNT cfg"
    then have "\<not> HZ12_CLASS_COUNT cfg \<le> c" by simp
    then show "hz12_class_slot_size cfg c = (if unat c < unat (HZ12_FINE_LINEAR_CLASSES cfg) then 16 * (ucast c + 1)
        else of_nat (unat (HZ12_FINE_POWER_BASE cfg)) * 2 ^ (unat c - unat (HZ12_FINE_LINEAR_CLASSES cfg)))"
      using True by (simp add: hz12_class_slot_size_def push_bit_eq_mult sub word_less_nat_alt [of c "HZ12_FINE_LINEAR_CLASSES cfg"])
  next
    fix c
    show "slot_bytes cfg c = (if c < unat (HZ12_FINE_LINEAR_CLASSES cfg) then 16 * (c + 1)
        else unat (HZ12_FINE_POWER_BASE cfg) * 2 ^ (c - unat (HZ12_FINE_LINEAR_CLASSES cfg)))"
      using True by (simp add: slot_bytes_def Let_def)
  qed (use True in \<open>simp_all add: class_total_def HZ12_CLASS_COUNT_def HZ12_FINE_LINEAR_CLASSES_def HZ12_FINE_POWER_BASE_def\<close>)
qed

lemma slot_table:
  assumes "c < class_total cfg"
  shows "slot_bytes cfg c \<le> 65536" "16 \<le> slot_bytes cfg c" "slot_bytes cfg c mod 16 = 0"
    "0 < c \<Longrightarrow> slot_bytes cfg (c - 1) < slot_bytes cfg c" "slot_bytes cfg (class_total cfg - 1) = 65536"
proof -
  obtain l b k where S: "class_total cfg = l + k + 1" "16 * l < b" "b mod 16 = 0" "b * 2 ^ k = 65536" "l + k < 70"
    "\<And>c. slot_bytes cfg c = (if c < l then 16 * (c + 1) else b * 2 ^ (c - l))"
    "\<And>c. c < HZ12_CLASS_COUNT cfg \<Longrightarrow> hz12_class_slot_size cfg c
       = (if unat c < l then 16 * (ucast c + 1) else of_nat b * 2 ^ (unat c - l))"
    by (rule table_shape [of cfg]) (rule that; assumption)
  have "b * 2 ^ (c - l) \<le> b * 2 ^ k" using assms S(1) by (intro mult_le_mono2 power_increasing) auto
  moreover have "b \<le> b * 2 ^ j" for j by simp
  moreover have "b \<ge> 16" using S(2,3) by (cases "b < 16") auto
  moreover have "b \<le> 65536" using S(4) \<open>b \<le> b * 2 ^ k\<close> by simp
  moreover have "16 \<le> b * 2 ^ j" for j using \<open>b \<ge> 16\<close> le_trans [OF _ \<open>b \<le> b * 2 ^ j\<close>] by blast
  moreover have "b * 2 ^ j mod 16 = 0" for j using S(3) by (simp add: mod_0_imp_dvd)
  ultimately show "slot_bytes cfg c \<le> 65536" "16 \<le> slot_bytes cfg c" "slot_bytes cfg c mod 16 = 0"
    using S(2,4) by (auto simp: S(6))
  show "slot_bytes cfg (class_total cfg - 1) = 65536" using S(1,4) by (simp add: S(6))
  show "slot_bytes cfg (c - 1) < slot_bytes cfg c" if "0 < c"
  proof (cases "c \<le> l")
    case True
    then show ?thesis using that S(2) by (cases "c = l") (auto simp: S(6))
  next
    case False
    then have "c - l = Suc (c - 1 - l)" by simp
    then show ?thesis using False \<open>b \<ge> 16\<close> by (simp add: S(6))
  qed
qed

lemma slot_bytes_mono: "c \<le> d \<Longrightarrow> d < class_total cfg \<Longrightarrow> slot_bytes cfg c \<le> slot_bytes cfg d"
proof (induction d)
  case (Suc d)
  then show ?case using slot_table(4) [of "Suc d" cfg] by (cases "c = Suc d") auto
qed simp

lemma slot_size_nat:
  assumes "c < HZ12_CLASS_COUNT cfg"
  shows "unat (hz12_class_slot_size cfg c) = slot_bytes cfg (unat c)"
proof -
  obtain l b k where S: "class_total cfg = l + k + 1" "16 * l < b" "b mod 16 = 0" "b * 2 ^ k = 65536" "l + k < 70"
    "\<And>c. slot_bytes cfg c = (if c < l then 16 * (c + 1) else b * 2 ^ (c - l))"
    "\<And>c. c < HZ12_CLASS_COUNT cfg \<Longrightarrow> hz12_class_slot_size cfg c
       = (if unat c < l then 16 * (ucast c + 1) else of_nat b * 2 ^ (unat c - l))"
    by (rule table_shape [of cfg]) (rule that; assumption)
  have "unat c < class_total cfg" using assms by (simp add: class_total_def word_less_nat_alt)
  note T = slot_table(1) [OF this]
  have "hz12_class_slot_size cfg c = of_nat (slot_bytes cfg (unat c))"
    using S(7) [OF assms] by (simp add: S(6))
  then show ?thesis using T by (simp add: unsigned_of_nat take_bit_nat_eq_self)
qed

section \<open>The class of a size\<close>

lemma search_least:
  assumes "c < HZ12_CLASS_COUNT cfg" "slot = hz12_class_slot_size cfg c" "unat m \<le> 65536"
    "\<And>d. d < unat c \<Longrightarrow> slot_bytes cfg d < unat m"
  shows "size_class_search cfg m c slot < HZ12_CLASS_COUNT cfg \<and>
    unat m \<le> slot_bytes cfg (unat (size_class_search cfg m c slot)) \<and>
    (\<forall>d < unat (size_class_search cfg m c slot). slot_bytes cfg d < unat m)"
  using assms
proof (induction cfg m c slot rule: size_class_search.induct)
  case (1 cfg m c slot)
  have lt: "slot < m \<longleftrightarrow> slot_bytes cfg (unat c) < unat m"
    using slot_size_nat [OF 1(2)] 1(3) by (simp add: word_less_nat_alt)
  show ?case
  proof (cases "slot < m \<and> (ucast c + 1 :: u32) < ucast (HZ12_CLASS_COUNT cfg)")
    case True
    note S = search_step [OF conjunct2 [OF True]]
    have "c + 1 < HZ12_CLASS_COUNT cfg" using S(2) by (simp add: word_less_nat_alt)
    moreover have "slot_bytes cfg d < unat m" if "d < unat (c + 1)" for d
      using that S(1) 1(5) [of d] True lt by (cases "d = unat c") auto
    ultimately show ?thesis using 1(1) [OF True _ refl 1(4)] True
      by (subst (1 2 3) size_class_search.simps) simp
  next
    case False
    have "unat m \<le> slot_bytes cfg (unat c)"
    proof (cases "slot < m")
      case True
      then have "\<not> (ucast c + 1 :: u32) < ucast (HZ12_CLASS_COUNT cfg)" using False by simp
      moreover have "unat c < unat (HZ12_CLASS_COUNT cfg)" "unat (HZ12_CLASS_COUNT cfg) \<le> 70"
        using 1(2) class_count_cases(2) by (simp_all add: word_less_nat_alt)
      ultimately have "unat c = class_total cfg - 1"
        by (simp add: class_total_def word_less_nat_alt unat_word_ariths unsigned_ucast_eq take_bit_nat_eq_self)
      then show ?thesis using slot_table(5) [of "unat c" cfg] 1(4) \<open>unat c < _\<close> by (simp add: class_total_def)
    qed (use lt in simp)
    moreover have "size_class_search cfg m c slot = c"
      by (subst size_class_search.simps) (simp only: False if_False)
    ultimately show ?thesis using 1(2,5) by simp
  qed
qed

definition table_ok :: "hz12_config \<Rightarrow> 'a h12_size_state_scheme \<Rightarrow> bool" where
  "table_ok cfg st \<longleftrightarrow> hz12_size_table_ready st \<longrightarrow>
     (\<forall>i < HZ12_SIZE_TABLE_ENTRIES. hz12_size_table st i
        = size_class_search cfg (push_bit 4 (of_nat i + 1)) 0 (hz12_class_slot_size cfg 0))"

text \<open>The table entry of a size: its size rounded up to whole quanta, and the first class that holds it.\<close>

lemma table_entry:
  assumes "0 < n" "n \<le> 65536"
    and c_def: "c = size_class_search cfg (push_bit 4 (of_nat ((n - 1) div 16) + 1)) 0 (hz12_class_slot_size cfg 0)"
  shows "c < HZ12_CLASS_COUNT cfg" "n \<le> slot_bytes cfg (unat c)" "\<And>d. d < unat c \<Longrightarrow> slot_bytes cfg d < n"
proof -
  let ?q = "(n - 1) div 16"
  let ?m = "push_bit 4 (of_nat ?q + 1) :: u64"
  have q: "?q < 4096" using assms by (intro less_mult_imp_div_less) simp
  have m: "unat ?m = 16 * (?q + 1)"
    using q by (simp add: push_bit_eq_mult unat_word_ariths unsigned_of_nat take_bit_nat_eq_self mod_less)
  have up: "n \<le> 16 * (?q + 1)" "16 * ?q < n" using assms(1) by simp_all
  have "size_class_search cfg ?m 0 (hz12_class_slot_size cfg 0) < HZ12_CLASS_COUNT cfg \<and>
      unat ?m \<le> slot_bytes cfg (unat (size_class_search cfg ?m 0 (hz12_class_slot_size cfg 0))) \<and>
      (\<forall>d < unat (size_class_search cfg ?m 0 (hz12_class_slot_size cfg 0)). slot_bytes cfg d < unat ?m)"
    by (rule search_least) (use class_count_cases(3) m q in auto)
  then have c: "c < HZ12_CLASS_COUNT cfg" "16 * (?q + 1) \<le> slot_bytes cfg (unat c)"
    "\<And>d. d < unat c \<Longrightarrow> slot_bytes cfg d < 16 * (?q + 1)" unfolding c_def m by auto
  show "c < HZ12_CLASS_COUNT cfg" by (rule c)
  show "n \<le> slot_bytes cfg (unat c)" using c(2) up(1) by simp
  show "slot_bytes cfg d < n" if d: "d < unat c" for d
  proof -
    have "d < class_total cfg" using d c(1) by (simp add: class_total_def word_less_nat_alt)
    then have "slot_bytes cfg d mod 16 = 0" by (rule slot_table)
    then have "slot_bytes cfg d \<le> 16 * ?q" using c(3) [OF d] by (auto elim!: dvdE simp: mod_0_imp_dvd dest!: mod_0_imp_dvd)
    then show ?thesis using up(2) by simp
  qed
qed

lemma unat_drop_bit_4: "unat (drop_bit 4 (w :: u64)) = unat w div 16"
  by (simp add: drop_bit_eq_div unat_div)

lemma class_of_size:
  assumes "table_ok cfg st" "hz12_size_class cfg sz st = (c, st')"
  shows "table_ok cfg st'" "unat sz > 65536 \<Longrightarrow> c = HZ12_LARGE_CLASS \<and> st' = st"
    "unat sz \<le> 65536 \<Longrightarrow> c < HZ12_CLASS_COUNT cfg \<and> unat sz \<le> slot_bytes cfg (unat c) \<and>
       (\<forall>d < unat c. slot_bytes cfg d < unat sz)"
proof -
  have init: "table_ok cfg (hz12_size_class_init cfg st)" "hz12_size_table_ready (hz12_size_class_init cfg st)"
    using assms(1) by (auto simp: hz12_size_class_init_def table_ok_def)
  then show "table_ok cfg st'" using assms by (auto simp: hz12_size_class_def Let_def split: if_splits)
  show "unat sz > 65536 \<Longrightarrow> c = HZ12_LARGE_CLASS \<and> st' = st"
    using assms(2) by (cases "sz = 0") (auto simp: hz12_size_class_def Let_def word_less_nat_alt)
  assume le: "unat sz \<le> 65536"
  define n where "n = (if sz = 0 then 16 else unat sz)"
  let ?sz = "if sz = 0 then 16 else sz :: u64"
  have n: "0 < n" "n \<le> 65536" "unat ?sz = n" using le by (auto simp: n_def unat_gt_0)
  have i: "unat (drop_bit 4 (?sz - 1)) = (n - 1) div 16"
  proof -
    have "1 \<le> ?sz" using n by (simp add: word_le_nat_alt)
    then have "unat (?sz - 1) = n - 1" using n(3) unat_sub [of 1 ?sz] by simp
    then show ?thesis by (simp only: unat_drop_bit_4)
  qed
  let ?c = "size_class_search cfg (push_bit 4 (of_nat ((n - 1) div 16) + 1)) 0 (hz12_class_slot_size cfg 0)"
  have "(n - 1) div 16 < 4096" using n by (intro less_mult_imp_div_less) simp
  moreover have "\<not> ?sz > HZ12_MAX_CACHED_SIZE" using n by (simp add: word_less_nat_alt)
  ultimately have "c = ?c"
    using assms init i by (simp add: hz12_size_class_def Let_def table_ok_def split: if_splits)
  with table_entry [OF n(1,2) refl, where cfg = cfg] have c: "c < HZ12_CLASS_COUNT cfg" "n \<le> slot_bytes cfg (unat c)"
    "\<And>d. d < unat c \<Longrightarrow> slot_bytes cfg d < n" by simp_all
  have "unat c = 0" if "sz = 0"
  proof (rule ccontr)
    assume "unat c \<noteq> 0"
    then have "slot_bytes cfg 0 < 16" using c(3) [of 0] that by (simp add: n_def)
    moreover have "0 < class_total cfg" using class_count_cases(3) by (simp add: class_total_def word_less_nat_alt)
    ultimately show False using slot_table(2) [of 0 cfg] by simp
  qed
  then show "c < HZ12_CLASS_COUNT cfg \<and> unat sz \<le> slot_bytes cfg (unat c) \<and> (\<forall>d < unat c. slot_bytes cfg d < unat sz)"
    using c by (cases "sz = 0") (auto simp: n_def)
qed

section \<open>Properties\<close>

text \<open>In every build, the table look-up gives the least class whose slots hold the request: its
  slot size is at least the size and every smaller class is too small. Above 64 KiB it is the
  sentinel. The table is built by the first call, and a second call finds it as it was.\<close>

theorem hz12_size_class_least:
  assumes "table_ok cfg st" "hz12_size_class cfg sz st = (c, st')"
  shows "table_ok cfg st' \<and>
    (if sz > HZ12_MAX_CACHED_SIZE then c = HZ12_LARGE_CLASS
     else c < HZ12_CLASS_COUNT cfg \<and> sz \<le> hz12_class_slot_size cfg c \<and>
       (\<forall>d<c. hz12_class_slot_size cfg d < sz))"
proof -
  have "hz12_class_slot_size cfg d < sz"
    if "d < c" "c < HZ12_CLASS_COUNT cfg" "\<forall>d < unat c. slot_bytes cfg d < unat sz" for d
  proof -
    have "d < HZ12_CLASS_COUNT cfg" using that(1,2) by simp
    then show ?thesis using slot_size_nat that(1,3) by (simp add: word_less_nat_alt)
  qed
  then show ?thesis using class_of_size [OF assms] slot_size_nat [of c cfg]
    by (auto simp: word_less_nat_alt [of 65536] word_le_nat_alt)
qed

theorem hz12_size_class_least_witness:
  "let st = \<lparr>hz12_size_table = (\<lambda>_. 0), hz12_size_table_ready = False\<rparr> in
   100 \<le> hz12_class_slot_size hz12_default_config (fst (hz12_size_class hz12_default_config 100 st)) \<and>
   (\<forall>d < fst (hz12_size_class hz12_default_config 100 st). hz12_class_slot_size hz12_default_config d < 100)"
  using hz12_size_class_least [OF _ prod.collapse [symmetric], of hz12_default_config
      "\<lparr>hz12_size_table = (\<lambda>_. 0), hz12_size_table_ready = False\<rparr>" 100]
  by (simp add: table_ok_def Let_def)

end
