(* ===== verification/Hz12_Span.thy ===== *)
theory Hz12_Span
  imports Hz12_Size_Class
begin

text \<open>
  \<open>src/hakozuna-hz12/src/hz12_span.{h,c}\<close>: the arena, one 4 GiB mapping carved into 64 KiB spans of
  one class each, the table that gives the class of a span, and the sink of returned objects, one
  intrusive list per class, with the snapshots and the detachment that reclaim whole spans.

  \<open>h12_mem\<close> holds 64-bit words by address. The answers of the system call that maps the arena are
  \<open>h12_maps\<close>; 0, or its end, is failure. A function that takes the sink's lock is one step. The
  diagnostic counters of other builds are left out.
\<close>

record h12_span_state = h12_size_state +
  h12_mem :: memory
  h12_maps :: "addr list"
  hz12_arena_base :: addr
  hz12_arena_end :: addr
  hz12_span_cursor :: addr
  hz12_span_init_once :: bool
  hz12_span_class :: "nat \<Rightarrow> u8"
  hz12_span_create_count :: u64
  hz12_returned :: "nat \<Rightarrow> addr"

abbreviation (input) HZ12_SPAN_BYTES :: u64 where "HZ12_SPAN_BYTES \<equiv> 65536"
abbreviation (input) HZ12_ARENA_BYTES :: u64 where "HZ12_ARENA_BYTES \<equiv> 4294967296"
abbreviation (input) HZ12_RETURNED_BATCH_MAX :: u32 where "HZ12_RETURNED_BATCH_MAX \<equiv> 64"

section \<open>The arena\<close>

definition hz12_span_init_real :: "'a h12_span_state_scheme \<Rightarrow> 'a h12_span_state_scheme" where
  "hz12_span_init_real st =
    (case h12_maps st of
       [] \<Rightarrow> st\<lparr>hz12_arena_base := 0, hz12_arena_end := 0\<rparr>
     | base # rest \<Rightarrow>
         if base = 0 then st\<lparr>h12_maps := rest, hz12_arena_base := 0, hz12_arena_end := 0\<rparr>
         else st\<lparr>h12_maps := rest,
                h12_mem := (\<lambda>a. if a - base < HZ12_ARENA_BYTES then 0 else h12_mem st a),
                hz12_arena_base := base, hz12_arena_end := base + HZ12_ARENA_BYTES,
                hz12_span_cursor := base, hz12_returned := (\<lambda>_. 0)\<rparr>)"

definition hz12_span_init :: "'a h12_span_state_scheme \<Rightarrow> 'a h12_span_state_scheme" where
  "hz12_span_init st =
    (if hz12_span_init_once st then st else hz12_span_init_real (st\<lparr>hz12_span_init_once := True\<rparr>))"

definition hz12_span_classify :: "addr \<Rightarrow> 'a h12_span_state_scheme \<Rightarrow> u8 option" where
  "hz12_span_classify ptr st =
    (if hz12_arena_base st = 0 then None
     else let off = ptr - hz12_arena_base st in
       if ptr < hz12_arena_base st \<or> off \<ge> HZ12_ARENA_BYTES then None
       else let c1 = hz12_span_class st (unat (drop_bit 16 off)) in
         if c1 = 0 then None else Some (c1 - 1))"

definition hz12_arena_contains :: "addr \<Rightarrow> 'a h12_span_state_scheme \<Rightarrow> bool" where
  "hz12_arena_contains ptr st \<longleftrightarrow> hz12_arena_base st \<noteq> 0 \<and>
     ptr \<ge> hz12_arena_base st \<and> ptr - hz12_arena_base st < HZ12_ARENA_BYTES"

text \<open>The compare-and-swap of the cursor and the stamp of the class are one step.\<close>

definition hz12_span_carve_for_class :: "u8 \<Rightarrow> 'a h12_span_state_scheme \<Rightarrow> addr \<times> 'a h12_span_state_scheme" where
  "hz12_span_carve_for_class class_id st =
    (let st1 = hz12_span_init st in
     if hz12_arena_base st1 = 0 then (0, st1)
     else
       let cur = hz12_span_cursor st1 in
       if cur + HZ12_SPAN_BYTES > hz12_arena_end st1 then (0, st1)
       else
         let id = unat (drop_bit 16 (cur - hz12_arena_base st1)) in
         (cur, st1\<lparr>hz12_span_cursor := cur + HZ12_SPAN_BYTES,
                   hz12_span_class := (hz12_span_class st1)(id := class_id + 1),
                   hz12_span_create_count := hz12_span_create_count st1 + 1\<rparr>))"

section \<open>The sink of returned objects\<close>

definition hz12_returned_push :: "hz12_config \<Rightarrow> u8 \<Rightarrow> addr \<Rightarrow> 'a h12_span_state_scheme \<Rightarrow> 'a h12_span_state_scheme" where
  "hz12_returned_push cfg class_id ptr st =
    (if class_id \<ge> HZ12_CLASS_COUNT cfg \<or> ptr = 0 then st
     else st\<lparr>h12_mem := (h12_mem st)(ptr := hz12_returned st (unat class_id)),
             hz12_returned := (hz12_returned st)(unat class_id := ptr)\<rparr>)"

text \<open>The private chain of a batch: head, tail, how many were linked, and the memory.\<close>

fun link_batch :: "addr list \<Rightarrow> addr \<Rightarrow> addr \<Rightarrow> u32 \<Rightarrow> memory \<Rightarrow> addr \<times> addr \<times> u32 \<times> memory" where
  "link_batch [] head tail linked m = (head, tail, linked, m)"
| "link_batch (p # ps) head tail linked m =
    (if p = 0 then link_batch ps head tail linked m
     else link_batch ps p (if tail = 0 then p else tail) (linked + 1) (m(p := head)))"

definition hz12_returned_push_chain :: "u8 \<Rightarrow> addr list \<Rightarrow> 'a h12_span_state_scheme \<Rightarrow> u32 \<times> 'a h12_span_state_scheme" where
  "hz12_returned_push_chain class_id items st =
    (case link_batch items 0 0 0 (h12_mem st) of (head, tail, linked_count, m) \<Rightarrow>
       if head = 0 then (0, st\<lparr>h12_mem := m\<rparr>)
       else (linked_count, st\<lparr>h12_mem := m(tail := hz12_returned st (unat class_id)),
               hz12_returned := (hz12_returned st)(unat class_id := head)\<rparr>))"

function push_range_chunks :: "nat \<Rightarrow> u8 \<Rightarrow> addr list \<Rightarrow> 'a h12_span_state_scheme \<Rightarrow> 'a h12_span_state_scheme" where
  "push_range_chunks chunk class_id items st =
    (if items = [] \<or> chunk = 0 then st
     else push_range_chunks chunk class_id (drop chunk items)
            (snd (hz12_returned_push_chain class_id (take chunk items) st)))"
  by auto

termination
  by (relation "measure (\<lambda>(k, c, items, st). length items)") auto

declare push_range_chunks.simps [simp del]

definition hz12_returned_push_range :: "hz12_config \<Rightarrow> u8 \<Rightarrow> addr list \<Rightarrow> 'a h12_span_state_scheme \<Rightarrow> 'a h12_span_state_scheme" where
  "hz12_returned_push_range cfg class_id items st =
    (if class_id \<ge> HZ12_CLASS_COUNT cfg \<or> items = [] then st
     else if c12_returned_push_range_chunk cfg \<noteq> 0
     then push_range_chunks (unat (c12_returned_push_range_chunk cfg)) class_id items st
     else snd (hz12_returned_push_chain class_id items st))"

definition hz12_returned_pop :: "hz12_config \<Rightarrow> u8 \<Rightarrow> 'a h12_span_state_scheme \<Rightarrow> addr \<times> 'a h12_span_state_scheme" where
  "hz12_returned_pop cfg class_id st =
    (if class_id \<ge> HZ12_CLASS_COUNT cfg then (0, st)
     else let p = hz12_returned st (unat class_id) in
       (p, if p \<noteq> 0 then st\<lparr>hz12_returned := (hz12_returned st)(unat class_id := h12_mem st p)\<rparr> else st))"

fun pop_range_loop :: "nat \<Rightarrow> addr \<Rightarrow> memory \<Rightarrow> addr list \<times> addr" where
  "pop_range_loop 0 head m = ([], head)"
| "pop_range_loop (Suc k) head m =
    (if head = 0 then ([], head)
     else case pop_range_loop k (m head) m of (ps, head') \<Rightarrow> (head # ps, head'))"

definition hz12_returned_pop_range :: "hz12_config \<Rightarrow> u8 \<Rightarrow> u32 \<Rightarrow> 'a h12_span_state_scheme \<Rightarrow> addr list \<times> 'a h12_span_state_scheme" where
  "hz12_returned_pop_range cfg class_id max_count st =
    (if class_id \<ge> HZ12_CLASS_COUNT cfg \<or> max_count = 0 then ([], st)
     else case pop_range_loop (unat max_count) (hz12_returned st (unat class_id)) (h12_mem st) of
       (ps, head) \<Rightarrow> (ps, st\<lparr>hz12_returned := (hz12_returned st)(unat class_id := head)\<rparr>))"

section \<open>Walks over the sink\<close>

text \<open>A walk that changes no link: every read-only traversal of the sink has this shape.\<close>

partial_function (option) sink_walk :: "(addr \<Rightarrow> 'b \<Rightarrow> 'b) \<Rightarrow> addr \<Rightarrow> memory \<Rightarrow> 'b \<Rightarrow> 'b option" where
  "sink_walk visit current m acc =
    (if current = 0 then Some acc else sink_walk visit (m current) m (visit current acc))"

text \<open>A walk by the address of the link, \<open>None\<close> for the head of the sink itself, that unlinks the nodes
  that satisfy \<open>drops\<close>.\<close>

partial_function (option) unlink_walk :: "(addr \<Rightarrow> bool) \<Rightarrow> addr option \<Rightarrow> addr \<Rightarrow> memory \<Rightarrow> u32 \<Rightarrow>
    (u32 \<times> addr \<times> memory) option" where
  "unlink_walk drops link head m n =
    (let current = (case link of None \<Rightarrow> head | Some l \<Rightarrow> m l) in
     if current = 0 then Some (n, head, m)
     else if drops current then
       (case link of None \<Rightarrow> unlink_walk drops link (m current) m (n + 1)
        | Some l \<Rightarrow> unlink_walk drops link head (m(l := m current)) (n + 1))
     else unlink_walk drops (Some current) head m n)"

definition in_span :: "addr \<Rightarrow> addr \<Rightarrow> bool" where
  "in_span span_begin value \<longleftrightarrow> value \<ge> span_begin \<and> value < span_begin + HZ12_SPAN_BYTES"

definition hz12_returned_count_in_span :: "hz12_config \<Rightarrow> u8 \<Rightarrow> addr \<Rightarrow> 'a h12_span_state_scheme \<Rightarrow> u32 option" where
  "hz12_returned_count_in_span cfg class_id span_base st =
    (if class_id \<ge> HZ12_CLASS_COUNT cfg \<or> span_base = 0 then Some 0
     else sink_walk (\<lambda>p n. if in_span span_base p then n + 1 else n)
            (hz12_returned st (unat class_id)) (h12_mem st) 0)"

record H12ReturnedSpanSnapshot =
  sn_objects :: u32
  sn_unique_slots :: u32
  sn_duplicate_slots :: u32
  sn_invalid_slots :: u32
  sn_slot_capacity :: u32
  sn_complete :: bool

definition empty_snapshot :: "u32 \<Rightarrow> H12ReturnedSpanSnapshot" where
  "empty_snapshot capacity = \<lparr>sn_objects = 0, sn_unique_slots = 0, sn_duplicate_slots = 0,
     sn_invalid_slots = 0, sn_slot_capacity = capacity, sn_complete = False\<rparr>"

text \<open>What one object at \<open>offset\<close> into a span does to the snapshot and to the bitmap of slots seen.\<close>

definition count_slot :: "u64 \<Rightarrow> u64 \<Rightarrow> H12ReturnedSpanSnapshot \<times> (nat \<Rightarrow> u64) \<Rightarrow> H12ReturnedSpanSnapshot \<times> (nat \<Rightarrow> u64)" where
  "count_slot slot_size offset = (\<lambda>(out, slots).
    let out1 = out\<lparr>sn_objects := sn_objects out + 1\<rparr> in
    if offset mod slot_size \<noteq> 0 then (out1\<lparr>sn_invalid_slots := sn_invalid_slots out1 + 1\<rparr>, slots)
    else
      let slot = (ucast (offset div slot_size) :: u32) in
      if slot \<ge> sn_slot_capacity out1 then (out1\<lparr>sn_invalid_slots := sn_invalid_slots out1 + 1\<rparr>, slots)
      else
        let word = unat (slot div 64); bitmask = push_bit (unat (slot mod 64)) (1 :: u64) in
        if slots word AND bitmask \<noteq> 0
        then (out1\<lparr>sn_duplicate_slots := sn_duplicate_slots out1 + 1\<rparr>, slots)
        else (out1\<lparr>sn_unique_slots := sn_unique_slots out1 + 1\<rparr>, slots(word := slots word OR bitmask)))"

definition finish_snapshot :: "H12ReturnedSpanSnapshot \<Rightarrow> H12ReturnedSpanSnapshot" where
  "finish_snapshot out = out\<lparr>sn_complete := sn_unique_slots out = sn_slot_capacity out \<and>
     sn_objects out = sn_slot_capacity out \<and> sn_duplicate_slots out = 0 \<and> sn_invalid_slots out = 0\<rparr>"

definition span_capacity :: "u64 \<Rightarrow> u32" where
  "span_capacity slot_size = ucast (HZ12_SPAN_BYTES div slot_size)"

definition span_snapshot :: "u64 \<Rightarrow> addr \<Rightarrow> addr \<Rightarrow> memory \<Rightarrow> H12ReturnedSpanSnapshot option" where
  "span_snapshot slot_size span_base head m =
    map_option (\<lambda>(out, slots). finish_snapshot out)
      (sink_walk (\<lambda>p acc. if in_span span_base p then count_slot slot_size (p - span_base) acc else acc)
         head m (empty_snapshot (span_capacity slot_size), \<lambda>_. 0))"

text \<open>The outer option is the walk that may not end, the inner one the return value 0.\<close>

definition hz12_returned_snapshot_span :: "hz12_config \<Rightarrow> u8 \<Rightarrow> addr \<Rightarrow> 'a h12_span_state_scheme \<Rightarrow>
    H12ReturnedSpanSnapshot option option" where
  "hz12_returned_snapshot_span cfg class_id span_base st =
    (let slot_size = hz12_class_slot_size cfg class_id in
     if class_id \<ge> HZ12_CLASS_COUNT cfg \<or> span_base = 0 \<or> slot_size = 0 then Some None
     else map_option Some (span_snapshot slot_size span_base (hz12_returned st (unat class_id)) (h12_mem st)))"

section \<open>Several spans in one walk\<close>

definition hz12_returned_batch_target :: "(nat \<Rightarrow> u8) \<Rightarrow> addr \<Rightarrow> addr \<Rightarrow> nat option" where
  "hz12_returned_batch_target target_by_span base ptr =
    (let offset = ptr - base in
     if ptr < base \<or> offset \<ge> HZ12_ARENA_BYTES then None
     else let t = target_by_span (unat (drop_bit 16 offset)) in
       if t = 0 then None else Some (unat t - 1))"

text \<open>The loop that fills \<open>target_by_span\<close>; \<open>None\<close> is an early return 0.\<close>

fun batch_targets :: "addr \<Rightarrow> addr list \<Rightarrow> nat \<Rightarrow> (nat \<Rightarrow> u8) \<Rightarrow> (nat \<Rightarrow> u8) option" where
  "batch_targets base [] i target_by_span = Some target_by_span"
| "batch_targets base (value # rest) i target_by_span =
    (if value < base then None
     else let offset = value - base in
       if offset \<ge> HZ12_ARENA_BYTES \<or> offset AND (HZ12_SPAN_BYTES - 1) \<noteq> 0 then None
       else let span_id = unat (drop_bit 16 offset) in
         if target_by_span span_id \<noteq> 0 then None
         else batch_targets base rest (i + 1) (target_by_span(span_id := of_nat (i + 1))))"

definition batch_visit :: "u64 \<Rightarrow> addr list \<Rightarrow> (addr \<Rightarrow> nat option) \<Rightarrow> addr \<Rightarrow>
    (H12ReturnedSpanSnapshot \<times> (nat \<Rightarrow> u64)) list \<Rightarrow> (H12ReturnedSpanSnapshot \<times> (nat \<Rightarrow> u64)) list" where
  "batch_visit slot_size span_bases target p acc =
    (case target p of None \<Rightarrow> acc
     | Some t \<Rightarrow> acc[t := count_slot slot_size (p - span_bases ! t) (acc ! t)])"

text \<open>The snapshots of a call that returns 1; the inner \<open>None\<close> is a call that returns 0.\<close>

definition hz12_returned_batch :: "hz12_config \<Rightarrow> u8 \<Rightarrow> addr list \<Rightarrow> bool \<Rightarrow> 'a h12_span_state_scheme \<Rightarrow>
    (H12ReturnedSpanSnapshot list option \<times> 'a h12_span_state_scheme) option" where
  "hz12_returned_batch cfg class_id span_bases detach_complete st =
    (let slot_size = hz12_class_slot_size cfg class_id; base = hz12_arena_base st in
     if span_bases = [] \<or> length span_bases > unat HZ12_RETURNED_BATCH_MAX \<or>
        class_id \<ge> HZ12_CLASS_COUNT cfg \<or> slot_size = 0 \<or> base = 0
     then Some (None, st)
     else case batch_targets base span_bases 0 (\<lambda>_. 0) of
       None \<Rightarrow> Some (None, st)
     | Some target_by_span \<Rightarrow>
         let target = hz12_returned_batch_target target_by_span base;
             head = hz12_returned st (unat class_id) in
         case sink_walk (batch_visit slot_size span_bases target) head (h12_mem st)
                (replicate (length span_bases) (empty_snapshot (span_capacity slot_size), \<lambda>_. 0)) of
           None \<Rightarrow> None
         | Some acc \<Rightarrow>
             let out = map (finish_snapshot \<circ> fst) acc in
             if \<not> detach_complete then Some (Some out, st)
             else case unlink_walk (\<lambda>p. case target p of None \<Rightarrow> False | Some t \<Rightarrow> sn_complete (out ! t))
                         None head (h12_mem st) 0 of
               None \<Rightarrow> None
             | Some (_, head', m) \<Rightarrow> Some (Some out, st\<lparr>h12_mem := m,
                 hz12_returned := (hz12_returned st)(unat class_id := head')\<rparr>))"

definition hz12_returned_snapshot_batch :: "hz12_config \<Rightarrow> u8 \<Rightarrow> addr list \<Rightarrow> 'a h12_span_state_scheme \<Rightarrow>
    (H12ReturnedSpanSnapshot list option \<times> 'a h12_span_state_scheme) option" where
  "hz12_returned_snapshot_batch cfg class_id span_bases st =
    hz12_returned_batch cfg class_id span_bases False st"

definition hz12_returned_detach_complete_batch :: "hz12_config \<Rightarrow> u8 \<Rightarrow> addr list \<Rightarrow> 'a h12_span_state_scheme \<Rightarrow>
    (H12ReturnedSpanSnapshot list option \<times> 'a h12_span_state_scheme) option" where
  "hz12_returned_detach_complete_batch cfg class_id span_bases st =
    hz12_returned_batch cfg class_id span_bases True st"

section \<open>Detachment of one span\<close>

text \<open>The return value, the snapshot where one was taken, and the state.\<close>

definition hz12_returned_detach_complete_span :: "hz12_config \<Rightarrow> u8 \<Rightarrow> addr \<Rightarrow> 'a h12_span_state_scheme \<Rightarrow>
    (bool \<times> H12ReturnedSpanSnapshot option \<times> 'a h12_span_state_scheme) option" where
  "hz12_returned_detach_complete_span cfg class_id span_base st =
    (let slot_size = hz12_class_slot_size cfg class_id; head = hz12_returned st (unat class_id) in
     if class_id \<ge> HZ12_CLASS_COUNT cfg \<or> span_base = 0 \<or> slot_size = 0 then Some (False, None, st)
     else case span_snapshot slot_size span_base head (h12_mem st) of
       None \<Rightarrow> None
     | Some out \<Rightarrow>
         if \<not> sn_complete out then Some (False, Some out, st)
         else case unlink_walk (in_span span_base) None head (h12_mem st) 0 of
           None \<Rightarrow> None
         | Some (_, head', m) \<Rightarrow> Some (True, Some out, st\<lparr>h12_mem := m,
             hz12_returned := (hz12_returned st)(unat class_id := head')\<rparr>))"

definition hz12_returned_detach_span :: "hz12_config \<Rightarrow> u8 \<Rightarrow> addr \<Rightarrow> 'a h12_span_state_scheme \<Rightarrow>
    (u32 \<times> 'a h12_span_state_scheme) option" where
  "hz12_returned_detach_span cfg class_id span_base st =
    (if class_id \<ge> HZ12_CLASS_COUNT cfg \<or> span_base = 0 then Some (0, st)
     else case unlink_walk (in_span span_base) None (hz12_returned st (unat class_id)) (h12_mem st) 0 of
       None \<Rightarrow> None
     | Some (n, head', m) \<Rightarrow> Some (n, st\<lparr>h12_mem := m,
         hz12_returned := (hz12_returned st)(unat class_id := head')\<rparr>))"

definition span_id_of :: "addr \<Rightarrow> 'a h12_span_state_scheme \<Rightarrow> nat option" where
  "span_id_of span_base st =
    (let base = hz12_arena_base st; offset = span_base - base in
     if base = 0 \<or> span_base = 0 \<or> span_base < base \<or> offset \<ge> HZ12_ARENA_BYTES \<or>
        offset AND (HZ12_SPAN_BYTES - 1) \<noteq> 0 then None
     else Some (unat (drop_bit 16 offset)))"

definition hz12_span_route_detach :: "addr \<Rightarrow> u8 \<Rightarrow> 'a h12_span_state_scheme \<Rightarrow> bool \<times> 'a h12_span_state_scheme" where
  "hz12_span_route_detach span_base expected_class_id st =
    (case span_id_of span_base st of
       None \<Rightarrow> (False, st)
     | Some span_id \<Rightarrow>
         if hz12_span_class st span_id \<noteq> expected_class_id + 1 then (False, st)
         else (True, st\<lparr>hz12_span_class := (hz12_span_class st)(span_id := 0)\<rparr>))"

definition hz12_span_route_attach :: "hz12_config \<Rightarrow> addr \<Rightarrow> u8 \<Rightarrow> 'a h12_span_state_scheme \<Rightarrow>
    bool \<times> 'a h12_span_state_scheme" where
  "hz12_span_route_attach cfg span_base class_id st =
    (if class_id \<ge> HZ12_CLASS_COUNT cfg then (False, st)
     else case span_id_of span_base st of
       None \<Rightarrow> (False, st)
     | Some span_id \<Rightarrow>
         if hz12_span_class st span_id \<noteq> 0 then (False, st)
         else (True, st\<lparr>hz12_span_class := (hz12_span_class st)(span_id := class_id + 1)\<rparr>))"

end
