(* ===== verification/Hz12_Span_Correct.thy ===== *)
theory Hz12_Span_Correct
  imports Hz12_Span
begin

text \<open>
  Correctness of \<open>Hz12_Span\<close>: the walks over a sink that is a list, batches, the snapshots of a span
  and what its detachment leaves, the arena, and what happens to a sink into which an object was
  pushed twice.
\<close>

section \<open>Walks over a list\<close>

lemma sink_walk_chain: "chain m h xs \<Longrightarrow> sink_walk visit h m acc = Some (fold visit xs acc)"
proof (induction xs arbitrary: h acc)
  case Nil
  then show ?case by (subst sink_walk.simps) simp
next
  case (Cons x xs)
  then show ?case by (subst sink_walk.simps) simp
qed

lemmas sink_walk_induct = sink_walk.raw_induct [rotated, consumes 1, case_names step]

text \<open>A walk that ends walked a list.\<close>

lemma sink_walk_ends: "sink_walk visit h m acc = Some r \<Longrightarrow> \<exists>xs. chain m h xs \<and> r = fold visit xs acc"
proof (induction rule: sink_walk_induct)
  case (step walk visit h m acc r)
  show ?case
  proof (cases "h = 0")
    case True
    then show ?thesis using step(2) by (intro exI [of _ "[]"]) simp
  next
    case False
    then obtain xs where "chain m (m h) xs" "r = fold visit xs (visit h acc)"
      using step(1) [of visit "m h" m "visit h acc" r] step(2) by auto
    then show ?thesis using False by (intro exI [of _ "h # xs"]) simp
  qed
qed

lemma unlink_walk_link:
  assumes "chain m (m l) xs" "l \<notin> set xs"
  shows "\<exists>m'. unlink_walk drops (Some l) head m n
      = Some (n + of_nat (length (filter drops xs)), head, m')
    \<and> chain m' (m' l) (filter (\<lambda>x. \<not> drops x) xs)
    \<and> (\<forall>a. a \<notin> insert l (set (filter (\<lambda>x. \<not> drops x) xs)) \<longrightarrow> m' a = m a)"
  using assms
proof (induction xs arbitrary: l m n)
  case Nil
  then show ?case by (subst unlink_walk.simps) simp
next
  case (Cons x xs)
  have x: "m l = x" "x \<noteq> 0" "chain m (m x) xs" "x \<notin> set xs" "l \<noteq> x" "l \<notin> set xs"
    using Cons.prems chain_distinct [OF Cons.prems(1)] by auto
  show ?case
  proof (cases "drops x")
    case True
    have "chain (m(l := m x)) ((m(l := m x)) l) xs" using x by simp
    from Cons.IH [OF this x(6), of "n + 1"] obtain m' where
      "unlink_walk drops (Some l) head (m(l := m x)) (n + 1)
        = Some (n + 1 + of_nat (length (filter drops xs)), head, m')"
      "chain m' (m' l) (filter (\<lambda>x. \<not> drops x) xs)"
      "\<forall>a. a \<notin> insert l (set (filter (\<lambda>x. \<not> drops x) xs)) \<longrightarrow> m' a = (m(l := m x)) a" by blast
    then show ?thesis using True x
      by (intro exI [of _ m']) (subst unlink_walk.simps, simp add: add.assoc)
  next
    case False
    from Cons.IH [OF x(3,4), of n] obtain m' where
      "unlink_walk drops (Some x) head m n = Some (n + of_nat (length (filter drops xs)), head, m')"
      "chain m' (m' x) (filter (\<lambda>x. \<not> drops x) xs)"
      "\<forall>a. a \<notin> insert x (set (filter (\<lambda>x. \<not> drops x) xs)) \<longrightarrow> m' a = m a" by blast
    then show ?thesis using False x
      by (intro exI [of _ m']) (subst unlink_walk.simps, auto)
  qed
qed

lemma unlink_walk_chain:
  assumes "chain m h xs"
  obtains h' m' where "unlink_walk drops None h m n = Some (n + of_nat (length (filter drops xs)), h', m')"
    "chain m' h' (filter (\<lambda>x. \<not> drops x) xs)"
    "\<And>a. a \<notin> set (filter (\<lambda>x. \<not> drops x) xs) \<Longrightarrow> m' a = m a"
proof -
  have "\<exists>h' m'. unlink_walk drops None h m n = Some (n + of_nat (length (filter drops xs)), h', m')
    \<and> chain m' h' (filter (\<lambda>x. \<not> drops x) xs)
    \<and> (\<forall>a. a \<notin> set (filter (\<lambda>x. \<not> drops x) xs) \<longrightarrow> m' a = m a)"
    using assms
  proof (induction xs arbitrary: h n)
    case Nil
    then show ?case by (subst unlink_walk.simps) simp
  next
    case (Cons x xs)
    have x: "h = x" "x \<noteq> 0" "chain m (m x) xs" "x \<notin> set xs"
      using Cons.prems chain_distinct [OF Cons.prems] by auto
    show ?case
    proof (cases "drops x")
      case True
      from Cons.IH [OF x(3), of "n + 1"] show ?thesis using True x
        by (subst unlink_walk.simps) (simp add: add.assoc)
    next
      case False
      then show ?thesis using unlink_walk_link [OF x(3,4), of drops x n] x
        by (subst unlink_walk.simps) auto
    qed
  qed
  then show ?thesis using that by blast
qed

section \<open>Pushes and pops of batches\<close>

lemma chain_append:
  assumes "chain m h (ys @ [t])" "chain m k xs" "t \<notin> set xs"
  shows "chain (m(t := k)) h (ys @ t # xs)"
  using assms
proof (induction ys arbitrary: h)
  case (Cons y ys)
  have "y \<noteq> t" using chain_distinct [OF Cons.prems(1)] by auto
  then show ?case using Cons by auto
qed simp

definition tail_list :: "addr \<Rightarrow> addr list" where
  "tail_list t = (if t = 0 then [] else [t])"

text \<open>The private chain: the batch reversed, in front of what was linked before.\<close>

lemma link_batch_chain:
  assumes "chain m head (ys @ tail_list tail)" "tail = 0 \<Longrightarrow> ys = []"
    "distinct (filter (\<lambda>p. p \<noteq> 0) ps)" "set ps \<inter> set (ys @ tail_list tail) = {}"
    "link_batch ps head tail n m = (h', t', n', m')"
  shows "\<exists>ys'. chain m' h' (ys' @ tail_list t') \<and> (t' = 0 \<longrightarrow> ys' = []) \<and>
    ys' @ tail_list t'
      = rev (filter (\<lambda>p. p \<noteq> 0) ps) @ ys @ tail_list tail \<and>
    n' = n + of_nat (length (filter (\<lambda>p. p \<noteq> 0) ps)) \<and>
    (\<forall>a. a \<notin> set ps \<longrightarrow> m' a = m a)"
  using assms
proof (induction ps arbitrary: head tail n m ys)
  case (Cons p ps)
  show ?case
  proof (cases "p = 0")
    case True
    then show ?thesis using Cons.IH [OF Cons.prems(1,2), of n] Cons.prems(3-5) by simp blast
  next
    case False
    let ?t = "if tail = 0 then p else tail" and ?ys = "if tail = 0 then [] else p # ys"
    have eq: "?ys @ tail_list ?t = p # ys @ tail_list tail"
      using False Cons.prems(2) by (auto simp: tail_list_def)
    have p: "p \<notin> set (ys @ tail_list tail)" "p \<notin> set ps"
      using Cons.prems(3,4) False by auto
    have c: "chain (m(p := head)) p (?ys @ tail_list ?t)"
      unfolding eq using Cons.prems(1) p(1) False by simp
    have d: "set ps \<inter> set (?ys @ tail_list ?t) = {}"
      unfolding eq using Cons.prems(4) p(2) by auto
    have run: "link_batch ps p ?t (n + 1) (m(p := head)) = (h', t', n', m')"
      using Cons.prems(5) False by simp
    have t0: "?t = 0 \<Longrightarrow> ?ys = []" using False by (auto split: if_splits)
    have "distinct (filter (\<lambda>p. p \<noteq> 0) ps)" using Cons.prems(3) False by simp
    from Cons.IH [OF c t0 this d run] obtain ys' where ys': "chain m' h' (ys' @ tail_list t')" "t' = 0 \<longrightarrow> ys' = []"
      "ys' @ tail_list t' = rev (filter (\<lambda>p. p \<noteq> 0) ps) @ ?ys @ tail_list ?t"
      "n' = n + 1 + of_nat (length (filter (\<lambda>p. p \<noteq> 0) ps))"
      "\<forall>a. a \<notin> set ps \<longrightarrow> m' a = (m(p := head)) a"
      by blast
    show ?thesis
      by (rule exI [of _ ys']) (use ys' eq False in \<open>simp add: algebra_simps\<close>)
  qed
qed auto

lemma link_batch_fresh:
  assumes "distinct (filter (\<lambda>p. p \<noteq> 0) ps)" "link_batch ps 0 0 0 m = (h', t', n', m')"
  obtains (empty) "filter (\<lambda>p. p \<noteq> 0) ps = []" "h' = 0" "n' = 0" "\<And>a. a \<notin> set ps \<Longrightarrow> m' a = m a"
  | (batch) ys where "rev (filter (\<lambda>p. p \<noteq> 0) ps) = ys @ [t']" "chain m' h' (ys @ [t'])" "h' \<noteq> 0"
    "n' = of_nat (length (filter (\<lambda>p. p \<noteq> 0) ps))" "\<And>a. a \<notin> set ps \<Longrightarrow> m' a = m a"
proof -
  obtain ys where ys: "chain m' h' (ys @ tail_list t')" "t' = 0 \<longrightarrow> ys = []"
    "ys @ tail_list t' = rev (filter (\<lambda>p. p \<noteq> 0) ps)"
    "n' = of_nat (length (filter (\<lambda>p. p \<noteq> 0) ps))" "\<forall>a. a \<notin> set ps \<longrightarrow> m' a = m a"
    using link_batch_chain [of m 0 "[]" 0 ps 0 h' t' n' m'] assms by (auto simp: tail_list_def)
  show ?thesis
  proof (cases "t' = 0")
    case True
    then show ?thesis using ys empty by (auto simp: tail_list_def)
  next
    case False
    have "h' \<noteq> 0" using ys(1) False by (auto simp: tail_list_def)
    then show ?thesis using ys False batch [of ys] by (auto simp: tail_list_def)
  qed
qed

text \<open>The sink of a class holds the nodes \<open>xs\<close>, first the next one to be popped.\<close>

definition sink_list :: "'a h12_span_state_scheme \<Rightarrow> u8 \<Rightarrow> addr list \<Rightarrow> bool" where
  "sink_list st c xs \<longleftrightarrow> chain (h12_mem st) (hz12_returned st (unat c)) xs"

lemma push_chain_sink:
  assumes "sink_list st c xs" "distinct (filter (\<lambda>p. p \<noteq> 0) items)" "set items \<inter> set xs = {}"
    "hz12_returned_push_chain c items st = (n, st')"
  shows "sink_list st' c (rev (filter (\<lambda>p. p \<noteq> 0) items) @ xs)"
    "n = of_nat (length (filter (\<lambda>p. p \<noteq> 0) items))"
    "\<And>a. a \<notin> set items \<Longrightarrow> h12_mem st' a = h12_mem st a"
    "\<And>d. d \<noteq> unat c \<Longrightarrow> hz12_returned st' d = hz12_returned st d"
proof -
  obtain h t k m where run: "link_batch items 0 0 0 (h12_mem st) = (h, t, k, m)" by (metis prod_cases4)
  have "sink_list st' c (rev (filter (\<lambda>p. p \<noteq> 0) items) @ xs) \<and>
    n = of_nat (length (filter (\<lambda>p. p \<noteq> 0) items)) \<and>
    (\<forall>a. a \<notin> set items \<longrightarrow> h12_mem st' a = h12_mem st a) \<and>
    (\<forall>d. d \<noteq> unat c \<longrightarrow> hz12_returned st' d = hz12_returned st d)"
    using assms(2) run
  proof (cases rule: link_batch_fresh)
    case empty
    have "chain m (hz12_returned st (unat c)) xs \<longleftrightarrow> chain (h12_mem st) (hz12_returned st (unat c)) xs"
      by (rule chain_cong) (use empty(4) assms(3) in auto)
    then show ?thesis using empty assms(1,4) run
      by (auto simp: hz12_returned_push_chain_def sink_list_def)
  next
    case (batch ys)
    have t: "t \<in> set items" "t \<notin> set xs"
    proof -
      have "t \<in> set (rev (filter (\<lambda>p. p \<noteq> 0) items))" unfolding batch(1) by simp
      then show "t \<in> set items" by simp
      then show "t \<notin> set xs" using assms(3) by auto
    qed
    have "chain m (hz12_returned st (unat c)) xs \<longleftrightarrow> chain (h12_mem st) (hz12_returned st (unat c)) xs"
      by (rule chain_cong) (use batch(5) assms(3) in auto)
    then have "chain (m(t := hz12_returned st (unat c))) h (ys @ t # xs)"
      using chain_append [OF batch(2) _ t(2)] assms(1) by (simp add: sink_list_def)
    then show ?thesis using batch assms(4) run t
      by (auto simp: hz12_returned_push_chain_def sink_list_def)
  qed
  then show "sink_list st' c (rev (filter (\<lambda>p. p \<noteq> 0) items) @ xs)"
    "n = of_nat (length (filter (\<lambda>p. p \<noteq> 0) items))"
    "\<And>a. a \<notin> set items \<Longrightarrow> h12_mem st' a = h12_mem st a"
    "\<And>d. d \<noteq> unat c \<Longrightarrow> hz12_returned st' d = hz12_returned st d" by blast+
qed

lemma push_range_chunks_sink:
  assumes "sink_list st c xs" "distinct (filter (\<lambda>p. p \<noteq> 0) items)" "set items \<inter> set xs = {}" "0 < k"
  shows "sink_list (push_range_chunks k c items st) c (rev (filter (\<lambda>p. p \<noteq> 0) items) @ xs)
    \<and> (\<forall>a. a \<notin> set items \<longrightarrow> h12_mem (push_range_chunks k c items st) a = h12_mem st a)
    \<and> (\<forall>d. d \<noteq> unat c \<longrightarrow> hz12_returned (push_range_chunks k c items st) d = hz12_returned st d)"
  using assms
proof (induction k c items st arbitrary: xs rule: push_range_chunks.induct)
  case (1 k c items st)
  show ?case
  proof (cases "items = []")
    case True
    then show ?thesis using 1(2) by (subst push_range_chunks.simps) (simp add: push_range_chunks.simps)
  next
    case False
    let ?a = "take k items" and ?b = "drop k items"
    obtain n st1 where one: "hz12_returned_push_chain c ?a st = (n, st1)" by force
    have split: "filter (\<lambda>p. p \<noteq> 0) items = filter (\<lambda>p. p \<noteq> 0) ?a @ filter (\<lambda>p. p \<noteq> 0) ?b"
      by (metis append_take_drop_id filter_append)
    have sub: "set ?a \<subseteq> set items" "set ?b \<subseteq> set items" by (auto dest: in_set_takeD in_set_dropD)
    have d: "distinct (filter (\<lambda>p. p \<noteq> 0) ?a)" "distinct (filter (\<lambda>p. p \<noteq> 0) ?b)"
      "set (filter (\<lambda>p. p \<noteq> 0) ?a) \<inter> set (filter (\<lambda>p. p \<noteq> 0) ?b) = {}"
      using 1(3) unfolding split distinct_append by blast+
    have a_xs: "set ?a \<inter> set xs = {}" using 1(4) sub by blast
    note S = push_chain_sink [OF 1(2) d(1) a_xs one]
    have "0 \<notin> set xs" using 1(2) chain_not_null unfolding sink_list_def by blast
    then have b_xs: "set ?b \<inter> set (rev (filter (\<lambda>p. p \<noteq> 0) ?a) @ xs) = {}"
      using d(3) 1(4) sub by auto
    have step: "push_range_chunks k c items st = push_range_chunks k c ?b st1"
      using False 1(5) one by (subst push_range_chunks.simps) simp
    have go: "\<not> (items = [] \<or> k = 0)" using False 1(5) by simp
    have S1: "sink_list (snd (hz12_returned_push_chain c ?a st)) c (rev (filter (\<lambda>p. p \<noteq> 0) ?a) @ xs)"
      using S(1) one by simp
    note IH = 1(1) [OF go S1 d(2) b_xs 1(5), unfolded one snd_conv]
    have rev: "rev (filter (\<lambda>p. p \<noteq> 0) items) @ xs
      = rev (filter (\<lambda>p. p \<noteq> 0) ?b) @ rev (filter (\<lambda>p. p \<noteq> 0) ?a) @ xs" unfolding split by simp
    have "h12_mem st1 x = h12_mem st x" if "x \<notin> set items" for x using S(3) sub(1) that by blast
    moreover have "hz12_returned st1 d = hz12_returned st d" if "d \<noteq> unat c" for d using S(4) that .
    ultimately show ?thesis unfolding step rev using IH sub(2) by (simp add: subset_iff) metis
  qed
qed

section \<open>Pops\<close>

lemma pop_range_loop_chain:
  "chain m h xs \<Longrightarrow> fst (pop_range_loop k h m) = take k xs \<and> chain m (snd (pop_range_loop k h m)) (drop k xs)"
proof (induction k h m arbitrary: xs rule: pop_range_loop.induct)
  case (2 k h m)
  show ?case
  proof (cases xs)
    case (Cons x ys)
    then show ?thesis using 2 by (auto split: prod.splits)
  qed (use 2 in simp)
qed simp

section \<open>The snapshot of a span\<close>

lemma in_span_offset: "in_span b p \<Longrightarrow> unat (p - b) < 65536"
proof -
  assume s: "in_span b p"
  have "unat (b + HZ12_SPAN_BYTES) \<le> unat b + 65536" by (simp add: unat_word_ariths)
  moreover have "unat p < unat (b + HZ12_SPAN_BYTES)" "b \<le> p"
    using s by (simp_all add: in_span_def word_less_nat_alt)
  ultimately show ?thesis by (simp add: unat_sub word_le_nat_alt)
qed

lemma in_span_iff: "unat b + 65536 < 18446744073709551616 \<Longrightarrow> in_span b p \<longleftrightarrow> unat (p - b) < 65536"
proof
  assume b: "unat b + 65536 < 18446744073709551616" and off: "unat (p - b) < 65536"
  have p: "p = b + (p - b)" by simp
  have "unat p = unat b + unat (p - b)" by (subst p, rule unat_add_no_wrap) (use b off in simp)
  moreover have "unat (b + 65536) = unat b + 65536" by (subst unat_add_no_wrap) (use b in simp_all)
  ultimately show "in_span b p" using off by (simp add: in_span_def word_le_nat_alt word_less_nat_alt)
qed (rule in_span_offset)

text \<open>The slot an object of the span occupies, \<open>None\<close> for an address that is no slot.\<close>

definition slot_no :: "nat \<Rightarrow> addr \<Rightarrow> addr \<Rightarrow> nat option" where
  "slot_no s b p = (let off = unat (p - b) in if off mod s = 0 \<and> off div s < 65536 div s then Some (off div s) else None)"

lemma slot_no_inj: "slot_no s b p = Some i \<Longrightarrow> slot_no s b q = Some i \<Longrightarrow> p = q"
proof -
  assume "slot_no s b p = Some i" "slot_no s b q = Some i"
  then have "unat (p - b) = i * s" "unat (q - b) = i * s"
    by (auto simp: slot_no_def Let_def split: if_splits)
  then show ?thesis by (metis unsigned_word_eqI diff_add_cancel)
qed

definition slot_seen :: "(nat \<Rightarrow> u64) \<Rightarrow> nat \<Rightarrow> bool" where
  "slot_seen slots i \<longleftrightarrow> bit (slots (i div 64)) (i mod 64)"

text \<open>What the walk knows after the objects \<open>ys\<close> of the span, which are distinct.\<close>

definition snap_inv :: "nat \<Rightarrow> addr \<Rightarrow> addr list \<Rightarrow> H12ReturnedSpanSnapshot \<times> (nat \<Rightarrow> u64) \<Rightarrow> bool" where
  "snap_inv s b ys a \<longleftrightarrow>
     fst a = \<lparr>sn_objects = of_nat (length ys),
              sn_unique_slots = of_nat (length (filter (\<lambda>p. slot_no s b p \<noteq> None) ys)),
              sn_duplicate_slots = 0,
              sn_invalid_slots = of_nat (length (filter (\<lambda>p. slot_no s b p = None) ys)),
              sn_slot_capacity = of_nat (65536 div s), sn_complete = False\<rparr> \<and>
     (\<forall>i. slot_seen (snd a) i \<longleftrightarrow> (\<exists>p\<in>set ys. slot_no s b p = Some i))"

lemma count_slot_inv:
  assumes inv: "snap_inv (unat s) b ys a" and new: "p \<notin> set ys" and off: "unat (p - b) < 65536"
    and s: "16 \<le> unat s"
  shows "snap_inv (unat s) b (ys @ [p]) (count_slot s (p - b) a)"
proof -
  obtain out slots where a: "a = (out, slots)" by force
  let ?o = "unat (p - b)" and ?s = "unat s"
  have m: "((p - b) mod s \<noteq> 0) = (?o mod ?s \<noteq> 0)"
    by (metis unat_mod unat_0 unsigned_word_eqI)
  have dlt: "?o div ?s < 4294967296" using off div_le_dividend [of ?o ?s] by linarith
  have d: "unat (ucast ((p - b) div s) :: u32) = ?o div ?s"
    using dlt by (simp add: unsigned_ucast_eq unat_div take_bit_nat_eq_self_iff)
  have "65536 div ?s < 4294967296" by (rule le_less_trans [OF div_le_dividend]) simp
  then have c: "unat (of_nat (65536 div ?s) :: u32) = 65536 div ?s"
    by (intro trans [OF unat_of_nat] mod_less) simp
  show ?thesis
  proof (cases "slot_no ?s b p")
    case None
    then have bad: "?o mod ?s \<noteq> 0 \<or> \<not> ?o div ?s < 65536 div ?s"
      by (auto simp: slot_no_def Let_def split: if_splits)
    show ?thesis using inv None bad
      by (auto simp: a snap_inv_def count_slot_def Let_def m word_le_nat_alt d c)
  next
    case (Some i)
    then have i: "?o mod ?s = 0" "i = ?o div ?s" "i < 65536 div ?s"
      by (auto simp: slot_no_def Let_def split: if_splits)
    have fresh: "\<not> slot_seen slots i"
      using inv new slot_no_inj [OF Some] by (auto simp: a snap_inv_def)
    have set: "slot_seen (slots(i div 64 := slots (i div 64) OR 2 ^ (i mod 64))) j \<longleftrightarrow> slot_seen slots j \<or> j = i" for j
      using div_mod_64_eq [of i j] by (cases "j div 64 = i div 64") (auto simp: slot_seen_def bit_or_iff bit_pow2)
    have w: "unat (ucast ((p - b) div s) div 64 :: u32) = i div 64" "unat (ucast ((p - b) div s) mod 64 :: u32) = i mod 64"
      unfolding unat_u32_div_mod_64 d i(2) by simp_all
    have nb: "slots (i div 64) AND push_bit (i mod 64) 1 = 0"
      using fresh unfolding slot_seen_def bit_iff_and_push_bit_not_eq_0 by simp
    have r: "count_slot s (p - b) a =
      (out\<lparr>sn_objects := sn_objects out + 1, sn_unique_slots := sn_unique_slots out + 1\<rparr>,
       slots(i div 64 := slots (i div 64) OR 2 ^ (i mod 64)))"
      using inv i nb by (simp add: a snap_inv_def count_slot_def Let_def m word_le_nat_alt d c w push_bit_eq_mult)
    show ?thesis unfolding r using inv Some set by (auto simp: snap_inv_def a)
  qed
qed

lemma snapshot_walk_inv:
  assumes "16 \<le> unat s" "distinct (zs @ filter (in_span b) xs)" "snap_inv (unat s) b zs a"
  shows "snap_inv (unat s) b (zs @ filter (in_span b) xs)
    (fold (\<lambda>p acc. if in_span b p then count_slot s (p - b) acc else acc) xs a)"
  using assms(2,3)
proof (induction xs arbitrary: zs a)
  case (Cons x xs)
  show ?case
  proof (cases "in_span b x")
    case True
    have "snap_inv (unat s) b (zs @ [x]) (count_slot s (x - b) a)"
      by (rule count_slot_inv) (use Cons.prems True in_span_offset assms(1) in auto)
    from Cons.IH [OF _ this] True Cons.prems show ?thesis by simp
  next
    case False
    then show ?thesis using Cons by simp
  qed
qed simp

definition span_slots :: "nat \<Rightarrow> addr \<Rightarrow> addr set" where
  "span_slots s b = {p. \<exists>i < 65536 div s. unat (p - b) = i * s}"

lemma slot_no_Some_iff: "16 \<le> s \<Longrightarrow> (\<exists>i. slot_no s b p = Some i) \<longleftrightarrow> p \<in> span_slots s b"
  by (auto simp: slot_no_def span_slots_def Let_def mod_0_imp_dvd)

lemma snap_inv_complete:
  assumes inv: "snap_inv s b ys a" and d: "distinct ys" and o: "\<And>p. p \<in> set ys \<Longrightarrow> unat (p - b) < 65536"
    and s: "16 \<le> s"
  shows "sn_complete (finish_snapshot (fst a)) \<longleftrightarrow> set ys = span_slots s b"
proof -
  let ?V = "filter (\<lambda>p. slot_no s b p \<noteq> None) ys" and ?I = "filter (\<lambda>p. slot_no s b p = None) ys"
  let ?cap = "65536 div s" and ?n = "\<lambda>p. the (slot_no s b p)"
  have cap: "?cap < 4294967296" by (rule le_less_trans [OF div_le_dividend]) simp
  have inj: "inj_on (\<lambda>p. unat (p - b)) (set ys)"
    by (rule inj_onI) (metis unsigned_word_eqI diff_add_cancel)
  have "card (set ys) \<le> card {..<65536::nat}"
    by (rule card_inj_on_le [OF inj]) (use o in auto)
  then have n: "length ys \<le> 65536" using distinct_card [OF d] by simp
  have small: "k \<le> length ys \<Longrightarrow> of_nat k = (of_nat j :: u32) \<longleftrightarrow> k = j" if "j < 4294967296" for k j
    using n that by (auto simp: word_of_nat_eq_iff take_bit_nat_eq_self)
  have complete: "sn_complete (finish_snapshot (fst a)) \<longleftrightarrow> length ?V = ?cap \<and> length ys = ?cap \<and> length ?I = 0"
    using inv small [OF cap, of "length ?V"] small [OF cap, of "length ys"] small [of 0 "length ?I"]
    by (simp add: snap_inv_def finish_snapshot_def)
  have sum: "length ?V + length ?I = length ys"
    using sum_length_filter_compl [of "\<lambda>p. slot_no s b p \<noteq> None" ys] by simp
  have injV: "inj_on ?n (set ?V)" by (rule inj_onI) (auto dest: slot_no_inj)
  have lenV: "length ?V = card (?n ` set ?V)"
    unfolding card_image [OF injV] using d by (intro distinct_card [symmetric] distinct_filter)
  have subV: "?n ` set ?V \<subseteq> {..<?cap}" by (auto simp: slot_no_def Let_def split: if_splits)
  have onto: "length ?V = ?cap \<longleftrightarrow> ?n ` set ?V = {..<?cap}"
  proof
    assume "length ?V = ?cap"
    then show "?n ` set ?V = {..<?cap}"
      by (intro card_subset_eq [OF finite_lessThan subV]) (simp only: lenV card_lessThan)
  next
    assume "?n ` set ?V = {..<?cap}"
    then show "length ?V = ?cap" by (simp only: lenV card_lessThan)
  qed
  have slots: "?n ` set ?V = {..<?cap} \<longleftrightarrow> span_slots s b \<subseteq> set ys"
  proof
    assume all: "?n ` set ?V = {..<?cap}"
    show "span_slots s b \<subseteq> set ys"
    proof
      fix p assume "p \<in> span_slots s b"
      then obtain i where i: "slot_no s b p = Some i" using slot_no_Some_iff [OF s] by blast
      then have "i \<in> ?n ` set ?V" using subV all by (auto simp: slot_no_def Let_def split: if_splits)
      then obtain q where "q \<in> set ys" "slot_no s b q = Some i" by auto
      then show "p \<in> set ys" using slot_no_inj [OF i] by blast
    qed
  next
    assume all: "span_slots s b \<subseteq> set ys"
    have "i \<in> ?n ` set ?V" if i: "i < ?cap" for i
    proof -
      let ?p = "b + of_nat (i * s)"
      have "i * s \<le> 65536" using i by (metis less_imp_le mult_le_mono1 div_times_less_eq_dividend order_trans)
      then have "unat (of_nat (i * s) :: u64) = i * s" by (intro trans [OF unat_of_nat] mod_less) simp
      then have u: "unat (?p - b) = i * s" by (simp only: add_diff_cancel_left')
      then have "?p \<in> set ys" "slot_no s b ?p = Some i" using all i s by (auto simp: span_slots_def slot_no_def)
      then show ?thesis by (intro image_eqI [of _ _ ?p]) auto
    qed
    then show "?n ` set ?V = {..<?cap}" using subV by blast
  qed
  have none: "length ?I = 0 \<longleftrightarrow> set ys \<subseteq> span_slots s b"
    using slot_no_Some_iff [OF s, of b] by (auto simp: filter_empty_conv)
  show ?thesis unfolding complete using onto slots none sum by auto
qed

lemma span_snapshot_chain:
  assumes "chain m h xs" "16 \<le> unat s"
  obtains out where "span_snapshot s b h m = Some out" "sn_duplicate_slots out = 0"
    "sn_complete out \<longleftrightarrow> set xs \<inter> {p. in_span b p} = span_slots (unat s) b"
    "sn_objects out = of_nat (length (filter (in_span b) xs))" "sn_slot_capacity out = span_capacity s"
proof -
  let ?ys = "filter (in_span b) xs" and ?a0 = "(empty_snapshot (span_capacity s), \<lambda>_. 0)"
  let ?visit = "\<lambda>p acc. if in_span b p then count_slot s (p - b) acc else acc"
  have "span_capacity s = of_nat (unat (HZ12_SPAN_BYTES div s))"
    by (simp only: span_capacity_def of_nat_unat)
  then have cap: "span_capacity s = of_nat (65536 div unat s)" by (simp only: unat_div) simp
  have "snap_inv (unat s) b [] ?a0"
    by (simp add: snap_inv_def empty_snapshot_def cap slot_seen_def)
  then have inv: "snap_inv (unat s) b ?ys (fold ?visit xs ?a0)"
    using snapshot_walk_inv [OF assms(2), of "[]" b xs ?a0] chain_distinct [OF assms(1)] by simp
  have c: "sn_complete (finish_snapshot (fst (fold ?visit xs ?a0))) \<longleftrightarrow> set ?ys = span_slots (unat s) b"
    by (rule snap_inv_complete [OF inv]) (use chain_distinct [OF assms(1)] in_span_offset assms(2) in auto)
  show ?thesis
  proof (rule that)
    show "span_snapshot s b h m = Some (finish_snapshot (fst (fold ?visit xs ?a0)))"
      by (simp add: span_snapshot_def sink_walk_chain [OF assms(1)] case_prod_beta)
  qed (use inv c cap in \<open>auto simp: snap_inv_def finish_snapshot_def\<close>)
qed

section \<open>The arena\<close>

definition arena_wf :: "'a h12_span_state_scheme \<Rightarrow> bool" where
  "arena_wf st \<longleftrightarrow> hz12_arena_base st \<noteq> 0 \<and>
     unat (hz12_arena_base st) + 4295032832 < 18446744073709551616 \<and>
     hz12_arena_end st = hz12_arena_base st + HZ12_ARENA_BYTES \<and>
     (\<exists>k \<le> 65536. hz12_span_cursor st = hz12_arena_base st + of_nat (k * 65536) \<and>
        (\<forall>i \<ge> k. hz12_span_class st i = 0))"

lemma arena_wf_cong:
  "hz12_arena_base st' = hz12_arena_base st \<Longrightarrow> hz12_arena_end st' = hz12_arena_end st \<Longrightarrow>
   hz12_span_cursor st' = hz12_span_cursor st \<Longrightarrow> hz12_span_class st' = hz12_span_class st \<Longrightarrow>
   arena_wf st' \<longleftrightarrow> arena_wf st"
  by (simp add: arena_wf_def)

text \<open>The \<open>i\<close>-th span of the arena, and the addresses in it.\<close>

definition span_at :: "'a h12_span_state_scheme \<Rightarrow> nat \<Rightarrow> addr" where
  "span_at st i = hz12_arena_base st + of_nat (i * 65536)"

lemma arena_nat:
  assumes "unat b + 4295032832 < 18446744073709551616"
  shows "n \<le> 4295032832 \<Longrightarrow> unat (b + of_nat n) = unat b + n"
    "b \<le> p \<and> p - b < HZ12_ARENA_BYTES \<longleftrightarrow> unat b \<le> unat p \<and> unat p < unat b + 4294967296"
    "b \<le> p \<Longrightarrow> unat (drop_bit 16 (p - b)) = (unat p - unat b) div 65536"
proof -
  assume n: "n \<le> 4295032832"
  then have u: "unat (of_nat n :: u64) = n" by (intro trans [OF unat_of_nat] mod_less) simp
  show "unat (b + of_nat n) = unat b + n" by (subst unat_add_no_wrap) (use n u assms in simp_all)
next
  show "b \<le> p \<and> p - b < HZ12_ARENA_BYTES \<longleftrightarrow> unat b \<le> unat p \<and> unat p < unat b + 4294967296"
    by (auto simp: word_le_nat_alt word_less_nat_alt unat_sub)
  show "b \<le> p \<Longrightarrow> unat (drop_bit 16 (p - b)) = (unat p - unat b) div 65536"
    by (simp add: unat_drop_bit_16 unat_sub word_le_nat_alt)
qed

lemma in_span_nat:
  "unat s + 65536 < 18446744073709551616 \<Longrightarrow> in_span s p \<longleftrightarrow> unat s \<le> unat p \<and> unat p < unat s + 65536"
proof -
  assume s: "unat s + 65536 < 18446744073709551616"
  have "unat (s + 65536) = unat s + 65536" by (subst unat_add_no_wrap) (use s in simp_all)
  then show ?thesis by (auto simp: in_span_def word_le_nat_alt word_less_nat_alt)
qed

lemma quantum_index:
  "b + i * 65536 \<le> p \<and> p < b + i * 65536 + 65536 \<longleftrightarrow> b \<le> p \<and> (p - b) div 65536 = (i :: nat)"
proof (cases "b \<le> p")
  case True
  then obtain d where "p = b + d" using le_Suc_ex by blast
  moreover have "i * 65536 \<le> d \<and> d < i * 65536 + 65536 \<longleftrightarrow> d div 65536 = i"
  proof
    assume "i * 65536 \<le> d \<and> d < i * 65536 + 65536"
    then show "d div 65536 = i" by (intro div_nat_eqI) simp_all
  next
    assume "d div 65536 = i"
    then show "i * 65536 \<le> d \<and> d < i * 65536 + 65536"
      using div_mult_mod_eq [of d 65536] mod_less_divisor [of 65536 d] by linarith
  qed
  ultimately show ?thesis by simp
qed auto

lemma in_span_at:
  assumes "arena_wf st" "i < 65536"
  shows "in_span (span_at st i) p \<longleftrightarrow>
    (hz12_arena_base st \<le> p \<and> p - hz12_arena_base st < HZ12_ARENA_BYTES \<and>
     unat (drop_bit 16 (p - hz12_arena_base st)) = i)"
proof -
  let ?b = "hz12_arena_base st"
  have b: "unat ?b + 4295032832 < 18446744073709551616" using assms(1) by (simp add: arena_wf_def)
  have u: "unat (span_at st i) = unat ?b + i * 65536"
    unfolding span_at_def by (rule arena_nat(1) [OF b]) (use assms(2) in simp)
  have "in_span (span_at st i) p \<longleftrightarrow> unat ?b + i * 65536 \<le> unat p \<and> unat p < unat ?b + i * 65536 + 65536"
    using in_span_nat [of "span_at st i" p] u b assms(2) by simp
  also have "\<dots> \<longleftrightarrow> unat ?b \<le> unat p \<and> unat p < unat ?b + 4294967296 \<and> (unat p - unat ?b) div 65536 = i"
    using quantum_index [of "unat ?b" i "unat p"] assms(2) by auto
  also have "\<dots> \<longleftrightarrow> (?b \<le> p \<and> p - ?b < HZ12_ARENA_BYTES \<and> unat (drop_bit 16 (p - ?b)) = i)"
    using arena_nat(2) [OF b, of p] arena_nat(3) [OF b, of p] by auto
  finally show ?thesis .
qed

lemma arena_index_bound: "off < HZ12_ARENA_BYTES \<Longrightarrow> unat (drop_bit 16 (off :: u64)) < 65536"
  unfolding unat_drop_bit_16 by (rule less_mult_imp_div_less) (simp add: word_less_nat_alt)

lemma classify_at:
  assumes "arena_wf st"
  shows "hz12_span_classify p st =
    (if \<exists>i<65536. in_span (span_at st i) p
     then let c1 = hz12_span_class st (unat (drop_bit 16 (p - hz12_arena_base st))) in
       if c1 = 0 then None else Some (c1 - 1)
     else None)"
proof -
  have "(\<exists>i<65536. in_span (span_at st i) p) \<longleftrightarrow>
    hz12_arena_base st \<le> p \<and> p - hz12_arena_base st < HZ12_ARENA_BYTES"
    using in_span_at [OF assms, of _ p] arena_index_bound [of "p - hz12_arena_base st"] by auto
  then show ?thesis using assms
    by (auto simp: hz12_span_classify_def Let_def arena_wf_def not_le not_less)
qed

lemma route_classify:
  assumes "arena_wf st" "i < 65536" "c1 \<noteq> 0 \<longrightarrow> c1 = c + 1"
    and st': "hz12_arena_base st' = hz12_arena_base st" "hz12_span_class st' = (hz12_span_class st)(i := c1)"
  shows "hz12_span_classify p st' =
    (if in_span (span_at st i) p then if c1 = 0 then None else Some c else hz12_span_classify p st)"
proof (cases "in_span (span_at st i) p")
  case True
  then show ?thesis using in_span_at [OF assms(1,2), of p] assms(1,3) st'
    by (auto simp: hz12_span_classify_def Let_def arena_wf_def)
next
  case False
  then have "p < hz12_arena_base st \<or> HZ12_ARENA_BYTES \<le> p - hz12_arena_base st \<or>
      unat (drop_bit 16 (p - hz12_arena_base st)) \<noteq> i"
    using in_span_at [OF assms(1,2), of p] by (metis not_le)
  then show ?thesis using False st'
    by (auto simp: hz12_span_classify_def Let_def)
qed

lemma span_id_at:
  assumes "arena_wf st" "i < 65536"
  shows "span_id_of (span_at st i) st = Some i"
proof -
  let ?b = "hz12_arena_base st"
  have b: "unat ?b + 4295032832 < 18446744073709551616" using assms(1) by (simp add: arena_wf_def)
  have off: "span_at st i - ?b = of_nat (i * 65536)" by (simp only: span_at_def add_diff_cancel_left')
  have o: "unat (of_nat (i * 65536) :: u64) = i * 65536"
    using assms(2) by (intro trans [OF unat_of_nat] mod_less) simp
  have u: "unat (span_at st i) = unat ?b + i * 65536"
    unfolding span_at_def by (rule arena_nat(1) [OF b]) (use assms(2) in simp)
  have nz: "?b \<noteq> 0" using assms(1) by (simp add: arena_wf_def)
  then have "unat ?b \<noteq> 0" by (simp add: unat_eq_zero)
  then have "span_at st i \<noteq> 0" using u by (metis unat_0 add_is_0)
  moreover have "?b \<le> span_at st i" using u by (simp add: word_le_nat_alt)
  moreover have "\<not> of_nat (i * 65536) \<ge> (HZ12_ARENA_BYTES :: u64)"
    unfolding word_le_nat_alt o using assms(2) by simp
  moreover have "of_nat (i * 65536) AND (65535 :: u64) = 0"
    unfolding and_quantum_eq_0 o by simp
  moreover have "unat (drop_bit 16 (of_nat (i * 65536) :: u64)) = i"
    unfolding unat_drop_bit_16 o by simp
  ultimately show ?thesis using nz unfolding span_id_of_def Let_def off by simp
qed

lemma span_at_nonzero: "arena_wf st \<Longrightarrow> i < 65536 \<Longrightarrow> span_at st i \<noteq> 0"
  using span_id_at [of st i] by (auto simp: span_id_of_def Let_def)

lemma span_id_is_at:
  assumes "arena_wf st" "span_id_of b st = Some i"
  shows "i < 65536 \<and> b = span_at st i"
proof -
  let ?b = "hz12_arena_base st"
  have h: "?b \<le> b" "b - ?b < HZ12_ARENA_BYTES" "(b - ?b) AND 65535 = 0" "i = unat (drop_bit 16 (b - ?b))"
    using assms(2) by (auto simp: span_id_of_def Let_def not_le not_less split: if_splits)
  have "unat (b - ?b) mod 65536 = 0" using h(3) by (simp only: and_quantum_eq_0)
  then have "unat (b - ?b) = i * 65536" unfolding h(4) unat_drop_bit_16 by (simp add: mod_0_imp_dvd)
  then have "b - ?b = of_nat (i * 65536)" by (metis of_nat_unat ucast_id)
  then have "b = span_at st i" by (simp only: span_at_def) (metis add.commute diff_add_cancel)
  then show ?thesis using arena_index_bound [OF h(2)] h(4) by simp
qed

lemma class_suc_nonzero: "c < HZ12_CLASS_COUNT cfg \<Longrightarrow> c + 1 \<noteq> 0"
proof
  assume "c < HZ12_CLASS_COUNT cfg" "c + 1 = 0"
  then have "unat c < 70" "c = - 1"
    using class_count_cases(2) [of cfg] by (simp_all add: word_less_nat_alt eq_neg_iff_add_eq_0)
  moreover have "(- 1 :: u8) = 255" by simp
  ultimately show False by simp
qed

lemma carve_correct:
  assumes wf: "arena_wf st" and once: "hz12_span_init_once st" and c: "c < HZ12_CLASS_COUNT cfg"
    and run: "hz12_span_carve_for_class c st = (p, st')"
  shows "arena_wf st' \<and> h12_mem st' = h12_mem st \<and> hz12_returned st' = hz12_returned st \<and>
    (if p = 0 then st' = st \<and> hz12_span_cursor st = hz12_arena_end st
     else p = hz12_span_cursor st \<and> (\<exists>i<65536. p = span_at st i) \<and>
       (\<forall>a. in_span p a \<longrightarrow> hz12_span_classify a st = None) \<and>
       (\<forall>a. hz12_span_classify a st' = (if in_span p a then Some c else hz12_span_classify a st)))"
proof -
  let ?b = "hz12_arena_base st"
  obtain k where k: "k \<le> 65536" "hz12_span_cursor st = ?b + of_nat (k * 65536)" "\<And>i. i \<ge> k \<Longrightarrow> hz12_span_class st i = 0"
    using wf unfolding arena_wf_def by blast
  have b: "?b \<noteq> 0" "unat ?b + 4295032832 < 18446744073709551616" "hz12_arena_end st = ?b + HZ12_ARENA_BYTES"
    using wf by (simp_all add: arena_wf_def)
  have init: "hz12_span_init st = st" using once by (simp add: hz12_span_init_def)
  have e: "unat (hz12_arena_end st) = unat ?b + 4294967296"
    using arena_nat(1) [OF b(2), of 4294967296] b(3) by simp
  have nxt: "hz12_span_cursor st + HZ12_SPAN_BYTES = ?b + of_nat ((k + 1) * 65536)"
    unfolding k(2) by (simp add: algebra_simps)
  have u: "unat (?b + of_nat (k * 65536)) = unat ?b + k * 65536"
    by (rule arena_nat(1) [OF b(2)]) (use k(1) in simp)
  show ?thesis
  proof (cases "k = 65536")
    case True
    have u2: "unat (?b + of_nat ((k + 1) * 65536)) = unat ?b + 65537 * 65536"
      using arena_nat(1) [OF b(2), of "65537 * 65536"] True by simp
    have "hz12_span_cursor st + HZ12_SPAN_BYTES > hz12_arena_end st"
      unfolding nxt word_less_nat_alt u2 e by simp
    then have "p = 0 \<and> st' = st" using run b(1) by (simp add: hz12_span_carve_for_class_def init Let_def)
    then show ?thesis using wf k(2) b(3) True by simp
  next
    case False
    then have lt: "k < 65536" using k(1) by simp
    have u2: "unat (?b + of_nat ((k + 1) * 65536)) = unat ?b + (k + 1) * 65536"
      by (rule arena_nat(1) [OF b(2)]) (use lt in simp)
    have at: "hz12_span_cursor st = span_at st k" using k(2) by (simp only: span_at_def)
    have fits: "\<not> hz12_span_cursor st + HZ12_SPAN_BYTES > hz12_arena_end st"
      unfolding nxt word_less_nat_alt u2 e using lt by simp
    have id: "unat (drop_bit 16 (hz12_span_cursor st - ?b)) = k"
      using span_id_at [OF wf lt] at by (simp add: span_id_of_def Let_def split: if_splits)
    have p: "p = span_at st k" "st' = st\<lparr>hz12_span_cursor := ?b + of_nat ((k + 1) * 65536),
        hz12_span_class := (hz12_span_class st)(k := c + 1), hz12_span_create_count := hz12_span_create_count st + 1\<rparr>"
      using run fits b(1) nxt id at by (auto simp: hz12_span_carve_for_class_def init Let_def)
    have "p \<noteq> 0" using span_id_at [OF wf lt] p(1) by (auto simp: span_id_of_def Let_def)
    have c0: "c + 1 \<noteq> 0" using class_suc_nonzero [OF c] .
    have wf': "arena_wf st'"
      unfolding arena_wf_def p(2) using b lt k(3) by (auto intro!: exI [of _ "k + 1"])
    have fresh: "hz12_span_classify a st = None" if "in_span p a" for a
      using that in_span_at [OF wf lt, of a] p(1) k(3) by (simp add: hz12_span_classify_def Let_def)
    have now: "hz12_span_classify a st' = (if in_span p a then Some c else hz12_span_classify a st)" for a
      using route_classify [OF wf lt, of "c + 1" c st' a] c0 p by simp
    show ?thesis using \<open>p \<noteq> 0\<close> wf' fresh now at lt p by auto
  qed
qed

section \<open>Several spans in one walk\<close>

lemma batch_targets_spec:
  assumes "arena_wf st" "batch_targets (hz12_arena_base st) bases i tbl = Some tbl'" "i + length bases \<le> 64"
  shows "\<exists>ids. length ids = length bases \<and> distinct ids \<and> (\<forall>j<length bases. ids ! j < 65536 \<and> bases ! j = span_at st (ids ! j)) \<and>
    (\<forall>d\<in>set ids. tbl d = 0) \<and> (\<forall>j<length bases. unat (tbl' (ids ! j)) = i + j + 1) \<and>
    (\<forall>d. d \<notin> set ids \<longrightarrow> tbl' d = tbl d)"
  using assms(2,3)
proof (induction bases arbitrary: i tbl)
  case (Cons val rest)
  let ?b = "hz12_arena_base st" and ?id = "unat (drop_bit 16 (val - hz12_arena_base st))"
  have g: "\<not> val < ?b" "\<not> HZ12_ARENA_BYTES \<le> val - ?b" "(val - ?b) AND 65535 = 0" "tbl ?id = 0"
    "batch_targets ?b rest (i + 1) (tbl(?id := of_nat (i + 1))) = Some tbl'"
    using Cons.prems(1) by (auto simp: Let_def split: if_splits)
  have "val \<noteq> 0" using g(1) assms(1) by (auto simp: arena_wf_def not_less word_le_nat_alt unat_eq_zero)
  then have "span_id_of val st = Some ?id"
    using g assms(1) by (simp add: span_id_of_def Let_def arena_wf_def)
  then have at: "?id < 65536" "val = span_at st ?id" using span_id_is_at [OF assms(1)] by auto
  from Cons.IH [OF g(5)] Cons.prems(2) obtain ids where ids: "length ids = length rest" "distinct ids"
    "\<forall>j<length rest. ids ! j < 65536 \<and> rest ! j = span_at st (ids ! j)"
    "\<forall>d\<in>set ids. (tbl(?id := of_nat (i + 1))) d = 0"
    "\<forall>j<length rest. unat (tbl' (ids ! j)) = i + 1 + j + 1"
    "\<forall>d. d \<notin> set ids \<longrightarrow> tbl' d = (tbl(?id := of_nat (i + 1))) d" by auto
  have u: "unat (of_nat (i + 1) :: u8) = i + 1"
    using Cons.prems(2) by (intro trans [OF unat_of_nat] mod_less) simp
  then have "(of_nat (i + 1) :: u8) \<noteq> 0" by (metis unat_0 add_is_0 one_neq_zero)
  then have new: "?id \<notin> set ids" using ids(4) by auto
  show ?case
  proof (intro exI [of _ "?id # ids"] conjI)
    show "\<forall>j<length (val # rest). unat (tbl' ((?id # ids) ! j)) = i + j + 1"
      using ids(5,6) new u by (auto simp: nth_Cons less_Suc_eq_0_disj split: nat.split)
    show "\<forall>j<length (val # rest). (?id # ids) ! j < 65536 \<and> (val # rest) ! j = span_at st ((?id # ids) ! j)"
      using ids(3) at by (auto simp: nth_Cons split: nat.split)
    show "\<forall>d\<in>set (?id # ids). tbl d = 0" using ids(4) g(4) by (auto split: if_splits)
  qed (use ids new in auto)
qed simp

lemma batch_target_iff:
  assumes wf: "arena_wf st" and run: "batch_targets (hz12_arena_base st) bases 0 (\<lambda>_. 0) = Some tbl"
    and n: "length bases \<le> 64"
  shows "hz12_returned_batch_target tbl (hz12_arena_base st) p = Some t \<longleftrightarrow>
      t < length bases \<and> in_span (bases ! t) p"
    "\<And>j. j < length bases \<Longrightarrow> \<exists>i<65536. bases ! j = span_at st i"
proof -
  obtain ids where ids: "length ids = length bases" "distinct ids"
    "\<And>j. j < length bases \<Longrightarrow> ids ! j < 65536 \<and> bases ! j = span_at st (ids ! j)"
    "\<And>j. j < length bases \<Longrightarrow> unat (tbl (ids ! j)) = j + 1" "\<And>d. d \<notin> set ids \<Longrightarrow> tbl d = 0"
    using batch_targets_spec [OF wf run] n by auto
  show "\<And>j. j < length bases \<Longrightarrow> \<exists>i<65536. bases ! j = span_at st i" using ids(3) by blast
  let ?b = "hz12_arena_base st"
  let ?in = "?b \<le> p \<and> p - ?b < HZ12_ARENA_BYTES" and ?id = "unat (drop_bit 16 (p - ?b))"
  have tgt: "hz12_returned_batch_target tbl ?b p = Some t \<longleftrightarrow> ?in \<and> tbl ?id \<noteq> 0 \<and> unat (tbl ?id) = t + 1"
  proof -
    have "tbl ?id \<noteq> 0 \<Longrightarrow> unat (tbl ?id) \<noteq> 0" by (simp add: unat_eq_zero)
    then show ?thesis
      by (auto simp: hz12_returned_batch_target_def Let_def not_le not_less)
  qed
  have "tbl ?id \<noteq> 0 \<and> unat (tbl ?id) = t + 1 \<longleftrightarrow> t < length bases \<and> ?id = ids ! t"
  proof
    assume a: "tbl ?id \<noteq> 0 \<and> unat (tbl ?id) = t + 1"
    then obtain j where "j < length bases" "?id = ids ! j" using ids(1,5) by (metis in_set_conv_nth)
    then show "t < length bases \<and> ?id = ids ! t" using ids(4) a by auto
  next
    assume "t < length bases \<and> ?id = ids ! t"
    then show "tbl ?id \<noteq> 0 \<and> unat (tbl ?id) = t + 1" using ids(4) [of t] by auto
  qed
  then show "hz12_returned_batch_target tbl ?b p = Some t \<longleftrightarrow> t < length bases \<and> in_span (bases ! t) p"
    unfolding tgt using in_span_at [OF wf, of "ids ! t" p] ids(3) [of t] by auto
qed

lemma batch_fold_single:
  assumes "\<And>p t. target p = Some t \<longleftrightarrow> t < length bases \<and> in_span (bases ! t) p" "length acc = length bases"
  shows "length (fold (batch_visit s bases target) xs acc) = length bases \<and>
    (\<forall>t<length bases. fold (batch_visit s bases target) xs acc ! t
      = fold (\<lambda>p acc. if in_span (bases ! t) p then count_slot s (p - bases ! t) acc else acc) xs (acc ! t))"
  using assms(2)
proof (induction xs arbitrary: acc)
  case (Cons x xs)
  have l: "length (batch_visit s bases target x acc) = length bases"
    using Cons.prems by (auto simp: batch_visit_def split: option.split)
  have v: "batch_visit s bases target x acc ! t
      = (if in_span (bases ! t) x then count_slot s (x - bases ! t) (acc ! t) else acc ! t)"
    if t: "t < length bases" for t
  proof (cases "target x")
    case None
    then show ?thesis using assms(1) [of x t] t by (auto simp: batch_visit_def)
  next
    case (Some u)
    then show ?thesis using assms(1) [of x t] assms(1) [of x u] t Cons.prems
      by (auto simp: batch_visit_def nth_list_update)
  qed
  show ?case using Cons.IH [OF l] v by simp
qed simp

section \<open>What the operations promise\<close>

text \<open>A sink of the 64 KiB class that holds the only slot of the first of two carved spans.\<close>

definition example_sink :: "unit h12_span_state_scheme" where
  "example_sink = \<lparr>hz12_size_table = (\<lambda>_. 0), hz12_size_table_ready = False, h12_mem = (\<lambda>_. 0),
     h12_maps = [], hz12_arena_base = 4294967296, hz12_arena_end = 8589934592,
     hz12_span_cursor = 4295098368, hz12_span_init_once = True,
     hz12_span_class = (\<lambda>i. if i < 2 then 13 else 0), hz12_span_create_count = 2,
     hz12_returned = (\<lambda>c. if c = 12 then 4294967296 else 0)\<rparr>"

lemma example_sink_facts:
  "arena_wf example_sink" "sink_list example_sink 12 [4294967296]"
  by (auto simp: example_sink_def arena_wf_def sink_list_def intro!: exI [of _ 2])

lemma example_sink_span:
  "12 < HZ12_CLASS_COUNT hz12_default_config" "in_span 4294967296 4294967296"
  "span_slots (slot_bytes hz12_default_config 12) 4294967296 = {4294967296}"
  by (auto simp: HZ12_CLASS_COUNT_def span_slots_def slot_bytes_def hz12_default_config_def in_span_def unat_eq_zero)

lemma class_guard: "c < HZ12_CLASS_COUNT cfg \<Longrightarrow> (HZ12_CLASS_COUNT cfg \<le> c) = False"
  by simp

lemma slot_size_16: "c < HZ12_CLASS_COUNT cfg \<Longrightarrow> 16 \<le> unat (hz12_class_slot_size cfg c)"
  using slot_table(2) [of "unat c" cfg] slot_size_nat [of c cfg] by (simp add: class_total_def word_less_nat_alt)

lemma slot_size_nonzero: "c < HZ12_CLASS_COUNT cfg \<Longrightarrow> hz12_class_slot_size cfg c \<noteq> 0"
  using slot_size_16 [of c cfg] by auto

lemma sink_snapshot:
  assumes "sink_list st c xs" "c < HZ12_CLASS_COUNT cfg"
  obtains out where
    "span_snapshot (hz12_class_slot_size cfg c) b (hz12_returned st (unat c)) (h12_mem st) = Some out"
    "sn_duplicate_slots out = 0"
    "sn_complete out \<longleftrightarrow> set xs \<inter> {p. in_span b p} = span_slots (slot_bytes cfg (unat c)) b"
    "sn_objects out = of_nat (length (filter (in_span b) xs))"
  using span_snapshot_chain [of "h12_mem st" "hz12_returned st (unat c)" xs "hz12_class_slot_size cfg c" b]
    assms slot_size_16 [OF assms(2)] slot_size_nat [OF assms(2)] unfolding sink_list_def by metis

text \<open>C27: on a sink that is a list, the snapshot of a span returns; it counts the objects of the span, and
  it is complete exactly when the objects of the sink in the span are all the slots of the span.\<close>

theorem snapshot_complete_iff:
  assumes "sink_list st c xs" "c < HZ12_CLASS_COUNT cfg" "b \<noteq> 0"
  shows "\<exists>out. hz12_returned_snapshot_span cfg c b st = Some (Some out) \<and>
    (sn_complete out \<longleftrightarrow> set xs \<inter> {p. in_span b p} = span_slots (slot_bytes cfg (unat c)) b) \<and>
    sn_objects out = of_nat (length (filter (in_span b) xs)) \<and>
    hz12_returned_count_in_span cfg c b st = Some (sn_objects out)"
proof -
  have cnt: "fold (\<lambda>p n. if in_span b p then n + 1 else n) xs k = k + of_nat (length (filter (in_span b) xs))" for k :: u32
    by (induction xs arbitrary: k) (simp_all add: algebra_simps)
  show ?thesis
    by (rule sink_snapshot [OF assms(1,2), of b])
      (use assms slot_size_nonzero [OF assms(2)] in \<open>auto simp: hz12_returned_snapshot_span_def
        hz12_returned_count_in_span_def sink_list_def sink_walk_chain cnt not_le\<close>)
qed

theorem snapshot_complete_iff_witness:
  "\<exists>out. hz12_returned_snapshot_span hz12_default_config 12 4294967296 example_sink = Some (Some out) \<and>
     sn_objects out = 1"
  using snapshot_complete_iff [OF example_sink_facts(2) example_sink_span(1), of 4294967296] example_sink_span(2)
  by auto

text \<open>C26: detaching a span removes its objects from the sink, all of them and nothing else, exactly when
  the snapshot is complete; otherwise, it returns 0 and changes nothing. What is outside the sink keeps
  its content and the sinks of the other classes their heads.\<close>

theorem detach_complete_span_correct:
  assumes "sink_list st c xs" "c < HZ12_CLASS_COUNT cfg" "b \<noteq> 0"
  shows "\<exists>ok out st'. hz12_returned_detach_complete_span cfg c b st = Some (ok, Some out, st') \<and>
    (ok \<longleftrightarrow> set xs \<inter> {p. in_span b p} = span_slots (slot_bytes cfg (unat c)) b) \<and>
    (\<not> ok \<longrightarrow> st' = st) \<and>
    (ok \<longrightarrow> sink_list st' c (filter (\<lambda>p. \<not> in_span b p) xs) \<and>
       (\<forall>a. a \<notin> set xs \<or> in_span b a \<longrightarrow> h12_mem st' a = h12_mem st a) \<and>
       (\<forall>d. d \<noteq> unat c \<longrightarrow> hz12_returned st' d = hz12_returned st d))"
proof -
  obtain out where out: "span_snapshot (hz12_class_slot_size cfg c) b (hz12_returned st (unat c)) (h12_mem st) = Some out"
    "sn_complete out \<longleftrightarrow> set xs \<inter> {p. in_span b p} = span_slots (slot_bytes cfg (unat c)) b"
    by (rule sink_snapshot [OF assms(1,2), of b])
  obtain h' m' where w: "unlink_walk (in_span b) None (hz12_returned st (unat c)) (h12_mem st) 0
      = Some (0 + of_nat (length (filter (in_span b) xs)), h', m')"
    "chain m' h' (filter (\<lambda>p. \<not> in_span b p) xs)"
    "\<And>a. a \<notin> set (filter (\<lambda>p. \<not> in_span b p) xs) \<Longrightarrow> m' a = h12_mem st a"
    using unlink_walk_chain [OF assms(1) [unfolded sink_list_def], of "in_span b" 0] by metis
  show ?thesis
  proof (cases "sn_complete out")
    case True
    then show ?thesis using out w assms slot_size_nonzero [OF assms(2)]
      by (auto simp: hz12_returned_detach_complete_span_def sink_list_def Let_def not_le)
  next
    case False
    then show ?thesis using out assms slot_size_nonzero [OF assms(2)]
      by (auto simp: hz12_returned_detach_complete_span_def Let_def not_le)
  qed
qed

theorem detach_complete_span_correct_witness:
  "\<exists>ok out st'. hz12_returned_detach_complete_span hz12_default_config 12 4294967296 example_sink
     = Some (ok, Some out, st') \<and> ok \<and> sink_list st' 12 []"
  using detach_complete_span_correct [OF example_sink_facts(2) example_sink_span(1), of 4294967296]
    example_sink_span(2,3) by auto

text \<open>C28: one walk over the sink for several spans gives the same snapshots as one walk per span.\<close>

theorem snapshot_batch_equals_single:
  assumes wf: "arena_wf st" and sink: "sink_list st c xs" and c: "c < HZ12_CLASS_COUNT cfg"
    and run: "hz12_returned_snapshot_batch cfg c bases st = Some (Some out, st')"
  shows "st' = st \<and> length out = length bases \<and>
    (\<forall>t<length bases. hz12_returned_snapshot_span cfg c (bases ! t) st = Some (Some (out ! t)))"
proof -
  obtain tbl where tbl: "batch_targets (hz12_arena_base st) bases 0 (\<lambda>_. 0) = Some tbl" and n: "length bases \<le> 64"
    using run by (auto simp: hz12_returned_snapshot_batch_def hz12_returned_batch_def Let_def
      split: if_splits option.splits)
  note T = batch_target_iff [OF wf tbl n]
  note F = batch_fold_single [OF T(1), where acc = "replicate (length bases)
    (empty_snapshot (span_capacity (hz12_class_slot_size cfg c)), \<lambda>_. 0)" and xs = xs, simplified]
  have "st' = st \<and> out = map (finish_snapshot \<circ> fst) (fold (batch_visit (hz12_class_slot_size cfg c) bases
      (hz12_returned_batch_target tbl (hz12_arena_base st))) xs (replicate (length bases)
        (empty_snapshot (span_capacity (hz12_class_slot_size cfg c)), \<lambda>_. 0)))"
    using run sink tbl by (auto simp: hz12_returned_snapshot_batch_def hz12_returned_batch_def Let_def
      sink_list_def sink_walk_chain split: if_splits)
  moreover have "bases ! t \<noteq> 0" if "t < length bases" for t
    using T(2) [OF that] span_at_nonzero [OF wf] by auto
  ultimately show ?thesis using F sink c slot_size_nonzero [OF c]
    by (auto simp: hz12_returned_snapshot_span_def span_snapshot_def sink_list_def sink_walk_chain
      case_prod_beta not_le)
qed

theorem snapshot_batch_equals_single_witness:
  "\<exists>out. hz12_returned_snapshot_batch hz12_default_config 12 [4294967296, 4295032832] example_sink
      = Some (Some out, example_sink) \<and>
    hz12_returned_snapshot_span hz12_default_config 12 4295032832 example_sink = Some (Some (out ! 1))"
proof -
  obtain tbl where "batch_targets 4294967296 [4294967296, 4295032832] 0 (\<lambda>_. 0) = Some tbl"
    by (simp add: Let_def)
  moreover have "hz12_arena_base example_sink = 4294967296" "hz12_returned example_sink (unat (12 :: u8)) = 4294967296"
    by (simp_all add: example_sink_def)
  moreover have "sink_walk v 4294967296 (h12_mem example_sink) a = Some (v 4294967296 a)"
    for v and a :: "(H12ReturnedSpanSnapshot \<times> (nat \<Rightarrow> u64)) list"
    using sink_walk_chain [of "h12_mem example_sink" 4294967296 "[4294967296]" v a] by (simp add: example_sink_def)
  ultimately obtain out where "hz12_returned_snapshot_batch hz12_default_config 12 [4294967296, 4295032832] example_sink
      = Some (Some out, example_sink)"
    using slot_size_nonzero [OF example_sink_span(1)] class_guard [OF example_sink_span(1)]
    by (simp add: hz12_returned_snapshot_batch_def hz12_returned_batch_def Let_def del: batch_targets.simps)
  then show ?thesis
    using snapshot_batch_equals_single [OF example_sink_facts example_sink_span(1)] by fastforce
qed

text \<open>The batch detachment leaves exactly the objects of the spans whose snapshot is not complete.\<close>

lemma detach_complete_batch_correct:
  assumes wf: "arena_wf st" and sink: "sink_list st c xs"
    and run: "hz12_returned_detach_complete_batch cfg c bases st = Some (Some out, st')"
  shows "sink_list st' c (filter (\<lambda>p. \<not> (\<exists>t<length bases. in_span (bases ! t) p \<and> sn_complete (out ! t))) xs)"
    "hz12_returned_snapshot_batch cfg c bases st = Some (Some out, st)"
proof -
  obtain tbl where tbl: "batch_targets (hz12_arena_base st) bases 0 (\<lambda>_. 0) = Some tbl" and n: "length bases \<le> 64"
    using run by (auto simp: hz12_returned_detach_complete_batch_def hz12_returned_batch_def Let_def
      split: if_splits option.splits)
  let ?drops = "\<lambda>p. case hz12_returned_batch_target tbl (hz12_arena_base st) p of None \<Rightarrow> False
    | Some t \<Rightarrow> sn_complete (out ! t)"
  have drops: "?drops = (\<lambda>p. \<exists>t<length bases. in_span (bases ! t) p \<and> sn_complete (out ! t))"
  proof (rule ext)
    fix p
    show "?drops p = (\<exists>t<length bases. in_span (bases ! t) p \<and> sn_complete (out ! t))"
    proof (cases "hz12_returned_batch_target tbl (hz12_arena_base st) p")
      case None
      then have "\<not> (t < length bases \<and> in_span (bases ! t) p)" for t
        using batch_target_iff(1) [OF wf tbl n, of p t] by simp
      then show ?thesis using None by auto
    next
      case (Some u)
      then have "u < length bases \<and> in_span (bases ! u) p"
        "\<And>t. t < length bases \<Longrightarrow> in_span (bases ! t) p \<Longrightarrow> t = u"
        using batch_target_iff(1) [OF wf tbl n, of p] by (metis option.inject)+
      then have "(\<exists>t<length bases. in_span (bases ! t) p \<and> sn_complete (out ! t)) = sn_complete (out ! u)" by metis
      then show ?thesis using Some by simp
    qed
  qed
  obtain h' m' where w: "unlink_walk ?drops None (hz12_returned st (unat c)) (h12_mem st) 0
      = Some (0 + of_nat (length (filter ?drops xs)), h', m')" "chain m' h' (filter (\<lambda>p. \<not> ?drops p) xs)"
    using unlink_walk_chain [OF sink [unfolded sink_list_def], of ?drops 0] by metis
  have "st' = st\<lparr>h12_mem := m', hz12_returned := (hz12_returned st)(unat c := h')\<rparr>"
    "hz12_returned_snapshot_batch cfg c bases st = Some (Some out, st)"
    using run tbl w(1) by (auto simp: hz12_returned_detach_complete_batch_def hz12_returned_snapshot_batch_def
      hz12_returned_batch_def Let_def split: if_splits option.splits)
  then show "sink_list st' c (filter (\<lambda>p. \<not> (\<exists>t<length bases. in_span (bases ! t) p \<and> sn_complete (out ! t))) xs)"
    "hz12_returned_snapshot_batch cfg c bases st = Some (Some out, st)"
    using w(2) [unfolded fun_cong [OF drops]] by (simp_all only: sink_list_def) simp
qed

text \<open>What is pushed as a batch is popped last in, first out, before what the sink held, whether the
  build pushes it in chunks or not.\<close>

theorem push_pop_range_roundtrip:
  assumes "sink_list st c xs" "c < HZ12_CLASS_COUNT cfg" "items \<noteq> []" "distinct (filter (\<lambda>p. p \<noteq> 0) items)"
    "set items \<inter> set xs = {}" "k \<noteq> 0"
    and st'_def: "st' = hz12_returned_push_range cfg c items st"
    and pop: "hz12_returned_pop_range cfg c k st' = (ps, st'')"
  shows "ps = take (unat k) (rev (filter (\<lambda>p. p \<noteq> 0) items) @ xs) \<and>
    sink_list st'' c (drop (unat k) (rev (filter (\<lambda>p. p \<noteq> 0) items) @ xs)) \<and>
    (\<forall>a. a \<notin> set items \<longrightarrow> h12_mem st'' a = h12_mem st a)"
proof -
  let ?ys = "rev (filter (\<lambda>p. p \<noteq> 0) items) @ xs"
  have pushed: "sink_list st' c ?ys \<and> (\<forall>a. a \<notin> set items \<longrightarrow> h12_mem st' a = h12_mem st a)"
  proof (cases "c12_returned_push_range_chunk cfg = 0")
    case True
    then have "hz12_returned_push_chain c items st = (fst (hz12_returned_push_chain c items st), st')"
      using assms(3) st'_def class_guard [OF assms(2)] by (simp add: hz12_returned_push_range_def)
    from push_chain_sink(1,3) [OF assms(1,4,5) this] show ?thesis by blast
  next
    case False
    then have "st' = push_range_chunks (unat (c12_returned_push_range_chunk cfg)) c items st"
      "0 < unat (c12_returned_push_range_chunk cfg)"
      using assms(3) st'_def class_guard [OF assms(2)] by (simp_all add: hz12_returned_push_range_def unat_gt_0)
    with push_range_chunks_sink [OF assms(1,4,5)] show ?thesis by blast
  qed
  obtain h where h: "pop_range_loop (unat k) (hz12_returned st' (unat c)) (h12_mem st') = (take (unat k) ?ys, h)"
    "chain (h12_mem st') h (drop (unat k) ?ys)"
    using pop_range_loop_chain [of "h12_mem st'" "hz12_returned st' (unat c)" ?ys "unat k"] pushed
    unfolding sink_list_def by (metis prod.collapse)
  have "(c \<ge> HZ12_CLASS_COUNT cfg \<or> k = 0) = False" using assms(2,6) by simp
  then have "ps = take (unat k) ?ys" "st'' = st'\<lparr>hz12_returned := (hz12_returned st')(unat c := h)\<rparr>"
    using pop h(1) by (simp_all add: hz12_returned_pop_range_def)
  then show ?thesis using pushed h(2) by (simp add: sink_list_def)
qed

theorem push_pop_range_roundtrip_witness:
  "fst (hz12_returned_pop_range hz12_default_config 12 2
     (hz12_returned_push_range hz12_default_config 12 [4295032832] example_sink)) = [4295032832, 4294967296]"
  using push_pop_range_roundtrip [OF example_sink_facts(2) example_sink_span(1), of "[4295032832]" 2]
  by (cases "hz12_returned_pop_range hz12_default_config 12 2
      (hz12_returned_push_range hz12_default_config 12 [4295032832] example_sink)") simp

text \<open>A carve hands out a span that routed to no class before, routes it to its class afterwards and
  changes no other route; it fails, and changes nothing, exactly when the arena is used up.\<close>

theorem carve_fresh_span:
  assumes "arena_wf st" "hz12_span_init_once st" "c < HZ12_CLASS_COUNT cfg"
    "hz12_span_carve_for_class c st = (p, st')"
  shows "arena_wf st' \<and> h12_mem st' = h12_mem st \<and> hz12_returned st' = hz12_returned st \<and>
    (if p = 0 then st' = st \<and> hz12_span_cursor st = hz12_arena_end st
     else (\<forall>a. in_span p a \<longrightarrow> hz12_span_classify a st = None) \<and>
       (\<forall>a. hz12_span_classify a st' = (if in_span p a then Some c else hz12_span_classify a st)))"
  using carve_correct [OF assms] by (auto split: if_splits)

theorem carve_fresh_span_witness:
  "\<exists>p st'. hz12_span_carve_for_class 5 example_sink = (p, st') \<and> p = 4295098368 \<and> arena_wf st' \<and>
     hz12_span_classify 4295098368 st' = Some 5"
  using carve_fresh_span [OF example_sink_facts(1), of 5 hz12_default_config]
  by (auto simp: example_sink_def HZ12_CLASS_COUNT_def hz12_default_config_def hz12_span_carve_for_class_def
    hz12_span_init_def in_span_def Let_def)

text \<open>A span whose route is detached classifies to nothing, and attaching it to its class again gives
  the state back; a detachment that names another class is refused.\<close>

theorem route_detach_attach:
  assumes "arena_wf st" "c < HZ12_CLASS_COUNT cfg" "hz12_span_route_detach b c st = (ok, st')"
  shows "(ok \<longleftrightarrow> span_id_of b st \<noteq> None \<and> hz12_span_classify b st = Some c) \<and> (\<not> ok \<longrightarrow> st' = st) \<and>
    (ok \<longrightarrow> (\<forall>a. hz12_span_classify a st' = (if in_span b a then None else hz12_span_classify a st)) \<and>
       hz12_span_route_attach cfg b c st' = (True, st))"
proof (cases "span_id_of b st")
  case None
  then show ?thesis using assms(3) by (simp add: hz12_span_route_detach_def)
next
  case (Some i)
  have i: "i < 65536" "b = span_at st i" using span_id_is_at [OF assms(1) Some] by auto
  have cl: "hz12_span_classify b st = (if hz12_span_class st i = 0 then None else Some (hz12_span_class st i - 1))"
    using Some by (auto simp: hz12_span_classify_def span_id_of_def Let_def split: if_splits)
  have c0: "c + 1 \<noteq> 0" by (rule class_suc_nonzero [OF assms(2)])
  have eq: "hz12_span_classify b st = Some c \<longleftrightarrow> hz12_span_class st i = c + 1"
    using cl c0 by (auto simp: diff_eq_eq)
  show ?thesis
  proof (cases "hz12_span_class st i = c + 1")
    case True
    let ?st1 = "st\<lparr>hz12_span_class := (hz12_span_class st)(i := 0)\<rparr>"
    have run: "ok" "st' = ?st1" using assms(3) Some True by (auto simp: hz12_span_route_detach_def)
    have cls: "hz12_span_classify a ?st1 = (if in_span b a then None else hz12_span_classify a st)" for a
      using route_classify [OF assms(1) i(1), of 0 c ?st1 a] i(2) by simp
    have id: "span_id_of b ?st1 = Some i" using Some by (simp add: span_id_of_def)
    have "(hz12_span_class st)(i := 0, i := c + 1) = hz12_span_class st" using True by auto
    then have "hz12_span_route_attach cfg b c ?st1 = (True, st)"
      using id class_guard [OF assms(2)] by (simp add: hz12_span_route_attach_def)
    then show ?thesis using run cls eq True Some by auto
  next
    case False
    then show ?thesis using assms(3) Some eq by (auto simp: hz12_span_route_detach_def)
  qed
qed

theorem route_detach_attach_witness:
  "\<exists>st'. hz12_span_route_detach 4294967296 12 example_sink = (True, st') \<and>
     hz12_span_classify 4294967300 st' = None \<and> hz12_span_route_attach hz12_default_config 4294967296 12 st' = (True, example_sink)"
proof -
  obtain ok st' where d: "hz12_span_route_detach 4294967296 12 example_sink = (ok, st')" by force
  have "span_id_of 4294967296 example_sink \<noteq> None" "hz12_span_classify 4294967296 example_sink = Some 12"
    by (simp_all add: span_id_of_def hz12_span_classify_def example_sink_def Let_def)
  then show ?thesis
    using route_detach_attach [OF example_sink_facts(1) example_sink_span(1) d] d by (auto simp: in_span_def)
qed

section \<open>An object pushed twice\<close>

lemma sink_walk_stuck:
  assumes "m p = p" "p \<noteq> 0"
  shows "sink_walk visit p m acc = None"
proof (rule ccontr)
  assume "sink_walk visit p m acc \<noteq> None"
  then obtain xs where xs: "chain m p xs" by (auto dest: sink_walk_ends)
  then obtain ys where "xs = p # ys" "chain m (m p) ys" using assms(2) by (cases xs) auto
  then have "xs = p # xs" using chain_unique xs assms(1) by metis
  then show False by (metis not_Cons_self)
qed

text \<open>C29: the snapshot that is to find an object returned twice cannot: where it returns, it has counted no
  duplicate, in whatever state; and after an object has been pushed twice in a row, it never returns, and
  neither do the count and the detachment, which hold the lock of the sink.\<close>

theorem double_push_never_detected:
  assumes "c < HZ12_CLASS_COUNT cfg" "p \<noteq> 0" "b \<noteq> 0"
    and st2_def: "st2 = hz12_returned_push cfg c p (hz12_returned_push cfg c p st)"
  shows "(hz12_returned_snapshot_span cfg c b st = Some (Some out) \<longrightarrow> sn_duplicate_slots out = 0) \<and>
    hz12_returned_snapshot_span cfg c b st2 = None \<and> hz12_returned_count_in_span cfg c b st2 = None \<and>
    hz12_returned_detach_complete_span cfg c b st2 = None"
proof -
  have st2: "hz12_returned st2 (unat c) = p" "h12_mem st2 p = p"
    using assms(2) st2_def class_guard [OF assms(1)] by (simp_all add: hz12_returned_push_def)
  note stuck = sink_walk_stuck [of "h12_mem st2", OF st2(2) assms(2)]
  have "sn_duplicate_slots out = 0" if run: "hz12_returned_snapshot_span cfg c b st = Some (Some out)"
  proof -
    obtain xs where "chain (h12_mem st) (hz12_returned st (unat c)) xs"
      using run class_guard [OF assms(1)] assms(3) slot_size_nonzero [OF assms(1)]
      by (auto simp: hz12_returned_snapshot_span_def span_snapshot_def Let_def dest!: sink_walk_ends)
    then have "sink_list st c xs" by (simp add: sink_list_def)
    from sink_snapshot [OF this assms(1), of b] show ?thesis
      using run class_guard [OF assms(1)] assms(3) slot_size_nonzero [OF assms(1)]
      by (auto simp: hz12_returned_snapshot_span_def Let_def)
  qed
  then show ?thesis
    using class_guard [OF assms(1)] assms(3) slot_size_nonzero [OF assms(1)] st2
    by (simp add: stuck hz12_returned_snapshot_span_def span_snapshot_def hz12_returned_count_in_span_def
      hz12_returned_detach_complete_span_def Let_def)
qed

theorem double_push_never_detected_witness:
  "hz12_returned_snapshot_span hz12_default_config 12 4294967296
     (hz12_returned_push hz12_default_config 12 4295032832
        (hz12_returned_push hz12_default_config 12 4295032832 example_sink)) = None"
  using double_push_never_detected [OF example_sink_span(1), of 4295032832 4294967296 _ example_sink] by simp

end
