(* ===== verification/Hz12_Sys_Alloc.thy ===== *)
theory Hz12_Sys_Alloc
  imports Hz12_Span_Correct
begin

text \<open>
  \<open>src/hakozuna-hz12/src/hz12_sys_alloc.{h,c}\<close>, POSIX branch: the system allocator below HZ12, found
  with \<open>dlsym(RTLD_NEXT, ...)\<close>, and the 64 KiB bootstrap buffer that serves while it is being looked up
  or where it is missing.

  The system's answers are outside the program: \<open>h12_dlsym\<close> says which symbols exist and \<open>h12_sys_answers\<close>
  holds the pointers the allocating functions will return, in order; its end is failure. The calls are
  recorded in \<open>h12_sys_calls\<close>, newest first, each with its answer. \<open>hz12_bootstrap_buf\<close> is where the
  linker put the buffer. \<open>hz12_resolving\<close> is thread-local, so it belongs to a thread: the functions take
  and return it; it is set only inside \<open>dlsym\<close>, which is one step here, so no function changes it.
  The copies of \<open>memcpy\<close> and \<open>memset\<close> are per address.
\<close>

datatype sys_symbol = Sym_malloc | Sym_free | Sym_realloc | Sym_calloc | Sym_usable_size
  | Sym_posix_memalign | Sym_aligned_alloc | Sym_memalign

datatype sys_call = Sys_malloc u64 addr | Sys_free addr | Sys_realloc addr u64 addr | Sys_calloc u64 u64 addr
  | Sys_memalign u64 u64 addr

record h12_sys_state = h12_span_state +
  h12_dlsym :: "sys_symbol \<Rightarrow> bool"
  hz12_real :: "sys_symbol \<Rightarrow> bool"
  hz12_resolved :: bool
  hz12_bootstrap_buf :: addr
  hz12_bootstrap_off :: u64
  h12_sys_answers :: "addr list"
  h12_sys_calls :: "sys_call list"

abbreviation (input) HZ12_BOOTSTRAP_BYTES :: u64 where "HZ12_BOOTSTRAP_BYTES \<equiv> 65536"

definition copy_cells :: "addr \<Rightarrow> addr \<Rightarrow> u64 \<Rightarrow> memory \<Rightarrow> memory" where
  "copy_cells dst source n m = (\<lambda>a. if a - dst < n then m (source + (a - dst)) else m a)"

definition clear_cells :: "addr \<Rightarrow> u64 \<Rightarrow> memory \<Rightarrow> memory" where
  "clear_cells dst n m = (\<lambda>a. if a - dst < n then 0 else m a)"

definition hz12_bootstrap_alloc :: "u64 \<Rightarrow> 'a h12_sys_state_scheme \<Rightarrow> addr \<times> 'a h12_sys_state_scheme" where
  "hz12_bootstrap_alloc n st =
    (let n = (n + 15) AND NOT 15; off = hz12_bootstrap_off st;
         st1 = st\<lparr>hz12_bootstrap_off := off + n\<rparr> in
     (if off + n > HZ12_BOOTSTRAP_BYTES then 0 else hz12_bootstrap_buf st + off, st1))"

definition hz12_is_bootstrap :: "addr \<Rightarrow> 'a h12_sys_state_scheme \<Rightarrow> bool" where
  "hz12_is_bootstrap p st \<longleftrightarrow>
     p \<ge> hz12_bootstrap_buf st \<and> p < hz12_bootstrap_buf st + HZ12_BOOTSTRAP_BYTES"

definition hz12_resolver_ensure :: "bool \<Rightarrow> 'a h12_sys_state_scheme \<Rightarrow> 'a h12_sys_state_scheme" where
  "hz12_resolver_ensure resolving st =
    (if hz12_resolved st then st else if resolving then st
     else st\<lparr>hz12_real := h12_dlsym st, hz12_resolved := True\<rparr>)"

text \<open>The next answer of the system, recorded as the call \<open>event\<close>.\<close>

definition sys_answer :: "(addr \<Rightarrow> sys_call) \<Rightarrow> 'a h12_sys_state_scheme \<Rightarrow> addr \<times> 'a h12_sys_state_scheme" where
  "sys_answer event st =
    (let p = (case h12_sys_answers st of [] \<Rightarrow> 0 | a # _ \<Rightarrow> a) in
     (p, st\<lparr>h12_sys_answers := tl (h12_sys_answers st), h12_sys_calls := event p # h12_sys_calls st\<rparr>))"

definition hz12_sys_malloc :: "bool \<Rightarrow> u64 \<Rightarrow> 'a h12_sys_state_scheme \<Rightarrow> addr \<times> 'a h12_sys_state_scheme" where
  "hz12_sys_malloc resolving n st =
    (let st1 = hz12_resolver_ensure resolving st in
     if resolving then hz12_bootstrap_alloc n st1
     else if hz12_real st1 Sym_malloc then sys_answer (Sys_malloc n) st1
     else hz12_bootstrap_alloc n st1)"

definition hz12_sys_free :: "bool \<Rightarrow> addr \<Rightarrow> 'a h12_sys_state_scheme \<Rightarrow> 'a h12_sys_state_scheme" where
  "hz12_sys_free resolving p st =
    (if p = 0 then st
     else if hz12_is_bootstrap p st then st
     else let st1 = hz12_resolver_ensure resolving st in
       if hz12_real st1 Sym_free then st1\<lparr>h12_sys_calls := Sys_free p # h12_sys_calls st1\<rparr> else st1)"

definition hz12_sys_realloc :: "bool \<Rightarrow> addr \<Rightarrow> u64 \<Rightarrow> 'a h12_sys_state_scheme \<Rightarrow> addr \<times> 'a h12_sys_state_scheme" where
  "hz12_sys_realloc resolving p n st =
    (if hz12_is_bootstrap p st then
       (case hz12_sys_malloc resolving n st of (np, st1) \<Rightarrow>
          (np, if np \<noteq> 0 \<and> p \<noteq> 0 then st1\<lparr>h12_mem := copy_cells np p n (h12_mem st1)\<rparr> else st1))
     else let st1 = hz12_resolver_ensure resolving st in
       if hz12_real st1 Sym_realloc then sys_answer (Sys_realloc p n) st1 else (0, st1))"

definition hz12_sys_calloc :: "bool \<Rightarrow> u64 \<Rightarrow> u64 \<Rightarrow> 'a h12_sys_state_scheme \<Rightarrow> addr \<times> 'a h12_sys_state_scheme" where
  "hz12_sys_calloc resolving cnt sz st =
    (let st1 = hz12_resolver_ensure resolving st in
     if hz12_real st1 Sym_calloc then sys_answer (Sys_calloc cnt sz) st1
     else let total = cnt * sz in
       if cnt \<noteq> 0 \<and> sz > (- 1) div cnt then (0, st1)
       else case hz12_sys_malloc resolving total st1 of (p, st2) \<Rightarrow>
         (p, if p \<noteq> 0 then st2\<lparr>h12_mem := clear_cells p total (h12_mem st2)\<rparr> else st2))"

text \<open>The size the system reports for a block is its own: \<open>usable\<close>.\<close>

definition hz12_sys_usable_size :: "(addr \<Rightarrow> u64) \<Rightarrow> bool \<Rightarrow> addr \<Rightarrow> 'a h12_sys_state_scheme \<Rightarrow> u64 \<times> 'a h12_sys_state_scheme" where
  "hz12_sys_usable_size usable resolving p st =
    (let st1 = hz12_resolver_ensure resolving st in
     (if hz12_real st1 Sym_usable_size then usable p else 0, st1))"

text \<open>The error code and the pointer, \<open>None\<close> where \<open>*memptr\<close> is not written; \<open>err\<close> is the code of a failing
  call of the system, 12 is \<open>ENOMEM\<close>.\<close>

definition hz12_sys_posix_memalign :: "u32 \<Rightarrow> bool \<Rightarrow> u64 \<Rightarrow> u64 \<Rightarrow> 'a h12_sys_state_scheme \<Rightarrow>
    (u32 \<times> addr option) \<times> 'a h12_sys_state_scheme" where
  "hz12_sys_posix_memalign err resolving alignment sz st =
    (let st1 = hz12_resolver_ensure resolving st in
     if hz12_real st1 Sym_posix_memalign
     then (case sys_answer (Sys_memalign alignment sz) st1 of (p, st2) \<Rightarrow>
            (if p = 0 then ((err, None), st2) else ((0, Some p), st2)))
     else ((12, None), st1))"

definition hz12_sys_aligned_alloc :: "bool \<Rightarrow> u64 \<Rightarrow> u64 \<Rightarrow> 'a h12_sys_state_scheme \<Rightarrow> addr \<times> 'a h12_sys_state_scheme" where
  "hz12_sys_aligned_alloc resolving alignment sz st =
    (let st1 = hz12_resolver_ensure resolving st in
     if hz12_real st1 Sym_aligned_alloc then sys_answer (Sys_memalign alignment sz) st1 else (0, st1))"

definition hz12_sys_memalign :: "bool \<Rightarrow> u64 \<Rightarrow> u64 \<Rightarrow> 'a h12_sys_state_scheme \<Rightarrow> addr \<times> 'a h12_sys_state_scheme" where
  "hz12_sys_memalign resolving alignment sz st =
    (let st1 = hz12_resolver_ensure resolving st in
     if hz12_real st1 Sym_memalign then sys_answer (Sys_memalign alignment sz) st1 else (0, st1))"

section \<open>What the system layer leaves alone\<close>

text \<open>The span allocator below is untouched by every function that does not write memory.\<close>

definition same_span :: "'a h12_sys_state_scheme \<Rightarrow> 'a h12_sys_state_scheme \<Rightarrow> bool" where
  "same_span st st' \<longleftrightarrow> h12_mem st' = h12_mem st \<and> hz12_arena_base st' = hz12_arena_base st \<and>
     hz12_arena_end st' = hz12_arena_end st \<and> hz12_span_cursor st' = hz12_span_cursor st \<and>
     hz12_span_init_once st' = hz12_span_init_once st \<and> hz12_span_class st' = hz12_span_class st \<and>
     hz12_returned st' = hz12_returned st \<and> hz12_size_table st' = hz12_size_table st \<and>
     hz12_size_table_ready st' = hz12_size_table_ready st"

lemma same_span_refl [simp]: "same_span st st"
  by (simp add: same_span_def)

lemma same_span_trans: "same_span st st' \<Longrightarrow> same_span st' st'' \<Longrightarrow> same_span st st''"
  by (simp add: same_span_def)

lemma resolver_same_span [simp]: "same_span st (hz12_resolver_ensure r st)"
  by (simp add: same_span_def hz12_resolver_ensure_def)

lemma sys_answer_same_span: "sys_answer e st = (p, st') \<Longrightarrow> same_span st st'"
  by (auto simp: same_span_def sys_answer_def Let_def)

lemma bootstrap_same_span: "hz12_bootstrap_alloc n st = (p, st') \<Longrightarrow> same_span st st'"
  by (auto simp: same_span_def hz12_bootstrap_alloc_def Let_def)

lemma sys_malloc_same_span: "hz12_sys_malloc r n st = (p, st') \<Longrightarrow> same_span st st'"
  by (auto simp: hz12_sys_malloc_def Let_def split: if_splits
      dest!: sys_answer_same_span bootstrap_same_span intro: same_span_trans [OF resolver_same_span])

lemma sys_free_same_span [simp]: "same_span st (hz12_sys_free r p st)"
  by (auto simp: hz12_sys_free_def Let_def same_span_def hz12_resolver_ensure_def)

lemma same_span_facts:
  assumes "same_span st st'"
  shows "hz12_span_classify a st' = hz12_span_classify a st" "hz12_arena_contains a st' = hz12_arena_contains a st"
    "arena_wf st' = arena_wf st" "sink_list st' c xs = sink_list st c xs"
  using assms by (simp_all add: same_span_def hz12_span_classify_def hz12_arena_contains_def arena_wf_def
    sink_list_def Let_def)

section \<open>The bootstrap buffer\<close>

text \<open>Requests that together fit the buffer get consecutive, 16-byte aligned, disjoint blocks of it.\<close>

lemma bootstrap_round:
  assumes "unat n + 15 < 18446744073709551616"
  shows "unat ((n + 15) AND NOT 15 :: u64) = (unat n + 15) div 16 * 16"
proof -
  have u: "unat (n + 15) = unat n + 15" by (subst unat_add_no_wrap) (use assms in simp_all)
  have "(n + 15) AND NOT 15 = (n + 15) - ((n + 15) AND 15)"
  proof -
    have "NOT (n + 15) AND ((n + 15) AND 15) = 0"
      by (rule bit_word_eqI) (simp add: bit_and_iff bit_not_iff)
    then have "(n + 15) - ((n + 15) AND 15) = (n + 15) AND NOT ((n + 15) AND 15)" by (rule disjunctive_diff_eq_and_not)
    also have "\<dots> = (n + 15) AND NOT 15"
      by (rule bit_word_eqI) (auto simp only: bit_and_iff bit_not_iff)
    finally show ?thesis by (rule sym)
  qed
  moreover have "(n + 15) AND 15 \<le> n + 15" unfolding word_le_nat_alt unat_and_15 by (rule mod_less_eq_dividend)
  ultimately show ?thesis by (simp only: unat_sub unat_and_15 u) (metis minus_mod_eq_div_mult)
qed

text \<open>While the requests so far and the next one fit, the bootstrap buffer hands out the next aligned
  block; a request that does not fit gets NULL, but moves the offset, so that all later ones fail too,
  unless the offset wraps around.\<close>

theorem bootstrap_alloc_blocks:
  assumes "hz12_bootstrap_alloc n st = (p, st')" "unat n + 15 < 18446744073709551616"
    "unat (hz12_bootstrap_off st) + (unat n + 15) div 16 * 16 < 18446744073709551616"
  shows "unat (hz12_bootstrap_off st') = unat (hz12_bootstrap_off st) + (unat n + 15) div 16 * 16 \<and>
    (if unat (hz12_bootstrap_off st') \<le> 65536
     then p = hz12_bootstrap_buf st + hz12_bootstrap_off st \<and> unat (hz12_bootstrap_off st) + unat n \<le> unat (hz12_bootstrap_off st')
     else p = 0)"
proof -
  let ?n = "(n + 15) AND NOT 15 :: u64"
  have r: "unat ?n = (unat n + 15) div 16 * 16" by (rule bootstrap_round [OF assms(2)])
  have sum: "unat (hz12_bootstrap_off st + ?n) = unat (hz12_bootstrap_off st) + (unat n + 15) div 16 * 16"
    by (subst unat_add_no_wrap) (use assms(3) r in simp_all)
  have "unat n \<le> (unat n + 15) div 16 * 16" by linarith
  then show ?thesis using assms(1) sum
    by (auto simp: hz12_bootstrap_alloc_def Let_def word_less_nat_alt not_less)
qed

definition example_sys :: "unit h12_sys_state_scheme" where
  "example_sys = h12_span_state.extend example_sink \<lparr>h12_dlsym = (\<lambda>_. True), hz12_real = (\<lambda>_. False),
     hz12_resolved = False, hz12_bootstrap_buf = 1048576, hz12_bootstrap_off = 0, h12_sys_answers = [2097152, 3145728],
     h12_sys_calls = []\<rparr>"

theorem bootstrap_alloc_blocks_witness:
  "fst (hz12_bootstrap_alloc 20 (snd (hz12_bootstrap_alloc 100 example_sys))) = 1048576 + 112"
  using bootstrap_alloc_blocks [OF prod.collapse [symmetric], of 20 "snd (hz12_bootstrap_alloc 100 example_sys)"]
  by (simp add: hz12_bootstrap_alloc_def example_sys_def h12_span_state.defs Let_def)

text \<open>The size computations of the bootstrap buffer wrap: a request of \<open>SIZE_MAX\<close> bytes is rounded to
  0 and gets a pointer, and a request just below, which fails, moves the offset back, so that the next
  one gets a block before the buffer.\<close>

theorem bootstrap_alloc_wraps:
  fixes st :: "'a h12_sys_state_scheme"
  shows "(hz12_bootstrap_off st < HZ12_BOOTSTRAP_BYTES \<longrightarrow>
      hz12_bootstrap_alloc (- 1) st = (hz12_bootstrap_buf st + hz12_bootstrap_off st, st)) \<and>
    (hz12_bootstrap_off st = 0 \<longrightarrow>
      (case hz12_bootstrap_alloc (- 16) st of (p, st1) \<Rightarrow>
         p = 0 \<and> fst (hz12_bootstrap_alloc 16 st1) = hz12_bootstrap_buf st - 16))"
  by (auto simp: hz12_bootstrap_alloc_def Let_def)

theorem bootstrap_alloc_wraps_witness:
  "hz12_bootstrap_alloc (- 1) example_sys = (1048576, example_sys) \<and>
   fst (hz12_bootstrap_alloc 16 (snd (hz12_bootstrap_alloc (- 16) example_sys))) = 1048560"
  using bootstrap_alloc_wraps [of example_sys]
  by (simp add: example_sys_def h12_span_state.defs case_prod_beta)

end
