(* ===== verification/Hz12_Thread_Cache.thy ===== *)
theory Hz12_Thread_Cache
  imports Hz12_Sys_Alloc
begin

text \<open>
  \<open>src/hakozuna-hz12/src/hz12_thread_cache.{h,c}\<close> and \<open>hz12_token_table.h\<close>: the cache every thread has in
  front of the spans (the span lane, \<open>HZ12_CLASSIFY_SPAN\<close>) or of the system allocator (the token lane),
  its overflow flush and its refill.

  The arrays of a class are the list of their used entries, the last one the next to be popped; the
  layouts \<open>HZ12_CACHE_SOA\<close> and \<open>HZ12_CACHE_TOPPTR\<close> only store this list differently. Each thread is a
  record of its thread-local variables; \<open>h12_thread t\<close> is the one of thread \<open>t\<close>. The builds with owner
  routing, ledgers, the transfer cache, the per-CPU cache and the hot counters are not in this model.
\<close>

record H12SpanCurrent =
  cs_base :: addr
  cs_bump_index :: u32
  cs_slot_count :: u32

record H12Token =
  tk_ptr :: addr
  tk_class_id :: u8

record H12ThreadCache =
  tc_items :: "nat \<Rightarrow> addr list"
  tc_tokens :: "nat \<Rightarrow> H12Token"
  tc_current :: "nat \<Rightarrow> H12SpanCurrent"
  returned_refill_pressure :: "nat \<Rightarrow> u8"
  returned_refill_cold_skip :: "nat \<Rightarrow> u8"
  tc_cached_bytes :: u64

record h12_thread_locals =
  hz12_tls :: "H12ThreadCache option"
  hz12_resolving :: bool

record h12_cache_state = h12_sys_state +
  h12_thread :: "nat \<Rightarrow> h12_thread_locals"

definition empty_thread_cache :: H12ThreadCache where
  "empty_thread_cache = \<lparr>tc_items = (\<lambda>_. []), tc_tokens = (\<lambda>_. \<lparr>tk_ptr = 0, tk_class_id = 0\<rparr>),
     tc_current = (\<lambda>_. \<lparr>cs_base = 0, cs_bump_index = 0, cs_slot_count = 0\<rparr>),
     returned_refill_pressure = (\<lambda>_. 0), returned_refill_cold_skip = (\<lambda>_. 0), tc_cached_bytes = 0\<rparr>"

definition store_tls :: "nat \<Rightarrow> H12ThreadCache \<Rightarrow> 'a h12_cache_state_scheme \<Rightarrow> 'a h12_cache_state_scheme" where
  "store_tls t tc st = st\<lparr>h12_thread := (h12_thread st)(t := (h12_thread st t)\<lparr>hz12_tls := Some tc\<rparr>)\<rparr>"

section \<open>The token table\<close>

definition hz12_token_hash :: "addr \<Rightarrow> nat" where
  "hz12_token_hash ptr =
    (let x = ptr XOR drop_bit 33 ptr; x = x * 0xff51afd7ed558ccd; x = x XOR drop_bit 33 x in
     unat (x AND 1023))"

definition hz12_token_set :: "addr \<Rightarrow> u8 \<Rightarrow> (nat \<Rightarrow> H12Token) \<Rightarrow> nat \<Rightarrow> H12Token" where
  "hz12_token_set ptr class_id tokens = tokens(hz12_token_hash ptr := \<lparr>tk_ptr = ptr, tk_class_id = class_id\<rparr>)"

definition hz12_token_lookup :: "(nat \<Rightarrow> H12Token) \<Rightarrow> addr \<Rightarrow> u8 option" where
  "hz12_token_lookup tokens ptr =
    (let t = tokens (hz12_token_hash ptr) in if tk_ptr t = ptr then Some (tk_class_id t) else None)"

definition hz12_token_invalidate :: "addr \<Rightarrow> (nat \<Rightarrow> H12Token) \<Rightarrow> nat \<Rightarrow> H12Token" where
  "hz12_token_invalidate ptr tokens =
    (let i = hz12_token_hash ptr in
     if tk_ptr (tokens i) = ptr then tokens(i := (tokens i)\<lparr>tk_ptr := 0\<rparr>) else tokens)"

section \<open>Getting the cache of the thread\<close>

definition hz12_thread_cache_init_slow :: "hz12_config \<Rightarrow> nat \<Rightarrow> 'a h12_cache_state_scheme \<Rightarrow>
    H12ThreadCache option \<times> 'a h12_cache_state_scheme" where
  "hz12_thread_cache_init_slow cfg t st =
    (case hz12_sys_malloc (hz12_resolving (h12_thread st t)) (c12_thread_cache_bytes cfg) st of (raw, st1) \<Rightarrow>
       if raw = 0 then (None, st1)
       else let st2 = (if c12_classify_span cfg then hz12_span_init st1 else st1) in
         (Some empty_thread_cache, store_tls t empty_thread_cache st2))"

definition hz12_thread_cache_get :: "hz12_config \<Rightarrow> nat \<Rightarrow> 'a h12_cache_state_scheme \<Rightarrow>
    H12ThreadCache option \<times> 'a h12_cache_state_scheme" where
  "hz12_thread_cache_get cfg t st =
    (case hz12_tls (h12_thread st t) of
       Some tc \<Rightarrow> (Some tc, st)
     | None \<Rightarrow> hz12_thread_cache_init_slow cfg t st)"

section \<open>Pop, push and flush\<close>

definition hz12_thread_cache_pop :: "hz12_config \<Rightarrow> u8 \<Rightarrow> H12ThreadCache \<Rightarrow> addr \<times> H12ThreadCache" where
  "hz12_thread_cache_pop cfg class_id tc =
    (let items = tc_items tc (unat class_id) in
     if class_id \<ge> HZ12_CLASS_COUNT cfg then (0, tc)
     else if items = [] then (0, tc)
     else (last items, tc\<lparr>tc_items := (tc_items tc)(unat class_id := butlast items),
       tc_cached_bytes := (if c12_cache_byte_accounting cfg
         then tc_cached_bytes tc - hz12_class_slot_size cfg class_id else tc_cached_bytes tc)\<rparr>))"

text \<open>The loop of a flush without \<open>HZ12_RETURNED_PUSH_RANGE\<close>.\<close>

fun flush_items :: "hz12_config \<Rightarrow> bool \<Rightarrow> u8 \<Rightarrow> addr list \<Rightarrow> 'a h12_sys_state_scheme \<Rightarrow> 'a h12_sys_state_scheme" where
  "flush_items cfg resolving class_id [] st = st"
| "flush_items cfg resolving class_id (p # ps) st =
    flush_items cfg resolving class_id ps
      (if c12_classify_span cfg \<and> hz12_arena_contains p st then hz12_returned_push cfg class_id p st
       else hz12_sys_free resolving p st)"

fun gather_returned :: "bool \<Rightarrow> addr list \<Rightarrow> addr list \<Rightarrow> 'a h12_sys_state_scheme \<Rightarrow> addr list \<times> 'a h12_sys_state_scheme" where
  "gather_returned resolving [] returned st = (returned, st)"
| "gather_returned resolving (p # ps) returned st =
    (if hz12_arena_contains p st then gather_returned resolving ps (returned @ [p]) st
     else gather_returned resolving ps returned (hz12_sys_free resolving p st))"

definition hz12_thread_cache_flush_span_items :: "hz12_config \<Rightarrow> bool \<Rightarrow> u8 \<Rightarrow> addr list \<Rightarrow>
    'a h12_sys_state_scheme \<Rightarrow> 'a h12_sys_state_scheme" where
  "hz12_thread_cache_flush_span_items cfg resolving class_id items st =
    (case gather_returned resolving items [] st of (returned, st1) \<Rightarrow>
       if returned \<noteq> [] then hz12_returned_push_range cfg class_id returned st1 else st1)"

definition hz12_thread_cache_flush_class :: "hz12_config \<Rightarrow> bool \<Rightarrow> u8 \<Rightarrow> H12ThreadCache \<Rightarrow>
    'a h12_sys_state_scheme \<Rightarrow> H12ThreadCache \<times> 'a h12_sys_state_scheme" where
  "hz12_thread_cache_flush_class cfg resolving class_id tc st =
    (let items = tc_items tc (unat class_id) in
     (tc\<lparr>tc_items := (tc_items tc)(unat class_id := []),
         tc_cached_bytes := tc_cached_bytes tc - hz12_class_slot_size cfg class_id * of_nat (length items)\<rparr>,
      if c12_classify_span cfg \<and> c12_returned_push_range cfg
      then hz12_thread_cache_flush_span_items cfg resolving class_id items st
      else flush_items cfg resolving class_id items st))"

definition hz12_thread_cache_push_overflow_slow :: "hz12_config \<Rightarrow> bool \<Rightarrow> u8 \<Rightarrow> addr \<Rightarrow> H12ThreadCache \<Rightarrow>
    'a h12_sys_state_scheme \<Rightarrow> H12ThreadCache \<times> 'a h12_sys_state_scheme" where
  "hz12_thread_cache_push_overflow_slow cfg resolving class_id ptr tc st =
    (case hz12_thread_cache_flush_class cfg resolving class_id tc st of (tc1, st1) \<Rightarrow>
     let tc2 = (if c12_classify_span cfg \<and> c12_cold_skip cfg \<and> class_id < HZ12_CLASS_COUNT cfg
           then tc1\<lparr>returned_refill_cold_skip := (returned_refill_cold_skip tc1)(unat class_id := 0)\<rparr> else tc1) in
     if class_id < HZ12_CLASS_COUNT cfg
     then (tc2\<lparr>tc_items := (tc_items tc2)(unat class_id := tc_items tc2 (unat class_id) @ [ptr]),
               tc_cached_bytes := tc_cached_bytes tc2 + hz12_class_slot_size cfg class_id\<rparr>, st1)
     else (tc2, hz12_sys_free resolving ptr st1))"

definition hz12_thread_cache_push :: "hz12_config \<Rightarrow> bool \<Rightarrow> u8 \<Rightarrow> addr \<Rightarrow> H12ThreadCache \<Rightarrow>
    'a h12_sys_state_scheme \<Rightarrow> H12ThreadCache \<times> 'a h12_sys_state_scheme" where
  "hz12_thread_cache_push cfg resolving class_id ptr tc st =
    (let slot = hz12_class_slot_size cfg class_id; items = tc_items tc (unat class_id);
         tc1 = tc\<lparr>tc_items := (tc_items tc)(unat class_id := items @ [ptr])\<rparr> in
     if length items < unat (c12_cache_cap cfg) \<and>
        (c12_cache_byte_accounting cfg \<longrightarrow> tc_cached_bytes tc + slot \<le> c12_max_cached_bytes cfg)
     then ((if c12_cache_byte_accounting cfg then tc1\<lparr>tc_cached_bytes := tc_cached_bytes tc + slot\<rparr> else tc1), st)
     else hz12_thread_cache_push_overflow_slow cfg resolving class_id ptr tc st)"

fun push_all :: "hz12_config \<Rightarrow> bool \<Rightarrow> u8 \<Rightarrow> addr list \<Rightarrow> H12ThreadCache \<Rightarrow> 'a h12_sys_state_scheme \<Rightarrow>
    H12ThreadCache \<times> 'a h12_sys_state_scheme" where
  "push_all cfg resolving class_id [] tc st = (tc, st)"
| "push_all cfg resolving class_id (p # ps) tc st =
    (case hz12_thread_cache_push cfg resolving class_id p tc st of (tc1, st1) \<Rightarrow>
       push_all cfg resolving class_id ps tc1 st1)"

definition reset_current :: "nat \<Rightarrow> H12ThreadCache \<Rightarrow> H12ThreadCache" where
  "reset_current c tc = tc\<lparr>tc_current := (tc_current tc)(c := \<lparr>cs_base = 0, cs_bump_index = 0, cs_slot_count = 0\<rparr>)\<rparr>"

fun checkpoint_loop :: "hz12_config \<Rightarrow> bool \<Rightarrow> nat list \<Rightarrow> H12ThreadCache \<Rightarrow> 'a h12_sys_state_scheme \<Rightarrow>
    H12ThreadCache \<times> 'a h12_sys_state_scheme" where
  "checkpoint_loop cfg resolving [] tc st = (tc, st)"
| "checkpoint_loop cfg resolving (c # cs) tc st =
    (case hz12_thread_cache_flush_class cfg resolving (of_nat c) tc st of (tc1, st1) \<Rightarrow>
       checkpoint_loop cfg resolving cs (if c12_classify_span cfg then reset_current c tc1 else tc1) st1)"

definition hz12_thread_cache_reclaim_checkpoint :: "hz12_config \<Rightarrow> nat \<Rightarrow> 'a h12_cache_state_scheme \<Rightarrow>
    'a h12_cache_state_scheme" where
  "hz12_thread_cache_reclaim_checkpoint cfg t st =
    (case hz12_tls (h12_thread st t) of
       None \<Rightarrow> st
     | Some tc \<Rightarrow>
         (case checkpoint_loop cfg (hz12_resolving (h12_thread st t)) [0..<unat (HZ12_CLASS_COUNT cfg)] tc st of
           (tc1, st1) \<Rightarrow> store_tls t tc1 st1))"

section \<open>Refill\<close>

definition current_has :: "nat \<Rightarrow> H12ThreadCache \<Rightarrow> bool" where
  "current_has c tc \<longleftrightarrow> cs_base (tc_current tc c) \<noteq> 0 \<and>
     cs_bump_index (tc_current tc c) < cs_slot_count (tc_current tc c)"

definition bump_one :: "hz12_config \<Rightarrow> u8 \<Rightarrow> H12ThreadCache \<Rightarrow> addr \<times> H12ThreadCache" where
  "bump_one cfg class_id tc =
    (let cs = tc_current tc (unat class_id) in
     (cs_base cs + ucast (cs_bump_index cs) * hz12_class_slot_size cfg class_id,
      tc\<lparr>tc_current := (tc_current tc)(unat class_id := cs\<lparr>cs_bump_index := cs_bump_index cs + 1\<rparr>)\<rparr>))"

text \<open>The first stage: the sink of returned objects. A missed pop leaves its hints; \<open>None\<close> goes on to the
  current span.\<close>

definition note_cold_skip :: "hz12_config \<Rightarrow> u8 \<Rightarrow> H12ThreadCache \<Rightarrow> H12ThreadCache" where
  "note_cold_skip cfg class_id tc =
    (if c12_cold_skip cfg \<and> class_id < HZ12_CLASS_COUNT cfg \<and> current_has (unat class_id) tc
     then tc\<lparr>returned_refill_cold_skip := (returned_refill_cold_skip tc)(unat class_id := c12_cold_skip_budget cfg)\<rparr>
     else tc)"

definition raise_pressure :: "u8 \<Rightarrow> H12ThreadCache \<Rightarrow> H12ThreadCache" where
  "raise_pressure class_id tc =
    (let pressure = returned_refill_pressure tc (unat class_id) in
     if pressure < 255 then tc\<lparr>returned_refill_pressure := (returned_refill_pressure tc)(unat class_id := pressure + 1)\<rparr>
     else tc)"

definition refill_one :: "hz12_config \<Rightarrow> u8 \<Rightarrow> bool \<Rightarrow> H12ThreadCache \<Rightarrow> 'a h12_sys_state_scheme \<Rightarrow>
    addr option \<times> H12ThreadCache \<times> 'a h12_sys_state_scheme" where
  "refill_one cfg class_id gated tc st =
    (case hz12_returned_pop cfg class_id st of (reused, st1) \<Rightarrow>
       let pressure = returned_refill_pressure tc (unat class_id) in
       if reused \<noteq> 0 then
         (Some reused,
          (if gated \<and> pressure > 0
           then tc\<lparr>returned_refill_pressure := (returned_refill_pressure tc)(unat class_id := pressure - 1)\<rparr> else tc),
          st1)
       else (None, (if gated then raise_pressure class_id (note_cold_skip cfg class_id tc)
                    else note_cold_skip cfg class_id tc), st1))"

definition refill_batch :: "hz12_config \<Rightarrow> bool \<Rightarrow> u8 \<Rightarrow> H12ThreadCache \<Rightarrow> 'a h12_sys_state_scheme \<Rightarrow>
    addr option \<times> H12ThreadCache \<times> 'a h12_sys_state_scheme" where
  "refill_batch cfg resolving class_id tc st =
    (case hz12_returned_pop_range cfg class_id (c12_returned_refill_batch_count cfg) st of
       ([], st1) \<Rightarrow> (None, (if c12_pressure_gate cfg then raise_pressure class_id (note_cold_skip cfg class_id tc)
                          else note_cold_skip cfg class_id tc), st1)
     | (first # rest, st1) \<Rightarrow>
         (case push_all cfg resolving class_id rest tc st1 of (tc1, st2) \<Rightarrow>
           (Some first, (if c12_pressure_gate cfg
             then tc1\<lparr>returned_refill_pressure := (returned_refill_pressure tc1)(unat class_id := 0)\<rparr> else tc1), st2)))"

definition refill_from_sink :: "hz12_config \<Rightarrow> bool \<Rightarrow> u8 \<Rightarrow> H12ThreadCache \<Rightarrow> 'a h12_sys_state_scheme \<Rightarrow>
    addr option \<times> H12ThreadCache \<times> 'a h12_sys_state_scheme" where
  "refill_from_sink cfg resolving class_id tc st =
    (if c12_returned_refill_batch cfg \<and> class_id \<ge> c12_returned_refill_batch_min_class cfg \<and>
        class_id \<le> c12_returned_refill_batch_max_class cfg then
       if c12_pressure_gate cfg \<and>
          \<not> returned_refill_pressure tc (unat class_id) \<ge> c12_pressure_threshold cfg
       then refill_one cfg class_id True tc st
       else refill_batch cfg resolving class_id tc st
     else refill_one cfg class_id False tc st)"

text \<open>The second stage: the current span of the thread.\<close>

definition bump_batch_size :: "hz12_config \<Rightarrow> u8 \<Rightarrow> H12ThreadCache \<Rightarrow> u32" where
  "bump_batch_size cfg class_id tc =
    (let cs = tc_current tc (unat class_id); slot_size = hz12_class_slot_size cfg class_id;
         remaining = cs_slot_count cs - cs_bump_index cs;
         cached = of_nat (length (tc_items tc (unat class_id)));
         cache_room = (if cached < c12_cache_cap cfg then c12_cache_cap cfg - cached else 0);
         batch = c12_span_bump_batch_count cfg;
         batch = (if batch > remaining then remaining else batch);
         batch = (if batch > cache_room + 1 then cache_room + 1 else batch);
         available = (if tc_cached_bytes tc < c12_max_cached_bytes cfg
                      then c12_max_cached_bytes cfg - tc_cached_bytes tc else 0);
         byte_room = (if slot_size \<noteq> 0 then ucast (available div slot_size) else 0) in
     if c12_cache_byte_accounting cfg \<and> batch > byte_room + 1 then byte_room + 1 else batch)"

definition refill_from_current :: "hz12_config \<Rightarrow> bool \<Rightarrow> u8 \<Rightarrow> H12ThreadCache \<Rightarrow> 'a h12_sys_state_scheme \<Rightarrow>
    addr \<times> H12ThreadCache \<times> 'a h12_sys_state_scheme" where
  "refill_from_current cfg resolving class_id tc st =
    (let cs = tc_current tc (unat class_id); slot_size = hz12_class_slot_size cfg class_id;
         batch = bump_batch_size cfg class_id tc in
     if c12_span_bump_batch cfg \<and> batch > 1 then
       let first = cs_base cs + ucast (cs_bump_index cs) * slot_size;
           cs1 = cs\<lparr>cs_bump_index := cs_bump_index cs + batch\<rparr>;
           rest = map (\<lambda>i. cs_base cs + ucast (cs_bump_index cs1 - batch + of_nat i) * slot_size) [1..<unat batch] in
       (case push_all cfg resolving class_id rest (tc\<lparr>tc_current := (tc_current tc)(unat class_id := cs1)\<rparr>) st of
         (tc1, st1) \<Rightarrow> (first, tc1, st1))
     else case bump_one cfg class_id tc of (p, tc1) \<Rightarrow> (p, tc1, st))"

text \<open>The third stage: a fresh span, or the system where the arena is full.\<close>

definition refill_from_arena :: "hz12_config \<Rightarrow> bool \<Rightarrow> u8 \<Rightarrow> H12ThreadCache \<Rightarrow> 'a h12_sys_state_scheme \<Rightarrow>
    addr \<times> H12ThreadCache \<times> 'a h12_sys_state_scheme" where
  "refill_from_arena cfg resolving class_id tc st =
    (let slot_size = hz12_class_slot_size cfg class_id in
     case hz12_span_carve_for_class class_id st of (base, st1) \<Rightarrow>
       if base = 0 then (case hz12_sys_malloc resolving slot_size st1 of (p, st2) \<Rightarrow> (p, tc, st2))
       else case bump_one cfg class_id (tc\<lparr>tc_current := (tc_current tc)(unat class_id :=
              \<lparr>cs_base = base, cs_bump_index = 0, cs_slot_count = ucast (HZ12_SPAN_BYTES div slot_size)\<rparr>)\<rparr>) of
         (p, tc1) \<Rightarrow> (p, tc1, st1))"

definition hz12_thread_cache_refill :: "hz12_config \<Rightarrow> bool \<Rightarrow> u8 \<Rightarrow> H12ThreadCache \<Rightarrow> 'a h12_sys_state_scheme \<Rightarrow>
    addr \<times> H12ThreadCache \<times> 'a h12_sys_state_scheme" where
  "hz12_thread_cache_refill cfg resolving class_id tc st =
    (if \<not> c12_classify_span cfg then
       (case hz12_sys_malloc resolving (hz12_class_slot_size cfg class_id) st of (p, st1) \<Rightarrow> (p, tc, st1))
     else
       let skip = returned_refill_cold_skip tc (unat class_id) in
       if c12_cold_skip cfg \<and> class_id < HZ12_CLASS_COUNT cfg \<and> skip > 0 \<and> current_has (unat class_id) tc then
         (case bump_one cfg class_id (tc\<lparr>returned_refill_cold_skip :=
              (returned_refill_cold_skip tc)(unat class_id := skip - 1)\<rparr>) of (p, tc1) \<Rightarrow> (p, tc1, st))
       else case refill_from_sink cfg resolving class_id tc st of
         (Some p, tc1, st1) \<Rightarrow> (p, tc1, st1)
       | (None, tc1, st1) \<Rightarrow>
           if current_has (unat class_id) tc1 then refill_from_current cfg resolving class_id tc1 st1
           else refill_from_arena cfg resolving class_id tc1 st1)"

end
