(* ===== verification/Hz12_Public_Entry.thy ===== *)
theory Hz12_Public_Entry
  imports Hz12_Thread_Cache
begin

text \<open>
  \<open>src/hakozuna-hz12/src/hz12_public_entry.c\<close>: malloc, free, realloc, calloc and the rest of the API, on
  thread \<open>t\<close>, in the span lane and in the token lane, with the hot counters compiled out.
\<close>

abbreviation resolving_of :: "nat \<Rightarrow> 'a h12_cache_state_scheme \<Rightarrow> bool" where
  "resolving_of t st \<equiv> hz12_resolving (h12_thread st t)"

definition hz12_malloc_fast_with_tc :: "hz12_config \<Rightarrow> nat \<Rightarrow> H12ThreadCache \<Rightarrow> u64 \<Rightarrow>
    'a h12_cache_state_scheme \<Rightarrow> addr \<times> 'a h12_cache_state_scheme" where
  "hz12_malloc_fast_with_tc cfg t tc sz st =
    (case hz12_size_class cfg sz st of (class_id, st1) \<Rightarrow>
     let r = resolving_of t st1;
         note_token = (\<lambda>p c tc. if c12_classify_span cfg then tc
                               else tc\<lparr>tc_tokens := hz12_token_set p c (tc_tokens tc)\<rparr>) in
     if class_id = HZ12_LARGE_CLASS then
       (case hz12_sys_malloc r sz st1 of (p, st2) \<Rightarrow>
         (p, if p \<noteq> 0 then store_tls t (note_token p HZ12_LARGE_CLASS tc) st2 else st2))
     else case hz12_thread_cache_pop cfg class_id tc of (p, tc1) \<Rightarrow>
       if p \<noteq> 0 then (p, store_tls t tc1 st1)
       else case hz12_thread_cache_refill cfg r class_id tc1 st1 of (p, tc2, st2) \<Rightarrow>
         (p, store_tls t (if p \<noteq> 0 then note_token p class_id tc2 else tc2) st2))"

definition hz12_free_foreign_or_fail_closed :: "hz12_config \<Rightarrow> bool \<Rightarrow> addr \<Rightarrow>
    'a h12_sys_state_scheme \<Rightarrow> 'a h12_sys_state_scheme" where
  "hz12_free_foreign_or_fail_closed cfg resolving ptr st =
    (if c12_classify_span cfg \<and> hz12_arena_contains ptr st then st else hz12_sys_free resolving ptr st)"

definition hz12_free_fast_with_tc :: "hz12_config \<Rightarrow> nat \<Rightarrow> H12ThreadCache \<Rightarrow> addr \<Rightarrow>
    'a h12_cache_state_scheme \<Rightarrow> 'a h12_cache_state_scheme" where
  "hz12_free_fast_with_tc cfg t tc ptr st =
    (let r = resolving_of t st;
         push = (\<lambda>c. case hz12_thread_cache_push cfg r c ptr tc st of (tc1, st1) \<Rightarrow> store_tls t tc1 st1) in
     if c12_classify_span cfg then
       (case hz12_span_classify ptr st of
          Some class_id \<Rightarrow> push class_id
        | None \<Rightarrow> hz12_free_foreign_or_fail_closed cfg r ptr st)
     else
       (case hz12_token_lookup (tc_tokens tc) ptr of
          Some class_id \<Rightarrow> if class_id = HZ12_LARGE_CLASS then hz12_sys_free r ptr st else push class_id
        | None \<Rightarrow> hz12_sys_free r ptr st))"

text \<open>With \<open>HZ12_TLS_FASTPATH\<close>, a thread that has its cache does not look at \<open>hz12_resolving\<close>.\<close>

definition skips_cache :: "hz12_config \<Rightarrow> nat \<Rightarrow> 'a h12_cache_state_scheme \<Rightarrow> bool" where
  "skips_cache cfg t st \<longleftrightarrow> resolving_of t st \<and>
     \<not> (c12_tls_fastpath cfg \<and> hz12_tls (h12_thread st t) \<noteq> None)"

definition hz12_malloc :: "hz12_config \<Rightarrow> nat \<Rightarrow> u64 \<Rightarrow> 'a h12_cache_state_scheme \<Rightarrow>
    addr \<times> 'a h12_cache_state_scheme" where
  "hz12_malloc cfg t sz st =
    (if skips_cache cfg t st then hz12_sys_malloc (resolving_of t st) sz st
     else case hz12_thread_cache_get cfg t st of
       (None, st1) \<Rightarrow> hz12_sys_malloc (resolving_of t st) sz st1
     | (Some tc, st1) \<Rightarrow> hz12_malloc_fast_with_tc cfg t tc sz st1)"

definition hz12_free :: "hz12_config \<Rightarrow> nat \<Rightarrow> addr \<Rightarrow> 'a h12_cache_state_scheme \<Rightarrow> 'a h12_cache_state_scheme" where
  "hz12_free cfg t ptr st =
    (if ptr = 0 then st
     else if skips_cache cfg t st then hz12_free_foreign_or_fail_closed cfg (resolving_of t st) ptr st
     else case hz12_thread_cache_get cfg t st of
       (Some tc, st1) \<Rightarrow> hz12_free_fast_with_tc cfg t tc ptr st1
     | (None, st1) \<Rightarrow> hz12_free_foreign_or_fail_closed cfg (resolving_of t st) ptr st1)"

definition hz12_realloc :: "hz12_config \<Rightarrow> nat \<Rightarrow> addr \<Rightarrow> u64 \<Rightarrow> 'a h12_cache_state_scheme \<Rightarrow>
    addr \<times> 'a h12_cache_state_scheme" where
  "hz12_realloc cfg t ptr sz st =
    (if ptr = 0 then hz12_malloc cfg t sz st
     else if sz = 0 then (0, hz12_free cfg t ptr st)
     else if resolving_of t st then hz12_sys_realloc (resolving_of t st) ptr sz st
     else if c12_classify_span cfg then
       if hz12_arena_contains ptr st then
         (case hz12_malloc cfg t sz st of (np, st1) \<Rightarrow>
           if np = 0 then (np, st1)
           else
             let old_slot = (case hz12_span_classify ptr st1 of Some oc \<Rightarrow> hz12_class_slot_size cfg oc | None \<Rightarrow> 0);
                 copy = (if old_slot < sz then old_slot else sz) in
             (np, hz12_free cfg t ptr (st1\<lparr>h12_mem := copy_cells np ptr copy (h12_mem st1)\<rparr>)))
       else hz12_sys_realloc (resolving_of t st) ptr sz st
     else case hz12_thread_cache_get cfg t st of (tco, st1) \<Rightarrow>
       let had_token = (case tco of None \<Rightarrow> False | Some tc \<Rightarrow> hz12_token_lookup (tc_tokens tc) ptr \<noteq> None) in
       (case hz12_sys_realloc (resolving_of t st) ptr sz st1 of (np, st2) \<Rightarrow>
         if np = 0 then (0, st2)
         else case tco of
           None \<Rightarrow> (np, st2)
         | Some tc \<Rightarrow>
             let tokens = (if had_token then hz12_token_invalidate ptr (tc_tokens tc) else tc_tokens tc) in
             (case hz12_size_class cfg sz st2 of (c, st3) \<Rightarrow>
               (np, store_tls t (tc\<lparr>tc_tokens := hz12_token_set np c tokens\<rparr>) st3))))"

definition hz12_calloc :: "nat \<Rightarrow> u64 \<Rightarrow> u64 \<Rightarrow> 'a h12_cache_state_scheme \<Rightarrow> addr \<times> 'a h12_cache_state_scheme" where
  "hz12_calloc t cnt sz st = hz12_sys_calloc (resolving_of t st) cnt sz st"

definition hz12_malloc_usable_size :: "(addr \<Rightarrow> u64) \<Rightarrow> hz12_config \<Rightarrow> nat \<Rightarrow> addr \<Rightarrow> 'a h12_cache_state_scheme \<Rightarrow>
    u64 \<times> 'a h12_cache_state_scheme" where
  "hz12_malloc_usable_size usable cfg t ptr st =
    (if ptr = 0 then (0, st)
     else if c12_classify_span cfg then
       (case hz12_span_classify ptr st of
          Some class_id \<Rightarrow> (hz12_class_slot_size cfg class_id, st)
        | None \<Rightarrow> if hz12_arena_contains ptr st then (0, st)
                  else hz12_sys_usable_size usable (resolving_of t st) ptr st)
     else hz12_sys_usable_size usable (resolving_of t st) ptr st)"

definition hz12_posix_memalign :: "u32 \<Rightarrow> nat \<Rightarrow> u64 \<Rightarrow> u64 \<Rightarrow> 'a h12_cache_state_scheme \<Rightarrow>
    (u32 \<times> addr option) \<times> 'a h12_cache_state_scheme" where
  "hz12_posix_memalign err t alignment sz st = hz12_sys_posix_memalign err (resolving_of t st) alignment sz st"

definition hz12_aligned_alloc :: "nat \<Rightarrow> u64 \<Rightarrow> u64 \<Rightarrow> 'a h12_cache_state_scheme \<Rightarrow> addr \<times> 'a h12_cache_state_scheme" where
  "hz12_aligned_alloc t alignment sz st = hz12_sys_aligned_alloc (resolving_of t st) alignment sz st"

definition hz12_memalign :: "nat \<Rightarrow> u64 \<Rightarrow> u64 \<Rightarrow> 'a h12_cache_state_scheme \<Rightarrow> addr \<times> 'a h12_cache_state_scheme" where
  "hz12_memalign t alignment sz st = hz12_sys_memalign (resolving_of t st) alignment sz st"

end
