(* ===== verification/Hz12_Cache_Correct.thy ===== *)
theory Hz12_Cache_Correct
  imports Hz12_Public_Entry "HOL-Library.Multiset"
begin

text \<open>
  Correctness of the span lane of \<open>Hz12_Thread_Cache\<close> and \<open>Hz12_Public_Entry\<close>. What one thread does to
  one class moves objects between three lists: its cache, the unused part of its current span, and the
  sink of the class, up to a freshly carved span and the object handed out. From this follows that at
  every moment each slot is in at most one place of the allocator, or with the user.
\<close>

section \<open>The slots of a class\<close>

definition slot_ok :: "hz12_config \<Rightarrow> 'a h12_span_state_scheme \<Rightarrow> nat \<Rightarrow> addr \<Rightarrow> bool" where
  "slot_ok cfg st c p \<longleftrightarrow> (\<exists>i<65536. hz12_span_class st i = of_nat c + 1 \<and> p \<in> span_slots (slot_bytes cfg c) (span_at st i))"

definition span_list :: "hz12_config \<Rightarrow> nat \<Rightarrow> addr \<Rightarrow> addr list" where
  "span_list cfg c b = map (\<lambda>i. b + of_nat (i * slot_bytes cfg c)) [0..<65536 div slot_bytes cfg c]"

definition bump_list :: "hz12_config \<Rightarrow> nat \<Rightarrow> H12SpanCurrent \<Rightarrow> addr list" where
  "bump_list cfg c cs = (if cs_base cs = 0 then [] else
     map (\<lambda>i. cs_base cs + of_nat (i * slot_bytes cfg c)) [unat (cs_bump_index cs)..<unat (cs_slot_count cs)])"

definition cur_ok :: "hz12_config \<Rightarrow> 'a h12_span_state_scheme \<Rightarrow> nat \<Rightarrow> H12SpanCurrent \<Rightarrow> bool" where
  "cur_ok cfg st c cs \<longleftrightarrow> cs_base cs = 0 \<or> unat (cs_slot_count cs) = 65536 div slot_bytes cfg c \<and>
     (\<exists>i<65536. hz12_span_class st i = of_nat c + 1 \<and> cs_base cs = span_at st i)"

lemma class_nat: "c < class_total cfg \<Longrightarrow> (of_nat c :: u8) < HZ12_CLASS_COUNT cfg \<and> unat (of_nat c :: u8) = c"
proof -
  assume c: "c < class_total cfg"
  have "c < 70" using c class_count_cases(2) [of cfg] by (simp add: class_total_def)
  then have "unat (of_nat c :: u8) = c" by (intro trans [OF unat_of_nat] mod_less) simp
  then show ?thesis using c by (simp add: class_total_def word_less_nat_alt)
qed

lemma small_offset: "n < 65536 \<Longrightarrow> unat (of_nat n :: u64) = n"
  by (intro trans [OF unat_of_nat] mod_less) simp

lemma slot_offset_small: "16 \<le> (s :: nat) \<Longrightarrow> i < 65536 div s \<Longrightarrow> i * s + s \<le> 65536"
proof -
  assume "16 \<le> s" and "i < 65536 div s"
  then have "(i + 1) * s \<le> 65536 div s * s" by (intro mult_le_mono1) simp
  also have "\<dots> \<le> 65536" by (rule div_times_less_eq_dividend)
  finally show ?thesis by simp
qed

lemma span_slots_alt:
  assumes "16 \<le> s"
  shows "span_slots s b = (\<lambda>i. b + of_nat (i * s)) ` {..<65536 div s}"
proof (intro equalityI subsetI)
  fix p assume "p \<in> span_slots s b"
  then obtain i where i: "i < 65536 div s" "unat (p - b) = i * s" by (auto simp: span_slots_def)
  then have "p - b = of_nat (i * s)" by (metis of_nat_unat ucast_id)
  then have "p = b + of_nat (i * s)" by (simp add: algebra_simps)
  then show "p \<in> (\<lambda>i. b + of_nat (i * s)) ` {..<65536 div s}" using i(1) by blast
next
  fix p assume "p \<in> (\<lambda>i. b + of_nat (i * s)) ` {..<65536 div s}"
  then obtain i where i: "i < 65536 div s" "p = b + of_nat (i * s)" by auto
  have "i * s < 65536" using slot_offset_small [OF assms i(1)] assms by simp
  then show "p \<in> span_slots s b" using i by (auto simp: span_slots_def small_offset simp del: of_nat_mult)
qed

lemma span_list_set: "c < class_total cfg \<Longrightarrow> set (span_list cfg c b) = span_slots (slot_bytes cfg c) b"
  using span_slots_alt [OF slot_table(2)] by (simp add: span_list_def atLeast0LessThan lessThan_def)

lemma span_list_distinct:
  assumes "c < class_total cfg"
  shows "distinct (map (\<lambda>i. b + of_nat (i * slot_bytes cfg c) :: addr) [m..<65536 div slot_bytes cfg c])"
proof -
  let ?s = "slot_bytes cfg c"
  have s: "16 \<le> ?s" by (rule slot_table(2) [OF assms])
  have "inj_on (\<lambda>i. b + of_nat (i * ?s) :: addr) {m..<65536 div ?s}"
  proof (rule inj_onI)
    fix i j assume ij: "i \<in> {m..<65536 div ?s}" "j \<in> {m..<65536 div ?s}" "b + of_nat (i * ?s) = (b + of_nat (j * ?s) :: addr)"
    have "i * ?s < 65536" "j * ?s < 65536"
      using slot_offset_small [OF s, of i] slot_offset_small [OF s, of j] ij(1,2) s by auto
    moreover have "unat (of_nat (i * ?s) :: u64) = unat (of_nat (j * ?s) :: u64)" using ij(3) by simp
    ultimately have "i * ?s = j * ?s" by (simp only: small_offset)
    then show "i = j" using s by simp
  qed
  then show ?thesis by (simp add: distinct_map)
qed

lemma slot_ok_facts:
  assumes wf: "arena_wf st" and c: "c < class_total cfg" and p: "slot_ok cfg st c p"
  shows "hz12_span_classify p st = Some (of_nat c)" "hz12_arena_contains p st" "p \<noteq> 0"
proof -
  obtain i where i: "i < 65536" "hz12_span_class st i = of_nat c + 1" "p \<in> span_slots (slot_bytes cfg c) (span_at st i)"
    using p by (auto simp: slot_ok_def)
  obtain k where k: "k < 65536 div slot_bytes cfg c" "unat (p - span_at st i) = k * slot_bytes cfg c"
    using i(3) by (auto simp: span_slots_def)
  have "unat (p - span_at st i) < 65536"
    using slot_offset_small [OF slot_table(2) [OF c] k(1)] slot_table(2) [OF c] k(2) by simp
  moreover have "unat (span_at st i) + 65536 < 18446744073709551616"
  proof -
    have b: "unat (hz12_arena_base st) + 4295032832 < 18446744073709551616" using wf by (simp add: arena_wf_def)
    have "unat (span_at st i) = unat (hz12_arena_base st) + i * 65536"
      unfolding span_at_def by (rule arena_nat(1) [OF b]) (use i(1) in simp)
    then show ?thesis using b i(1) by simp
  qed
  ultimately have in_s: "in_span (span_at st i) p" using in_span_iff by blast
  have A: "hz12_arena_base st \<le> p \<and> p - hz12_arena_base st < HZ12_ARENA_BYTES \<and>
      unat (drop_bit 16 (p - hz12_arena_base st)) = i"
    using in_span_at [OF wf i(1)] in_s by blast
  have nz: "hz12_arena_base st \<noteq> 0" using wf by (simp add: arena_wf_def)
  have c0: "(of_nat c :: u8) + 1 \<noteq> 0" using class_suc_nonzero class_nat [OF c] by blast
  show "hz12_span_classify p st = Some (of_nat c)"
    using classify_at [OF wf, of p] A i in_s c0 by (auto simp: Let_def)
  show "hz12_arena_contains p st" using A nz by (simp add: hz12_arena_contains_def)
  show "p \<noteq> 0" using A nz by (auto simp: word_le_nat_alt unat_eq_zero)
qed

section \<open>Frames\<close>

text \<open>What a thread may change while it works on class \<open>c\<close>: the head of the sink of \<open>c\<close> and the words of
  the objects \<open>A\<close>.\<close>

definition op_frame :: "nat \<Rightarrow> addr set \<Rightarrow> 'a h12_span_state_scheme \<Rightarrow> 'a h12_span_state_scheme \<Rightarrow> bool" where
  "op_frame c A st st' \<longleftrightarrow> hz12_arena_base st' = hz12_arena_base st \<and> hz12_arena_end st' = hz12_arena_end st \<and>
     hz12_span_cursor st' = hz12_span_cursor st \<and> hz12_span_class st' = hz12_span_class st \<and>
     hz12_span_init_once st' = hz12_span_init_once st \<and> h12_span_state.more st' = h12_span_state.more st \<and>
     hz12_size_table st' = hz12_size_table st \<and> hz12_size_table_ready st' = hz12_size_table_ready st \<and>
     (\<forall>d. d \<noteq> c \<longrightarrow> hz12_returned st' d = hz12_returned st d) \<and> (\<forall>a. a \<notin> A \<longrightarrow> h12_mem st' a = h12_mem st a)"

lemma op_frame_refl [simp]: "op_frame c A st st"
  by (simp add: op_frame_def)

lemma op_frame_trans: "op_frame c A st st' \<Longrightarrow> op_frame c B st' st'' \<Longrightarrow> A \<union> B \<subseteq> C \<Longrightarrow> op_frame c C st st''"
proof -
  assume f: "op_frame c A st st'" "op_frame c B st' st''" "A \<union> B \<subseteq> C"
  have "h12_mem st'' a = h12_mem st a" if "a \<notin> C" for a
  proof -
    have "a \<notin> A" "a \<notin> B" using that f(3) by auto
    then show ?thesis using f(1,2) by (simp add: op_frame_def)
  qed
  then show ?thesis using f(1,2) by (simp add: op_frame_def)
qed

lemma op_frame_mono: "op_frame c A st st' \<Longrightarrow> A \<subseteq> C \<Longrightarrow> op_frame c C st st'"
  by (auto simp: op_frame_def)

lemma op_frame_wf: "op_frame c A st st' \<Longrightarrow> arena_wf st' = arena_wf st"
  by (rule arena_wf_cong) (simp_all add: op_frame_def)

lemma op_frame_slot: "op_frame c A st st' \<Longrightarrow> slot_ok cfg st' d p = slot_ok cfg st d p"
  by (simp add: op_frame_def slot_ok_def span_at_def)

lemma op_frame_cur: "op_frame c A st st' \<Longrightarrow> cur_ok cfg st' d cs = cur_ok cfg st d cs"
  by (simp add: op_frame_def cur_ok_def span_at_def)

lemma op_frame_contains: "op_frame c A st st' \<Longrightarrow> hz12_arena_contains p st' = hz12_arena_contains p st"
  by (simp add: op_frame_def hz12_arena_contains_def)

lemma op_frame_classify: "op_frame c A st st' \<Longrightarrow> hz12_span_classify p st' = hz12_span_classify p st"
  by (simp add: op_frame_def hz12_span_classify_def Let_def)

lemma op_frame_other_sink:
  "op_frame c A st st' \<Longrightarrow> sink_list st d xs \<Longrightarrow> unat d \<noteq> c \<Longrightarrow> set xs \<inter> A = {} \<Longrightarrow> sink_list st' d xs"
proof -
  assume f: "op_frame c A st st'" "sink_list st d xs" "unat d \<noteq> c" "set xs \<inter> A = {}"
  have "chain (h12_mem st') (hz12_returned st (unat d)) xs \<longleftrightarrow> chain (h12_mem st) (hz12_returned st (unat d)) xs"
    by (rule chain_cong) (use f in \<open>auto simp: op_frame_def\<close>)
  then show ?thesis using f by (simp add: sink_list_def op_frame_def)
qed

section \<open>Flush and push\<close>

lemma returned_push_sink:
  assumes "c < class_total cfg" "sink_list st (of_nat c) xs" "p \<noteq> 0" "p \<notin> set xs"
  shows "sink_list (hz12_returned_push cfg (of_nat c) p st) (of_nat c) (p # xs)"
    "op_frame c {p} st (hz12_returned_push cfg (of_nat c) p st)"
  using assms class_nat [OF assms(1)] by (auto simp: hz12_returned_push_def sink_list_def op_frame_def)

lemma flush_items_sink:
  assumes "c12_classify_span cfg" "c < class_total cfg" "sink_list st (of_nat c) xs" "distinct items"
    "set items \<inter> set xs = {}" "\<And>p. p \<in> set items \<Longrightarrow> p \<noteq> 0 \<and> hz12_arena_contains p st"
  shows "sink_list (flush_items cfg r (of_nat c) items st) (of_nat c) (rev items @ xs) \<and>
    op_frame c (set items) st (flush_items cfg r (of_nat c) items st)"
  using assms(3-6)
proof (induction items arbitrary: st xs)
  case (Cons p ps)
  let ?st = "hz12_returned_push cfg (of_nat c) p st"
  have p: "p \<noteq> 0" "hz12_arena_contains p st" "p \<notin> set xs" using Cons.prems by auto
  note P = returned_push_sink [OF assms(2) Cons.prems(1) p(1,3)]
  have "sink_list (flush_items cfg r (of_nat c) ps ?st) (of_nat c) (rev ps @ (p # xs)) \<and>
    op_frame c (set ps) ?st (flush_items cfg r (of_nat c) ps ?st)"
    by (rule Cons.IH [OF P(1)]) (use Cons.prems op_frame_contains [OF P(2)] in auto)
  then show ?case using p(2) assms(1) op_frame_trans [OF P(2), of "set ps" _ "set (p # ps)"] by simp
qed simp

lemma gather_all:
  "(\<And>p. p \<in> set items \<Longrightarrow> hz12_arena_contains p st) \<Longrightarrow> gather_returned r items acc st = (acc @ items, st)"
  by (induction items arbitrary: acc) simp_all

lemma push_range_frame:
  assumes "c < class_total cfg" "sink_list st (of_nat c) xs" "distinct items" "0 \<notin> set items"
    "set items \<inter> set xs = {}" "items \<noteq> []"
  shows "sink_list (hz12_returned_push_range cfg (of_nat c) items st) (of_nat c) (rev items @ xs) \<and>
    op_frame c (set items) st (hz12_returned_push_range cfg (of_nat c) items st)"
proof -
  let ?c = "of_nat c :: u8"
  have f: "filter (\<lambda>p. p \<noteq> 0) items = items" using assms(4) by (auto intro!: filter_True)
  have d: "distinct (filter (\<lambda>p. p \<noteq> 0) items)" using f assms(3) by simp
  have cn: "(HZ12_CLASS_COUNT cfg \<le> ?c) = False" "unat ?c = c"
    using class_nat [OF assms(1)] class_guard [of ?c cfg] by blast+
  have fr: "hz12_arena_base (snd (hz12_returned_push_chain k i s)) = hz12_arena_base s"
    "hz12_arena_end (snd (hz12_returned_push_chain k i s)) = hz12_arena_end s"
    "hz12_span_cursor (snd (hz12_returned_push_chain k i s)) = hz12_span_cursor s"
    "hz12_span_class (snd (hz12_returned_push_chain k i s)) = hz12_span_class s"
    "hz12_span_init_once (snd (hz12_returned_push_chain k i s)) = hz12_span_init_once s"
    "h12_span_state.more (snd (hz12_returned_push_chain k i s)) = h12_span_state.more s"
    "hz12_size_table (snd (hz12_returned_push_chain k i s)) = hz12_size_table s"
    "hz12_size_table_ready (snd (hz12_returned_push_chain k i s)) = hz12_size_table_ready s" for k i and s :: "'a h12_span_state_scheme"
    by (simp_all add: hz12_returned_push_chain_def case_prod_beta)
  show ?thesis
  proof (cases "c12_returned_push_range_chunk cfg = 0")
    case True
    have "hz12_returned_push_range cfg ?c items st = snd (hz12_returned_push_chain ?c items st)"
      using True cn assms(6) by (simp add: hz12_returned_push_range_def)
    then show ?thesis
      using push_chain_sink [OF assms(2) d assms(5) prod.collapse [symmetric]] f fr [of ?c items st] cn(2)
      by (simp add: op_frame_def)
  next
    case False
    let ?k = "unat (c12_returned_push_range_chunk cfg)"
    have k: "0 < ?k" using False by (simp add: unat_gt_0)
    have eq: "hz12_returned_push_range cfg ?c items st = push_range_chunks ?k ?c items st"
      using False cn assms(6) by (simp add: hz12_returned_push_range_def)
    have "hz12_arena_base (push_range_chunks n k i s) = hz12_arena_base s \<and>
      hz12_arena_end (push_range_chunks n k i s) = hz12_arena_end s \<and>
      hz12_span_cursor (push_range_chunks n k i s) = hz12_span_cursor s \<and>
      hz12_span_class (push_range_chunks n k i s) = hz12_span_class s \<and>
      hz12_span_init_once (push_range_chunks n k i s) = hz12_span_init_once s \<and>
      h12_span_state.more (push_range_chunks n k i s) = h12_span_state.more s \<and>
      hz12_size_table (push_range_chunks n k i s) = hz12_size_table s \<and>
      hz12_size_table_ready (push_range_chunks n k i s) = hz12_size_table_ready s" for n k i and s :: "'a h12_span_state_scheme"
      by (induction n k i s rule: push_range_chunks.induct) (subst (1 2 3 4 5 6 7 8) push_range_chunks.simps, simp add: fr)
    then show ?thesis unfolding eq
      using push_range_chunks_sink [OF assms(2) d assms(5) k] f cn(2) by (simp add: op_frame_def)
  qed
qed

lemma flush_class_sink:
  assumes "c12_classify_span cfg" "c < class_total cfg" "sink_list st (of_nat c) xs" "distinct (tc_items tc c)"
    "set (tc_items tc c) \<inter> set xs = {}" "\<And>p. p \<in> set (tc_items tc c) \<Longrightarrow> p \<noteq> 0 \<and> hz12_arena_contains p st"
    "hz12_thread_cache_flush_class cfg r (of_nat c) tc st = (tc', st')"
  shows "sink_list st' (of_nat c) (rev (tc_items tc c) @ xs)" "op_frame c (set (tc_items tc c)) st st'"
    "tc_items tc' = (tc_items tc)(c := [])" "tc_current tc' = tc_current tc"
proof -
  have cn: "unat (of_nat c :: u8) = c" using class_nat [OF assms(2)] by simp
  have "sink_list st' (of_nat c) (rev (tc_items tc c) @ xs) \<and> op_frame c (set (tc_items tc c)) st st'"
  proof (cases "c12_returned_push_range cfg")
    case True
    have g: "gather_returned r (tc_items tc c) [] st = (tc_items tc c, st)"
      using gather_all [of "tc_items tc c" st r "[]"] assms(6) by simp
    show ?thesis
    proof (cases "tc_items tc c = []")
      case True
      then show ?thesis using assms(1,3,7) \<open>c12_returned_push_range cfg\<close> g cn
        by (auto simp: hz12_thread_cache_flush_class_def hz12_thread_cache_flush_span_items_def Let_def)
    next
      case False
      have "0 \<notin> set (tc_items tc c)" using assms(6) by auto
      from push_range_frame [OF assms(2,3,4) this assms(5) False] show ?thesis
        using assms(1,7) \<open>c12_returned_push_range cfg\<close> g cn False
        by (auto simp: hz12_thread_cache_flush_class_def hz12_thread_cache_flush_span_items_def Let_def)
    qed
  next
    case False
    then show ?thesis using flush_items_sink [OF assms(1-6)] assms(7) cn
      by (auto simp: hz12_thread_cache_flush_class_def Let_def)
  qed
  then show "sink_list st' (of_nat c) (rev (tc_items tc c) @ xs)" "op_frame c (set (tc_items tc c)) st st'" by blast+
  show "tc_items tc' = (tc_items tc)(c := [])" "tc_current tc' = tc_current tc"
    using assms(7) cn by (auto simp: hz12_thread_cache_flush_class_def Let_def)
qed

section \<open>One thread and one class\<close>

definition local_list :: "hz12_config \<Rightarrow> nat \<Rightarrow> H12ThreadCache \<Rightarrow> addr list \<Rightarrow> addr list" where
  "local_list cfg c tc xs = tc_items tc c @ xs @ bump_list cfg c (tc_current tc c)"

definition local_ok :: "hz12_config \<Rightarrow> nat \<Rightarrow> H12ThreadCache \<Rightarrow> addr list \<Rightarrow> 'a h12_span_state_scheme \<Rightarrow> bool" where
  "local_ok cfg c tc xs st \<longleftrightarrow> arena_wf st \<and> sink_list st (of_nat c) xs \<and> distinct (local_list cfg c tc xs) \<and>
     (\<forall>p \<in> set (local_list cfg c tc xs). slot_ok cfg st c p) \<and> cur_ok cfg st c (tc_current tc c)"

text \<open>A move: the thread gives away the objects \<open>out\<close> and takes the objects \<open>inc\<close>; only the words of
  objects it owned before or took change.\<close>

definition moves :: "hz12_config \<Rightarrow> nat \<Rightarrow> H12ThreadCache \<Rightarrow> addr list \<Rightarrow> 'a h12_span_state_scheme \<Rightarrow>
    addr list \<Rightarrow> addr list \<Rightarrow> H12ThreadCache \<Rightarrow> addr list \<Rightarrow> 'a h12_span_state_scheme \<Rightarrow> bool" where
  "moves cfg c tc xs st inc out tc' xs' st' \<longleftrightarrow> local_ok cfg c tc' xs' st' \<and>
     mset (local_list cfg c tc' xs') + mset out = mset (local_list cfg c tc xs) + mset inc \<and>
     op_frame c (set (local_list cfg c tc xs) \<union> set inc) st st' \<and>
     (\<forall>d. d \<noteq> c \<longrightarrow> tc_items tc' d = tc_items tc d \<and> tc_current tc' d = tc_current tc d)"

lemma mset_set_eq: "mset xs + mset ys = mset us + mset vs \<Longrightarrow> set xs \<union> set ys = set us \<union> set vs"
  by (metis set_mset_mset set_mset_union)

lemma moves_refl: "local_ok cfg c tc xs st \<Longrightarrow> moves cfg c tc xs st [] [] tc xs st"
  by (simp add: moves_def)

lemma moves_trans:
  assumes "moves cfg c tc xs st inc out tc' xs' st'" "moves cfg c tc' xs' st' inc' out' tc'' xs'' st''"
  shows "moves cfg c tc xs st (inc @ inc') (out @ out') tc'' xs'' st''"
proof -
  have "set (local_list cfg c tc' xs') \<subseteq> set (local_list cfg c tc xs) \<union> set inc"
    using assms(1) mset_set_eq unfolding moves_def by blast
  then have sub: "(set (local_list cfg c tc xs) \<union> set inc) \<union> (set (local_list cfg c tc' xs') \<union> set inc')
      \<subseteq> set (local_list cfg c tc xs) \<union> set (inc @ inc')" by auto
  have "op_frame c (set (local_list cfg c tc xs) \<union> set (inc @ inc')) st st''"
    by (rule op_frame_trans [OF _ _ sub, of c st st' st'']) (use assms in \<open>simp_all add: moves_def\<close>)
  moreover have "mset (local_list cfg c tc'' xs'') + mset (out @ out') = mset (local_list cfg c tc xs) + mset (inc @ inc')"
    using assms unfolding moves_def by (metis (no_types, lifting) mset_append union_assoc union_commute)
  ultimately show ?thesis using assms by (simp add: moves_def)
qed

lemma moves_slots: "moves cfg c tc xs st inc out tc' xs' st' \<Longrightarrow> slot_ok cfg st' d p = slot_ok cfg st d p"
  by (rule op_frame_slot) (auto simp: moves_def)

lemma moves_wf: "moves cfg c tc xs st inc out tc' xs' st' \<Longrightarrow> local_ok cfg c tc' xs' st'"
  by (simp add: moves_def)

text \<open>What the thread gives away is no longer with it.\<close>

lemma moves_out:
  assumes "moves cfg c tc xs st inc out tc' xs' st'" "local_ok cfg c tc xs st" "distinct inc"
    "set inc \<inter> set (local_list cfg c tc xs) = {}"
  shows "distinct (local_list cfg c tc' xs' @ out)"
    "set (local_list cfg c tc' xs') \<union> set out = set (local_list cfg c tc xs) \<union> set inc"
proof -
  have m: "mset (local_list cfg c tc' xs' @ out) = mset (local_list cfg c tc xs @ inc)"
    using assms(1) by (simp add: moves_def)
  have "distinct (local_list cfg c tc xs @ inc)" using assms(2-4) by (auto simp: local_ok_def)
  then show "distinct (local_list cfg c tc' xs' @ out)" using m by (metis mset_eq_imp_distinct_iff)
  show "set (local_list cfg c tc' xs') \<union> set out = set (local_list cfg c tc xs) \<union> set inc"
    using mset_eq_setD [OF m] by simp
qed

lemma local_okI:
  assumes "local_ok cfg c tc xs st" "op_frame c A st st'" "sink_list st' (of_nat c) xs'"
    "mset (local_list cfg c tc' xs') + mset out = mset (local_list cfg c tc xs) + mset inc" "distinct inc"
    "set inc \<inter> set (local_list cfg c tc xs) = {}" "\<And>p. p \<in> set inc \<Longrightarrow> slot_ok cfg st c p"
    "cur_ok cfg st c (tc_current tc' c)"
  shows "local_ok cfg c tc' xs' st'"
proof -
  have m: "mset (local_list cfg c tc' xs' @ out) = mset (local_list cfg c tc xs @ inc)" using assms(4) by simp
  have "distinct (local_list cfg c tc xs @ inc)" using assms(1,5,6) by (auto simp: local_ok_def)
  then have "distinct (local_list cfg c tc' xs' @ out)" using m by (metis mset_eq_imp_distinct_iff)
  moreover have "set (local_list cfg c tc' xs') \<subseteq> set (local_list cfg c tc xs) \<union> set inc"
    using mset_eq_setD [OF m] by auto
  ultimately show ?thesis using assms(1,2,3,7,8)
    by (auto simp: local_ok_def op_frame_wf op_frame_slot op_frame_cur)
qed

lemma push_moves:
  assumes lane: "c12_classify_span cfg" and c: "c < class_total cfg" and ok: "local_ok cfg c tc xs st"
    and p: "slot_ok cfg st c p" "p \<notin> set (local_list cfg c tc xs)"
    and run: "hz12_thread_cache_push cfg r (of_nat c) p tc st = (tc', st')"
  shows "\<exists>xs'. moves cfg c tc xs st [p] [] tc' xs' st'"
proof -
  have cn: "unat (of_nat c :: u8) = c" "(of_nat c :: u8) < HZ12_CLASS_COUNT cfg" using class_nat [OF c] by simp_all
  show ?thesis
  proof (cases "length (tc_items tc c) < unat (c12_cache_cap cfg) \<and>
      (c12_cache_byte_accounting cfg \<longrightarrow> tc_cached_bytes tc + hz12_class_slot_size cfg (of_nat c) \<le> c12_max_cached_bytes cfg)")
    case True
    then have r: "tc_items tc' = (tc_items tc)(c := tc_items tc c @ [p])" "tc_current tc' = tc_current tc" "st' = st"
      using run cn(1) by (auto simp: hz12_thread_cache_push_def Let_def)
    have m: "mset (local_list cfg c tc' xs) + mset [] = mset (local_list cfg c tc xs) + mset [p]"
      by (simp add: local_list_def r)
    have "local_ok cfg c tc' xs st'"
      by (rule local_okI [OF ok op_frame_refl _ m, folded r(3)])
        (use ok p r in \<open>auto simp: local_ok_def\<close>)
    then show ?thesis using m r by (auto simp: moves_def)
  next
    case False
    obtain tc1 st1 where fl: "hz12_thread_cache_flush_class cfg r (of_nat c) tc st = (tc1, st1)" by force
    have over: "hz12_thread_cache_push_overflow_slow cfg r (of_nat c) p tc st = (tc', st')"
      using run False cn(1) by (auto simp: hz12_thread_cache_push_def Let_def)
    have wf: "arena_wf st" and d: "distinct (tc_items tc c)" "set (tc_items tc c) \<inter> set xs = {}"
      and sl: "\<And>q. q \<in> set (tc_items tc c) \<Longrightarrow> slot_ok cfg st c q"
      using ok by (auto simp: local_ok_def local_list_def)
    have ne: "\<And>q. q \<in> set (tc_items tc c) \<Longrightarrow> q \<noteq> 0 \<and> hz12_arena_contains q st"
      using slot_ok_facts(2,3) [OF wf c sl] by blast
    have sink: "sink_list st (of_nat c) xs" using ok by (simp add: local_ok_def)
    note F = flush_class_sink [OF lane c sink d ne fl]
    have r: "tc_items tc' = (tc_items tc)(c := [p])" "tc_current tc' = tc_current tc" "st' = st1"
      using over fl F(3,4) cn by (auto simp: hz12_thread_cache_push_overflow_slow_def Let_def split: if_splits)
    let ?xs = "rev (tc_items tc c) @ xs"
    have m: "mset (local_list cfg c tc' ?xs) + mset [] = mset (local_list cfg c tc xs) + mset [p]"
      by (simp add: local_list_def r)
    have "local_ok cfg c tc' ?xs st'"
      by (rule local_okI [OF ok _ _ m]) (use ok p r F(1,2) in \<open>auto simp: local_ok_def\<close>)
    moreover have "op_frame c (set (local_list cfg c tc xs) \<union> set [p]) st st'"
      unfolding r(3) by (rule op_frame_mono [OF F(2)]) (auto simp: local_list_def)
    ultimately show ?thesis using m r by (auto simp: moves_def)
  qed
qed

lemma push_all_moves:
  assumes lane: "c12_classify_span cfg" and c: "c < class_total cfg"
  shows "local_ok cfg c tc xs st \<Longrightarrow> distinct ps \<Longrightarrow> (\<And>p. p \<in> set ps \<Longrightarrow> slot_ok cfg st c p) \<Longrightarrow>
    set ps \<inter> set (local_list cfg c tc xs) = {} \<Longrightarrow> push_all cfg r (of_nat c) ps tc st = (tc', st') \<Longrightarrow>
    \<exists>xs'. moves cfg c tc xs st ps [] tc' xs' st'"
proof (induction ps arbitrary: tc xs st)
  case Nil
  then show ?case using moves_refl [OF Nil.prems(1)] by (intro exI [of _ xs]) simp
next
  case (Cons p ps)
  obtain tc1 st1 where one: "hz12_thread_cache_push cfg r (of_nat c) p tc st = (tc1, st1)" by force
  obtain xs1 where m1: "moves cfg c tc xs st [p] [] tc1 xs1 st1"
    using push_moves [OF lane c Cons.prems(1) _ _ one] Cons.prems(3,4) by auto
  have "set (local_list cfg c tc1 xs1) = set (local_list cfg c tc xs) \<union> {p}"
    using moves_out(2) [OF m1 Cons.prems(1)] Cons.prems(4) by auto
  then have disj: "set ps \<inter> set (local_list cfg c tc1 xs1) = {}" using Cons.prems(2,4) by auto
  obtain xs2 where m2: "moves cfg c tc1 xs1 st1 ps [] tc' xs2 st'"
    using Cons.IH [OF moves_wf [OF m1] _ _ disj] Cons.prems(2,3,5) one moves_slots [OF m1] by auto
  show ?case using moves_trans [OF m1 m2] by auto
qed

section \<open>Refill\<close>

lemma slot_word: "c < class_total cfg \<Longrightarrow> hz12_class_slot_size cfg (of_nat c) = of_nat (slot_bytes cfg c)"
  using slot_size_nat [of "of_nat c" cfg] class_nat [of c cfg] by (metis of_nat_unat ucast_id)

lemma u32_index: "(ucast (i :: u32) :: u64) = of_nat (unat i)"
  by simp

text \<open>The next object of the current span is the head of its list of unused slots.\<close>

lemma bump_list_next:
  assumes "current_has c tc"
  shows "bump_list cfg c (tc_current tc c) =
    (cs_base (tc_current tc c) + of_nat (unat (cs_bump_index (tc_current tc c)) * slot_bytes cfg c)) #
    bump_list cfg c ((tc_current tc c)\<lparr>cs_bump_index := cs_bump_index (tc_current tc c) + 1\<rparr>)"
proof -
  let ?cs = "tc_current tc c"
  have lt: "unat (cs_bump_index ?cs) < unat (cs_slot_count ?cs)" and b: "cs_base ?cs \<noteq> 0"
    using assms by (auto simp: current_has_def word_less_nat_alt)
  show ?thesis using b lt by (simp add: bump_list_def upt_conv_Cons unat_suc_u32 [OF lt])
qed

lemma bump_one_moves:
  assumes c: "c < class_total cfg" and ok: "local_ok cfg c tc xs st" and has: "current_has c tc"
    and run: "bump_one cfg (of_nat c) tc = (p, tc')"
  shows "moves cfg c tc xs st [] [p] tc' xs st"
proof -
  have cn: "unat (of_nat c :: u8) = c" using class_nat [OF c] by simp
  let ?cs = "tc_current tc c"
  let ?cs1 = "?cs\<lparr>cs_bump_index := cs_bump_index ?cs + 1\<rparr>"
  have p: "p = cs_base ?cs + of_nat (unat (cs_bump_index ?cs) * slot_bytes cfg c)"
    and tc': "tc' = tc\<lparr>tc_current := (tc_current tc)(c := ?cs1)\<rparr>"
    using run by (simp_all add: bump_one_def Let_def cn slot_word [OF c])
  have bl: "bump_list cfg c ?cs = p # bump_list cfg c ?cs1" using bump_list_next [OF has, of cfg] p by simp
  have m: "mset (local_list cfg c tc' xs) + mset [p] = mset (local_list cfg c tc xs) + mset []"
    by (simp add: local_list_def tc' bl)
  have "local_ok cfg c tc' xs st"
    by (rule local_okI [OF ok op_frame_refl _ m]) (use ok in \<open>auto simp: local_ok_def tc' cur_ok_def\<close>)
  then show ?thesis using m by (auto simp: moves_def tc')
qed

lemma pop_moves:
  assumes c: "c < class_total cfg" and ok: "local_ok cfg c tc xs st"
    and run: "hz12_thread_cache_pop cfg (of_nat c) tc = (p, tc')"
  shows "if p = 0 then tc' = tc else moves cfg c tc xs st [] [p] tc' xs st"
proof (cases "tc_items tc c = []")
  case True
  then show ?thesis using run class_nat [OF c] by (simp add: hz12_thread_cache_pop_def Let_def split: if_splits)
next
  case False
  have cn: "(HZ12_CLASS_COUNT cfg \<le> of_nat c) = False" "unat (of_nat c :: u8) = c"
    using class_nat [OF c] class_guard by blast+
  have p: "p = last (tc_items tc c)" "tc_items tc' = (tc_items tc)(c := butlast (tc_items tc c))" "tc_current tc' = tc_current tc"
    using run False cn by (auto simp: hz12_thread_cache_pop_def Let_def)
  have ap: "tc_items tc c = butlast (tc_items tc c) @ [p]" using False p(1) by simp
  have "slot_ok cfg st c p" "arena_wf st" using ok ap by (auto simp: local_ok_def local_list_def) (metis UnI1 in_set_conv_decomp)
  then have "p \<noteq> 0" using slot_ok_facts(3) [OF _ c] by blast
  have "mset (tc_items tc c) = mset (butlast (tc_items tc c)) + {#p#}" by (subst ap) simp
  then have m: "mset (local_list cfg c tc' xs) + mset [p] = mset (local_list cfg c tc xs) + mset []"
    by (simp add: local_list_def p(2,3))
  have "local_ok cfg c tc' xs st"
    by (rule local_okI [OF ok op_frame_refl _ m]) (use ok p in \<open>auto simp: local_ok_def\<close>)
  then show ?thesis using m \<open>p \<noteq> 0\<close> p by (auto simp: moves_def)
qed

text \<open>Hints do not matter.\<close>

definition same_lists :: "H12ThreadCache \<Rightarrow> H12ThreadCache \<Rightarrow> bool" where
  "same_lists tc tc' \<longleftrightarrow> tc_items tc' = tc_items tc \<and> tc_current tc' = tc_current tc"

lemma same_lists_hints [simp]:
  "same_lists tc (note_cold_skip cfg cl tc)" "same_lists tc (raise_pressure cl tc)"
  "same_lists tc (raise_pressure cl (note_cold_skip cfg cl tc))"
  by (simp_all add: same_lists_def note_cold_skip_def raise_pressure_def Let_def)

lemma same_lists_local:
  assumes "same_lists tc tc'"
  shows "local_list cfg c tc' xs = local_list cfg c tc xs" "local_ok cfg c tc' xs st = local_ok cfg c tc xs st"
    "moves cfg c u us st0 inc out tc' xs st = moves cfg c u us st0 inc out tc xs st"
    "current_has c tc' = current_has c tc"
  using assms by (simp_all add: same_lists_def local_list_def local_ok_def moves_def current_has_def)

text \<open>Taking the head of the sink.\<close>

lemma returned_pop_moves:
  assumes c: "c < class_total cfg" and ok: "local_ok cfg c tc xs st"
    and run: "hz12_returned_pop cfg (of_nat c) st = (p, st')"
  shows "if p = 0 then st' = st else \<exists>xs'. moves cfg c tc xs st [] [p] tc xs' st'"
proof (cases xs)
  case Nil
  have cn: "(HZ12_CLASS_COUNT cfg \<le> of_nat c) = False" "unat (of_nat c :: u8) = c"
    using class_nat [OF c] class_guard by blast+
  have "hz12_returned st c = 0" using ok Nil cn(2) by (simp add: local_ok_def sink_list_def)
  then show ?thesis using run cn by (simp add: hz12_returned_pop_def)
next
  case (Cons x ys)
  have cn: "(HZ12_CLASS_COUNT cfg \<le> of_nat c) = False" "unat (of_nat c :: u8) = c"
    using class_nat [OF c] class_guard by blast+
  have ch: "hz12_returned st c = x" "x \<noteq> 0" "chain (h12_mem st) (h12_mem st x) ys"
    using ok Cons cn by (auto simp: local_ok_def sink_list_def)
  have r: "p = x" "st' = st\<lparr>hz12_returned := (hz12_returned st)(c := h12_mem st x)\<rparr>"
    using run ch cn by (auto simp: hz12_returned_pop_def)
  have m: "mset (local_list cfg c tc ys) + mset [p] = mset (local_list cfg c tc xs) + mset []"
    by (simp add: local_list_def Cons r)
  have fr: "op_frame c {} st st'" by (simp add: op_frame_def r)
  have "sink_list st' (of_nat c) ys" using ch cn r by (simp add: sink_list_def)
  then have "local_ok cfg c tc ys st'"
    by (intro local_okI [OF ok fr _ m]) (use ok in \<open>auto simp: local_ok_def\<close>)
  then have "moves cfg c tc xs st [] [p] tc ys st'"
    using m op_frame_mono [OF fr] by (auto simp: moves_def)
  then show ?thesis using r(1) ch(2) by auto
qed

lemma pop_range_moves:
  assumes c: "c < class_total cfg" and ok: "local_ok cfg c tc xs st"
    and run: "hz12_returned_pop_range cfg (of_nat c) k st = (ps, st')"
  shows "moves cfg c tc xs st [] ps tc (drop (length ps) xs) st' \<and> ps = take (length ps) xs"
proof -
  have cn: "(HZ12_CLASS_COUNT cfg \<le> of_nat c) = False" "unat (of_nat c :: u8) = c"
    using class_nat [OF c] class_guard by blast+
  show ?thesis
  proof (cases "k = 0")
    case True
    then show ?thesis using run moves_refl [OF ok] by (auto simp: hz12_returned_pop_range_def)
  next
    case False
    have ch: "chain (h12_mem st) (hz12_returned st c) xs" using ok cn by (simp add: local_ok_def sink_list_def)
    obtain h where h: "pop_range_loop (unat k) (hz12_returned st c) (h12_mem st) = (take (unat k) xs, h)"
      "chain (h12_mem st) h (drop (unat k) xs)"
      using pop_range_loop_chain [OF ch, of "unat k"] by (metis prod.collapse)
    have r: "ps = take (unat k) xs" "st' = st\<lparr>hz12_returned := (hz12_returned st)(c := h)\<rparr>"
      using run False cn h(1) by (simp_all add: hz12_returned_pop_range_def)
    have d: "drop (length ps) xs = drop (unat k) xs" "take (length ps) xs = ps" using r(1) by (auto simp: min_def)
    have "mset xs = mset ps + mset (drop (unat k) xs)" unfolding r(1) by (metis append_take_drop_id mset_append)
    then have m: "mset (local_list cfg c tc (drop (unat k) xs)) + mset ps = mset (local_list cfg c tc xs) + mset []"
      by (simp add: local_list_def)
    have fr: "op_frame c {} st st'" by (simp add: op_frame_def r)
    have "sink_list st' (of_nat c) (drop (unat k) xs)" using h(2) cn r by (simp add: sink_list_def)
    then have "local_ok cfg c tc (drop (unat k) xs) st'"
      by (intro local_okI [OF ok fr _ m]) (use ok in \<open>auto simp: local_ok_def\<close>)
    then show ?thesis unfolding d using m op_frame_mono [OF fr] by (auto simp: moves_def)
  qed
qed

lemma moves_cancel:
  assumes "moves cfg c tc xs st rest (p # rest) tc' xs' st'" "set rest \<subseteq> set (local_list cfg c tc xs)"
  shows "moves cfg c tc xs st [] [p] tc' xs' st'"
proof -
  have "set (local_list cfg c tc xs) \<union> set rest = set (local_list cfg c tc xs) \<union> set []" using assms(2) by auto
  then show ?thesis using assms(1) by (simp add: moves_def)
qed

text \<open>Objects taken out of the lists and pushed into the cache, all but the first.\<close>

lemma take_and_push:
  assumes lane: "c12_classify_span cfg" and c: "c < class_total cfg" and ok: "local_ok cfg c tc xs st"
    and m1: "moves cfg c tc xs st [] (p # rest) tc1 xs1 st1"
    and run: "push_all cfg r (of_nat c) rest tc1 st1 = (tc', st')"
  shows "\<exists>xs'. moves cfg c tc xs st [] [p] tc' xs' st'"
proof -
  have d: "distinct (local_list cfg c tc1 xs1 @ p # rest)"
    "set (local_list cfg c tc1 xs1) \<union> set (p # rest) = set (local_list cfg c tc xs)"
    using moves_out [OF m1 ok] by auto
  have sl: "slot_ok cfg st1 c q" if "q \<in> set rest" for q
    using that d(2) ok moves_slots [OF m1] by (auto simp: local_ok_def)
  obtain xs' where "moves cfg c tc1 xs1 st1 rest [] tc' xs' st'"
    using push_all_moves [OF lane c moves_wf [OF m1] _ _ _ run] d(1) sl by auto
  from moves_trans [OF m1 this] have "moves cfg c tc xs st rest (p # rest) tc' xs' st'" by simp
  from moves_cancel [OF this] d(2) show ?thesis by auto
qed

lemma refill_one_moves:
  assumes c: "c < class_total cfg" and ok: "local_ok cfg c tc xs st"
    and run: "refill_one cfg (of_nat c) gated tc st = (po, tc', st')"
  shows "case po of None \<Rightarrow> same_lists tc tc' \<and> st' = st
    | Some p \<Rightarrow> p \<noteq> 0 \<and> (\<exists>xs'. moves cfg c tc xs st [] [p] tc' xs' st')"
proof -
  obtain p st1 where pop: "hz12_returned_pop cfg (of_nat c) st = (p, st1)" by force
  note P = returned_pop_moves [OF c ok pop]
  show ?thesis
  proof (cases "p = 0")
    case True
    then show ?thesis using run pop P by (auto simp: refill_one_def Let_def split: if_splits)
  next
    case False
    then obtain xs' where m: "moves cfg c tc xs st [] [p] tc xs' st1" using P by auto
    have "po = Some p" "st' = st1" "same_lists tc tc'"
      using run pop False by (auto simp: refill_one_def Let_def same_lists_def)
    then show ?thesis using m False by (auto simp: same_lists_local(3))
  qed
qed

lemma refill_batch_moves:
  assumes lane: "c12_classify_span cfg" and c: "c < class_total cfg" and ok: "local_ok cfg c tc xs st"
    and run: "refill_batch cfg r (of_nat c) tc st = (po, tc', st')"
  shows "case po of None \<Rightarrow> same_lists tc tc' \<and> (\<exists>xs'. moves cfg c tc xs st [] [] tc xs' st')
    | Some p \<Rightarrow> p \<noteq> 0 \<and> (\<exists>xs'. moves cfg c tc xs st [] [p] tc' xs' st')"
proof -
  obtain ps st1 where pop: "hz12_returned_pop_range cfg (of_nat c) (c12_returned_refill_batch_count cfg) st = (ps, st1)"
    by force
  note P = pop_range_moves [OF c ok pop]
  show ?thesis
  proof (cases ps)
    case Nil
    then show ?thesis using run pop P by (auto simp: refill_batch_def split: if_splits)
  next
    case (Cons p rest)
    obtain tc1 st2 where pu: "push_all cfg r (of_nat c) rest tc st1 = (tc1, st2)" by force
    have m1: "moves cfg c tc xs st [] (p # rest) tc (drop (length ps) xs) st1"
      using conjunct1 [OF P] unfolding Cons .
    obtain xs' where m: "moves cfg c tc xs st [] [p] tc1 xs' st2"
      using take_and_push [OF lane c ok m1 pu] by blast
    have r: "po = Some p" "st' = st2" "same_lists tc1 tc'"
      using run pop Cons pu by (auto simp: refill_batch_def same_lists_def split: if_splits)
    have "p \<in> set xs" using P Cons by (metis in_set_takeD list.set_intros(1))
    then have "slot_ok cfg st c p" "arena_wf st" using ok by (auto simp: local_ok_def local_list_def)
    then have "p \<noteq> 0" using slot_ok_facts(3) [OF _ c] by blast
    then show ?thesis using r m by (auto simp: same_lists_local(3))
  qed
qed

lemma refill_from_sink_moves:
  assumes lane: "c12_classify_span cfg" and c: "c < class_total cfg" and ok: "local_ok cfg c tc xs st"
    and run: "refill_from_sink cfg r (of_nat c) tc st = (po, tc', st')"
  shows "case po of None \<Rightarrow> same_lists tc tc' \<and> (\<exists>xs'. moves cfg c tc xs st [] [] tc' xs' st')
    | Some p \<Rightarrow> p \<noteq> 0 \<and> (\<exists>xs'. moves cfg c tc xs st [] [p] tc' xs' st')"
proof -
  have one: ?thesis if "refill_one cfg (of_nat c) g tc st = (po, tc', st')" for g
  proof (cases po)
    case None
    then have "same_lists tc tc'" "st' = st" using refill_one_moves [OF c ok that] by simp_all
    then show ?thesis using None moves_refl [OF ok] by (auto simp: same_lists_local(3))
  next
    case (Some p)
    then show ?thesis using refill_one_moves [OF c ok that] by simp
  qed
  moreover have ?thesis if "refill_batch cfg r (of_nat c) tc st = (po, tc', st')"
    using refill_batch_moves [OF lane c ok that] by (cases po) (auto simp: same_lists_local(3))
  ultimately show ?thesis using run by (auto simp: refill_from_sink_def split: if_splits)
qed

lemma bump_list_take:
  assumes "cs_base cs \<noteq> 0" "unat (cs_bump_index cs) + unat n \<le> unat (cs_slot_count cs)"
  shows "bump_list cfg c cs = map (\<lambda>i. cs_base cs + of_nat ((unat (cs_bump_index cs) + i) * slot_bytes cfg c)) [0..<unat n]
      @ bump_list cfg c (cs\<lparr>cs_bump_index := cs_bump_index cs + n\<rparr>)"
    "unat (cs_bump_index cs + n) = unat (cs_bump_index cs) + unat n"
proof -
  let ?b = "unat (cs_bump_index cs)"
  show u: "unat (cs_bump_index cs + n) = ?b + unat n"
    by (subst unat_add_no_wrap) (use assms(2) le_less_trans [OF assms(2) unat_u32_lt] in simp_all)
  have "[?b..<unat (cs_slot_count cs)] = [?b..<?b + unat n] @ [?b + unat n..<unat (cs_slot_count cs)]"
    using assms(2) by (metis le_Suc_ex le_add1 upt_add_eq_append add.assoc)
  moreover have "[?b..<?b + unat n] = map (\<lambda>i. ?b + i) [0..<unat n]" by (simp add: map_add_upt add.commute)
  ultimately show "bump_list cfg c cs = map (\<lambda>i. cs_base cs + of_nat ((?b + i) * slot_bytes cfg c)) [0..<unat n]
      @ bump_list cfg c (cs\<lparr>cs_bump_index := cs_bump_index cs + n\<rparr>)"
    using assms(1) u by (simp add: bump_list_def comp_def)
qed

lemma bump_batch_le: "bump_batch_size cfg cl tc \<le> cs_slot_count (tc_current tc (unat cl)) - cs_bump_index (tc_current tc (unat cl))"
  by (simp add: bump_batch_size_def Let_def) (auto simp: not_less intro: order_trans less_imp_le)

lemma refill_from_current_moves:
  assumes lane: "c12_classify_span cfg" and c: "c < class_total cfg" and ok: "local_ok cfg c tc xs st"
    and has: "current_has c tc"
    and run: "refill_from_current cfg r (of_nat c) tc st = (p, tc', st')"
  shows "\<exists>xs'. moves cfg c tc xs st [] [p] tc' xs' st'"
proof (cases "c12_span_bump_batch cfg \<and> bump_batch_size cfg (of_nat c) tc > 1")
  case False
  then have "bump_one cfg (of_nat c) tc = (p, tc')" "st' = st"
    using run by (auto simp: refill_from_current_def Let_def split: prod.splits)
  then show ?thesis using bump_one_moves [OF c ok has] by blast
next
  case True
  have cn: "unat (of_nat c :: u8) = c" using class_nat [OF c] by simp
  let ?cs = "tc_current tc c" and ?n = "bump_batch_size cfg (of_nat c) tc" and ?s = "slot_bytes cfg c"
  let ?b = "unat (cs_bump_index ?cs)"
  let ?tc1 = "tc\<lparr>tc_current := (tc_current tc)(c := ?cs\<lparr>cs_bump_index := cs_bump_index ?cs + ?n\<rparr>)\<rparr>"
  have lt: "cs_bump_index ?cs < cs_slot_count ?cs" and base: "cs_base ?cs \<noteq> 0" using has by (simp_all add: current_has_def)
  have "unat ?n \<le> unat (cs_slot_count ?cs - cs_bump_index ?cs)"
    using bump_batch_le [of cfg "of_nat c" tc] cn by (simp add: word_le_nat_alt)
  also have "\<dots> = unat (cs_slot_count ?cs) - ?b" using lt by (simp add: unat_sub)
  finally have fit: "?b + unat ?n \<le> unat (cs_slot_count ?cs)" using lt by (simp add: word_less_nat_alt)
  note T = bump_list_take(1) [OF base fit, of cfg c]
  let ?f = "\<lambda>i. cs_base ?cs + of_nat ((?b + i) * ?s)"
  have n1: "1 < unat ?n" using True by (simp add: word_less_nat_alt)
  have idx: "cs_base ?cs + ucast (cs_bump_index ?cs + ?n - ?n + of_nat i) * hz12_class_slot_size cfg (of_nat c) = ?f i"
    if "i < unat ?n" for i
  proof -
    have i: "unat (of_nat i :: u32) = i"
      using less_trans [OF that unat_u32_lt] by (intro trans [OF unat_of_nat] mod_less) simp
    have "?b + i < 4294967296" using that fit le_less_trans [OF fit unat_u32_lt] by linarith
    then have "unat (cs_bump_index ?cs + of_nat i) = ?b + i" by (subst unat_add_no_wrap) (use i in simp_all)
    then have "(ucast (cs_bump_index ?cs + of_nat i) :: u64) = of_nat (?b + i)" by (metis of_nat_unat)
    then show ?thesis by (simp add: slot_word [OF c])
  qed
  let ?rest = "map ?f [1..<unat ?n]"
  have split: "map ?f [0..<unat ?n] = ?f 0 # ?rest" using n1 by (simp add: upt_conv_Cons)
  have rest: "map (\<lambda>i. cs_base ?cs + ucast (cs_bump_index ?cs + ?n - ?n + of_nat i) * hz12_class_slot_size cfg (of_nat c))
      [1..<unat ?n] = ?rest" by (rule map_cong [OF refl], rule idx) simp
  obtain tc2 st2 where pu: "push_all cfg r (of_nat c) ?rest ?tc1 st = (tc2, st2)" by force
  have res: "p = ?f 0" "tc' = tc2" "st' = st2"
  proof -
    have "refill_from_current cfg r (of_nat c) tc st =
      (case push_all cfg r (of_nat c) (map (\<lambda>i. cs_base ?cs + ucast (cs_bump_index ?cs + ?n - ?n + of_nat i)
            * hz12_class_slot_size cfg (of_nat c)) [1..<unat ?n]) ?tc1 st of
        (tc1, st1) \<Rightarrow> (cs_base ?cs + ucast (cs_bump_index ?cs) * hz12_class_slot_size cfg (of_nat c), tc1, st1))"
      using True by (simp add: refill_from_current_def Let_def cn)
    then have "(p, tc', st') = (cs_base ?cs + ucast (cs_bump_index ?cs) * hz12_class_slot_size cfg (of_nat c), tc2, st2)"
      by (simp only: rest pu run prod.case)
    then show "p = ?f 0" "tc' = tc2" "st' = st2" by (simp_all add: slot_word [OF c])
  qed
  have m: "mset (local_list cfg c ?tc1 xs) + mset (?f 0 # ?rest) = mset (local_list cfg c tc xs) + mset []"
    using T split by (simp add: local_list_def)
  have "local_ok cfg c ?tc1 xs st"
    by (rule local_okI [OF ok op_frame_refl _ m]) (use ok in \<open>auto simp: local_ok_def cur_ok_def\<close>)
  then have "moves cfg c tc xs st [] (?f 0 # ?rest) ?tc1 xs st" using m by (auto simp: moves_def)
  from take_and_push [OF lane c ok this pu] show ?thesis using res by simp
qed

section \<open>A fresh span\<close>

text \<open>A step of a thread on class \<open>c\<close> that may also carve: routes only grow.\<close>

definition grows :: "hz12_config \<Rightarrow> 'a h12_span_state_scheme \<Rightarrow> 'a h12_span_state_scheme \<Rightarrow> bool" where
  "grows cfg st st' \<longleftrightarrow> arena_wf st' \<and> hz12_span_init_once st' = hz12_span_init_once st \<and>
     hz12_arena_base st' = hz12_arena_base st \<and>
     hz12_size_table st' = hz12_size_table st \<and> hz12_size_table_ready st' = hz12_size_table_ready st \<and>
     (\<forall>d p. d < class_total cfg \<longrightarrow> slot_ok cfg st d p \<longrightarrow> slot_ok cfg st' d p) \<and>
     (\<forall>d cs. d < class_total cfg \<longrightarrow> cur_ok cfg st d cs \<longrightarrow> cur_ok cfg st' d cs)"

definition class_step :: "hz12_config \<Rightarrow> nat \<Rightarrow> H12ThreadCache \<Rightarrow> addr list \<Rightarrow> 'a h12_span_state_scheme \<Rightarrow>
    addr list \<Rightarrow> addr list \<Rightarrow> H12ThreadCache \<Rightarrow> addr list \<Rightarrow> 'a h12_span_state_scheme \<Rightarrow> bool" where
  "class_step cfg c tc xs st inc out tc' xs' st' \<longleftrightarrow> local_ok cfg c tc' xs' st' \<and> grows cfg st st' \<and>
     (\<forall>p \<in> set inc. slot_ok cfg st' c p) \<and>
     mset (local_list cfg c tc' xs') + mset out = mset (local_list cfg c tc xs) + mset inc \<and>
     (\<forall>d. d \<noteq> c \<longrightarrow> hz12_returned st' d = hz12_returned st d) \<and>
     (\<forall>a. a \<notin> set (local_list cfg c tc xs) \<union> set inc \<longrightarrow> h12_mem st' a = h12_mem st a) \<and>
     (\<forall>d. d \<noteq> c \<longrightarrow> tc_items tc' d = tc_items tc d \<and> tc_current tc' d = tc_current tc d)"

lemma moves_class_step:
  assumes "moves cfg c tc xs st inc out tc' xs' st'" "\<And>p. p \<in> set inc \<Longrightarrow> slot_ok cfg st c p"
  shows "class_step cfg c tc xs st inc out tc' xs' st'" "h12_span_state.more st' = h12_span_state.more st"
proof -
  have f: "op_frame c (set (local_list cfg c tc xs) \<union> set inc) st st'" using assms by (simp add: moves_def)
  have "arena_wf st'" using assms by (simp add: moves_def local_ok_def)
  then have "grows cfg st st'"
    using f op_frame_slot [OF f] op_frame_cur [OF f] by (simp add: grows_def op_frame_def)
  then show "class_step cfg c tc xs st inc out tc' xs' st'"
    using assms f op_frame_slot [OF f] by (simp add: class_step_def moves_def op_frame_def)
  show "h12_span_state.more st' = h12_span_state.more st" using f by (simp add: op_frame_def)
qed

lemma moves_out_step:
  assumes "moves cfg c tc xs st [] out tc' xs' st'"
  shows "class_step cfg c tc xs st [] out tc' xs' st'" "h12_span_state.more st' = h12_span_state.more st"
  by (rule moves_class_step [OF assms]; simp)+

lemma carve_grows:
  assumes wf: "arena_wf st" and once: "hz12_span_init_once st" and c: "c < class_total cfg"
    and run: "hz12_span_carve_for_class (of_nat c) st = (b, st')" and b: "b \<noteq> 0"
  shows "grows cfg st st'" "h12_mem st' = h12_mem st" "hz12_returned st' = hz12_returned st"
    "h12_span_state.more st' = h12_span_state.more st"
    "\<exists>i<65536. hz12_span_class st' i = of_nat c + 1 \<and> b = span_at st' i"
    "\<And>d p. d < class_total cfg \<Longrightarrow> p \<in> set (span_list cfg c b) \<Longrightarrow> \<not> slot_ok cfg st d p"
    "\<And>p. p \<in> set (span_list cfg c b) \<Longrightarrow> slot_ok cfg st' c p"
proof -
  have cn: "(of_nat c :: u8) < HZ12_CLASS_COUNT cfg" using class_nat [OF c] by blast
  note C = carve_correct [OF wf once cn run]
  have base: "hz12_arena_base st \<noteq> 0" using wf by (simp add: arena_wf_def)
  have init: "hz12_span_init st = st" using once by (simp add: hz12_span_init_def)
  obtain i where i: "i < 65536" "b = span_at st i" using C b by auto
  have id: "unat (drop_bit 16 (hz12_span_cursor st - hz12_arena_base st)) = i"
    using span_id_at [OF wf i(1)] C b i by (auto simp: span_id_of_def Let_def split: if_splits)
  have st': "st' = st\<lparr>hz12_span_cursor := hz12_span_cursor st + HZ12_SPAN_BYTES,
      hz12_span_class := (hz12_span_class st)(i := of_nat c + 1), hz12_span_create_count := hz12_span_create_count st + 1\<rparr>"
    using run b base id by (auto simp: hz12_span_carve_for_class_def init Let_def split: if_splits)
  have free: "hz12_span_class st i = 0"
  proof -
    have "hz12_span_classify b st = None"
    proof -
      have "in_span b b" using in_span_at [OF wf i(1), of b] span_id_at [OF wf i(1)] i
        by (auto simp: span_id_of_def Let_def not_le not_less split: if_splits)
      then show ?thesis using C b by auto
    qed
    then show ?thesis using span_id_at [OF wf i(1)] i(2)
      by (auto simp: hz12_span_classify_def span_id_of_def Let_def split: if_splits)
  qed
  have keep: "hz12_span_class st j = of_nat d + 1 \<Longrightarrow> d < class_total cfg \<Longrightarrow> hz12_span_class st' j = of_nat d + 1" for j d
    using free st' class_suc_nonzero class_nat by (cases "j = i") fastforce+
  have at: "span_at st' = span_at st" using st' by (intro ext) (simp add: span_at_def)
  have "slot_ok cfg st' d p" if "d < class_total cfg" "slot_ok cfg st d p" for d p
    using that keep unfolding slot_ok_def at by blast
  moreover have "cur_ok cfg st' d cs" if "d < class_total cfg" "cur_ok cfg st d cs" for d cs
    using that keep unfolding cur_ok_def at by blast
  moreover have "arena_wf st'" using C by blast
  ultimately show "grows cfg st st'" using st' by (simp add: grows_def)
  show "h12_mem st' = h12_mem st" "hz12_returned st' = hz12_returned st"
    "h12_span_state.more st' = h12_span_state.more st" using st' by simp_all
  show new: "\<exists>i<65536. hz12_span_class st' i = of_nat c + 1 \<and> b = span_at st' i" using i at st' by auto
  show "slot_ok cfg st' c p" if "p \<in> set (span_list cfg c b)" for p
    using new that span_list_set [OF c] by (auto simp: slot_ok_def)
  show "\<not> slot_ok cfg st d p" if d: "d < class_total cfg" and p: "p \<in> set (span_list cfg c b)" for d p
  proof
    assume s: "slot_ok cfg st d p"
    have "slot_ok cfg st' c p" using new p span_list_set [OF c] by (auto simp: slot_ok_def)
    then have cl: "hz12_span_classify p st' = Some (of_nat c)" using slot_ok_facts(1) [OF _ c] C by blast
    have old: "hz12_span_classify p st = Some (of_nat d)" using slot_ok_facts(1) [OF wf d s] .
    have "unat (p - b) < 65536"
    proof -
      obtain k where "k < 65536 div slot_bytes cfg c" "unat (p - b) = k * slot_bytes cfg c"
        using p span_list_set [OF c] by (auto simp: span_slots_def)
      then show ?thesis using slot_offset_small [OF slot_table(2) [OF c]] slot_table(2) [OF c] by fastforce
    qed
    moreover have "unat b + 65536 < 18446744073709551616"
    proof -
      have bb: "unat (hz12_arena_base st) + 4295032832 < 18446744073709551616" using wf by (simp add: arena_wf_def)
      have "unat b = unat (hz12_arena_base st) + i * 65536"
        unfolding i(2) span_at_def by (rule arena_nat(1) [OF bb]) (use i(1) in simp)
      then show ?thesis using bb i(1) by simp
    qed
    ultimately have "in_span b p" using in_span_iff by blast
    then show False using C b old by auto
  qed
qed

text \<open>The outcome of a refill: an object the thread or the sink had, the first slot of a fresh span, or,
  where the arena is full, what the system gave.\<close>

definition fresh_for :: "hz12_config \<Rightarrow> 'a h12_span_state_scheme \<Rightarrow> addr list \<Rightarrow> bool" where
  "fresh_for cfg st inc \<longleftrightarrow> distinct inc \<and> (\<forall>d < class_total cfg. \<forall>p \<in> set inc. \<not> slot_ok cfg st d p)"

lemma refill_from_arena_step:
  assumes c: "c < class_total cfg" and ok: "local_ok cfg c tc xs st" and once: "hz12_span_init_once st"
    and empty: "\<not> current_has c tc"
    and run: "refill_from_arena cfg r (of_nat c) tc st = (p, tc', st')"
  shows "(tc' = tc \<and> hz12_sys_malloc r (hz12_class_slot_size cfg (of_nat c)) st = (p, st')) \<or>
    p \<noteq> 0 \<and> h12_span_state.more st' = h12_span_state.more st \<and>
    (\<exists>inc. fresh_for cfg st inc \<and> class_step cfg c tc xs st inc [p] tc' xs st')"
proof -
  have cn: "unat (of_nat c :: u8) = c" "(of_nat c :: u8) < HZ12_CLASS_COUNT cfg" using class_nat [OF c] by simp_all
  have wf: "arena_wf st" using ok by (simp add: local_ok_def)
  obtain b st1 where car: "hz12_span_carve_for_class (of_nat c) st = (b, st1)" by force
  show ?thesis
  proof (cases "b = 0")
    case True
    then have "st1 = st" using carve_correct [OF wf once cn(2) car] by simp
    then show ?thesis using run car True by (auto simp: refill_from_arena_def Let_def split: prod.splits)
  next
    case False
    note G = carve_grows [OF wf once c car False]
    have s16: "16 \<le> slot_bytes cfg c" by (rule slot_table(2) [OF c])
    let ?cs = "\<lparr>cs_base = b, cs_bump_index = 0, cs_slot_count = ucast (HZ12_SPAN_BYTES div hz12_class_slot_size cfg (of_nat c))\<rparr>"
    let ?tc = "tc\<lparr>tc_current := (tc_current tc)(c := ?cs)\<rparr>"
    have cnt: "unat (cs_slot_count ?cs) = 65536 div slot_bytes cfg c"
    proof -
      have "65536 div slot_bytes cfg c < 4294967296" by (rule le_less_trans [OF div_le_dividend]) simp
      then show ?thesis using slot_size_nat [OF cn(2)] cn(1)
        by (simp add: unsigned_ucast_eq unat_div take_bit_nat_eq_self)
    qed
    have bl: "bump_list cfg c ?cs = span_list cfg c b"
      using False cnt by (simp add: bump_list_def span_list_def)
    have old: "bump_list cfg c (tc_current tc c) = []"
      using empty by (auto simp: bump_list_def current_has_def word_less_nat_alt)
    have "0 < 65536 div slot_bytes cfg c" using slot_table(1) [OF c] s16 by (simp add: div_greater_zero_iff)
    then have has: "current_has c ?tc" using False cnt by (simp add: current_has_def word_less_nat_alt)
    have d: "distinct (span_list cfg c b)" unfolding span_list_def by (rule span_list_distinct [OF c])
    have sl: "slot_ok cfg st c q" if "q \<in> set (local_list cfg c tc xs)" for q using ok that by (simp add: local_ok_def)
    have sink: "sink_list st1 (of_nat c) xs" using ok G(2,3) by (simp add: local_ok_def sink_list_def)
    have l: "set (local_list cfg c ?tc xs) = set (local_list cfg c tc xs) \<union> set (span_list cfg c b)"
      unfolding local_list_def by (simp add: bl old) blast
    have "distinct (local_list cfg c ?tc xs)"
    proof -
      have "set (span_list cfg c b) \<inter> set (local_list cfg c tc xs) = {}" using G(6) [OF c] sl by blast
      moreover have "distinct (local_list cfg c tc xs)" using ok by (simp add: local_ok_def)
      ultimately show ?thesis using d by (auto simp: local_list_def bl old)
    qed
    moreover have "cur_ok cfg st1 c ?cs" using G(5) cnt by (auto simp: cur_ok_def)
    moreover have "arena_wf st1" using G(1) by (simp add: grows_def)
    moreover have "\<forall>q\<in>set (local_list cfg c ?tc xs). slot_ok cfg st1 c q"
      unfolding l using sl G(1,7) c by (auto simp: grows_def)
    ultimately have ok1: "local_ok cfg c ?tc xs st1" using sink by (simp add: local_ok_def)
    obtain p1 tc1 where one: "bump_one cfg (of_nat c) ?tc = (p1, tc1)" by force
    note M = bump_one_moves [OF c ok1 has one]
    have res: "p = p1" "tc' = tc1" "st' = st1"
      using run car False one cn(1) by (auto simp: refill_from_arena_def Let_def)
    have "mset (local_list cfg c ?tc xs) = mset (local_list cfg c tc xs) + mset (span_list cfg c b)"
      by (simp add: local_list_def bl old)
    then have "class_step cfg c tc xs st (span_list cfg c b) [p] tc' xs st'"
      using M G(1,2,3,7) unfolding class_step_def moves_def res by simp
    moreover have "fresh_for cfg st (span_list cfg c b)" using d G(6) by (simp add: fresh_for_def)
    moreover have "p \<noteq> 0"
    proof -
      have "p1 \<in> set (local_list cfg c ?tc xs)" using moves_out(2) [OF M ok1] by auto
      then have "slot_ok cfg st1 c p1" "arena_wf st1" using ok1 by (simp_all add: local_ok_def)
      then show ?thesis using slot_ok_facts(3) [OF _ c] res(1) by blast
    qed
    ultimately show ?thesis using G(4) res(3) by auto
  qed
qed

lemma moves_one_nonzero:
  assumes "moves cfg c tc xs st [] [p] tc' xs' st'" "local_ok cfg c tc xs st" "c < class_total cfg"
  shows "p \<noteq> 0" "p \<in> set (local_list cfg c tc xs)"
proof -
  show p: "p \<in> set (local_list cfg c tc xs)" using moves_out(2) [OF assms(1,2)] by auto
  then show "p \<noteq> 0" using assms(2) slot_ok_facts(3) [OF _ assms(3)] by (auto simp: local_ok_def)
qed

lemma refill_step:
  assumes lane: "c12_classify_span cfg" and c: "c < class_total cfg" and ok: "local_ok cfg c tc xs st"
    and once: "hz12_span_init_once st"
    and run: "hz12_thread_cache_refill cfg r (of_nat c) tc st = (p, tc', st')"
  shows "(\<exists>tc1 xs1 st1. moves cfg c tc xs st [] [] tc1 xs1 st1 \<and> same_lists tc1 tc' \<and>
      hz12_sys_malloc r (hz12_class_slot_size cfg (of_nat c)) st1 = (p, st')) \<or>
    p \<noteq> 0 \<and> h12_span_state.more st' = h12_span_state.more st \<and>
    (\<exists>inc xs'. fresh_for cfg st inc \<and> class_step cfg c tc xs st inc [p] tc' xs' st')"
proof -
  have cn: "unat (of_nat c :: u8) = c" using class_nat [OF c] by simp
  have moved: ?thesis if m: "moves cfg c tc xs st [] [p] tc' xs' st'" for xs'
  proof -
    have "fresh_for cfg st []" by (simp add: fresh_for_def)
    then show ?thesis using moves_out_step [OF m] moves_one_nonzero [OF m ok c] by blast
  qed
  let ?skip = "returned_refill_cold_skip tc c"
  let ?tc0 = "tc\<lparr>returned_refill_cold_skip := (returned_refill_cold_skip tc)(c := ?skip - 1)\<rparr>"
  have same0: "same_lists tc ?tc0" by (simp add: same_lists_def)
  show ?thesis
  proof (cases "c12_cold_skip cfg \<and> of_nat c < HZ12_CLASS_COUNT cfg \<and> ?skip > 0 \<and> current_has c tc")
    case True
    then have "bump_one cfg (of_nat c) ?tc0 = (p, tc')" "st' = st"
      using run lane cn by (auto simp: hz12_thread_cache_refill_def Let_def split: prod.splits)
    then have "moves cfg c ?tc0 xs st [] [p] tc' xs st'"
      using bump_one_moves [OF c, of ?tc0 xs st] ok True by (simp add: same_lists_local [OF same0])
    then have "moves cfg c tc xs st [] [p] tc' xs st'" by (simp add: moves_def local_list_def)
    then show ?thesis by (rule moved)
  next
    case False
    obtain po tc1 st1 where sk: "refill_from_sink cfg r (of_nat c) tc st = (po, tc1, st1)" by (metis prod_cases3)
    note S = refill_from_sink_moves [OF lane c ok sk]
    show ?thesis
    proof (cases po)
      case (Some q)
      then have "p = q" "tc' = tc1" "st' = st1"
        using run lane False sk cn by (auto simp: hz12_thread_cache_refill_def Let_def split: if_splits)
      then show ?thesis using S Some moved by auto
    next
      case None
      then obtain xs1 where m1: "moves cfg c tc xs st [] [] tc1 xs1 st1" using S by auto
      note ok1 = moves_wf [OF m1]
      have once1: "hz12_span_init_once st1" using m1 once by (simp add: moves_def op_frame_def)
      show ?thesis
      proof (cases "current_has c tc1")
        case True
        then have "refill_from_current cfg r (of_nat c) tc1 st1 = (p, tc', st')"
          using run lane False sk cn None by (auto simp: hz12_thread_cache_refill_def Let_def split: if_splits)
        from refill_from_current_moves [OF lane c ok1 True this] obtain xs2 where
          "moves cfg c tc1 xs1 st1 [] [p] tc' xs2 st'" by blast
        from moves_trans [OF m1 this] show ?thesis using moved by simp
      next
        case nocur: False
        then have "refill_from_arena cfg r (of_nat c) tc1 st1 = (p, tc', st')"
          using run lane False sk cn None by (auto simp: hz12_thread_cache_refill_def Let_def split: if_splits)
        from refill_from_arena_step [OF c ok1 once1 nocur this] show ?thesis
        proof
          assume a: "tc' = tc1 \<and> hz12_sys_malloc r (hz12_class_slot_size cfg (of_nat c)) st1 = (p, st')"
          have "same_lists tc1 tc1" by (simp add: same_lists_def)
          then show ?thesis using m1 a by blast
        next
          assume a: "p \<noteq> 0 \<and> h12_span_state.more st' = h12_span_state.more st1 \<and>
            (\<exists>inc. fresh_for cfg st1 inc \<and> class_step cfg c tc1 xs1 st1 inc [p] tc' xs1 st')"
          then obtain inc where i: "fresh_for cfg st1 inc" "class_step cfg c tc1 xs1 st1 inc [p] tc' xs1 st'" by blast
          have "fresh_for cfg st inc" using i(1) moves_slots [OF m1] by (simp add: fresh_for_def)
          moreover have "class_step cfg c tc xs st inc [p] tc' xs1 st'"
          proof -
            have g: "grows cfg st st1" using moves_out_step(1) [OF m1] by (simp add: class_step_def)
            have "set (local_list cfg c tc1 xs1) = set (local_list cfg c tc xs)"
              using moves_out(2) [OF m1 ok] by simp
            then show ?thesis using i(2) m1 g
              unfolding class_step_def moves_def op_frame_def grows_def by simp
          qed
          moreover have "h12_span_state.more st' = h12_span_state.more st" using a moves_out_step(2) [OF m1] by simp
          ultimately show ?thesis using a by blast
        qed
      qed
    qed
  qed
qed

end
