(* ===== verification/Hz12_Entry_Correct.thy ===== *)
theory Hz12_Entry_Correct
  imports Hz12_Cache_Correct
begin

text \<open>
  The span lane as a whole: every slot of a carved span is in at most one place, the cache of one
  thread, the unused part of the current span of one thread, the sink of its class, or with the user.
  \<open>hz12_malloc\<close>, \<open>hz12_free\<close> and \<open>hz12_realloc\<close> on any thread keep it, in every build configuration.
\<close>

section \<open>The places of a class\<close>

datatype place = PSink | PCache nat | PBump nat

definition tc_of :: "'a h12_cache_state_scheme \<Rightarrow> nat \<Rightarrow> H12ThreadCache" where
  "tc_of st t = (case hz12_tls (h12_thread st t) of None \<Rightarrow> empty_thread_cache | Some tc \<Rightarrow> tc)"

fun held :: "hz12_config \<Rightarrow> 'a h12_cache_state_scheme \<Rightarrow> addr list \<Rightarrow> nat \<Rightarrow> place \<Rightarrow> addr list" where
  "held cfg st xs c PSink = xs"
| "held cfg st xs c (PCache t) = tc_items (tc_of st t) c"
| "held cfg st xs c (PBump t) = bump_list cfg c (tc_current (tc_of st t) c)"

definition separate :: "('k \<Rightarrow> 'b list) \<Rightarrow> bool" where
  "separate f \<longleftrightarrow> (\<forall>k. distinct (f k)) \<and> (\<forall>k k'. k \<noteq> k' \<longrightarrow> set (f k) \<inter> set (f k') = {})"

definition class_inv :: "hz12_config \<Rightarrow> 'a h12_cache_state_scheme \<Rightarrow> addr list \<Rightarrow> addr set \<Rightarrow> nat \<Rightarrow> bool" where
  "class_inv cfg st xs L c \<longleftrightarrow> sink_list st (of_nat c) xs \<and> separate (held cfg st xs c) \<and>
     (\<forall>k. \<forall>p \<in> set (held cfg st xs c k). slot_ok cfg st c p \<and> p \<notin> L) \<and>
     (\<forall>t. cur_ok cfg st c (tc_current (tc_of st t) c))"

text \<open>\<open>L\<close> are the arena objects the user holds.\<close>

definition span_inv :: "hz12_config \<Rightarrow> addr set \<Rightarrow> 'a h12_cache_state_scheme \<Rightarrow> bool" where
  "span_inv cfg L st \<longleftrightarrow> arena_wf st \<and> hz12_span_init_once st \<and> table_ok cfg st \<and>
     (\<forall>p\<in>L. \<exists>c < class_total cfg. slot_ok cfg st c p) \<and>
     (\<forall>c < class_total cfg. \<exists>xs. class_inv cfg st xs L c)"

lemma class_inv_local:
  assumes "class_inv cfg st xs L c" "arena_wf st"
  shows "local_ok cfg c (tc_of st t) xs st"
    "\<And>p. p \<in> set (local_list cfg c (tc_of st t) xs) \<Longrightarrow> p \<notin> L"
proof -
  have s: "separate (held cfg st xs c)" using assms(1) by (simp add: class_inv_def)
  have d: "distinct (held cfg st xs c k)" for k using s by (simp add: separate_def)
  have j: "set (held cfg st xs c k) \<inter> set (held cfg st xs c k') = {}" if "k \<noteq> k'" for k k'
    using s that by (simp add: separate_def)
  have "distinct (local_list cfg c (tc_of st t) xs)"
    using d [of PSink] d [of "PCache t"] d [of "PBump t"] j [of "PCache t" PSink] j [of "PCache t" "PBump t"] j [of PSink "PBump t"]
    by (simp add: local_list_def Int_Un_distrib)
  moreover have in_held: "\<exists>k. p \<in> set (held cfg st xs c k)" if "p \<in> set (local_list cfg c (tc_of st t) xs)" for p
    using that by (auto simp: local_list_def) (metis held.simps)+
  ultimately show "local_ok cfg c (tc_of st t) xs st"
    using assms unfolding local_ok_def class_inv_def by blast
  show "\<And>p. p \<in> set (local_list cfg c (tc_of st t) xs) \<Longrightarrow> p \<notin> L"
    using in_held assms(1) by (metis class_inv_def)
qed

section \<open>One step of one thread\<close>

text \<open>A step of thread \<open>t\<close> on class \<open>c\<close>, seen from all the places of the class.\<close>

lemma separate_step:
  assumes s: "separate f" and out: "\<And>k. k \<notin> {PSink, PCache t, PBump t} \<Longrightarrow> g k = f k"
    and d: "distinct (g (PCache t) @ g PSink @ g (PBump t))"
    and sub: "set (g (PCache t) @ g PSink @ g (PBump t)) \<subseteq> set (f (PCache t) @ f PSink @ f (PBump t)) \<union> I"
    and i: "\<And>k. set (f k) \<inter> I = {}"
  shows "separate g"
proof -
  let ?K = "{PSink, PCache t, PBump t}"
  have dist: "distinct (g k)" for k
    using d out s by (cases "k \<in> ?K") (auto simp: separate_def)
  have gk: "set (g k) \<subseteq> set (f (PCache t)) \<union> set (f PSink) \<union> set (f (PBump t)) \<union> I" if "k \<in> ?K" for k
    using that sub by auto
  have cross: "set (g k) \<inter> set (f k') = {}" if "k \<in> ?K" "k' \<notin> ?K" for k k'
  proof -
    have "set (f j) \<inter> set (f k') = {}" if "j \<in> ?K" for j
      using s \<open>k' \<notin> ?K\<close> that unfolding separate_def by metis
    then have "(set (f (PCache t)) \<union> set (f PSink) \<union> set (f (PBump t)) \<union> I) \<inter> set (f k') = {}" using i [of k'] by auto
    then show ?thesis using gk [OF that(1)] by blast
  qed
  have "set (g k) \<inter> set (g k') = {}" if "k \<noteq> k'" for k k'
  proof (cases "k \<in> ?K"; cases "k' \<in> ?K")
    assume "k \<in> ?K" "k' \<in> ?K" then show ?thesis using d that by auto
  next
    assume "k \<in> ?K" "k' \<notin> ?K" then show ?thesis using cross out by metis
  next
    assume "k \<notin> ?K" "k' \<in> ?K" then show ?thesis using cross out by (metis Int_commute)
  next
    assume "k \<notin> ?K" "k' \<notin> ?K" then show ?thesis using out s that by (metis separate_def)
  qed
  then show ?thesis using dist by (simp add: separate_def)
qed

definition tls_update :: "nat \<Rightarrow> H12ThreadCache \<Rightarrow> (nat \<Rightarrow> h12_thread_locals) \<Rightarrow> nat \<Rightarrow> h12_thread_locals" where
  "tls_update t tc th = th(t := (th t)\<lparr>hz12_tls := Some tc\<rparr>)"

lemma more_thread: "h12_span_state.more st' = h12_span_state.more st \<Longrightarrow>
    h12_thread (st' :: 'a h12_cache_state_scheme) = h12_thread st"
  by (cases st; cases st') simp

lemma grows_facts:
  "grows cfg st st' \<Longrightarrow> hz12_arena_contains p st' = hz12_arena_contains p st"
  "grows cfg st st' \<Longrightarrow> table_ok cfg st' = table_ok cfg st"
  by (simp_all add: grows_def hz12_arena_contains_def table_ok_def)

text \<open>The step \<open>st\<close> to \<open>st'\<close> of thread \<open>t\<close>, with the cache written back.\<close>

lemma step_inv:
  assumes inv: "span_inv cfg L st" and c: "c < class_total cfg" and cl: "class_inv cfg st xs L c"
    and step: "class_step cfg c (tc_of st t) xs st inc out tc' xs' st'"
    and th: "h12_thread st' = h12_thread st"
    and inc: "distinct inc" "\<And>p. p \<in> set inc \<Longrightarrow> p \<in> L \<and> slot_ok cfg st c p \<or> (\<forall>d < class_total cfg. \<not> slot_ok cfg st d p)"
  shows "span_inv cfg ((L - set inc) \<union> set out) (store_tls t tc' st')"
proof -
  let ?tc = "tc_of st t" and ?L = "(L - set inc) \<union> set out" and ?st = "store_tls t tc' st'"
  have wf: "arena_wf st" using inv by (simp add: span_inv_def)
  note ok = class_inv_local(1) [OF cl wf, of t] and notL = class_inv_local(2) [OF cl wf]
  have g: "grows cfg st st'" and ok': "local_ok cfg c tc' xs' st'"
    and m: "mset (local_list cfg c tc' xs') + mset out = mset (local_list cfg c ?tc xs) + mset inc"
    and others: "\<And>d. d \<noteq> c \<Longrightarrow> hz12_returned st' d = hz12_returned st d"
      "\<And>d. d \<noteq> c \<Longrightarrow> tc_items tc' d = tc_items ?tc d \<and> tc_current tc' d = tc_current ?tc d"
    and mem: "\<And>a. a \<notin> set (local_list cfg c ?tc xs) \<union> set inc \<Longrightarrow> h12_mem st' a = h12_mem st a"
    using step by (auto simp: class_step_def)
  have held_ok: "slot_ok cfg st d p \<and> p \<notin> L" if "class_inv cfg st ys L d" "p \<in> set (held cfg st ys d k)" for d ys k p
    using that by (auto simp: class_inv_def)
  have inc_held: "set (held cfg st ys d k) \<inter> set inc = {}" if "class_inv cfg st ys L d" "d < class_total cfg" for d ys k
    using held_ok [OF that(1)] inc(2) that(2) by blast
  have inc_loc: "set inc \<inter> set (local_list cfg c ?tc xs) = {}"
  proof (rule ccontr)
    assume "set inc \<inter> set (local_list cfg c ?tc xs) \<noteq> {}"
    then obtain p where p: "p \<in> set inc" "p \<in> set (local_list cfg c ?tc xs)" by blast
    have "p \<notin> L" "slot_ok cfg st c p" using notL [OF p(2)] ok p(2) by (auto simp: local_ok_def)
    then show False using inc(2) [OF p(1)] c by blast
  qed
  have M: "mset (local_list cfg c tc' xs' @ out) = mset (local_list cfg c ?tc xs @ inc)" using m by simp
  have dist: "distinct (local_list cfg c tc' xs' @ out)"
    using ok inc(1) inc_loc mset_eq_imp_distinct_iff [OF M] by (auto simp: local_ok_def)
  have sets: "set (local_list cfg c tc' xs') \<union> set out = set (local_list cfg c ?tc xs) \<union> set inc"
    using mset_eq_setD [OF M] by simp
  have tc: "tc_of ?st u = (if u = t then tc' else tc_of st u)" for u
    by (simp add: store_tls_def tc_of_def th)
  have fields: "arena_wf ?st = arena_wf st'" "slot_ok cfg ?st d p = slot_ok cfg st' d p"
    "cur_ok cfg ?st d cs = cur_ok cfg st' d cs" "sink_list ?st e ys = sink_list st' e ys"
    "table_ok cfg ?st = table_ok cfg st'" for d p cs e ys
    by (simp_all add: store_tls_def arena_wf_def slot_ok_def cur_ok_def sink_list_def span_at_def table_ok_def)
  have loc_slot: "slot_ok cfg st' c p" if "p \<in> set (local_list cfg c ?tc xs) \<union> set inc" for p
    using that ok g c step by (auto simp: local_ok_def grows_def class_step_def)
  have grow: "slot_ok cfg st' d p" if "slot_ok cfg st d p" "d < class_total cfg" for d p
    using that g by (simp add: grows_def)
  have other_class: "p \<notin> set (local_list cfg c ?tc xs) \<union> set inc"
    if "class_inv cfg st ys L d" "d < class_total cfg" "d \<noteq> c" "p \<in> set (held cfg st ys d k)" for d ys k p
  proof
    assume "p \<in> set (local_list cfg c ?tc xs) \<union> set inc"
    then have a: "slot_ok cfg st' c p" by (rule loc_slot)
    have b: "slot_ok cfg st' d p" using held_ok [OF that(1,4)] grow that(2) by blast
    have wf': "arena_wf st'" using g by (simp add: grows_def)
    have "(of_nat c :: u8) = of_nat d"
      using slot_ok_facts(1) [OF wf' c a] slot_ok_facts(1) [OF wf' that(2) b] by simp
    then show False using class_nat [OF c] class_nat [OF that(2)] that(3) by metis
  qed
  have same: "\<exists>ys. class_inv cfg ?st ys ?L d" if d: "d < class_total cfg" "d \<noteq> c" for d
  proof -
    obtain ys where I: "class_inv cfg st ys L d" using inv d(1) by (auto simp: span_inv_def)
    have h: "held cfg ?st ys d k = held cfg st ys d k" for k
      using others(2) [OF d(2)] by (cases k) (auto simp: tc)
    have "sink_list st' (of_nat d) ys"
    proof -
      have "h12_mem st' a = h12_mem st a" if "a \<in> set ys" for a
        using mem other_class [OF I d(1,2), of a PSink] that by simp
      then have "chain (h12_mem st') (hz12_returned st d) ys \<longleftrightarrow> chain (h12_mem st) (hz12_returned st d) ys"
        by (rule chain_cong)
      then show ?thesis using I others(1) [OF d(2)] class_nat [OF d(1)] by (simp add: class_inv_def sink_list_def)
    qed
    moreover have "p \<notin> ?L" if "p \<in> set (held cfg st ys d k)" for k p
      using other_class [OF I d(1,2) that] held_ok [OF I that] sets by blast
    moreover have "slot_ok cfg st' d p" if "p \<in> set (held cfg st ys d k)" for k p
      using held_ok [OF I that] grow d(1) by blast
    moreover have "cur_ok cfg st' d (tc_current (tc_of ?st u) d)" for u
      using I g d others(2) [OF d(2)] by (auto simp: class_inv_def grows_def tc)
    moreover have "separate (held cfg ?st ys d)" using I h by (simp add: class_inv_def separate_def)
    ultimately have "class_inv cfg ?st ys ?L d" unfolding class_inv_def fields h by blast
    then show ?thesis ..
  qed
  have this_class: "class_inv cfg ?st xs' ?L c"
  proof -
    let ?f = "held cfg st xs c" and ?g = "held cfg ?st xs' c"
    have K: "?g (PCache t) @ ?g PSink @ ?g (PBump t) = local_list cfg c tc' xs'"
      "?f (PCache t) @ ?f PSink @ ?f (PBump t) = local_list cfg c ?tc xs"
      by (simp_all add: local_list_def tc)
    have out_K: "?g k = ?f k" if "k \<notin> {PSink, PCache t, PBump t}" for k using that by (cases k) (auto simp: tc)
    have sep: "separate ?f" using cl by (simp add: class_inv_def)
    have sep': "separate ?g"
    proof (rule separate_step [OF sep out_K, where I = "set inc"])
      show "distinct (?g (PCache t) @ ?g PSink @ ?g (PBump t))" unfolding K(1) using dist by simp
      show "set (?g (PCache t) @ ?g PSink @ ?g (PBump t)) \<subseteq> set (?f (PCache t) @ ?f PSink @ ?f (PBump t)) \<union> set inc"
        unfolding K using sets by blast
    qed (assumption, rule inc_held [OF cl c])
    have place: "slot_ok cfg st' c p \<and> p \<notin> ?L" if p: "p \<in> set (?g k)" for k p
    proof (cases "k \<in> {PSink, PCache t, PBump t}")
      case True
      then have "p \<in> set (local_list cfg c tc' xs')" using p K(1) by (auto simp: tc local_list_def)
      then show ?thesis using ok' dist notL sets by (auto simp: local_ok_def)
    next
      case False
      then have pf: "p \<in> set (?f k)" using p out_K by simp
      have "p \<notin> set (local_list cfg c ?tc xs)"
      proof
        assume "p \<in> set (local_list cfg c ?tc xs)"
        then obtain j where "j \<in> {PSink, PCache t, PBump t}" "p \<in> set (?f j)"
          unfolding K(2) [symmetric] set_append by (metis UnE insertI1 insertI2)
        then show False using sep pf False unfolding separate_def by (metis IntI empty_iff)
      qed
      moreover have "p \<notin> set inc" using inc_held [OF cl c, of k] pf by blast
      ultimately have "p \<notin> set out" using sets by blast
      then show ?thesis using held_ok [OF cl pf] grow c by blast
    qed
    have "cur_ok cfg st' c (tc_current (tc_of ?st u) c)" for u
      using cl g c ok' by (auto simp: tc class_inv_def grows_def local_ok_def)
    then show ?thesis using sep' place ok' unfolding class_inv_def fields by (simp add: local_ok_def)
  qed
  have L: "\<exists>d < class_total cfg. slot_ok cfg st' d p" if "p \<in> ?L" for p
  proof (cases "p \<in> L")
    case True
    then obtain d where "d < class_total cfg" "slot_ok cfg st d p" using inv by (auto simp: span_inv_def)
    then show ?thesis using grow by blast
  next
    case False
    then have "p \<in> set (local_list cfg c ?tc xs) \<union> set inc" using that sets by auto
    then show ?thesis using loc_slot c by blast
  qed
  show ?thesis
    unfolding span_inv_def fields
  proof (intro conjI allI impI ballI)
    show "arena_wf st'" using g by (simp add: grows_def)
    show "hz12_span_init_once ?st" using g inv by (simp add: grows_def span_inv_def store_tls_def)
    show "table_ok cfg st'" using grows_facts(2) [OF g] inv by (simp add: span_inv_def)
    show "\<exists>d < class_total cfg. slot_ok cfg st' d p" if "p \<in> ?L" for p by (rule L [OF that])
    show "\<exists>ys. class_inv cfg ?st ys ?L d" if "d < class_total cfg" for d
      using same [OF that] this_class by blast
  qed
qed

section \<open>What the entry points rely on\<close>

text \<open>The system allocator is there, and what it returns lies outside the arena: both are mappings of one
  process.\<close>

definition sys_outside :: "'a h12_cache_state_scheme \<Rightarrow> bool" where
  "sys_outside st \<longleftrightarrow> h12_dlsym st Sym_malloc \<and> (hz12_resolved st \<longrightarrow> hz12_real st Sym_malloc) \<and>
     (\<forall>a \<in> set (h12_sys_answers st). \<not> hz12_arena_contains a st)"

lemma sys_malloc_outside:
  assumes "sys_outside st" "hz12_sys_malloc False n st = (p, st')"
  shows "sys_outside st'" "\<not> hz12_arena_contains p st \<or> p = 0" "h12_thread st' = h12_thread st" "same_span st st'"
proof -
  show same: "same_span st st'" using sys_malloc_same_span [OF assms(2)] .
  have real: "hz12_real (hz12_resolver_ensure False st) Sym_malloc"
    using assms(1) by (simp add: sys_outside_def hz12_resolver_ensure_def)
  then have r: "sys_answer (Sys_malloc n) (hz12_resolver_ensure False st) = (p, st')"
    using assms(2) by (simp add: hz12_sys_malloc_def Let_def)
  have ans: "h12_sys_answers (hz12_resolver_ensure False st) = h12_sys_answers st"
    by (simp add: hz12_resolver_ensure_def)
  show "h12_thread st' = h12_thread st"
    using r by (auto simp: sys_answer_def hz12_resolver_ensure_def Let_def)
  show "\<not> hz12_arena_contains p st \<or> p = 0"
    using r ans assms(1) by (auto simp: sys_answer_def sys_outside_def Let_def split: list.splits)
  have "hz12_real st' Sym_malloc" "h12_dlsym st' Sym_malloc"
    using r real assms(1) by (auto simp: sys_answer_def sys_outside_def hz12_resolver_ensure_def Let_def)
  moreover have "set (h12_sys_answers st') \<subseteq> set (h12_sys_answers st)"
    using r ans by (auto simp: sys_answer_def Let_def dest: list.set_sel(2)) (metis list.sel(2) list.set_sel(2))
  ultimately show "sys_outside st'"
    using assms(1) same_span_facts(2) [OF same] by (auto simp: sys_outside_def)
qed

lemma held_cong: "(\<And>t. tc_of st' t = tc_of st t) \<Longrightarrow> held cfg st' xs c = held cfg st xs c"
proof (rule ext)
  fix k assume "\<And>t. tc_of st' t = tc_of st t"
  then show "held cfg st' xs c k = held cfg st xs c k" by (cases k) simp_all
qed

lemma span_inv_cong:
  assumes "same_span st st'" "\<And>t. tc_of st' t = tc_of st t"
  shows "span_inv cfg L st' = span_inv cfg L st"
proof -
  have "class_inv cfg st' xs L c = class_inv cfg st xs L c" for xs c
    unfolding class_inv_def held_cong [OF assms(2)] assms(2) same_span_facts(4) [OF assms(1)]
    using assms(1) by (simp add: same_span_def slot_ok_def cur_ok_def span_at_def)
  moreover have "table_ok cfg st' = table_ok cfg st" "slot_ok cfg st' c p = slot_ok cfg st c p" for c p
    using assms(1) by (simp_all add: same_span_def table_ok_def slot_ok_def span_at_def)
  ultimately show ?thesis
    unfolding span_inv_def same_span_facts(3) [OF assms(1)] using assms(1) by (simp add: same_span_def)
qed

lemma same_span_slot: "same_span st st' \<Longrightarrow> slot_ok cfg st' d q = slot_ok cfg st d q" "same_span st st' \<Longrightarrow> h12_mem st' = h12_mem st"
  by (simp_all add: same_span_def slot_ok_def span_at_def)

lemma same_thread_tc: "h12_thread st' = h12_thread st \<Longrightarrow> tc_of st' t = tc_of st t"
  by (simp add: tc_of_def)

lemma get_cache:
  assumes lane: "c12_classify_span cfg" and inv: "span_inv cfg L st" and res: "\<not> resolving_of t st"
    and out: "sys_outside st" and run: "hz12_thread_cache_get cfg t st = (tco, st1)"
  shows "span_inv cfg L st1" "tco = Some tc \<Longrightarrow> hz12_tls (h12_thread st1 t) = Some tc" "same_span st st1"
    "sys_outside st1" "\<And>u. resolving_of u st1 = resolving_of u st" "\<And>u. tc_of st1 u = tc_of st u"
proof -
  have "span_inv cfg L st1 \<and> (tco = Some tc \<longrightarrow> hz12_tls (h12_thread st1 t) = Some tc) \<and> same_span st st1 \<and> sys_outside st1 \<and>
    (\<forall>u. resolving_of u st1 = resolving_of u st) \<and> (\<forall>u. tc_of st1 u = tc_of st u)"
  proof (cases "hz12_tls (h12_thread st t)")
    case (Some tc0)
    then show ?thesis using run inv out by (auto simp: hz12_thread_cache_get_def)
  next
    case None
    obtain raw st2 where m: "hz12_sys_malloc False (c12_thread_cache_bytes cfg) st = (raw, st2)" by force
    note M = sys_malloc_outside [OF out m]
    have once: "hz12_span_init st2 = st2"
      using inv M(4) by (simp add: span_inv_def same_span_def hz12_span_init_def)
    have r: "(tco, st1) = (if raw = 0 then (None, st2) else (Some empty_thread_cache, store_tls t empty_thread_cache st2))"
      using run None m res lane once by (auto simp: hz12_thread_cache_get_def hz12_thread_cache_init_slow_def)
    have same: "same_span st st1"
      using r M(4) by (auto simp: same_span_def store_tls_def split: if_splits)
    have tc: "tc_of st1 u = tc_of st u" for u
      using r None M(3) by (auto simp: store_tls_def tc_of_def split: if_splits)
    have "sys_outside st1"
      using r M(1) by (auto simp: sys_outside_def store_tls_def hz12_arena_contains_def split: if_splits)
    moreover have "resolving_of u st1 = resolving_of u st" for u
      using r M(3) by (auto simp: store_tls_def split: if_splits)
    moreover have "tco = Some tc \<longrightarrow> hz12_tls (h12_thread st1 t) = Some tc"
      using r by (auto simp: store_tls_def split: if_splits)
    ultimately show ?thesis using span_inv_cong [OF same tc] inv same tc by blast
  qed
  then show "span_inv cfg L st1" "tco = Some tc \<Longrightarrow> hz12_tls (h12_thread st1 t) = Some tc" "same_span st st1"
    "sys_outside st1" "\<And>u. resolving_of u st1 = resolving_of u st" "\<And>u. tc_of st1 u = tc_of st u" by blast+
qed

lemma size_class_inv:
  assumes "span_inv cfg L st" "hz12_size_class cfg sz st = (cl, st')"
  shows "span_inv cfg L st'" "h12_thread st' = h12_thread st" "sys_outside st \<Longrightarrow> sys_outside st'"
    "hz12_arena_contains p st' = hz12_arena_contains p st" "h12_mem st' = h12_mem st" "slot_ok cfg st' d q = slot_ok cfg st d q"
    "cl = HZ12_LARGE_CLASS \<or> (\<exists>c < class_total cfg. cl = of_nat c \<and> unat sz \<le> slot_bytes cfg c)"
proof -
  have "st' = st \<or> st' = hz12_size_class_init cfg st"
    using assms(2) by (auto simp: hz12_size_class_def Let_def split: if_splits)
  then obtain tb rd where st': "st' = st\<lparr>hz12_size_table := tb, hz12_size_table_ready := rd\<rparr>"
  proof
    assume "st' = st" then show ?thesis using that [where tb = "hz12_size_table st" and rd = "hz12_size_table_ready st"] by simp
  next
    assume "st' = hz12_size_class_init cfg st"
    then show ?thesis using that [where tb = "hz12_size_table st'" and rd = "hz12_size_table_ready st'"]
      by (auto simp: hz12_size_class_init_def)
  qed
  have tok: "table_ok cfg st" using assms(1) by (simp add: span_inv_def)
  note S = class_of_size [OF tok assms(2)]
  have tc: "tc_of st' u = tc_of st u" for u by (simp add: st' tc_of_def)
  have "class_inv cfg st' xs L c = class_inv cfg st xs L c" for xs c
    unfolding class_inv_def held_cong [OF tc] tc by (simp add: st' sink_list_def slot_ok_def cur_ok_def span_at_def)
  then show "span_inv cfg L st'"
    using assms(1) S(1) unfolding span_inv_def by (simp add: st' arena_wf_def slot_ok_def span_at_def)
  show "h12_thread st' = h12_thread st" "sys_outside st \<Longrightarrow> sys_outside st'"
    "hz12_arena_contains p st' = hz12_arena_contains p st" "h12_mem st' = h12_mem st" "slot_ok cfg st' d q = slot_ok cfg st d q"
    by (simp_all add: st' sys_outside_def hz12_arena_contains_def slot_ok_def span_at_def)
  show "cl = HZ12_LARGE_CLASS \<or> (\<exists>c < class_total cfg. cl = of_nat c \<and> unat sz \<le> slot_bytes cfg c)"
  proof (cases "unat sz \<le> 65536")
    case True
    then have "cl < HZ12_CLASS_COUNT cfg" "unat sz \<le> slot_bytes cfg (unat cl)" using S(3) by auto
    then show ?thesis by (intro disjI2 exI [of _ "unat cl"]) (simp add: class_total_def word_less_nat_alt)
  qed (use S(2) in simp)
qed

lemma large_not_class: "c < class_total cfg \<Longrightarrow> (of_nat c :: u8) \<noteq> HZ12_LARGE_CLASS"
proof
  assume c: "c < class_total cfg" "(of_nat c :: u8) = HZ12_LARGE_CLASS"
  then have "c = unat (255 :: u8)" using class_nat by metis
  then show False using c(1) class_count_cases(2) [of cfg] by (simp add: class_total_def)
qed

lemma store_tls_facts [simp]:
  "hz12_arena_contains p (store_tls t tc st) = hz12_arena_contains p st"
  "sys_outside (store_tls t tc st) = sys_outside st"
  "resolving_of u (store_tls t tc st) = resolving_of u st"
  "slot_ok cfg (store_tls t tc st) c p = slot_ok cfg st c p"
  "hz12_span_classify p (store_tls t tc st) = hz12_span_classify p st"
  "h12_mem (store_tls t tc st) = h12_mem st"
  by (simp_all add: store_tls_def hz12_arena_contains_def sys_outside_def slot_ok_def span_at_def
    hz12_span_classify_def Let_def)

lemma more_outside:
  "h12_span_state.more st' = h12_span_state.more st \<Longrightarrow> hz12_arena_base st' = hz12_arena_base st \<Longrightarrow>
   sys_outside (st' :: 'a h12_cache_state_scheme) = sys_outside st"
  by (cases st; cases st') (simp add: sys_outside_def hz12_arena_contains_def)

section \<open>The memory of held objects\<close>

lemma slot_cell_in_span:
  assumes wf: "arena_wf st" and i: "i < 65536" and s: "16 \<le> s"
    and p: "p \<in> span_slots s (span_at st i)" and a: "unat (a - p) < s"
  shows "in_span (span_at st i) a" "unat (p - span_at st i) = unat (a - span_at st i) div s * s"
proof -
  obtain k where k: "k < 65536 div s" "unat (p - span_at st i) = k * s" using p by (auto simp: span_slots_def)
  have le: "k * s + s \<le> 65536" by (rule slot_offset_small [OF s k(1)])
  have "unat (a - span_at st i) = unat ((p - span_at st i) + (a - p))" by simp
  also have "\<dots> = k * s + unat (a - p)" by (subst unat_add_no_wrap) (use k le a in simp_all)
  finally have o: "unat (a - span_at st i) = k * s + unat (a - p)" .
  have b: "unat (hz12_arena_base st) + 4295032832 < 18446744073709551616" using wf by (simp add: arena_wf_def)
  have "unat (span_at st i) = unat (hz12_arena_base st) + i * 65536"
    unfolding span_at_def by (rule arena_nat(1) [OF b]) (use i in simp)
  then have "unat (span_at st i) + 65536 < 18446744073709551616" using b i by simp
  then show "in_span (span_at st i) a" using in_span_iff o le a by simp
  have "(k * s + unat (a - p)) div s = k" by (rule div_nat_eqI) (use a in simp_all)
  then show "unat (p - span_at st i) = unat (a - span_at st i) div s * s" using k o by simp
qed

text \<open>Two slots that share a byte are the same slot.\<close>

lemma slots_disjoint:
  assumes wf: "arena_wf st" and c: "c < class_total cfg" "d < class_total cfg"
    and s: "slot_ok cfg st c p" "slot_ok cfg st d q"
    and a: "unat (a - p) < slot_bytes cfg c" "unat (a - q) < slot_bytes cfg d"
  shows "p = q \<and> c = d"
proof -
  obtain i where i: "i < 65536" "hz12_span_class st i = of_nat c + 1" "p \<in> span_slots (slot_bytes cfg c) (span_at st i)"
    using s(1) by (auto simp: slot_ok_def)
  obtain j where j: "j < 65536" "hz12_span_class st j = of_nat d + 1" "q \<in> span_slots (slot_bytes cfg d) (span_at st j)"
    using s(2) by (auto simp: slot_ok_def)
  note P = slot_cell_in_span [OF wf i(1) slot_table(2) [OF c(1)] i(3) a(1)]
  note Q = slot_cell_in_span [OF wf j(1) slot_table(2) [OF c(2)] j(3) a(2)]
  have ij: "i = j" using P(1) Q(1) in_span_at [OF wf] i(1) j(1) by auto
  then have "(of_nat c :: u8) = of_nat d" using i(2) j(2) by simp
  then have cd: "c = d" using class_nat [OF c(1)] class_nat [OF c(2)] by metis
  then have "unat (p - span_at st i) = unat (q - span_at st i)" using P(2) Q(2) ij by simp
  then have "p - span_at st i = q - span_at st i" by (rule unsigned_word_eqI)
  then show ?thesis using cd by simp
qed

text \<open>The words the user may write: those of the objects it holds, and all outside the arena.\<close>

definition user_cell :: "hz12_config \<Rightarrow> addr set \<Rightarrow> 'a h12_span_state_scheme \<Rightarrow> addr \<Rightarrow> bool" where
  "user_cell cfg L st a \<longleftrightarrow> \<not> hz12_arena_contains a st \<or> (\<exists>q\<in>L. \<exists>d < class_total cfg. slot_ok cfg st d q \<and> unat (a - q) < slot_bytes cfg d)"

lemma class_step_live:
  assumes inv: "span_inv cfg L st" and c: "c < class_total cfg" and cl: "class_inv cfg st xs L c"
    and step: "class_step cfg c (tc_of st t) xs st inc out tc' xs' st'" and a: "user_cell cfg (L - set inc) st a"
  shows "h12_mem st' a = h12_mem st a"
proof -
  have wf: "arena_wf st" using inv by (simp add: span_inv_def)
  note ok = class_inv_local(1) [OF cl wf, of t] and notL = class_inv_local(2) [OF cl wf, of _ t]
  have g: "grows cfg st st'" using step by (simp add: class_step_def)
  have slot: "slot_ok cfg st' c r" if "r \<in> set (local_list cfg c (tc_of st t) xs) \<union> set inc" for r
    using that ok c g step by (auto simp: local_ok_def grows_def class_step_def)
  have wf': "arena_wf st'" using g by (simp add: grows_def)
  have "a \<notin> set (local_list cfg c (tc_of st t) xs) \<union> set inc"
  proof
    assume m: "a \<in> set (local_list cfg c (tc_of st t) xs) \<union> set inc"
    have "hz12_arena_contains a st" using slot_ok_facts(2) [OF wf' c slot [OF m]] grows_facts(1) [OF g] by simp
    then obtain q d where q: "q \<in> L - set inc" "d < class_total cfg" "slot_ok cfg st d q" "unat (a - q) < slot_bytes cfg d"
      using a by (auto simp: user_cell_def)
    have "unat (a - a) < slot_bytes cfg c" using slot_table(2) [OF c] by simp
    moreover have "slot_ok cfg st' d q" using q g by (simp add: grows_def)
    ultimately have "a = q" using slots_disjoint [OF wf' c q(2) slot [OF m]] q(4) by blast
    then show False using m notL q(1) by blast
  qed
  then show ?thesis using step by (simp add: class_step_def)
qed

text \<open>A step of the thread's own lists that hands out \<open>p\<close>.\<close>

lemma hand_out:
  assumes inv: "span_inv cfg L st" and c: "c < class_total cfg" and cl: "class_inv cfg st xs L c"
    and step: "class_step cfg c (tc_of st t) xs st inc [p] tc' xs' st'" and fresh: "fresh_for cfg st inc"
    and more: "h12_span_state.more st' = h12_span_state.more st" and out: "sys_outside st"
  shows "span_inv cfg (insert p L) (store_tls t tc' st') \<and> p \<notin> L \<and> slot_ok cfg st' c p \<and> hz12_arena_contains p st' \<and>
    p \<noteq> 0 \<and> sys_outside (store_tls t tc' st') \<and> (\<forall>u. resolving_of u (store_tls t tc' st') = resolving_of u st) \<and>
    (\<forall>a. user_cell cfg L st a \<longrightarrow> h12_mem st' a = h12_mem st a) \<and>
    (\<forall>d q. d < class_total cfg \<longrightarrow> slot_ok cfg st d q \<longrightarrow> slot_ok cfg st' d q) \<and>
    (\<forall>a. hz12_arena_contains a st' = hz12_arena_contains a st)"
proof -
  have wf: "arena_wf st" using inv by (simp add: span_inv_def)
  note ok = class_inv_local(1) [OF cl wf, of t] and notL = class_inv_local(2) [OF cl wf, of _ t]
  have th: "h12_thread st' = h12_thread st" by (rule more_thread [OF more])
  have incL: "set inc \<inter> L = {}" using inv fresh by (auto simp: span_inv_def fresh_for_def)
  have S: "span_inv cfg ((L - set inc) \<union> set [p]) (store_tls t tc' st')"
    by (rule step_inv [OF inv c cl step th]) (use fresh in \<open>auto simp: fresh_for_def\<close>)
  moreover have "(L - set inc) \<union> set [p] = insert p L" using incL by auto
  ultimately have S': "span_inv cfg (insert p L) (store_tls t tc' st')" by simp
  have M: "mset (local_list cfg c tc' xs' @ [p]) = mset (local_list cfg c (tc_of st t) xs @ inc)"
    using step by (simp add: class_step_def)
  have p: "p \<in> set (local_list cfg c (tc_of st t) xs) \<union> set inc"
    using mset_eq_setD [OF M] by auto
  have "p \<notin> L" using p notL incL by auto
  moreover have sl: "slot_ok cfg st' c p"
    using p ok c step by (auto simp: local_ok_def grows_def class_step_def)
  moreover have wf': "arena_wf st'" using step by (simp add: class_step_def grows_def)
  moreover have "sys_outside st'"
    using more_outside [OF more] out step by (simp add: class_step_def grows_def)
  moreover have "h12_mem st' a = h12_mem st a" if "user_cell cfg L st a" for a
  proof -
    have "L - set inc = L" using incL by auto
    then show ?thesis using class_step_live [OF inv c cl step] that by simp
  qed
  moreover have "slot_ok cfg st' d q" if "d < class_total cfg" "slot_ok cfg st d q" for d q
    using step that by (simp add: class_step_def grows_def)
  moreover have "hz12_arena_contains a st' = hz12_arena_contains a st" for a
    using step grows_facts(1) by (auto simp: class_step_def)
  ultimately show ?thesis using S' slot_ok_facts(2,3) [OF wf' c sl] th by simp
qed

section \<open>malloc\<close>

text \<open>What a returned pointer is worth: an arena object the user did not hold, of a class that has room for
  the request, or a pointer of the system.\<close>

definition malloc_post :: "hz12_config \<Rightarrow> addr set \<Rightarrow> u64 \<Rightarrow> 'a h12_cache_state_scheme \<Rightarrow> addr \<Rightarrow>
    'a h12_cache_state_scheme \<Rightarrow> bool" where
  "malloc_post cfg L sz st p st' \<longleftrightarrow> sys_outside st' \<and> (\<forall>u. resolving_of u st' = resolving_of u st) \<and>
     (\<forall>a. hz12_arena_contains a st' = hz12_arena_contains a st) \<and>
     (\<forall>a. user_cell cfg L st a \<longrightarrow> h12_mem st' a = h12_mem st a) \<and>
     (\<forall>d q. d < class_total cfg \<longrightarrow> slot_ok cfg st d q \<longrightarrow> slot_ok cfg st' d q) \<and>
     (if p \<noteq> 0 \<and> hz12_arena_contains p st'
      then p \<notin> L \<and> span_inv cfg (insert p L) st' \<and> (\<exists>c < class_total cfg. slot_ok cfg st' c p \<and> unat sz \<le> slot_bytes cfg c)
      else span_inv cfg L st')"

lemma sys_malloc_post:
  assumes "sys_outside st1" "hz12_sys_malloc False n st1 = (p, st')" "span_inv cfg L st1"
    "\<And>u. resolving_of u st1 = resolving_of u st" "\<And>a. hz12_arena_contains a st1 = hz12_arena_contains a st"
    "h12_mem st1 = h12_mem st" "\<And>d q. slot_ok cfg st1 d q = slot_ok cfg st d q"
  shows "malloc_post cfg L sz st p st'"
proof -
  note M = sys_malloc_outside [OF assms(1,2)]
  have "slot_ok cfg st' d q = slot_ok cfg st d q" for d q
    using same_span_slot(1) [OF M(4)] assms(7) by simp
  moreover have "h12_mem st' = h12_mem st" using M(4) assms(6) by (simp add: same_span_def)
  moreover
  have "span_inv cfg L st'"
    using span_inv_cong [OF M(4), of cfg L] same_thread_tc [OF M(3)] assms(3) by blast
  ultimately show ?thesis using M same_span_facts(2) [OF M(4)] assms(4,5) by (auto simp: malloc_post_def)
qed

lemma refill_post:
  assumes lane: "c12_classify_span cfg" and inv: "span_inv cfg L st" and out: "sys_outside st"
    and c: "c < class_total cfg" "unat sz \<le> slot_bytes cfg c" and tls: "hz12_tls (h12_thread st t) = Some tc"
    and run: "hz12_thread_cache_refill cfg False (of_nat c) tc st = (p, tc', st')"
  shows "malloc_post cfg L sz st p (store_tls t tc' st')"
proof -
  obtain xs where cl: "class_inv cfg st xs L c" using inv c(1) by (auto simp: span_inv_def)
  have wf: "arena_wf st" and once: "hz12_span_init_once st" using inv by (simp_all add: span_inv_def)
  have tc: "tc_of st t = tc" using tls by (simp add: tc_of_def)
  have ok: "local_ok cfg c tc xs st" using class_inv_local(1) [OF cl wf, of t] tc by simp
  from refill_step [OF lane c(1) ok once run] show ?thesis
  proof (elim disjE exE conjE)
    fix tc1 xs1 st1
    assume m: "moves cfg c tc xs st [] [] tc1 xs1 st1" and same: "same_lists tc1 tc'"
      and sys: "hz12_sys_malloc False (hz12_class_slot_size cfg (of_nat c)) st1 = (p, st')"
    have "moves cfg c tc xs st [] [] tc' xs1 st1" using m by (simp add: same_lists_local(3) [OF same])
    note S = moves_out_step [OF this]
    have th: "h12_thread st1 = h12_thread st" by (rule more_thread [OF S(2)])
    have "span_inv cfg ((L - set []) \<union> set []) (store_tls t tc' st1)"
      by (rule step_inv [OF inv c(1) cl _ th]) (use S(1) tc in simp_all)
    then have inv1: "span_inv cfg L (store_tls t tc' st1)" by simp
    have out1: "sys_outside st1" using more_outside [OF S(2)] out S(1) by (simp add: class_step_def grows_def)
    note M = sys_malloc_outside [OF out1 sys]
    have same1: "same_span (store_tls t tc' st1) (store_tls t tc' st')"
      using M(4) by (simp add: same_span_def store_tls_def)
    have tcs: "tc_of (store_tls t tc' st') u = tc_of (store_tls t tc' st1) u" for u
      using M(3) by (simp add: tc_of_def store_tls_def)
    have "span_inv cfg L (store_tls t tc' st')" using span_inv_cong [OF same1 tcs] inv1 by blast
    moreover have "h12_mem st' a = h12_mem st a" if "user_cell cfg L st a" for a
      using class_step_live [OF inv c(1) cl, of t "[]" "[]" tc' xs1 st1 a] S(1) tc that M(4) by (simp add: same_span_def)
    moreover have "slot_ok cfg st' d q" if "d < class_total cfg" "slot_ok cfg st d q" for d q
      using S(1) that same_span_slot(1) [OF M(4)] by (simp add: class_step_def grows_def)
    moreover have "hz12_arena_contains a st1 = hz12_arena_contains a st" for a
      using S(1) grows_facts(1) by (auto simp: class_step_def)
    ultimately show ?thesis using M same_span_facts(2) [OF M(4)] th by (auto simp: malloc_post_def)
  next
    fix inc xs'
    assume a: "p \<noteq> 0" "h12_span_state.more st' = h12_span_state.more st" "fresh_for cfg st inc"
      "class_step cfg c tc xs st inc [p] tc' xs' st'"
    from hand_out [OF inv c(1) cl _ a(3,2) out, where t = t and tc' = tc' and xs' = xs' and p = p] a(4) tc
    show ?thesis using c by (auto simp: malloc_post_def)
  qed
qed

lemma malloc_fast_post:
  assumes lane: "c12_classify_span cfg" and inv: "span_inv cfg L st" and out: "sys_outside st"
    and res: "\<not> resolving_of t st" and tls: "hz12_tls (h12_thread st t) = Some tc"
    and run: "hz12_malloc_fast_with_tc cfg t tc sz st = (p, st')"
  shows "malloc_post cfg L sz st p st'"
proof -
  obtain cl st1 where sc: "hz12_size_class cfg sz st = (cl, st1)" by force
  note C = size_class_inv [OF inv sc]
  have res1: "\<not> resolving_of t st1" "\<And>u. resolving_of u st1 = resolving_of u st" using res C(2) by simp_all
  have tls1: "hz12_tls (h12_thread st1 t) = Some tc" using tls C(2) by simp
  have tc: "tc_of st1 t = tc" using tls1 by (simp add: tc_of_def)
  have rebase: "malloc_post cfg L sz st1 p st' \<Longrightarrow> ?thesis" using res1(2) C(4-6) by (simp add: malloc_post_def user_cell_def)
  show ?thesis
  proof (cases "cl = HZ12_LARGE_CLASS")
    case True
    obtain q st2 where m: "hz12_sys_malloc False sz st1 = (q, st2)" by force
    have r: "p = q" "st' = (if q \<noteq> 0 then store_tls t tc st2 else st2)"
      using run sc True lane res1(1) m by (auto simp: hz12_malloc_fast_with_tc_def Let_def)
    have P: "malloc_post cfg L sz st q st2" by (rule sys_malloc_post [OF C(3) [OF out] m C(1) res1(2) C(4-6)])
    have th: "h12_thread st2 = h12_thread st1" using sys_malloc_outside(3) [OF C(3) [OF out] m] .
    have "store_tls t tc st2 = st2"
    proof -
      have "(h12_thread st2)(t := (h12_thread st2 t)\<lparr>hz12_tls := Some tc\<rparr>) = h12_thread st2"
        using th tls1 by (intro ext) simp
      then show ?thesis by (simp add: store_tls_def)
    qed
    then have "st' = st2" using r(2) by simp
    then show ?thesis using P r(1) by simp
  next
    case False
    then obtain c where c: "c < class_total cfg" "cl = of_nat c" "unat sz \<le> slot_bytes cfg c" using C(7) by blast
    obtain q tc1 where pop: "hz12_thread_cache_pop cfg (of_nat c) tc = (q, tc1)" by force
    obtain xs where cli: "class_inv cfg st1 xs L c" using C(1) c(1) by (auto simp: span_inv_def)
    have wf: "arena_wf st1" using C(1) by (simp add: span_inv_def)
    have ok: "local_ok cfg c tc xs st1" using class_inv_local(1) [OF cli wf, of t] tc by simp
    note P = pop_moves [OF c(1) ok pop]
    show ?thesis
    proof (cases "q = 0")
      case True
      then have tc1: "tc1 = tc" using P by simp
      obtain p2 tc2 st2 where rf: "hz12_thread_cache_refill cfg False (of_nat c) tc st1 = (p2, tc2, st2)" by (metis prod_cases3)
      have r: "p = p2" "st' = store_tls t tc2 st2"
        using run sc False lane res1(1) pop True tc1 rf c(2) by (auto simp: hz12_malloc_fast_with_tc_def Let_def)
      show ?thesis
        using refill_post [OF lane C(1) C(3) [OF out] c(1,3) tls1 rf] r rebase by simp
    next
      case q: False
      then have m: "moves cfg c tc xs st1 [] [q] tc1 xs st1" using P by simp
      note S = moves_out_step [OF m]
      have "fresh_for cfg st1 []" by (simp add: fresh_for_def)
      from hand_out [OF C(1) c(1) cli _ this S(2) C(3) [OF out], where t = t and tc' = tc1 and xs' = xs and p = q] S(1) tc
      have H: "span_inv cfg (insert q L) (store_tls t tc1 st1) \<and> q \<notin> L \<and> slot_ok cfg st1 c q \<and> hz12_arena_contains q st1 \<and>
        sys_outside (store_tls t tc1 st1) \<and> (\<forall>a. user_cell cfg L st1 a \<longrightarrow> h12_mem st1 a = h12_mem st1 a)" by simp
      have "p = q" "st' = store_tls t tc1 st1"
        using run sc False lane pop q c(2) by (auto simp: hz12_malloc_fast_with_tc_def Let_def)
      then have "malloc_post cfg L sz st1 p st'" using H q c by (auto simp: malloc_post_def)
      then show ?thesis by (rule rebase)
    qed
  qed
qed

lemma hz12_malloc_post:
  assumes "c12_classify_span cfg" "span_inv cfg L st" "sys_outside st" "\<not> resolving_of t st"
    "hz12_malloc cfg t sz st = (p, st')"
  shows "malloc_post cfg L sz st p st'"
proof -
  obtain tco st1 where g: "hz12_thread_cache_get cfg t st = (tco, st1)" by force
  note G = get_cache [OF assms(1,2,4,3) g]
  show ?thesis
  proof (cases tco)
    case None
    then have "hz12_sys_malloc False sz st1 = (p, st')"
      using assms(4,5) g by (simp add: hz12_malloc_def skips_cache_def)
    then show ?thesis by (rule sys_malloc_post [OF G(4) _ G(1,5) same_span_facts(2) [OF G(3)] same_span_slot(2,1) [OF G(3)]])
  next
    case (Some tc)
    then have run: "hz12_malloc_fast_with_tc cfg t tc sz st1 = (p, st')"
      using assms(4,5) g by (simp add: hz12_malloc_def skips_cache_def)
    have res1: "\<not> resolving_of t st1" using assms(4) G(5) by simp
    have "malloc_post cfg L sz st1 p st'" by (rule malloc_fast_post [OF assms(1) G(1,4) res1 G(2) [OF Some] run])
    then show ?thesis using G(5) same_span_slot [OF G(3)] same_span_facts(2) [OF G(3)] by (simp add: malloc_post_def user_cell_def)
  qed
qed

text \<open>C23: in the span lane of every build, \<open>hz12_malloc\<close> on any thread keeps the invariant, and what it
  returns is a slot of the arena that no one holds, big enough for the request, which the user now
  holds, or a pointer from outside the arena.\<close>

theorem hz12_malloc_correct:
  assumes "c12_classify_span cfg" "span_inv cfg L st" "sys_outside st" "\<not> resolving_of t st"
    "hz12_malloc cfg t sz st = (p, st')"
  shows "sys_outside st' \<and>
    (if p \<noteq> 0 \<and> hz12_arena_contains p st'
     then p \<notin> L \<and> span_inv cfg (insert p L) st' \<and>
       (\<exists>c < class_total cfg. slot_ok cfg st' c p \<and> unat sz \<le> slot_bytes cfg c)
     else span_inv cfg L st')"
  using hz12_malloc_post [OF assms] by (simp add: malloc_post_def)

section \<open>free\<close>

lemma span_inv_mono:
  assumes "span_inv cfg L st" "L' \<subseteq> L"
  shows "span_inv cfg L' st"
proof -
  have "class_inv cfg st xs L c \<Longrightarrow> class_inv cfg st xs L' c" for xs c
    using assms(2) by (auto simp: class_inv_def)
  then show ?thesis using assms unfolding span_inv_def by (meson subsetD)
qed

definition free_post :: "hz12_config \<Rightarrow> addr set \<Rightarrow> 'a h12_cache_state_scheme \<Rightarrow> 'a h12_cache_state_scheme \<Rightarrow> bool" where
  "free_post cfg L st st' \<longleftrightarrow> span_inv cfg L st' \<and> sys_outside st' \<and> (\<forall>u. resolving_of u st' = resolving_of u st) \<and>
     (\<forall>a. user_cell cfg L st a \<longrightarrow> h12_mem st' a = h12_mem st a) \<and>
     (\<forall>d q. d < class_total cfg \<longrightarrow> slot_ok cfg st d q \<longrightarrow> slot_ok cfg st' d q)"

lemma sys_free_outside:
  assumes "sys_outside st" "st' = hz12_sys_free r p st"
  shows "sys_outside st'" "h12_thread st' = h12_thread st" "same_span st st'"
proof -
  show s: "same_span st st'" using assms(2) by simp
  show "h12_thread st' = h12_thread st"
    using assms(2) by (simp add: hz12_sys_free_def hz12_resolver_ensure_def Let_def)
  have "h12_sys_answers st' = h12_sys_answers st" "h12_dlsym st' = h12_dlsym st"
    "hz12_resolved st' \<longrightarrow> hz12_real st' Sym_malloc"
    using assms by (auto simp: sys_outside_def hz12_sys_free_def hz12_resolver_ensure_def Let_def)
  then show "sys_outside st'" using assms(1) same_span_facts(2) [OF s] by (simp add: sys_outside_def)
qed

lemma free_foreign_post:
  assumes "span_inv cfg L st" "sys_outside st" "st' = hz12_free_foreign_or_fail_closed cfg r p st"
  shows "free_post cfg L st st'"
proof -
  have "st' = st \<or> st' = hz12_sys_free r p st"
    using assms(3) by (auto simp: hz12_free_foreign_or_fail_closed_def)
  then show ?thesis
  proof
    assume "st' = hz12_sys_free r p st"
    note F = sys_free_outside [OF assms(2) this]
    show ?thesis using F span_inv_cong [OF F(3) same_thread_tc [OF F(2)]] assms(1) same_span_slot [OF F(3)]
      by (simp add: free_post_def)
  qed (use assms in \<open>simp add: free_post_def\<close>)
qed

lemma free_fast_post:
  assumes lane: "c12_classify_span cfg" and inv: "span_inv cfg L st" and out: "sys_outside st"
    and res: "\<not> resolving_of t st" and tls: "hz12_tls (h12_thread st t) = Some tc" and p: "p \<in> L"
    and run: "st' = hz12_free_fast_with_tc cfg t tc p st"
  shows "free_post cfg (L - {p}) st st'"
proof -
  obtain c where c: "c < class_total cfg" "slot_ok cfg st c p" using inv p by (auto simp: span_inv_def)
  have wf: "arena_wf st" using inv by (simp add: span_inv_def)
  have tc: "tc_of st t = tc" using tls by (simp add: tc_of_def)
  have cls: "hz12_span_classify p st = Some (of_nat c)" by (rule slot_ok_facts(1) [OF wf c])
  obtain tc1 st1 where pu: "hz12_thread_cache_push cfg False (of_nat c) p tc st = (tc1, st1)" by force
  have st': "st' = store_tls t tc1 st1"
    using run lane res cls pu by (simp add: hz12_free_fast_with_tc_def Let_def)
  obtain xs where cl: "class_inv cfg st xs L c" using inv c(1) by (auto simp: span_inv_def)
  have ok: "local_ok cfg c tc xs st" using class_inv_local(1) [OF cl wf, of t] tc by simp
  have new: "p \<notin> set (local_list cfg c tc xs)" using class_inv_local(2) [OF cl wf, of p t] tc p by auto
  obtain xs' where m: "moves cfg c tc xs st [p] [] tc1 xs' st1"
    using push_moves [OF lane c(1) ok c(2) new pu] by blast
  have S: "class_step cfg c (tc_of st t) xs st [p] [] tc1 xs' st1" "h12_span_state.more st1 = h12_span_state.more st"
    using moves_class_step [OF m] c(2) tc by simp_all
  have th: "h12_thread st1 = h12_thread st" by (rule more_thread [OF S(2)])
  have "span_inv cfg ((L - set [p]) \<union> set []) (store_tls t tc1 st1)"
    by (rule step_inv [OF inv c(1) cl S(1) th]) (use p c in auto)
  moreover have "sys_outside st1" using more_outside [OF S(2)] out S(1) by (simp add: class_step_def grows_def)
  moreover have "h12_mem st1 a = h12_mem st a" if "user_cell cfg (L - {p}) st a" for a
    using class_step_live [OF inv c(1) cl S(1)] that by simp
  moreover have "slot_ok cfg st1 d q" if "d < class_total cfg" "slot_ok cfg st d q" for d q
    using S(1) that by (simp add: class_step_def grows_def)
  ultimately show ?thesis using th by (simp add: free_post_def st')
qed

lemma free_post_cache:
  assumes "free_post cfg L st1 st'" "same_span st st1" "\<And>u. resolving_of u st1 = resolving_of u st"
  shows "free_post cfg L st st'"
  using assms(1,3) same_span_slot [OF assms(2)] same_span_facts(2) [OF assms(2)]
  by (simp add: free_post_def user_cell_def)

lemma hz12_free_post:
  assumes lane: "c12_classify_span cfg" and inv: "span_inv cfg L st" and out: "sys_outside st"
    and res: "\<not> resolving_of t st" and p: "p \<in> L \<or> \<not> hz12_arena_contains p st"
  shows "free_post cfg (L - {p}) st (hz12_free cfg t p st)"
proof (cases "p = 0")
  case True
  have "span_inv cfg (L - {p}) st" by (rule span_inv_mono [OF inv]) auto
  then show ?thesis using True out by (simp add: hz12_free_def free_post_def)
next
  case False
  obtain tco st1 where g: "hz12_thread_cache_get cfg t st = (tco, st1)" by force
  note G = get_cache [OF lane inv res out g]
  have inv1: "span_inv cfg (L - {p}) st1" by (rule span_inv_mono [OF G(1)]) auto
  have "free_post cfg (L - {p}) st1 (hz12_free cfg t p st)"
  proof (cases tco)
    case None
    then show ?thesis
      using free_foreign_post [OF inv1 G(4) refl] False res g by (simp add: hz12_free_def skips_cache_def)
  next
    case (Some tc)
    then have run: "hz12_free cfg t p st = hz12_free_fast_with_tc cfg t tc p st1"
      using False res g by (simp add: hz12_free_def skips_cache_def)
    have res1: "\<not> resolving_of t st1" using res G(5) by simp
    show ?thesis
    proof (cases "p \<in> L")
      case True
      then show ?thesis using free_fast_post [OF lane G(1,4) res1 G(2) [OF Some] _ run] by blast
    next
      case notL: False
      have "hz12_span_classify p st1 = None"
        using p notL same_span_facts(2) [OF G(3), of p]
        by (auto simp: hz12_span_classify_def hz12_arena_contains_def Let_def)
      then have "hz12_free cfg t p st = hz12_free_foreign_or_fail_closed cfg (resolving_of t st1) p st1"
        using run lane by (simp add: hz12_free_fast_with_tc_def Let_def)
      then show ?thesis using free_foreign_post [OF inv1 G(4)] by simp
    qed
  qed
  then show ?thesis by (rule free_post_cache [OF _ G(3,5)])
qed

text \<open>C24: freeing an object the user holds, on any thread, keeps the invariant; the object is no longer
  held, every other held object keeps its slot and its content. A pointer from outside the arena
  changes nothing of this.\<close>

theorem hz12_free_correct:
  assumes "c12_classify_span cfg" "span_inv cfg L st" "sys_outside st" "\<not> resolving_of t st"
    "p \<in> L \<or> \<not> hz12_arena_contains p st"
  shows "span_inv cfg (L - {p}) (hz12_free cfg t p st) \<and> sys_outside (hz12_free cfg t p st) \<and>
    (\<forall>a. user_cell cfg (L - {p}) st a \<longrightarrow> h12_mem (hz12_free cfg t p st) a = h12_mem st a)"
  using hz12_free_post [OF assms] by (simp add: free_post_def)

section \<open>realloc\<close>

text \<open>What the user writes to its own memory does not disturb the allocator.\<close>

lemma user_write_inv:
  assumes inv: "span_inv cfg L st" and w: "\<And>a. \<not> user_cell cfg L st a \<Longrightarrow> m a = h12_mem st a"
  shows "span_inv cfg L (st\<lparr>h12_mem := m\<rparr>)"
proof -
  let ?st = "st\<lparr>h12_mem := m\<rparr>"
  have wf: "arena_wf st" using inv by (simp add: span_inv_def)
  have tc: "tc_of ?st t = tc_of st t" for t by (simp add: tc_of_def)
  have fields: "arena_wf ?st = arena_wf st" "slot_ok cfg ?st d p = slot_ok cfg st d p" "cur_ok cfg ?st d cs = cur_ok cfg st d cs"
    "table_ok cfg ?st = table_ok cfg st" for d p cs
    by (simp_all add: arena_wf_def slot_ok_def cur_ok_def span_at_def table_ok_def)
  have "class_inv cfg ?st xs L c" if I: "class_inv cfg st xs L c" and c: "c < class_total cfg" for xs c
  proof -
    have "m a = h12_mem st a" if "a \<in> set xs" for a
    proof (rule w)
      have a: "slot_ok cfg st c a" "a \<notin> L" using I that unfolding class_inv_def by (metis held.simps(1))+
      have "unat (a - a) < slot_bytes cfg c" using slot_table(2) [OF c] by simp
      then show "\<not> user_cell cfg L st a"
        using slots_disjoint [OF wf c _ a(1)] a(2) slot_ok_facts(2) [OF wf c a(1)] unfolding user_cell_def by metis
    qed
    then have "chain m (hz12_returned st c) xs \<longleftrightarrow> chain (h12_mem st) (hz12_returned st c) xs" by (rule chain_cong)
    then have "sink_list ?st (of_nat c) xs" using I class_nat [OF c] by (simp add: class_inv_def sink_list_def)
    then show ?thesis using I unfolding class_inv_def held_cong [OF tc] tc fields by blast
  qed
  then have "\<forall>c < class_total cfg. \<exists>xs. class_inv cfg ?st xs L c" using inv unfolding span_inv_def by blast
  then show ?thesis using inv unfolding span_inv_def fields by simp
qed

lemma held_slot_size:
  assumes "span_inv cfg L st" "p \<in> L"
  obtains c where "c < class_total cfg" "slot_ok cfg st c p" "hz12_span_classify p st = Some (of_nat c)"
    "hz12_class_slot_size cfg (of_nat c) = of_nat (slot_bytes cfg c)" "unat (hz12_class_slot_size cfg (of_nat c)) = slot_bytes cfg c"
proof -
  obtain c where c: "c < class_total cfg" "slot_ok cfg st c p" using assms by (auto simp: span_inv_def)
  have wf: "arena_wf st" using assms(1) by (simp add: span_inv_def)
  show ?thesis
    using that [OF c slot_ok_facts(1) [OF wf c] slot_word [OF c(1)]] slot_size_nat [of "of_nat c" cfg] class_nat [OF c(1)] by simp
qed

text \<open>C25: \<open>hz12_realloc\<close> of an arena object: where it fails, the object stays with the user; otherwise the
  new object has the old content, up to the smaller of the old slot and the new size, and the old one
  is no longer held. The bytes of a block of the system lie outside the arena.\<close>

theorem hz12_realloc_correct:
  assumes lane: "c12_classify_span cfg" and inv: "span_inv cfg L st" and out: "sys_outside st"
    and res: "\<not> resolving_of t st" and p: "p \<in> L" and sz: "sz \<noteq> 0"
    and run: "hz12_realloc cfg t p sz st = (np, st')"
    and block: "np \<noteq> 0 \<Longrightarrow> \<not> hz12_arena_contains np st \<Longrightarrow> (\<And>k. k < sz \<Longrightarrow> \<not> hz12_arena_contains (np + k) st)"
  shows "if np = 0 then span_inv cfg L st' \<and> (\<forall>a. user_cell cfg L st a \<longrightarrow> h12_mem st' a = h12_mem st a)
    else np \<notin> L \<and> span_inv cfg ((if hz12_arena_contains np st then insert np L else L) - {p}) st' \<and>
      (\<exists>c. hz12_span_classify p st = Some c \<and>
        (\<forall>k. k < sz \<longrightarrow> k < hz12_class_slot_size cfg c \<longrightarrow> h12_mem st' (np + k) = h12_mem st (p + k)))"
proof -
  obtain c where c: "c < class_total cfg" "slot_ok cfg st c p" "hz12_span_classify p st = Some (of_nat c)"
    "unat (hz12_class_slot_size cfg (of_nat c)) = slot_bytes cfg c" by (rule held_slot_size [OF inv p])
  have wf: "arena_wf st" using inv by (simp add: span_inv_def)
  have pin: "p \<noteq> 0" "hz12_arena_contains p st" using slot_ok_facts(2,3) [OF wf c(1,2)] by auto
  obtain q st1 where m: "hz12_malloc cfg t sz st = (q, st1)" by force
  have P: "malloc_post cfg L sz st q st1" by (rule hz12_malloc_post [OF lane inv out res m])
  show ?thesis
  proof (cases "q = 0")
    case True
    then have "np = 0" "st' = st1" using run pin sz res lane m by (auto simp: hz12_realloc_def)
    then show ?thesis using P True by (simp add: malloc_post_def)
  next
    case False
    note M = P [unfolded malloc_post_def]
    let ?L1 = "if hz12_arena_contains q st then insert q L else L"
    have con: "hz12_arena_contains a st1 = hz12_arena_contains a st" for a using M by blast
    have inv1: "span_inv cfg ?L1 st1" using M False con by (auto split: if_splits)
    have slot1: "slot_ok cfg st1 c p" using M c(1,2) by blast
    have cl1: "hz12_span_classify p st1 = Some (of_nat c)"
      using slot_ok_facts(1) [OF _ c(1) slot1] inv1 by (simp add: span_inv_def)
    let ?s = "hz12_class_slot_size cfg (of_nat c)"
    let ?n = "if ?s < sz then ?s else sz"
    let ?m = "copy_cells q p ?n (h12_mem st1)" and ?L2 = "?L1 - {p}"
    let ?st2 = "st1\<lparr>h12_mem := ?m\<rparr>"
    have np: "np = q" and st': "st' = hz12_free cfg t p ?st2"
      using run pin sz res lane m False cl1 by (auto simp: hz12_realloc_def Let_def cong del: if_weak_cong)
    have qL: "q \<notin> L"
      using M False con inv slot_ok_facts(2) [OF wf] by (cases "hz12_arena_contains q st") (auto simp: span_inv_def)
    have cell_q: "user_cell cfg ?L1 st1 (q + k)" if k: "k < ?n" for k
    proof (cases "hz12_arena_contains q st")
      case True
      obtain d where d: "d < class_total cfg" "slot_ok cfg st1 d q" "unat sz \<le> slot_bytes cfg d" using M True False con by auto
      have "k < sz" using k by (auto split: if_splits)
      then have "unat (q + k - q) < slot_bytes cfg d" using d(3) by (simp add: word_less_nat_alt)
      then show ?thesis using d True by (auto simp: user_cell_def)
    next
      case out_q: False
      have "k < sz" using k by (auto split: if_splits)
      then have "\<not> hz12_arena_contains (q + k) st" using block False out_q np by simp
      then show ?thesis using con by (simp add: user_cell_def)
    qed
    have inv2: "span_inv cfg ?L1 ?st2"
    proof (rule user_write_inv [OF inv1])
      fix a assume a: "\<not> user_cell cfg ?L1 st1 a"
      have "\<not> a - q < ?n" using cell_q [of "a - q"] a by auto
      then show "?m a = h12_mem st1 a" by (simp add: copy_cells_def)
    qed
    have same: "sys_outside ?st2 = sys_outside st1" "resolving_of u ?st2 = resolving_of u st1"
      "slot_ok cfg ?st2 d r = slot_ok cfg st1 d r" "hz12_arena_contains a ?st2 = hz12_arena_contains a st1"
      "user_cell cfg L' ?st2 a = user_cell cfg L' st1 a" for u d r a L'
      by (simp_all add: sys_outside_def hz12_arena_contains_def slot_ok_def span_at_def user_cell_def)
    have res2: "\<not> resolving_of t ?st2" and out2: "sys_outside ?st2" using M res same by auto
    have "p \<in> ?L1" using p by simp
    then have F: "free_post cfg ?L2 ?st2 st'" unfolding st' using hz12_free_post [OF lane inv2 out2 res2] by blast
    have "h12_mem st' (q + k) = h12_mem st (p + k)" if k: "k < sz" "k < ?s" for k
    proof -
      have kn: "k < ?n" using k by simp
      have "user_cell cfg ?L2 st1 (q + k)"
      proof (cases "hz12_arena_contains q st")
        case True
        obtain d where d: "d < class_total cfg" "slot_ok cfg st1 d q" "unat sz \<le> slot_bytes cfg d" using M True False con by auto
        have "unat (q + k - q) < slot_bytes cfg d" using d(3) k(1) by (simp add: word_less_nat_alt)
        moreover have "q \<in> ?L2" using True qL p by auto
        ultimately show ?thesis using d(1,2) unfolding user_cell_def by blast
      next
        case out_q: False
        then have "\<not> hz12_arena_contains (q + k) st" using block False np k(1) by simp
        then have "\<not> hz12_arena_contains (q + k) st1" using con by blast
        then show ?thesis unfolding user_cell_def by blast
      qed
      then have "user_cell cfg ?L2 ?st2 (q + k)" by (simp only: same(5))
      then have "h12_mem st' (q + k) = h12_mem ?st2 (q + k)" using F unfolding free_post_def by blast
      then have "h12_mem st' (q + k) = ?m (q + k)" by simp
      also have "\<dots> = h12_mem st1 (p + k)" using kn by (simp add: copy_cells_def)
      also have "\<dots> = h12_mem st (p + k)"
      proof -
        have "unat (p + k - p) < slot_bytes cfg c" using k(2) c(4) by (simp add: word_less_nat_alt)
        then have "user_cell cfg L st (p + k)" using c(1,2) p unfolding user_cell_def by blast
        then show ?thesis using M by blast
      qed
      finally show ?thesis .
    qed
    then show ?thesis using F qL np c(3) False by (auto simp: free_post_def)
  qed
qed

section \<open>Whole executions\<close>

text \<open>The executions of a program that uses the allocator as C allows: any thread allocates, frees what is
  held, and writes to its own objects. The objects held and their requested sizes are the map \<open>live\<close>;
  a block of the system is not in it. \<open>resolving\<close> is false outside \<open>dlsym\<close>.\<close>

inductive program_run :: "hz12_config \<Rightarrow> 'a h12_cache_state_scheme \<Rightarrow> (addr \<Rightarrow> u64 option) \<Rightarrow> 'a h12_cache_state_scheme \<Rightarrow> bool"
  for cfg st0 where
  start: "program_run cfg st0 (\<lambda>_. None) st0"
| malloc: "program_run cfg st0 live st \<Longrightarrow> hz12_malloc cfg t sz st = (p, st') \<Longrightarrow>
    program_run cfg st0 (if p \<noteq> 0 \<and> hz12_arena_contains p st' then live(p \<mapsto> sz) else live) st'"
| free: "program_run cfg st0 live st \<Longrightarrow> p \<in> dom live \<or> \<not> hz12_arena_contains p st \<Longrightarrow>
    program_run cfg st0 (live(p := None)) (hz12_free cfg t p st)"
| user_write: "program_run cfg st0 live st \<Longrightarrow> user_cell cfg (dom live) st a \<Longrightarrow>
    program_run cfg st0 live (st\<lparr>h12_mem := (h12_mem st)(a := v)\<rparr>)"

definition run_inv :: "hz12_config \<Rightarrow> (addr \<Rightarrow> u64 option) \<Rightarrow> 'a h12_cache_state_scheme \<Rightarrow> bool" where
  "run_inv cfg live st \<longleftrightarrow> span_inv cfg (dom live) st \<and> sys_outside st \<and> (\<forall>t. \<not> resolving_of t st) \<and>
     (\<forall>p sz. live p = Some sz \<longrightarrow> (\<exists>c < class_total cfg. slot_ok cfg st c p \<and> unat sz \<le> slot_bytes cfg c))"

lemma program_run_inv:
  assumes lane: "c12_classify_span cfg" and start: "run_inv cfg (\<lambda>_. None) st0"
  shows "program_run cfg st0 live st \<Longrightarrow> run_inv cfg live st"
proof (induction rule: program_run.induct)
  case start
  show ?case using assms(2) .
next
  case (malloc live st t sz p st')
  have "malloc_post cfg (dom live) sz st p st'"
    using hz12_malloc_post [OF lane _ _ _ malloc(2)] malloc.IH by (simp add: run_inv_def)
  note P = this [unfolded malloc_post_def]
  have keep: "\<exists>c < class_total cfg. slot_ok cfg st' c q \<and> unat n \<le> slot_bytes cfg c" if "live q = Some n" for q n
    using malloc.IH that P unfolding run_inv_def by blast
  have res: "\<forall>t. \<not> resolving_of t st'" using P malloc.IH by (simp add: run_inv_def)
  show ?case
  proof (cases "p \<noteq> 0 \<and> hz12_arena_contains p st'")
    case True
    then have "span_inv cfg (dom (live(p \<mapsto> sz))) st'"
      "\<exists>c < class_total cfg. slot_ok cfg st' c p \<and> unat sz \<le> slot_bytes cfg c" using P by simp_all
    then show ?thesis using True keep res P unfolding run_inv_def by auto
  next
    case False
    then have "span_inv cfg (dom live) st'" using P by auto
    then show ?thesis using False keep res P unfolding run_inv_def by auto
  qed
next
  case (free live st p t)
  have P: "free_post cfg (dom live - {p}) st (hz12_free cfg t p st)"
    using hz12_free_post [OF lane _ _ _ free(2)] free.IH by (simp add: run_inv_def)
  have "dom (live(p := None)) = dom live - {p}" by auto
  moreover have "\<exists>c < class_total cfg. slot_ok cfg (hz12_free cfg t p st) c q \<and> unat n \<le> slot_bytes cfg c"
    if "live q = Some n" for q n
    using free.IH that P unfolding run_inv_def free_post_def by blast
  ultimately show ?case using P free.IH unfolding run_inv_def free_post_def by auto
next
  case (user_write live st a v)
  have "span_inv cfg (dom live) (st\<lparr>h12_mem := (h12_mem st)(a := v)\<rparr>)"
    by (rule user_write_inv) (use user_write in \<open>auto simp: run_inv_def\<close>)
  then show ?case using user_write.IH
    by (auto simp: run_inv_def sys_outside_def hz12_arena_contains_def slot_ok_def span_at_def)
qed

text \<open>C22: in every execution, on any number of threads and in every build of the span lane, two different
  live objects of the arena never share a byte, and each lies in its slot, inside one span.\<close>

theorem live_objects_disjoint:
  assumes lane: "c12_classify_span cfg" and start: "run_inv cfg (\<lambda>_. None) st0"
    and run: "program_run cfg st0 live st" and live: "live p = Some n" "live q = Some m" "p \<noteq> q"
  shows "(\<nexists>a. a - p < n \<and> a - q < m) \<and> (\<exists>s. \<forall>a. a - p < n \<longrightarrow> in_span s a)"
proof -
  have inv: "run_inv cfg live st" by (rule program_run_inv [OF lane start run])
  have wf: "arena_wf st" using inv by (simp add: run_inv_def span_inv_def)
  obtain c where c: "c < class_total cfg" "slot_ok cfg st c p" "unat n \<le> slot_bytes cfg c"
    using inv live(1) unfolding run_inv_def by blast
  obtain d where d: "d < class_total cfg" "slot_ok cfg st d q" "unat m \<le> slot_bytes cfg d"
    using inv live(2) unfolding run_inv_def by blast
  have "\<nexists>a. a - p < n \<and> a - q < m"
  proof (rule notI, elim exE conjE)
    fix a assume a: "a - p < n" "a - q < m"
    have "unat (a - p) < slot_bytes cfg c" "unat (a - q) < slot_bytes cfg d"
      using a c(3) d(3) by (simp_all add: word_less_nat_alt)
    then show False using slots_disjoint [OF wf c(1) d(1) c(2) d(2)] live(3) by blast
  qed
  moreover obtain i where i: "i < 65536" "p \<in> span_slots (slot_bytes cfg c) (span_at st i)"
    using c(2) by (auto simp: slot_ok_def)
  have "in_span (span_at st i) a" if "a - p < n" for a
    using slot_cell_in_span(1) [OF wf i(1) slot_table(2) [OF c(1)] i(2), of a] that c(3) by (simp add: word_less_nat_alt)
  ultimately show ?thesis by blast
qed

text \<open>Before the first thread has its cache: nothing is carved, and the next mapping is the arena.\<close>

definition boot_state :: "addr \<Rightarrow> 'a h12_cache_state_scheme \<Rightarrow> bool" where
  "boot_state base st \<longleftrightarrow> \<not> hz12_span_init_once st \<and> h12_maps st = [base] \<and> base \<noteq> 0 \<and>
     unat base + 4295032832 < 18446744073709551616 \<and> hz12_span_class st = (\<lambda>_. 0) \<and>
     \<not> hz12_size_table_ready st \<and> (\<forall>t. hz12_tls (h12_thread st t) = None) \<and> (\<forall>t. \<not> resolving_of t st) \<and>
     h12_dlsym st Sym_malloc \<and> \<not> hz12_resolved st \<and> (\<forall>a \<in> set (h12_sys_answers st). \<not> a - base < HZ12_ARENA_BYTES)"

lemma boot_run_inv:
  assumes "boot_state base st"
  shows "run_inv cfg (\<lambda>_. None) (hz12_span_init st)"
proof -
  let ?st = "hz12_span_init st"
  have st: "?st = st\<lparr>hz12_span_init_once := True, h12_maps := [],
      h12_mem := (\<lambda>a. if a - base < HZ12_ARENA_BYTES then 0 else h12_mem st a),
      hz12_arena_base := base, hz12_arena_end := base + HZ12_ARENA_BYTES,
      hz12_span_cursor := base, hz12_returned := (\<lambda>_. 0)\<rparr>"
    using assms by (simp add: boot_state_def hz12_span_init_def hz12_span_init_real_def cong del: if_weak_cong)
  have wf: "arena_wf ?st" using assms by (auto simp: st arena_wf_def boot_state_def intro!: exI [of _ 0])
  have tc: "tc_of ?st t = empty_thread_cache" for t using assms by (simp add: st tc_of_def boot_state_def)
  have "held cfg ?st [] c k = []" for c k
    by (cases k) (simp_all add: tc empty_thread_cache_def bump_list_def)
  then have "class_inv cfg ?st [] {} c" for c
    by (simp add: class_inv_def separate_def tc) (simp add: st sink_list_def empty_thread_cache_def cur_ok_def)
  then have "\<exists>xs. class_inv cfg ?st xs {} c" for c by blast
  then have "span_inv cfg {} ?st"
    using wf assms unfolding span_inv_def by (simp add: st table_ok_def boot_state_def)
  moreover have "sys_outside ?st"
    using assms by (auto simp: st sys_outside_def boot_state_def hz12_arena_contains_def)
  moreover have "\<not> resolving_of t ?st" for t using assms by (simp add: st boot_state_def)
  ultimately show ?thesis by (simp add: run_inv_def)
qed

section \<open>A concrete program\<close>

definition span_config :: hz12_config where
  "span_config = hz12_default_config\<lparr>c12_classify_span := True\<rparr>"

definition example_boot :: "unit h12_cache_state_scheme" where
  "example_boot = \<lparr>hz12_size_table = (\<lambda>_. 0), hz12_size_table_ready = False, h12_mem = (\<lambda>_. 0),
     h12_maps = [4294967296], hz12_arena_base = 0, hz12_arena_end = 0, hz12_span_cursor = 0,
     hz12_span_init_once = False, hz12_span_class = (\<lambda>_. 0), hz12_span_create_count = 0, hz12_returned = (\<lambda>_. 0),
     h12_dlsym = (\<lambda>_. True), hz12_real = (\<lambda>_. False), hz12_resolved = False, hz12_bootstrap_buf = 1048576,
     hz12_bootstrap_off = 0, h12_sys_answers = [2097152, 3145728], h12_sys_calls = [],
     h12_thread = (\<lambda>_. \<lparr>hz12_tls = None, hz12_resolving = False\<rparr>)\<rparr>"

lemma example_boot_ok: "boot_state 4294967296 example_boot"
  by (auto simp: boot_state_def example_boot_def)

lemma span_config_lane: "c12_classify_span span_config"
  by (simp add: span_config_def)

text \<open>Mapping the arena establishes the invariant of executions.\<close>

theorem span_init_run_inv:
  assumes "boot_state base st"
  shows "run_inv cfg (\<lambda>_. None) (hz12_span_init st)"
  by (rule boot_run_inv [OF assms])

theorem span_init_run_inv_witness: "run_inv span_config (\<lambda>_. None) (hz12_span_init example_boot)"
  by (rule span_init_run_inv [OF example_boot_ok])

definition example_one :: "unit h12_cache_state_scheme" where
  "example_one = snd (hz12_malloc span_config 0 20 (hz12_span_init example_boot))"

definition example_two :: "unit h12_cache_state_scheme" where
  "example_two = snd (hz12_malloc span_config 1 20 example_one)"

lemma example_pointers:
  "hz12_malloc span_config 0 20 (hz12_span_init example_boot) = (4294967296, example_one)"
  "hz12_malloc span_config 1 20 example_one = (4295032832, example_two)"
proof -
  have "fst (hz12_malloc span_config 0 20 (hz12_span_init example_boot)) = 4294967296" by code_simp
  then show "hz12_malloc span_config 0 20 (hz12_span_init example_boot) = (4294967296, example_one)"
    by (metis example_one_def prod.collapse)
  have "fst (hz12_malloc span_config 1 20 example_one) = 4295032832" by code_simp
  then show "hz12_malloc span_config 1 20 example_one = (4295032832, example_two)"
    by (metis example_two_def prod.collapse)
qed

lemma example_contains:
  "hz12_arena_contains 4294967296 example_one" "hz12_arena_contains 4295032832 example_two"
  by code_simp+

lemma example_runs:
  "program_run span_config (hz12_span_init example_boot) [4294967296 \<mapsto> 20] example_one"
  "program_run span_config (hz12_span_init example_boot) [4294967296 \<mapsto> 20, 4295032832 \<mapsto> 20] example_two"
proof -
  have "program_run span_config (hz12_span_init example_boot) (\<lambda>_. None) (hz12_span_init example_boot)" by (rule program_run.start)
  from program_run.malloc [OF this example_pointers(1)]
  show one: "program_run span_config (hz12_span_init example_boot) [4294967296 \<mapsto> 20] example_one"
    using example_contains(1) by simp
  from program_run.malloc [OF one example_pointers(2)]
  show "program_run span_config (hz12_span_init example_boot) [4294967296 \<mapsto> 20, 4295032832 \<mapsto> 20] example_two"
    using example_contains(2) by simp
qed

lemmas example_start = boot_run_inv [OF example_boot_ok, of span_config]

lemma example_invs:
  "span_inv span_config {} (hz12_span_init example_boot)" "sys_outside (hz12_span_init example_boot)"
  "\<not> resolving_of t (hz12_span_init example_boot)"
  "span_inv span_config {4294967296} example_one" "sys_outside example_one" "\<not> resolving_of t example_one"
  using example_start program_run_inv [OF span_config_lane example_start example_runs(1)]
  by (simp_all add: run_inv_def)

theorem live_objects_disjoint_witness:
  "\<nexists>a. a - 4294967296 < (20 :: u64) \<and> a - 4295032832 < 20"
  using live_objects_disjoint [OF span_config_lane example_start example_runs(2), of 4294967296 20 4295032832 20] by simp

theorem hz12_malloc_correct_witness:
  "span_inv span_config {4294967296} example_one \<and>
   (\<exists>c < class_total span_config. slot_ok span_config example_one c 4294967296 \<and> 20 \<le> slot_bytes span_config c)"
  using hz12_malloc_correct [OF span_config_lane example_invs(1,2,3) example_pointers(1)] example_contains(1) by simp

theorem hz12_free_correct_witness:
  "span_inv span_config {} (hz12_free span_config 1 4294967296 example_one)"
  using hz12_free_correct [OF span_config_lane example_invs(4,5,6), of 4294967296 1] by simp

theorem hz12_realloc_correct_witness:
  "\<exists>np st'. hz12_realloc span_config 0 4294967296 100 example_one = (np, st') \<and> np \<noteq> 0 \<and>
     h12_mem st' (np + 8) = h12_mem example_one (4294967296 + 8)"
proof -
  obtain np st' where r: "hz12_realloc span_config 0 4294967296 100 example_one = (np, st')" by force
  have "fst (hz12_realloc span_config 0 4294967296 100 example_one) = 4295032832" by code_simp
  then have np: "np = 4295032832" using r by simp
  have con: "hz12_arena_contains 4295032832 example_one" "hz12_span_classify 4294967296 example_one = Some 1"
    "hz12_class_slot_size span_config 1 = 32" by code_simp+
  have "\<forall>k. k < 100 \<longrightarrow> k < 32 \<longrightarrow> h12_mem st' (np + k) = h12_mem example_one (4294967296 + k)"
    using hz12_realloc_correct [OF span_config_lane example_invs(4,5,6) _ _ r] np con by simp
  from this [rule_format, of 8] have "h12_mem st' (np + 8) = h12_mem example_one (4294967296 + 8)" by simp
  then show ?thesis using r np by auto
qed

end
