(* ===== verification/Hz12_Cache_Bounds.thy ===== *)
theory Hz12_Cache_Bounds
  imports Hz12_Cache_Correct
begin

text \<open>
  The bounds of a thread cache: how many objects and how many bytes it can hold, and that its byte count
  is the true one. Lemmas on \<open>hz12_thread_cache_push\<close> and \<open>hz12_thread_cache_pop\<close> of \<open>Hz12_Thread_Cache\<close>,
  for both lanes.
\<close>

definition cached_total :: "hz12_config \<Rightarrow> H12ThreadCache \<Rightarrow> nat" where
  "cached_total cfg tc = (\<Sum>c<class_total cfg. slot_bytes cfg c * length (tc_items tc c))"

text \<open>The bytes beyond the first object of every class.\<close>

definition cached_excess :: "hz12_config \<Rightarrow> H12ThreadCache \<Rightarrow> nat" where
  "cached_excess cfg tc = (\<Sum>c<class_total cfg. slot_bytes cfg c * (length (tc_items tc c) - 1))"

definition bytes_ok :: "hz12_config \<Rightarrow> H12ThreadCache \<Rightarrow> bool" where
  "bytes_ok cfg tc \<longleftrightarrow> unat (tc_cached_bytes tc) = cached_total cfg tc \<and>
     cached_excess cfg tc \<le> unat (c12_max_cached_bytes cfg) \<and>
     (\<forall>c < class_total cfg. length (tc_items tc c) \<le> unat (c12_cache_cap cfg))"

lemma sum_one_changed:
  fixes f g :: "nat \<Rightarrow> nat"
  assumes "c < n" "\<And>d. d \<noteq> c \<Longrightarrow> g d = f d"
  shows "(\<Sum>d<n. g d) + f c = (\<Sum>d<n. f d) + g c"
proof -
  have "(\<Sum>d<n. g d) = g c + (\<Sum>d\<in>{..<n} - {c}. g d)" "(\<Sum>d<n. f d) = f c + (\<Sum>d\<in>{..<n} - {c}. f d)"
    using assms(1) by (simp_all add: sum.remove)
  moreover have "(\<Sum>d\<in>{..<n} - {c}. g d) = (\<Sum>d\<in>{..<n} - {c}. f d)"
    by (rule sum.cong) (use assms(2) in auto)
  ultimately show ?thesis by simp
qed

lemma cached_split: "cached_total cfg tc \<le> cached_excess cfg tc + (\<Sum>c<class_total cfg. slot_bytes cfg c)"
proof -
  have "slot_bytes cfg c * length (tc_items tc c)
      \<le> slot_bytes cfg c * (length (tc_items tc c) - 1) + slot_bytes cfg c" for c
    by (cases "tc_items tc c") simp_all
  then have "cached_total cfg tc \<le> (\<Sum>c<class_total cfg. slot_bytes cfg c * (length (tc_items tc c) - 1) + slot_bytes cfg c)"
    unfolding cached_total_def by (intro sum_mono)
  then show ?thesis by (simp add: cached_excess_def sum.distrib)
qed

lemma slot_sum_bound: "(\<Sum>c<class_total cfg. slot_bytes cfg c) \<le> 70 * 65536"
proof -
  have "(\<Sum>c<class_total cfg. slot_bytes cfg c) \<le> (\<Sum>c<class_total cfg. 65536)"
    by (rule sum_mono) (use slot_table(1) in auto)
  also have "\<dots> \<le> 70 * 65536" using class_count_cases(2) [of cfg] by (simp add: class_total_def)
  finally show ?thesis .
qed

lemma excess_le_total: "cached_excess cfg tc \<le> cached_total cfg tc"
  unfolding cached_excess_def cached_total_def by (intro sum_mono) simp

lemma total_changed:
  assumes "c < class_total cfg" "tc_items tc' = (tc_items tc)(c := xs)"
  shows "cached_total cfg tc' + slot_bytes cfg c * length (tc_items tc c) = cached_total cfg tc + slot_bytes cfg c * length xs"
    "cached_excess cfg tc' + slot_bytes cfg c * (length (tc_items tc c) - 1)
      = cached_excess cfg tc + slot_bytes cfg c * (length xs - 1)"
  unfolding cached_total_def cached_excess_def
  using sum_one_changed [OF assms(1), of "\<lambda>d. slot_bytes cfg d * length (tc_items tc' d)" "\<lambda>d. slot_bytes cfg d * length (tc_items tc d)"]
    sum_one_changed [OF assms(1), of "\<lambda>d. slot_bytes cfg d * (length (tc_items tc' d) - 1)" "\<lambda>d. slot_bytes cfg d * (length (tc_items tc d) - 1)"]
    assms(2) by simp_all

lemma member_le_total: "c < class_total cfg \<Longrightarrow> slot_bytes cfg c * length (tc_items tc c) \<le> cached_total cfg tc"
  unfolding cached_total_def by (rule member_le_sum) auto

lemma flush_counts:
  assumes c: "c < class_total cfg" and ok: "bytes_ok cfg tc"
    and max: "unat (c12_max_cached_bytes cfg) < 9223372036854775808"
    and run: "hz12_thread_cache_flush_class cfg r (of_nat c) tc st = (tc', st')"
  shows "tc_items tc' = (tc_items tc)(c := [])"
    "unat (tc_cached_bytes tc') = cached_total cfg tc - slot_bytes cfg c * length (tc_items tc c)"
proof -
  have cn: "unat (of_nat c :: u8) = c" using class_nat [OF c] by simp
  let ?s = "hz12_class_slot_size cfg (of_nat c)" and ?B = "slot_bytes cfg c" and ?n = "length (tc_items tc c)"
  have f: "tc_items tc' = (tc_items tc)(c := [])" "tc_cached_bytes tc' = tc_cached_bytes tc - ?s * of_nat ?n"
    using run cn by (auto simp: hz12_thread_cache_flush_class_def Let_def)
  then show "tc_items tc' = (tc_items tc)(c := [])" by simp
  have tot: "unat (tc_cached_bytes tc) = cached_total cfg tc" "cached_excess cfg tc \<le> unat (c12_max_cached_bytes cfg)"
    using ok by (auto simp: bytes_ok_def)
  have small: "cached_total cfg tc < 9223372036854775808 + 4587520"
    using cached_split [of cfg tc] slot_sum_bound [of cfg] tot(2) max by linarith
  have le: "?B * ?n \<le> cached_total cfg tc" by (rule member_le_total [OF c])
  have "?s * of_nat ?n = of_nat (?B * ?n)" using slot_word [OF c] by simp
  moreover have "?B * ?n < 18446744073709551616" using le small by linarith
  ultimately have "unat (?s * of_nat ?n) = ?B * ?n" by (simp only: unat_of_nat) (simp add: mod_less)
  then show "unat (tc_cached_bytes tc') = cached_total cfg tc - ?B * ?n"
    unfolding f(2) using le tot(1) by (simp add: unat_sub word_le_nat_alt)
qed

lemma push_bytes:
  assumes acc: "c12_cache_byte_accounting cfg" and cap: "0 < c12_cache_cap cfg"
    and max: "unat (c12_max_cached_bytes cfg) < 9223372036854775808"
    and c: "c < class_total cfg" and ok: "bytes_ok cfg tc"
    and run: "hz12_thread_cache_push cfg r (of_nat c) p tc st = (tc', st')"
  shows "bytes_ok cfg tc'"
proof -
  have cn: "unat (of_nat c :: u8) = c" "(of_nat c :: u8) < HZ12_CLASS_COUNT cfg" using class_nat [OF c] by simp_all
  let ?s = "hz12_class_slot_size cfg (of_nat c)" and ?B = "slot_bytes cfg c"
  have s: "unat ?s = ?B" using slot_size_nat [OF cn(2)] cn(1) by simp
  have tot: "unat (tc_cached_bytes tc) = cached_total cfg tc" "cached_excess cfg tc \<le> unat (c12_max_cached_bytes cfg)"
    and len: "\<And>d. d < class_total cfg \<Longrightarrow> length (tc_items tc d) \<le> unat (c12_cache_cap cfg)" using ok by (auto simp: bytes_ok_def)
  have small: "cached_total cfg tc < 9223372036854775808 + 4587520"
    using cached_split [of cfg tc] slot_sum_bound [of cfg] tot(2) max by linarith
  have B: "?B \<le> 65536" by (rule slot_table(1) [OF c])
  show ?thesis
  proof (cases "length (tc_items tc c) < unat (c12_cache_cap cfg) \<and>
      tc_cached_bytes tc + ?s \<le> c12_max_cached_bytes cfg")
    case True
    then have r: "tc_items tc' = (tc_items tc)(c := tc_items tc c @ [p])" "tc_cached_bytes tc' = tc_cached_bytes tc + ?s"
      using run acc cn(1) by (auto simp: hz12_thread_cache_push_def Let_def)
    have u: "unat (tc_cached_bytes tc + ?s) = cached_total cfg tc + ?B"
      by (subst unat_add_no_wrap) (use small s tot(1) B in simp_all)
    have t: "cached_total cfg tc' = cached_total cfg tc + ?B" using total_changed(1) [OF c r(1)] by simp
    have "cached_excess cfg tc' \<le> unat (c12_max_cached_bytes cfg)"
      using excess_le_total [of cfg tc'] t u True by (simp add: word_le_nat_alt)
    then show ?thesis using t u r True len by (auto simp: bytes_ok_def)
  next
    case False
    obtain tc1 st1 where fl: "hz12_thread_cache_flush_class cfg r (of_nat c) tc st = (tc1, st1)" by force
    have over: "hz12_thread_cache_push_overflow_slow cfg r (of_nat c) p tc st = (tc', st')"
      using run False cn(1) acc by (auto simp: hz12_thread_cache_push_def Let_def)
    note f = flush_counts [OF c ok max fl]
    have r: "tc_items tc' = (tc_items tc)(c := [p])" "tc_cached_bytes tc' = tc_cached_bytes tc1 + ?s"
      using over fl f(1) cn by (auto simp: hz12_thread_cache_push_overflow_slow_def Let_def)
    let ?n = "length (tc_items tc c)"
    have le: "?B * ?n \<le> cached_total cfg tc" by (rule member_le_total [OF c])
    have u: "unat (tc_cached_bytes tc') = cached_total cfg tc - ?B * ?n + ?B"
      unfolding r(2) by (subst unat_add_no_wrap) (use f(2) small s B in simp_all)
    have t: "cached_total cfg tc' + ?B * ?n = cached_total cfg tc + ?B" using total_changed(1) [OF c r(1)] by simp
    have "cached_excess cfg tc' \<le> cached_excess cfg tc" using total_changed(2) [OF c r(1)] by simp
    then show ?thesis using t u r tot(2) len le cap by (auto simp: bytes_ok_def unat_gt_0 Suc_le_eq)
  qed
qed

lemma pop_bytes:
  assumes acc: "c12_cache_byte_accounting cfg" and c: "c < class_total cfg" and ok: "bytes_ok cfg tc"
    and run: "hz12_thread_cache_pop cfg (of_nat c) tc = (p, tc')"
  shows "bytes_ok cfg tc'"
proof (cases "tc_items tc c = []")
  case True
  then have "tc' = tc" using run class_nat [OF c] by (auto simp: hz12_thread_cache_pop_def Let_def split: if_splits)
  then show ?thesis using ok by simp
next
  case False
  have cn: "unat (of_nat c :: u8) = c" "(HZ12_CLASS_COUNT cfg \<le> of_nat c) = False"
    "(of_nat c :: u8) < HZ12_CLASS_COUNT cfg" using class_nat [OF c] class_guard by auto
  let ?s = "hz12_class_slot_size cfg (of_nat c)" and ?B = "slot_bytes cfg c" and ?n = "length (tc_items tc c)"
  have s: "unat ?s = ?B" using slot_size_nat [OF cn(3)] cn(1) by simp
  have r: "tc_items tc' = (tc_items tc)(c := butlast (tc_items tc c))" "tc_cached_bytes tc' = tc_cached_bytes tc - ?s"
    using run False cn acc by (auto simp: hz12_thread_cache_pop_def Let_def)
  have tot: "unat (tc_cached_bytes tc) = cached_total cfg tc" "cached_excess cfg tc \<le> unat (c12_max_cached_bytes cfg)"
    and len: "\<And>d. d < class_total cfg \<Longrightarrow> length (tc_items tc d) \<le> unat (c12_cache_cap cfg)" using ok by (auto simp: bytes_ok_def)
  have n: "?n = Suc (?n - 1)" using False by (cases "tc_items tc c") simp_all
  have le: "?B * ?n \<le> cached_total cfg tc" by (rule member_le_total [OF c])
  have "?B \<le> ?B * ?n" using n by (metis le_add1 mult_Suc_right)
  then have "?B \<le> cached_total cfg tc" using le by (rule order_trans)
  then have "?s \<le> tc_cached_bytes tc" using s tot(1) by (simp only: word_le_nat_alt)
  then have "unat (tc_cached_bytes tc - ?s) = cached_total cfg tc - ?B"
    using s tot(1) by (simp only: unat_sub)
  moreover have "cached_total cfg tc' + ?B * ?n = cached_total cfg tc + ?B * (?n - 1)"
    using total_changed(1) [OF c r(1)] by simp
  moreover have "?B * ?n = ?B * (?n - 1) + ?B" using n by (metis add.commute mult_Suc_right)
  ultimately have "unat (tc_cached_bytes tc') = cached_total cfg tc'" using le r(2) by simp
  moreover have "cached_excess cfg tc' \<le> cached_excess cfg tc"
  proof -
    have "?B * (length (butlast (tc_items tc c)) - 1) \<le> ?B * (?n - 1)" by (rule mult_le_mono2) simp
    then show ?thesis using total_changed(2) [OF c r(1)] by linarith
  qed
  ultimately show ?thesis using r(1) tot(2) len by (auto simp: bytes_ok_def) (metis diff_le_self le_trans)
qed

section \<open>The bound over the life of a cache\<close>

definition accounting :: "hz12_config \<Rightarrow> bool" where
  "accounting cfg \<longleftrightarrow> c12_cache_byte_accounting cfg \<and> 0 < c12_cache_cap cfg \<and>
     unat (c12_max_cached_bytes cfg) < 9223372036854775808"

lemma same_bytes_ok:
  "tc_items tc' = tc_items tc \<Longrightarrow> tc_cached_bytes tc' = tc_cached_bytes tc \<Longrightarrow> bytes_ok cfg tc' = bytes_ok cfg tc"
  by (simp add: bytes_ok_def cached_total_def cached_excess_def)

lemma empty_bytes: "bytes_ok cfg empty_thread_cache"
  by (simp add: bytes_ok_def cached_total_def cached_excess_def empty_thread_cache_def)

lemma push_all_bytes:
  assumes "accounting cfg" "c < class_total cfg"
  shows "bytes_ok cfg tc \<Longrightarrow> push_all cfg r (of_nat c) ps tc st = (tc', st') \<Longrightarrow> bytes_ok cfg tc'"
proof (induction ps arbitrary: tc st)
  case (Cons p ps)
  obtain tc1 st1 where step: "hz12_thread_cache_push cfg r (of_nat c) p tc st = (tc1, st1)" by force
  have "bytes_ok cfg tc1" using push_bytes [OF _ _ _ assms(2) Cons.prems(1) step] assms(1) by (simp add: accounting_def)
  then show ?case using Cons step by simp
qed simp

lemma cold_skip_bytes [simp]: "bytes_ok cfg (note_cold_skip cfg c tc) = bytes_ok cfg tc"
  by (rule same_bytes_ok) (simp_all add: note_cold_skip_def)

lemma pressure_bytes [simp]: "bytes_ok cfg (raise_pressure c tc) = bytes_ok cfg tc"
  by (rule same_bytes_ok) (simp_all add: raise_pressure_def Let_def)

lemma field_bytes [simp]:
  "bytes_ok cfg (tc\<lparr>returned_refill_pressure := f\<rparr>) = bytes_ok cfg tc"
  "bytes_ok cfg (tc\<lparr>returned_refill_cold_skip := f\<rparr>) = bytes_ok cfg tc"
  "bytes_ok cfg (tc\<lparr>tc_current := g\<rparr>) = bytes_ok cfg tc"
  by (rule same_bytes_ok; simp)+

lemma bump_bytes: "bump_one cfg k tc = (p, tc') \<Longrightarrow> bytes_ok cfg tc' = bytes_ok cfg tc"
  by (auto simp: bump_one_def Let_def)

lemma sink_bytes:
  assumes "accounting cfg" "c < class_total cfg" "bytes_ok cfg tc"
    "refill_from_sink cfg r (of_nat c) tc st = (po, tc', st')"
  shows "bytes_ok cfg tc'"
  using assms(3,4)
  by (auto simp: refill_from_sink_def refill_one_def refill_batch_def Let_def
      split: if_splits prod.splits list.splits dest: push_all_bytes [OF assms(1,2)])

lemma refill_bytes:
  assumes acc: "accounting cfg" "c < class_total cfg" and ok: "bytes_ok cfg tc"
    and run: "hz12_thread_cache_refill cfg r (of_nat c) tc st = (p, tc', st')"
  shows "bytes_ok cfg tc'"
proof -
  have cur: "refill_from_current cfg r (of_nat c) tc1 st1 = (q, tc2, st2) \<Longrightarrow> bytes_ok cfg tc1 \<Longrightarrow> bytes_ok cfg tc2"
    for tc1 st1 q tc2 and st2 :: "'a h12_sys_state_scheme"
    by (auto simp: refill_from_current_def Let_def bump_bytes split: if_splits prod.splits
        intro: push_all_bytes [OF acc, rotated])
  have arena: "refill_from_arena cfg r (of_nat c) tc1 st1 = (q, tc2, st2) \<Longrightarrow> bytes_ok cfg tc1 \<Longrightarrow> bytes_ok cfg tc2"
    for tc1 st1 q tc2 and st2 :: "'a h12_sys_state_scheme"
    by (auto simp: refill_from_arena_def Let_def bump_bytes split: if_splits prod.splits)
  show ?thesis using run ok
    by (auto simp: hz12_thread_cache_refill_def Let_def bump_bytes split: if_splits prod.splits option.splits
        dest: sink_bytes [OF acc ok] dest!: cur arena)
qed

lemma flush_bytes:
  assumes c: "c < class_total cfg" and ok: "bytes_ok cfg tc" and acc: "accounting cfg"
    and run: "hz12_thread_cache_flush_class cfg r (of_nat c) tc st = (tc', st')"
  shows "bytes_ok cfg tc'"
proof -
  have max: "unat (c12_max_cached_bytes cfg) < 9223372036854775808" using acc by (simp add: accounting_def)
  note f = flush_counts [OF c ok max run]
  have "cached_total cfg tc' = cached_total cfg tc - slot_bytes cfg c * length (tc_items tc c)"
    using total_changed(1) [OF c f(1)] by simp
  moreover have "cached_excess cfg tc' \<le> cached_excess cfg tc" using total_changed(2) [OF c f(1)] by simp
  ultimately show ?thesis using f ok by (auto simp: bytes_ok_def)
qed

lemma checkpoint_bytes:
  assumes "accounting cfg"
  shows "bytes_ok cfg tc \<Longrightarrow> \<forall>c \<in> set cs. c < class_total cfg \<Longrightarrow> checkpoint_loop cfg r cs tc st = (tc', st') \<Longrightarrow> bytes_ok cfg tc'"
proof (induction cs arbitrary: tc st)
  case (Cons c cs)
  obtain tc1 st1 where step: "hz12_thread_cache_flush_class cfg r (of_nat c) tc st = (tc1, st1)" by force
  have "bytes_ok cfg tc1" using flush_bytes [OF _ Cons.prems(1) assms step] Cons.prems(2) by simp
  then have "bytes_ok cfg (if c12_classify_span cfg then reset_current c tc1 else tc1)" by (simp add: reset_current_def)
  then show ?case by (rule Cons.IH) (use Cons.prems(2,3) step in simp_all)
qed simp

text \<open>The caches a thread can have: an empty one, and what pushes, pops, refills and checkpoints make of it,
  each in any state of the process.\<close>

inductive cache_run :: "hz12_config \<Rightarrow> H12ThreadCache \<Rightarrow> bool" for cfg where
  start: "cache_run cfg empty_thread_cache"
| push: "cache_run cfg tc \<Longrightarrow> c < class_total cfg \<Longrightarrow>
    hz12_thread_cache_push cfg r (of_nat c) p tc (st :: h12_cache_state) = (tc', st') \<Longrightarrow> cache_run cfg tc'"
| pop: "cache_run cfg tc \<Longrightarrow> c < class_total cfg \<Longrightarrow>
    hz12_thread_cache_pop cfg (of_nat c) tc = (p, tc') \<Longrightarrow> cache_run cfg tc'"
| refill: "cache_run cfg tc \<Longrightarrow> c < class_total cfg \<Longrightarrow>
    hz12_thread_cache_refill cfg r (of_nat c) tc (st :: h12_cache_state) = (p, tc', st') \<Longrightarrow> cache_run cfg tc'"
| checkpoint: "cache_run cfg tc \<Longrightarrow>
    checkpoint_loop cfg r [0..<unat (HZ12_CLASS_COUNT cfg)] tc (st :: h12_cache_state) = (tc', st') \<Longrightarrow> cache_run cfg tc'"

lemma cache_run_bytes: "cache_run cfg tc \<Longrightarrow> accounting cfg \<Longrightarrow> bytes_ok cfg tc"
proof (induction rule: cache_run.induct)
  case (push tc c r p st tc' st')
  then show ?case using push_bytes [OF _ _ _ push.hyps(2) _ push.hyps(3)] by (simp add: accounting_def)
next
  case (pop tc c p tc')
  then show ?case using pop_bytes [OF _ pop.hyps(2) _ pop.hyps(3)] by (simp add: accounting_def)
next
  case (refill tc c r st p tc' st')
  then show ?case using refill_bytes [OF _ refill.hyps(2) _ refill.hyps(3)] by simp
next
  case (checkpoint tc r st tc' st')
  then show ?case using checkpoint_bytes [OF _ _ _ checkpoint.hyps(2)] by (simp add: class_total_def)
qed (rule empty_bytes)

text \<open>C30: the byte count of a thread cache is the true number of bytes it holds, no class holds more than
  \<open>HZ12_CACHE_CAP\<close> objects, and the count stays below \<open>HZ12_MAX_CACHED_BYTES\<close> plus one slot of every class,
  after any pushes, pops, refills and checkpoints. The last term is needed: a push that overflows keeps its
  object, even where the empty class left no room under the cap.\<close>

theorem cached_bytes_bound:
  assumes "cache_run cfg tc" "c12_cache_byte_accounting cfg" "0 < c12_cache_cap cfg"
    "unat (c12_max_cached_bytes cfg) < 9223372036854775808"
  shows "unat (tc_cached_bytes tc) = (\<Sum>c<class_total cfg. slot_bytes cfg c * length (tc_items tc c)) \<and>
    (\<forall>c < class_total cfg. length (tc_items tc c) \<le> unat (c12_cache_cap cfg)) \<and>
    unat (tc_cached_bytes tc) \<le> unat (c12_max_cached_bytes cfg) + (\<Sum>c<class_total cfg. slot_bytes cfg c)"
proof -
  have ok: "bytes_ok cfg tc" using cache_run_bytes [OF assms(1)] assms(2-4) by (simp add: accounting_def)
  then have "unat (tc_cached_bytes tc) = cached_total cfg tc" "cached_excess cfg tc \<le> unat (c12_max_cached_bytes cfg)"
    by (simp_all add: bytes_ok_def)
  then have "unat (tc_cached_bytes tc) \<le> unat (c12_max_cached_bytes cfg) + (\<Sum>c<class_total cfg. slot_bytes cfg c)"
    using cached_split [of cfg tc] by linarith
  then show ?thesis using ok by (simp add: bytes_ok_def cached_total_def)
qed

text \<open>A cap of 16 bytes, and a cache that holds 48: one object of the classes 0 and 1 each.\<close>

definition tiny_config :: hz12_config where
  "tiny_config = hz12_default_config\<lparr>c12_max_cached_bytes := 16\<rparr>"

definition example_state :: h12_cache_state where
  "example_state = \<lparr>hz12_size_table = (\<lambda>_. 0), hz12_size_table_ready = False, h12_mem = (\<lambda>_. 0),
     h12_maps = [], hz12_arena_base = 0, hz12_arena_end = 0, hz12_span_cursor = 0,
     hz12_span_init_once = False, hz12_span_class = (\<lambda>_. 0), hz12_span_create_count = 0, hz12_returned = (\<lambda>_. 0),
     h12_dlsym = (\<lambda>_. True), hz12_real = (\<lambda>_. False), hz12_resolved = False, hz12_bootstrap_buf = 1048576,
     hz12_bootstrap_off = 0, h12_sys_answers = [], h12_sys_calls = [],
     h12_thread = (\<lambda>_. \<lparr>hz12_tls = None, hz12_resolving = False\<rparr>)\<rparr>"

definition over_cap :: H12ThreadCache where
  "over_cap = fst (hz12_thread_cache_push tiny_config False (of_nat 1) 8192
     (fst (hz12_thread_cache_push tiny_config False (of_nat 0) 4096 empty_thread_cache example_state)) example_state)"

lemma over_cap_run: "cache_run tiny_config over_cap"
  unfolding over_cap_def
  by (rule cache_run.push [OF cache_run.push [OF cache_run.start _ prod.collapse [symmetric]] _ prod.collapse [symmetric]])
    (simp_all add: tiny_config_def class_total_def HZ12_CLASS_COUNT_def hz12_default_config_def)

theorem cached_bytes_bound_witness:
  "unat (tc_cached_bytes over_cap) = 48 \<and> unat (c12_max_cached_bytes tiny_config) = 16 \<and>
   unat (tc_cached_bytes over_cap) \<le> 16 + (\<Sum>c<class_total tiny_config. slot_bytes tiny_config c)"
proof -
  have "unat (tc_cached_bytes over_cap) = 48" by code_simp
  moreover have "c12_cache_byte_accounting tiny_config" "0 < c12_cache_cap tiny_config" "c12_max_cached_bytes tiny_config = 16"
    by (simp_all add: tiny_config_def hz12_default_config_def)
  ultimately show ?thesis using cached_bytes_bound [OF over_cap_run] by simp
qed

end
