(* ===== verification/Hz12_Token_Lane.thy ===== *)
theory Hz12_Token_Lane
  imports Hz12_Cache_Correct Hz12_Public_Entry
begin

text \<open>
  The token lane of HZ12 (\<open>HZ12_CLASSIFY_SPAN=0\<close>, the default build): what the pointer-to-class table of
  \<open>hz12_token_table.h\<close> answers, and what a free does with a pointer whose entry is old. The operations are
  those of \<open>Hz12_Thread_Cache\<close> and \<open>Hz12_Public_Entry\<close>.
\<close>

lemma token_lookup_set:
  "hz12_token_lookup (hz12_token_set p c tokens) p = Some c"
  "hz12_token_hash q \<noteq> hz12_token_hash p \<Longrightarrow> hz12_token_lookup (hz12_token_set p c tokens) q = hz12_token_lookup tokens q"
  "hz12_token_hash q = hz12_token_hash p \<Longrightarrow> q \<noteq> p \<Longrightarrow> hz12_token_lookup (hz12_token_set p c tokens) q = None"
  by (simp_all add: hz12_token_lookup_def hz12_token_set_def Let_def)

lemma token_lookup_invalidate:
  "p \<noteq> 0 \<Longrightarrow> hz12_token_lookup (hz12_token_invalidate p tokens) p = None"
  "q \<noteq> p \<Longrightarrow> q \<noteq> 0 \<Longrightarrow> hz12_token_lookup (hz12_token_invalidate p tokens) q = hz12_token_lookup tokens q"
  by (auto simp: hz12_token_lookup_def hz12_token_invalidate_def Let_def)

lemma push_then_pop:
  assumes "c < HZ12_CLASS_COUNT cfg" "hz12_thread_cache_push cfg r c p tc st = (tc', st')"
  shows "fst (hz12_thread_cache_pop cfg c tc') = p"
  using assms
  by (auto simp: hz12_thread_cache_push_def hz12_thread_cache_push_overflow_slow_def hz12_thread_cache_pop_def
      Let_def not_le split: if_splits prod.splits)

text \<open>In this lane a flush only calls the system's free.\<close>

definition same_process :: "'a h12_cache_state_scheme \<Rightarrow> 'a h12_cache_state_scheme \<Rightarrow> bool" where
  "same_process st st' \<longleftrightarrow> h12_thread st' = h12_thread st \<and> hz12_size_table st' = hz12_size_table st \<and>
     hz12_size_table_ready st' = hz12_size_table_ready st"

lemma sys_free_process [simp]: "same_process st (hz12_sys_free r p st)"
  by (auto simp: same_process_def hz12_sys_free_def hz12_resolver_ensure_def Let_def)

lemma same_process_refl [simp]: "same_process st st"
  by (simp add: same_process_def)

lemma same_process_trans: "same_process st st' \<Longrightarrow> same_process st' st'' \<Longrightarrow> same_process st st''"
  by (simp add: same_process_def)

lemma flush_items_process: "\<not> c12_classify_span cfg \<Longrightarrow> same_process st (flush_items cfg r c ps st)"
proof (induction ps arbitrary: st)
  case (Cons p ps)
  have "same_process (hz12_sys_free r p st) (flush_items cfg r c ps (hz12_sys_free r p st))" by (rule Cons.IH [OF Cons.prems])
  then show ?case using same_process_trans [OF sys_free_process [of st r p]] Cons.prems by simp
qed (simp add: same_process_def)

lemma push_process:
  assumes "\<not> c12_classify_span cfg" "hz12_thread_cache_push cfg r c p tc st = (tc', st')"
  shows "same_process st st'"
  using assms flush_items_process [OF assms(1)]
  by (auto simp: hz12_thread_cache_push_def hz12_thread_cache_push_overflow_slow_def hz12_thread_cache_flush_class_def
      Let_def intro: same_process_trans [OF _ sys_free_process] split: if_splits)

lemma sys_malloc_process: "hz12_sys_malloc r n st = (p, st') \<Longrightarrow> same_process st st'"
  by (auto simp: same_process_def hz12_sys_malloc_def hz12_bootstrap_alloc_def sys_answer_def
      hz12_resolver_ensure_def Let_def split: if_splits)

lemma sys_calloc_process: "hz12_sys_calloc r m n st = (p, st') \<Longrightarrow> same_process st st'"
  by (auto simp: same_process_def hz12_sys_calloc_def hz12_sys_malloc_def hz12_bootstrap_alloc_def sys_answer_def
      hz12_resolver_ensure_def Let_def split: if_splits prod.splits)

lemma size_class_same:
  assumes "same_process st st'"
  shows "fst (hz12_size_class cfg sz st') = fst (hz12_size_class cfg sz st)"
    "snd (hz12_size_class cfg sz st') = st' \<or> snd (hz12_size_class cfg sz st') = hz12_size_class_init cfg st'"
  using assms by (auto simp: same_process_def hz12_size_class_def hz12_size_class_init_def Let_def)

text \<open>C31: tokens outlive the objects they describe. Where the table of a thread still has an entry of class
  \<open>c\<close> for the address the system answers to a \<open>calloc\<close> of \<open>n\<close> bytes, freeing that block puts it into the cache
  of class \<open>c\<close>, and the next \<open>malloc\<close> of that class returns it, whatever \<open>n\<close> is.\<close>

theorem stale_token_undersized:
  assumes "\<not> c12_classify_span cfg" "\<not> resolving_of t st" "hz12_tls (h12_thread st t) = Some tc"
    "hz12_token_lookup (tc_tokens tc) p = Some c" "c < HZ12_CLASS_COUNT cfg" "p \<noteq> 0"
    "hz12_calloc t 1 n st = (p, st1)" "fst (hz12_size_class cfg sz st) = c"
  shows "fst (hz12_malloc cfg t sz (hz12_free cfg t p st1)) = p"
proof -
  have P1: "same_process st st1" using assms(7) by (auto simp: hz12_calloc_def intro: sys_calloc_process)
  then have th1: "h12_thread st1 = h12_thread st" by (simp add: same_process_def)
  have cl: "c \<noteq> HZ12_LARGE_CLASS" using assms(5) class_count_cases(2) [of cfg] by (auto simp: word_less_nat_alt)
  obtain tc2 st2 where push: "hz12_thread_cache_push cfg (resolving_of t st1) c p tc st1 = (tc2, st2)" by force
  have P2: "same_process st1 st2" by (rule push_process [OF assms(1) push])
  have free: "hz12_free cfg t p st1 = store_tls t tc2 st2"
    using assms(1-4,6) th1 cl push
    by (simp add: hz12_free_def skips_cache_def hz12_thread_cache_get_def hz12_free_fast_with_tc_def Let_def)
  let ?st = "store_tls t tc2 st2"
  have th: "hz12_tls (h12_thread ?st t) = Some tc2" "\<not> resolving_of t ?st"
    using P2 th1 assms(2) by (simp_all add: store_tls_def same_process_def)
  have "fst (hz12_size_class cfg sz ?st) = fst (hz12_size_class cfg sz st2)"
    by (simp add: store_tls_def hz12_size_class_def hz12_size_class_init_def Let_def)
  also have "\<dots> = c" using size_class_same(1) [OF same_process_trans [OF P1 P2]] assms(8) by simp
  finally obtain st3 where sc: "hz12_size_class cfg sz ?st = (c, st3)" by (cases "hz12_size_class cfg sz ?st") simp
  obtain tc3 where "hz12_thread_cache_pop cfg c tc2 = (p, tc3)"
    using push_then_pop [OF assms(5) push] by (cases "hz12_thread_cache_pop cfg c tc2") simp
  then show ?thesis using th sc cl assms(6) free
    by (simp add: hz12_malloc_def skips_cache_def hz12_thread_cache_get_def hz12_malloc_fast_with_tc_def Let_def
        split: prod.splits)
qed

text \<open>A program that reaches such a state: thread 0 allocates 32 bytes, thread 1 frees them to the system, and the
  system gives the address again to a \<open>calloc\<close> of 8 bytes by thread 0.\<close>

definition token_boot :: h12_cache_state where
  "token_boot = \<lparr>hz12_size_table = (\<lambda>_. 0), hz12_size_table_ready = False, h12_mem = (\<lambda>_. 0),
     h12_maps = [], hz12_arena_base = 0, hz12_arena_end = 0, hz12_span_cursor = 0,
     hz12_span_init_once = False, hz12_span_class = (\<lambda>_. 0), hz12_span_create_count = 0, hz12_returned = (\<lambda>_. 0),
     h12_dlsym = (\<lambda>_. True), hz12_real = (\<lambda>_. False), hz12_resolved = False, hz12_bootstrap_buf = 1048576,
     hz12_bootstrap_off = 0, h12_sys_answers = [2097152, 3145728, 4194304, 3145728], h12_sys_calls = [],
     h12_thread = (\<lambda>_. \<lparr>hz12_tls = None, hz12_resolving = False\<rparr>)\<rparr>"

definition token_before :: h12_cache_state where
  "token_before = hz12_free hz12_default_config 1 3145728 (snd (hz12_malloc hz12_default_config 0 32 token_boot))"

lemma token_before_facts:
  "\<not> resolving_of 0 token_before"
  "map_option (\<lambda>tc. hz12_token_lookup (tc_tokens tc) 3145728) (hz12_tls (h12_thread token_before 0)) = Some (Some 1)"
  "fst (hz12_calloc 0 1 8 token_before) = 3145728" "fst (hz12_size_class hz12_default_config 32 token_before) = 1"
  "h12_sys_calls token_before = [Sys_free 3145728, Sys_malloc 20072 4194304, Sys_malloc 32 3145728, Sys_malloc 20072 2097152]"
  by code_simp+

theorem stale_token_undersized_witness:
  "fst (hz12_malloc hz12_default_config 0 32
     (hz12_free hz12_default_config 0 3145728 (snd (hz12_calloc 0 1 8 token_before)))) = 3145728"
proof -
  obtain tc where "hz12_tls (h12_thread token_before 0) = Some tc" "hz12_token_lookup (tc_tokens tc) 3145728 = Some 1"
    using token_before_facts(2) by auto
  moreover have "hz12_calloc 0 1 8 token_before = (3145728, snd (hz12_calloc 0 1 8 token_before))"
    using token_before_facts(3) by (metis prod.collapse)
  ultimately show ?thesis
    using stale_token_undersized [where cfg = hz12_default_config and t = 0 and st = token_before and tc = tc
        and p = 3145728 and c = 1 and n = 8 and sz = 32] token_before_facts(1,4)
    by (simp add: hz12_default_config_def HZ12_CLASS_COUNT_def)
qed

end
