(* ===== verification/Hz12_Owner_Registry.thy ===== *)
theory Hz12_Owner_Registry
  imports Hz10_Prelude
begin

text \<open>
  \<open>src/hakozuna-hz12/src/hz12_owner_registry.{h,c}\<close>: the 64 owner slots, the generations that tell a
  token of a reused slot from an older one, and the life of an owner
  \<open>ACTIVE \<rightarrow> RETIRING \<rightarrow> DEAD\<close>. Every function runs under one lock, so it is one step. Pointer
  arguments are taken as given; the lock is not part of the state.
\<close>

record H12OwnerToken =
  ot_slot :: u32
  ot_generation :: u32

datatype H12OwnerState = HZ12_OWNER_FREE | HZ12_OWNER_ACTIVE | HZ12_OWNER_RETIRING | HZ12_OWNER_DEAD

record H12OwnerEntry =
  oe_generation :: u32
  oe_state :: H12OwnerState

record H12OwnerRegistryStats =
  os_register_success :: u64
  os_register_reuse :: u64
  os_register_full :: u64
  os_retire_success :: u64
  os_dead_success :: u64
  os_publish_accept :: u64
  os_publish_stale_reject :: u64
  os_publish_dead_reject :: u64
  os_publish_invalid_reject :: u64
  os_invalid_transition :: u64

record H12OwnerRegistry =
  h12_owner_entries :: "nat \<Rightarrow> H12OwnerEntry"
  h12_owner_stats :: H12OwnerRegistryStats
  h12_owner_initialized :: bool

abbreviation (input) HZ12_OWNER_REGISTRY_CAP :: nat where "HZ12_OWNER_REGISTRY_CAP \<equiv> 64"

definition empty_owner_stats :: H12OwnerRegistryStats where
  "empty_owner_stats = \<lparr>os_register_success = 0, os_register_reuse = 0, os_register_full = 0, os_retire_success = 0,
     os_dead_success = 0, os_publish_accept = 0, os_publish_stale_reject = 0, os_publish_dead_reject = 0,
     os_publish_invalid_reject = 0, os_invalid_transition = 0\<rparr>"

definition owner_of :: "H12OwnerToken \<Rightarrow> H12OwnerRegistry \<Rightarrow> H12OwnerEntry" where
  "owner_of token reg = h12_owner_entries reg (unat (ot_slot token))"

definition h12_owner_token_matches :: "H12OwnerToken \<Rightarrow> H12OwnerRegistry \<Rightarrow> bool" where
  "h12_owner_token_matches token reg \<longleftrightarrow>
     \<not> (unat (ot_slot token) \<ge> HZ12_OWNER_REGISTRY_CAP \<or> ot_generation token = 0) \<and>
     oe_generation (owner_of token reg) = ot_generation token"

definition set_owner_state :: "H12OwnerToken \<Rightarrow> H12OwnerState \<Rightarrow> H12OwnerRegistry \<Rightarrow> H12OwnerRegistry" where
  "set_owner_state token s reg = reg\<lparr>h12_owner_entries := (h12_owner_entries reg)
     (unat (ot_slot token) := (owner_of token reg)\<lparr>oe_state := s\<rparr>)\<rparr>"

definition h12_owner_registry_reset :: "H12OwnerRegistry \<Rightarrow> H12OwnerRegistry" where
  "h12_owner_registry_reset reg = \<lparr>h12_owner_entries = (\<lambda>_. \<lparr>oe_generation = 0, oe_state = HZ12_OWNER_FREE\<rparr>),
     h12_owner_stats = empty_owner_stats, h12_owner_initialized = True\<rparr>"

definition first_owner_in :: "H12OwnerState \<Rightarrow> H12OwnerRegistry \<Rightarrow> nat option" where
  "first_owner_in s reg = List.find (\<lambda>i. oe_state (h12_owner_entries reg i) = s) [0..<HZ12_OWNER_REGISTRY_CAP]"

definition activate_owner :: "nat \<Rightarrow> bool \<Rightarrow> H12OwnerRegistry \<Rightarrow> H12OwnerToken \<times> H12OwnerRegistry" where
  "activate_owner slot reused reg =
    (let generation = oe_generation (h12_owner_entries reg slot) + 1;
         generation = (if generation = 0 then 1 else generation);
         stats = h12_owner_stats reg in
     (\<lparr>ot_slot = of_nat slot, ot_generation = generation\<rparr>,
      reg\<lparr>h12_owner_entries := (h12_owner_entries reg)
            (slot := \<lparr>oe_generation = generation, oe_state = HZ12_OWNER_ACTIVE\<rparr>),
          h12_owner_stats := stats\<lparr>os_register_success := os_register_success stats + 1,
            os_register_reuse := (if reused then os_register_reuse stats + 1 else os_register_reuse stats)\<rparr>\<rparr>))"

definition h12_owner_register :: "H12OwnerRegistry \<Rightarrow> H12OwnerToken option \<times> H12OwnerRegistry" where
  "h12_owner_register reg =
    (if \<not> h12_owner_initialized reg then (None, reg)
     else case first_owner_in HZ12_OWNER_DEAD reg of
       Some slot \<Rightarrow> (case activate_owner slot True reg of (token, reg') \<Rightarrow> (Some token, reg'))
     | None \<Rightarrow>
         (case first_owner_in HZ12_OWNER_FREE reg of
           Some slot \<Rightarrow> (case activate_owner slot False reg of (token, reg') \<Rightarrow> (Some token, reg'))
         | None \<Rightarrow> (None, reg\<lparr>h12_owner_stats := (h12_owner_stats reg)
             \<lparr>os_register_full := os_register_full (h12_owner_stats reg) + 1\<rparr>\<rparr>)))"

definition invalid_transition :: "H12OwnerRegistry \<Rightarrow> H12OwnerRegistry" where
  "invalid_transition reg = reg\<lparr>h12_owner_stats := (h12_owner_stats reg)
     \<lparr>os_invalid_transition := os_invalid_transition (h12_owner_stats reg) + 1\<rparr>\<rparr>"

definition h12_owner_begin_retire :: "H12OwnerToken \<Rightarrow> H12OwnerRegistry \<Rightarrow> bool \<times> H12OwnerRegistry" where
  "h12_owner_begin_retire token reg =
    (if \<not> h12_owner_initialized reg then (False, reg)
     else if h12_owner_token_matches token reg \<and> oe_state (owner_of token reg) = HZ12_OWNER_ACTIVE
     then (True, (set_owner_state token HZ12_OWNER_RETIRING reg)\<lparr>h12_owner_stats := (h12_owner_stats reg)
            \<lparr>os_retire_success := os_retire_success (h12_owner_stats reg) + 1\<rparr>\<rparr>)
     else (False, invalid_transition reg))"

definition h12_owner_mark_dead :: "H12OwnerToken \<Rightarrow> H12OwnerRegistry \<Rightarrow> bool \<times> H12OwnerRegistry" where
  "h12_owner_mark_dead token reg =
    (if \<not> h12_owner_initialized reg then (False, reg)
     else if h12_owner_token_matches token reg \<and> oe_state (owner_of token reg) = HZ12_OWNER_RETIRING
     then (True, (set_owner_state token HZ12_OWNER_DEAD reg)\<lparr>h12_owner_stats := (h12_owner_stats reg)
            \<lparr>os_dead_success := os_dead_success (h12_owner_stats reg) + 1\<rparr>\<rparr>)
     else (False, invalid_transition reg))"

definition h12_owner_publishable :: "H12OwnerToken \<Rightarrow> H12OwnerRegistry \<Rightarrow> bool \<times> H12OwnerRegistry" where
  "h12_owner_publishable token reg =
    (if \<not> h12_owner_initialized reg then (False, reg)
     else
       let stats = h12_owner_stats reg; entry = owner_of token reg in
       if unat (ot_slot token) \<ge> HZ12_OWNER_REGISTRY_CAP \<or> ot_generation token = 0
       then (False, reg\<lparr>h12_owner_stats := stats\<lparr>os_publish_invalid_reject := os_publish_invalid_reject stats + 1\<rparr>\<rparr>)
       else if oe_generation entry \<noteq> ot_generation token
       then (False, reg\<lparr>h12_owner_stats := stats\<lparr>os_publish_stale_reject := os_publish_stale_reject stats + 1\<rparr>\<rparr>)
       else if oe_state entry = HZ12_OWNER_ACTIVE \<or> oe_state entry = HZ12_OWNER_RETIRING
       then (True, reg\<lparr>h12_owner_stats := stats\<lparr>os_publish_accept := os_publish_accept stats + 1\<rparr>\<rparr>)
       else (False, reg\<lparr>h12_owner_stats := stats\<lparr>os_publish_dead_reject := os_publish_dead_reject stats + 1\<rparr>\<rparr>))"

definition h12_owner_state :: "H12OwnerToken \<Rightarrow> H12OwnerRegistry \<Rightarrow> H12OwnerState" where
  "h12_owner_state token reg =
    (if h12_owner_initialized reg \<and> h12_owner_token_matches token reg then oe_state (owner_of token reg)
     else HZ12_OWNER_FREE)"

section \<open>Runs that only move forward\<close>

text \<open>The interface of a component whose steps never lower a measure as long as no counter has wrapped:
  \<open>fits n s\<close> says that \<open>s\<close> can be the state after \<open>n\<close> steps, which is known for the first \<open>horizon\<close> steps.\<close>

locale forward_run =
  fixes step :: "'e \<Rightarrow> 's \<Rightarrow> 's" and measure_of :: "'s \<Rightarrow> nat" and fits :: "nat \<Rightarrow> 's \<Rightarrow> bool" and horizon :: nat
  assumes step_fits: "fits n s \<Longrightarrow> n < horizon \<Longrightarrow> fits (Suc n) (step e s)"
    and step_forward: "fits n s \<Longrightarrow> n < horizon \<Longrightarrow> measure_of s \<le> measure_of (step e s)"
begin

lemma run_fits: "fits n s \<Longrightarrow> n + length es \<le> horizon \<Longrightarrow> fits (n + length es) (fold step es s)"
proof (induction es arbitrary: n s)
  case (Cons e es)
  have "fits (Suc n) (step e s)" by (rule step_fits [OF Cons.prems(1)]) (use Cons.prems(2) in simp)
  then show ?case using Cons.IH [of "Suc n" "step e s"] Cons.prems(2) by simp
qed simp

lemma run_forward: "fits n s \<Longrightarrow> n + length es \<le> horizon \<Longrightarrow> measure_of s \<le> measure_of (fold step es s)"
proof (induction es arbitrary: n s)
  case (Cons e es)
  have f: "fits (Suc n) (step e s)" "measure_of s \<le> measure_of (step e s)"
    using step_fits [OF Cons.prems(1)] step_forward [OF Cons.prems(1)] Cons.prems(2) by simp_all
  show ?case using Cons.IH [OF f(1)] f(2) Cons.prems(2) by simp
qed simp

end

section \<open>The life of an owner\<close>

datatype owner_op = Op_register | Op_begin_retire H12OwnerToken | Op_mark_dead H12OwnerToken
  | Op_publishable H12OwnerToken

fun owner_step :: "owner_op \<Rightarrow> H12OwnerRegistry \<Rightarrow> H12OwnerRegistry" where
  "owner_step Op_register reg = snd (h12_owner_register reg)"
| "owner_step (Op_begin_retire token) reg = snd (h12_owner_begin_retire token reg)"
| "owner_step (Op_mark_dead token) reg = snd (h12_owner_mark_dead token reg)"
| "owner_step (Op_publishable token) reg = snd (h12_owner_publishable token reg)"

fun state_rank :: "H12OwnerState \<Rightarrow> nat" where
  "state_rank HZ12_OWNER_FREE = 0"
| "state_rank HZ12_OWNER_ACTIVE = 1"
| "state_rank HZ12_OWNER_RETIRING = 2"
| "state_rank HZ12_OWNER_DEAD = 3"

text \<open>How far slot \<open>i\<close> has come: its generation, then its state.\<close>

definition owner_age :: "nat \<Rightarrow> H12OwnerRegistry \<Rightarrow> nat" where
  "owner_age i reg = 4 * unat (oe_generation (h12_owner_entries reg i)) + state_rank (oe_state (h12_owner_entries reg i))"

text \<open>After \<open>n\<close> steps no generation is above \<open>n\<close>.\<close>

definition owner_fits :: "nat \<Rightarrow> H12OwnerRegistry \<Rightarrow> bool" where
  "owner_fits n reg \<longleftrightarrow> (\<forall>i. unat (oe_generation (h12_owner_entries reg i)) \<le> n)"

lemma state_rank_le: "state_rank s \<le> 3"
  by (cases s) simp_all

lemma activate_facts:
  assumes "activate_owner slot reused reg = (token, reg')" "unat (oe_generation (h12_owner_entries reg slot)) < 4294967295"
  shows "unat (oe_generation (h12_owner_entries reg' slot)) = Suc (unat (oe_generation (h12_owner_entries reg slot)))"
    "oe_state (h12_owner_entries reg' slot) = HZ12_OWNER_ACTIVE" "i \<noteq> slot \<Longrightarrow> h12_owner_entries reg' i = h12_owner_entries reg i"
    "ot_slot token = of_nat slot" "ot_generation token = oe_generation (h12_owner_entries reg' slot)"
    "h12_owner_initialized reg' = h12_owner_initialized reg"
proof -
  let ?g = "oe_generation (h12_owner_entries reg slot)"
  have u: "unat (?g + 1) = Suc (unat ?g)" using assms(2) by (subst unat_add_no_wrap) simp_all
  then have nz: "?g + 1 \<noteq> 0" by (metis unat_eq_0 nat.distinct(1))
  then show "unat (oe_generation (h12_owner_entries reg' slot)) = Suc (unat ?g)" using assms(1) u
    by (auto simp: activate_owner_def Let_def)
  show "oe_state (h12_owner_entries reg' slot) = HZ12_OWNER_ACTIVE" "i \<noteq> slot \<Longrightarrow> h12_owner_entries reg' i = h12_owner_entries reg i"
    "ot_slot token = of_nat slot" "ot_generation token = oe_generation (h12_owner_entries reg' slot)"
    "h12_owner_initialized reg' = h12_owner_initialized reg"
    using assms(1) nz by (auto simp: activate_owner_def Let_def)
qed

lemma first_owner_Some:
  assumes "first_owner_in s reg = Some i"
  shows "i < HZ12_OWNER_REGISTRY_CAP" "oe_state (h12_owner_entries reg i) = s"
    "\<And>j. j < i \<Longrightarrow> oe_state (h12_owner_entries reg j) \<noteq> s"
  using assms by (auto simp: first_owner_in_def find_Some_iff)

lemma first_owner_None:
  "first_owner_in s reg = None \<longleftrightarrow> (\<forall>i < HZ12_OWNER_REGISTRY_CAP. oe_state (h12_owner_entries reg i) \<noteq> s)"
  by (auto simp: first_owner_in_def find_None_iff)

lemma owner_register_cases:
  assumes "h12_owner_register reg = (r, reg')"
  obtains (none) "r = None" "h12_owner_entries reg' = h12_owner_entries reg"
      "h12_owner_initialized reg \<Longrightarrow> \<forall>i < HZ12_OWNER_REGISTRY_CAP.
         oe_state (h12_owner_entries reg i) \<in> {HZ12_OWNER_ACTIVE, HZ12_OWNER_RETIRING}"
      "h12_owner_initialized reg' = h12_owner_initialized reg"
  | (some) slot reused token where "r = Some token" "activate_owner slot reused reg = (token, reg')"
      "slot < HZ12_OWNER_REGISTRY_CAP" "oe_state (h12_owner_entries reg slot) \<in> {HZ12_OWNER_DEAD, HZ12_OWNER_FREE}"
      "h12_owner_initialized reg"
proof -
  have cover: "s \<noteq> HZ12_OWNER_DEAD \<Longrightarrow> s \<noteq> HZ12_OWNER_FREE \<Longrightarrow> s = HZ12_OWNER_ACTIVE \<or> s = HZ12_OWNER_RETIRING" for s
    by (cases s) simp_all
  show ?thesis
  proof (cases r)
    case None
    show ?thesis
    proof (rule none [OF None])
      show "h12_owner_entries reg' = h12_owner_entries reg" "h12_owner_initialized reg' = h12_owner_initialized reg"
        using assms None by (auto simp: h12_owner_register_def split: if_splits option.splits prod.splits)
      assume "h12_owner_initialized reg"
      then have "first_owner_in HZ12_OWNER_DEAD reg = None" "first_owner_in HZ12_OWNER_FREE reg = None"
        using assms None by (auto simp: h12_owner_register_def split: option.splits prod.splits)
      then show "\<forall>i < HZ12_OWNER_REGISTRY_CAP.
         oe_state (h12_owner_entries reg i) \<in> {HZ12_OWNER_ACTIVE, HZ12_OWNER_RETIRING}"
        unfolding first_owner_None using cover by auto
    qed
  next
    case (Some token)
    then obtain slot reused where "activate_owner slot reused reg = (token, reg')" "h12_owner_initialized reg"
      "first_owner_in HZ12_OWNER_DEAD reg = Some slot \<or> first_owner_in HZ12_OWNER_FREE reg = Some slot"
      using assms by (auto simp: h12_owner_register_def split: if_splits option.splits prod.splits)
    then show ?thesis using some [OF Some] first_owner_Some by blast
  qed
qed

lemma set_owner_entry:
  "h12_owner_entries (set_owner_state token s reg) = (h12_owner_entries reg)
     (unat (ot_slot token) := (owner_of token reg)\<lparr>oe_state := s\<rparr>)"
  by (simp add: set_owner_state_def)

lemma step_entry:
  assumes "owner_fits n reg" "n < 4294967295"
  shows "owner_fits (Suc n) (owner_step e reg)" "owner_age i reg \<le> owner_age i (owner_step e reg)"
proof -
  have "owner_fits (Suc n) (owner_step e reg) \<and> owner_age i reg \<le> owner_age i (owner_step e reg)"
  proof (cases e)
    case Op_register
    obtain r reg' where run: "h12_owner_register reg = (r, reg')" by force
    from run show ?thesis
    proof (cases rule: owner_register_cases)
      case none
      then show ?thesis using run Op_register assms(1) by (simp add: owner_fits_def owner_age_def le_SucI)
    next
      case (some slot reused token)
      have lt: "unat (oe_generation (h12_owner_entries reg slot)) < 4294967295"
        using assms by (auto simp: owner_fits_def intro: le_less_trans)
      note A = activate_facts [OF some(2) lt]
      have "unat (oe_generation (h12_owner_entries reg' k)) \<le> Suc n" for k
        using assms(1) A(1) A(3) [of k] by (cases "k = slot") (auto simp: owner_fits_def le_SucI)
      moreover have "owner_age i reg \<le> owner_age i reg'"
        using A(1,2) A(3) [of i] state_rank_le [of "oe_state (h12_owner_entries reg slot)"]
        by (cases "i = slot") (simp_all add: owner_age_def)
      ultimately show ?thesis using run Op_register by (simp add: owner_fits_def)
    qed
  next
    case (Op_begin_retire token)
    then show ?thesis using assms(1)
      by (auto simp: h12_owner_begin_retire_def owner_fits_def owner_age_def set_owner_entry invalid_transition_def owner_of_def le_SucI)
  next
    case (Op_mark_dead token)
    then show ?thesis using assms(1)
      by (auto simp: h12_owner_mark_dead_def owner_fits_def owner_age_def set_owner_entry invalid_transition_def owner_of_def le_SucI)
  next
    case (Op_publishable token)
    then show ?thesis using assms(1)
      by (auto simp: h12_owner_publishable_def owner_fits_def owner_age_def Let_def le_SucI)
  qed
  then show "owner_fits (Suc n) (owner_step e reg)" "owner_age i reg \<le> owner_age i (owner_step e reg)" by simp_all
qed

interpretation owner_life: forward_run owner_step "owner_age i" owner_fits 4294967295 for i
  by unfold_locales (auto intro: step_entry)

lemma reset_fits: "owner_fits 0 (h12_owner_registry_reset reg)"
  by (simp add: owner_fits_def h12_owner_registry_reset_def)

lemma publishable_age:
  assumes "fst (h12_owner_publishable token reg)"
  shows "owner_age (unat (ot_slot token)) reg \<le> 4 * unat (ot_generation token) + 2"
  using assms by (auto simp: h12_owner_publishable_def owner_age_def owner_of_def Let_def split: if_splits)

lemma dead_age:
  assumes "h12_owner_mark_dead token reg = (True, reg1)"
  shows "owner_age (unat (ot_slot token)) reg1 = 4 * unat (ot_generation token) + 3"
  using assms by (auto simp: h12_owner_mark_dead_def owner_age_def owner_of_def set_owner_entry
      h12_owner_token_matches_def split: if_splits)

text \<open>C32: an owner that was marked dead is never publishable again, whatever is registered, retired and marked
  afterwards, in particular after its slot was given to a new owner, for the first 2^32 - 1 operations after a
  reset.\<close>

theorem dead_owner_stays_dead:
  assumes "reg = fold owner_step before (h12_owner_registry_reset start)"
    "h12_owner_mark_dead token reg = (True, reg1)" "length before + length later < 4294967295"
  shows "\<not> fst (h12_owner_publishable token (fold owner_step later reg1))"
proof
  assume pub: "fst (h12_owner_publishable token (fold owner_step later reg1))"
  have f: "owner_fits (length before) reg"
    using owner_life.run_fits [OF reset_fits, of before] assms(1,3) by simp
  have "owner_fits (Suc (length before)) reg1"
    using step_entry(1) [OF f, of "Op_mark_dead token"] assms(2,3) by simp
  then have "owner_age (unat (ot_slot token)) reg1 \<le> owner_age (unat (ot_slot token)) (fold owner_step later reg1)"
    by (rule owner_life.run_forward) (use assms(3) in simp)
  then show False using dead_age [OF assms(2)] publishable_age [OF pub] by simp
qed

definition example_registry :: H12OwnerRegistry where
  "example_registry = \<lparr>h12_owner_entries = (\<lambda>_. \<lparr>oe_generation = 0, oe_state = HZ12_OWNER_FREE\<rparr>),
     h12_owner_stats = empty_owner_stats, h12_owner_initialized = False\<rparr>"

definition example_owner :: H12OwnerToken where
  "example_owner = \<lparr>ot_slot = 0, ot_generation = 1\<rparr>"

theorem dead_owner_stays_dead_witness:
  "let reg = fold owner_step [Op_register, Op_begin_retire example_owner] (h12_owner_registry_reset example_registry);
       reg1 = snd (h12_owner_mark_dead example_owner reg) in
   fst (h12_owner_mark_dead example_owner reg) \<and>
   fst (h12_owner_register reg1) = Some \<lparr>ot_slot = 0, ot_generation = 2\<rparr> \<and>
   \<not> fst (h12_owner_publishable example_owner (fold owner_step [Op_register] reg1))"
proof -
  let ?reg = "fold owner_step [Op_register, Op_begin_retire example_owner] (h12_owner_registry_reset example_registry)"
  have e: "fst (h12_owner_mark_dead example_owner ?reg)"
    "fst (h12_owner_register (snd (h12_owner_mark_dead example_owner ?reg))) = Some \<lparr>ot_slot = 0, ot_generation = 2\<rparr>"
    by code_simp+
  then have "h12_owner_mark_dead example_owner ?reg = (True, snd (h12_owner_mark_dead example_owner ?reg))"
    by (metis (full_types) prod.collapse)
  from dead_owner_stays_dead [OF refl this, of "[Op_register]"] show ?thesis using e unfolding Let_def by simp
qed

lemma register_age:
  assumes "owner_fits n reg" "n < 4294967295" "h12_owner_register reg = (Some token, reg')"
  shows "owner_age (unat (ot_slot token)) reg' = 4 * unat (ot_generation token) + 1"
    "owner_age (unat (ot_slot token)) reg < 4 * unat (ot_generation token)"
proof -
  from assms(3) have "owner_age (unat (ot_slot token)) reg' = 4 * unat (ot_generation token) + 1 \<and>
    owner_age (unat (ot_slot token)) reg < 4 * unat (ot_generation token)"
  proof (cases rule: owner_register_cases)
    case (some slot reused token')
    have lt: "unat (oe_generation (h12_owner_entries reg slot)) < 4294967295"
      using assms(1,2) by (auto simp: owner_fits_def intro: le_less_trans)
    note A = activate_facts [OF some(2) lt]
    have "unat (ot_slot token') = slot" using A(4) some(3) by (simp add: unat_of_nat)
    then show ?thesis using A(1,2,5) some(1) state_rank_le [of "oe_state (h12_owner_entries reg slot)"]
      by (simp add: owner_age_def)
  qed simp
  then show "owner_age (unat (ot_slot token)) reg' = 4 * unat (ot_generation token) + 1"
    "owner_age (unat (ot_slot token)) reg < 4 * unat (ot_generation token)" by simp_all
qed

text \<open>No token is handed out twice in the first 2^32 - 1 operations after a reset.\<close>

theorem owner_tokens_fresh:
  assumes "reg = fold owner_step before (h12_owner_registry_reset start)"
    "h12_owner_register reg = (Some token, reg1)" "h12_owner_register (fold owner_step between reg1) = (Some token', reg2)"
    "length before + length between + 1 < 4294967295"
  shows "token' \<noteq> token"
proof
  assume same: "token' = token"
  have f: "owner_fits (length before) reg"
    using owner_life.run_fits [OF reset_fits, of before] assms(1,4) by simp
  have f1: "owner_fits (Suc (length before)) reg1"
    using step_entry(1) [OF f, of Op_register] assms(2,4) by simp
  have f2: "owner_fits (Suc (length before) + length between) (fold owner_step between reg1)"
    by (rule owner_life.run_fits [OF f1]) (use assms(4) in simp)
  have "owner_age (unat (ot_slot token)) reg1 \<le> owner_age (unat (ot_slot token)) (fold owner_step between reg1)"
    by (rule owner_life.run_forward [OF f1]) (use assms(4) in simp)
  moreover have "owner_age (unat (ot_slot token)) reg1 = 4 * unat (ot_generation token) + 1"
    by (rule register_age(1) [OF f _ assms(2)]) (use assms(4) in simp)
  moreover have "owner_age (unat (ot_slot token)) (fold owner_step between reg1) < 4 * unat (ot_generation token)"
    using register_age(2) [OF f2 _ assms(3)] assms(4) same by simp
  ultimately show False by simp
qed

theorem owner_tokens_fresh_witness:
  "let reg = h12_owner_registry_reset example_registry;
       reg1 = snd (h12_owner_register reg);
       reg2 = fold owner_step [Op_begin_retire example_owner, Op_mark_dead example_owner] reg1 in
   fst (h12_owner_register reg) = Some example_owner \<and>
   (\<exists>token'. fst (h12_owner_register reg2) = Some token' \<and> token' \<noteq> example_owner)"
proof -
  let ?reg = "h12_owner_registry_reset example_registry"
  let ?reg2 = "fold owner_step [Op_begin_retire example_owner, Op_mark_dead example_owner] (snd (h12_owner_register ?reg))"
  have e: "fst (h12_owner_register ?reg) = Some example_owner"
    "fst (h12_owner_register ?reg2) = Some \<lparr>ot_slot = 0, ot_generation = 2\<rparr>"
    by code_simp+
  then have r: "h12_owner_register ?reg = (Some example_owner, snd (h12_owner_register ?reg))"
    "h12_owner_register ?reg2 = (Some \<lparr>ot_slot = 0, ot_generation = 2\<rparr>, snd (h12_owner_register ?reg2))"
    by (metis prod.collapse)+
  have "\<lparr>ot_slot = 0, ot_generation = 2\<rparr> \<noteq> example_owner"
    by (rule owner_tokens_fresh [where before = "[]" and start = example_registry, OF _ r]) simp_all
  then show ?thesis using e unfolding Let_def by blast
qed

text \<open>Registration fails exactly where all 64 slots are in use.\<close>

lemma register_fails_iff_full:
  assumes "h12_owner_initialized reg"
  shows "fst (h12_owner_register reg) = None \<longleftrightarrow>
    (\<forall>i < HZ12_OWNER_REGISTRY_CAP. oe_state (h12_owner_entries reg i) \<in> {HZ12_OWNER_ACTIVE, HZ12_OWNER_RETIRING})"
proof -
  obtain r reg' where run: "h12_owner_register reg = (r, reg')" by force
  from run show ?thesis by (cases rule: owner_register_cases) (use assms run in auto)
qed

end
