(* ===== verification/Hz12_Owner_Epoch.thy ===== *)
theory Hz12_Owner_Epoch
  imports Hz12_Owner_Registry
begin

text \<open>
  \<open>src/hakozuna-hz12/src/hz12_owner_epoch.{h,c}\<close>: before an owner may die, every participant that was
  registered when its retirement began has to pass a checkpoint. One retirement runs at a time. Every function
  runs under one lock and is one step, except \<open>h12_owner_epoch_finish_retire\<close>, which takes the lock twice and
  is read as its two sections in a row.
\<close>

record H12OwnerEpochParticipant =
  pt_slot :: u32
  pt_generation :: u32

record H12OwnerEpochParticipantEntry =
  pe_generation :: u32
  pe_active :: bool
  pe_acknowledged_epoch :: u32

record H12OwnerEpochRetire =
  er_owner :: H12OwnerToken
  er_epoch :: u32
  er_participant_count :: u32
  er_participant_generation :: "nat \<Rightarrow> u32"
  er_active :: bool

record H12OwnerEpochStats =
  es_participant_register :: u64
  es_participant_unregister :: u64
  es_retire_begin :: u64
  es_checkpoint :: u64
  es_ready_yes :: u64
  es_ready_no :: u64
  es_stale_checkpoint :: u64
  es_active_participants :: u32
  es_pending_participants :: u32

record H12OwnerEpoch =
  h12_owner_epoch_participants :: "nat \<Rightarrow> H12OwnerEpochParticipantEntry"
  h12_owner_epoch_retire :: H12OwnerEpochRetire
  h12_owner_epoch_counters :: H12OwnerEpochStats
  h12_owner_epoch_initialized :: bool

abbreviation (input) HZ12_OWNER_EPOCH_PARTICIPANT_CAP :: nat where "HZ12_OWNER_EPOCH_PARTICIPANT_CAP \<equiv> 16"

definition participant_of :: "H12OwnerEpochParticipant \<Rightarrow> H12OwnerEpoch \<Rightarrow> H12OwnerEpochParticipantEntry" where
  "participant_of token ep = h12_owner_epoch_participants ep (unat (pt_slot token))"

definition h12_owner_epoch_participant_valid :: "H12OwnerEpochParticipant \<Rightarrow> H12OwnerEpoch \<Rightarrow> bool" where
  "h12_owner_epoch_participant_valid token ep \<longleftrightarrow>
     \<not> (unat (pt_slot token) \<ge> HZ12_OWNER_EPOCH_PARTICIPANT_CAP \<or> pt_generation token = 0) \<and>
     \<not> (\<not> pe_active (participant_of token ep) \<or> pe_generation (participant_of token ep) \<noteq> pt_generation token)"

definition h12_owner_epoch_reset :: "H12OwnerEpoch \<Rightarrow> H12OwnerEpoch" where
  "h12_owner_epoch_reset ep =
    \<lparr>h12_owner_epoch_participants = (\<lambda>_. \<lparr>pe_generation = 0, pe_active = False, pe_acknowledged_epoch = 0\<rparr>),
     h12_owner_epoch_retire = \<lparr>er_owner = \<lparr>ot_slot = 0, ot_generation = 0\<rparr>, er_epoch = 0, er_participant_count = 0,
       er_participant_generation = (\<lambda>_. 0), er_active = False\<rparr>,
     h12_owner_epoch_counters = \<lparr>es_participant_register = 0, es_participant_unregister = 0, es_retire_begin = 0,
       es_checkpoint = 0, es_ready_yes = 0, es_ready_no = 0, es_stale_checkpoint = 0, es_active_participants = 0,
       es_pending_participants = 0\<rparr>,
     h12_owner_epoch_initialized = True\<rparr>"

definition h12_owner_epoch_register :: "H12OwnerEpoch \<Rightarrow> H12OwnerEpochParticipant option \<times> H12OwnerEpoch" where
  "h12_owner_epoch_register ep =
    (if \<not> h12_owner_epoch_initialized ep then (None, ep)
     else case List.find (\<lambda>i. \<not> pe_active (h12_owner_epoch_participants ep i)) [0..<HZ12_OWNER_EPOCH_PARTICIPANT_CAP] of
       None \<Rightarrow> (None, ep)
     | Some i \<Rightarrow>
         let generation = pe_generation (h12_owner_epoch_participants ep i) + 1;
             generation = (if generation = 0 then 1 else generation);
             counters = h12_owner_epoch_counters ep in
         (Some \<lparr>pt_slot = of_nat i, pt_generation = generation\<rparr>,
          ep\<lparr>h12_owner_epoch_participants := (h12_owner_epoch_participants ep)
               (i := \<lparr>pe_generation = generation, pe_active = True, pe_acknowledged_epoch = 0\<rparr>),
             h12_owner_epoch_counters := counters
               \<lparr>es_participant_register := es_participant_register counters + 1,
                es_active_participants := es_active_participants counters + 1\<rparr>\<rparr>))"

definition h12_owner_epoch_unregister :: "H12OwnerEpochParticipant \<Rightarrow> H12OwnerEpoch \<Rightarrow> bool \<times> H12OwnerEpoch" where
  "h12_owner_epoch_unregister participant ep =
    (if \<not> h12_owner_epoch_initialized ep then (False, ep)
     else if h12_owner_epoch_participant_valid participant ep then
       let counters = h12_owner_epoch_counters ep in
       (True, ep\<lparr>h12_owner_epoch_participants := (h12_owner_epoch_participants ep)
                  (unat (pt_slot participant) := (participant_of participant ep)\<lparr>pe_active := False\<rparr>),
                h12_owner_epoch_counters := counters
                  \<lparr>es_participant_unregister := es_participant_unregister counters + 1,
                   es_active_participants := es_active_participants counters - 1\<rparr>\<rparr>)
     else (False, ep))"

definition participant_snapshot :: "H12OwnerEpoch \<Rightarrow> nat \<Rightarrow> u32" where
  "participant_snapshot ep i =
    (if i < HZ12_OWNER_EPOCH_PARTICIPANT_CAP \<and> pe_active (h12_owner_epoch_participants ep i)
     then pe_generation (h12_owner_epoch_participants ep i) else 0)"

definition h12_owner_epoch_begin_retire :: "H12OwnerToken \<Rightarrow> H12OwnerEpoch \<Rightarrow> bool \<times> H12OwnerEpoch" where
  "h12_owner_epoch_begin_retire owner ep =
    (if \<not> h12_owner_epoch_initialized ep \<or> ot_generation owner = 0 then (False, ep)
     else if er_active (h12_owner_epoch_retire ep) then (False, ep)
     else
       let count = of_nat (length (filter (\<lambda>i. pe_active (h12_owner_epoch_participants ep i))
                     [0..<HZ12_OWNER_EPOCH_PARTICIPANT_CAP]));
           epoch = er_epoch (h12_owner_epoch_retire ep) + 1;
           epoch = (if epoch = 0 then 1 else epoch);
           counters = h12_owner_epoch_counters ep in
       (True, ep\<lparr>h12_owner_epoch_retire := \<lparr>er_owner = owner, er_epoch = epoch, er_participant_count = count,
                  er_participant_generation = participant_snapshot ep, er_active = True\<rparr>,
                h12_owner_epoch_counters := counters
                  \<lparr>es_retire_begin := es_retire_begin counters + 1, es_pending_participants := count\<rparr>\<rparr>))"

definition h12_owner_epoch_checkpoint :: "H12OwnerEpochParticipant \<Rightarrow> H12OwnerEpoch \<Rightarrow> bool \<times> H12OwnerEpoch" where
  "h12_owner_epoch_checkpoint participant ep =
    (let counters = h12_owner_epoch_counters ep in
     if \<not> h12_owner_epoch_initialized ep then (False, ep)
     else if \<not> h12_owner_epoch_participant_valid participant ep \<or> \<not> er_active (h12_owner_epoch_retire ep)
     then (False, ep\<lparr>h12_owner_epoch_counters := counters\<lparr>es_stale_checkpoint := es_stale_checkpoint counters + 1\<rparr>\<rparr>)
     else (True, ep\<lparr>h12_owner_epoch_participants := (h12_owner_epoch_participants ep)
                     (unat (pt_slot participant) := (participant_of participant ep)
                       \<lparr>pe_acknowledged_epoch := er_epoch (h12_owner_epoch_retire ep)\<rparr>),
                   h12_owner_epoch_counters := counters\<lparr>es_checkpoint := es_checkpoint counters + 1\<rparr>\<rparr>))"

definition retire_of :: "H12OwnerToken \<Rightarrow> H12OwnerEpoch \<Rightarrow> bool" where
  "retire_of owner ep \<longleftrightarrow> er_active (h12_owner_epoch_retire ep) \<and>
     ot_slot (er_owner (h12_owner_epoch_retire ep)) = ot_slot owner \<and>
     ot_generation (er_owner (h12_owner_epoch_retire ep)) = ot_generation owner"

definition participant_pending :: "H12OwnerEpoch \<Rightarrow> nat \<Rightarrow> bool" where
  "participant_pending ep i \<longleftrightarrow>
    (let retire = h12_owner_epoch_retire ep; entry = h12_owner_epoch_participants ep i in
     er_participant_generation retire i \<noteq> 0 \<and>
     (pe_generation entry \<noteq> er_participant_generation retire i \<or> pe_acknowledged_epoch entry < er_epoch retire))"

definition h12_owner_epoch_ready_to_dead :: "H12OwnerToken \<Rightarrow> H12OwnerEpoch \<Rightarrow> bool \<times> H12OwnerEpoch" where
  "h12_owner_epoch_ready_to_dead owner ep =
    (if \<not> h12_owner_epoch_initialized ep then (False, ep)
     else
       let pending = length (filter (participant_pending ep) [0..<HZ12_OWNER_EPOCH_PARTICIPANT_CAP]);
           counters = h12_owner_epoch_counters ep;
           counters = (if retire_of owner ep then counters\<lparr>es_pending_participants := of_nat pending\<rparr> else counters);
           ready = (retire_of owner ep \<and> pending = 0) in
       (ready, ep\<lparr>h12_owner_epoch_counters :=
          (if ready then counters\<lparr>es_ready_yes := es_ready_yes counters + 1\<rparr>
           else counters\<lparr>es_ready_no := es_ready_no counters + 1\<rparr>)\<rparr>))"

definition h12_owner_epoch_finish_retire :: "H12OwnerToken \<Rightarrow> H12OwnerEpoch \<Rightarrow> bool \<times> H12OwnerEpoch" where
  "h12_owner_epoch_finish_retire owner ep =
    (if \<not> h12_owner_epoch_initialized ep \<or> ot_generation owner = 0 then (False, ep)
     else case h12_owner_epoch_ready_to_dead owner ep of (ready, ep1) \<Rightarrow>
       if \<not> ready then (False, ep1)
       else if retire_of owner ep1
       then (True, ep1\<lparr>h12_owner_epoch_retire := (h12_owner_epoch_retire ep1)
              \<lparr>er_active := False, er_participant_count := 0, er_participant_generation := (\<lambda>_. 0)\<rparr>\<rparr>)
       else (False, ep1))"

section \<open>Runs of the protocol\<close>

datatype epoch_op = Ep_register | Ep_unregister H12OwnerEpochParticipant | Ep_begin H12OwnerToken
  | Ep_checkpoint H12OwnerEpochParticipant | Ep_ready H12OwnerToken | Ep_finish H12OwnerToken

fun epoch_step :: "epoch_op \<Rightarrow> H12OwnerEpoch \<Rightarrow> H12OwnerEpoch" where
  "epoch_step Ep_register ep = snd (h12_owner_epoch_register ep)"
| "epoch_step (Ep_unregister p) ep = snd (h12_owner_epoch_unregister p ep)"
| "epoch_step (Ep_begin owner) ep = snd (h12_owner_epoch_begin_retire owner ep)"
| "epoch_step (Ep_checkpoint p) ep = snd (h12_owner_epoch_checkpoint p ep)"
| "epoch_step (Ep_ready owner) ep = snd (h12_owner_epoch_ready_to_dead owner ep)"
| "epoch_step (Ep_finish owner) ep = snd (h12_owner_epoch_finish_retire owner ep)"

text \<open>After \<open>n\<close> steps no generation and no epoch is above \<open>n\<close>, and no participant is ahead of the epoch.\<close>

definition epoch_fits :: "nat \<Rightarrow> H12OwnerEpoch \<Rightarrow> bool" where
  "epoch_fits n ep \<longleftrightarrow> unat (er_epoch (h12_owner_epoch_retire ep)) \<le> n \<and>
     (\<forall>i. unat (pe_generation (h12_owner_epoch_participants ep i)) \<le> n \<and>
       pe_acknowledged_epoch (h12_owner_epoch_participants ep i) \<le> er_epoch (h12_owner_epoch_retire ep))"

definition participant_age :: "nat \<Rightarrow> H12OwnerEpoch \<Rightarrow> nat" where
  "participant_age i ep = unat (pe_generation (h12_owner_epoch_participants ep i))"

lemma bump_generation:
  assumes "unat (g :: u32) \<le> n" "n < 4294967295"
  shows "unat (if g + 1 = 0 then 1 else g + 1) = Suc (unat g)" "g < (if g + 1 = 0 then 1 else g + 1)"
proof -
  have u: "unat (g + 1) = Suc (unat g)" using assms by (subst unat_add_no_wrap) simp_all
  then have "g + 1 \<noteq> 0" by (metis unat_eq_0 nat.distinct(1))
  then show "unat (if g + 1 = 0 then 1 else g + 1) = Suc (unat g)" "g < (if g + 1 = 0 then 1 else g + 1)"
    using u by (simp_all add: word_less_nat_alt)
qed

text \<open>What a step does to participant \<open>i\<close> and to the retirement, case by case.\<close>

lemma register_effect:
  assumes "h12_owner_epoch_register ep = (r, ep')"
  shows "h12_owner_epoch_retire ep' = h12_owner_epoch_retire ep" "h12_owner_epoch_initialized ep' = h12_owner_epoch_initialized ep"
    "h12_owner_epoch_participants ep' i = h12_owner_epoch_participants ep i \<or>
     \<not> pe_active (h12_owner_epoch_participants ep i) \<and>
     h12_owner_epoch_participants ep' i = \<lparr>pe_generation =
       (if pe_generation (h12_owner_epoch_participants ep i) + 1 = 0 then 1
        else pe_generation (h12_owner_epoch_participants ep i) + 1), pe_active = True, pe_acknowledged_epoch = 0\<rparr>"
  using assms by (auto simp: h12_owner_epoch_register_def Let_def find_Some_iff split: if_splits option.splits)

lemma ready_effect:
  assumes "h12_owner_epoch_ready_to_dead owner ep = (r, ep')"
  shows "h12_owner_epoch_retire ep' = h12_owner_epoch_retire ep" "h12_owner_epoch_initialized ep' = h12_owner_epoch_initialized ep"
    "h12_owner_epoch_participants ep' = h12_owner_epoch_participants ep"
    "r \<Longrightarrow> i < HZ12_OWNER_EPOCH_PARTICIPANT_CAP \<Longrightarrow> \<not> participant_pending ep i"
    "r \<Longrightarrow> retire_of owner ep"
  using assms by (auto simp: h12_owner_epoch_ready_to_dead_def Let_def filter_empty_conv split: if_splits)

lemma finish_effect:
  assumes "h12_owner_epoch_finish_retire owner ep = (r, ep')"
  shows "h12_owner_epoch_initialized ep' = h12_owner_epoch_initialized ep"
    "h12_owner_epoch_participants ep' = h12_owner_epoch_participants ep"
    "er_epoch (h12_owner_epoch_retire ep') = er_epoch (h12_owner_epoch_retire ep)"
    "\<not> r \<Longrightarrow> h12_owner_epoch_retire ep' = h12_owner_epoch_retire ep"
    "r \<Longrightarrow> i < HZ12_OWNER_EPOCH_PARTICIPANT_CAP \<Longrightarrow> \<not> participant_pending ep i"
proof -
  obtain ready ep1 where e: "h12_owner_epoch_ready_to_dead owner ep = (ready, ep1)" by force
  note R = ready_effect [OF e]
  show "h12_owner_epoch_initialized ep' = h12_owner_epoch_initialized ep"
    "h12_owner_epoch_participants ep' = h12_owner_epoch_participants ep"
    "er_epoch (h12_owner_epoch_retire ep') = er_epoch (h12_owner_epoch_retire ep)"
    "\<not> r \<Longrightarrow> h12_owner_epoch_retire ep' = h12_owner_epoch_retire ep"
    "r \<Longrightarrow> i < HZ12_OWNER_EPOCH_PARTICIPANT_CAP \<Longrightarrow> \<not> participant_pending ep i"
    using assms e R by (auto simp: h12_owner_epoch_finish_retire_def split: if_splits)
qed

lemma epoch_step_fits:
  assumes "epoch_fits n ep" "n < 4294967295"
  shows "epoch_fits (Suc n) (epoch_step e ep)" "participant_age i ep \<le> participant_age i (epoch_step e ep)"
proof -
  have f: "unat (er_epoch (h12_owner_epoch_retire ep)) \<le> n" "unat (pe_generation (h12_owner_epoch_participants ep k)) \<le> n"
    "pe_acknowledged_epoch (h12_owner_epoch_participants ep k) \<le> er_epoch (h12_owner_epoch_retire ep)" for k
    using assms(1) by (simp_all add: epoch_fits_def)
  have "epoch_fits (Suc n) (epoch_step e ep) \<and> participant_age i ep \<le> participant_age i (epoch_step e ep)"
  proof (cases e)
    case Ep_register
    obtain r ep' where run: "h12_owner_epoch_register ep = (r, ep')" by force
    have "unat (pe_generation (h12_owner_epoch_participants ep' k)) \<le> Suc n \<and>
        pe_acknowledged_epoch (h12_owner_epoch_participants ep' k) \<le> er_epoch (h12_owner_epoch_retire ep) \<and>
        participant_age k ep \<le> participant_age k ep'" for k
      using register_effect(3) [OF run, of k] f(2,3) [of k] bump_generation(1) [OF f(2) [of k] assms(2)]
      by (auto simp: participant_age_def simp del: split_paired_All)
    then show ?thesis using run Ep_register f(1) register_effect(1) [OF run] by (simp add: epoch_fits_def le_SucI)
  next
    case (Ep_unregister p)
    then show ?thesis using f
      by (auto simp: h12_owner_epoch_unregister_def Let_def epoch_fits_def participant_age_def participant_of_def le_SucI)
  next
    case (Ep_begin owner)
    show ?thesis
    proof (cases "fst (h12_owner_epoch_begin_retire owner ep)")
      case True
      let ?e = "er_epoch (h12_owner_epoch_retire ep)"
      note B = bump_generation [OF f(1) assms(2)]
      have "er_epoch (h12_owner_epoch_retire (epoch_step e ep)) = (if ?e + 1 = 0 then 1 else ?e + 1)"
        "h12_owner_epoch_participants (epoch_step e ep) = h12_owner_epoch_participants ep"
        using True Ep_begin by (auto simp: h12_owner_epoch_begin_retire_def Let_def split: if_splits)
      moreover have "pe_acknowledged_epoch (h12_owner_epoch_participants ep k) \<le> (if ?e + 1 = 0 then 1 else ?e + 1)" for k
        by (rule order_trans [OF f(3) less_imp_le [OF B(2)]])
      ultimately show ?thesis using B(1) f(1,2) by (simp only: epoch_fits_def participant_age_def) (simp add: le_SucI)
    next
      case False
      then have "epoch_step e ep = ep" using Ep_begin by (auto simp: h12_owner_epoch_begin_retire_def Let_def split: if_splits)
      then show ?thesis using f by (simp add: epoch_fits_def participant_age_def le_SucI)
    qed
  next
    case (Ep_checkpoint p)
    then show ?thesis using f
      by (auto simp: h12_owner_epoch_checkpoint_def Let_def epoch_fits_def participant_age_def participant_of_def le_SucI)
  next
    case (Ep_ready owner)
    obtain r ep' where run: "h12_owner_epoch_ready_to_dead owner ep = (r, ep')" by force
    show ?thesis using Ep_ready run ready_effect(1-3) [OF run] f by (simp add: epoch_fits_def participant_age_def le_SucI)
  next
    case (Ep_finish owner)
    obtain r ep' where run: "h12_owner_epoch_finish_retire owner ep = (r, ep')" by force
    show ?thesis using Ep_finish run finish_effect(1-3) [OF run] f by (simp add: epoch_fits_def participant_age_def le_SucI)
  qed
  then show "epoch_fits (Suc n) (epoch_step e ep)" "participant_age i ep \<le> participant_age i (epoch_step e ep)" by simp_all
qed

interpretation epoch_life: forward_run epoch_step "participant_age i" epoch_fits 4294967295 for i
  by unfold_locales (auto intro: epoch_step_fits)

lemma epoch_reset_fits: "epoch_fits 0 (h12_owner_epoch_reset ep)"
  by (simp add: epoch_fits_def h12_owner_epoch_reset_def)

section \<open>A retirement waits\<close>

text \<open>The retirement with epoch \<open>E\<close> still waits for the participant that had slot \<open>i\<close> with generation \<open>g\<close>.\<close>

definition waits_for :: "nat \<Rightarrow> u32 \<Rightarrow> u32 \<Rightarrow> H12OwnerEpoch \<Rightarrow> bool" where
  "waits_for i g E ep \<longleftrightarrow> i < HZ12_OWNER_EPOCH_PARTICIPANT_CAP \<and> g \<noteq> 0 \<and> E \<noteq> 0 \<and>
     er_active (h12_owner_epoch_retire ep) \<and> er_epoch (h12_owner_epoch_retire ep) = E \<and>
     er_participant_generation (h12_owner_epoch_retire ep) i = g \<and>
     (g < pe_generation (h12_owner_epoch_participants ep i) \<or>
      pe_generation (h12_owner_epoch_participants ep i) = g \<and> pe_acknowledged_epoch (h12_owner_epoch_participants ep i) < E)"

definition has_left :: "nat \<Rightarrow> u32 \<Rightarrow> H12OwnerEpoch \<Rightarrow> bool" where
  "has_left i g ep \<longleftrightarrow> g < pe_generation (h12_owner_epoch_participants ep i) \<or>
     pe_generation (h12_owner_epoch_participants ep i) = g \<and> \<not> pe_active (h12_owner_epoch_participants ep i)"

lemma waits_blocks:
  assumes "waits_for i g E ep"
  shows "\<not> fst (h12_owner_epoch_finish_retire owner ep)" "\<not> fst (h12_owner_epoch_ready_to_dead owner ep)"
    "\<not> fst (h12_owner_epoch_begin_retire owner ep)"
proof -
  have i: "i < HZ12_OWNER_EPOCH_PARTICIPANT_CAP" and p: "participant_pending ep i"
    using assms by (auto simp: waits_for_def participant_pending_def Let_def)
  show "\<not> fst (h12_owner_epoch_finish_retire owner ep)"
    using finish_effect(5) [of owner ep _ _ i] i p by (metis prod.collapse)
  show "\<not> fst (h12_owner_epoch_ready_to_dead owner ep)"
    using ready_effect(4) [of owner ep _ _ i] i p by (metis prod.collapse)
  show "\<not> fst (h12_owner_epoch_begin_retire owner ep)"
    using assms by (simp add: waits_for_def h12_owner_epoch_begin_retire_def)
qed

lemma waits_step:
  assumes w: "waits_for i g E ep" and f: "epoch_fits n ep" "n < 4294967295"
    and e: "e \<noteq> Ep_checkpoint \<lparr>pt_slot = of_nat i, pt_generation = g\<rparr> \<or> has_left i g ep"
  shows "waits_for i g E (epoch_step e ep)" "has_left i g ep \<Longrightarrow> has_left i g (epoch_step e ep)"
proof -
  let ?p = "h12_owner_epoch_participants ep i"
  have i: "i < 16" "unat (of_nat i :: u32) = i" using w by (simp_all add: waits_for_def unat_of_nat)
  have g: "unat (pe_generation ?p) \<le> n" using f(1) by (simp add: epoch_fits_def)
  note B = bump_generation(2) [OF g f(2)]
  have "waits_for i g E (epoch_step e ep) \<and> (has_left i g ep \<longrightarrow> has_left i g (epoch_step e ep))"
  proof (cases e)
    case Ep_register
    obtain r ep' where run: "h12_owner_epoch_register ep = (r, ep')" by force
    show ?thesis using register_effect(3) [OF run, of i]
    proof
      assume "h12_owner_epoch_participants ep' i = ?p"
      then show ?thesis using w Ep_register run register_effect(1) [OF run] by (simp add: waits_for_def has_left_def)
    next
      assume a: "\<not> pe_active ?p \<and> h12_owner_epoch_participants ep' i = \<lparr>pe_generation =
         (if pe_generation ?p + 1 = 0 then 1 else pe_generation ?p + 1), pe_active = True, pe_acknowledged_epoch = 0\<rparr>"
      have "g \<le> pe_generation ?p" using w by (auto simp: waits_for_def)
      then have "g < pe_generation (h12_owner_epoch_participants ep' i)"
        using a le_less_trans [OF _ B] by simp
      then show ?thesis using w Ep_register run register_effect(1) [OF run] by (simp add: waits_for_def has_left_def)
    qed
  next
    case (Ep_unregister p)
    then show ?thesis using w
      by (auto simp: h12_owner_epoch_unregister_def Let_def waits_for_def has_left_def participant_of_def)
  next
    case (Ep_begin owner)
    then show ?thesis using w by (auto simp: h12_owner_epoch_begin_retire_def waits_for_def)
  next
    case (Ep_checkpoint p)
    show ?thesis
    proof (cases "unat (pt_slot p) = i \<and> h12_owner_epoch_participant_valid p ep")
      case True
      then have p: "p = \<lparr>pt_slot = of_nat i, pt_generation = pe_generation ?p\<rparr>" "pe_active ?p"
        by (auto simp: h12_owner_epoch_participant_valid_def participant_of_def unat_of_nat)
      then have "g < pe_generation ?p" using e Ep_checkpoint w by (auto simp: waits_for_def has_left_def)
      then show ?thesis using w Ep_checkpoint True
        by (auto simp: h12_owner_epoch_checkpoint_def Let_def waits_for_def has_left_def participant_of_def)
    next
      case False
      then show ?thesis using w Ep_checkpoint
        by (auto simp: h12_owner_epoch_checkpoint_def Let_def waits_for_def has_left_def participant_of_def)
    qed
  next
    case (Ep_ready owner)
    obtain r ep' where run: "h12_owner_epoch_ready_to_dead owner ep = (r, ep')" by force
    show ?thesis using w Ep_ready run ready_effect(1-3) [OF run] by (simp add: waits_for_def has_left_def)
  next
    case (Ep_finish owner)
    obtain r ep' where run: "h12_owner_epoch_finish_retire owner ep = (r, ep')" by force
    have "\<not> r" using waits_blocks(1) [OF w, of owner] run by simp
    then show ?thesis using w Ep_finish run finish_effect(2,4) [OF run] by (simp add: waits_for_def has_left_def)
  qed
  then show "waits_for i g E (epoch_step e ep)" "has_left i g ep \<Longrightarrow> has_left i g (epoch_step e ep)" by simp_all
qed

lemma waits_run:
  assumes "waits_for i g E ep" "epoch_fits n ep" "n + length es \<le> 4294967295"
    "Ep_checkpoint \<lparr>pt_slot = of_nat i, pt_generation = g\<rparr> \<notin> set es \<or> has_left i g ep"
  shows "waits_for i g E (fold epoch_step es ep)"
  using assms
proof (induction es arbitrary: ep n)
  case (Cons e es)
  have e: "e \<noteq> Ep_checkpoint \<lparr>pt_slot = of_nat i, pt_generation = g\<rparr> \<or> has_left i g ep" using Cons.prems(4) by auto
  have lt: "n < 4294967295" using Cons.prems(3) by simp
  have "waits_for i g E (fold epoch_step es (epoch_step e ep))"
  proof (rule Cons.IH [OF waits_step(1) [OF Cons.prems(1,2) lt e] epoch_step_fits(1) [OF Cons.prems(2) lt]])
    show "Suc n + length es \<le> 4294967295" using Cons.prems(3) by simp
    show "Ep_checkpoint \<lparr>pt_slot = of_nat i, pt_generation = g\<rparr> \<notin> set es \<or> has_left i g (epoch_step e ep)"
      using Cons.prems(4) waits_step(2) [OF Cons.prems(1,2) lt e] by auto
  qed
  then show ?case by simp
qed simp

lemma begin_waits:
  assumes "h12_owner_epoch_begin_retire owner ep = (True, ep1)" "epoch_fits n ep" "n < 4294967295"
    "i < HZ12_OWNER_EPOCH_PARTICIPANT_CAP" "pe_active (h12_owner_epoch_participants ep i)"
    "pe_generation (h12_owner_epoch_participants ep i) \<noteq> 0"
  shows "waits_for i (pe_generation (h12_owner_epoch_participants ep i)) (er_epoch (h12_owner_epoch_retire ep1)) ep1"
    "h12_owner_epoch_participants ep1 = h12_owner_epoch_participants ep"
proof -
  let ?e = "er_epoch (h12_owner_epoch_retire ep)"
  have f: "unat ?e \<le> n" "pe_acknowledged_epoch (h12_owner_epoch_participants ep i) \<le> ?e"
    using assms(2) by (simp_all add: epoch_fits_def)
  have r: "er_epoch (h12_owner_epoch_retire ep1) = (if ?e + 1 = 0 then 1 else ?e + 1)"
    "h12_owner_epoch_participants ep1 = h12_owner_epoch_participants ep" "er_active (h12_owner_epoch_retire ep1)"
    "er_participant_generation (h12_owner_epoch_retire ep1) = participant_snapshot ep"
    using assms(1) by (auto simp: h12_owner_epoch_begin_retire_def Let_def split: if_splits)
  have "pe_acknowledged_epoch (h12_owner_epoch_participants ep i) < er_epoch (h12_owner_epoch_retire ep1)"
    unfolding r(1) by (rule le_less_trans [OF f(2) bump_generation(2) [OF f(1) assms(3)]])
  moreover have "er_epoch (h12_owner_epoch_retire ep1) \<noteq> 0" unfolding r(1) by simp
  ultimately show "waits_for i (pe_generation (h12_owner_epoch_participants ep i)) (er_epoch (h12_owner_epoch_retire ep1)) ep1"
    using assms(4-6) r(2-4) by (simp add: waits_for_def participant_snapshot_def)
  show "h12_owner_epoch_participants ep1 = h12_owner_epoch_participants ep" by (rule r(2))
qed

text \<open>C33: a retirement finishes only after every participant that was registered when it began has passed a
  checkpoint since, whatever else was registered, unregistered, begun or queried in between, for the first 2^32 - 1
  operations after a reset.\<close>

theorem retire_waits_for_all:
  assumes "ep = fold epoch_step before (h12_owner_epoch_reset start)"
    "h12_owner_epoch_begin_retire owner ep = (True, ep1)"
    "h12_owner_epoch_finish_retire owner (fold epoch_step between ep1) = (True, ep2)"
    "length before + length between + 1 < 4294967295"
  shows "\<forall>i < HZ12_OWNER_EPOCH_PARTICIPANT_CAP.
    pe_active (h12_owner_epoch_participants ep i) \<and> pe_generation (h12_owner_epoch_participants ep i) \<noteq> 0 \<longrightarrow>
    Ep_checkpoint \<lparr>pt_slot = of_nat i, pt_generation = pe_generation (h12_owner_epoch_participants ep i)\<rparr> \<in> set between"
proof (intro allI impI, rule ccontr)
  fix i
  assume i: "i < HZ12_OWNER_EPOCH_PARTICIPANT_CAP"
    and act: "pe_active (h12_owner_epoch_participants ep i) \<and> pe_generation (h12_owner_epoch_participants ep i) \<noteq> 0"
    and no: "Ep_checkpoint \<lparr>pt_slot = of_nat i, pt_generation = pe_generation (h12_owner_epoch_participants ep i)\<rparr> \<notin> set between"
  have f: "epoch_fits (length before) ep" using epoch_life.run_fits [OF epoch_reset_fits, of before] assms(1,4) by simp
  have w: "waits_for i (pe_generation (h12_owner_epoch_participants ep i)) (er_epoch (h12_owner_epoch_retire ep1)) ep1"
    by (rule begin_waits(1) [OF assms(2) f]) (use assms(4) i act in simp_all)
  have f1: "epoch_fits (Suc (length before)) ep1"
    using epoch_step_fits(1) [OF f, of "Ep_begin owner"] assms(2,4) by simp
  have "waits_for i (pe_generation (h12_owner_epoch_participants ep i)) (er_epoch (h12_owner_epoch_retire ep1)) (fold epoch_step between ep1)"
    by (rule waits_run [OF w f1]) (use assms(4) no in simp_all)
  from waits_blocks(1) [OF this, of owner] assms(3) show False by simp
qed

definition participant_one :: H12OwnerEpochParticipant where
  "participant_one = \<lparr>pt_slot = 0, pt_generation = 1\<rparr>"

definition retiring_owner :: H12OwnerToken where
  "retiring_owner = \<lparr>ot_slot = 3, ot_generation = 7\<rparr>"

theorem retire_waits_for_all_witness:
  "let ep = fold epoch_step [Ep_register] (h12_owner_epoch_reset undefined);
       ep1 = snd (h12_owner_epoch_begin_retire retiring_owner ep) in
   pe_active (h12_owner_epoch_participants ep 0) \<and>
   fst (h12_owner_epoch_finish_retire retiring_owner (fold epoch_step [Ep_checkpoint participant_one] ep1)) \<and>
   Ep_checkpoint \<lparr>pt_slot = of_nat 0, pt_generation = pe_generation (h12_owner_epoch_participants ep 0)\<rparr>
     \<in> set [Ep_checkpoint participant_one]"
proof -
  let ?ep = "fold epoch_step [Ep_register] (h12_owner_epoch_reset undefined)"
  let ?ep1 = "snd (h12_owner_epoch_begin_retire retiring_owner ?ep)"
  let ?ep2 = "fold epoch_step [Ep_checkpoint participant_one] ?ep1"
  have e: "fst (h12_owner_epoch_begin_retire retiring_owner ?ep)" "fst (h12_owner_epoch_finish_retire retiring_owner ?ep2)"
    "pe_active (h12_owner_epoch_participants ?ep 0)" "pe_generation (h12_owner_epoch_participants ?ep 0) = 1"
    by code_simp+
  then have "h12_owner_epoch_begin_retire retiring_owner ?ep = (True, ?ep1)"
    "h12_owner_epoch_finish_retire retiring_owner ?ep2 = (True, snd (h12_owner_epoch_finish_retire retiring_owner ?ep2))"
    by (metis (full_types) prod.collapse)+
  from retire_waits_for_all [OF refl this] show ?thesis using e unfolding Let_def by fastforce
qed

text \<open>A participant that unregisters between the beginning of a retirement and its own checkpoint blocks the
  protocol: whatever happens next, registrations of new participants in its slot included, no retirement is ready,
  none finishes and none begins.\<close>

theorem unregistered_participant_blocks:
  assumes "ep = fold epoch_step before (h12_owner_epoch_reset start)"
    "h12_owner_epoch_begin_retire owner ep = (True, ep1)" "h12_owner_epoch_unregister participant ep1 = (True, ep2)"
    "length before + length later + 2 < 4294967295"
  shows "\<not> fst (h12_owner_epoch_ready_to_dead owner' (fold epoch_step later ep2)) \<and>
    \<not> fst (h12_owner_epoch_finish_retire owner' (fold epoch_step later ep2)) \<and>
    \<not> fst (h12_owner_epoch_begin_retire owner' (fold epoch_step later ep2))"
proof -
  let ?i = "unat (pt_slot participant)"
  have f: "epoch_fits (length before) ep" using epoch_life.run_fits [OF epoch_reset_fits, of before] assms(1,4) by simp
  have f1: "epoch_fits (Suc (length before)) ep1"
    using epoch_step_fits(1) [OF f, of "Ep_begin owner"] assms(2,4) by simp
  have f2: "epoch_fits (Suc (Suc (length before))) ep2"
    using epoch_step_fits(1) [OF f1, of "Ep_unregister participant"] assms(3,4) by simp
  have valid: "h12_owner_epoch_participant_valid participant ep1"
    using assms(3) by (auto simp: h12_owner_epoch_unregister_def split: if_splits)
  have same: "h12_owner_epoch_participants ep1 = h12_owner_epoch_participants ep"
    using assms(2) by (auto simp: h12_owner_epoch_begin_retire_def Let_def split: if_splits)
  have i: "?i < HZ12_OWNER_EPOCH_PARTICIPANT_CAP" "pe_active (h12_owner_epoch_participants ep ?i)"
    "pe_generation (h12_owner_epoch_participants ep ?i) = pt_generation participant" "pt_generation participant \<noteq> 0"
    using valid same by (auto simp: h12_owner_epoch_participant_valid_def participant_of_def)
  have w: "waits_for ?i (pt_generation participant) (er_epoch (h12_owner_epoch_retire ep1)) ep1"
    using begin_waits(1) [OF assms(2) f _ i(1,2)] i(3,4) assms(4) by simp
  have "waits_for ?i (pt_generation participant) (er_epoch (h12_owner_epoch_retire ep1)) ep2"
    using waits_step(1) [OF w f1, of "Ep_unregister participant"] assms(3,4) by simp
  moreover have "has_left ?i (pt_generation participant) ep2"
    using assms(3) valid i same
    by (auto simp: h12_owner_epoch_unregister_def Let_def has_left_def participant_of_def split: if_splits)
  ultimately have "waits_for ?i (pt_generation participant) (er_epoch (h12_owner_epoch_retire ep1)) (fold epoch_step later ep2)"
    by (intro waits_run [OF _ f2]) (use assms(4) in simp_all)
  then show ?thesis using waits_blocks by simp
qed

theorem unregistered_participant_blocks_witness:
  "let ep1 = snd (h12_owner_epoch_begin_retire retiring_owner (fold epoch_step [Ep_register] (h12_owner_epoch_reset undefined)));
       ep2 = snd (h12_owner_epoch_unregister participant_one ep1) in
   \<not> fst (h12_owner_epoch_ready_to_dead retiring_owner (fold epoch_step
       [Ep_register, Ep_checkpoint \<lparr>pt_slot = 0, pt_generation = 2\<rparr>] ep2))"
proof -
  let ?ep = "fold epoch_step [Ep_register] (h12_owner_epoch_reset undefined)"
  let ?ep1 = "snd (h12_owner_epoch_begin_retire retiring_owner ?ep)"
  have "fst (h12_owner_epoch_begin_retire retiring_owner ?ep)" "fst (h12_owner_epoch_unregister participant_one ?ep1)"
    by code_simp+
  then have "h12_owner_epoch_begin_retire retiring_owner ?ep = (True, ?ep1)"
    "h12_owner_epoch_unregister participant_one ?ep1 = (True, snd (h12_owner_epoch_unregister participant_one ?ep1))"
    by (metis (full_types) prod.collapse)+
  from unregistered_participant_blocks [OF refl this, of "[Ep_register, Ep_checkpoint \<lparr>pt_slot = 0, pt_generation = 2\<rparr>]"]
  show ?thesis by simp
qed

end
