(* ===== verification/Hz12_Token_Inbox.thy ===== *)
theory Hz12_Token_Inbox
  imports Hz12_Owner_Epoch Hz12_Public_Entry
begin

text \<open>
  \<open>src/hakozuna-hz12/src/hz12_token_inbox.{h,c}\<close> and \<open>hz12_owner_retire_gate.{h,c}\<close>: objects freed by other
  threads wait in the inbox of their owner, linked through their first words, until the owner drains them with
  \<open>hz12_free\<close>; the retire gate opens for an owner whose retirement epoch is acknowledged and whose inbox is
  empty. The functions run on a thread \<open>t\<close>, the argument of \<open>hz12_free\<close>.

  The state extends that of the allocator, because the chains are in its memory and the objects go back to
  it. \<open>None\<close> is a walk over a chain that does not end.
\<close>

record H12TokenInbox =
  ti_head :: addr
  ti_count :: u32
  ti_generation :: u32

record H12TokenInboxStats =
  is_publish_attempt :: u64
  is_publish_accept :: u64
  is_publish_registry_reject :: u64
  is_publish_generation_reject :: u64
  is_publish_overflow :: u64
  is_fallback_objects :: u64
  is_drain_batches :: u64
  is_drain_objects :: u64
  is_drain_generation_reject :: u64
  is_inbox_current_max :: u32

record h12_inbox_state = h12_cache_state +
  h12_registry :: H12OwnerRegistry
  h12_token_inboxes :: "nat \<Rightarrow> H12TokenInbox"
  h12_token_counters :: H12TokenInboxStats
  h12_token_inbox_initialized :: bool

abbreviation (input) HZ12_TOKEN_INBOX_CAP :: u32 where "HZ12_TOKEN_INBOX_CAP \<equiv> 1024"

definition h12_token_counters_reset :: H12TokenInboxStats where
  "h12_token_counters_reset = \<lparr>is_publish_attempt = 0, is_publish_accept = 0, is_publish_registry_reject = 0,
     is_publish_generation_reject = 0, is_publish_overflow = 0, is_fallback_objects = 0, is_drain_batches = 0,
     is_drain_objects = 0, is_drain_generation_reject = 0, is_inbox_current_max = 0\<rparr>"

definition h12_token_counter_max :: "u32 \<Rightarrow> H12TokenInboxStats \<Rightarrow> H12TokenInboxStats" where
  "h12_token_counter_max candidate counters =
    (if candidate > is_inbox_current_max counters then counters\<lparr>is_inbox_current_max := candidate\<rparr> else counters)"

abbreviation (input) count_inbox :: "(H12TokenInboxStats \<Rightarrow> H12TokenInboxStats) \<Rightarrow> 'a h12_inbox_state_scheme \<Rightarrow> 'a h12_inbox_state_scheme" where
  "count_inbox f st \<equiv> st\<lparr>h12_token_counters := f (h12_token_counters st)\<rparr>"

partial_function (option) h12_token_free_chain :: "hz12_config \<Rightarrow> nat \<Rightarrow> addr \<Rightarrow> 'a h12_inbox_state_scheme \<Rightarrow>
    'a h12_inbox_state_scheme option" where
  "h12_token_free_chain cfg t head st =
    (if head = 0 then Some st
     else h12_token_free_chain cfg t (h12_mem st head) (hz12_free cfg t head st))"

definition h12_token_link_batch :: "addr list \<Rightarrow> memory \<Rightarrow> addr \<times> addr \<times> u32 \<times> memory" where
  "h12_token_link_batch objects m = link_batch objects 0 0 0 m"

definition h12_token_inbox_reset :: "'a h12_inbox_state_scheme \<Rightarrow> 'a h12_inbox_state_scheme" where
  "h12_token_inbox_reset st = st\<lparr>h12_token_inboxes := (\<lambda>_. \<lparr>ti_head = 0, ti_count = 0, ti_generation = 0\<rparr>),
     h12_token_counters := h12_token_counters_reset, h12_token_inbox_initialized := True\<rparr>"

section \<open>Publishing\<close>

text \<open>The ways out that give the objects back at once.\<close>

definition token_fallback :: "hz12_config \<Rightarrow> nat \<Rightarrow> addr \<Rightarrow> u32 \<Rightarrow> (H12TokenInboxStats \<Rightarrow> H12TokenInboxStats) \<Rightarrow>
    'a h12_inbox_state_scheme \<Rightarrow> (bool \<times> 'a h12_inbox_state_scheme) option" where
  "token_fallback cfg t head linked note st =
    (case h12_token_free_chain cfg t head (count_inbox
            (\<lambda>k. (note k)\<lparr>is_fallback_objects := is_fallback_objects k + ucast linked\<rparr>) st) of
       None \<Rightarrow> None
     | Some st' \<Rightarrow> Some (False, st'))"

text \<open>The section under the lock of the inbox and what follows it.\<close>

definition token_publish_locked :: "hz12_config \<Rightarrow> nat \<Rightarrow> H12OwnerToken \<Rightarrow> addr \<Rightarrow> addr \<Rightarrow> u32 \<Rightarrow>
    'a h12_inbox_state_scheme \<Rightarrow> (bool \<times> 'a h12_inbox_state_scheme) option" where
  "token_publish_locked cfg t token head tail linked st =
    (let i = unat (ot_slot token); inbox = h12_token_inboxes st i in
     if ti_generation inbox \<noteq> ot_generation token \<and> ti_count inbox \<noteq> 0
     then token_fallback cfg t head linked (\<lambda>k. k\<lparr>is_publish_generation_reject := is_publish_generation_reject k + 1\<rparr>) st
     else
       let inbox1 = inbox\<lparr>ti_generation := ot_generation token\<rparr>;
           st1 = st\<lparr>h12_token_inboxes := (h12_token_inboxes st)(i := inbox1)\<rparr> in
       if ti_count inbox1 + linked > HZ12_TOKEN_INBOX_CAP
       then token_fallback cfg t head linked (\<lambda>k. k\<lparr>is_publish_overflow := is_publish_overflow k + 1\<rparr>) st1
       else
         let inbox2 = inbox1\<lparr>ti_head := head, ti_count := ti_count inbox1 + linked\<rparr> in
         Some (True, count_inbox (\<lambda>k. (h12_token_counter_max (ti_count inbox2) k)
             \<lparr>is_publish_accept := is_publish_accept k + 1\<rparr>)
           (st1\<lparr>h12_mem := (h12_mem st1)(tail := ti_head inbox1),
                h12_token_inboxes := (h12_token_inboxes st1)(i := inbox2)\<rparr>)))"

definition h12_token_inbox_publish :: "hz12_config \<Rightarrow> nat \<Rightarrow> H12OwnerToken \<Rightarrow> addr list \<Rightarrow>
    'a h12_inbox_state_scheme \<Rightarrow> (bool \<times> 'a h12_inbox_state_scheme) option" where
  "h12_token_inbox_publish cfg t token objects st =
    (if \<not> h12_token_inbox_initialized st \<or> objects = [] \<or> unat (ot_slot token) \<ge> HZ12_OWNER_REGISTRY_CAP
     then Some (False, st)
     else case h12_token_link_batch objects (h12_mem st) of (head, tail, linked, m) \<Rightarrow>
       let st1 = count_inbox (\<lambda>k. k\<lparr>is_publish_attempt := is_publish_attempt k + 1\<rparr>) (st\<lparr>h12_mem := m\<rparr>) in
       if linked = 0 then Some (True, st1)
       else case h12_owner_publishable token (h12_registry st1) of (ok, reg) \<Rightarrow>
         let st2 = st1\<lparr>h12_registry := reg\<rparr> in
         if \<not> ok
         then token_fallback cfg t head linked (\<lambda>k. k\<lparr>is_publish_registry_reject := is_publish_registry_reject k + 1\<rparr>) st2
         else token_publish_locked cfg t token head tail linked st2)"

section \<open>Draining\<close>

definition h12_token_inbox_drain :: "hz12_config \<Rightarrow> nat \<Rightarrow> H12OwnerToken \<Rightarrow> 'a h12_inbox_state_scheme \<Rightarrow>
    (u32 \<times> 'a h12_inbox_state_scheme) option" where
  "h12_token_inbox_drain cfg t token st =
    (let i = unat (ot_slot token); inbox = h12_token_inboxes st i in
     if \<not> h12_token_inbox_initialized st \<or> i \<ge> HZ12_OWNER_REGISTRY_CAP then Some (0, st)
     else if ti_generation inbox \<noteq> ot_generation token \<and> ti_count inbox \<noteq> 0
     then Some (0, count_inbox (\<lambda>k. k\<lparr>is_drain_generation_reject := is_drain_generation_reject k + 1\<rparr>) st)
     else if ti_generation inbox \<noteq> ot_generation token then Some (0, st)
     else
       let st1 = st\<lparr>h12_token_inboxes := (h12_token_inboxes st)(i := inbox\<lparr>ti_head := 0, ti_count := 0\<rparr>)\<rparr> in
       if ti_head inbox = 0 then Some (ti_count inbox, st1)
       else case h12_token_free_chain cfg t (ti_head inbox) st1 of
         None \<Rightarrow> None
       | Some st2 \<Rightarrow> Some (ti_count inbox, count_inbox (\<lambda>k. k\<lparr>is_drain_batches := is_drain_batches k + 1,
             is_drain_objects := is_drain_objects k + ucast (ti_count inbox)\<rparr>) st2))"

definition h12_token_inbox_pending :: "H12OwnerToken \<Rightarrow> 'a h12_inbox_state_scheme \<Rightarrow> u32" where
  "h12_token_inbox_pending token st =
    (let inbox = h12_token_inboxes st (unat (ot_slot token)) in
     if \<not> h12_token_inbox_initialized st \<or> unat (ot_slot token) \<ge> HZ12_OWNER_REGISTRY_CAP then 0
     else if ti_generation inbox = ot_generation token then ti_count inbox else 0)"

section \<open>The retire gate\<close>

record H12OwnerRetireGateStats =
  gs_query :: u64
  gs_open :: u64
  gs_blocked_epoch :: u64
  gs_blocked_inbox :: u64
  gs_last_pending :: u32

record h12_gate_state = h12_inbox_state +
  h12_epoch :: H12OwnerEpoch
  h12_owner_retire_gate_counters :: H12OwnerRetireGateStats
  h12_owner_retire_gate_initialized :: bool

definition h12_owner_retire_gate_reset :: "'a h12_gate_state_scheme \<Rightarrow> 'a h12_gate_state_scheme" where
  "h12_owner_retire_gate_reset st = st\<lparr>h12_owner_retire_gate_counters := \<lparr>gs_query = 0, gs_open = 0,
     gs_blocked_epoch = 0, gs_blocked_inbox = 0, gs_last_pending = 0\<rparr>, h12_owner_retire_gate_initialized := True\<rparr>"

definition h12_owner_retire_gate_ready :: "H12OwnerToken \<Rightarrow> 'a h12_gate_state_scheme \<Rightarrow> bool \<times> 'a h12_gate_state_scheme" where
  "h12_owner_retire_gate_ready owner st =
    (if \<not> h12_owner_retire_gate_initialized st then (False, st)
     else case h12_owner_epoch_ready_to_dead owner (h12_epoch st) of (epoch_ready, ep) \<Rightarrow>
       let pending = h12_token_inbox_pending owner st; k = h12_owner_retire_gate_counters st;
           k1 = k\<lparr>gs_query := gs_query k + 1, gs_last_pending := pending\<rparr>;
           k2 = (if \<not> epoch_ready then k1\<lparr>gs_blocked_epoch := gs_blocked_epoch k + 1\<rparr>
                 else if pending \<noteq> 0 then k1\<lparr>gs_blocked_inbox := gs_blocked_inbox k + 1\<rparr>
                 else k1\<lparr>gs_open := gs_open k + 1\<rparr>) in
       (epoch_ready \<and> pending = 0, st\<lparr>h12_epoch := ep, h12_owner_retire_gate_counters := k2\<rparr>))"

end
