(* ===== verification/Hz12_Shadow.thy ===== *)
theory Hz12_Shadow
  imports Hz12_Token_Inbox
begin

text \<open>
  \<open>src/hakozuna-hz12/src/hz12_shadow.{h,c}\<close> and \<open>hz12_span_owner_shadow.{h,c}\<close>: two tables of owner tokens,
  one word for each span of the arena. The first serves the routing of flushes and keeps the counters of what
  routing would do; the second serves the reclaim of retired spans. Both in the default build, with the
  diagnostic counters and without the fast load.

  A read-modify-write of a word is one step. Values returned through pointers are options.
\<close>

record H12ShadowCounters =
  sc_alloc_span_seen :: u64
  sc_alloc_owner_first :: u64
  sc_alloc_owner_reuse_foreign :: u64
  sc_flush_objects_total :: u64
  sc_flush_owner_local :: u64
  sc_flush_owner_foreign :: u64
  sc_flush_owner_unknown :: u64
  sc_would_route_batches :: u64
  sc_would_route_objects :: u64
  sc_would_keep_ownerless_overflow :: u64
  sc_projected_orphan_objects :: u64
  sc_projected_reclaim_blocked_spans :: u64
  sc_projected_inbox_current_max :: u64

record h12_shadow_state = h12_gate_state +
  h12_span_owner :: "nat \<Rightarrow> u64"
  h12_span_foreign_seen :: "nat \<Rightarrow> bool"
  h12_owner_inbox_current :: "nat \<Rightarrow> u32"
  h12_counters :: H12ShadowCounters
  h12_owner_count :: u32
  h12_span_owner_tokens :: "nat \<Rightarrow> u64"

abbreviation (input) HZ12_SHADOW_FLUSH_CAP :: u32 where "HZ12_SHADOW_FLUSH_CAP \<equiv> 256"
abbreviation (input) HZ12_SHADOW_INBOX_CAP :: u32 where "HZ12_SHADOW_INBOX_CAP \<equiv> 256"
abbreviation (input) HZ12_SHADOW_MAX_OWNERS :: u32 where "HZ12_SHADOW_MAX_OWNERS \<equiv> 64"

abbreviation (input) count_shadow :: "(H12ShadowCounters \<Rightarrow> H12ShadowCounters) \<Rightarrow> 'a h12_shadow_state_scheme \<Rightarrow> 'a h12_shadow_state_scheme" where
  "count_shadow f st \<equiv> st\<lparr>h12_counters := f (h12_counters st)\<rparr>"

definition h12_span_id :: "addr \<Rightarrow> 'a h12_span_state_scheme \<Rightarrow> nat option" where
  "h12_span_id ptr st =
    (if ptr = 0 \<or> hz12_arena_base st = 0 then None
     else if ptr < hz12_arena_base st then None
     else let off = ptr - hz12_arena_base st in
       if off \<ge> HZ12_ARENA_BYTES then None else Some (unat (drop_bit 16 off)))"

definition h12_shadow_reset :: "'a h12_shadow_state_scheme \<Rightarrow> 'a h12_shadow_state_scheme" where
  "h12_shadow_reset st = st\<lparr>h12_span_owner := (\<lambda>_. 0), h12_span_foreign_seen := (\<lambda>_. False),
     h12_owner_inbox_current := (\<lambda>_. 0),
     h12_counters := \<lparr>sc_alloc_span_seen = 0, sc_alloc_owner_first = 0, sc_alloc_owner_reuse_foreign = 0,
       sc_flush_objects_total = 0, sc_flush_owner_local = 0, sc_flush_owner_foreign = 0, sc_flush_owner_unknown = 0,
       sc_would_route_batches = 0, sc_would_route_objects = 0, sc_would_keep_ownerless_overflow = 0,
       sc_projected_orphan_objects = 0, sc_projected_reclaim_blocked_spans = 0, sc_projected_inbox_current_max = 0\<rparr>\<rparr>"

definition h12_shadow_init :: "u32 \<Rightarrow> 'a h12_shadow_state_scheme \<Rightarrow> bool \<times> 'a h12_shadow_state_scheme" where
  "h12_shadow_init owner_count st =
    (if owner_count = 0 \<or> owner_count > HZ12_SHADOW_MAX_OWNERS then (False, st)
     else (True, h12_shadow_reset (st\<lparr>h12_owner_count := owner_count\<rparr>)))"

section \<open>Tokens of the flush route\<close>

definition shadow_token :: "u32 \<Rightarrow> u32 \<Rightarrow> u64" where
  "shadow_token owner_id generation = push_bit 32 (ucast generation) OR ucast (owner_id + 1)"

definition h12_shadow_on_alloc_token :: "addr \<Rightarrow> u32 \<Rightarrow> u32 \<Rightarrow> 'a h12_shadow_state_scheme \<Rightarrow> 'a h12_shadow_state_scheme" where
  "h12_shadow_on_alloc_token ptr owner_id generation st =
    (if owner_id \<ge> h12_owner_count st \<or> generation = 0 then st
     else case h12_span_id ptr st of
       None \<Rightarrow> st
     | Some span_id \<Rightarrow>
         let token = shadow_token owner_id generation;
             st1 = count_shadow (\<lambda>k. k\<lparr>sc_alloc_span_seen := sc_alloc_span_seen k + 1\<rparr>) st;
             expected = h12_span_owner st1 span_id in
         if expected = 0
         then count_shadow (\<lambda>k. k\<lparr>sc_alloc_owner_first := sc_alloc_owner_first k + 1\<rparr>)
                (st1\<lparr>h12_span_owner := (h12_span_owner st1)(span_id := token)\<rparr>)
         else if expected \<noteq> token
         then count_shadow (\<lambda>k. k\<lparr>sc_alloc_owner_reuse_foreign := sc_alloc_owner_reuse_foreign k + 1\<rparr>) st1
         else st1)"

definition h12_shadow_on_alloc :: "addr \<Rightarrow> u32 \<Rightarrow> 'a h12_shadow_state_scheme \<Rightarrow> 'a h12_shadow_state_scheme" where
  "h12_shadow_on_alloc ptr owner_id st = h12_shadow_on_alloc_token ptr owner_id 1 st"

text \<open>The owner and its generation.\<close>

definition h12_shadow_owner_token_for_ptr :: "addr \<Rightarrow> 'a h12_shadow_state_scheme \<Rightarrow> (u32 \<times> u32) option" where
  "h12_shadow_owner_token_for_ptr ptr st =
    (case h12_span_id ptr st of
       None \<Rightarrow> None
     | Some span_id \<Rightarrow>
         let token = h12_span_owner st span_id; encoded_owner = (ucast token :: u32);
             generation = (ucast (drop_bit 32 token) :: u32) in
         if encoded_owner = 0 \<or> encoded_owner > h12_owner_count st then None
         else if generation = 0 then None
         else Some (encoded_owner - 1, generation))"

definition h12_shadow_rehome_token :: "addr \<Rightarrow> u32 \<Rightarrow> u32 \<Rightarrow> 'a h12_shadow_state_scheme \<Rightarrow> bool \<times> 'a h12_shadow_state_scheme" where
  "h12_shadow_rehome_token ptr owner_id generation st =
    (if owner_id \<ge> h12_owner_count st \<or> generation = 0 then (False, st)
     else case h12_span_id ptr st of
       None \<Rightarrow> (False, st)
     | Some span_id \<Rightarrow> (True, st\<lparr>h12_span_owner := (h12_span_owner st)(span_id := shadow_token owner_id generation)\<rparr>))"

definition h12_shadow_clear_token_if :: "addr \<Rightarrow> u32 \<Rightarrow> u32 \<Rightarrow> 'a h12_shadow_state_scheme \<Rightarrow> bool \<times> 'a h12_shadow_state_scheme" where
  "h12_shadow_clear_token_if ptr owner_id generation st =
    (if owner_id \<ge> h12_owner_count st \<or> generation = 0 then (False, st)
     else case h12_span_id ptr st of
       None \<Rightarrow> (False, st)
     | Some span_id \<Rightarrow>
         if h12_span_owner st span_id = shadow_token owner_id generation
         then (True, st\<lparr>h12_span_owner := (h12_span_owner st)(span_id := 0)\<rparr>)
         else (False, st))"

definition h12_shadow_owner_for_ptr :: "addr \<Rightarrow> 'a h12_shadow_state_scheme \<Rightarrow> u32 option" where
  "h12_shadow_owner_for_ptr ptr st = map_option fst (h12_shadow_owner_token_for_ptr ptr st)"

text \<open>The two scans of a batch keep the words of up to eight spans in a direct-mapped cache \<open>span_ids\<close>,
  \<open>words\<close>; \<open>read\<close> is what a scan takes of a word.\<close>

fun batch_scan :: "(nat \<Rightarrow> 'w) \<Rightarrow> 'w \<Rightarrow> (nat \<Rightarrow> nat option) \<Rightarrow> (nat \<Rightarrow> 'w) \<Rightarrow> 'a h12_span_state_scheme \<Rightarrow> addr list \<Rightarrow> bool" where
  "batch_scan read wanted span_ids words st [] = True"
| "batch_scan read wanted span_ids words st (ptr # rest) =
    (case h12_span_id ptr st of
       None \<Rightarrow> False
     | Some span_id \<Rightarrow>
         let slot = span_id mod 8;
             hit = span_ids slot = Some span_id;
             word = (if hit then words slot else read span_id);
             span_ids1 = (if hit then span_ids else span_ids(slot := Some span_id));
             words1 = (if hit then words else words(slot := word)) in
         if word \<noteq> wanted then False else batch_scan read wanted span_ids1 words1 st rest)"

definition h12_shadow_batch_all_owner :: "addr list \<Rightarrow> u32 \<Rightarrow> 'a h12_shadow_state_scheme \<Rightarrow> bool" where
  "h12_shadow_batch_all_owner items owner_id st =
    (if owner_id \<ge> h12_owner_count st then False
     else batch_scan (\<lambda>i. ucast (h12_span_owner st i) :: u32) (owner_id + 1) (\<lambda>_. None) (\<lambda>_. 0) st items)"

definition h12_shadow_batch_all_owner_token :: "addr list \<Rightarrow> u32 \<Rightarrow> u32 \<Rightarrow> 'a h12_shadow_state_scheme \<Rightarrow> bool" where
  "h12_shadow_batch_all_owner_token items owner_id generation st =
    (if owner_id \<ge> h12_owner_count st \<or> generation = 0 then False
     else batch_scan (h12_span_owner st) (shadow_token owner_id generation) (\<lambda>_. None) (\<lambda>_. 0) st items)"

section \<open>What routing would do\<close>

record H12ShadowCache =
  sh_items :: "addr list"
  sh_consumer_id :: u32

definition h12_shadow_cache_init :: "u32 \<Rightarrow> H12ShadowCache" where
  "h12_shadow_cache_init consumer_id = \<lparr>sh_items = [], sh_consumer_id = consumer_id\<rparr>"

definition h12_shadow_project_batch :: "u32 \<Rightarrow> u32 \<Rightarrow> 'a h12_shadow_state_scheme \<Rightarrow> 'a h12_shadow_state_scheme" where
  "h12_shadow_project_batch owner_id n st =
    (if n = 0 \<or> owner_id \<ge> h12_owner_count st then st
     else if n > HZ12_SHADOW_INBOX_CAP
     then count_shadow (\<lambda>k. k\<lparr>sc_would_keep_ownerless_overflow := sc_would_keep_ownerless_overflow k + ucast n\<rparr>) st
     else
       let now = h12_owner_inbox_current st (unat owner_id) + n in
       count_shadow (\<lambda>k. k\<lparr>sc_would_route_batches := sc_would_route_batches k + 1,
         sc_would_route_objects := sc_would_route_objects k + ucast n,
         sc_projected_inbox_current_max := max (sc_projected_inbox_current_max k) (ucast now)\<rparr>) st)"

text \<open>One object of a flush: the counts per owner and the state.\<close>

definition shadow_flush_item :: "u32 \<Rightarrow> addr \<Rightarrow> (nat \<Rightarrow> u32) \<times> 'a h12_shadow_state_scheme \<Rightarrow> (nat \<Rightarrow> u32) \<times> 'a h12_shadow_state_scheme" where
  "shadow_flush_item consumer_id ptr = (\<lambda>(owner_counts, st).
    case h12_span_id ptr st of
      None \<Rightarrow> (owner_counts, count_shadow (\<lambda>k. k\<lparr>sc_flush_owner_unknown := sc_flush_owner_unknown k + 1\<rparr>) st)
    | Some span_id \<Rightarrow>
        let st1 = count_shadow (\<lambda>k. k\<lparr>sc_flush_objects_total := sc_flush_objects_total k + 1\<rparr>) st;
            token = (ucast (h12_span_owner st1 span_id) :: u32); o_id = token - 1 in
        if token = 0 \<or> token > h12_owner_count st1
        then (owner_counts, count_shadow (\<lambda>k. k\<lparr>sc_flush_owner_unknown := sc_flush_owner_unknown k + 1,
               sc_projected_orphan_objects := sc_projected_orphan_objects k + 1\<rparr>) st1)
        else if o_id = consumer_id
        then (owner_counts, count_shadow (\<lambda>k. k\<lparr>sc_flush_owner_local := sc_flush_owner_local k + 1\<rparr>) st1)
        else (owner_counts(unat o_id := owner_counts (unat o_id) + 1),
              (let seen = h12_span_foreign_seen st1 span_id in
               count_shadow (\<lambda>k. k\<lparr>sc_flush_owner_foreign := sc_flush_owner_foreign k + 1,
                   sc_projected_reclaim_blocked_spans := (if seen then sc_projected_reclaim_blocked_spans k
                     else sc_projected_reclaim_blocked_spans k + 1)\<rparr>)
                 (st1\<lparr>h12_span_foreign_seen := (h12_span_foreign_seen st1)(span_id := True)\<rparr>))))"

definition h12_shadow_flush :: "H12ShadowCache \<Rightarrow> 'a h12_shadow_state_scheme \<Rightarrow> H12ShadowCache \<times> 'a h12_shadow_state_scheme" where
  "h12_shadow_flush cache st =
    (if sh_items cache = [] then (cache, st)
     else case fold (shadow_flush_item (sh_consumer_id cache)) (sh_items cache) (\<lambda>_. 0, st) of
       (owner_counts, st1) \<Rightarrow>
         (cache\<lparr>sh_items := []\<rparr>,
          fold (\<lambda>i. h12_shadow_project_batch (of_nat i) (owner_counts i)) [0..<unat (h12_owner_count st1)] st1))"

definition h12_shadow_on_free :: "H12ShadowCache \<Rightarrow> addr \<Rightarrow> 'a h12_shadow_state_scheme \<Rightarrow> H12ShadowCache \<times> 'a h12_shadow_state_scheme" where
  "h12_shadow_on_free cache ptr st =
    (if ptr = 0 then (cache, st)
     else let cache1 = cache\<lparr>sh_items := sh_items cache @ [ptr]\<rparr> in
       if length (sh_items cache1) = unat HZ12_SHADOW_FLUSH_CAP then h12_shadow_flush cache1 st else (cache1, st))"

section \<open>Tokens of the reclaim\<close>

definition h12_span_owner_pack :: "H12OwnerToken \<Rightarrow> u64" where
  "h12_span_owner_pack owner = push_bit 32 (ucast (ot_generation owner)) OR ucast (ot_slot owner)"

definition h12_span_owner_id :: "addr \<Rightarrow> 'a h12_span_state_scheme \<Rightarrow> nat option" where
  "h12_span_owner_id ptr st =
    (if ptr = 0 \<or> hz12_arena_base st = 0 then None
     else if ptr < hz12_arena_base st then None
     else let offset = ptr - hz12_arena_base st in
       if offset \<ge> HZ12_ARENA_BYTES then None else Some (unat (drop_bit 16 offset)))"

definition h12_span_owner_shadow_reset :: "'a h12_shadow_state_scheme \<Rightarrow> 'a h12_shadow_state_scheme" where
  "h12_span_owner_shadow_reset st = st\<lparr>h12_span_owner_tokens := (\<lambda>_. 0)\<rparr>"

definition h12_span_owner_shadow_assign :: "addr \<Rightarrow> H12OwnerToken \<Rightarrow> 'a h12_shadow_state_scheme \<Rightarrow> bool \<times> 'a h12_shadow_state_scheme" where
  "h12_span_owner_shadow_assign ptr owner st =
    (if ot_generation owner = 0 then (False, st)
     else case h12_span_owner_id ptr st of
       None \<Rightarrow> (False, st)
     | Some span_id \<Rightarrow> (True, st\<lparr>h12_span_owner_tokens := (h12_span_owner_tokens st)(span_id := h12_span_owner_pack owner)\<rparr>))"

definition h12_span_owner_shadow_clear_if :: "addr \<Rightarrow> H12OwnerToken \<Rightarrow> 'a h12_shadow_state_scheme \<Rightarrow> bool \<times> 'a h12_shadow_state_scheme" where
  "h12_span_owner_shadow_clear_if ptr owner st =
    (if ot_generation owner = 0 then (False, st)
     else case h12_span_owner_id ptr st of
       None \<Rightarrow> (False, st)
     | Some span_id \<Rightarrow>
         if h12_span_owner_tokens st span_id = h12_span_owner_pack owner
         then (True, st\<lparr>h12_span_owner_tokens := (h12_span_owner_tokens st)(span_id := 0)\<rparr>)
         else (False, st))"

definition h12_span_owner_shadow_query :: "nat \<Rightarrow> 'a h12_shadow_state_scheme \<Rightarrow> H12OwnerToken option" where
  "h12_span_owner_shadow_query span_id st =
    (if span_id \<ge> 65536 then None
     else let packed = h12_span_owner_tokens st span_id;
              owner = \<lparr>ot_slot = ucast packed, ot_generation = ucast (drop_bit 32 packed)\<rparr> in
       if packed = 0 then None else if ot_generation owner = 0 then None else Some owner)"


section \<open>The scan of a batch\<close>

lemma pack_word:
  fixes w :: u64 and hi lo :: u32
  shows "w = push_bit 32 (ucast hi) OR ucast lo \<longleftrightarrow> ucast w = lo \<and> ucast (drop_bit 32 w) = hi"
proof
  assume w: "w = push_bit 32 (ucast hi) OR ucast lo"
  have "\<not> bit lo (32 + n)" for n using bit_imp_le_length [of lo "32 + n"] by auto
  then show "ucast w = lo \<and> ucast (drop_bit 32 w) = hi" unfolding w by (auto intro!: bit_eqI simp: bit_simps)
next
  assume w: "ucast w = lo \<and> ucast (drop_bit 32 w) = hi"
  show "w = push_bit 32 (ucast hi) OR ucast lo"
  proof (rule bit_eqI)
    fix n assume "possible_bit TYPE(u64) n"
    then show "bit w n = bit (push_bit 32 (ucast hi) OR ucast lo :: u64) n"
      using w [THEN conjunct1, symmetric] w [THEN conjunct2, symmetric] by (auto simp: bit_simps)
  qed
qed

lemma batch_scan_spec:
  assumes "\<And>slot i. ids slot = Some i \<Longrightarrow> words slot = read i"
  shows "batch_scan read wanted ids words st items \<longleftrightarrow> (\<forall>p\<in>set items. \<exists>i. h12_span_id p st = Some i \<and> read i = wanted)"
  using assms
proof (induction items arbitrary: ids words)
  case (Cons p items)
  show ?case
  proof (cases "h12_span_id p st")
    case (Some i)
    let ?hit = "ids (i mod 8) = Some i"
    have w: "(if ?hit then words (i mod 8) else read i) = read i" using Cons.prems by simp
    show ?thesis
    proof (cases ?hit)
      case True
      then show ?thesis using Some Cons.IH [OF Cons.prems] w by (simp add: Let_def)
    next
      case False
      have new: "(words(i mod 8 := read i)) slot = read j" if "(ids(i mod 8 \<mapsto> i)) slot = Some j" for slot j
        using that Cons.prems by (auto split: if_splits)
      have "batch_scan read wanted (ids(i mod 8 \<mapsto> i)) (words(i mod 8 := read i)) st items
          \<longleftrightarrow> (\<forall>p\<in>set items. \<exists>i. h12_span_id p st = Some i \<and> read i = wanted)"
        by (rule Cons.IH) (rule new)
      then show ?thesis using Some False by (auto simp: Let_def)
    qed
  qed simp
qed simp

text \<open>C38: the scan of a batch with its eight-entry cache of owner words answers exactly whether every object is
  in a span of the arena that has the token of the owner and the generation.\<close>

theorem batch_all_owner_token_iff:
  "h12_shadow_batch_all_owner_token items owner_id generation st \<longleftrightarrow> owner_id < h12_owner_count st \<and> generation \<noteq> 0 \<and>
     list_all (\<lambda>p. h12_shadow_owner_token_for_ptr p st = Some (owner_id, generation)) items"
proof (cases "owner_id < h12_owner_count st \<and> generation \<noteq> 0")
  case True
  then have le: "owner_id + 1 \<le> h12_owner_count st" by (simp add: inc_le)
  have le0: "owner_id + 1 \<noteq> 0" using True by uint_arith
  have "h12_shadow_owner_token_for_ptr p st = Some (owner_id, generation) \<longleftrightarrow>
      (\<exists>i. h12_span_id p st = Some i \<and> h12_span_owner st i = shadow_token owner_id generation)" for p
  proof (cases "h12_span_id p st")
    case (Some i)
    have "h12_span_owner st i = shadow_token owner_id generation \<longleftrightarrow>
        ucast (h12_span_owner st i) = owner_id + 1 \<and> ucast (drop_bit 32 (h12_span_owner st i)) = generation"
      unfolding shadow_token_def by (rule pack_word)
    then show ?thesis using Some True le le0 by (auto simp: h12_shadow_owner_token_for_ptr_def Let_def)
  qed (simp add: h12_shadow_owner_token_for_ptr_def)
  moreover have "\<not> h12_owner_count st \<le> owner_id" using True by (simp add: not_le)
  ultimately show ?thesis using True
      batch_scan_spec [of "\<lambda>_. None" "\<lambda>_. 0" "h12_span_owner st" "shadow_token owner_id generation" st items]
    by (simp add: h12_shadow_batch_all_owner_token_def list_all_iff)
qed (auto simp: h12_shadow_batch_all_owner_token_def not_le)

end
