(* ===== verification/Hz12_Flush_Route.thy ===== *)
theory Hz12_Flush_Route
  imports Hz12_Shadow
begin

text \<open>
  \<open>src/hakozuna-hz12/src/hz12_flush_owner_route.{h,c}\<close>: when a thread cache is flushed, the objects of spans
  that belong to other threads are linked per owner and published to the owners' inboxes; all others go to the
  sink of returned objects. Builds with and without the cold-span lane, with the batch ledger's tokens but
  without its returns.

  The three fields of \<open>H12ThreadCache\<close> that this build adds are kept per thread in \<open>h12_flush_owner\<close>; a NULL
  cache is the caller's branch. Each section under a lock is one step. Draining an inbox into the cache, which
  flushes and so routes again, is left out.
\<close>

record hz12_route_config =
  rc_cold_span :: bool
  rc_owner_batch_ledger :: bool

record H12FlushOwnerInbox =
  fi_heads :: "nat \<Rightarrow> addr"
  fi_tails :: "nat \<Rightarrow> addr"
  fi_counts :: "nat \<Rightarrow> u32"
  fi_total_count :: u32
  fi_generation :: u32
  fi_active :: bool
  fi_pending :: bool

record H12FlushOwnerRouteStats =
  fs_attach_success :: u64
  fs_attach_reuse :: u64
  fs_attach_full :: u64
  fs_detach_success :: u64
  fs_stale_fallback :: u64

record H12FlushOwner =
  fo_id :: u32
  fo_generation :: u32
  fo_valid :: bool

record h12_route_state = h12_shadow_state +
  hz12_flush_owner_once :: bool
  hz12_flush_owner_next :: u32
  hz12_flush_owner_inboxes :: "nat \<Rightarrow> H12FlushOwnerInbox"
  hz12_flush_owner_stats :: H12FlushOwnerRouteStats
  h12_flush_owner :: "nat \<Rightarrow> H12FlushOwner"

abbreviation (input) HZ12_FLUSH_OWNER_INBOX_CAP :: u32 where "HZ12_FLUSH_OWNER_INBOX_CAP \<equiv> 1024"

abbreviation (input) count_route :: "(H12FlushOwnerRouteStats \<Rightarrow> H12FlushOwnerRouteStats) \<Rightarrow> 'a h12_route_state_scheme \<Rightarrow> 'a h12_route_state_scheme" where
  "count_route f st \<equiv> st\<lparr>hz12_flush_owner_stats := f (hz12_flush_owner_stats st)\<rparr>"

abbreviation (input) set_inbox :: "nat \<Rightarrow> H12FlushOwnerInbox \<Rightarrow> 'a h12_route_state_scheme \<Rightarrow> 'a h12_route_state_scheme" where
  "set_inbox i inbox st \<equiv> st\<lparr>hz12_flush_owner_inboxes := (hz12_flush_owner_inboxes st)(i := inbox)\<rparr>"

abbreviation (input) set_flush_owner :: "nat \<Rightarrow> H12FlushOwner \<Rightarrow> 'a h12_route_state_scheme \<Rightarrow> 'a h12_route_state_scheme" where
  "set_flush_owner t fo st \<equiv> st\<lparr>h12_flush_owner := (h12_flush_owner st)(t := fo)\<rparr>"

definition hz12_flush_owner_init_once :: "'a h12_route_state_scheme \<Rightarrow> 'a h12_route_state_scheme" where
  "hz12_flush_owner_init_once st =
    (if hz12_flush_owner_once st then st
     else snd (h12_shadow_init HZ12_SHADOW_MAX_OWNERS (st\<lparr>hz12_flush_owner_once := True\<rparr>)))"

partial_function (option) hz12_flush_owner_return_chain :: "hz12_config \<Rightarrow> u8 \<Rightarrow> addr \<Rightarrow> 'a h12_span_state_scheme \<Rightarrow>
    'a h12_span_state_scheme option" where
  "hz12_flush_owner_return_chain cfg class_id head st =
    (if head = 0 then Some st
     else case pop_range_loop (unat (c12_cache_cap cfg)) head (h12_mem st) of
       (items, rest) \<Rightarrow> hz12_flush_owner_return_chain cfg class_id rest (hz12_returned_push_range cfg class_id items st))"

section \<open>Publishing\<close>

definition hz12_flush_owner_publish :: "hz12_config \<Rightarrow> u32 \<Rightarrow> u8 \<Rightarrow> u32 \<Rightarrow> addr \<Rightarrow> addr \<Rightarrow> u32 \<Rightarrow>
    'a h12_route_state_scheme \<Rightarrow> 'a h12_route_state_scheme option" where
  "hz12_flush_owner_publish cfg owner_id class_id generation head tail n st =
    (let i = unat owner_id; inbox = hz12_flush_owner_inboxes st i; c = unat class_id in
     if owner_id \<ge> HZ12_SHADOW_MAX_OWNERS \<or> class_id \<ge> HZ12_CLASS_COUNT cfg \<or> head = 0 \<or> tail = 0 \<or> n = 0
     then hz12_flush_owner_return_chain cfg class_id head st
     else if \<not> fi_active inbox \<or> fi_generation inbox \<noteq> generation
     then hz12_flush_owner_return_chain cfg class_id head
            (count_route (\<lambda>k. k\<lparr>fs_stale_fallback := fs_stale_fallback k + ucast n\<rparr>) st)
     else if fi_total_count inbox + n > HZ12_FLUSH_OWNER_INBOX_CAP
     then hz12_flush_owner_return_chain cfg class_id head st
     else Some (set_inbox i (inbox\<lparr>fi_heads := (fi_heads inbox)(c := head),
            fi_tails := (if fi_tails inbox c = 0 then (fi_tails inbox)(c := tail) else fi_tails inbox),
            fi_counts := (fi_counts inbox)(c := fi_counts inbox c + n),
            fi_total_count := fi_total_count inbox + n, fi_pending := True\<rparr>)
          (st\<lparr>h12_mem := (h12_mem st)(tail := fi_heads inbox c)\<rparr>)))"

section \<open>Owners\<close>

definition attach_owner :: "nat \<Rightarrow> nat \<Rightarrow> 'a h12_route_state_scheme \<Rightarrow> 'a h12_route_state_scheme" where
  "attach_owner t i st =
    (let inbox = hz12_flush_owner_inboxes st i; g = fi_generation inbox + 1; generation = (if g = 0 then 1 else g) in
     count_route (\<lambda>k. k\<lparr>fs_attach_success := fs_attach_success k + 1,
         fs_attach_reuse := (if generation > 1 then fs_attach_reuse k + 1 else fs_attach_reuse k)\<rparr>)
       (set_flush_owner t \<lparr>fo_id = of_nat i, fo_generation = generation, fo_valid = True\<rparr>
         (set_inbox i (inbox\<lparr>fi_generation := generation, fi_active := True\<rparr>) st)))"

definition hz12_flush_owner_route_attach :: "hz12_route_config \<Rightarrow> nat \<Rightarrow> 'a h12_route_state_scheme \<Rightarrow> 'a h12_route_state_scheme" where
  "hz12_flush_owner_route_attach rc t st =
    (if fo_valid (h12_flush_owner st t) then st
     else let st1 = hz12_flush_owner_init_once st in
       if rc_cold_span rc
       then (case find (\<lambda>i. \<not> fi_active (hz12_flush_owner_inboxes st1 i) \<and> fi_total_count (hz12_flush_owner_inboxes st1 i) = 0)
                    [0..<unat HZ12_SHADOW_MAX_OWNERS] of
               None \<Rightarrow> count_route (\<lambda>k. k\<lparr>fs_attach_full := fs_attach_full k + 1\<rparr>) st1
             | Some i \<Rightarrow> attach_owner t i st1)
       else
         let owner_id = hz12_flush_owner_next st1;
             st2 = st1\<lparr>hz12_flush_owner_next := owner_id + 1\<rparr> in
         if owner_id \<ge> HZ12_SHADOW_MAX_OWNERS then st2
         else set_flush_owner t \<lparr>fo_id = owner_id, fo_generation = 1, fo_valid = True\<rparr> st2)"

definition hz12_flush_owner_route_assign_span :: "hz12_route_config \<Rightarrow> nat \<Rightarrow> addr \<Rightarrow> 'a h12_route_state_scheme \<Rightarrow> 'a h12_route_state_scheme" where
  "hz12_flush_owner_route_assign_span rc t span_base st =
    (let fo = h12_flush_owner st t in
     if \<not> fo_valid fo \<or> span_base = 0 then st
     else let st1 = h12_shadow_on_alloc_token span_base (fo_id fo) (fo_generation fo) st in
       if rc_owner_batch_ledger rc
       then snd (h12_span_owner_shadow_assign span_base \<lparr>ot_slot = fo_id fo, ot_generation = fo_generation fo\<rparr> st1)
       else st1)"

fun return_chains :: "hz12_config \<Rightarrow> (nat \<Rightarrow> addr) \<Rightarrow> nat list \<Rightarrow> 'a h12_span_state_scheme \<Rightarrow> 'a h12_span_state_scheme option" where
  "return_chains cfg heads [] st = Some st"
| "return_chains cfg heads (c # cs) st =
    (case hz12_flush_owner_return_chain cfg (of_nat c) (heads c) st of
       None \<Rightarrow> None
     | Some st1 \<Rightarrow> return_chains cfg heads cs st1)"

definition hz12_flush_owner_route_detach :: "hz12_config \<Rightarrow> hz12_route_config \<Rightarrow> nat \<Rightarrow> 'a h12_route_state_scheme \<Rightarrow>
    'a h12_route_state_scheme option" where
  "hz12_flush_owner_route_detach cfg rc t st =
    (let fo = h12_flush_owner st t; i = unat (fo_id fo); inbox = hz12_flush_owner_inboxes st i in
     if \<not> rc_cold_span rc then Some st
     else if \<not> fo_valid fo \<or> fo_id fo \<ge> HZ12_SHADOW_MAX_OWNERS then Some st
     else if \<not> fi_active inbox \<or> fi_generation inbox \<noteq> fo_generation fo
     then Some (set_flush_owner t (fo\<lparr>fo_valid := False\<rparr>) st)
     else case return_chains cfg (fi_heads inbox) [0..<class_total cfg]
                 (set_inbox i (inbox\<lparr>fi_heads := (\<lambda>_. 0), fi_tails := (\<lambda>_. 0), fi_counts := (\<lambda>_. 0),
                    fi_total_count := 0, fi_pending := False, fi_active := False\<rparr>) st) of
         None \<Rightarrow> None
       | Some st1 \<Rightarrow> Some (count_route (\<lambda>k. k\<lparr>fs_detach_success := fs_detach_success k + 1\<rparr>)
           (set_flush_owner t (fo\<lparr>fo_valid := False\<rparr>) st1)))"

section \<open>Routing a batch\<close>

text \<open>The arrays of the routing loop: per owner a chain, its length and the generation it is for, and the
  objects kept for the sink.\<close>

record route_arrays =
  ra_heads :: "nat \<Rightarrow> addr"
  ra_tails :: "nat \<Rightarrow> addr"
  ra_counts :: "nat \<Rightarrow> u32"
  ra_generations :: "nat \<Rightarrow> u32"
  ra_local :: "addr list"

text \<open>The condition that sends an object to an owner rather than to the sink.\<close>

definition route_target :: "nat \<Rightarrow> (nat \<Rightarrow> u32) \<Rightarrow> addr \<Rightarrow> 'a h12_route_state_scheme \<Rightarrow> (u32 \<times> u32) option" where
  "route_target t generations ptr st =
    (if \<not> hz12_arena_contains ptr st then None
     else case h12_shadow_owner_token_for_ptr ptr st of
       None \<Rightarrow> None
     | Some (owner_id, generation) \<Rightarrow>
         let fo = h12_flush_owner st t; i = unat owner_id; inbox = hz12_flush_owner_inboxes st i in
         if \<not> fo_valid fo \<or> (owner_id = fo_id fo \<and> generation = fo_generation fo) \<or>
            \<not> fi_active inbox \<or> fi_generation inbox \<noteq> generation \<or>
            (generations i \<noteq> 0 \<and> generations i \<noteq> generation) then None
         else Some (owner_id, generation))"

fun route_items :: "nat \<Rightarrow> addr list \<Rightarrow> route_arrays \<Rightarrow> 'a h12_route_state_scheme \<Rightarrow> route_arrays \<times> 'a h12_route_state_scheme" where
  "route_items t [] ra st = (ra, st)"
| "route_items t (ptr # rest) ra st =
    (if ptr = 0 then route_items t rest ra st
     else case route_target t (ra_generations ra) ptr st of
       None \<Rightarrow> route_items t rest (ra\<lparr>ra_local := ra_local ra @ [ptr]\<rparr>) st
     | Some (owner_id, generation) \<Rightarrow>
         let i = unat owner_id in
         route_items t rest (ra\<lparr>ra_generations := (ra_generations ra)(i := generation),
             ra_tails := (if ra_tails ra i = 0 then (ra_tails ra)(i := ptr) else ra_tails ra),
             ra_heads := (ra_heads ra)(i := ptr),
             ra_counts := (ra_counts ra)(i := ra_counts ra i + 1)\<rparr>)
           (st\<lparr>h12_mem := (h12_mem st)(ptr := ra_heads ra i)\<rparr>))"

fun route_publishes :: "hz12_config \<Rightarrow> u8 \<Rightarrow> route_arrays \<Rightarrow> nat list \<Rightarrow> 'a h12_route_state_scheme \<Rightarrow> 'a h12_route_state_scheme option" where
  "route_publishes cfg class_id ra [] st = Some st"
| "route_publishes cfg class_id ra (i # rest) st =
    (if ra_counts ra i = 0 then route_publishes cfg class_id ra rest st
     else case hz12_flush_owner_publish cfg (of_nat i) class_id (ra_generations ra i) (ra_heads ra i) (ra_tails ra i) (ra_counts ra i) st of
       None \<Rightarrow> None
     | Some st1 \<Rightarrow> route_publishes cfg class_id ra rest st1)"

definition hz12_flush_owner_route_batch :: "hz12_config \<Rightarrow> nat \<Rightarrow> u8 \<Rightarrow> addr list \<Rightarrow> 'a h12_route_state_scheme \<Rightarrow>
    'a h12_route_state_scheme option" where
  "hz12_flush_owner_route_batch cfg t class_id items st =
    (let fo = h12_flush_owner st t in
     if items = [] \<or> class_id \<ge> HZ12_CLASS_COUNT cfg then Some st
     else if fo_valid fo \<and> h12_shadow_batch_all_owner items (fo_id fo) st
     then Some (hz12_returned_push_range cfg class_id items st)
     else case route_items t items \<lparr>ra_heads = (\<lambda>_. 0), ra_tails = (\<lambda>_. 0), ra_counts = (\<lambda>_. 0),
                 ra_generations = (\<lambda>_. 0), ra_local = []\<rparr> st of
       (ra, st1) \<Rightarrow>
         let st2 = (if ra_local ra = [] then st1 else hz12_returned_push_range cfg class_id (ra_local ra) st1) in
         route_publishes cfg class_id ra [0..<unat HZ12_SHADOW_MAX_OWNERS] st2)"

definition hz12_flush_owner_route_pending :: "u32 \<Rightarrow> u32 \<Rightarrow> 'a h12_route_state_scheme \<Rightarrow>
    (bool \<times> u32) \<times> 'a h12_route_state_scheme" where
  "hz12_flush_owner_route_pending owner_id generation st =
    (if owner_id \<ge> HZ12_SHADOW_MAX_OWNERS \<or> generation = 0 then ((False, 0), st)
     else let st1 = hz12_flush_owner_init_once st; inbox = hz12_flush_owner_inboxes st1 (unat owner_id);
              matched = fi_generation inbox = generation in
       ((matched, if matched then fi_total_count inbox else 0), st1))"

end
