(* ===== verification/Hz12_Inbox_Correct.thy ===== *)
theory Hz12_Inbox_Correct
  imports Hz12_Token_Inbox Hz12_Entry_Correct
begin

text \<open>
  Correctness of the token inboxes in the span lane: the objects in an inbox are objects the allocator has
  handed out and not taken back. Publishing moves objects from the publisher into the inbox or frees each once;
  draining frees each object of the inbox once.
\<close>

section \<open>What a free leaves alone\<close>

definition kept :: "'a h12_sys_state_scheme \<Rightarrow> 'a h12_sys_state_scheme \<Rightarrow> bool" where
  "kept st st' \<longleftrightarrow> h12_sys_state.more st' = h12_sys_state.more st \<and> hz12_arena_base st' = hz12_arena_base st"

lemma kept_trans: "kept st st' \<Longrightarrow> kept st' st'' \<Longrightarrow> kept st st''"
  by (simp add: kept_def)

lemma kept_refl [simp]: "kept st st"
  by (simp add: kept_def)

lemma returned_push_kept: "kept st (hz12_returned_push cfg c p st)"
  by (simp add: kept_def hz12_returned_push_def)

lemma push_chain_kept: "kept st (snd (hz12_returned_push_chain c items st))"
  by (simp add: kept_def hz12_returned_push_chain_def split: prod.splits)

lemma push_chunks_kept: "kept st (push_range_chunks k c items st)"
proof (induction k c items st rule: push_range_chunks.induct)
  case (1 k c items st)
  then show ?case by (subst push_range_chunks.simps) (auto intro: kept_trans [OF push_chain_kept])
qed

lemma push_range_kept: "kept st (hz12_returned_push_range cfg c items st)"
  by (simp add: hz12_returned_push_range_def push_chunks_kept push_chain_kept)

lemma sys_free_kept: "kept st (hz12_sys_free r p st)"
  by (simp add: kept_def hz12_sys_free_def hz12_resolver_ensure_def Let_def)

lemma sys_malloc_kept: "hz12_sys_malloc r n st = (p, st') \<Longrightarrow> kept st st'"
  by (auto simp: kept_def hz12_sys_malloc_def hz12_bootstrap_alloc_def sys_answer_def hz12_resolver_ensure_def Let_def
      split: if_splits)

lemma flush_items_kept: "kept st (flush_items cfg r c ps st)"
  by (induction ps arbitrary: st) (auto intro: kept_trans [OF returned_push_kept] kept_trans [OF sys_free_kept])

lemma gather_kept: "gather_returned r ps xs st = (ys, st') \<Longrightarrow> kept st st'"
  by (induction ps arbitrary: xs st) (auto intro: kept_trans [OF sys_free_kept] split: if_splits)

lemma push_kept:
  assumes "hz12_thread_cache_push cfg r c p tc st = (tc', st')"
  shows "kept st st'"
proof -
  have "hz12_thread_cache_flush_class cfg r c tc st = (tc1, st1) \<Longrightarrow> kept st st1" for tc1 st1
    by (auto simp: hz12_thread_cache_flush_class_def hz12_thread_cache_flush_span_items_def Let_def flush_items_kept
        intro: kept_trans [OF gather_kept push_range_kept] gather_kept split: if_splits prod.splits)
  then show ?thesis using assms
    by (auto simp: hz12_thread_cache_push_def hz12_thread_cache_push_overflow_slow_def Let_def
        intro: kept_trans [OF _ sys_free_kept] split: if_splits prod.splits)
qed

text \<open>On the state of the caches: everything above it, and the arena.\<close>

definition cache_kept :: "'a h12_cache_state_scheme \<Rightarrow> 'a h12_cache_state_scheme \<Rightarrow> bool" where
  "cache_kept st st' \<longleftrightarrow> h12_cache_state.more st' = h12_cache_state.more st \<and> hz12_arena_base st' = hz12_arena_base st"

lemma cache_kept_trans: "cache_kept st st' \<Longrightarrow> cache_kept st' st'' \<Longrightarrow> cache_kept st st''"
  by (simp add: cache_kept_def)

lemma cache_kept_refl [simp]: "cache_kept st st"
  by (simp add: cache_kept_def)

lemma kept_cache: "kept st st' \<Longrightarrow> cache_kept st st'"
  by (cases st; cases st') (simp add: kept_def cache_kept_def)

lemma store_tls_kept: "cache_kept st st' \<Longrightarrow> cache_kept st (store_tls t tc st')"
  by (simp add: store_tls_def cache_kept_def)

lemma get_kept:
  assumes "hz12_thread_cache_get cfg t st = (tco, st')" "hz12_span_init_once st"
  shows "cache_kept st st'"
proof (cases "hz12_tls (h12_thread st t)")
  case None
  obtain raw st1 where m: "hz12_sys_malloc (resolving_of t st) (c12_thread_cache_bytes cfg) st = (raw, st1)" by force
  have "hz12_span_init_once st1" using sys_malloc_same_span [OF m] assms(2) by (simp add: same_span_def)
  then have "st' = st1 \<or> st' = store_tls t empty_thread_cache st1"
    using assms(1) None m by (auto simp: hz12_thread_cache_get_def hz12_thread_cache_init_slow_def hz12_span_init_def Let_def
        split: if_splits)
  then show ?thesis using kept_cache [OF sys_malloc_kept [OF m]] store_tls_kept by auto
qed (use assms in \<open>simp add: hz12_thread_cache_get_def cache_kept_def\<close>)

lemma foreign_kept: "cache_kept st (hz12_free_foreign_or_fail_closed cfg r p st)"
  using kept_cache [OF sys_free_kept, of st] by (simp add: hz12_free_foreign_or_fail_closed_def)

lemma free_kept:
  assumes "hz12_span_init_once st"
  shows "cache_kept st (hz12_free cfg t p st)"
proof -
  have fast: "cache_kept st1 (hz12_free_fast_with_tc cfg t tc p st1)" for tc and st1 :: "'a h12_cache_state_scheme"
  proof -
    have "cache_kept st1 (case hz12_thread_cache_push cfg r c p tc st1 of (tc1, st2) \<Rightarrow> store_tls t tc1 st2)" for r c
      by (auto intro: store_tls_kept kept_cache [OF push_kept] split: prod.splits)
    then show ?thesis using foreign_kept [of st1] kept_cache [OF sys_free_kept, of st1]
      by (simp add: hz12_free_fast_with_tc_def Let_def split: option.splits)
  qed
  show ?thesis using get_kept [OF _ assms] foreign_kept [of st]
    by (auto simp: hz12_free_def intro: cache_kept_trans [OF _ fast] cache_kept_trans [OF _ foreign_kept] split: option.splits prod.splits)
qed

lemma inbox_fields:
  assumes "h12_cache_state.more st' = h12_cache_state.more (st :: 'a h12_inbox_state_scheme)"
  shows "h12_registry st' = h12_registry st" "h12_token_inboxes st' = h12_token_inboxes st"
    "h12_token_counters st' = h12_token_counters st" "h12_token_inbox_initialized st' = h12_token_inbox_initialized st"
  using assms by (cases st; cases st'; simp)+

section \<open>Freeing a chain\<close>

definition free_all :: "hz12_config \<Rightarrow> nat \<Rightarrow> addr list \<Rightarrow> 'a h12_cache_state_scheme \<Rightarrow> 'a h12_cache_state_scheme" where
  "free_all cfg t ps st = fold (hz12_free cfg t) ps st"

lemma free_all_simps [simp]: "free_all cfg t [] st = st" "free_all cfg t (p # ps) st = free_all cfg t ps (hz12_free cfg t p st)"
  by (simp_all add: free_all_def)

lemma own_cell: "span_inv cfg L st \<Longrightarrow> p \<in> L \<Longrightarrow> user_cell cfg L st p"
  unfolding span_inv_def user_cell_def using slot_table(2) by force

lemma user_cell_later:
  assumes "\<And>d q. d < class_total cfg \<Longrightarrow> slot_ok cfg st d q \<Longrightarrow> slot_ok cfg st' d q"
    "hz12_arena_base st' = hz12_arena_base st" "user_cell cfg L st a"
  shows "user_cell cfg L st' a"
proof (cases "hz12_arena_contains a st")
  case True
  then obtain q d where q: "q \<in> L" "d < class_total cfg" "slot_ok cfg st d q" "unat (a - q) < slot_bytes cfg d"
    using assms(3) by (auto simp: user_cell_def)
  then show ?thesis using assms(1) unfolding user_cell_def by blast
qed (simp add: user_cell_def hz12_arena_contains_def assms(2))

lemma user_cell_mono: "user_cell cfg L st a \<Longrightarrow> L \<subseteq> L' \<Longrightarrow> user_cell cfg L' st a"
  unfolding user_cell_def by blast

definition quiet :: "'a h12_cache_state_scheme \<Rightarrow> bool" where
  "quiet st \<longleftrightarrow> sys_outside st \<and> (\<forall>t. \<not> resolving_of t st)"

lemma free_chain_correct:
  assumes lane: "c12_classify_span cfg"
  shows "span_inv cfg L st \<Longrightarrow> quiet st \<Longrightarrow> chain (h12_mem st) head ps \<Longrightarrow> set ps \<subseteq> L \<Longrightarrow>
    h12_token_free_chain cfg t head st = Some (free_all cfg t ps st) \<and> span_inv cfg (L - set ps) (free_all cfg t ps st) \<and>
    quiet (free_all cfg t ps st) \<and> cache_kept st (free_all cfg t ps st) \<and>
    (\<forall>a. user_cell cfg (L - set ps) st a \<longrightarrow> h12_mem (free_all cfg t ps st) a = h12_mem st a) \<and>
    (\<forall>d q. d < class_total cfg \<longrightarrow> slot_ok cfg st d q \<longrightarrow> slot_ok cfg (free_all cfg t ps st) d q)"
proof (induction ps arbitrary: head st L)
  case Nil
  then show ?case by (simp add: h12_token_free_chain.simps [of _ _ 0] cache_kept_def)
next
  case (Cons p ps)
  let ?st = "hz12_free cfg t p st"
  have p: "head = p" "p \<noteq> 0" "chain (h12_mem st) (h12_mem st p) ps" "p \<in> L" "p \<notin> set ps"
    using Cons.prems(3,4) chain_hd_notin_tl [OF Cons.prems(3)] by auto
  have F: "free_post cfg (L - {p}) st ?st"
    by (rule hz12_free_post [OF lane Cons.prems(1)]) (use Cons.prems(2) p(4) in \<open>auto simp: quiet_def\<close>)
  note F' = F [unfolded free_post_def]
  have inv0: "span_inv cfg (L - {p}) st" by (rule span_inv_mono [OF Cons.prems(1)]) auto
  have "user_cell cfg (L - {p}) st a" if "a \<in> set ps" for a
    by (rule own_cell [OF inv0]) (use that Cons.prems(4) p(5) in auto)
  then have "chain (h12_mem ?st) (h12_mem st p) ps"
    using p(3) F' chain_cong [of ps "h12_mem ?st" "h12_mem st"] by simp
  moreover have "quiet ?st" using F' Cons.prems(2) by (simp add: quiet_def)
  moreover have "set ps \<subseteq> L - {p}" using Cons.prems(4) p(5) by auto
  ultimately have IH: "h12_token_free_chain cfg t (h12_mem st p) ?st = Some (free_all cfg t ps ?st) \<and>
    span_inv cfg (L - {p} - set ps) (free_all cfg t ps ?st) \<and> quiet (free_all cfg t ps ?st) \<and>
    cache_kept ?st (free_all cfg t ps ?st) \<and>
    (\<forall>a. user_cell cfg (L - {p} - set ps) ?st a \<longrightarrow> h12_mem (free_all cfg t ps ?st) a = h12_mem ?st a) \<and>
    (\<forall>d q. d < class_total cfg \<longrightarrow> slot_ok cfg ?st d q \<longrightarrow> slot_ok cfg (free_all cfg t ps ?st) d q)"
    using Cons.IH [of "L - {p}" ?st "h12_mem st p"] F' by blast
  have L: "L - {p} - set ps = L - set (p # ps)" by auto
  have k: "cache_kept st ?st" by (rule free_kept) (use Cons.prems(1) in \<open>simp add: span_inv_def\<close>)
  have "h12_mem (free_all cfg t ps ?st) a = h12_mem st a" if a: "user_cell cfg (L - set (p # ps)) st a" for a
  proof -
    have "user_cell cfg (L - {p} - set ps) ?st a" unfolding L
      by (rule user_cell_later [OF _ _ a]) (use F' k in \<open>simp_all add: cache_kept_def\<close>)
    then have "h12_mem (free_all cfg t ps ?st) a = h12_mem ?st a" using IH by blast
    also have "\<dots> = h12_mem st a" using F' user_cell_mono [OF a, of "L - {p}"] by auto
    finally show ?thesis .
  qed
  moreover have "h12_token_free_chain cfg t head st = Some (free_all cfg t (p # ps) st)"
    using IH p(1,2) by (subst h12_token_free_chain.simps) simp
  moreover have "cache_kept st (free_all cfg t ps ?st)" by (rule cache_kept_trans [OF k]) (use IH in blast)
  moreover have "slot_ok cfg (free_all cfg t ps ?st) d q" if "d < class_total cfg" "slot_ok cfg st d q" for d q
    using that IH F' by blast
  ultimately show ?case using IH unfolding L free_all_simps by blast
qed

section \<open>The inboxes\<close>

text \<open>The invariant: the lists \<open>F\<close> of the objects waiting in each inbox are what the chains in memory hold,
  the counts are their lengths, no object waits twice, and every waiting object counts as handed out (it is in
  \<open>L\<close>, with the objects the program holds).\<close>

definition waits :: "addr list \<Rightarrow> memory \<Rightarrow> H12TokenInbox \<Rightarrow> bool" where
  "waits ps m inbox \<longleftrightarrow> chain m (ti_head inbox) ps \<and> ti_count inbox = of_nat (length ps) \<and> length ps \<le> 1024"

definition apart :: "addr set \<Rightarrow> (nat \<Rightarrow> addr list) \<Rightarrow> bool" where
  "apart S F \<longleftrightarrow> (\<forall>i<64. S \<inter> set (F i) = {})"

definition inbox_inv :: "hz12_config \<Rightarrow> addr set \<Rightarrow> (nat \<Rightarrow> addr list) \<Rightarrow> 'a h12_inbox_state_scheme \<Rightarrow> bool" where
  "inbox_inv cfg L F st \<longleftrightarrow> span_inv cfg L st \<and> quiet st \<and>
     (\<forall>i<64. waits (F i) (h12_mem st) (h12_token_inboxes st i) \<and> set (F i) \<subseteq> L) \<and>
     (\<forall>i<64. apart (set (F i)) (F(i := [])))"

lemma waits_cong: "(\<And>a. a \<in> set ps \<Longrightarrow> m' a = m a) \<Longrightarrow> waits ps m' inbox = waits ps m inbox"
  unfolding waits_def using chain_cong [of ps m' m] by simp

lemma apartD: "apart S F \<Longrightarrow> i < 64 \<Longrightarrow> a \<in> set (F i) \<Longrightarrow> a \<notin> S"
  unfolding apart_def by blast

lemma inbox_inv_apart:
  assumes "inbox_inv cfg L F st" "j < 64" "k < 64"
  shows "j \<noteq> k \<Longrightarrow> set (F j) \<inter> set (F k) = {}"
proof -
  have "apart (set (F j)) (F(j := []))" using assms(1,2) by (simp add: inbox_inv_def)
  then have "set (F j) \<inter> set ((F(j := [])) k) = {}" using assms(3) unfolding apart_def by blast
  then show "j \<noteq> k \<Longrightarrow> set (F j) \<inter> set (F k) = {}" by simp
qed

text \<open>Fields the invariant does not read.\<close>

lemma span_inv_fields [simp]:
  "span_inv cfg L (st\<lparr>h12_registry := r\<rparr>) = span_inv cfg L st"
  "span_inv cfg L (st\<lparr>h12_token_counters := k\<rparr>) = span_inv cfg L st"
  "span_inv cfg L (st\<lparr>h12_token_inboxes := b\<rparr>) = span_inv cfg L st"
  "span_inv cfg L (st\<lparr>h12_token_inbox_initialized := i\<rparr>) = span_inv cfg L st"
  by (rule span_inv_cong; simp add: same_span_def tc_of_def)+

lemma quiet_fields [simp]:
  "quiet (st\<lparr>h12_registry := r\<rparr>) = quiet st"
  "quiet (st\<lparr>h12_token_counters := k\<rparr>) = quiet st"
  "quiet (st\<lparr>h12_token_inboxes := b\<rparr>) = quiet st"
  "quiet (st\<lparr>h12_token_inbox_initialized := i\<rparr>) = quiet st"
  "quiet (st\<lparr>h12_mem := m\<rparr>) = quiet st"
  by (simp_all add: quiet_def sys_outside_def hz12_arena_contains_def)

lemma inbox_inv_fields [simp]:
  "inbox_inv cfg L F (st\<lparr>h12_registry := r\<rparr>) = inbox_inv cfg L F st"
  "inbox_inv cfg L F (st\<lparr>h12_token_counters := k\<rparr>) = inbox_inv cfg L F st"
  by (simp_all add: inbox_inv_def)

text \<open>The reset empties the inboxes.\<close>

lemma reset_inbox_inv:
  assumes "span_inv cfg L st" "quiet st"
  shows "inbox_inv cfg L (\<lambda>_. []) (h12_token_inbox_reset st)" "h12_token_inbox_initialized (h12_token_inbox_reset st)"
  using assms by (simp_all add: inbox_inv_def h12_token_inbox_reset_def waits_def apart_def)

lemma inbox_inv_free:
  assumes lane: "c12_classify_span cfg" and inv: "inbox_inv cfg L F st"
    and c: "chain (h12_mem st) head ps" "set ps \<subseteq> L" and ap: "apart (set ps) F"
  shows "\<exists>st'. h12_token_free_chain cfg t head st = Some st' \<and> inbox_inv cfg (L - set ps) F st' \<and>
    h12_token_inboxes st' = h12_token_inboxes st \<and> h12_token_inbox_initialized st' = h12_token_inbox_initialized st"
proof -
  let ?st = "free_all cfg t ps st"
  have I: "span_inv cfg L st" "quiet st" using inv by (simp_all add: inbox_inv_def)
  note C = free_chain_correct [OF lane I c, of t]
  have f: "h12_token_inboxes ?st = h12_token_inboxes st" "h12_token_inbox_initialized ?st = h12_token_inbox_initialized st"
    using C inbox_fields [of ?st st] by (simp_all add: cache_kept_def)
  have inv0: "span_inv cfg (L - set ps) st" by (rule span_inv_mono [OF I(1)]) auto
  have "waits (F i) (h12_mem ?st) (h12_token_inboxes ?st i) \<and> set (F i) \<subseteq> L - set ps" if i: "i < 64" for i
  proof -
    have W: "waits (F i) (h12_mem st) (h12_token_inboxes st i)" "set (F i) \<subseteq> L - set ps"
      using inv i ap by (auto simp: inbox_inv_def apart_def)
    have "h12_mem ?st a = h12_mem st a" if "a \<in> set (F i)" for a
      using C own_cell [OF inv0, of a] W(2) that by blast
    then show ?thesis using W f(1) waits_cong [of "F i" "h12_mem ?st" "h12_mem st"] by simp
  qed
  moreover have "\<forall>i<64. apart (set (F i)) (F(i := []))" using inv by (simp add: inbox_inv_def)
  ultimately have "inbox_inv cfg (L - set ps) F ?st" using C unfolding inbox_inv_def by blast
  then show ?thesis using C f by blast
qed

text \<open>Writes to objects that wait in no inbox.\<close>

lemma inbox_inv_write:
  assumes inv: "inbox_inv cfg L F st" and w: "\<And>a. a \<notin> S \<Longrightarrow> m a = h12_mem st a" "S \<subseteq> L" "apart S F"
  shows "inbox_inv cfg L F (st\<lparr>h12_mem := m\<rparr>)"
proof -
  have I: "span_inv cfg L st" using inv by (simp add: inbox_inv_def)
  have "span_inv cfg L (st\<lparr>h12_mem := m\<rparr>)"
    by (rule user_write_inv [OF I]) (use w(1,2) own_cell [OF I] in blast)
  moreover have "waits (F i) m (h12_token_inboxes st i)" if "i < 64" for i
  proof -
    have "m a = h12_mem st a" if "a \<in> set (F i)" for a using w(1,3) that \<open>i < 64\<close> apartD by blast
    then show ?thesis using waits_cong [of "F i" m "h12_mem st"] inv that by (simp add: inbox_inv_def)
  qed
  ultimately show ?thesis using inv by (simp add: inbox_inv_def)
qed

text \<open>One inbox replaced.\<close>

lemma inbox_inv_replace:
  assumes inv: "inbox_inv cfg L F st" and w: "waits ps (h12_mem st) inbox" "set ps \<subseteq> L" "apart (set ps) (F(i := []))"
  shows "inbox_inv cfg L (F(i := ps)) (st\<lparr>h12_token_inboxes := (h12_token_inboxes st)(i := inbox)\<rparr>)"
proof -
  have "apart (set (if j = i then ps else F j)) (F(i := ps, j := []))" if "j < 64" for j
    unfolding apart_def
  proof (intro allI impI)
    fix k :: nat assume k: "k < 64"
    have P: "set ps \<inter> set (F l) = {}" if "l < 64" "l \<noteq> i" for l
    proof -
      have "set ps \<inter> set ((F(i := [])) l) = {}" using w(3) that(1) unfolding apart_def by blast
      then show ?thesis using that(2) by simp
    qed
    show "set (if j = i then ps else F j) \<inter> set ((F(i := ps, j := [])) k) = {}"
      using inbox_inv_apart [OF inv that k] P [OF that] P [OF k] by auto
  qed
  then show ?thesis using inv w(1,2) by (auto simp: inbox_inv_def)
qed


section \<open>Publishing and draining\<close>

lemma fallback_correct:
  assumes lane: "c12_classify_span cfg" and inv: "inbox_inv cfg L F st"
    and c: "chain (h12_mem st) head ps" "set ps \<subseteq> L" and ap: "apart (set ps) F"
  shows "\<exists>st'. token_fallback cfg t head n note st = Some (False, st') \<and> inbox_inv cfg (L - set ps) F st'"
proof -
  let ?st = "st\<lparr>h12_token_counters := (note (h12_token_counters st))
    \<lparr>is_fallback_objects := is_fallback_objects (h12_token_counters st) + ucast n\<rparr>\<rparr>"
  obtain st' where "h12_token_free_chain cfg t head ?st = Some st'" "inbox_inv cfg (L - set ps) F st'"
    using inbox_inv_free [OF lane _ _ c(2) ap, of ?st head t] inv c(1) by auto
  then show ?thesis by (simp add: token_fallback_def)
qed

lemma small_count: "of_nat k \<le> (1024 :: u32) \<Longrightarrow> k < 2 ^ 32 \<Longrightarrow> k \<le> 1024"
  by (simp add: word_le_nat_alt unat_of_nat)

lemma publish_locked_correct:
  assumes lane: "c12_classify_span cfg" and inv: "inbox_inv cfg L F st" and slot: "unat (ot_slot token) < 64"
    and c: "chain (h12_mem st) head (ys @ [tail])" "set (ys @ [tail]) \<subseteq> L" and ap: "apart (set (ys @ [tail])) F"
    and n: "n = of_nat (length (ys @ [tail]))" "length (ys @ [tail]) + 1024 < 2 ^ 32"
    and run: "r = token_publish_locked cfg t token head tail n st"
  shows "\<exists>ok st'. r = Some (ok, st') \<and>
    (if ok then inbox_inv cfg L (F(unat (ot_slot token) := ys @ tail # F (unat (ot_slot token)))) st' \<and>
         h12_token_inbox_pending token st' = (if h12_token_inbox_initialized st
           then of_nat (length (ys @ tail # F (unat (ot_slot token)))) else 0)
     else inbox_inv cfg (L - set (ys @ [tail])) F st')"
proof -
  define i where "i = unat (ot_slot token)"
  define inbox where "inbox = h12_token_inboxes st i"
  define inbox1 where "inbox1 = inbox\<lparr>ti_generation := ot_generation token\<rparr>"
  define st1 where "st1 = st\<lparr>h12_token_inboxes := (h12_token_inboxes st)(i := inbox1)\<rparr>"
  have i: "i < 64" using slot by (simp add: i_def)
  have W: "waits (F i) (h12_mem st) inbox" "set (F i) \<subseteq> L" "apart (set (F i)) (F(i := []))"
    using inv i by (simp_all add: inbox_inv_def inbox_def)
  have "inbox_inv cfg L (F(i := F i)) st1" unfolding st1_def
    by (rule inbox_inv_replace [OF inv]) (use W in \<open>simp_all add: waits_def inbox1_def\<close>)
  then have inv1: "inbox_inv cfg L F st1" by simp
  note fb = fallback_correct [OF lane _ _ c(2) ap, of _ head t n]
  note unf = run token_publish_locked_def Let_def i_def [symmetric] inbox_def [symmetric] inbox1_def [symmetric] st1_def [symmetric]
  show ?thesis
  proof (cases "ti_generation inbox \<noteq> ot_generation token \<and> ti_count inbox \<noteq> 0")
    case True
    then have r: "r = token_fallback cfg t head n (\<lambda>k. k\<lparr>is_publish_generation_reject := is_publish_generation_reject k + 1\<rparr>) st"
      unfolding unf by (rule if_P)
    obtain st' where "r = Some (False, st')" "inbox_inv cfg (L - set (ys @ [tail])) F st'" unfolding r using fb [OF inv c(1)] by blast
    then show ?thesis by (intro exI [of _ False] exI [of _ st']) simp
  next
    case gen: False
    show ?thesis
    proof (cases "ti_count inbox1 + n > 1024")
      case True
      then have r: "r = token_fallback cfg t head n (\<lambda>k. k\<lparr>is_publish_overflow := is_publish_overflow k + 1\<rparr>) st1"
        unfolding unf if_not_P [OF gen] by (rule if_P)
      have "chain (h12_mem st1) head (ys @ [tail])" using c(1) by (simp add: st1_def)
      then obtain st' where "r = Some (False, st')" "inbox_inv cfg (L - set (ys @ [tail])) F st'" unfolding r using fb [OF inv1] by blast
      then show ?thesis by (intro exI [of _ False] exI [of _ st']) simp
    next
      case False
      let ?m = "(h12_mem st)(tail := ti_head inbox)" and ?zs = "ys @ tail # F i"
      let ?in = "inbox1\<lparr>ti_head := head, ti_count := ti_count inbox + n\<rparr>"
      let ?st2 = "st1\<lparr>h12_mem := ?m\<rparr>"
      let ?st3 = "?st2\<lparr>h12_token_inboxes := (h12_token_inboxes ?st2)(i := ?in)\<rparr>"
      have t: "tail \<notin> set (F i)" using apartD [OF ap i, of tail] by auto
      have inv2: "inbox_inv cfg L F ?st2"
        by (rule inbox_inv_write [OF inv1, of "{tail}"]) (use c(2) ap in \<open>auto simp: st1_def apart_def\<close>)
      have len: "length ?zs \<le> 1024"
      proof -
        have l: "length (F i) \<le> 1024" "ti_count inbox = of_nat (length (F i))" using W(1) by (simp_all add: waits_def)
        have "ti_count inbox + n = of_nat (length ?zs)" by (simp add: l(2) n(1))
        then have "of_nat (length ?zs) \<le> (1024 :: u32)" using False by (simp add: inbox1_def)
        moreover have "length ?zs < 2 ^ 32" using l(1) n(2) by simp
        ultimately show ?thesis by (rule small_count)
      qed
      have w: "waits ?zs (h12_mem ?st2) ?in"
        using chain_append [OF c(1) _ t, of "ti_head inbox"] W(1) n(1) len by (simp add: waits_def)
      have "set ?zs \<subseteq> L" using c(2) W(2) by auto
      moreover have "apart (set ?zs) (F(i := []))" using ap W(3) by (auto simp: apart_def disjoint_iff split: if_splits)
      ultimately have inv3: "inbox_inv cfg L (F(i := ?zs)) ?st3" using inbox_inv_replace [OF inv2 w] by blast
      let ?st4 = "?st3\<lparr>h12_token_counters := (h12_token_counter_max (ti_count ?in) (h12_token_counters st))
        \<lparr>is_publish_accept := is_publish_accept (h12_token_counters st) + 1\<rparr>\<rparr>"
      have "r = Some (True, ?st4)"
        unfolding unf if_not_P [OF gen] if_not_P [OF False] by (simp add: inbox1_def st1_def)
      moreover have "h12_token_inbox_pending token ?st4 = (if h12_token_inbox_initialized st then of_nat (length ?zs) else 0)"
        using slot w by (simp add: h12_token_inbox_pending_def i_def [symmetric] st1_def inbox1_def waits_def)
      ultimately show ?thesis using inv3 unfolding i_def [symmetric] by (intro exI [of _ True] exI [of _ ?st4]) simp
    qed
  qed
qed


lemma link_batch_filter: "link_batch (filter (\<lambda>p. p \<noteq> 0) ps) h t n m = link_batch ps h t n m"
  by (induction ps arbitrary: h t n m) auto

lemma publish_post:
  assumes lane: "c12_classify_span cfg" and inv: "inbox_inv cfg L F st"
    and call: "h12_token_inbox_initialized st" "objects \<noteq> []" "unat (ot_slot token) < 64"
    and objs: "ps = filter (\<lambda>p. p \<noteq> 0) objects" "distinct ps" "set ps \<subseteq> L" "apart (set ps) F" "length ps + 1024 < 2 ^ 32"
    and i: "i = unat (ot_slot token)"
  shows "\<exists>ok st'. h12_token_inbox_publish cfg t token objects st = Some (ok, st') \<and>
    (if ok then inbox_inv cfg L (F(i := rev ps @ F i)) st' \<and>
         (ps \<noteq> [] \<longrightarrow> h12_token_inbox_pending token st' = of_nat (length (rev ps @ F i)))
     else inbox_inv cfg (L - set ps) F st')"
proof -
  obtain head tail n m where lb: "link_batch ps 0 0 0 (h12_mem st) = (head, tail, n, m)"
    by (metis prod_cases4)
  then have lbo: "h12_token_link_batch objects (h12_mem st) = (head, tail, n, m)"
    using link_batch_filter [of objects] objs(1) by (simp add: h12_token_link_batch_def)
  have ps: "filter (\<lambda>p. p \<noteq> 0) ps = ps" by (simp add: objs(1))
  let ?st1 = "st\<lparr>h12_mem := m, h12_token_counters :=
    (h12_token_counters st)\<lparr>is_publish_attempt := is_publish_attempt (h12_token_counters st) + 1\<rparr>\<rparr>"
  note unf = h12_token_inbox_publish_def lbo prod.case Let_def
  have "distinct (filter (\<lambda>p. p \<noteq> 0) ps)" by (simp add: ps objs(2))
  from this lb show ?thesis
  proof (cases rule: link_batch_fresh)
    case empty
    then have "ps = []" "m = h12_mem st" using ps by (simp, auto)
    moreover have "h12_token_inbox_publish cfg t token objects st = Some (True, ?st1)"
      using call empty(3) by (simp add: unf)
    ultimately show ?thesis using inv by (intro exI [of _ True] exI [of _ ?st1]) simp
  next
    case (batch ys)
    then have eq: "rev ps = ys @ [tail]" "set ps = set (ys @ [tail])" "length ps = length (ys @ [tail])"
      using ps by (metis, metis set_rev, metis length_rev)
    have "inbox_inv cfg L F (st\<lparr>h12_mem := m\<rparr>)"
      by (rule inbox_inv_write [OF inv _ objs(3,4)]) (rule batch(5))
    then have inv1: "inbox_inv cfg L F ?st1" by simp
    obtain ok reg where reg: "h12_owner_publishable token (h12_registry st) = (ok, reg)" by force
    let ?st2 = "?st1\<lparr>h12_registry := reg\<rparr>"
    have inv2: "inbox_inv cfg L F ?st2" using inv1 by simp
    have c: "chain (h12_mem ?st2) head (ys @ [tail])" using batch(2) by simp
    note S = objs(3,4) [unfolded eq(2)]
    have "n = of_nat (length ps)" using batch(4) unfolding ps .
    then have "unat n = length ps" using objs(5) by (simp add: unat_of_nat)
    then have n0: "n \<noteq> 0" using eq(3) by auto
    show ?thesis
    proof (cases ok)
      case True
      then have "h12_token_inbox_publish cfg t token objects st = token_publish_locked cfg t token head tail n ?st2"
        using call n0 reg by (simp add: unf)
      note P = publish_locked_correct [OF lane inv2 call(3) c S _ _ this, folded i eq(2)]
      have "n = of_nat (length (ys @ [tail]))" "length (ys @ [tail]) + 1024 < 2 ^ 32"
        using batch(4) objs(5) ps eq(3) by simp_all
      from P [OF this] obtain acc st' where R: "h12_token_inbox_publish cfg t token objects st = Some (acc, st')"
        "if acc then inbox_inv cfg L (F(i := ys @ tail # F i)) st' \<and>
           h12_token_inbox_pending token st' = (if h12_token_inbox_initialized ?st2 then of_nat (length (ys @ tail # F i)) else 0)
         else inbox_inv cfg (L - set ps) F st'"
        by blast
      have "rev ps @ F i = ys @ tail # F i" using eq(1) by simp
      then show ?thesis using R call(1) by (intro exI [of _ acc] exI [of _ st']) simp
    next
      case False
      then have "h12_token_inbox_publish cfg t token objects st =
          token_fallback cfg t head n (\<lambda>k. k\<lparr>is_publish_registry_reject := is_publish_registry_reject k + 1\<rparr>) ?st2"
        using call n0 reg by (simp add: unf)
      with fallback_correct [OF lane inv2 c S, of t n] show ?thesis unfolding eq(2) [symmetric]
        by (auto intro!: exI [of _ False])
    qed
  qed
qed





section \<open>A concrete execution\<close>

text \<open>Two objects are allocated, published to the inbox of a registered owner, and drained.\<close>

definition inbox_boot :: h12_inbox_state where
  "inbox_boot = \<lparr>hz12_size_table = (\<lambda>_. 0), hz12_size_table_ready = False, h12_mem = (\<lambda>_. 0),
     h12_maps = [4294967296], hz12_arena_base = 0, hz12_arena_end = 0, hz12_span_cursor = 0,
     hz12_span_init_once = False, hz12_span_class = (\<lambda>_. 0), hz12_span_create_count = 0, hz12_returned = (\<lambda>_. 0),
     h12_dlsym = (\<lambda>_. True), hz12_real = (\<lambda>_. False), hz12_resolved = False, hz12_bootstrap_buf = 1048576,
     hz12_bootstrap_off = 0, h12_sys_answers = [2097152, 3145728], h12_sys_calls = [],
     h12_thread = (\<lambda>_. \<lparr>hz12_tls = None, hz12_resolving = False\<rparr>),
     h12_registry = snd (h12_owner_register (h12_owner_registry_reset example_registry)),
     h12_token_inboxes = (\<lambda>_. \<lparr>ti_head = 0, ti_count = 0, ti_generation = 0\<rparr>),
     h12_token_counters = h12_token_counters_reset, h12_token_inbox_initialized = True\<rparr>"

definition inbox_one :: h12_inbox_state where
  "inbox_one = snd (hz12_malloc span_config 0 20 (hz12_span_init inbox_boot))"

definition inbox_both :: h12_inbox_state where
  "inbox_both = snd (hz12_malloc span_config 1 20 inbox_one)"

definition inbox_two :: h12_inbox_state where
  "inbox_two = h12_token_inbox_reset inbox_both"

definition inbox_batch :: "addr list" where
  "inbox_batch = [4294967296, 0, 4295032832]"

lemma inbox_example_malloc:
  "fst (hz12_malloc span_config 0 20 (hz12_span_init inbox_boot)) = 4294967296 \<and> hz12_arena_contains 4294967296 inbox_one"
  "fst (hz12_malloc span_config 1 20 inbox_one) = 4295032832 \<and> hz12_arena_contains 4295032832 inbox_both"
  by code_simp+

lemma inbox_example_publish:
  "map_option fst (h12_token_inbox_publish span_config 1 example_owner inbox_batch inbox_two) = Some True"
  by code_simp

lemma inbox_example_inv: "inbox_inv span_config {4294967296, 4295032832} (\<lambda>_. []) inbox_two" "h12_token_inbox_initialized inbox_two"
proof -
  let ?st0 = "hz12_span_init inbox_boot"
  have "boot_state 4294967296 inbox_boot" by (auto simp: boot_state_def inbox_boot_def)
  from boot_run_inv [OF this] have run0: "run_inv span_config (\<lambda>_. None) ?st0" .
  have r0: "program_run span_config ?st0 (\<lambda>_. None) ?st0" by (rule program_run.start)
  have m: "hz12_malloc span_config 0 20 ?st0 = (4294967296, inbox_one)" "hz12_malloc span_config 1 20 inbox_one = (4295032832, inbox_both)"
    using inbox_example_malloc by (metis inbox_one_def prod.collapse, metis inbox_both_def prod.collapse)
  have r1: "program_run span_config ?st0 [4294967296 \<mapsto> 20] inbox_one"
    using program_run.malloc [OF r0 m(1)] inbox_example_malloc(1) by simp
  have "program_run span_config ?st0 [4294967296 \<mapsto> 20, 4295032832 \<mapsto> 20] inbox_both"
    using program_run.malloc [OF r1 m(2)] inbox_example_malloc(2) by simp
  from program_run_inv [OF span_config_lane run0 this]
  have I: "span_inv span_config {4294967296, 4295032832} inbox_both" "quiet inbox_both"
    by (simp_all add: run_inv_def quiet_def insert_commute)
  from reset_inbox_inv [OF this] show "inbox_inv span_config {4294967296, 4295032832} (\<lambda>_. []) inbox_two"
    "h12_token_inbox_initialized inbox_two" by (simp_all only: inbox_two_def)
qed

lemma inbox_batch_ok:
  "inbox_batch \<noteq> []" "unat (ot_slot example_owner) < 64" "[4294967296, 4295032832] = filter (\<lambda>p. p \<noteq> 0) inbox_batch"
  "unat (ot_slot example_owner) = 0" "0 = unat (ot_slot example_owner)"
  by (simp_all add: inbox_batch_def example_owner_def)

lemmas inbox_example_ready = span_config_lane inbox_example_inv inbox_batch_ok(1,2,3)

lemma inbox_example_published:
  obtains st' where "h12_token_inbox_publish span_config 1 example_owner inbox_batch inbox_two = Some (True, st')"
    "inbox_inv span_config {4294967296, 4295032832} ((\<lambda>_. [])(0 := [4295032832, 4294967296])) st'"
    "h12_token_inbox_pending example_owner st' = 2"
  using publish_post [OF inbox_example_ready, of 0 1] inbox_example_publish
  by (auto simp: apart_def inbox_batch_ok(4) split: if_splits)



end
