(* ===== verification/Hz12_Route_Correct.thy ===== *)
theory Hz12_Route_Correct
  imports Hz12_Flush_Route Hz12_Inbox_Correct
begin

text \<open>
  Correctness of the flush route: every object of a batch ends in exactly one list, the sink of its class or an
  inbox, nothing else moves, and an inbox gets only objects of the spans of its live owner.
\<close>

section \<open>Families of chains in one memory\<close>

definition lists_ok :: "memory \<Rightarrow> ('k \<Rightarrow> addr) \<Rightarrow> ('k \<Rightarrow> addr list) \<Rightarrow> bool" where
  "lists_ok m heads R \<longleftrightarrow> (\<forall>k. chain m (heads k) (R k)) \<and> (\<forall>j k. j \<noteq> k \<longrightarrow> set (R j) \<inter> set (R k) = {})"

lemma lists_okD:
  assumes "lists_ok m heads R"
  shows "chain m (heads k) (R k)" "j \<noteq> k \<Longrightarrow> set (R j) \<inter> set (R k) = {}" "j \<noteq> k \<Longrightarrow> a \<in> set (R j) \<Longrightarrow> a \<notin> set (R k)"
  using assms unfolding lists_ok_def by blast+

text \<open>The list of one place replaced, with writes to its nodes only.\<close>

lemma lists_ok_replace:
  assumes ok: "lists_ok m heads R" and c: "chain m' h xs" and new: "\<And>k. k \<noteq> j \<Longrightarrow> set xs \<inter> set (R k) = {}"
    and w: "\<And>k a. k \<noteq> j \<Longrightarrow> a \<in> set (R k) \<Longrightarrow> m' a = m a"
    and hds: "heads' j = h" "\<And>k. k \<noteq> j \<Longrightarrow> heads' k = heads k"
  shows "lists_ok m' heads' (R(j := xs))"
  unfolding lists_ok_def
proof (intro conjI allI impI)
  show "chain m' (heads' k) ((R(j := xs)) k)" for k
  proof (cases "k = j")
    case False
    then have "chain m' (heads k) (R k) \<longleftrightarrow> chain m (heads k) (R k)" by (intro chain_cong) (rule w)
    then show ?thesis using False hds(2) lists_okD(1) [OF ok] by simp
  qed (use c hds in simp)
  show "set ((R(j := xs)) i) \<inter> set ((R(j := xs)) k) = {}" if "i \<noteq> k" for i k
    using that new [of i] new [of k] lists_okD(2) [OF ok that] by (auto simp: disjoint_iff)
qed

lemma lists_ok_cons:
  assumes ok: "lists_ok m heads R" and p: "p \<noteq> 0" "\<And>k. p \<notin> set (R k)"
    and hds: "heads' j = p" "\<And>k. k \<noteq> j \<Longrightarrow> heads' k = heads k"
  shows "lists_ok (m(p := heads j)) heads' (R(j := p # R j))"
proof (rule lists_ok_replace [OF ok _ _ _ hds])
  show "chain (m(p := heads j)) p (p # R j)" using p lists_okD(1) [OF ok, of j] by simp
  show "set (p # R j) \<inter> set (R k) = {}" if "k \<noteq> j" for k using p(2) [of k] lists_okD(2) [OF ok, of j k] that by auto
  show "(m(p := heads j)) a = m a" if "k \<noteq> j" "a \<in> set (R k)" for k a using p(2) [of k] that by auto
qed

text \<open>All of one list moved in front of another.\<close>

lemma lists_ok_move:
  assumes ok: "lists_ok m heads R" and j: "R j = ys @ [t]" "j \<noteq> i"
    and hds: "heads' j = 0" "heads' i = heads j" "\<And>k. k \<noteq> j \<Longrightarrow> k \<noteq> i \<Longrightarrow> heads' k = heads k"
  shows "lists_ok (m(t := heads i)) heads' (R(j := [], i := R j @ R i))"
proof -
  have t: "t \<notin> set (R k)" if "k \<noteq> j" for k using lists_okD(3) [OF ok, of j k t] that j(1) by auto
  have c: "chain m (heads j) (ys @ [t])" "chain m (heads i) (R i)" using lists_okD(1) [OF ok] j(1) by metis+
  have one: "lists_ok m (heads(j := 0)) (R(j := []))"
    by (rule lists_ok_replace [OF ok, of _ 0]) simp_all
  have "lists_ok (m(t := heads i)) heads' ((R(j := []))(i := R j @ R i))"
  proof (rule lists_ok_replace [OF one, where h = "heads j"])
    show "heads' i = heads j" using hds(2) .
    show "chain (m(t := heads i)) (heads j) (R j @ R i)" using chain_append [OF c t] j by auto
    show "set (R j @ R i) \<inter> set ((R(j := [])) k) = {}" if "k \<noteq> i" for k
      using that lists_okD(2) [OF ok, of j k] lists_okD(2) [OF ok, of i k] by auto
    show "(m(t := heads i)) a = m a" if "k \<noteq> i" "a \<in> set ((R(j := [])) k)" for k a
      using that t [of k] by (auto split: if_splits)
    show "heads' k = (heads(j := 0)) k" if "k \<noteq> i" for k using that hds by auto
  qed
  then show ?thesis .
qed

text \<open>The first \<open>k\<close> nodes cut off.\<close>

lemma lists_ok_shorten:
  assumes ok: "lists_ok m heads R" and c: "chain m h xs" "set xs \<subseteq> set (R j)"
    and hds: "heads' j = h" "\<And>k. k \<noteq> j \<Longrightarrow> heads' k = heads k"
  shows "lists_ok m heads' (R(j := xs))"
proof (rule lists_ok_replace [OF ok c(1) _ _ hds])
  show "set xs \<inter> set (R k) = {}" if "k \<noteq> j" for k using that lists_okD(2) [OF ok, of j k] c(2) by auto
qed simp

section \<open>The places of the route\<close>

datatype place = Sink nat | Box nat nat | Priv nat

fun place_head :: "'a h12_route_state_scheme \<Rightarrow> (nat \<Rightarrow> addr) \<Rightarrow> place \<Rightarrow> addr" where
  "place_head st heads (Sink c) = hz12_returned st c"
| "place_head st heads (Box i c) = fi_heads (hz12_flush_owner_inboxes st i) c"
| "place_head st heads (Priv i) = heads i"

lemma place_head_cong:
  assumes "hz12_returned st' = hz12_returned st" "hz12_flush_owner_inboxes st' = hz12_flush_owner_inboxes st"
  shows "place_head st' heads = place_head st heads"
proof
  show "place_head st' heads k = place_head st heads k" for k using assms by (cases k) simp_all
qed

abbreviation (input) places_ok :: "'a h12_route_state_scheme \<Rightarrow> (nat \<Rightarrow> addr) \<Rightarrow> (place \<Rightarrow> addr list) \<Rightarrow> bool" where
  "places_ok st heads R \<equiv> lists_ok (h12_mem st) (place_head st heads) R"

text \<open>What the operations of the sink leave alone.\<close>

definition route_kept :: "'a h12_route_state_scheme \<Rightarrow> 'a h12_route_state_scheme \<Rightarrow> bool" where
  "route_kept st st' \<longleftrightarrow> hz12_flush_owner_inboxes st' = hz12_flush_owner_inboxes st \<and>
     h12_flush_owner st' = h12_flush_owner st \<and> h12_span_owner st' = h12_span_owner st \<and>
     h12_owner_count st' = h12_owner_count st \<and> hz12_arena_base st' = hz12_arena_base st"

lemma kept_route: "kept st st' \<Longrightarrow> route_kept st st'"
  by (cases st; cases st') (simp add: kept_def route_kept_def)

lemma route_kept_trans: "route_kept st st' \<Longrightarrow> route_kept st' st'' \<Longrightarrow> route_kept st st''"
  by (simp add: route_kept_def)

lemma route_kept_refl [simp]: "route_kept st st"
  by (simp add: route_kept_def)

lemma push_range_sink:
  assumes "sink_list st c xs" "c < HZ12_CLASS_COUNT cfg" "distinct items" "0 \<notin> set items" "set items \<inter> set xs = {}"
    and st': "st' = hz12_returned_push_range cfg c items st"
  shows "sink_list st' c (rev items @ xs) \<and> (\<forall>a. a \<notin> set items \<longrightarrow> h12_mem st' a = h12_mem st a) \<and>
    (\<forall>d. d \<noteq> unat c \<longrightarrow> hz12_returned st' d = hz12_returned st d)"
proof -
  have f: "filter (\<lambda>p. p \<noteq> 0) items = items" using assms(4) by (auto simp: filter_id_conv)
  consider "items = []" | "items \<noteq> []" "c12_returned_push_range_chunk cfg = 0" | "items \<noteq> []" "c12_returned_push_range_chunk cfg \<noteq> 0"
    by blast
  then show ?thesis
  proof cases
    case 1
    then show ?thesis using assms(1) st' by (simp add: hz12_returned_push_range_def)
  next
    case 2
    then have "hz12_returned_push_chain c items st = (fst (hz12_returned_push_chain c items st), st')"
      using st' class_guard [OF assms(2)] by (simp add: hz12_returned_push_range_def)
    from push_chain_sink(1,3,4) [OF assms(1) _ assms(5) this] show ?thesis using assms(3) unfolding f by blast
  next
    case 3
    then have "st' = push_range_chunks (unat (c12_returned_push_range_chunk cfg)) c items st"
      "0 < unat (c12_returned_push_range_chunk cfg)"
      using st' class_guard [OF assms(2)] by (simp_all add: hz12_returned_push_range_def unat_gt_0)
    with push_range_chunks_sink [OF assms(1) _ assms(5)] assms(3) show ?thesis unfolding f by blast
  qed
qed

lemma push_places:
  assumes ok: "places_ok st heads R" and c: "c < HZ12_CLASS_COUNT cfg"
    and items: "distinct items" "0 \<notin> set items" "\<And>k. set items \<inter> set (R k) = {}"
    and st': "st' = hz12_returned_push_range cfg c items st"
  shows "places_ok st' heads (R(Sink (unat c) := rev items @ R (Sink (unat c))))" "route_kept st st'"
proof -
  show kp: "route_kept st st'" unfolding st' by (rule kept_route) (rule push_range_kept)
  have "sink_list st c (R (Sink (unat c)))" using lists_okD(1) [OF ok, of "Sink (unat c)"] by (simp add: sink_list_def)
  note S = push_range_sink [OF this c items(1,2,3) st']
  show "places_ok st' heads (R(Sink (unat c) := rev items @ R (Sink (unat c))))"
  proof (rule lists_ok_replace [OF ok])
    show "chain (h12_mem st') (place_head st' heads (Sink (unat c))) (rev items @ R (Sink (unat c)))"
      using S by (simp add: sink_list_def)
    show "set (rev items @ R (Sink (unat c))) \<inter> set (R k) = {}" if "k \<noteq> Sink (unat c)" for k
      using items(3) [of k] lists_okD(2) [OF ok, of "Sink (unat c)" k] that by auto
    show "h12_mem st' a = h12_mem st a" if "a \<in> set (R k)" for k a using S items(3) [of k] that by blast
    show "place_head st' heads k = place_head st heads k" if "k \<noteq> Sink (unat c)" for k
      using that S kp by (cases k) (auto simp: route_kept_def)
  qed simp
qed

lemma return_chain_places:
  assumes c: "c < HZ12_CLASS_COUNT cfg" and cap: "c12_cache_cap cfg \<noteq> 0"
  shows "places_ok st heads R \<Longrightarrow> \<exists>st' qs. hz12_flush_owner_return_chain cfg c (heads i) st = Some st' \<and>
    set qs = set (R (Priv i)) \<and> places_ok st' (heads(i := 0)) (R(Priv i := [], Sink (unat c) := qs @ R (Sink (unat c)))) \<and>
    route_kept st st'"
proof (induction "length (R (Priv i))" arbitrary: R heads st rule: less_induct)
  case less
  let ?ps = "R (Priv i)" and ?k = "unat (c12_cache_cap cfg)"
  have ch: "chain (h12_mem st) (heads i) ?ps" using lists_okD(1) [OF less.prems, of "Priv i"] by simp
  show ?case
  proof (cases "heads i = 0")
    case True
    then have e: "?ps = []" using ch by simp
    have "heads(i := 0) = heads" "R(Priv i := [], Sink (unat c) := [] @ R (Sink (unat c))) = R"
      using True e by (auto simp: fun_eq_iff)
    then show ?thesis using less.prems True e by (intro exI [of _ st] exI [of _ "[]"])
        (simp add: hz12_flush_owner_return_chain.simps [of _ _ 0])
  next
    case False
    then have ne: "?ps \<noteq> []" using ch by auto
    obtain rest where pop: "pop_range_loop ?k (heads i) (h12_mem st) = (take ?k ?ps, rest)"
      "chain (h12_mem st) rest (drop ?k ?ps)"
      using pop_range_loop_chain [OF ch, of ?k] by (metis prod.collapse)
    define R1 where "R1 = R(Priv i := drop ?k ?ps)"
    define R2 where "R2 = R1(Sink (unat c) := rev (take ?k ?ps) @ R1 (Sink (unat c)))"
    have R1: "R1 (Priv i) = drop ?k ?ps" "\<And>k. k \<noteq> Priv i \<Longrightarrow> R1 k = R k" by (simp_all add: R1_def)
    let ?heads1 = "heads(i := rest)"
    let ?st1 = "hz12_returned_push_range cfg c (take ?k ?ps) st"
    have dist: "distinct ?ps" "0 \<notin> set ?ps" using chain_distinct [OF ch] chain_not_null [OF ch] by blast+
    have one: "places_ok st ?heads1 R1" unfolding R1_def
    proof (rule lists_ok_shorten [OF less.prems pop(2)])
      show "place_head st ?heads1 k = place_head st heads k" if "k \<noteq> Priv i" for k using that by (cases k) auto
    qed (auto dest: in_set_dropD)
    have dis: "set (take ?k ?ps) \<inter> set (R1 k) = {}" for k
    proof (cases "k = Priv i")
      case True
      then show ?thesis using dist(1) R1(1) by (simp add: set_take_disj_set_drop_if_distinct)
    next
      case False
      then show ?thesis using lists_okD(2) [OF less.prems, of "Priv i" k] R1(2) by (auto dest: in_set_takeD)
    qed
    have "distinct (take ?k ?ps)" "0 \<notin> set (take ?k ?ps)" using dist by (auto dest: in_set_takeD)
    note P = push_places [OF one c this dis refl]
    have two: "places_ok ?st1 ?heads1 R2" using P(1) unfolding R2_def .
    have "length (R2 (Priv i)) < length ?ps" using ne cap R1(1) by (simp add: R2_def unat_gt_0)
    from less.hyps [OF this two] obtain st' qs where I: "hz12_flush_owner_return_chain cfg c (?heads1 i) ?st1 = Some st'"
      "set qs = set (R2 (Priv i))"
      "places_ok st' (?heads1(i := 0)) (R2(Priv i := [], Sink (unat c) := qs @ R2 (Sink (unat c))))" "route_kept ?st1 st'"
      by blast
    have eq: "R2(Priv i := [], Sink (unat c) := qs @ R2 (Sink (unat c)))
      = R(Priv i := [], Sink (unat c) := (qs @ rev (take ?k ?ps)) @ R (Sink (unat c)))"
      by (simp add: R2_def R1_def fun_eq_iff)
    have "set (take ?k ?ps) \<union> set (drop ?k ?ps) = set ?ps" by (subst set_append [symmetric]) simp
    moreover have "set qs = set (drop ?k ?ps)" using I(2) R1(1) by (simp add: R2_def)
    ultimately have "set (qs @ rev (take ?k ?ps)) = set ?ps" by auto
    moreover have "hz12_flush_owner_return_chain cfg c (heads i) st = Some st'"
      using False pop(1) I(1) by (subst hz12_flush_owner_return_chain.simps) simp
    ultimately show ?thesis using I(3,4) P(2) unfolding eq
      by (intro exI [of _ st'] exI [of _ "qs @ rev (take ?k ?ps)"]) (simp add: route_kept_trans [OF P(2)])
  qed
qed


section \<open>Publishing\<close>

text \<open>An inbox of \<open>st\<close> takes an object only from its live owner's spans.\<close>

definition box_for :: "'a h12_route_state_scheme \<Rightarrow> nat \<Rightarrow> addr \<Rightarrow> bool" where
  "box_for st i p \<longleftrightarrow> fi_active (hz12_flush_owner_inboxes st i) \<and>
     h12_shadow_owner_token_for_ptr p st = Some (of_nat i, fi_generation (hz12_flush_owner_inboxes st i))"

text \<open>What publishing changes of the inboxes, and what it does not.\<close>

definition same_owners :: "'a h12_route_state_scheme \<Rightarrow> 'a h12_route_state_scheme \<Rightarrow> bool" where
  "same_owners st st' \<longleftrightarrow> (\<forall>i. fi_active (hz12_flush_owner_inboxes st' i) = fi_active (hz12_flush_owner_inboxes st i) \<and>
     fi_generation (hz12_flush_owner_inboxes st' i) = fi_generation (hz12_flush_owner_inboxes st i)) \<and>
     h12_flush_owner st' = h12_flush_owner st \<and> h12_span_owner st' = h12_span_owner st \<and>
     h12_owner_count st' = h12_owner_count st \<and> hz12_arena_base st' = hz12_arena_base st"

lemma same_owners_trans: "same_owners st st' \<Longrightarrow> same_owners st' st'' \<Longrightarrow> same_owners st st''"
  by (simp add: same_owners_def)

lemma route_kept_same: "route_kept st st' \<Longrightarrow> same_owners st st'"
  by (simp add: same_owners_def route_kept_def)

lemma same_owners_token: "same_owners st st' \<Longrightarrow> h12_shadow_owner_token_for_ptr p st' = h12_shadow_owner_token_for_ptr p st"
  by (simp add: same_owners_def h12_shadow_owner_token_for_ptr_def h12_span_id_def Let_def)

lemma same_owners_box: "same_owners st st' \<Longrightarrow> box_for st' i p = box_for st i p"
  using same_owners_token [of st st' p] by (simp add: same_owners_def box_for_def)

text \<open>Where the objects of one private chain may go: all to the sink, or all to the inbox they are for.\<close>

definition goes :: "(place \<Rightarrow> addr list) \<Rightarrow> nat \<Rightarrow> nat \<Rightarrow> (place \<Rightarrow> addr list) \<Rightarrow> bool \<Rightarrow> bool" where
  "goes R i c R' boxed \<longleftrightarrow>
    (if boxed then R' = R(Priv i := [], Box i c := R (Priv i) @ R (Box i c))
     else \<exists>qs. set qs = set (R (Priv i)) \<and> R' = R(Priv i := [], Sink c := qs @ R (Sink c)))"

lemma publish_places:
  assumes ok: "places_ok st heads R" and c: "c < HZ12_CLASS_COUNT cfg" and cap: "c12_cache_cap cfg \<noteq> 0"
    and ch: "R (Priv i) = ys @ [tail]" and i: "i < 64" and n: "n \<noteq> 0"
  shows "\<exists>st' R' boxed. hz12_flush_owner_publish cfg (of_nat i) c g (heads i) tail n st = Some st' \<and>
    places_ok st' (heads(i := 0)) R' \<and> goes R i (unat c) R' boxed \<and> same_owners st st' \<and>
    (boxed \<longrightarrow> fi_active (hz12_flush_owner_inboxes st i) \<and> fi_generation (hz12_flush_owner_inboxes st i) = g)"
proof -
  have iw: "unat (of_nat i :: u32) = i" "\<not> 64 \<le> (of_nat i :: u32)" using i by (simp_all add: unat_of_nat word_le_nat_alt)
  have cc: "chain (h12_mem st) (heads i) (ys @ [tail])" using lists_okD(1) [OF ok, of "Priv i"] ch by simp
  have h0: "heads i \<noteq> 0" "tail \<noteq> 0" using cc chain_not_null [OF cc] by auto
  let ?inbox = "hz12_flush_owner_inboxes st i"
  let ?note = "\<lambda>st :: 'a h12_route_state_scheme. count_route (\<lambda>k. k\<lparr>fs_stale_fallback := fs_stale_fallback k + ucast n\<rparr>) st"
  have ret: "\<exists>st' R' boxed. hz12_flush_owner_return_chain cfg c (heads i) st1 = Some st' \<and>
    places_ok st' (heads(i := 0)) R' \<and> goes R i (unat c) R' boxed \<and> same_owners st st' \<and> \<not> boxed"
    if "st1 = st \<or> st1 = ?note st" for st1
  proof -
    have same: "h12_mem st1 = h12_mem st" "place_head st1 heads = place_head st heads" "same_owners st st1"
      using that place_head_cong [of st1 st heads] by (auto simp: same_owners_def)
    from return_chain_places [OF c cap, of st1 heads R i] ok obtain st' qs where
      r: "hz12_flush_owner_return_chain cfg c (heads i) st1 = Some st'" "set qs = set (R (Priv i))"
      "places_ok st' (heads(i := 0)) (R(Priv i := [], Sink (unat c) := qs @ R (Sink (unat c))))" "route_kept st1 st'"
      unfolding same(1,2) by blast
    have "same_owners st st'" using same_owners_trans [OF same(3) route_kept_same [OF r(4)]] .
    then show ?thesis using r
      by (intro exI [of _ st'] exI [of _ "R(Priv i := [], Sink (unat c) := qs @ R (Sink (unat c)))"] exI [of _ False])
        (auto simp: goes_def)
  qed
  show ?thesis
  proof (cases "\<not> fi_active ?inbox \<or> fi_generation ?inbox \<noteq> g \<or> fi_total_count ?inbox + n > 1024")
    case True
    then have "hz12_flush_owner_publish cfg (of_nat i) c g (heads i) tail n st = hz12_flush_owner_return_chain cfg c (heads i) st \<or>
      hz12_flush_owner_publish cfg (of_nat i) c g (heads i) tail n st = hz12_flush_owner_return_chain cfg c (heads i) (?note st)"
      using iw h0 n class_guard [OF c] by (auto simp: hz12_flush_owner_publish_def Let_def)
    then show ?thesis using ret [of st] ret [of "?note st"] by metis
  next
    case False
    let ?in = "?inbox\<lparr>fi_heads := (fi_heads ?inbox)(unat c := heads i),
            fi_tails := (if fi_tails ?inbox (unat c) = 0 then (fi_tails ?inbox)(unat c := tail) else fi_tails ?inbox),
            fi_counts := (fi_counts ?inbox)(unat c := fi_counts ?inbox (unat c) + n),
            fi_total_count := fi_total_count ?inbox + n, fi_pending := True\<rparr>"
    let ?st' = "set_inbox i ?in (st\<lparr>h12_mem := (h12_mem st)(tail := fi_heads ?inbox (unat c))\<rparr>)"
    have run: "hz12_flush_owner_publish cfg (of_nat i) c g (heads i) tail n st = Some ?st'"
      using False iw h0 n class_guard [OF c] by (simp add: hz12_flush_owner_publish_def Let_def)
    have "lists_ok ((h12_mem st)(tail := place_head st heads (Box i (unat c)))) (place_head ?st' (heads(i := 0)))
      (R(Priv i := [], Box i (unat c) := R (Priv i) @ R (Box i (unat c))))"
    proof (rule lists_ok_move [OF ok ch])
      show "place_head ?st' (heads(i := 0)) k = place_head st heads k" if "k \<noteq> Priv i" "k \<noteq> Box i (unat c)" for k
        using that by (cases k) auto
    qed simp_all
    then have "places_ok ?st' (heads(i := 0)) (R(Priv i := [], Box i (unat c) := R (Priv i) @ R (Box i (unat c))))" by simp
    moreover have "same_owners st ?st'" by (simp add: same_owners_def)
    ultimately show ?thesis using run False by (intro exI [of _ ?st'] exI [of _ "R(Priv i := [], Box i (unat c) := R (Priv i) @ R (Box i (unat c)))"] exI [of _ True])
        (simp add: goes_def)
  qed
qed


text \<open>Objects only move from private chains into the sink and the inboxes of one class.\<close>

definition spread :: "'a h12_route_state_scheme \<Rightarrow> nat \<Rightarrow> (place \<Rightarrow> addr list) \<Rightarrow> (place \<Rightarrow> addr list) \<Rightarrow> bool" where
  "spread st c R R' \<longleftrightarrow> (\<forall>d. d \<noteq> c \<longrightarrow> R' (Sink d) = R (Sink d) \<and> (\<forall>i. R' (Box i d) = R (Box i d))) \<and>
     set (R (Sink c)) \<subseteq> set (R' (Sink c)) \<and> (\<forall>i. set (R (Box i c)) \<subseteq> set (R' (Box i c))) \<and>
     (\<forall>i. \<forall>p \<in> set (R' (Box i c)) - set (R (Box i c)). box_for st i p) \<and>
     (\<Union>k. set (R' k)) = (\<Union>k. set (R k))"

lemma spread_refl [simp]: "spread st c R R"
  by (simp add: spread_def)

lemma spread_trans:
  assumes "spread st c R R'" "spread st c R' R''"
  shows "spread st c R R''"
proof -
  have a: "\<forall>d. d \<noteq> c \<longrightarrow> R'' (Sink d) = R (Sink d) \<and> (\<forall>i. R'' (Box i d) = R (Box i d))"
    "(\<Union>k. set (R'' k)) = (\<Union>k. set (R k))" using assms by (simp_all add: spread_def)
  have b: "set (R (Sink c)) \<subseteq> set (R'' (Sink c))" using assms unfolding spread_def by (meson subset_trans)
  have d: "set (R (Box i c)) \<subseteq> set (R'' (Box i c))" for i using assms unfolding spread_def by (meson subset_trans)
  have "box_for st i p" if "p \<in> set (R'' (Box i c)) - set (R (Box i c))" for i p
    using assms that unfolding spread_def by blast
  then show ?thesis using a b d unfolding spread_def by blast
qed

lemma goes_spread:
  assumes "goes R i c R' boxed" "boxed \<Longrightarrow> \<forall>p \<in> set (R (Priv i)). box_for st i p"
  shows "spread st c R R'" "R' (Priv i) = []" "j \<noteq> i \<Longrightarrow> R' (Priv j) = R (Priv j)"
proof -
  obtain k qs where k: "R' = R(Priv i := [], k := qs @ R k)" "set qs = set (R (Priv i))"
    "k = Sink c \<or> k = Box i c \<and> (\<forall>p \<in> set (R (Priv i)). box_for st i p)"
    using assms by (cases boxed) (auto simp: goes_def)
  show "R' (Priv i) = []" "j \<noteq> i \<Longrightarrow> R' (Priv j) = R (Priv j)" using k by auto
  have "set (R' l) \<subseteq> (\<Union>k. set (R k))" for l using k(1,2) by (auto split: if_splits)
  moreover have "set (R l) \<subseteq> (\<Union>k. set (R' k))" for l
  proof (cases "l = Priv i")
    case True
    then have "set (R l) \<subseteq> set (R' k)" using k by auto
    then show ?thesis by blast
  next
    case False
    then have "set (R l) \<subseteq> set (R' l)" using k(1) by auto
    then show ?thesis by blast
  qed
  ultimately have "(\<Union>k. set (R' k)) = (\<Union>k. set (R k))" by blast
  then show "spread st c R R'" using k unfolding spread_def by auto
qed

lemma publishes_places:
  assumes c: "c < HZ12_CLASS_COUNT cfg" and cap: "c12_cache_cap cfg \<noteq> 0"
  shows "places_ok st heads R \<Longrightarrow> distinct is \<Longrightarrow>
    (\<forall>i\<in>set is. i < 64 \<and> heads i = ra_heads ra i \<and> (ra_counts ra i = 0 \<longleftrightarrow> R (Priv i) = []) \<and>
       (R (Priv i) \<noteq> [] \<longrightarrow> last (R (Priv i)) = ra_tails ra i) \<and>
       (\<forall>p\<in>set (R (Priv i)). h12_shadow_owner_token_for_ptr p st = Some (of_nat i, ra_generations ra i))) \<Longrightarrow>
    \<exists>st' R' heads'. route_publishes cfg c ra is st = Some st' \<and> places_ok st' heads' R' \<and> same_owners st st' \<and>
      spread st (unat c) R R' \<and> (\<forall>i. R' (Priv i) = (if i \<in> set is then [] else R (Priv i)))"
proof (induction "is" arbitrary: st heads R)
  case Nil
  then show ?case by (auto simp: same_owners_def intro!: exI [of _ heads] exI [of _ R])
next
  case (Cons i "is")
  note I = bspec [OF Cons.prems(3) list.set_intros(1)]
  show ?case
  proof (cases "R (Priv i) = []")
    case True
    from Cons.IH [OF Cons.prems(1)] Cons.prems(2,3) obtain st' R' heads' where
      r: "route_publishes cfg c ra is st = Some st'" "places_ok st' heads' R'" "same_owners st st'" "spread st (unat c) R R'"
      "\<forall>j. R' (Priv j) = (if j \<in> set is then [] else R (Priv j))" by auto
    have "\<forall>j. R' (Priv j) = (if j \<in> set (i # is) then [] else R (Priv j))" using r(5) True by auto
    moreover have "route_publishes cfg c ra (i # is) st = Some st'" using r(1) True I by simp
    ultimately show ?thesis using r(2,3,4) by blast
  next
    case False
    then have n: "ra_counts ra i \<noteq> 0" and i: "i < 64" and h: "heads i = ra_heads ra i" using I by simp_all
    have ch: "R (Priv i) = butlast (R (Priv i)) @ [ra_tails ra i]" using I False by (metis append_butlast_last_id)
    obtain st1 R1 boxed where P: "hz12_flush_owner_publish cfg (of_nat i) c (ra_generations ra i) (heads i) (ra_tails ra i) (ra_counts ra i) st = Some st1"
      "places_ok st1 (heads(i := 0)) R1" "goes R i (unat c) R1 boxed" "same_owners st st1"
      "boxed \<longrightarrow> fi_active (hz12_flush_owner_inboxes st i) \<and> fi_generation (hz12_flush_owner_inboxes st i) = ra_generations ra i"
      using publish_places [OF Cons.prems(1) c cap ch i n, of "ra_generations ra i"] by blast
    have "boxed \<Longrightarrow> \<forall>p \<in> set (R (Priv i)). box_for st i p" using I P(5) by (simp add: box_for_def)
    note G = goes_spread [OF P(3) this]
    have tok: "h12_shadow_owner_token_for_ptr p st1 = h12_shadow_owner_token_for_ptr p st" for p
      by (rule same_owners_token [OF P(4)])
    have "\<forall>j\<in>set is. j < 64 \<and> (heads(i := 0)) j = ra_heads ra j \<and> (ra_counts ra j = 0 \<longleftrightarrow> R1 (Priv j) = []) \<and>
       (R1 (Priv j) \<noteq> [] \<longrightarrow> last (R1 (Priv j)) = ra_tails ra j) \<and>
       (\<forall>p\<in>set (R1 (Priv j)). h12_shadow_owner_token_for_ptr p st1 = Some (of_nat j, ra_generations ra j))"
    proof
      fix j assume j: "j \<in> set is"
      then have "j \<noteq> i" using Cons.prems(2) by auto
      then show "j < 64 \<and> (heads(i := 0)) j = ra_heads ra j \<and> (ra_counts ra j = 0 \<longleftrightarrow> R1 (Priv j) = []) \<and>
       (R1 (Priv j) \<noteq> [] \<longrightarrow> last (R1 (Priv j)) = ra_tails ra j) \<and>
       (\<forall>p\<in>set (R1 (Priv j)). h12_shadow_owner_token_for_ptr p st1 = Some (of_nat j, ra_generations ra j))"
        using Cons.prems(3) j G(3) tok by simp
    qed
    from Cons.IH [OF P(2) _ this] Cons.prems(2) obtain st' R' heads' where
      r: "route_publishes cfg c ra is st1 = Some st'" "places_ok st' heads' R'" "same_owners st1 st'" "spread st1 (unat c) R1 R'"
      "\<forall>j. R' (Priv j) = (if j \<in> set is then [] else R1 (Priv j))" by auto
    have "\<forall>j. R' (Priv j) = (if j \<in> set (i # is) then [] else R (Priv j))" using r(5) G(2,3) by auto
    moreover have "route_publishes cfg c ra (i # is) st = Some st'" using r(1) n h P(1) by simp
    moreover have "spread st (unat c) R1 R'" using r(4) same_owners_box [OF P(4)] by (simp add: spread_def)
    ultimately show ?thesis using r(2) same_owners_trans [OF P(4) r(3)] spread_trans [OF G(1)] by blast
  qed
qed


section \<open>Routing a batch\<close>

definition arrays_ok :: "'a h12_route_state_scheme \<Rightarrow> route_arrays \<Rightarrow> (place \<Rightarrow> addr list) \<Rightarrow> bool" where
  "arrays_ok st ra R \<longleftrightarrow> places_ok st (ra_heads ra) R \<and> distinct (ra_local ra) \<and> 0 \<notin> set (ra_local ra) \<and>
     (\<forall>k. set (ra_local ra) \<inter> set (R k) = {}) \<and>
     (\<forall>i. ra_counts ra i = of_nat (length (R (Priv i))) \<and> (ra_tails ra i = 0 \<longleftrightarrow> R (Priv i) = []) \<and>
        (R (Priv i) \<noteq> [] \<longrightarrow> last (R (Priv i)) = ra_tails ra i \<and> i < 64) \<and>
        (\<forall>p \<in> set (R (Priv i)). h12_shadow_owner_token_for_ptr p st = Some (of_nat i, ra_generations ra i)))"

lemma token_for_ptr_facts:
  assumes "h12_shadow_owner_token_for_ptr p st = Some (owner_id, g)" "unat (h12_owner_count st) \<le> 64"
  shows "g \<noteq> 0" "unat owner_id < 64"
proof -
  obtain e where e: "e \<noteq> 0" "e \<le> h12_owner_count st" "owner_id = e - 1" "g \<noteq> 0"
    using assms(1) by (auto simp: h12_shadow_owner_token_for_ptr_def Let_def not_less split: option.splits if_splits)
  have "unat (e - 1) < unat e" using e(1) by (simp add: unat_gt_0 unat_sub word_le_nat_alt Suc_le_eq)
  then show "g \<noteq> 0" "unat owner_id < 64" using e assms(2) by (simp_all add: word_le_nat_alt)
qed

lemma arrays_ok_take:
  assumes ok: "arrays_ok st ra R" and p: "p \<noteq> 0" "p \<notin> set (ra_local ra)" "\<And>k. p \<notin> set (R k)"
    and target: "route_target t (ra_generations ra) p st = Some (owner_id, g)" and i: "i = unat owner_id"
    and n: "unat (h12_owner_count st) \<le> 64"
  shows "arrays_ok (st\<lparr>h12_mem := (h12_mem st)(p := ra_heads ra i)\<rparr>)
    (ra\<lparr>ra_generations := (ra_generations ra)(i := g), ra_tails := (if ra_tails ra i = 0 then (ra_tails ra)(i := p) else ra_tails ra),
        ra_heads := (ra_heads ra)(i := p), ra_counts := (ra_counts ra)(i := ra_counts ra i + 1)\<rparr>)
    (R(Priv i := p # R (Priv i)))"
    (is "arrays_ok ?st ?ra ?R")
proof -
  have tok: "h12_shadow_owner_token_for_ptr p st = Some (owner_id, g)" "ra_generations ra i = 0 \<or> ra_generations ra i = g"
    using target i by (auto simp: route_target_def Let_def split: option.splits if_splits)
  have i64: "i < 64" and g: "g \<noteq> 0" using token_for_ptr_facts [OF tok(1) n] i by simp_all
  have tok': "h12_shadow_owner_token_for_ptr q ?st = h12_shadow_owner_token_for_ptr q st" for q
    by (rule same_owners_token) (simp add: same_owners_def)
  have old: "R (Priv i) = [] \<or> ra_generations ra i = g"
  proof (rule disjCI)
    assume "ra_generations ra i \<noteq> g"
    then have "ra_generations ra i = 0" using tok(2) by simp
    moreover have "ra_generations ra i \<noteq> 0" if "q \<in> set (R (Priv i))" for q
      using ok that token_for_ptr_facts(1) [OF _ n] unfolding arrays_ok_def by blast
    ultimately show "R (Priv i) = []" by (cases "R (Priv i)") auto
  qed
  have "places_ok ?st ((ra_heads ra)(i := p)) ?R"
  proof -
    have "lists_ok ((h12_mem st)(p := place_head st (ra_heads ra) (Priv i))) (place_head ?st ((ra_heads ra)(i := p))) ?R"
    proof (rule lists_ok_cons)
      show "place_head ?st ((ra_heads ra)(i := p)) k = place_head st (ra_heads ra) k" if "k \<noteq> Priv i" for k
        using that by (cases k) auto
    qed (use ok p in \<open>simp_all add: arrays_ok_def\<close>)
    then show ?thesis by simp
  qed
  moreover have "set (ra_local ra) \<inter> set (?R k) = {}" for k using ok p(2) by (auto simp: arrays_ok_def)
  moreover have "ra_counts ?ra j = of_nat (length (?R (Priv j))) \<and> (ra_tails ?ra j = 0 \<longleftrightarrow> ?R (Priv j) = []) \<and>
        (?R (Priv j) \<noteq> [] \<longrightarrow> last (?R (Priv j)) = ra_tails ?ra j \<and> j < 64) \<and>
        (\<forall>q \<in> set (?R (Priv j)). h12_shadow_owner_token_for_ptr q ?st = Some (of_nat j, ra_generations ?ra j))" for j
  proof (cases "j = i")
    case True
    have o: "ra_counts ra i = of_nat (length (R (Priv i)))" "ra_tails ra i = 0 \<longleftrightarrow> R (Priv i) = []"
      "R (Priv i) \<noteq> [] \<longrightarrow> last (R (Priv i)) = ra_tails ra i"
      "\<forall>q \<in> set (R (Priv i)). h12_shadow_owner_token_for_ptr q st = Some (of_nat i, ra_generations ra i)"
      using ok unfolding arrays_ok_def by blast+
    have "of_nat i = owner_id" using i by simp
    then show ?thesis using True o old tok(1) i64 p(1) by (auto simp: tok')
  next
    case False
    then have e: "?R (Priv j) = R (Priv j)" "ra_counts ?ra j = ra_counts ra j" "ra_tails ?ra j = ra_tails ra j"
      "ra_generations ?ra j = ra_generations ra j" by simp_all
    show ?thesis unfolding e tok' using ok unfolding arrays_ok_def by blast
  qed
  ultimately show ?thesis using ok unfolding arrays_ok_def by simp
qed

definition items_done :: "'a h12_route_state_scheme \<Rightarrow> route_arrays \<Rightarrow> (place \<Rightarrow> addr list) \<Rightarrow> addr list \<Rightarrow>
    'a h12_route_state_scheme \<Rightarrow> route_arrays \<Rightarrow> (place \<Rightarrow> addr list) \<Rightarrow> bool" where
  "items_done st ra R items st' ra' R' \<longleftrightarrow> arrays_ok st' ra' R' \<and> same_owners st st' \<and>
     (\<forall>c. R' (Sink c) = R (Sink c)) \<and> (\<forall>i c. R' (Box i c) = R (Box i c)) \<and>
     (\<forall>i. length (R' (Priv i)) \<le> length (R (Priv i)) + length items) \<and>
     set (ra_local ra') \<union> (\<Union>k. set (R' k)) = set (ra_local ra) \<union> (\<Union>k. set (R k)) \<union> set (filter (\<lambda>p. p \<noteq> 0) items)"

lemma route_items_ok:
  "arrays_ok st ra R \<Longrightarrow> distinct (filter (\<lambda>p. p \<noteq> 0) items) \<Longrightarrow>
   set (filter (\<lambda>p. p \<noteq> 0) items) \<inter> set (ra_local ra) = {} \<Longrightarrow>
   (\<forall>k. set (filter (\<lambda>p. p \<noteq> 0) items) \<inter> set (R k) = {}) \<Longrightarrow> unat (h12_owner_count st) \<le> 64 \<Longrightarrow>
   route_items t items ra st = (ra', st') \<Longrightarrow>
   \<exists>R'. items_done st ra R items st' ra' R'"
proof (induction items arbitrary: st ra R)
  case Nil
  then show ?case by (intro exI [of _ R]) (simp add: items_done_def same_owners_def)
next
  case (Cons p items)
  let ?f = "filter (\<lambda>p. p \<noteq> 0) items"
  show ?case
  proof (cases "p = 0")
    case True
    then have f: "filter (\<lambda>p. p \<noteq> 0) (p # items) = ?f" by simp
    have "route_items t items ra st = (ra', st')" using Cons.prems(6) True by simp
    from Cons.IH [OF Cons.prems(1) Cons.prems(2,3,4) [unfolded f] Cons.prems(5) this] obtain R' where
      "items_done st ra R items st' ra' R'" ..
    then have "items_done st ra R (p # items) st' ra' R'" unfolding items_done_def f by (simp add: le_SucI)
    then show ?thesis by blast
  next
    case False
    have p: "p \<notin> set (ra_local ra)" "\<And>k. p \<notin> set (R k)" "p \<notin> set ?f" "distinct ?f"
      using Cons.prems(2,3,4) False by auto
    show ?thesis
    proof (cases "route_target t (ra_generations ra) p st")
      case None
      let ?ra = "ra\<lparr>ra_local := ra_local ra @ [p]\<rparr>"
      have "arrays_ok st ?ra R" using Cons.prems(1) p False unfolding arrays_ok_def by auto
      moreover have "route_items t items ?ra st = (ra', st')" using Cons.prems(6) False None by simp
      moreover have "set ?f \<inter> set (ra_local ?ra) = {}" "\<forall>k. set ?f \<inter> set (R k) = {}" using Cons.prems(3,4) p(3) False by auto
      ultimately obtain R' where R': "items_done st ?ra R items st' ra' R'"
        using Cons.IH [of st ?ra R] p(4) Cons.prems(5) by blast
      have "set (ra_local ra') \<union> (\<Union>k. set (R' k))
          = set (ra_local ra) \<union> (\<Union>k. set (R k)) \<union> set (filter (\<lambda>p. p \<noteq> 0) (p # items))"
        using R' False unfolding items_done_def by simp
      then have "items_done st ra R (p # items) st' ra' R'" using R' unfolding items_done_def by (simp add: le_SucI)
      then show ?thesis by blast
    next
      case (Some og)
      obtain owner_id g where og: "og = (owner_id, g)" by force
      define i where "i = unat owner_id"
      let ?st = "st\<lparr>h12_mem := (h12_mem st)(p := ra_heads ra i)\<rparr>"
      let ?ra = "ra\<lparr>ra_generations := (ra_generations ra)(i := g), ra_tails := (if ra_tails ra i = 0 then (ra_tails ra)(i := p) else ra_tails ra),
        ra_heads := (ra_heads ra)(i := p), ra_counts := (ra_counts ra)(i := ra_counts ra i + 1)\<rparr>"
      define R1 where "R1 = R(Priv i := p # R (Priv i))"
      have A: "arrays_ok ?st ?ra R1" unfolding R1_def
        by (rule arrays_ok_take [OF Cons.prems(1) False p(1,2) _ i_def Cons.prems(5)]) (use Some og in simp)
      have run: "route_items t items ?ra ?st = (ra', st')" using Cons.prems(6) False Some og
        unfolding i_def by (simp add: Let_def split del: if_split)
      have "set ?f \<inter> set (ra_local ?ra) = {}" "\<forall>k. set ?f \<inter> set (R1 k) = {}"
        using Cons.prems(3,4) p(3) False by (auto simp: R1_def)
      from Cons.IH [OF A p(4) this _ run] Cons.prems(5) obtain R' where R'': "items_done ?st ?ra R1 items st' ra' R'" by auto
      note R' = R'' [unfolded items_done_def, THEN conjunct1] R'' [unfolded items_done_def, THEN conjunct2, THEN conjunct1]
        R'' [unfolded items_done_def, THEN conjunct2, THEN conjunct2, simplified route_arrays.simps]
      have U: "(\<Union>k. set (R1 k)) = insert p (\<Union>k. set (R k))"
      proof -
        have "set (R1 k) \<subseteq> insert p (\<Union>k. set (R k))" for k by (auto simp: R1_def split: if_splits)
        moreover have "p \<in> set (R1 (Priv i))" "set (R k) \<subseteq> set (R1 k)" for k by (auto simp: R1_def)
        ultimately show ?thesis by blast
      qed
      have "same_owners st st'" using R'(2) by (simp add: same_owners_def)
      moreover have "length (R' (Priv j)) \<le> length (R (Priv j)) + length (p # items)" for j
      proof -
        have "length (R' (Priv j)) \<le> length (R1 (Priv j)) + length items" using R'(3) by blast
        then show ?thesis by (simp add: R1_def split: if_splits)
      qed
      moreover have "\<forall>c. R' (Sink c) = R (Sink c)" "\<forall>i c. R' (Box i c) = R (Box i c)" using R'(3) by (simp_all add: R1_def)
      moreover have "set (ra_local ra') \<union> (\<Union>k. set (R' k))
          = set (ra_local ra) \<union> (\<Union>k. set (R k)) \<union> set (filter (\<lambda>p. p \<noteq> 0) (p # items))"
        using R'(3) U False by simp
      ultimately have "items_done st ra R (p # items) st' ra' R'" using R'(1) unfolding items_done_def by blast
      then show ?thesis by blast
    qed
  qed
qed


text \<open>The state between calls: the sinks and the inboxes hold the objects of \<open>R\<close>, and nothing is private.\<close>

definition route_inv :: "'a h12_route_state_scheme \<Rightarrow> (place \<Rightarrow> addr list) \<Rightarrow> bool" where
  "route_inv st R \<longleftrightarrow> places_ok st (\<lambda>_. 0) R \<and> unat (h12_owner_count st) \<le> 64"

lemma route_inv_priv: "route_inv st R \<Longrightarrow> R (Priv i) = []"
  using lists_okD(1) [of "h12_mem st" "place_head st (\<lambda>_. 0)" R "Priv i"] by (simp add: route_inv_def)

lemma batch_scan_nonnull: "batch_scan read w ids words st items \<Longrightarrow> 0 \<notin> set items"
proof (induction items arbitrary: ids words)
  case (Cons p items)
  have "h12_span_id 0 st = None" by (simp add: h12_span_id_def)
  then obtain i where "h12_span_id p st = Some i" "p \<noteq> 0" using Cons.prems by (cases "h12_span_id p st"; cases "p = 0") simp_all
  then have "\<exists>ids' words'. batch_scan read w ids' words' st items"
    using Cons.prems by (auto simp: Let_def split: if_split_asm)
  then show ?case using Cons.IH \<open>p \<noteq> 0\<close> by auto
qed simp

text \<open>What a call does to the places: \<open>ps\<close> come in, at class \<open>c\<close>.\<close>

definition came_in :: "'a h12_route_state_scheme \<Rightarrow> nat \<Rightarrow> addr set \<Rightarrow> (place \<Rightarrow> addr list) \<Rightarrow> (place \<Rightarrow> addr list) \<Rightarrow> bool" where
  "came_in st c ps R R' \<longleftrightarrow> (\<Union>k. set (R' k)) = (\<Union>k. set (R k)) \<union> ps \<and>
     (\<forall>d. d \<noteq> c \<longrightarrow> R' (Sink d) = R (Sink d) \<and> (\<forall>i. R' (Box i d) = R (Box i d))) \<and>
     set (R (Sink c)) \<subseteq> set (R' (Sink c)) \<and> (\<forall>i. set (R (Box i c)) \<subseteq> set (R' (Box i c))) \<and>
     (\<forall>i. \<forall>p \<in> set (R' (Box i c)) - set (R (Box i c)). box_for st i p)"

lemma sink_union: "(\<Union>k. set ((R(Sink c := xs @ R (Sink c))) k)) = set xs \<union> (\<Union>k. set (R k))"
proof (rule equalityI)
  show "(\<Union>k. set ((R(Sink c := xs @ R (Sink c))) k)) \<subseteq> set xs \<union> (\<Union>k. set (R k))"
  proof (rule UN_least)
    show "set ((R(Sink c := xs @ R (Sink c))) k) \<subseteq> set xs \<union> (\<Union>k. set (R k))" for k by (cases "k = Sink c") auto
  qed
  have "set xs \<subseteq> set ((R(Sink c := xs @ R (Sink c))) (Sink c))" by simp
  moreover have "set (R k) \<subseteq> set ((R(Sink c := xs @ R (Sink c))) k)" for k by (cases "k = Sink c") auto
  ultimately show "set xs \<union> (\<Union>k. set (R k)) \<subseteq> (\<Union>k. set ((R(Sink c := xs @ R (Sink c))) k))"
    by (meson Un_least UN_I UN_mono UNIV_I subset_iff)
qed

lemma route_slow_path:
  assumes inv: "route_inv st R" and c: "c < HZ12_CLASS_COUNT cfg" and cap: "c12_cache_cap cfg \<noteq> 0"
    and items: "distinct (filter (\<lambda>p. p \<noteq> 0) items)" "\<forall>k. set items \<inter> set (R k) = {}" "length items < 2 ^ 32"
    and run: "route_items t items \<lparr>ra_heads = (\<lambda>_. 0), ra_tails = (\<lambda>_. 0), ra_counts = (\<lambda>_. 0),
                 ra_generations = (\<lambda>_. 0), ra_local = []\<rparr> st = (ra, st1)"
    and st2: "st2 = (if ra_local ra = [] then st1 else hz12_returned_push_range cfg c (ra_local ra) st1)"
  shows "\<exists>st' R'. route_publishes cfg c ra [0..<64] st2 = Some st' \<and> route_inv st' R' \<and>
    came_in st (unat c) (set items - {0}) R R'"
proof -
  let ?ra0 = "\<lparr>ra_heads = (\<lambda>_. 0), ra_tails = (\<lambda>_. 0), ra_counts = (\<lambda>_. 0), ra_generations = (\<lambda>_. 0), ra_local = []\<rparr>"
  have n: "unat (h12_owner_count st) \<le> 64" using inv by (simp add: route_inv_def)
  have a0: "arrays_ok st ?ra0 R" using inv route_inv_priv [OF inv] by (simp add: arrays_ok_def route_inv_def)
  have "\<forall>k. set (filter (\<lambda>p. p \<noteq> 0) items) \<inter> set (R k) = {}" using items(2) by auto
  with route_items_ok [OF a0 items(1) _ _ n run] obtain R1 where "items_done st ?ra0 R items st1 ra R1" by auto
  then have D: "arrays_ok st1 ra R1" "same_owners st st1" "\<And>d. R1 (Sink d) = R (Sink d)" "\<And>i d. R1 (Box i d) = R (Box i d)"
    "\<And>i. length (R1 (Priv i)) \<le> length items"
    "set (ra_local ra) \<union> (\<Union>k. set (R1 k)) = (\<Union>k. set (R k)) \<union> (set items - {0})"
    using route_inv_priv [OF inv] by (simp_all add: items_done_def set_diff_eq)
  note A = D(1) [unfolded arrays_ok_def]
  define R2 where "R2 = R1(Sink (unat c) := rev (ra_local ra) @ R1 (Sink (unat c)))"
  have two: "places_ok st2 (ra_heads ra) R2" "same_owners st1 st2"
  proof -
    have L: "distinct (ra_local ra)" "0 \<notin> set (ra_local ra)" "\<And>k. set (ra_local ra) \<inter> set (R1 k) = {}" using A by blast+
    have pl: "places_ok st1 (ra_heads ra) R1" using A by blast
    have e: "ra_local ra = [] \<Longrightarrow> hz12_returned_push_range cfg c (ra_local ra) st1 = st1" by (simp add: hz12_returned_push_range_def)
    have s2: "st2 = hz12_returned_push_range cfg c (ra_local ra) st1" using e by (simp add: st2)
    show "places_ok st2 (ra_heads ra) R2" unfolding R2_def by (rule push_places(1) [OF pl c L s2])
    show "same_owners st1 st2" using push_places(2) [OF pl c L s2] by (rule route_kept_same)
  qed
  have S2: "same_owners st st2" by (rule same_owners_trans [OF D(2) two(2)])
  have priv: "R2 (Priv i) = R1 (Priv i)" for i by (simp add: R2_def)
  have "\<forall>i\<in>set [0..<64]. i < 64 \<and> ra_heads ra i = ra_heads ra i \<and> (ra_counts ra i = 0 \<longleftrightarrow> R2 (Priv i) = []) \<and>
       (R2 (Priv i) \<noteq> [] \<longrightarrow> last (R2 (Priv i)) = ra_tails ra i) \<and>
       (\<forall>p\<in>set (R2 (Priv i)). h12_shadow_owner_token_for_ptr p st2 = Some (of_nat i, ra_generations ra i))"
  proof
    fix i :: nat assume i: "i \<in> set [0..<64]"
    have "ra_counts ra i = of_nat (length (R1 (Priv i)))" using A by blast
    moreover have "length (R1 (Priv i)) < 2 ^ 32" using D(5) [of i] items(3) by linarith
    ultimately have "unat (ra_counts ra i) = length (R1 (Priv i))" by (simp add: unat_of_nat)
    then have "ra_counts ra i = 0 \<longleftrightarrow> R1 (Priv i) = []" by (metis length_0_conv unat_0 unat_eq_zero)
    moreover have "\<forall>p\<in>set (R1 (Priv i)). h12_shadow_owner_token_for_ptr p st2 = Some (of_nat i, ra_generations ra i)"
      using A same_owners_token [OF two(2)] by simp
    ultimately show "i < 64 \<and> ra_heads ra i = ra_heads ra i \<and> (ra_counts ra i = 0 \<longleftrightarrow> R2 (Priv i) = []) \<and>
       (R2 (Priv i) \<noteq> [] \<longrightarrow> last (R2 (Priv i)) = ra_tails ra i) \<and>
       (\<forall>p\<in>set (R2 (Priv i)). h12_shadow_owner_token_for_ptr p st2 = Some (of_nat i, ra_generations ra i))"
      using A i unfolding priv by auto
  qed
  from publishes_places [OF c cap two(1) distinct_upt this] obtain st' R3 heads' where
    P: "route_publishes cfg c ra [0..<64] st2 = Some st'" "places_ok st' heads' R3" "same_owners st2 st'"
    "spread st2 (unat c) R2 R3" "\<And>i. R3 (Priv i) = (if i \<in> set [0..<64] then [] else R2 (Priv i))" by auto
  have p3: "R3 (Priv i) = []" for i using P(5) [of i] priv [of i] A by auto
  have "heads' i = 0" for i using lists_okD(1) [OF P(2), of "Priv i"] p3 chain_Nil_iff by fastforce
  then have h: "heads' = (\<lambda>_. 0)" by auto
  have "unat (h12_owner_count st') \<le> 64" using n S2 P(3) by (simp add: same_owners_def)
  then have "route_inv st' R3" using P(2) unfolding h route_inv_def by simp
  moreover have "came_in st (unat c) (set items - {0}) R R3"
  proof -
    have "(\<Union>k. set (R3 k)) = (\<Union>k. set (R k)) \<union> (set items - {0})"
      using P(4) D(6) sink_union [of R1 "unat c" "rev (ra_local ra)"] unfolding spread_def R2_def by simp
    moreover have "box_for st2 i p = box_for st i p" for i p by (rule same_owners_box [OF S2])
    ultimately show ?thesis using P(4) D(3,4) unfolding came_in_def spread_def R2_def by auto
  qed
  ultimately show ?thesis using P(1) by blast
qed

text \<open>C36: routing a batch: every object of it ends in exactly one place, the sink of the class or one inbox, no
  object that was in a sink or an inbox before leaves it, other classes are untouched, and an inbox gets only
  objects of spans that belong to its live owner, in its current generation.\<close>

theorem route_batch_conserves:
  assumes inv: "route_inv st R" and c: "c < HZ12_CLASS_COUNT cfg" and cap: "c12_cache_cap cfg \<noteq> 0"
    and items: "distinct (filter (\<lambda>p. p \<noteq> 0) items)" "\<forall>k. set items \<inter> set (R k) = {}" "length items < 2 ^ 32"
  shows "\<exists>st' R'. hz12_flush_owner_route_batch cfg t c items st = Some st' \<and> route_inv st' R' \<and>
    (\<Union>k. set (R' k)) = (\<Union>k. set (R k)) \<union> (set items - {0}) \<and>
    (\<forall>d. d \<noteq> unat c \<longrightarrow> R' (Sink d) = R (Sink d) \<and> (\<forall>i. R' (Box i d) = R (Box i d))) \<and>
    set (R (Sink (unat c))) \<subseteq> set (R' (Sink (unat c))) \<and> (\<forall>i. set (R (Box i (unat c))) \<subseteq> set (R' (Box i (unat c)))) \<and>
    (\<forall>i. \<forall>p \<in> set (R' (Box i (unat c))) - set (R (Box i (unat c))). box_for st i p)"
proof -
  have "\<exists>st' R'. hz12_flush_owner_route_batch cfg t c items st = Some st' \<and> route_inv st' R' \<and> came_in st (unat c) (set items - {0}) R R'"
  proof (cases "items = [] \<or> fo_valid (h12_flush_owner st t) \<and> h12_shadow_batch_all_owner items (fo_id (h12_flush_owner st t)) st")
    case True
    have nn: "0 \<notin> set items" using True by (auto simp: h12_shadow_batch_all_owner_def dest!: batch_scan_nonnull split: if_splits)
    then have f: "filter (\<lambda>p. p \<noteq> 0) items = items" by (auto simp: filter_id_conv)
    let ?st' = "hz12_returned_push_range cfg c items st" and ?R' = "R(Sink (unat c) := rev items @ R (Sink (unat c)))"
    have run: "hz12_flush_owner_route_batch cfg t c items st = Some ?st'"
      using True class_guard [OF c] by (auto simp: hz12_flush_owner_route_batch_def hz12_returned_push_range_def Let_def)
    have ok: "places_ok st (\<lambda>_. 0) R" "unat (h12_owner_count st) \<le> 64" using inv by (simp_all add: route_inv_def)
    have d: "distinct items" using items(1) unfolding f .
    note P = push_places [OF ok(1) c d nn items(2) [rule_format] refl]
    have "route_inv ?st' ?R'" using P ok(2) by (simp add: route_inv_def route_kept_def)
    moreover have "came_in st (unat c) (set items - {0}) R ?R'"
      using sink_union [of R "unat c" "rev items"] nn by (auto simp: came_in_def)
    ultimately show ?thesis using run by blast
  next
    case False
    obtain ra st1 where run: "route_items t items \<lparr>ra_heads = (\<lambda>_. 0), ra_tails = (\<lambda>_. 0), ra_counts = (\<lambda>_. 0),
                 ra_generations = (\<lambda>_. 0), ra_local = []\<rparr> st = (ra, st1)" by force
    have "hz12_flush_owner_route_batch cfg t c items st = route_publishes cfg c ra [0..<64]
       (if ra_local ra = [] then st1 else hz12_returned_push_range cfg c (ra_local ra) st1)"
      using False class_guard [OF c] run by (auto simp: hz12_flush_owner_route_batch_def Let_def)
    with route_slow_path [OF inv c cap items run refl] show ?thesis by simp
  qed
  then show ?thesis unfolding came_in_def by blast
qed


section \<open>Detaching an owner\<close>

lemma return_chains_places:
  assumes cap: "c12_cache_cap cfg \<noteq> 0"
  shows "places_ok st heads R \<Longrightarrow> distinct cs \<Longrightarrow> \<forall>c\<in>set cs. c < class_total cfg \<and> heads c = hs c \<Longrightarrow>
    \<exists>st' heads' R'. return_chains cfg hs cs st = Some st' \<and> places_ok st' heads' R' \<and> route_kept st st' \<and>
      (\<forall>c. R' (Priv c) = (if c \<in> set cs then [] else R (Priv c))) \<and> (\<forall>i c. R' (Box i c) = R (Box i c)) \<and>
      (\<forall>c. set (R' (Sink c)) = (if c \<in> set cs then set (R (Priv c)) else {}) \<union> set (R (Sink c)))"
proof (induction cs arbitrary: st heads R)
  case Nil
  then show ?case by (auto intro!: exI [of _ heads] exI [of _ R])
next
  case (Cons c cs)
  have c: "c < class_total cfg" "heads c = hs c" "c \<notin> set cs" using Cons.prems by auto
  have cn: "(of_nat c :: u8) < HZ12_CLASS_COUNT cfg" "unat (of_nat c :: u8) = c" using class_nat [OF c(1)] by simp_all
  obtain st1 qs where one: "hz12_flush_owner_return_chain cfg (of_nat c) (hs c) st = Some st1" "set qs = set (R (Priv c))"
    "places_ok st1 (heads(c := 0)) (R(Priv c := [], Sink c := qs @ R (Sink c)))" "route_kept st st1"
    using return_chain_places [OF cn(1) cap Cons.prems(1), of c] c(2) unfolding cn(2) by auto
  define R1 where "R1 = R(Priv c := [], Sink c := qs @ R (Sink c))"
  have "\<forall>d\<in>set cs. d < class_total cfg \<and> (heads(c := 0)) d = hs d" using Cons.prems(3) c(3) by auto
  from Cons.IH [OF one(3) [folded R1_def] _ this] Cons.prems(2) obtain st' heads' R' where
    r: "return_chains cfg hs cs st1 = Some st'" "places_ok st' heads' R'" "route_kept st1 st'"
    "\<And>d. R' (Priv d) = (if d \<in> set cs then [] else R1 (Priv d))" "\<And>i d. R' (Box i d) = R1 (Box i d)"
    "\<And>d. set (R' (Sink d)) = (if d \<in> set cs then set (R1 (Priv d)) else {}) \<union> set (R1 (Sink d))" by auto
  have "return_chains cfg hs (c # cs) st = Some st'" using one(1) r(1) by simp
  moreover have "R' (Priv d) = (if d \<in> set (c # cs) then [] else R (Priv d))" for d using r(4) [of d] by (simp add: R1_def)
  moreover have "R' (Box i d) = R (Box i d)" for i d using r(5) by (simp add: R1_def)
  moreover have "set (R' (Sink d)) = (if d \<in> set (c # cs) then set (R (Priv d)) else {}) \<union> set (R (Sink d))" for d
    using r(6) [of d] one(2) c(3) by (auto simp: R1_def)
  ultimately show ?case using r(2) route_kept_trans [OF one(4) r(3)] by blast
qed

text \<open>C37: when an owner detaches, in the cold-span build, every object that waits in its inbox goes to the sink
  of its class and none is left behind; other inboxes are untouched, and the owner is no longer active, so what is
  published to it later goes to the sinks too.\<close>

theorem route_detach_returns:
  assumes inv: "route_inv st R" and cap: "c12_cache_cap cfg \<noteq> 0" and cold: "rc_cold_span rc"
    and fo: "fo = h12_flush_owner st t" "fo_valid fo" "fo_id fo < 64" "i = unat (fo_id fo)"
    and live: "fi_active (hz12_flush_owner_inboxes st i)" "fi_generation (hz12_flush_owner_inboxes st i) = fo_generation fo"
    and empty: "\<forall>c \<ge> class_total cfg. R (Box i c) = []"
  shows "\<exists>st' R'. hz12_flush_owner_route_detach cfg rc t st = Some st' \<and> route_inv st' R' \<and>
    (\<forall>c. set (R' (Sink c)) = set (R (Box i c)) \<union> set (R (Sink c))) \<and>
    (\<forall>j c. R' (Box j c) = (if j = i then [] else R (Box j c))) \<and>
    \<not> fi_active (hz12_flush_owner_inboxes st' i) \<and> \<not> fo_valid (h12_flush_owner st' t)"
proof -
  let ?inbox = "hz12_flush_owner_inboxes st i"
  let ?in = "?inbox\<lparr>fi_heads := (\<lambda>_. 0), fi_tails := (\<lambda>_. 0), fi_counts := (\<lambda>_. 0),
                    fi_total_count := 0, fi_pending := False, fi_active := False\<rparr>"
  let ?st1 = "set_inbox i ?in st"
  define f where "f k = (case k of Priv c \<Rightarrow> Box i c | Box j c \<Rightarrow> (if j = i then Priv c else k) | Sink c \<Rightarrow> k)" for k
  have "inj f" by (rule injI) (auto simp: f_def split: place.splits if_splits)
  then have ne: "f k \<noteq> f l" if "k \<noteq> l" for k l using that by (simp add: inj_eq)
  have ok: "places_ok st (\<lambda>_. 0) R" "unat (h12_owner_count st) \<le> 64" using inv by (simp_all add: route_inv_def)
  have hd: "place_head ?st1 (fi_heads ?inbox) k = place_head st (\<lambda>_. 0) (f k)" for k by (cases k) (auto simp: f_def)
  define R1 where "R1 k = R (f k)" for k
  have one: "places_ok ?st1 (fi_heads ?inbox) R1" unfolding lists_ok_def R1_def hd
    using lists_okD(1) [OF ok(1)] lists_okD(2) [OF ok(1) ne] by simp
  have "\<forall>c\<in>set [0..<class_total cfg]. c < class_total cfg \<and> fi_heads ?inbox c = fi_heads ?inbox c" by simp
  from return_chains_places [OF cap one distinct_upt this] obtain st2 heads' R' where
    r: "return_chains cfg (fi_heads ?inbox) [0..<class_total cfg] ?st1 = Some st2" "places_ok st2 heads' R'" "route_kept ?st1 st2"
    "\<And>c. R' (Priv c) = (if c \<in> set [0..<class_total cfg] then [] else R1 (Priv c))" "\<And>j c. R' (Box j c) = R1 (Box j c)"
    "\<And>c. set (R' (Sink c)) = (if c \<in> set [0..<class_total cfg] then set (R1 (Priv c)) else {}) \<union> set (R1 (Sink c))" by blast
  let ?st3 = "count_route (\<lambda>k. k\<lparr>fs_detach_success := fs_detach_success k + 1\<rparr>) (set_flush_owner t (fo\<lparr>fo_valid := False\<rparr>) st2)"
  have run: "hz12_flush_owner_route_detach cfg rc t st = Some ?st3"
    using cold fo(2,3) live r(1) by (simp add: hz12_flush_owner_route_detach_def Let_def fo(1) [symmetric] fo(4) [symmetric])
  have "R' (Priv c) = []" for c using r(4) [of c] empty by (simp add: R1_def f_def not_less)
  then have "heads' = (\<lambda>_. 0)" using lists_okD(1) [OF r(2), of "Priv c" for c] chain_Nil_iff by fastforce
  moreover have "place_head ?st3 heads' = place_head st2 heads'" by (rule place_head_cong) simp_all
  ultimately have "route_inv ?st3 R'" using r(2,3) ok(2) by (simp add: route_inv_def route_kept_def)
  moreover have "set (R' (Sink c)) = set (R (Box i c)) \<union> set (R (Sink c))" for c
    using r(6) [of c] empty by (simp add: R1_def f_def not_less)
  moreover have "R' (Box j c) = (if j = i then [] else R (Box j c))" for j c
    using r(5) [of j c] route_inv_priv [OF inv] by (simp add: R1_def f_def)
  moreover have "\<not> fi_active (hz12_flush_owner_inboxes ?st3 i) \<and> \<not> fo_valid (h12_flush_owner ?st3 t)"
    using r(3) by (simp add: route_kept_def)
  ultimately show ?thesis using run by blast
qed


section \<open>A concrete state\<close>

text \<open>Two live owners, with one span each; the inbox of the first holds what \<open>box\<close> says for class 1.\<close>

definition route_example :: "addr \<Rightarrow> h12_route_state" where
  "route_example box = \<lparr>hz12_size_table = (\<lambda>_. 0), hz12_size_table_ready = False, h12_mem = (\<lambda>_. 0),
     h12_maps = [], hz12_arena_base = 4294967296, hz12_arena_end = 8589934592, hz12_span_cursor = 4295098368,
     hz12_span_init_once = True, hz12_span_class = (\<lambda>i. if i < 2 then 2 else 0), hz12_span_create_count = 2,
     hz12_returned = (\<lambda>_. 0), h12_dlsym = (\<lambda>_. True), hz12_real = (\<lambda>_. False), hz12_resolved = False,
     hz12_bootstrap_buf = 1048576, hz12_bootstrap_off = 0, h12_sys_answers = [], h12_sys_calls = [],
     h12_thread = (\<lambda>_. \<lparr>hz12_tls = None, hz12_resolving = False\<rparr>),
     h12_registry = example_registry,
     h12_token_inboxes = (\<lambda>_. \<lparr>ti_head = 0, ti_count = 0, ti_generation = 0\<rparr>),
     h12_token_counters = h12_token_counters_reset, h12_token_inbox_initialized = False,
     h12_epoch = h12_owner_epoch_reset undefined,
     h12_owner_retire_gate_counters = \<lparr>gs_query = 0, gs_open = 0, gs_blocked_epoch = 0, gs_blocked_inbox = 0, gs_last_pending = 0\<rparr>,
     h12_owner_retire_gate_initialized = False,
     h12_span_owner = (\<lambda>i. if i = 0 then shadow_token 0 1 else if i = 1 then shadow_token 1 1 else 0),
     h12_span_foreign_seen = (\<lambda>_. False), h12_owner_inbox_current = (\<lambda>_. 0),
     h12_counters = \<lparr>sc_alloc_span_seen = 2, sc_alloc_owner_first = 2, sc_alloc_owner_reuse_foreign = 0,
       sc_flush_objects_total = 0, sc_flush_owner_local = 0, sc_flush_owner_foreign = 0, sc_flush_owner_unknown = 0,
       sc_would_route_batches = 0, sc_would_route_objects = 0, sc_would_keep_ownerless_overflow = 0,
       sc_projected_orphan_objects = 0, sc_projected_reclaim_blocked_spans = 0, sc_projected_inbox_current_max = 0\<rparr>,
     h12_owner_count = 64, h12_span_owner_tokens = (\<lambda>_. 0),
     hz12_flush_owner_once = True, hz12_flush_owner_next = 0,
     hz12_flush_owner_inboxes = (\<lambda>i. \<lparr>fi_heads = (\<lambda>c. if i = 0 \<and> c = 1 then box else 0),
       fi_tails = (\<lambda>c. if i = 0 \<and> c = 1 then box else 0), fi_counts = (\<lambda>c. if i = 0 \<and> c = 1 \<and> box \<noteq> 0 then 1 else 0),
       fi_total_count = (if i = 0 \<and> box \<noteq> 0 then 1 else 0), fi_generation = (if i < 2 then 1 else 0), fi_active = i < 2,
       fi_pending = (i = 0 \<and> box \<noteq> 0)\<rparr>),
     hz12_flush_owner_stats = \<lparr>fs_attach_success = 2, fs_attach_reuse = 0, fs_attach_full = 0, fs_detach_success = 0, fs_stale_fallback = 0\<rparr>,
     h12_flush_owner = (\<lambda>t. if t < 2 then \<lparr>fo_id = of_nat t, fo_generation = 1, fo_valid = True\<rparr>
       else \<lparr>fo_id = 0, fo_generation = 0, fo_valid = False\<rparr>)\<rparr>"

lemma route_example_inv:
  "route_inv (route_example 0) (\<lambda>_. [])"
  "route_inv (route_example 4294967328) ((\<lambda>_. [])(Box 0 1 := [4294967328]))"
proof -
  have h: "place_head (route_example b) (\<lambda>_. 0) k = (if k = Box 0 1 then b else 0)" for b k
    by (cases k) (auto simp: route_example_def)
  show "route_inv (route_example 0) (\<lambda>_. [])" unfolding route_inv_def lists_ok_def h by (simp add: route_example_def)
  show "route_inv (route_example 4294967328) ((\<lambda>_. [])(Box 0 1 := [4294967328]))"
    unfolding route_inv_def lists_ok_def h by (auto simp: route_example_def)
qed

definition route_batch_example :: "addr list" where
  "route_batch_example = [4294967296, 0, 4295032832]"

theorem route_batch_conserves_witness:
  "\<exists>st' R'. hz12_flush_owner_route_batch hz12_default_config 0 1 route_batch_example (route_example 0) = Some st' \<and>
     route_inv st' R' \<and> (\<Union>k. set (R' k)) = {4294967296, 4295032832} \<and>
     hz12_returned st' 1 = 4294967296 \<and> fi_heads (hz12_flush_owner_inboxes st' 1) 1 = 4295032832"
proof -
  have e: "map_option (\<lambda>st'. (hz12_returned st' 1, fi_heads (hz12_flush_owner_inboxes st' 1) 1))
      (hz12_flush_owner_route_batch hz12_default_config 0 1 route_batch_example (route_example 0)) = Some (4294967296, 4295032832)"
    by code_simp
  have c: "(1 :: u8) < HZ12_CLASS_COUNT hz12_default_config" "c12_cache_cap hz12_default_config \<noteq> 0" by code_simp+
  have "distinct (filter (\<lambda>p. p \<noteq> 0) route_batch_example)" "\<forall>k :: place. set route_batch_example \<inter> set ((\<lambda>_. []) k) = {}"
    "length route_batch_example < 2 ^ 32" by (simp_all add: route_batch_example_def)
  from route_batch_conserves [OF route_example_inv(1) c this, of 0] obtain st' R' where
    "hz12_flush_owner_route_batch hz12_default_config 0 1 route_batch_example (route_example 0) = Some st'" "route_inv st' R'"
    "(\<Union>k. set (R' k)) = (\<Union>k :: place. set []) \<union> (set route_batch_example - {0})" by blast
  then show ?thesis using e by (intro exI [of _ st'] exI [of _ R']) (simp add: route_batch_example_def insert_Diff_if)
qed

theorem route_detach_returns_witness:
  "\<exists>st' R'. hz12_flush_owner_route_detach hz12_default_config \<lparr>rc_cold_span = True, rc_owner_batch_ledger = False\<rparr> 0
       (route_example 4294967328) = Some st' \<and> route_inv st' R' \<and> set (R' (Sink 1)) = {4294967328} \<and> R' (Box 0 1) = []"
proof -
  have "c12_cache_cap hz12_default_config \<noteq> 0" by code_simp
  moreover have "\<forall>c \<ge> class_total hz12_default_config. ((\<lambda>_. [])(Box 0 1 := [4294967328 :: addr])) (Box 0 c) = []"
  proof -
    have "1 < class_total hz12_default_config" by code_simp
    then show ?thesis by auto
  qed
  ultimately obtain st' R' where "hz12_flush_owner_route_detach hz12_default_config \<lparr>rc_cold_span = True, rc_owner_batch_ledger = False\<rparr> 0
       (route_example 4294967328) = Some st'" "route_inv st' R'"
    "\<forall>c. set (R' (Sink c)) = set (((\<lambda>_. [])(Box 0 1 := [4294967328 :: addr])) (Box 0 c)) \<union> set (((\<lambda>_. [])(Box 0 1 := [4294967328 :: addr])) (Sink c))"
    "\<forall>j c. R' (Box j c) = (if j = 0 then [] else ((\<lambda>_. [])(Box 0 1 := [4294967328 :: addr])) (Box j c))"
    using route_detach_returns [OF route_example_inv(2), of hz12_default_config "\<lparr>rc_cold_span = True, rc_owner_batch_ledger = False\<rparr>"
        "\<lparr>fo_id = 0, fo_generation = 1, fo_valid = True\<rparr>" 0 0]
    by (auto simp: route_example_def)
  then show ?thesis by (intro exI [of _ st'] exI [of _ R']) simp
qed

end
