(* ===== verification/Hz12_Span_Depot.thy ===== *)
theory Hz12_Span_Depot
  imports Hz12_Flush_Route
begin

text \<open>
  \<open>src/hakozuna-hz12/src/hz12_span_backing.{h,c}\<close>, \<open>hz12_span_depot_core.{h,c}\<close>, \<open>hz12_reclaim_entry.{h,c}\<close> and
  \<open>hz12_current_span_install.{h,c}\<close>: the memory of a whole span given back to the system and touched again, the
  depot of spans so decommitted, with its reservations, the entry that lets one reclaim of an owner run at a
  time, and the installation of a span as the current one of a thread cache.

  The Linux build. The answers of \<open>madvise\<close> are \<open>h12_madvise\<close>, an exhausted list refuses; pages it discards read
  as zero. Each section under the depot's lock, and each compare-and-swap, is one step.
\<close>

datatype madvise_answer = Madvise_ok | Madvise_eintr | Madvise_error

record H12SpanDepotCoreEntry =
  de_span_base :: addr
  de_class_id :: u8

record h12_depot_state = h12_route_state +
  h12_madvise :: "madvise_answer list"
  h12_depot_entries :: "nat \<Rightarrow> H12SpanDepotCoreEntry"
  h12_depot_count :: u32
  h12_depot_max :: u32
  h12_depot_reserved :: u32
  h12_depot_initialized :: bool
  h12_reclaim_generations :: "nat \<Rightarrow> u32"

abbreviation (input) HZ12_SPAN_DEPOT_CAP :: u32 where "HZ12_SPAN_DEPOT_CAP \<equiv> 64"
abbreviation (input) HZ12_BACKING_STATE_RESIDENT :: u32 where "HZ12_BACKING_STATE_RESIDENT \<equiv> 1"
abbreviation (input) HZ12_BACKING_STATE_DISCARDED :: u32 where "HZ12_BACKING_STATE_DISCARDED \<equiv> 2"

section \<open>The backing of a span\<close>

definition h12_span_backing_address_valid :: "addr \<Rightarrow> 'a h12_span_state_scheme \<Rightarrow> bool" where
  "h12_span_backing_address_valid span_base st \<longleftrightarrow> span_base \<noteq> 0 \<and> hz12_arena_contains span_base st \<and>
     (span_base - hz12_arena_base st) AND (HZ12_SPAN_BYTES - 1) = 0"

text \<open>The loop that repeats \<open>madvise\<close> while it is interrupted.\<close>

fun madvise_loop :: "madvise_answer list \<Rightarrow> bool \<times> madvise_answer list" where
  "madvise_loop [] = (False, [])"
| "madvise_loop (Madvise_eintr # rest) = madvise_loop rest"
| "madvise_loop (Madvise_ok # rest) = (True, rest)"
| "madvise_loop (Madvise_error # rest) = (False, rest)"

text \<open>The return value, the states before and after where they are written, and the state.\<close>

definition h12_span_backing_discard :: "addr \<Rightarrow> 'a h12_depot_state_scheme \<Rightarrow>
    (bool \<times> u32 option \<times> u32 option) \<times> 'a h12_depot_state_scheme" where
  "h12_span_backing_discard span_base st =
    (if \<not> h12_span_backing_address_valid span_base st then ((False, None, None), st)
     else case madvise_loop (h12_madvise st) of (ok, rest) \<Rightarrow>
       let st1 = st\<lparr>h12_madvise := rest\<rparr> in
       if \<not> ok then ((False, Some HZ12_BACKING_STATE_RESIDENT, None), st1)
       else ((True, Some HZ12_BACKING_STATE_RESIDENT, Some HZ12_BACKING_STATE_DISCARDED),
         st1\<lparr>h12_mem := (\<lambda>a. if a - span_base < HZ12_SPAN_BYTES then 0 else h12_mem st1 a)\<rparr>))"

definition h12_span_backing_recommit :: "addr \<Rightarrow> 'a h12_span_state_scheme \<Rightarrow>
    (bool \<times> u32 option \<times> u32 option) \<times> 'a h12_span_state_scheme" where
  "h12_span_backing_recommit span_base st =
    (if \<not> h12_span_backing_address_valid span_base st then ((False, None, None), st)
     else ((True, Some HZ12_BACKING_STATE_DISCARDED, Some HZ12_BACKING_STATE_RESIDENT),
       st\<lparr>h12_mem := (h12_mem st)(span_base := h12_mem st span_base AND NOT 255)\<rparr>))"

definition h12_span_backing_validate_discarded :: "addr \<Rightarrow> 'a h12_span_state_scheme \<Rightarrow> bool" where
  "h12_span_backing_validate_discarded span_base st = h12_span_backing_address_valid span_base st"

section \<open>The depot\<close>

definition h12_span_depot_core_reset :: "'a h12_depot_state_scheme \<Rightarrow> 'a h12_depot_state_scheme" where
  "h12_span_depot_core_reset st = st\<lparr>h12_depot_entries := (\<lambda>_. \<lparr>de_span_base = 0, de_class_id = 0\<rparr>),
     h12_depot_count := 0, h12_depot_max := 0, h12_depot_reserved := 0, h12_depot_initialized := True\<rparr>"

definition h12_depot_validate_decommitted :: "hz12_config \<Rightarrow> addr \<Rightarrow> u8 \<Rightarrow> 'a h12_depot_state_scheme \<Rightarrow> bool" where
  "h12_depot_validate_decommitted cfg span_base class_id st =
    (if \<not> h12_depot_initialized st \<or> span_base = 0 \<or> class_id \<ge> HZ12_CLASS_COUNT cfg \<or>
        \<not> hz12_arena_contains span_base st \<or> (span_base - hz12_arena_base st) AND (HZ12_SPAN_BYTES - 1) \<noteq> 0
     then False else h12_span_backing_validate_discarded span_base st)"

definition depot_available :: "'a h12_depot_state_scheme \<Rightarrow> u32" where
  "depot_available st = HZ12_SPAN_DEPOT_CAP - h12_depot_count st - h12_depot_reserved st"

definition h12_span_depot_core_reserve :: "u32 \<Rightarrow> 'a h12_depot_state_scheme \<Rightarrow> u32 \<times> 'a h12_depot_state_scheme" where
  "h12_span_depot_core_reserve requested st =
    (if \<not> h12_depot_initialized st \<or> requested = 0 then (0, st)
     else let available = depot_available st; reserved = (if requested < available then requested else available) in
       (reserved, st\<lparr>h12_depot_reserved := h12_depot_reserved st + reserved\<rparr>))"

definition h12_span_depot_core_release_reservation :: "u32 \<Rightarrow> 'a h12_depot_state_scheme \<Rightarrow> 'a h12_depot_state_scheme" where
  "h12_span_depot_core_release_reservation n st =
    (if \<not> h12_depot_initialized st \<or> n = 0 then st
     else st\<lparr>h12_depot_reserved := h12_depot_reserved st - (if n > h12_depot_reserved st then h12_depot_reserved st else n)\<rparr>)"

text \<open>The three answers of \<open>h12_span_depot_core_put_reserved\<close>: 1, 0 and -1.\<close>

datatype put_answer = Put_inserted | Put_refused | Put_duplicate

definition h12_span_depot_core_put_reserved :: "hz12_config \<Rightarrow> addr \<Rightarrow> u8 \<Rightarrow> 'a h12_depot_state_scheme \<Rightarrow>
    put_answer \<times> 'a h12_depot_state_scheme" where
  "h12_span_depot_core_put_reserved cfg span_base class_id st =
    (if \<not> h12_depot_validate_decommitted cfg span_base class_id st then (Put_refused, st)
     else if h12_depot_reserved st = 0 then (Put_refused, st)
     else if list_ex (\<lambda>i. de_span_base (h12_depot_entries st i) = span_base) [0..<unat (h12_depot_count st)]
     then (Put_duplicate, st)
     else if h12_depot_count st < HZ12_SPAN_DEPOT_CAP
     then let n = h12_depot_count st + 1 in
       (Put_inserted, st\<lparr>h12_depot_entries := (h12_depot_entries st)(unat (h12_depot_count st) :=
            \<lparr>de_span_base = span_base, de_class_id = class_id\<rparr>),
          h12_depot_count := n, h12_depot_reserved := h12_depot_reserved st - 1,
          h12_depot_max := (if n > h12_depot_max st then n else h12_depot_max st)\<rparr>)
     else (Put_refused, st))"

definition h12_span_depot_core_put_decommitted :: "hz12_config \<Rightarrow> addr \<Rightarrow> u8 \<Rightarrow> 'a h12_depot_state_scheme \<Rightarrow>
    bool \<times> 'a h12_depot_state_scheme" where
  "h12_span_depot_core_put_decommitted cfg span_base class_id st =
    (case h12_span_depot_core_reserve 1 st of (n, st1) \<Rightarrow>
       if n \<noteq> 1 then (False, st1)
       else case h12_span_depot_core_put_reserved cfg span_base class_id st1 of (r, st2) \<Rightarrow>
         if r = Put_inserted then (True, st2)
         else (False, h12_span_depot_core_release_reservation 1 st2))"

text \<open>The search goes down from the newest entry; the last entry fills the hole.\<close>

definition h12_span_depot_core_take :: "hz12_config \<Rightarrow> u8 \<Rightarrow> 'a h12_depot_state_scheme \<Rightarrow>
    H12SpanDepotCoreEntry option \<times> 'a h12_depot_state_scheme" where
  "h12_span_depot_core_take cfg class_id st =
    (if \<not> h12_depot_initialized st \<or> class_id \<ge> HZ12_CLASS_COUNT cfg then (None, st)
     else case find (\<lambda>i. de_class_id (h12_depot_entries st i) = class_id) (rev [0..<unat (h12_depot_count st)]) of
       None \<Rightarrow> (None, st)
     | Some i \<Rightarrow> (Some (h12_depot_entries st i),
         st\<lparr>h12_depot_entries := (h12_depot_entries st)(i := h12_depot_entries st (unat (h12_depot_count st - 1))),
            h12_depot_count := h12_depot_count st - 1\<rparr>))"

definition h12_span_depot_core_count :: "'a h12_depot_state_scheme \<Rightarrow> u32" where
  "h12_span_depot_core_count st = (if \<not> h12_depot_initialized st then 0 else h12_depot_count st)"

definition h12_span_depot_core_max :: "'a h12_depot_state_scheme \<Rightarrow> u32" where
  "h12_span_depot_core_max st = (if \<not> h12_depot_initialized st then 0 else h12_depot_max st)"

definition h12_span_depot_core_available :: "'a h12_depot_state_scheme \<Rightarrow> u32" where
  "h12_span_depot_core_available st = (if \<not> h12_depot_initialized st then 0 else depot_available st)"

section \<open>One reclaim at a time\<close>

definition h12_reclaim_entry_reset :: "'a h12_depot_state_scheme \<Rightarrow> 'a h12_depot_state_scheme" where
  "h12_reclaim_entry_reset st = st\<lparr>h12_reclaim_generations := (\<lambda>_. 0)\<rparr>"

definition h12_reclaim_entry_begin :: "H12OwnerToken \<Rightarrow> 'a h12_depot_state_scheme \<Rightarrow> bool \<times> 'a h12_depot_state_scheme" where
  "h12_reclaim_entry_begin owner st =
    (let i = unat (ot_slot owner) in
     if i \<ge> HZ12_OWNER_REGISTRY_CAP \<or> ot_generation owner = 0 then (False, st)
     else if h12_reclaim_generations st i = 0
     then (True, st\<lparr>h12_reclaim_generations := (h12_reclaim_generations st)(i := ot_generation owner)\<rparr>)
     else (False, st))"

definition h12_reclaim_entry_end :: "H12OwnerToken \<Rightarrow> 'a h12_depot_state_scheme \<Rightarrow> bool \<times> 'a h12_depot_state_scheme" where
  "h12_reclaim_entry_end owner st =
    (let i = unat (ot_slot owner) in
     if i \<ge> HZ12_OWNER_REGISTRY_CAP \<or> ot_generation owner = 0 then (False, st)
     else if h12_reclaim_generations st i = ot_generation owner
     then (True, st\<lparr>h12_reclaim_generations := (h12_reclaim_generations st)(i := 0)\<rparr>)
     else (False, st))"

section \<open>A span installed as the current one\<close>

text \<open>The span lane; the other lane answers 0.\<close>

definition h12_current_span_install :: "hz12_config \<Rightarrow> u8 \<Rightarrow> addr \<Rightarrow> H12ThreadCache \<Rightarrow> bool \<times> H12ThreadCache" where
  "h12_current_span_install cfg class_id span_base tc =
    (let c = unat class_id; slot_bytes = hz12_class_slot_size cfg class_id in
     if \<not> c12_classify_span cfg then (False, tc)
     else if span_base = 0 \<or> class_id \<ge> HZ12_CLASS_COUNT cfg then (False, tc)
     else if cs_base (tc_current tc c) \<noteq> 0 then (False, tc)
     else if slot_bytes = 0 then (False, tc)
     else (True, tc\<lparr>tc_current := (tc_current tc)(c := \<lparr>cs_base = span_base, cs_bump_index = 0,
            cs_slot_count = ucast (HZ12_SPAN_BYTES div slot_bytes)\<rparr>)\<rparr>))"


section \<open>Correctness of the depot\<close>

text \<open>The specification: a set of spans with their classes, no span twice, and a number of reservations.\<close>

definition stored :: "'a h12_depot_state_scheme \<Rightarrow> (addr \<times> u8) set" where
  "stored st = (\<lambda>i. (de_span_base (h12_depot_entries st i), de_class_id (h12_depot_entries st i))) ` {..<unat (h12_depot_count st)}"

definition depot_ok :: "hz12_config \<Rightarrow> 'a h12_depot_state_scheme \<Rightarrow> bool" where
  "depot_ok cfg st \<longleftrightarrow> h12_depot_initialized st \<and> unat (h12_depot_count st) + unat (h12_depot_reserved st) \<le> 64 \<and>
     inj_on (\<lambda>i. de_span_base (h12_depot_entries st i)) {..<unat (h12_depot_count st)} \<and>
     (\<forall>(base, c) \<in> stored st. h12_span_backing_address_valid base st \<and> c < HZ12_CLASS_COUNT cfg) \<and>
     h12_depot_count st \<le> h12_depot_max st \<and> unat (h12_depot_max st) \<le> 64"

lemma stored_iff: "(b, c) \<in> stored st \<longleftrightarrow> (\<exists>i < unat (h12_depot_count st).
    de_span_base (h12_depot_entries st i) = b \<and> de_class_id (h12_depot_entries st i) = c)"
  by (auto simp: stored_def image_iff)

lemma depot_ok_reset: "depot_ok cfg (h12_span_depot_core_reset st)"
  by (simp add: depot_ok_def h12_span_depot_core_reset_def stored_def)

lemma available_nat:
  assumes "depot_ok cfg st"
  shows "unat (depot_available st) = 64 - unat (h12_depot_count st) - unat (h12_depot_reserved st)"
proof -
  have "unat (h12_depot_count st) + unat (h12_depot_reserved st) \<le> 64" using assms by (simp add: depot_ok_def)
  moreover from this have "unat ((64 :: u32) - h12_depot_count st) = 64 - unat (h12_depot_count st)"
    by (subst unat_sub) (simp_all add: word_le_nat_alt)
  ultimately show ?thesis unfolding depot_available_def by (subst unat_sub) (simp_all add: word_le_nat_alt)
qed

lemma reserve_ok:
  assumes ok: "depot_ok cfg st" and run: "h12_span_depot_core_reserve requested st = (n, st')"
  shows "depot_ok cfg st' \<and> unat n = min (unat requested) (64 - unat (h12_depot_count st) - unat (h12_depot_reserved st)) \<and>
    unat (h12_depot_reserved st') = unat (h12_depot_reserved st) + unat n \<and> stored st' = stored st"
proof (cases "requested = 0")
  case True
  then show ?thesis using assms by (auto simp: h12_span_depot_core_reserve_def)
next
  case False
  have init: "h12_depot_initialized st" using ok by (simp add: depot_ok_def)
  have n: "n = (if requested < depot_available st then requested else depot_available st)"
    "st' = st\<lparr>h12_depot_reserved := h12_depot_reserved st + n\<rparr>"
    using run False init by (auto simp: h12_span_depot_core_reserve_def Let_def)
  have nn: "unat n = min (unat requested) (64 - unat (h12_depot_count st) - unat (h12_depot_reserved st))"
    using n(1) available_nat [OF ok] by (auto simp: word_less_nat_alt)
  have "unat (h12_depot_count st) + unat (h12_depot_reserved st) \<le> 64" using ok by (simp add: depot_ok_def)
  then have r: "unat (h12_depot_reserved st + n) = unat (h12_depot_reserved st) + unat n"
    using nn by (subst unat_add_lem [THEN iffD1]) simp_all
  have "stored st' = stored st" by (simp add: stored_def n(2))
  moreover have "depot_ok cfg st'" using ok nn r unfolding n(2)
    by (auto simp: depot_ok_def stored_def h12_span_backing_address_valid_def hz12_arena_contains_def)
  ultimately show ?thesis using nn r n(2) by simp
qed

lemma release_ok:
  assumes ok: "depot_ok cfg st"
  shows "depot_ok cfg (h12_span_depot_core_release_reservation n st) \<and>
    unat (h12_depot_reserved (h12_span_depot_core_release_reservation n st)) = unat (h12_depot_reserved st) - unat n \<and>
    stored (h12_span_depot_core_release_reservation n st) = stored st"
proof -
  let ?k = "if n > h12_depot_reserved st then h12_depot_reserved st else n"
  have k: "unat (h12_depot_reserved st - ?k) = unat (h12_depot_reserved st) - unat n"
    by (subst unat_sub) (auto simp: word_less_nat_alt word_le_nat_alt)
  show ?thesis
  proof (cases "n = 0")
    case False
    have st': "h12_span_depot_core_release_reservation n st = st\<lparr>h12_depot_reserved := h12_depot_reserved st - ?k\<rparr>"
      using False ok by (simp add: h12_span_depot_core_release_reservation_def depot_ok_def)
    show ?thesis unfolding st' using k ok
      by (auto simp: depot_ok_def stored_def h12_span_backing_address_valid_def hz12_arena_contains_def)
  qed (use ok in \<open>simp add: h12_span_depot_core_release_reservation_def\<close>)
qed

text \<open>C39: putting a span into the depot implements the insertion into the set: it succeeds exactly for a valid
  span of the arena, on a reservation, that is not in the set; it uses up the reservation, and never grows the depot
  over its 64 entries.\<close>

theorem depot_put_refines:
  assumes ok: "depot_ok cfg st" and run: "h12_span_depot_core_put_reserved cfg base c st = (r, st')"
  shows "depot_ok cfg st' \<and>
    (r = Put_inserted \<longleftrightarrow> h12_span_backing_address_valid base st \<and> c < HZ12_CLASS_COUNT cfg \<and> h12_depot_reserved st \<noteq> 0 \<and> base \<notin> fst ` stored st) \<and>
    (if r = Put_inserted then stored st' = insert (base, c) (stored st) \<and> h12_depot_reserved st' = h12_depot_reserved st - 1 else st' = st)"
proof -
  let ?n = "h12_depot_count st"
  have init: "h12_depot_initialized st" and le: "unat ?n + unat (h12_depot_reserved st) \<le> 64"
    and inj: "inj_on (\<lambda>i. de_span_base (h12_depot_entries st i)) {..<unat ?n}" using ok by (simp_all add: depot_ok_def)
  have valid: "h12_depot_validate_decommitted cfg base c st \<longleftrightarrow> h12_span_backing_address_valid base st \<and> c < HZ12_CLASS_COUNT cfg"
    using init by (auto simp: h12_depot_validate_decommitted_def h12_span_backing_validate_discarded_def h12_span_backing_address_valid_def)
  have dup: "list_ex (\<lambda>i. de_span_base (h12_depot_entries st i) = base) [0..<unat ?n] \<longleftrightarrow> base \<in> fst ` stored st"
    by (auto simp: list_ex_iff stored_def image_image image_iff)
  have room: "h12_depot_reserved st \<noteq> 0 \<Longrightarrow> unat ?n < 64"
    using le by (metis add_leD1 le_neq_implies_less less_not_refl add_le_cancel_left le_zero_eq unat_eq_zero nat_add_left_cancel_le add.right_neutral)
  show ?thesis
  proof (cases "h12_span_backing_address_valid base st \<and> c < HZ12_CLASS_COUNT cfg \<and> h12_depot_reserved st \<noteq> 0 \<and> base \<notin> fst ` stored st")
    case True
    have n64: "unat ?n < 64" using room True by blast
    then have n1: "unat (?n + 1) = Suc (unat ?n)" and lt: "?n < 64" by (auto simp: word_less_nat_alt unat_word_ariths)
    define e where "e = (h12_depot_entries st)(unat ?n := \<lparr>de_span_base = base, de_class_id = c\<rparr>)"
    have st': "r = Put_inserted" "st' = st\<lparr>h12_depot_entries := e, h12_depot_count := ?n + 1,
        h12_depot_reserved := h12_depot_reserved st - 1,
        h12_depot_max := (if ?n + 1 > h12_depot_max st then ?n + 1 else h12_depot_max st)\<rparr>"
      using run True valid dup lt by (auto simp: h12_span_depot_core_put_reserved_def Let_def e_def)
    have stored': "stored st' = insert (base, c) (stored st)"
      unfolding st'(2) stored_def n1 by (auto simp: lessThan_Suc n1 e_def image_iff)
    have "inj_on (\<lambda>i. de_span_base (e i)) {..<Suc (unat ?n)}"
    proof -
      have "inj_on (\<lambda>i. de_span_base (e i)) {..<unat ?n}" using inj by (auto simp: inj_on_def e_def)
      moreover have "base \<notin> (\<lambda>i. de_span_base (e i)) ` {..<unat ?n}" using True by (auto simp: stored_def image_image e_def)
      ultimately show ?thesis by (simp add: lessThan_Suc e_def)
    qed
    moreover have "unat (h12_depot_reserved st - 1) = unat (h12_depot_reserved st) - 1"
      using True by (simp add: unat_sub word_le_nat_alt unat_gt_0 Suc_le_eq)
    moreover have "0 < unat (h12_depot_reserved st)" using True by (simp add: unat_gt_0)
    moreover have "\<forall>(b, d) \<in> stored st'. h12_span_backing_address_valid b st' \<and> d < HZ12_CLASS_COUNT cfg"
      using ok True unfolding stored' by (auto simp: depot_ok_def st'(2) h12_span_backing_address_valid_def hz12_arena_contains_def)
    ultimately have "depot_ok cfg st'" using ok le n64 n1 unfolding depot_ok_def
      by (simp add: st'(2)) (auto simp: word_less_nat_alt word_le_nat_alt)
    then show ?thesis using True st' stored' by simp
  next
    case False
    then have "r \<noteq> Put_inserted \<and> st' = st"
      using run valid dup room by (auto simp: h12_span_depot_core_put_reserved_def Let_def word_less_nat_alt split: if_splits)
    then show ?thesis using False ok by auto
  qed
qed


text \<open>C40: taking a span of a class implements the removal from the set: it answers a span of that class that was
  in the set, which leaves it and nothing else, and answers none exactly when the set has no span of the class.\<close>

theorem depot_take_refines:
  assumes ok: "depot_ok cfg st" and c: "c < HZ12_CLASS_COUNT cfg" and run: "h12_span_depot_core_take cfg c st = (r, st')"
  shows "depot_ok cfg st' \<and> h12_depot_reserved st' = h12_depot_reserved st \<and>
    (case r of None \<Rightarrow> st' = st \<and> (\<forall>base. (base, c) \<notin> stored st)
     | Some e \<Rightarrow> de_class_id e = c \<and> (de_span_base e, c) \<in> stored st \<and> stored st' = stored st - {(de_span_base e, c)})"
proof -
  let ?n = "unat (h12_depot_count st)" and ?e = "h12_depot_entries st"
  have init: "h12_depot_initialized st" and inj: "inj_on (\<lambda>i. de_span_base (?e i)) {..<?n}" using ok by (simp_all add: depot_ok_def)
  have guard: "(\<not> h12_depot_initialized st \<or> c \<ge> HZ12_CLASS_COUNT cfg) = False" using init c by (simp add: not_le)
  show ?thesis
  proof (cases "find (\<lambda>i. de_class_id (?e i) = c) (rev [0..<?n])")
    case None
    then have "r = None" "st' = st" using run unfolding h12_span_depot_core_take_def guard by simp_all
    moreover have "(base, c) \<notin> stored st" for base using None by (auto simp: find_None_iff stored_iff)
    ultimately show ?thesis using ok by simp
  next
    case (Some i)
    then have "i \<in> set (rev [0..<?n]) \<and> de_class_id (?e i) = c" unfolding find_Some_iff by (metis nth_mem)
    then have i: "i < ?n" "de_class_id (?e i) = c" by simp_all
    then have n1: "unat (h12_depot_count st - 1) = ?n - 1" by (simp add: unat_sub word_le_nat_alt)
    define e where "e = ?e(i := ?e (?n - 1))"
    have st': "r = Some (?e i)" "st' = st\<lparr>h12_depot_entries := e, h12_depot_count := h12_depot_count st - 1\<rparr>"
      using run Some unfolding h12_span_depot_core_take_def guard by (simp_all add: e_def n1)
    define g where "g j = (if j = i then ?n - 1 else j)" for j
    have g: "e j = ?e (g j)" for j by (simp add: e_def g_def)
    have range: "g ` {..<?n - 1} = {..<?n} - {i}" using i(1) by (auto simp: g_def image_iff)
    have gi: "inj_on g {..<?n - 1}" by (auto simp: inj_on_def g_def split: if_splits)
    have "stored st' = (\<lambda>j. (de_span_base (?e j), de_class_id (?e j))) ` ({..<?n} - {i})"
      by (simp add: stored_def st'(2) n1 g image_image flip: range)
    also have "\<dots> = stored st - {(de_span_base (?e i), c)}"
      using i inj unfolding stored_def by (auto simp: inj_on_def)
    finally have s: "stored st' = stored st - {(de_span_base (?e i), c)}" .
    have "inj_on (\<lambda>j. de_span_base (e j)) {..<?n - 1}"
    proof -
      have "inj_on (\<lambda>j. de_span_base (?e j)) (g ` {..<?n - 1})" unfolding range by (rule inj_on_subset [OF inj]) auto
      from comp_inj_on [OF gi this] show ?thesis by (simp add: comp_def g)
    qed
    moreover have "h12_depot_count st - 1 \<le> h12_depot_max st"
    proof -
      have "?n \<le> unat (h12_depot_max st)" using ok by (simp add: depot_ok_def word_le_nat_alt)
      then show ?thesis using n1 by (simp add: word_le_nat_alt)
    qed
    moreover have "\<forall>(b, d) \<in> stored st'. h12_span_backing_address_valid b st' \<and> d < HZ12_CLASS_COUNT cfg"
      using ok unfolding s by (auto simp: depot_ok_def st'(2) h12_span_backing_address_valid_def hz12_arena_contains_def)
    moreover have "?n + unat (h12_depot_reserved st) - Suc 0 \<le> 64" using ok by (auto simp: depot_ok_def)
    ultimately have "depot_ok cfg st'" using ok n1 i(1) unfolding depot_ok_def by (simp add: st'(2))
    moreover have "(de_span_base (?e i), c) \<in> stored st" using i by (auto simp: stored_iff)
    ultimately show ?thesis using s i(2) st' by simp
  qed
qed

text \<open>One reclaim of an owner at a time: between the entry of one and its end no other enters, for this owner
  or for one with the same slot.\<close>

theorem reclaim_entry_excludes:
  assumes begin': "h12_reclaim_entry_begin owner st = (True, st1)" and slot: "ot_slot other = ot_slot owner"
  shows "\<not> fst (h12_reclaim_entry_begin other st1) \<and>
    (fst (h12_reclaim_entry_end other st1) \<longleftrightarrow> ot_generation other = ot_generation owner) \<and>
    (\<exists>st2. h12_reclaim_entry_end owner st1 = (True, st2) \<and> h12_reclaim_generations st2 = h12_reclaim_generations st)"
  using assms by (auto simp: h12_reclaim_entry_begin_def h12_reclaim_entry_end_def Let_def fun_upd_idem split: if_splits)

section \<open>A concrete depot\<close>

definition depot_start :: "h12_depot_state" where
  "depot_start = \<lparr>hz12_size_table = (\<lambda>_. 0), hz12_size_table_ready = False, h12_mem = (\<lambda>_. 0),
     h12_maps = [], hz12_arena_base = 4294967296, hz12_arena_end = 8589934592, hz12_span_cursor = 4295098368,
     hz12_span_init_once = True, hz12_span_class = (\<lambda>_. 0), hz12_span_create_count = 2,
     hz12_returned = (\<lambda>_. 0), h12_dlsym = (\<lambda>_. True), hz12_real = (\<lambda>_. False), hz12_resolved = False,
     hz12_bootstrap_buf = 1048576, hz12_bootstrap_off = 0, h12_sys_answers = [], h12_sys_calls = [],
     h12_thread = (\<lambda>_. \<lparr>hz12_tls = None, hz12_resolving = False\<rparr>),
     h12_registry = example_registry,
     h12_token_inboxes = (\<lambda>_. \<lparr>ti_head = 0, ti_count = 0, ti_generation = 0\<rparr>),
     h12_token_counters = h12_token_counters_reset, h12_token_inbox_initialized = False,
     h12_epoch = h12_owner_epoch_reset undefined,
     h12_owner_retire_gate_counters = \<lparr>gs_query = 0, gs_open = 0, gs_blocked_epoch = 0, gs_blocked_inbox = 0, gs_last_pending = 0\<rparr>,
     h12_owner_retire_gate_initialized = False,
     h12_span_owner = (\<lambda>_. 0), h12_span_foreign_seen = (\<lambda>_. False), h12_owner_inbox_current = (\<lambda>_. 0),
     h12_counters = \<lparr>sc_alloc_span_seen = 0, sc_alloc_owner_first = 0, sc_alloc_owner_reuse_foreign = 0,
       sc_flush_objects_total = 0, sc_flush_owner_local = 0, sc_flush_owner_foreign = 0, sc_flush_owner_unknown = 0,
       sc_would_route_batches = 0, sc_would_route_objects = 0, sc_would_keep_ownerless_overflow = 0,
       sc_projected_orphan_objects = 0, sc_projected_reclaim_blocked_spans = 0, sc_projected_inbox_current_max = 0\<rparr>,
     h12_owner_count = 64, h12_span_owner_tokens = (\<lambda>_. 0),
     hz12_flush_owner_once = True, hz12_flush_owner_next = 0,
     hz12_flush_owner_inboxes = (\<lambda>_. \<lparr>fi_heads = (\<lambda>_. 0), fi_tails = (\<lambda>_. 0), fi_counts = (\<lambda>_. 0),
       fi_total_count = 0, fi_generation = 0, fi_active = False, fi_pending = False\<rparr>),
     hz12_flush_owner_stats = \<lparr>fs_attach_success = 0, fs_attach_reuse = 0, fs_attach_full = 0, fs_detach_success = 0, fs_stale_fallback = 0\<rparr>,
     h12_flush_owner = (\<lambda>_. \<lparr>fo_id = 0, fo_generation = 0, fo_valid = False\<rparr>),
     h12_madvise = [Madvise_eintr, Madvise_ok],
     h12_depot_entries = (\<lambda>_. \<lparr>de_span_base = 0, de_class_id = 0\<rparr>), h12_depot_count = 0, h12_depot_max = 0,
     h12_depot_reserved = 0, h12_depot_initialized = True, h12_reclaim_generations = (\<lambda>_. 0)\<rparr>"

lemma depot_start_ok:
  "depot_ok hz12_default_config (snd (h12_span_depot_core_reserve 2 depot_start))"
  "h12_depot_reserved (snd (h12_span_depot_core_reserve 2 depot_start)) = 2"
proof -
  have ok: "depot_ok hz12_default_config depot_start" by (simp add: depot_ok_def depot_start_def stored_def)
  obtain n st' where r: "h12_span_depot_core_reserve 2 depot_start = (n, st')" by force
  from reserve_ok [OF ok r] show "depot_ok hz12_default_config (snd (h12_span_depot_core_reserve 2 depot_start))" using r by simp
  show "h12_depot_reserved (snd (h12_span_depot_core_reserve 2 depot_start)) = 2" by code_simp
qed

text \<open>A span of class 3 put into the depot, on one of two reservations.\<close>

definition depot_one :: "h12_depot_state" where
  "depot_one = snd (h12_span_depot_core_put_reserved hz12_default_config 4295032832 3 (snd (h12_span_depot_core_reserve 2 depot_start)))"

lemma depot_one_put:
  "h12_span_depot_core_put_reserved hz12_default_config 4295032832 3 (snd (h12_span_depot_core_reserve 2 depot_start)) = (Put_inserted, depot_one)"
proof -
  have "fst (h12_span_depot_core_put_reserved hz12_default_config 4295032832 3 (snd (h12_span_depot_core_reserve 2 depot_start))) = Put_inserted"
    by code_simp
  then show ?thesis by (metis depot_one_def prod.collapse)
qed

theorem depot_put_refines_witness:
  "depot_ok hz12_default_config depot_one \<and> (4295032832, 3) \<in> stored depot_one"
  using depot_put_refines [OF depot_start_ok(1) depot_one_put] by auto

lemma depot_one_ok: "depot_ok hz12_default_config depot_one" "stored depot_one = {(4295032832, 3)}"
proof -
  have e: "h12_depot_initialized depot_one" "h12_depot_count depot_one = 1" "h12_depot_reserved depot_one = 1"
    "h12_depot_max depot_one = 1" "h12_depot_entries depot_one 0 = \<lparr>de_span_base = 4295032832, de_class_id = 3\<rparr>"
    "h12_span_backing_address_valid 4295032832 depot_one" by code_simp+
  show s: "stored depot_one = {(4295032832, 3)}" unfolding stored_def e(2) by (auto simp: e(5) lessThan_Suc)
  have "(3 :: u8) < HZ12_CLASS_COUNT hz12_default_config" by code_simp
  then show "depot_ok hz12_default_config depot_one" unfolding depot_ok_def s by (simp add: e inj_on_def)
qed

theorem depot_take_refines_witness:
  "\<exists>st'. h12_span_depot_core_take hz12_default_config 3 depot_one = (Some \<lparr>de_span_base = 4295032832, de_class_id = 3\<rparr>, st') \<and>
     depot_ok hz12_default_config st' \<and> stored st' = {}"
proof -
  have c: "(3 :: u8) < HZ12_CLASS_COUNT hz12_default_config" by code_simp
  have "fst (h12_span_depot_core_take hz12_default_config 3 depot_one) = Some \<lparr>de_span_base = 4295032832, de_class_id = 3\<rparr>" by code_simp
  then obtain st' where r: "h12_span_depot_core_take hz12_default_config 3 depot_one = (Some \<lparr>de_span_base = 4295032832, de_class_id = 3\<rparr>, st')"
    by (metis prod.collapse)
  from depot_take_refines [OF depot_one_ok(1) c r] show ?thesis using r depot_one_ok(2) by simp
qed

theorem reclaim_entry_excludes_witness:
  "\<not> fst (h12_reclaim_entry_begin \<lparr>ot_slot = 5, ot_generation = 2\<rparr>
      (snd (h12_reclaim_entry_begin \<lparr>ot_slot = 5, ot_generation = 1\<rparr> depot_start)))"
proof -
  have "fst (h12_reclaim_entry_begin \<lparr>ot_slot = 5, ot_generation = 1\<rparr> depot_start)" by code_simp
  then have "h12_reclaim_entry_begin \<lparr>ot_slot = 5, ot_generation = 1\<rparr> depot_start
      = (True, snd (h12_reclaim_entry_begin \<lparr>ot_slot = 5, ot_generation = 1\<rparr> depot_start))" by (metis (full_types) prod.collapse)
  from reclaim_entry_excludes [OF this, of "\<lparr>ot_slot = 5, ot_generation = 2\<rparr>"] show ?thesis by simp
qed

end
