(* ===== verification/Hz12_Snapshot_Reclaim.thy ===== *)
theory Hz12_Snapshot_Reclaim
  imports Hz12_Span_Depot
begin

text \<open>
  \<open>src/hakozuna-hz12/src/hz12_snapshot_reclaim.{h,c}\<close>, \<open>hz12_snapshot_recycle.{h,c}\<close> and
  \<open>hz12_reclaim_policy_shadow.{h,c}\<close>: the spans of a retired owner of which every slot is back in the sink are
  taken out of it, decommitted and put into the depot; a thread that needs a span takes one from there.

  \<open>None\<close> is a walk of the sink that does not end. What the C functions write to their result records on the way
  is built up in the same order.
\<close>

record H12SnapshotReclaimResult =
  rr_budget :: u32
  rr_reserved :: u32
  rr_candidates :: u32
  rr_detached :: u32
  rr_decommitted :: u32
  rr_depot_inserted :: u32
  rr_owner_cleared :: u32
  rr_limbo_spans :: u32
  rr_failed :: u32
  rr_decommitted_bytes :: u64

record H12SnapshotCandidate =
  ca_span_base :: addr
  ca_class_id :: u8
  ca_detached :: bool

definition empty_reclaim_result :: H12SnapshotReclaimResult where
  "empty_reclaim_result = \<lparr>rr_budget = 0, rr_reserved = 0, rr_candidates = 0, rr_detached = 0, rr_decommitted = 0,
     rr_depot_inserted = 0, rr_owner_cleared = 0, rr_limbo_spans = 0, rr_failed = 0, rr_decommitted_bytes = 0\<rparr>"

section \<open>Choosing the spans\<close>

text \<open>The inner \<open>None\<close> is a return value 0.\<close>

definition h12_snapshot_select_batch :: "hz12_config \<Rightarrow> u8 \<Rightarrow> addr list \<Rightarrow> H12SnapshotCandidate list \<Rightarrow> nat \<Rightarrow>
    'a h12_span_state_scheme \<Rightarrow> H12SnapshotCandidate list option option" where
  "h12_snapshot_select_batch cfg class_id spans selected limit st =
    (case hz12_returned_snapshot_batch cfg class_id spans st of
       None \<Rightarrow> None
     | Some (None, _) \<Rightarrow> Some None
     | Some (Some snapshots, _) \<Rightarrow>
         Some (Some (selected @ take (limit - length selected)
           (map (\<lambda>(base, sn). \<lparr>ca_span_base = base, ca_class_id = class_id, ca_detached = False\<rparr>)
              (filter (\<lambda>(base, sn). sn_complete sn) (zip spans snapshots))))))"

text \<open>The loop over the spans of the arena: those of the owner gather per class, and a full batch is tried.\<close>

fun scan_spans :: "hz12_config \<Rightarrow> H12OwnerToken \<Rightarrow> nat \<Rightarrow> nat list \<Rightarrow> (nat \<Rightarrow> addr list) \<Rightarrow> H12SnapshotCandidate list \<Rightarrow>
    'a h12_depot_state_scheme \<Rightarrow> ((nat \<Rightarrow> addr list) \<times> H12SnapshotCandidate list) option option" where
  "scan_spans cfg owner limit [] pending candidates st = Some (Some (pending, candidates))"
| "scan_spans cfg owner limit (span_id # rest) pending candidates st =
    (if length candidates \<ge> limit then Some (Some (pending, candidates))
     else if h12_span_owner_shadow_query span_id st \<noteq> Some owner \<or> hz12_span_class st span_id = 0
     then scan_spans cfg owner limit rest pending candidates st
     else
       let class_id = hz12_span_class st span_id - 1; c = unat class_id;
           spans = pending c @ [hz12_arena_base st + of_nat span_id * HZ12_SPAN_BYTES] in
       if length spans = unat HZ12_RETURNED_BATCH_MAX
       then (case h12_snapshot_select_batch cfg class_id spans candidates limit st of
               None \<Rightarrow> None
             | Some None \<Rightarrow> Some None
             | Some (Some candidates1) \<Rightarrow> scan_spans cfg owner limit rest (pending(c := [])) candidates1 st)
       else scan_spans cfg owner limit rest (pending(c := spans)) candidates st)"

fun select_rest :: "hz12_config \<Rightarrow> nat \<Rightarrow> nat list \<Rightarrow> (nat \<Rightarrow> addr list) \<Rightarrow> H12SnapshotCandidate list \<Rightarrow>
    'a h12_span_state_scheme \<Rightarrow> H12SnapshotCandidate list option option" where
  "select_rest cfg limit [] pending candidates st = Some (Some candidates)"
| "select_rest cfg limit (c # cs) pending candidates st =
    (if length candidates \<ge> limit then Some (Some candidates)
     else if pending c = [] then select_rest cfg limit cs pending candidates st
     else case h12_snapshot_select_batch cfg (of_nat c) (pending c) candidates limit st of
       None \<Rightarrow> None
     | Some None \<Rightarrow> Some None
     | Some (Some candidates1) \<Rightarrow> select_rest cfg limit cs pending candidates1 st)"

section \<open>Taking them out of the sink\<close>

fun mark_detached :: "u8 \<Rightarrow> H12ReturnedSpanSnapshot list \<Rightarrow> H12SnapshotCandidate list \<Rightarrow> H12SnapshotCandidate list" where
  "mark_detached class_id snapshots [] = []"
| "mark_detached class_id snapshots (ca # rest) =
    (if ca_class_id ca \<noteq> class_id then ca # mark_detached class_id snapshots rest
     else case snapshots of
       [] \<Rightarrow> ca # rest
     | sn # sns \<Rightarrow> (if sn_complete sn then ca\<lparr>ca_detached := True\<rparr> else ca) # mark_detached class_id sns rest)"

fun detach_classes :: "hz12_config \<Rightarrow> nat list \<Rightarrow> H12SnapshotReclaimResult \<Rightarrow> H12SnapshotCandidate list \<Rightarrow>
    'a h12_span_state_scheme \<Rightarrow> (H12SnapshotReclaimResult \<times> H12SnapshotCandidate list \<times> 'a h12_span_state_scheme) option" where
  "detach_classes cfg [] out candidates st = Some (out, candidates, st)"
| "detach_classes cfg (c # cs) out candidates st =
    (let class_id = of_nat c; spans = map ca_span_base (filter (\<lambda>ca. ca_class_id ca = class_id) candidates) in
     if spans = [] then detach_classes cfg cs out candidates st
     else case hz12_returned_detach_complete_batch cfg class_id spans st of
       None \<Rightarrow> None
     | Some (None, st1) \<Rightarrow> Some (out\<lparr>rr_failed := rr_failed out + 1\<rparr>, candidates, st1)
     | Some (Some snapshots, st1) \<Rightarrow>
         detach_classes cfg cs (out\<lparr>rr_candidates := rr_candidates out + of_nat (length (filter sn_complete snapshots))\<rparr>)
           (mark_detached class_id snapshots candidates) st1)"

section \<open>Putting a span back\<close>

function restore_chunks :: "hz12_config \<Rightarrow> u8 \<Rightarrow> addr list \<Rightarrow> 'a h12_span_state_scheme \<Rightarrow> 'a h12_span_state_scheme" where
  "restore_chunks cfg class_id items st =
    (if items = [] then st
     else restore_chunks cfg class_id (drop 256 items) (hz12_returned_push_range cfg class_id (take 256 items) st))"
  by pat_completeness auto
termination by (relation "measure (\<lambda>(cfg, c, items, st). length items)") auto

declare restore_chunks.simps [simp del]

definition h12_snapshot_restore_span :: "hz12_config \<Rightarrow> u8 \<Rightarrow> addr \<Rightarrow> 'a h12_span_state_scheme \<Rightarrow> 'a h12_span_state_scheme" where
  "h12_snapshot_restore_span cfg class_id span_base st =
    (let slot_bytes = hz12_class_slot_size cfg class_id; slot_count = unat (HZ12_SPAN_BYTES div slot_bytes) in
     restore_chunks cfg class_id (map (\<lambda>slot. span_base + of_nat slot * slot_bytes) [0..<slot_count]) st)"

definition h12_snapshot_rollback_decommitted :: "hz12_config \<Rightarrow> addr \<Rightarrow> u8 \<Rightarrow> H12OwnerToken \<Rightarrow> 'a h12_depot_state_scheme \<Rightarrow>
    (bool \<times> 'a h12_depot_state_scheme) option" where
  "h12_snapshot_rollback_decommitted cfg span_base class_id owner st =
    (case h12_span_backing_recommit span_base st of ((ok1, _, _), st1) \<Rightarrow>
     if \<not> ok1 then Some (False, st1)
     else case hz12_span_route_attach cfg span_base class_id st1 of (ok2, st2) \<Rightarrow>
     if \<not> ok2 then Some (False, st2)
     else case h12_shadow_rehome_token span_base (ot_slot owner) (ot_generation owner) st2 of (ok3, st3) \<Rightarrow>
     if \<not> ok3 then Some (False, st3)
     else case h12_span_owner_shadow_assign span_base owner st3 of (ok4, st4) \<Rightarrow>
     if \<not> ok4 then Some (False, st4)
     else let st5 = h12_snapshot_restore_span cfg class_id span_base st4 in
       case hz12_returned_snapshot_span cfg class_id span_base st5 of
         None \<Rightarrow> None
       | Some None \<Rightarrow> Some (False, st5)
       | Some (Some sn) \<Rightarrow> Some (sn_complete sn, st5))"

section \<open>The reclaim\<close>

text \<open>The way out of the loop when a step after the decommit fails.\<close>

definition reclaim_rollback :: "hz12_config \<Rightarrow> H12OwnerToken \<Rightarrow> addr \<Rightarrow> u8 \<Rightarrow> H12SnapshotReclaimResult \<Rightarrow> 'a h12_depot_state_scheme \<Rightarrow>
    (H12SnapshotReclaimResult \<times> 'a h12_depot_state_scheme) option" where
  "reclaim_rollback cfg owner span_base class_id out st =
    (case h12_snapshot_rollback_decommitted cfg span_base class_id owner st of
       None \<Rightarrow> None
     | Some (ok, st1) \<Rightarrow> Some (out\<lparr>rr_limbo_spans := (if ok then rr_limbo_spans out else rr_limbo_spans out + 1),
         rr_failed := rr_failed out + 1\<rparr>, st1))"

text \<open>One detached candidate: the record, whether the loop goes on, and the state.\<close>

definition reclaim_one :: "hz12_config \<Rightarrow> H12OwnerToken \<Rightarrow> H12SnapshotCandidate \<Rightarrow> H12SnapshotReclaimResult \<Rightarrow> 'a h12_depot_state_scheme \<Rightarrow>
    (bool \<times> H12SnapshotReclaimResult \<times> 'a h12_depot_state_scheme) option" where
  "reclaim_one cfg owner ca out st =
    (let span_base = ca_span_base ca; class_id = ca_class_id ca in
     case hz12_span_route_detach span_base class_id st of (ok1, st1) \<Rightarrow>
     if \<not> ok1 then Some (False, out\<lparr>rr_failed := rr_failed out + 1\<rparr>, h12_snapshot_restore_span cfg class_id span_base st1)
     else let out1 = out\<lparr>rr_detached := rr_detached out + 1\<rparr> in
     case h12_span_backing_discard span_base st1 of ((ok2, _, _), st2) \<Rightarrow>
     if \<not> ok2 then Some (False, out1\<lparr>rr_failed := rr_failed out1 + 1\<rparr>,
       h12_snapshot_restore_span cfg class_id span_base (snd (hz12_span_route_attach cfg span_base class_id st2)))
     else let out2 = out1\<lparr>rr_decommitted := rr_decommitted out1 + 1, rr_decommitted_bytes := rr_decommitted_bytes out1 + HZ12_SPAN_BYTES\<rparr> in
     case h12_shadow_clear_token_if span_base (ot_slot owner) (ot_generation owner) st2 of (ok3, st3) \<Rightarrow>
     case (if ok3 then h12_span_owner_shadow_clear_if span_base owner st3 else (False, st3)) of (ok4, st4) \<Rightarrow>
     if \<not> ok4 then map_option (\<lambda>(r, st). (False, r, st)) (reclaim_rollback cfg owner span_base class_id out2 st4)
     else let out3 = out2\<lparr>rr_owner_cleared := rr_owner_cleared out2 + 1\<rparr> in
     case h12_span_depot_core_put_reserved cfg span_base class_id st4 of (r, st5) \<Rightarrow>
     if r = Put_refused then map_option (\<lambda>(r, st). (False, r, st)) (reclaim_rollback cfg owner span_base class_id out3 st5)
     else Some (True, out3\<lparr>rr_depot_inserted := rr_depot_inserted out3 + 1\<rparr>, st5))"

text \<open>The loop over the candidates; the list returned is of those still to be put back.\<close>

fun reclaim_loop :: "hz12_config \<Rightarrow> H12OwnerToken \<Rightarrow> H12SnapshotCandidate list \<Rightarrow> H12SnapshotReclaimResult \<Rightarrow> 'a h12_depot_state_scheme \<Rightarrow>
    (H12SnapshotReclaimResult \<times> H12SnapshotCandidate list \<times> 'a h12_depot_state_scheme) option" where
  "reclaim_loop cfg owner [] out st = Some (out, [], st)"
| "reclaim_loop cfg owner (ca # rest) out st =
    (if \<not> ca_detached ca then reclaim_loop cfg owner rest out st
     else case reclaim_one cfg owner ca out st of
       None \<Rightarrow> None
     | Some (go_on, out1, st1) \<Rightarrow>
         if go_on then reclaim_loop cfg owner rest out1 st1 else Some (out1, rest, st1))"

definition restore_detached :: "hz12_config \<Rightarrow> H12SnapshotCandidate list \<Rightarrow> 'a h12_span_state_scheme \<Rightarrow> 'a h12_span_state_scheme" where
  "restore_detached cfg candidates st =
    fold (\<lambda>ca. h12_snapshot_restore_span cfg (ca_class_id ca) (ca_span_base ca)) (filter ca_detached candidates) st"

text \<open>From the reservation to the label \<open>done\<close>.\<close>

definition reclaim_reserved :: "hz12_config \<Rightarrow> H12OwnerToken \<Rightarrow> H12SnapshotReclaimResult \<Rightarrow> 'a h12_depot_state_scheme \<Rightarrow>
    (H12SnapshotReclaimResult \<times> 'a h12_depot_state_scheme) option" where
  "reclaim_reserved cfg owner out st =
    (let limit = unat (rr_reserved out); failing = out\<lparr>rr_failed := rr_failed out + 1\<rparr> in
     case scan_spans cfg owner limit [0..<65536] (\<lambda>_. []) [] st of
       None \<Rightarrow> None
     | Some None \<Rightarrow> Some (failing, st)
     | Some (Some (pending, candidates)) \<Rightarrow>
         (case select_rest cfg limit [0..<class_total cfg] pending candidates st of
            None \<Rightarrow> None
          | Some None \<Rightarrow> Some (failing, st)
          | Some (Some candidates1) \<Rightarrow>
              (case detach_classes cfg [0..<class_total cfg] out candidates1 st of
                 None \<Rightarrow> None
               | Some (out1, candidates2, st1) \<Rightarrow>
                   if rr_failed out1 \<noteq> 0 then Some (out1, restore_detached cfg candidates2 st1)
                   else (case reclaim_loop cfg owner candidates2 out1 st1 of
                           None \<Rightarrow> None
                         | Some (out2, rest, st2) \<Rightarrow>
                             Some (out2, if rr_failed out2 \<noteq> 0 then restore_detached cfg rest st2 else st2)))))"

text \<open>The result record is \<open>None\<close> where the function returns before it is cleared.\<close>

definition h12_snapshot_reclaim_retired_bounded :: "hz12_config \<Rightarrow> H12OwnerToken \<Rightarrow> u32 \<Rightarrow> 'a h12_depot_state_scheme \<Rightarrow>
    ((bool \<times> H12SnapshotReclaimResult option) \<times> 'a h12_depot_state_scheme) option" where
  "h12_snapshot_reclaim_retired_bounded cfg owner budget st =
    (if budget = 0 \<or> budget > 64 then Some ((False, None), st)
     else let out = empty_reclaim_result\<lparr>rr_budget := budget\<rparr> in
       case h12_owner_retire_gate_ready owner st of (ready, st1) \<Rightarrow>
       if \<not> ready then Some ((False, Some out), st1)
       else case hz12_flush_owner_route_pending (ot_slot owner) (ot_generation owner) st1 of ((found, pending), st2) \<Rightarrow>
       if \<not> found \<or> pending \<noteq> 0 then Some ((False, Some out), st2)
       else case h12_reclaim_entry_begin owner st2 of (entered, st3) \<Rightarrow>
       if \<not> entered then Some ((False, Some out), st3)
       else case h12_span_depot_core_reserve budget st3 of (reserved, st4) \<Rightarrow>
       let out1 = out\<lparr>rr_reserved := reserved\<rparr> in
       case (if reserved = 0 then Some (out1, st4) else reclaim_reserved cfg owner out1 st4) of
         None \<Rightarrow> None
       | Some (out2, st5) \<Rightarrow>
           let st6 = (if rr_reserved out2 > rr_depot_inserted out2
                      then h12_span_depot_core_release_reservation (rr_reserved out2 - rr_depot_inserted out2) st5 else st5) in
           case h12_reclaim_entry_end owner st6 of (left, st7) \<Rightarrow>
           let out3 = (if left then out2 else out2\<lparr>rr_failed := rr_failed out2 + 1\<rparr>) in
           Some ((rr_failed out3 = 0 \<and> rr_limbo_spans out3 = 0 \<and> rr_depot_inserted out3 \<noteq> 0, Some out3), st7))"

section \<open>Recycling\<close>

record H12SnapshotRecycleResult =
  rt_span_base :: addr
  rt_before_state :: u32
  rt_after_state :: u32
  rt_class_id :: u8
  rt_recommitted :: bool
  rt_route_attached :: bool
  rt_owner_assigned :: bool
  rt_current_installed :: bool
  rt_rollback :: bool

definition empty_recycle_result :: H12SnapshotRecycleResult where
  "empty_recycle_result = \<lparr>rt_span_base = 0, rt_before_state = 0, rt_after_state = 0, rt_class_id = 0, rt_recommitted = False,
     rt_route_attached = False, rt_owner_assigned = False, rt_current_installed = False, rt_rollback = False\<rparr>"

text \<open>The cache of the thread in the build with the flush route: a new cache is cleared and attached.\<close>

definition route_cache_get :: "hz12_config \<Rightarrow> hz12_route_config \<Rightarrow> nat \<Rightarrow> 'a h12_route_state_scheme \<Rightarrow>
    H12ThreadCache option \<times> 'a h12_route_state_scheme" where
  "route_cache_get cfg rc t st =
    (case hz12_tls (h12_thread st t) of
       Some tc \<Rightarrow> (Some tc, st)
     | None \<Rightarrow>
         (case hz12_thread_cache_init_slow cfg t st of
            (None, st1) \<Rightarrow> (None, st1)
          | (Some tc, st1) \<Rightarrow> (Some tc, hz12_flush_owner_route_attach rc t
              (set_flush_owner t \<lparr>fo_id = 0, fo_generation = 0, fo_valid = False\<rparr> st1))))"

definition recycle_rollback :: "hz12_config \<Rightarrow> H12SpanDepotCoreEntry \<Rightarrow> H12OwnerToken \<Rightarrow> H12SnapshotRecycleResult \<Rightarrow>
    'a h12_depot_state_scheme \<Rightarrow> (bool \<times> H12SnapshotRecycleResult) \<times> 'a h12_depot_state_scheme" where
  "recycle_rollback cfg entry owner out st =
    (let span_base = de_span_base entry; class_id = de_class_id entry;
         st1 = (if rt_owner_assigned out
                then snd (h12_span_owner_shadow_clear_if span_base owner
                       (snd (h12_shadow_clear_token_if span_base (ot_slot owner) (ot_generation owner) st)))
                else st);
         st2 = (if rt_route_attached out then snd (hz12_span_route_detach span_base class_id st1) else st1);
         st3 = (if rt_recommitted out then snd (h12_span_backing_discard span_base st2) else st2) in
     ((False, out\<lparr>rt_rollback := True, rt_owner_assigned := False, rt_route_attached := False, rt_recommitted := False\<rparr>),
      snd (h12_span_depot_core_put_decommitted cfg span_base class_id st3)))"

definition h12_snapshot_recycle_take :: "hz12_config \<Rightarrow> hz12_route_config \<Rightarrow> nat \<Rightarrow> u8 \<Rightarrow> 'a h12_depot_state_scheme \<Rightarrow>
    (bool \<times> H12SnapshotRecycleResult option) \<times> 'a h12_depot_state_scheme" where
  "h12_snapshot_recycle_take cfg rc t class_id st =
    (if class_id \<ge> HZ12_CLASS_COUNT cfg then ((False, None), st)
     else case h12_span_depot_core_take cfg class_id st of
       (None, st1) \<Rightarrow> ((False, Some empty_recycle_result), st1)
     | (Some entry, st1) \<Rightarrow>
         let span_base = de_span_base entry; out = empty_recycle_result\<lparr>rt_span_base := span_base, rt_class_id := de_class_id entry\<rparr>;
             none = \<lparr>ot_slot = 0, ot_generation = 0\<rparr>;
             back = (\<lambda>owner out st. case recycle_rollback cfg entry owner out st of ((r, out), st) \<Rightarrow> ((r, Some out), st)) in
         case h12_span_backing_recommit span_base st1 of ((ok1, before, after), st2) \<Rightarrow>
         let out1 = out\<lparr>rt_recommitted := ok1, rt_before_state := (case before of None \<Rightarrow> 0 | Some s \<Rightarrow> s),
                        rt_after_state := (case after of None \<Rightarrow> 0 | Some s \<Rightarrow> s)\<rparr> in
         if \<not> ok1 then back none out1 st2
         else case hz12_span_route_attach cfg span_base (de_class_id entry) st2 of (ok2, st3) \<Rightarrow>
         let out2 = out1\<lparr>rt_route_attached := ok2\<rparr> in
         if \<not> ok2 then back none out2 st3
         else case route_cache_get cfg rc t st3 of
           (None, st4) \<Rightarrow> back none out2 st4
         | (Some tc, st4) \<Rightarrow>
             let st5 = hz12_flush_owner_route_attach rc t st4; fo = h12_flush_owner st5 t;
                 owner = (if fo_valid fo then \<lparr>ot_slot = fo_id fo, ot_generation = fo_generation fo\<rparr> else none) in
             case (if ot_generation owner \<noteq> 0 then h12_shadow_rehome_token span_base (ot_slot owner) (ot_generation owner) st5
                   else (False, st5)) of (ok3, st6) \<Rightarrow>
             case (if ok3 then h12_span_owner_shadow_assign span_base owner st6 else (False, st6)) of (ok4, st7) \<Rightarrow>
             let out3 = out2\<lparr>rt_owner_assigned := ok4\<rparr> in
             if \<not> ok4 then back owner out3 st7
             else case h12_current_span_install cfg (de_class_id entry) span_base tc of (ok5, tc1) \<Rightarrow>
             let out4 = out3\<lparr>rt_current_installed := ok5\<rparr> in
             if \<not> ok5 then back owner out4 st7
             else ((True, Some out4), store_tls t tc1 st7))"

end
