(* ===== verification/Spec2Isabelle.thy ===== *)
theory Spec2Isabelle
  imports Hz10_Shim Hz10_Remote_Protocol Hz10_Adoption Hz10_Flush_Correct Hz10_Large_Correct
    Hz10_Shim_Correct Hz10_Pagemap_Wf Hz10_Quantum_Race Hz12_Entry_Correct Hz12_Cache_Bounds
    Hz12_Token_Lane Hz12_Route_Correct Hz12_Snapshot_Reclaim
begin

text \<open>
  A model in HOL of two allocators of this repository, HZ10 (\<open>src/hakozuna-hz10/src\<close>) and HZ12
  (\<open>src/hakozuna-hz12/src\<close>), and the theorems that make them correct. This theory imports all others.

  \<^bold>\<open>HZ10.\<close> Memory comes in 64 KiB quanta. A quantum holds a page of slots of one size class; the page
  header lives in separate metadata. The page map routes any pointer to its page or to nothing. The thread
  that owns a page allocates and frees on a freelist threaded through the slots, other threads push freed
  slots on stripes of the page, which the owner drains. The parts and their theories:
  \<^item> \<open>Hz10_Prelude\<close>, \<open>Hz10_Config\<close>: word arithmetic, intrusive lists, the build options.
  \<^item> \<open>Hz10_Intrusive\<close>: stacks threaded through their nodes, a locale that the freelist, the stripes, the
    metadata list, the page pool, the ready stack and the sinks of HZ12 interpret.
  \<^item> \<open>Hz10_Size_Class\<close> (\<open>hz10_size_class\<close>): the class table and the arithmetic that picks a class.
  \<^item> \<open>Hz10_Platform\<close>, \<open>Hz10_Pagemap\<close>, \<open>Hz10_Pagemap_Wf\<close> (\<open>hz10_platform\<close>, \<open>hz10_pagemap\<close>): registration,
    release, routing with generations; every record ever reachable is well formed.
  \<^item> \<open>Hz10_Freelist_Page\<close>, \<open>Hz10_Page_Lifecycle\<close> (\<open>hz10_freelist_page\<close>): the page and where it comes from
    and goes to; \<open>Hz10_Quantum_Race\<close> takes the reservoir apart into its atomic steps.
  \<^item> \<open>Hz10_Remote_Stack\<close>, \<open>Hz10_Remote_Protocol\<close> (\<open>hz10_remote_stack\<close>): the remote free, as operations and
    as interleaved atomic steps of any number of threads.
  \<^item> \<open>Hz10_Page_Pool\<close>, \<open>Hz10_Retired_Ready\<close> (\<open>hz10_page_pool\<close>, \<open>hz10_pooled_page\<close>, \<open>hz10_retired_ready\<close>).
  \<^item> \<open>Hz10_Page_Sublist\<close>, \<open>Hz10_Class_Pages\<close>, \<open>Hz10_Class_Pages_Correct\<close>, \<open>Hz10_Pages_Rep\<close>
    (\<open>hz10_class_pages\<close>): the active and retired pages of a class.
  \<^item> \<open>Hz10_Large_Alloc\<close>, \<open>Hz10_Large_Correct\<close> (\<open>hz10_large_alloc\<close>): blocks above a quantum.
  \<^item> \<open>Hz10_Owner\<close>, \<open>Hz10_Owner_Correct\<close>, \<open>Hz10_Adoption\<close> (\<open>hz10_public_entry_owner\<close>): thread owners and the
    queue of orphaned pages.
  \<^item> \<open>Hz10_Public_Entry\<close>, \<open>Hz10_Public_Entry_Correct\<close>, \<open>Hz10_Lifecycle_Flush\<close>, \<open>Hz10_Flush_Correct\<close>
    (\<open>hz10_public_entry\<close>): malloc and free, the front cache, the quiescent flush.
  \<^item> \<open>Hz10_Shim\<close>, \<open>Hz10_Shim_Correct\<close> (\<open>hz10_shim.c\<close>): the C allocation functions and the census.

  \<^bold>\<open>HZ12.\<close> A 4 GiB arena is carved into 64 KiB spans of one class each. Every thread has a cache of free
  objects per class and a current span; objects that overflow a cache go to a sink per class shared by all
  threads. The token lane has no arena and remembers the class of a pointer in a table of the thread.
  \<^item> \<open>Hz12_Size_Class\<close>, \<open>Hz12_Span\<close>, \<open>Hz12_Span_Correct\<close> (\<open>hz12_size_class\<close>, \<open>hz12_span\<close>): the class table, the
    arena, the sinks, and the snapshots that tell whether a whole span is back in its sink.
  \<^item> \<open>Hz12_Sys_Alloc\<close> (\<open>hz12_sys_alloc.c\<close>): the system allocator and the bootstrap buffer.
  \<^item> \<open>Hz12_Thread_Cache\<close>, \<open>Hz12_Public_Entry\<close> (\<open>hz12_thread_cache\<close>, \<open>hz12_token_table.h\<close>,
    \<open>hz12_public_entry.c\<close>): both lanes with their refill, flush and accounting options.
  \<^item> \<open>Hz12_Cache_Correct\<close>, \<open>Hz12_Entry_Correct\<close>: every slot is in one place, whatever thread allocates or
    frees; live objects are disjoint and keep their contents. \<open>Hz12_Cache_Bounds\<close>: what a cache can hold.
    \<open>Hz12_Token_Lane\<close>: what an old token does.
  \<^item> \<open>Hz12_Owner_Registry\<close> (\<open>hz12_owner_registry\<close>): owner tokens and their generations.
  \<^item> \<open>Hz12_Owner_Epoch\<close> (\<open>hz12_owner_epoch\<close>): the participants an owner's retirement waits for.
  \<^item> \<open>Hz12_Token_Inbox\<close> (\<open>hz12_token_inbox\<close>, \<open>hz12_owner_retire_gate\<close>) and \<open>Hz12_Inbox_Correct\<close>: objects freed by
    other threads wait in the inbox of their owner; publishing and draining lose and duplicate none.
  \<^item> \<open>Hz12_Shadow\<close> (\<open>hz12_shadow\<close>, \<open>hz12_span_owner_shadow\<close>): the owner token of every span.
  \<^item> \<open>Hz12_Flush_Route\<close> (\<open>hz12_flush_owner_route\<close>) and \<open>Hz12_Route_Correct\<close>: a flushed batch goes to its owners'
    inboxes and to the sink; the sinks, the inboxes and the private chains are one family of lists in one memory.
  \<^item> \<open>Hz12_Span_Depot\<close> (\<open>hz12_span_backing\<close>, \<open>hz12_span_depot_core\<close>, \<open>hz12_reclaim_entry\<close>,
    \<open>hz12_current_span_install\<close>): decommitted spans and their depot, refined to a set with reservations.
  \<^item> \<open>Hz12_Snapshot_Reclaim\<close> (\<open>hz12_snapshot_reclaim\<close>, \<open>hz12_snapshot_recycle\<close>): the complete spans of a retired owner
    go to the depot, and back to a thread.

  \<^bold>\<open>How the code is read.\<close> A pointer is a 64-bit word, 0 is NULL; memory is a function from addresses to
  words, one cell for the word a link occupies. C integers keep their width. Structures are records, the
  static variables of a file are the fields of a state record that the functions take and return. A section
  under a lock, and an atomic operation, is one step; where interleavings matter the steps are an inductive
  relation or a list of operations run in any order. What the operating system or the system allocator answers
  is a field of the state, consumed call by call, so the theorems hold for all answers. Errors are option
  values or the return codes of the source.

  \<^bold>\<open>Loops.\<close> Loops with a bound in the source recurse over it: 128 pages in a scan of the active list, 4 in
  the harvest sweep, 16 orphans in an adoption, 64 slots of a registry, 65536 spans of the arena. Walks over
  linked lists are \<open>partial_function (option)\<close>, \<open>None\<close> being a walk that does not end; each has a theorem that
  it returns on a list, and \<open>double_push_never_detected\<close> one where it does not.

  \<^bold>\<open>Not modelled.\<close> The Windows branches (except where a build option is shared), the builds that only count
  statistics, the array variant of the HZ10 front cache, printed text, fork handlers and thread creation. Of
  HZ12: the batch ledgers, span accounting and older reclaim experiments, the transfer cache and the per-CPU cache. The other allocators of the repository (HZ3 to
  HZ9, HZ11), the benchmarks and the platform harnesses are not part of this development.
\<close>

end
